(* ===== verification/Objc_Prelude.thy ===== *)
theory Objc_Prelude
  imports Main "HOL-Library.Word" "HOL-Library.Monad_Syntax"
begin

text \<open>
  Shared vocabulary of the development: the machine integers of the 64-bit targets of
  the runtime, the collections of facts the component theories feed to the simplifier,
  and generic lemmas on words, lists and options.

  The runtime is C code for LP64 and LLP64 hosts. \<open>size_t\<close> and \<open>uintptr_t\<close> are 64-bit
  words, \<open>uint32_t\<close> and \<open>unsigned int\<close> 32-bit words; a C \<open>BOOL\<close> is a \<open>bool\<close>.
\<close>

type_synonym size_t = "64 word"
type_synonym uintptr_t = "64 word"
type_synonym uint64 = "64 word"
type_synonym uint32 = "32 word"

named_theorems overflow_simps \<open>exact conditions of the checked size arithmetic\<close>
named_theorems heap_simps \<open>reads after writes in the explicit stores of the model\<close>
named_theorems inv_intros \<open>preservation of component invariants\<close>

definition SIZE_MAX :: size_t where
  "SIZE_MAX = - 1"

definition UINT32_MAX :: uint32 where
  "UINT32_MAX = - 1"

definition INT_MAX :: nat where
  "INT_MAX = 2147483647"

definition UINT_MAX :: nat where
  "UINT_MAX = 4294967295"

text \<open>
  Loops over a range in code whose body may fail: \<open>None\<close> is undefined behaviour (a
  dangling or null dereference) or an abort.
\<close>

primrec foldM :: "('b \<Rightarrow> 'a \<Rightarrow> 'b option) \<Rightarrow> 'b \<Rightarrow> 'a list \<Rightarrow> 'b option" where
  "foldM f s [] = Some s"
| "foldM f s (x # xs) = Option.bind (f s x) (\<lambda>s'. foldM f s' xs)"

text \<open>Search loops: the first element whose body yields a result ends the loop.\<close>

primrec scanM :: "('a \<Rightarrow> 'b option option) \<Rightarrow> 'a list \<Rightarrow> 'b option option" where
  "scanM f [] = Some None"
| "scanM f (x # xs) =
     Option.bind (f x) (\<lambda>r. case r of Some y \<Rightarrow> Some (Some y) | None \<Rightarrow> scanM f xs)"

primrec anyM :: "('a \<Rightarrow> bool option) \<Rightarrow> 'a list \<Rightarrow> bool option" where
  "anyM f [] = Some False"
| "anyM f (x # xs) = Option.bind (f x) (\<lambda>b. if b then Some True else anyM f xs)"

lemma unat_SIZE_MAX [simp]: "unat SIZE_MAX = 2 ^ 64 - 1"
  by (simp add: SIZE_MAX_def unsigned_minus_1_eq_mask mask_eq_exp_minus_1)

lemma unat_UINT32_MAX [simp]: "unat UINT32_MAX = 2 ^ 32 - 1"
  by (simp add: UINT32_MAX_def unsigned_minus_1_eq_mask mask_eq_exp_minus_1)

lemma unat_SIZE_MAX_minus [simp]: "unat (SIZE_MAX - x) = 2 ^ 64 - 1 - unat x"
proof -
  have "x \<le> SIZE_MAX" by (simp add: SIZE_MAX_def)
  then show ?thesis by (simp add: unat_sub)
qed

lemma unat_size_lt [simp]: "unat (x :: size_t) < 18446744073709551616"
  using unsigned_less [of x, where 'a = nat] by simp

lemma unat_u32_lt [simp]: "unat (x :: uint32) < 4294967296"
  using unsigned_less [of x, where 'a = nat] by simp

lemma size_add_guard [overflow_simps]:
  "\<not> (SIZE_MAX - r < l) \<longleftrightarrow> unat l + unat r < 2 ^ 64"
proof -
  have g: "a < m \<Longrightarrow> (\<not> m - 1 - a < b) = (b + a < m)" for a b m :: nat by arith
  have "unat r < 2 ^ 64" by simp
  from g [OF this] show ?thesis unfolding word_less_nat_alt unat_SIZE_MAX_minus .
qed

lemma unat_add_size:
  "unat (l :: size_t) + unat r < 2 ^ 64 \<Longrightarrow> unat (l + r) = unat l + unat r"
  by (simp add: unat_word_ariths)

lemma unat_mult_size:
  "unat (l :: size_t) * unat r < 2 ^ 64 \<Longrightarrow> unat (l * r) = unat l * unat r"
  by (simp add: unat_word_ariths)

lemma size_mult_guard [overflow_simps]:
  assumes "r \<noteq> 0"
  shows "\<not> (SIZE_MAX div r < l) \<longleftrightarrow> unat l * unat r < 2 ^ 64"
proof -
  have r: "0 < unat r" using assms by (simp add: unat_gt_0)
  have "\<not> (SIZE_MAX div r < l) \<longleftrightarrow> unat l \<le> (2 ^ 64 - 1) div unat r"
    by (simp add: word_less_nat_alt unat_div not_less)
  also have "\<dots> \<longleftrightarrow> unat l * unat r \<le> 2 ^ 64 - 1"
    by (rule less_eq_div_iff_mult_less_eq [OF r])
  finally show ?thesis by auto
qed

lemma nth_list_update_if [heap_simps]:
  "i < length xs \<Longrightarrow> xs[i := v] ! j = (if j = i then v else xs ! j)"
  by (cases "j = i") auto

lemma foldM_append: "foldM f s (xs @ ys) = Option.bind (foldM f s xs) (\<lambda>t. foldM f t ys)"
  by (induction xs arbitrary: s) (auto split: bind_splits)

lemma foldM_invariant:
  assumes "P s []"
    and "\<And>t x ys zs. xs = ys @ x # zs \<Longrightarrow> P t ys \<Longrightarrow> \<exists>t'. f t x = Some t' \<and> P t' (ys @ [x])"
  shows "\<exists>t. foldM f s xs = Some t \<and> P t xs"
  using assms
proof (induction xs rule: rev_induct)
  case Nil
  then show ?case by simp
next
  case (snoc x xs)
  have "\<exists>t. foldM f s xs = Some t \<and> P t xs"
  proof (rule snoc.IH [OF snoc.prems(1)])
    fix t y ys zs
    assume "xs = ys @ y # zs" and "P t ys"
    then show "\<exists>t'. f t y = Some t' \<and> P t' (ys @ [y])"
      by (intro snoc.prems(2) [where zs = "zs @ [x]"]) simp_all
  qed
  then obtain t where t: "foldM f s xs = Some t" "P t xs" by blast
  from snoc.prems(2) [of xs x "[]", OF _ t(2)] obtain t' where "f t x = Some t'" "P t' (xs @ [x])"
    by auto
  with t show ?case by (simp add: foldM_append)
qed

end
