(* ===== verification/Objc_Allocation.thy ===== *)
theory Objc_Allocation
  imports Objc_Prelude
begin

text \<open>
  Checked size arithmetic of \<open>src/internal/support/allocation.h\<close>. Every allocation of a
  variable-length runtime structure computes its byte count here. Each C function
  returns 0 (here \<open>None\<close>) when the out-parameter is \<open>NULL\<close> (the Boolean argument is
  whether it is not) or the mathematical result does not fit in \<open>size_t\<close>, and stores the
  result otherwise.
\<close>

definition objc2_size_add :: "bool \<Rightarrow> size_t \<Rightarrow> size_t \<Rightarrow> size_t option" where
  "objc2_size_add result left right =
     (if \<not> result then None
      else if SIZE_MAX - right < left then None
      else Some (left + right))"

definition objc2_size_multiply :: "bool \<Rightarrow> size_t \<Rightarrow> size_t \<Rightarrow> size_t option" where
  "objc2_size_multiply result left right =
     (if \<not> result then None
      else if right \<noteq> 0 \<and> SIZE_MAX div right < left then None
      else Some (left * right))"

definition objc2_flexible_array_size ::
  "bool \<Rightarrow> size_t \<Rightarrow> size_t \<Rightarrow> size_t \<Rightarrow> size_t option" where
  "objc2_flexible_array_size result headerSize count elementSize =
     (if \<not> result then None
      else case objc2_size_multiply True count elementSize of
             None \<Rightarrow> None
           | Some elementsSize \<Rightarrow>
               if SIZE_MAX - elementsSize < headerSize then None
               else Some (headerSize + elementsSize))"

lemma objc2_size_add_Some [overflow_simps]:
  "objc2_size_add True l r = Some n \<longleftrightarrow> unat l + unat r < 2 ^ 64 \<and> n = l + r"
  using size_add_guard [of r l] by (auto simp: objc2_size_add_def)

lemma objc2_size_add_None [overflow_simps]:
  "objc2_size_add True l r = None \<longleftrightarrow> 2 ^ 64 \<le> unat l + unat r"
  using size_add_guard [of r l] by (auto simp: objc2_size_add_def not_less)

lemma objc2_size_multiply_Some [overflow_simps]:
  "objc2_size_multiply True l r = Some n \<longleftrightarrow> unat l * unat r < 2 ^ 64 \<and> n = l * r"
  using size_mult_guard [of r l] by (cases "r = 0") (auto simp: objc2_size_multiply_def)

lemma objc2_size_multiply_None [overflow_simps]:
  "objc2_size_multiply True l r = None \<longleftrightarrow> 2 ^ 64 \<le> unat l * unat r"
  using size_mult_guard [of r l]
  by (cases "r = 0") (auto simp: objc2_size_multiply_def not_less)

lemma flexible_size_Some:
  "objc2_flexible_array_size True h c e = Some n \<longleftrightarrow>
     unat h + unat c * unat e < 2 ^ 64 \<and> n = h + c * e"
proof (cases "unat c * unat e < 2 ^ 64")
  case True
  then have m: "objc2_size_multiply True c e = Some (c * e)"
    by (simp add: objc2_size_multiply_Some)
  have u: "unat (c * e) = unat c * unat e" using True by (rule unat_mult_size)
  show ?thesis
    using size_add_guard [of "c * e" h] by (auto simp: objc2_flexible_array_size_def m u)
next
  case False
  then have m: "objc2_size_multiply True c e = None"
    by (simp add: objc2_size_multiply_None)
  from False show ?thesis by (auto simp: objc2_flexible_array_size_def m)
qed

lemma flexible_small:
  assumes "n \<le> INT_MAX"
  shows "objc2_flexible_array_size True 8 (of_nat n) 16 = Some (8 + of_nat n * 16)"
proof -
  have n: "unat (of_nat n :: size_t) = n"
    using assms by (simp only: unat_of_nat INT_MAX_def) simp
  have "unat (8 :: size_t) + unat (of_nat n :: size_t) * unat (16 :: size_t) < 2 ^ 64"
    unfolding n using assms by (simp add: INT_MAX_def)
  then show ?thesis unfolding flexible_size_Some by blast
qed

text \<open>
  The byte count of a flexible-array structure is computed exactly when the
  mathematical size fits in \<open>size_t\<close>, and then it is that size without wrap-around; in
  every other case (a \<open>NULL\<close> result pointer or an overflow in either step) the function
  reports failure.
\<close>

theorem flexible_array_size_exact:
  "map_option unat (objc2_flexible_array_size result headerSize count elementSize) =
     (if result \<and> unat headerSize + unat count * unat elementSize < 2 ^ 64
      then Some (unat headerSize + unat count * unat elementSize) else None)"
proof (cases "result \<and> unat headerSize + unat count * unat elementSize < 2 ^ 64")
  case True
  then have m: "unat (count * elementSize) = unat count * unat elementSize"
    by (intro unat_mult_size) simp
  from True have "objc2_flexible_array_size result headerSize count elementSize =
      Some (headerSize + count * elementSize)"
    by (simp add: flexible_size_Some)
  moreover have "unat (headerSize + count * elementSize) =
      unat headerSize + unat count * unat elementSize"
    using True m unat_add_size [of headerSize "count * elementSize"] by simp
  ultimately show ?thesis using True by simp
next
  case False
  then have "objc2_flexible_array_size result headerSize count elementSize = None"
  proof (cases result)
    case True
    with False show ?thesis
      using flexible_size_Some [of headerSize count elementSize]
      by (cases "objc2_flexible_array_size True headerSize count elementSize") auto
  qed (simp add: objc2_flexible_array_size_def)
  with False show ?thesis by auto
qed

end
