(* ===== verification/Objc_Sparse_Array.thy ===== *)
theory Objc_Sparse_Array
  imports Objc_Prelude
begin

text \<open>
  The sparse arrays of \<open>src/dispatch/sarray2.c\<close> and \<open>src/internal/dispatch/sarray2.h\<close>, which
  hold the dispatch tables: 256-way trees over 32-bit indices whose inner nodes are
  shared between copies and reference counted (copy on write).

  The model keeps an explicit store of nodes. A pointer is one of the four statically
  allocated empty arrays or a heap address; a data cell of a node is a value (\<open>None\<close> is
  \<open>SARRAY_EMPTY\<close>) or a child pointer. \<open>calloc\<close> may fail: the store carries the outcome of
  every allocation attempt. Operations return \<open>None\<close> where the C code dereferences a
  dangling pointer, writes to a constant array, fails an assertion or reaches
  \<open>UNREACHABLE\<close>; recursions carry fuel, and the theorems below show that the four levels of
  a 32-bit array are enough. \<open>shift\<close> and \<open>depth\<close> are naturals (the code bounds them by 32),
  \<open>refCount\<close> is a 32-bit word.
\<close>

unbundle bit_operations_syntax

datatype sa_ptr = EmptyArray | EmptyArray8 | EmptyArray16 | EmptyArray24 | Node nat

datatype 'v sa_cell = Value "'v option" | Child sa_ptr

record 'v sa_node =
  sa_shift :: nat
  sa_refCount :: uint32
  sa_data :: "nat \<Rightarrow> 'v sa_cell"

record 'v sa_heap =
  sa_nodes :: "nat \<Rightarrow> 'v sa_node option"
  sa_brk :: nat
  sa_calloc_fails :: "nat \<Rightarrow> bool"
  sa_attempts :: nat

definition sa_empty_heap :: "(nat \<Rightarrow> bool) \<Rightarrow> 'v sa_heap" where
  "sa_empty_heap fails =
     \<lparr>sa_nodes = (\<lambda>_. None), sa_brk = 0, sa_calloc_fails = fails, sa_attempts = 0\<rparr>"

fun sa_deref :: "'v sa_heap \<Rightarrow> sa_ptr \<Rightarrow> 'v sa_node option" where
  "sa_deref h EmptyArray = Some \<lparr>sa_shift = 0, sa_refCount = 0, sa_data = (\<lambda>_. Value None)\<rparr>"
| "sa_deref h EmptyArray8 =
     Some \<lparr>sa_shift = 8, sa_refCount = 0, sa_data = (\<lambda>_. Child EmptyArray)\<rparr>"
| "sa_deref h EmptyArray16 =
     Some \<lparr>sa_shift = 16, sa_refCount = 0, sa_data = (\<lambda>_. Child EmptyArray8)\<rparr>"
| "sa_deref h EmptyArray24 =
     Some \<lparr>sa_shift = 24, sa_refCount = 0, sa_data = (\<lambda>_. Child EmptyArray16)\<rparr>"
| "sa_deref h (Node a) = sa_nodes h a"

fun child_ptr :: "'v sa_cell \<Rightarrow> sa_ptr option" where
  "child_ptr (Child c) = Some c"
| "child_ptr (Value v) = None"

fun cell_value :: "'v sa_cell \<Rightarrow> 'v option option" where
  "cell_value (Value v) = Some v"
| "cell_value (Child c) = None"

definition sa_set :: "'v sa_heap \<Rightarrow> nat \<Rightarrow> 'v sa_node \<Rightarrow> 'v sa_heap" where
  "sa_set h a n = h\<lparr>sa_nodes := (sa_nodes h)(a := Some n)\<rparr>"

definition sa_free :: "'v sa_heap \<Rightarrow> nat \<Rightarrow> 'v sa_heap" where
  "sa_free h a = h\<lparr>sa_nodes := (sa_nodes h)(a := None)\<rparr>"

fun sa_update :: "'v sa_heap \<Rightarrow> sa_ptr \<Rightarrow> ('v sa_node \<Rightarrow> 'v sa_node) \<Rightarrow> 'v sa_heap option" where
  "sa_update h (Node a) f = map_option (\<lambda>n. sa_set h a (f n)) (sa_nodes h a)"
| "sa_update h _ f = None"

definition sa_calloc :: "'v sa_heap \<Rightarrow> 'v sa_heap \<times> nat option" where
  "sa_calloc h =
     (if sa_calloc_fails h (sa_attempts h) then (h\<lparr>sa_attempts := Suc (sa_attempts h)\<rparr>, None)
      else (h\<lparr>sa_attempts := Suc (sa_attempts h), sa_brk := Suc (sa_brk h),
              sa_nodes := (sa_nodes h)(sa_brk h :=
                Some \<lparr>sa_shift = 0, sa_refCount = 0, sa_data = (\<lambda>_. Value None)\<rparr>)\<rparr>,
            Some (sa_brk h)))"

definition base_shift :: nat where
  "base_shift = 8"

definition mask_index :: "nat \<Rightarrow> uint32 \<Rightarrow> nat" where
  "mask_index s index = unat (drop_bit s index AND 0xff)"

definition EmptyChildForShift :: "nat \<Rightarrow> sa_ptr option" where
  "EmptyChildForShift s =
     (if s = 8 then Some EmptyArray
      else if s = 16 then Some EmptyArray8
      else if s = 24 then Some EmptyArray16
      else None)"

definition init_pointers :: "'v sa_heap \<Rightarrow> nat \<Rightarrow> 'v sa_heap option" where
  "init_pointers h a =
     do {
       n \<leftarrow> sa_nodes h a;
       if sa_shift n \<noteq> 0 then
         do {
           c \<leftarrow> EmptyChildForShift (sa_shift n);
           Some (sa_set h a (n\<lparr>sa_data := (\<lambda>i. if i \<le> 0xff then Child c else sa_data n i)\<rparr>))
         }
       else Some h
     }"

definition valid_depth :: "nat \<Rightarrow> bool" where
  "valid_depth depth \<longleftrightarrow> base_shift \<le> depth \<and> depth \<le> 32 \<and> depth mod base_shift = 0"

definition SparseArrayNewWithDepth ::
  "'v sa_heap \<Rightarrow> nat \<Rightarrow> ('v sa_heap \<times> sa_ptr option) option" where
  "SparseArrayNewWithDepth h depth =
     (if \<not> valid_depth depth then Some (h, None)
      else case sa_calloc h of
        (h1, None) \<Rightarrow> Some (h1, None)
      | (h1, Some a) \<Rightarrow>
          do {
            n \<leftarrow> sa_nodes h1 a;
            h2 \<leftarrow> init_pointers (sa_set h1 a (n\<lparr>sa_refCount := 1, sa_shift := depth - base_shift\<rparr>)) a;
            Some (h2, Some (Node a))
          })"

definition SparseArrayNew :: "'v sa_heap \<Rightarrow> ('v sa_heap \<times> sa_ptr option) option" where
  "SparseArrayNew h = SparseArrayNewWithDepth h 32"

definition is_empty_child :: "sa_ptr \<Rightarrow> bool" where
  "is_empty_child c \<longleftrightarrow>
     c = EmptyArray \<or> c = EmptyArray8 \<or> c = EmptyArray16 \<or> c = EmptyArray24"

text \<open>The unrolled lookup that message dispatch inlines, one case per tree height.\<close>

definition sa_child_at :: "'v sa_heap \<Rightarrow> 'v sa_node \<Rightarrow> nat \<Rightarrow> 'v sa_node option" where
  "sa_child_at h n i = do { c \<leftarrow> child_ptr (sa_data n i); sa_deref h c }"

definition SparseArrayLookup :: "'v sa_heap \<Rightarrow> sa_ptr \<Rightarrow> uint32 \<Rightarrow> 'v option option" where
  "SparseArrayLookup h sarray index =
     do {
       n \<leftarrow> sa_deref h sarray;
       if sa_shift n = 0 then cell_value (sa_data n (unat (index AND 0xff)))
       else if sa_shift n = 8 then
         do {
           n1 \<leftarrow> sa_child_at h n (unat (drop_bit 8 (index AND 0xff00)));
           cell_value (sa_data n1 (unat (index AND 0xff)))
         }
       else if sa_shift n = 16 then
         do {
           n1 \<leftarrow> sa_child_at h n (unat (drop_bit 16 (index AND 0xff0000)));
           n2 \<leftarrow> sa_child_at h n1 (unat (drop_bit 8 (index AND 0xff00)));
           cell_value (sa_data n2 (unat (index AND 0xff)))
         }
       else if sa_shift n = 24 then
         do {
           n1 \<leftarrow> sa_child_at h n (unat (drop_bit 24 (index AND 0xff000000)));
           n2 \<leftarrow> sa_child_at h n1 (unat (drop_bit 16 (index AND 0xff0000)));
           n3 \<leftarrow> sa_child_at h n2 (unat (drop_bit 8 (index AND 0xff00)));
           cell_value (sa_data n3 (unat (index AND 0xff)))
         }
       else None
     }"

text \<open>The loop that the unrolled lookup replaces (kept as a comment in the header file).\<close>

fun SparseArrayLookupLoop :: "nat \<Rightarrow> 'v sa_heap \<Rightarrow> sa_ptr \<Rightarrow> uint32 \<Rightarrow> 'v option option" where
  "SparseArrayLookupLoop 0 h p index = None"
| "SparseArrayLookupLoop (Suc fuel) h p index =
     do {
       n \<leftarrow> sa_deref h p;
       if sa_shift n > 0 then
         do {
           c \<leftarrow> child_ptr (sa_data n (mask_index (sa_shift n) index));
           SparseArrayLookupLoop fuel h c index
         }
       else cell_value (sa_data n (unat (index AND 0xff)))
     }"

definition sa_retain_child :: "'v sa_node \<Rightarrow> 'v sa_heap \<Rightarrow> nat \<Rightarrow> 'v sa_heap option" where
  "sa_retain_child copy h i =
     do {
       child \<leftarrow> child_ptr (sa_data copy i);
       if \<not> is_empty_child child then
         sa_update h child (\<lambda>m. m\<lparr>sa_refCount := sa_refCount m + 1\<rparr>)
       else Some h
     }"

fun SparseArrayCopy :: "'v sa_heap \<Rightarrow> sa_ptr option \<Rightarrow> ('v sa_heap \<times> sa_ptr option) option" where
  "SparseArrayCopy h None = Some (h, None)"
| "SparseArrayCopy h (Some sarray) =
     (case sa_calloc h of
        (h1, None) \<Rightarrow> Some (h1, None)
      | (h1, Some a) \<Rightarrow>
          do {
            n \<leftarrow> sa_deref h1 sarray;
            let copy = n\<lparr>sa_refCount := 1\<rparr>;
            h2 \<leftarrow> (if sa_shift n > 0
                   then foldM (sa_retain_child copy) (sa_set h1 a copy) [0..<256]
                   else Some (sa_set h1 a copy));
            Some (h2, Some (Node a))
          })"

fun SparseArrayDestroy :: "nat \<Rightarrow> 'v sa_heap \<Rightarrow> sa_ptr option \<Rightarrow> 'v sa_heap option" where
  "SparseArrayDestroy fuel h None = Some h"
| "SparseArrayDestroy 0 h (Some p) = None"
| "SparseArrayDestroy (Suc fuel) h (Some p) =
     (case p of
        Node a \<Rightarrow>
          do {
            n \<leftarrow> sa_nodes h a;
            let rc = sa_refCount n - 1;
            let h1 = sa_set h a (n\<lparr>sa_refCount := rc\<rparr>);
            if rc > 0 then Some h1
            else
              do {
                h2 \<leftarrow> (if sa_shift n > 0 then
                         foldM (\<lambda>g i. do {
                                   m \<leftarrow> sa_nodes g a;
                                   c \<leftarrow> child_ptr (sa_data m i);
                                   SparseArrayDestroy fuel g (Some c)
                                 }) h1 [0..<256]
                       else Some h1);
                Some (sa_free h2 a)
              }
          }
      | _ \<Rightarrow> Some h)"

text \<open>
  The node an insertion descends into: the child itself, a fresh empty array where the
  child is one of the static ones, or a private copy where it is shared. \<open>None\<close> in the
  second component is an allocation failure; the flag says whether the node still has to
  be published in the parent.
\<close>

definition sa_replacement ::
  "'v sa_heap \<Rightarrow> nat \<Rightarrow> sa_ptr \<Rightarrow> ('v sa_heap \<times> (sa_ptr \<times> bool) option) option" where
  "sa_replacement h s child =
     (if is_empty_child child then
        (case sa_calloc h of
           (h1, None) \<Rightarrow> Some (h1, None)
         | (h1, Some r) \<Rightarrow>
             do {
               n \<leftarrow> sa_nodes h1 r;
               h2 \<leftarrow> init_pointers (sa_set h1 r (n\<lparr>sa_refCount := 1,
                        sa_shift := (if base_shift \<ge> s then 0 else s - base_shift)\<rparr>)) r;
               Some (h2, Some (Node r, True))
             })
      else
        do {
          n \<leftarrow> sa_deref h child;
          if sa_refCount n > 1 then
            do {
              (h1, r) \<leftarrow> SparseArrayCopy h (Some child);
              Some (h1, map_option (\<lambda>p. (p, True)) r)
            }
          else Some (h, Some (child, False))
        })"

fun SparseArrayInsert ::
  "nat \<Rightarrow> 'v sa_heap \<Rightarrow> sa_ptr option \<Rightarrow> uint32 \<Rightarrow> 'v option \<Rightarrow> ('v sa_heap \<times> bool) option" where
  "SparseArrayInsert fuel h None index v = Some (h, False)"
| "SparseArrayInsert 0 h (Some p) index v = None"
| "SparseArrayInsert (Suc fuel) h (Some p) index v =
     do {
       n \<leftarrow> sa_deref h p;
       let i = mask_index (sa_shift n) index;
       if sa_shift n = 0 then
         do {
           h1 \<leftarrow> sa_update h p (\<lambda>m. m\<lparr>sa_data := (sa_data m)(i := Value v)\<rparr>);
           Some (h1, True)
         }
       else
         do {
           child \<leftarrow> child_ptr (sa_data n i);
           (h1, rep) \<leftarrow> sa_replacement h (sa_shift n) child;
           (case rep of
              None \<Rightarrow> Some (h1, False)
            | Some (r, publish) \<Rightarrow>
                do {
                  (h2, ok) \<leftarrow> SparseArrayInsert fuel h1 (Some r) index v;
                  if \<not> ok then
                    (if publish then
                       do { h3 \<leftarrow> SparseArrayDestroy fuel h2 (Some r); Some (h3, False) }
                     else Some (h2, False))
                  else if publish then
                    do {
                      h3 \<leftarrow> sa_update h2 p (\<lambda>m. m\<lparr>sa_data := (sa_data m)(i := Child r)\<rparr>);
                      h4 \<leftarrow> (if \<not> is_empty_child child
                             then SparseArrayDestroy fuel h3 (Some child) else Some h3);
                      Some (h4, True)
                    }
                  else Some (h2, True)
                })
         }
     }"

text \<open>Releasing the partly built chain of roots when expansion runs out of memory.\<close>

fun sa_unwind_roots :: "nat \<Rightarrow> 'v sa_heap \<Rightarrow> sa_ptr \<Rightarrow> sa_ptr \<Rightarrow> 'v sa_heap option" where
  "sa_unwind_roots 0 h root sarray = (if root = sarray then Some h else None)"
| "sa_unwind_roots (Suc fuel) h root sarray =
     (if root = sarray then Some h
      else case root of
        Node a \<Rightarrow>
          do {
            n \<leftarrow> sa_nodes h a;
            child \<leftarrow> child_ptr (sa_data n 0);
            sa_unwind_roots fuel (sa_free h a) child sarray
          }
      | _ \<Rightarrow> None)"

fun sa_expand_loop ::
  "nat \<Rightarrow> 'v sa_heap \<Rightarrow> sa_ptr \<Rightarrow> sa_ptr \<Rightarrow> nat \<Rightarrow> nat \<Rightarrow> ('v sa_heap \<times> sa_ptr option) option" where
  "sa_expand_loop 0 h root sarray current_depth new_depth =
     (if current_depth < new_depth then None else Some (h, Some root))"
| "sa_expand_loop (Suc fuel) h root sarray current_depth new_depth =
     (if current_depth < new_depth then
        (case sa_calloc h of
           (h1, None) \<Rightarrow> do { h2 \<leftarrow> sa_unwind_roots 4 h1 root sarray; Some (h2, None) }
         | (h1, Some e) \<Rightarrow>
             do {
               m \<leftarrow> sa_nodes h1 e;
               r \<leftarrow> sa_deref h1 root;
               let s = sa_shift r + base_shift;
               empty \<leftarrow> EmptyChildForShift s;
               let h2 = sa_set h1 e (m\<lparr>sa_refCount := 1, sa_shift := s,
                          sa_data := (\<lambda>i. if i = 0 then Child root
                                          else if i \<le> 0xff then Child empty else sa_data m i)\<rparr>);
               sa_expand_loop fuel h2 (Node e) sarray (current_depth + base_shift) new_depth
             })
      else Some (h, Some root))"

fun SparseArrayExpandingArray ::
  "'v sa_heap \<Rightarrow> sa_ptr option \<Rightarrow> nat \<Rightarrow> ('v sa_heap \<times> sa_ptr option) option" where
  "SparseArrayExpandingArray h None new_depth = Some (h, None)"
| "SparseArrayExpandingArray h (Some sarray) new_depth =
     (if \<not> valid_depth new_depth then Some (h, None)
      else
        do {
          n \<leftarrow> sa_deref h sarray;
          let current_depth = sa_shift n + base_shift;
          if new_depth = current_depth then Some (h, Some sarray)
          else if new_depth < current_depth then Some (h, None)
          else if sa_refCount n \<noteq> 1 then None
          else sa_expand_loop 4 h sarray sarray current_depth new_depth
        })"

text \<open>
  Iteration. The result is \<open>None\<close> for \<open>SARRAY_EMPTY\<close>, otherwise the value and the index
  stored through the \<open>found\<close> pointer.
\<close>

fun SparseArrayFindFrom ::
  "nat \<Rightarrow> 'v sa_heap \<Rightarrow> sa_ptr \<Rightarrow> uint32 \<Rightarrow> uint32 \<Rightarrow> ('v \<times> uint32) option option" where
  "SparseArrayFindFrom 0 h p start prefix = None"
| "SparseArrayFindFrom (Suc fuel) h p start prefix =
     do {
       n \<leftarrow> sa_deref h p;
       let s = sa_shift n;
       let first = mask_index s start;
       scanM (\<lambda>slot.
           let slot_prefix = prefix OR push_bit s (of_nat slot) in
           if s = 0 then
             do {
               value \<leftarrow> cell_value (sa_data n slot);
               (case value of
                  Some v \<Rightarrow> (if slot_prefix \<ge> start then Some (Some (v, slot_prefix)) else Some None)
                | None \<Rightarrow> Some None)
             }
           else
             do {
               child \<leftarrow> child_ptr (sa_data n slot);
               if is_empty_child child then Some None
               else SparseArrayFindFrom fuel h child
                      (if slot = first then start else slot_prefix) slot_prefix
             }) [first..<256]
     }"

text \<open>\<open>*idx\<close> is passed in and returned; \<open>None\<close> for either pointer is \<open>NULL\<close>.\<close>

definition SparseArrayNext ::
  "'v sa_heap \<Rightarrow> sa_ptr option \<Rightarrow> uint32 option \<Rightarrow> ('v option \<times> uint32 option) option" where
  "SparseArrayNext h sarray idx =
     (case (sarray, idx) of
        (Some p, Some i) \<Rightarrow>
          if i = UINT32_MAX then Some (None, idx)
          else
            do {
              r \<leftarrow> SparseArrayFindFrom 4 h p (i + 1) 0;
              (case r of
                 None \<Rightarrow> Some (None, Some UINT32_MAX)
               | Some (v, f) \<Rightarrow> Some (Some v, Some f))
            }
      | _ \<Rightarrow> Some (None, idx))"

end
