(* ===== verification/Objc_Sparse_Array_Inv.thy ===== *)
theory Objc_Sparse_Array_Inv
  imports Objc_Sparse_Array
begin

text \<open>
  The invariant of the sparse-array store: well-typed trees and exact reference counts.
  \<open>ext a\<close> counts the owning references to node \<open>a\<close> held outside the store (a class that
  holds a dispatch table, a local variable); \<open>D\<close> is the set of nodes that a running
  destruction has already condemned, whose cells no longer count as references.
\<close>

definition cell_refs :: "'v sa_node option \<Rightarrow> nat \<Rightarrow> nat" where
  "cell_refs no a =
     (case no of None \<Rightarrow> 0 | Some n \<Rightarrow> card {i. i < 256 \<and> sa_data n i = Child (Node a)})"

definition sa_refs :: "'v sa_heap \<Rightarrow> nat set \<Rightarrow> nat \<Rightarrow> nat" where
  "sa_refs h D a = (\<Sum>b \<in> {..<sa_brk h} - D. cell_refs (sa_nodes h b) a)"

definition ptr_ok :: "'v sa_heap \<Rightarrow> nat set \<Rightarrow> nat \<Rightarrow> sa_ptr \<Rightarrow> bool" where
  "ptr_ok h D s p \<longleftrightarrow>
     (\<exists>n. sa_deref h p = Some n \<and> sa_shift n = s) \<and> (\<forall>a. p = Node a \<longrightarrow> a \<notin> D)"

definition sa_shifts :: "nat set" where
  "sa_shifts = {0, 8, 16, 24}"

definition sa_node_ok :: "'v sa_heap \<Rightarrow> nat set \<Rightarrow> 'v sa_node \<Rightarrow> bool" where
  "sa_node_ok h D n \<longleftrightarrow>
     sa_shift n \<in> sa_shifts \<and>
     (sa_shift n = 0 \<longrightarrow> (\<forall>i < 256. \<exists>v. sa_data n i = Value v)) \<and>
     (0 < sa_shift n \<longrightarrow> (\<forall>i < 256. \<exists>c. sa_data n i = Child c \<and> ptr_ok h D (sa_shift n - 8) c))"

definition sa_wf :: "'v sa_heap \<Rightarrow> (nat \<Rightarrow> nat) \<Rightarrow> nat set \<Rightarrow> bool" where
  "sa_wf h ext D \<longleftrightarrow>
     (\<forall>a n. sa_nodes h a = Some n \<longrightarrow> a < sa_brk h) \<and>
     (\<forall>a n. sa_nodes h a = Some n \<longrightarrow> a \<notin> D \<longrightarrow>
        sa_node_ok h D n \<and> unat (sa_refCount n) = ext a + sa_refs h D a \<and> 0 < ext a + sa_refs h D a) \<and>
     (\<forall>a. 0 < ext a \<longrightarrow> a \<notin> D \<and> sa_nodes h a \<noteq> None)"

text \<open>Index arithmetic of the tree levels.\<close>

lemma mask_index_eq: "mask_index s i = unat i div 2 ^ s mod 256"
proof -
  have "(0xff :: uint32) = mask 8" by (simp add: mask_eq_exp_minus_1)
  then have "mask_index s i = unat (take_bit 8 (drop_bit s i))"
    by (simp add: mask_index_def take_bit_eq_mask)
  then have "mask_index s i = take_bit 8 (drop_bit s (unat i))"
    by (simp only: unsigned_take_bit_eq unsigned_drop_bit_eq) (simp add: take_bit_eq_mod)
  then show ?thesis by (simp add: take_bit_eq_mod drop_bit_eq_div)
qed

lemma mask_index_lt [simp]: "mask_index s i < 256"
  by (simp add: mask_index_eq)

lemma and_ff_eq: "unat ((i :: uint32) AND 0xff) = mask_index 0 i"
  by (simp add: mask_index_def)

lemma unrolled_index:
  "unat (drop_bit 8 ((i :: uint32) AND 0xff00)) = mask_index 8 i"
  "unat (drop_bit 16 ((i :: uint32) AND 0xff0000)) = mask_index 16 i"
  "unat (drop_bit 24 ((i :: uint32) AND 0xff000000)) = mask_index 24 i"
  by (simp_all add: mask_index_def drop_bit_and)

lemma same_index_split:
  "unat i mod 2 ^ (s + 8) = unat j mod 2 ^ (s + 8) \<longleftrightarrow>
     mask_index s i = mask_index s j \<and> unat i mod 2 ^ s = unat j mod (2 ^ s :: nat)"
proof -
  have "unat k mod 2 ^ (s + 8) = 2 ^ s * (mask_index s k) + unat k mod 2 ^ s" for k :: uint32
    by (simp add: mask_index_eq power_add mod_mult2_eq)
  moreover have "2 ^ s * a + b = 2 ^ s * c + d \<longleftrightarrow> a = c \<and> b = d"
    if "b < 2 ^ s" "d < 2 ^ s" for a b c d :: nat
    using that by (metis add.commute div_mult_self2 div_less mod_mult_self2 mod_less add_0
        less_nat_zero_code power_not_zero zero_neq_numeral bot_nat_0.not_eq_extremum)
  ultimately show ?thesis by simp
qed

text \<open>Reference counts of updated stores.\<close>

lemma cell_refs_None [simp]: "cell_refs None a = 0"
  by (simp add: cell_refs_def)

lemma cell_refs_pos_iff:
  "0 < cell_refs (Some n) a \<longleftrightarrow> (\<exists>i < 256. sa_data n i = Child (Node a))"
  by (auto simp: cell_refs_def card_gt_0_iff)

lemma cell_refs_zero_iff:
  "cell_refs (Some n) a = 0 \<longleftrightarrow> (\<forall>i < 256. sa_data n i \<noteq> Child (Node a))"
  using cell_refs_pos_iff [of n a] by auto

lemma cell_refs_cong:
  "sa_data n = sa_data m \<Longrightarrow> cell_refs (Some n) a = cell_refs (Some m) a"
  by (simp add: cell_refs_def)

lemma cell_refs_upd:
  assumes "i < 256"
  shows "cell_refs (Some (n\<lparr>sa_data := (sa_data n)(i := x)\<rparr>)) a +
           (if sa_data n i = Child (Node a) then 1 else 0) =
         cell_refs (Some n) a + (if x = Child (Node a) then 1 else 0)"
proof -
  let ?S = "{j. j < 256 \<and> sa_data n j = Child (Node a) \<and> j \<noteq> i}"
  have fin: "finite ?S" by simp
  have old: "{j. j < 256 \<and> sa_data n j = Child (Node a)} =
      (if sa_data n i = Child (Node a) then insert i ?S else ?S)"
    using assms by auto
  have new: "{j. j < 256 \<and> ((sa_data n)(i := x)) j = Child (Node a)} =
      (if x = Child (Node a) then insert i ?S else ?S)"
    using assms by auto
  have upd: "sa_data (n\<lparr>sa_data := (sa_data n)(i := x)\<rparr>) = (sa_data n)(i := x)" by simp
  show ?thesis using fin unfolding cell_refs_def option.case upd old new by simp
qed

lemma sa_refs_set:
  assumes "a < sa_brk h" "a \<notin> D"
  shows "sa_refs (sa_set h a n) D b + cell_refs (sa_nodes h a) b =
         sa_refs h D b + cell_refs (Some n) b"
proof -
  have mem: "a \<in> {..<sa_brk h} - D" using assms by simp
  show ?thesis
    using sum.remove [OF _ mem, of "\<lambda>c. cell_refs (sa_nodes h c) b"]
      sum.remove [OF _ mem, of "\<lambda>c. cell_refs (sa_nodes (sa_set h a n) c) b"]
    by (simp add: sa_refs_def sa_set_def)
qed

lemma sa_refs_mono_member:
  assumes "d < sa_brk h" "d \<notin> D"
  shows "cell_refs (sa_nodes h d) a \<le> sa_refs h D a"
  unfolding sa_refs_def using assms by (intro member_le_sum) auto

lemma sa_refs_two:
  assumes "d < sa_brk h" "d \<notin> D" "e < sa_brk h" "e \<notin> D" "d \<noteq> e"
  shows "cell_refs (sa_nodes h d) a + cell_refs (sa_nodes h e) a \<le> sa_refs h D a"
proof -
  have "(\<Sum>b \<in> {d, e}. cell_refs (sa_nodes h b) a) \<le> sa_refs h D a"
    unfolding sa_refs_def using assms by (intro sum_mono2) auto
  then show ?thesis using assms by simp
qed

lemma sa_refs_le: "sa_refs h D a \<le> 256 * sa_brk h"
proof -
  have "cell_refs no a \<le> 256" for no :: "'a sa_node option"
  proof (cases no)
    case (Some n)
    have "card {i. i < 256 \<and> sa_data n i = Child (Node a)} \<le> card {..<256::nat}"
      by (intro card_mono) auto
    with Some show ?thesis by (simp add: cell_refs_def)
  qed simp
  then have "sa_refs h D a \<le> (\<Sum>b \<in> {..<sa_brk h} - D. 256)"
    unfolding sa_refs_def by (intro sum_mono) simp
  also have "\<dots> \<le> (\<Sum>b \<in> {..<sa_brk h}. 256)" by (intro sum_mono2) auto
  finally show ?thesis by simp
qed

text \<open>Consequences of well-formedness.\<close>

lemma sa_wf_brk: "sa_wf h ext D \<Longrightarrow> sa_nodes h a = Some n \<Longrightarrow> a < sa_brk h"
  by (simp add: sa_wf_def)

lemma sa_wf_node: "sa_wf h ext D \<Longrightarrow> sa_nodes h a = Some n \<Longrightarrow> a \<notin> D \<Longrightarrow> sa_node_ok h D n"
  by (simp add: sa_wf_def)

lemma sa_wf_count:
  "sa_wf h ext D \<Longrightarrow> sa_nodes h a = Some n \<Longrightarrow> a \<notin> D \<Longrightarrow>
     unat (sa_refCount n) = ext a + sa_refs h D a \<and> 0 < ext a + sa_refs h D a"
  by (simp add: sa_wf_def)

lemma sa_wf_ext: "sa_wf h ext D \<Longrightarrow> 0 < ext a \<Longrightarrow> a \<notin> D \<and> (\<exists>n. sa_nodes h a = Some n)"
  by (simp add: sa_wf_def)

lemma ptr_ok_Node:
  "ptr_ok h D s (Node a) \<longleftrightarrow> a \<notin> D \<and> (\<exists>n. sa_nodes h a = Some n \<and> sa_shift n = s)"
  by (auto simp: ptr_ok_def)

lemma ptr_ok_static [simp]:
  "ptr_ok h D s EmptyArray \<longleftrightarrow> s = 0" "ptr_ok h D s EmptyArray8 \<longleftrightarrow> s = 8"
  "ptr_ok h D s EmptyArray16 \<longleftrightarrow> s = 16" "ptr_ok h D s EmptyArray24 \<longleftrightarrow> s = 24"
  by (auto simp: ptr_ok_def)

lemma is_empty_child_Node [simp]: "\<not> is_empty_child (Node a)"
  by (simp add: is_empty_child_def)

lemma not_empty_child: "\<not> is_empty_child p \<longleftrightarrow> (\<exists>a. p = Node a)"
  by (cases p) (auto simp: is_empty_child_def)

lemma EmptyChild_ptr_ok: "EmptyChildForShift s = Some c \<Longrightarrow> ptr_ok h D (s - 8) c \<and> is_empty_child c"
  by (auto simp: EmptyChildForShift_def is_empty_child_def split: if_splits)

lemma deref_node_ok:
  assumes "sa_wf h ext D" "ptr_ok h D s p" "sa_deref h p = Some n"
  shows "sa_node_ok h D n"
proof (cases p)
  case (Node a)
  with assms show ?thesis by (auto simp: ptr_ok_def intro: sa_wf_node)
qed (use assms in \<open>auto simp: sa_node_ok_def sa_shifts_def\<close>)

text \<open>Nodes that keep their contents, up to the reference count.\<close>

definition same_at :: "'v sa_heap \<Rightarrow> 'v sa_heap \<Rightarrow> nat \<Rightarrow> bool" where
  "same_at h h' b \<longleftrightarrow> (\<exists>n n'. sa_nodes h b = Some n \<and> sa_nodes h' b = Some n' \<and>
     sa_shift n' = sa_shift n \<and> sa_data n' = sa_data n)"

definition sa_sub :: "'v sa_heap \<Rightarrow> 'v sa_heap \<Rightarrow> bool" where
  "sa_sub h h' \<longleftrightarrow> (\<forall>b n'. sa_nodes h' b = Some n' \<longrightarrow> same_at h h' b)"

lemma same_at_refl: "sa_nodes h b = Some n \<Longrightarrow> same_at h h b"
  by (simp add: same_at_def)

lemma same_at_trans: "same_at h h1 b \<Longrightarrow> same_at h1 h2 b \<Longrightarrow> same_at h h2 b"
  by (auto simp: same_at_def)

lemma sa_sub_refl: "sa_sub h h"
  by (auto simp: sa_sub_def same_at_def)

lemma sa_sub_trans: "sa_sub h h1 \<Longrightarrow> sa_sub h1 h2 \<Longrightarrow> sa_sub h h2"
  unfolding sa_sub_def by (metis same_at_def same_at_trans)

lemma sa_sub_set_rc:
  "sa_nodes h a = Some n \<Longrightarrow> sa_sub h (sa_set h a (n\<lparr>sa_refCount := rc\<rparr>))"
  by (auto simp: sa_sub_def same_at_def sa_set_def)

lemma sa_sub_free: "sa_sub h (sa_free h a)"
  by (auto simp: sa_sub_def same_at_def sa_free_def)

lemma sa_set_simps [simp]:
  "sa_nodes (sa_set h a n) = (sa_nodes h)(a := Some n)" "sa_brk (sa_set h a n) = sa_brk h"
  "sa_nodes (sa_free h a) = (sa_nodes h)(a := None)" "sa_brk (sa_free h a) = sa_brk h"
  by (simp_all add: sa_set_def sa_free_def)

text \<open>Changing a reference count, condemning a node, releasing a condemned node.\<close>

lemma sa_refs_set_rc:
  "sa_nodes h a = Some n \<Longrightarrow> sa_refs (sa_set h a (n\<lparr>sa_refCount := rc\<rparr>)) D b = sa_refs h D b"
  unfolding sa_refs_def by (intro sum.cong) (auto simp: cell_refs_def)

lemma ptr_ok_set_rc:
  "sa_nodes h a = Some n \<Longrightarrow> ptr_ok (sa_set h a (n\<lparr>sa_refCount := rc\<rparr>)) D s p = ptr_ok h D s p"
  by (cases p) (auto simp: ptr_ok_def)

lemma node_ok_set_rc:
  "sa_nodes h a = Some n \<Longrightarrow>
     sa_node_ok (sa_set h a (n\<lparr>sa_refCount := rc\<rparr>)) D m = sa_node_ok h D m"
  by (simp add: sa_node_ok_def ptr_ok_set_rc)

lemma node_ok_rc [simp]: "sa_node_ok h D (n\<lparr>sa_refCount := rc\<rparr>) = sa_node_ok h D n"
  by (simp add: sa_node_ok_def)

lemma sa_wf_set_rc:
  assumes wf: "sa_wf h ext D" and a: "sa_nodes h a = Some n" "a \<notin> D"
    and rc: "unat rc = ext' a + sa_refs h D a" "0 < ext' a + sa_refs h D a"
    and ext': "\<And>b. b \<noteq> a \<Longrightarrow> ext' b = ext b"
  shows "sa_wf (sa_set h a (n\<lparr>sa_refCount := rc\<rparr>)) ext' D"
  unfolding sa_wf_def sa_refs_set_rc [OF a(1)] node_ok_set_rc [OF a(1)]
  using assms by (auto simp: sa_wf_def)

lemma node_ok_mono:
  assumes "sa_node_ok h D m"
    and "\<And>i c s. i < 256 \<Longrightarrow> sa_data m i = Child c \<Longrightarrow> ptr_ok h D s c \<Longrightarrow> ptr_ok h' D' s c"
  shows "sa_node_ok h' D' m"
  unfolding sa_node_ok_def
proof (intro conjI allI impI)
  show "sa_shift m \<in> sa_shifts" using assms(1) by (simp add: sa_node_ok_def)
  show "\<exists>v. sa_data m i = Value v" if "sa_shift m = 0" "i < 256" for i
    using assms(1) that by (simp add: sa_node_ok_def)
  show "\<exists>c. sa_data m i = Child c \<and> ptr_ok h' D' (sa_shift m - 8) c"
    if "0 < sa_shift m" "i < 256" for i
  proof -
    from assms(1) that obtain c where "sa_data m i = Child c" "ptr_ok h D (sa_shift m - 8) c"
      unfolding sa_node_ok_def by blast
    with assms(2) [OF that(2)] show ?thesis by blast
  qed
qed

lemma cell_refs_rc [simp]: "cell_refs (Some (n\<lparr>sa_refCount := rc\<rparr>)) b = cell_refs (Some n) b"
  by (rule cell_refs_cong) simp

lemma sa_refs_condemn:
  assumes "a < sa_brk h" "a \<notin> D"
  shows "sa_refs h D b = sa_refs h (insert a D) b + cell_refs (sa_nodes h a) b"
proof -
  have mem: "a \<in> {..<sa_brk h} - D" using assms by simp
  have "{..<sa_brk h} - D - {a} = {..<sa_brk h} - insert a D" by auto
  then show ?thesis
    using sum.remove [OF _ mem, of "\<lambda>c. cell_refs (sa_nodes h c) b"]
    by (simp add: sa_refs_def)
qed

lemma sa_wf_condemn:
  assumes wf: "sa_wf h ext D" and a: "sa_nodes h a = Some n" "a \<notin> D"
    and one: "ext a = 1" "sa_refs h D a = 0"
  shows "sa_wf (sa_set h a (n\<lparr>sa_refCount := 0\<rparr>))
           (\<lambda>c. (ext(a := 0)) c + cell_refs (Some n) c) (insert a D)"
    (is "sa_wf ?h ?ext ?D")
proof -
  have lt: "a < sa_brk h" by (rule sa_wf_brk [OF wf a(1)])
  have refs: "sa_refs h D b = sa_refs h ?D b + cell_refs (Some n) b" for b
    using sa_refs_condemn [OF lt a(2), of b] a(1) by simp
  from refs [of a] one have self: "cell_refs (Some n) a = 0" by simp
  have live: "sa_nodes h c \<noteq> None \<and> c \<notin> ?D" if "0 < cell_refs (Some n) c" for c
  proof -
    from that obtain i where i: "i < 256" "sa_data n i = Child (Node c)"
      by (auto simp: cell_refs_pos_iff)
    have ok: "sa_node_ok h D n" by (rule sa_wf_node [OF wf a])
    then have "0 < sa_shift n" using i by (auto simp: sa_node_ok_def)
    with ok i have "ptr_ok h D (sa_shift n - 8) (Node c)" by (auto simp: sa_node_ok_def)
    moreover have "c \<noteq> a" using that self by auto
    ultimately show ?thesis by (auto simp: ptr_ok_Node)
  qed
  have node: "sa_node_ok h ?D m" if m: "sa_nodes h b = Some m" "b \<notin> ?D" for b m
  proof -
    from m have ok: "sa_node_ok h D m" by (intro sa_wf_node [OF wf]) auto
    have "cell_refs (Some m) a = 0"
    proof -
      have "cell_refs (sa_nodes h b) a \<le> sa_refs h D a"
        using m sa_wf_brk [OF wf m(1)] by (intro sa_refs_mono_member) auto
      with one m show ?thesis by simp
    qed
    then show ?thesis
      by (intro node_ok_mono [OF ok]) (auto simp: cell_refs_zero_iff ptr_ok_def)
  qed
  show ?thesis
    unfolding sa_wf_def sa_refs_set_rc [OF a(1)] node_ok_set_rc [OF a(1)]
  proof (intro conjI allI impI)
    fix b m
    assume m: "sa_nodes (sa_set h a (n\<lparr>sa_refCount := 0\<rparr>)) b = Some m"
    then show "b < sa_brk (sa_set h a (n\<lparr>sa_refCount := 0\<rparr>))"
      using lt wf by (auto simp: sa_wf_def split: if_splits)
    assume b: "b \<notin> ?D"
    with m have hb: "sa_nodes h b = Some m" by auto
    then show "sa_node_ok h ?D m" using b by (rule node)
    have c: "unat (sa_refCount m) = ext b + sa_refs h D b \<and> 0 < ext b + sa_refs h D b"
      using sa_wf_count [OF wf hb] b by auto
    from c refs [of b] b
    show "unat (sa_refCount m) = (ext(a := 0)) b + cell_refs (Some n) b + sa_refs h ?D b"
      and "0 < (ext(a := 0)) b + cell_refs (Some n) b + sa_refs h ?D b"
      by auto
  next
    fix b
    assume b: "0 < (ext(a := 0)) b + cell_refs (Some n) b"
    have "b \<notin> ?D \<and> sa_nodes h b \<noteq> None"
    proof (cases "0 < cell_refs (Some n) b")
      case True
      then show ?thesis using live by blast
    next
      case False
      with b have "0 < ext b" "b \<noteq> a" by (auto split: if_splits)
      then show ?thesis using sa_wf_ext [OF wf] by fastforce
    qed
    then show "b \<notin> ?D" and "sa_nodes (sa_set h a (n\<lparr>sa_refCount := 0\<rparr>)) b \<noteq> None"
      by auto
  qed
qed

lemma sa_wf_release:
  assumes wf: "sa_wf h ext (insert a D)" and D: "a \<notin> D"
  shows "sa_wf (sa_free h a) ext D"
proof -
  have refs: "sa_refs (sa_free h a) D b = sa_refs h (insert a D) b" for b
  proof -
    have "sa_refs (sa_free h a) D b =
        (\<Sum>c \<in> {..<sa_brk h} - insert a D. cell_refs (sa_nodes (sa_free h a) c) b)"
      unfolding sa_refs_def by (intro sum.mono_neutral_right) auto
    also have "\<dots> = sa_refs h (insert a D) b"
      unfolding sa_refs_def by (intro sum.cong) auto
    finally show ?thesis .
  qed
  have ptr: "ptr_ok h (insert a D) s p \<Longrightarrow> ptr_ok (sa_free h a) D s p" for s p
    by (cases p) (auto simp: ptr_ok_def)
  have node: "sa_node_ok h (insert a D) m \<Longrightarrow> sa_node_ok (sa_free h a) D m" for m
    by (erule node_ok_mono) (rule ptr)
  show ?thesis unfolding sa_wf_def refs
    using wf node by (auto simp: sa_wf_def split: if_splits)
qed

end
