(* ===== verification/Objc_Sparse_Array_Ops.thy ===== *)
theory Objc_Sparse_Array_Ops
  imports Objc_Sparse_Array_Inv
begin

text \<open>
  What each sparse-array operation does to a well-formed store: which references it
  consumes or creates, which nodes keep their contents, and what lookups return
  afterwards.
\<close>

definition dec_ext :: "(nat \<Rightarrow> nat) \<Rightarrow> sa_ptr \<Rightarrow> (nat \<Rightarrow> nat)" where
  "dec_ext ext p = (case p of Node a \<Rightarrow> ext(a := ext a - 1) | _ \<Rightarrow> ext)"

definition inc_ext :: "(nat \<Rightarrow> nat) \<Rightarrow> sa_ptr \<Rightarrow> (nat \<Rightarrow> nat)" where
  "inc_ext ext p = (case p of Node a \<Rightarrow> ext(a := ext a + 1) | _ \<Rightarrow> ext)"

lemma dec_ext_simps [simp]:
  "dec_ext ext (Node a) = ext(a := ext a - 1)" "is_empty_child p \<Longrightarrow> dec_ext ext p = ext"
  by (cases p; simp add: dec_ext_def is_empty_child_def)+

lemma inc_ext_simps [simp]:
  "inc_ext ext (Node a) = ext(a := ext a + 1)" "is_empty_child p \<Longrightarrow> inc_ext ext p = ext"
  by (cases p; simp add: inc_ext_def is_empty_child_def)+

text \<open>References held by the cells of a condemned node that are still to be released.\<close>

definition rem_refs :: "'v sa_node \<Rightarrow> nat list \<Rightarrow> nat \<Rightarrow> nat" where
  "rem_refs n ys c = card {i. i < 256 \<and> i \<notin> set ys \<and> sa_data n i = Child (Node c)}"

lemma rem_refs_Nil: "rem_refs n [] c = cell_refs (Some n) c"
  by (simp add: rem_refs_def cell_refs_def)

lemma rem_refs_all: "set ys = {..<256} \<Longrightarrow> rem_refs n ys c = 0"
  by (auto simp: rem_refs_def)

lemma rem_refs_step:
  assumes "i < 256" "i \<notin> set ys"
  shows "rem_refs n ys c =
         rem_refs n (ys @ [i]) c + (if sa_data n i = Child (Node c) then 1 else 0)"
proof -
  let ?S = "{j. j < 256 \<and> j \<notin> set (ys @ [i]) \<and> sa_data n j = Child (Node c)}"
  have "{j. j < 256 \<and> j \<notin> set ys \<and> sa_data n j = Child (Node c)} =
      (if sa_data n i = Child (Node c) then insert i ?S else ?S)"
    using assms by auto
  moreover have "finite ?S" "i \<notin> ?S" by auto
  ultimately show ?thesis unfolding rem_refs_def by simp
qed

text \<open>What a run of \<open>SparseArrayDestroy\<close> on nodes of shift at most \<open>s\<close> leaves unchanged.\<close>

definition destroy_frame :: "'v sa_heap \<Rightarrow> 'v sa_heap \<Rightarrow> nat \<Rightarrow> nat set \<Rightarrow> bool" where
  "destroy_frame h h' s D \<longleftrightarrow>
     sa_sub h h' \<and> sa_brk h' = sa_brk h \<and>
     (\<forall>b n. sa_nodes h b = Some n \<longrightarrow> s < sa_shift n \<longrightarrow> sa_nodes h' b = Some n) \<and>
     (\<forall>b \<in> D. sa_nodes h' b = sa_nodes h b)"

lemma destroy_frame_refl: "destroy_frame h h s D"
  by (simp add: destroy_frame_def sa_sub_refl)

lemma destroy_frame_trans:
  "destroy_frame h h1 s D \<Longrightarrow> destroy_frame h1 h2 s' D' \<Longrightarrow> s' \<le> s \<Longrightarrow> D \<subseteq> D' \<Longrightarrow>
     destroy_frame h h2 s D"
  unfolding destroy_frame_def using sa_sub_trans by (metis order_le_less_trans subsetD)

lemma destroy_frame_set_rc:
  assumes "sa_nodes h a = Some n" "a \<notin> D"
  shows "destroy_frame h (sa_set h a (n\<lparr>sa_refCount := rc\<rparr>)) (sa_shift n) D"
  using assms by (auto simp: destroy_frame_def sa_sub_set_rc)

lemma destroy_frame_free:
  assumes "sa_nodes h a = Some n" "a \<notin> D"
  shows "destroy_frame h (sa_free h a) (sa_shift n) D"
  using assms by (auto simp: destroy_frame_def sa_sub_free)

lemma dec_ext_rem_refs:
  assumes "i < 256" "i \<notin> set ys" "sa_data n i = Child c"
  shows "dec_ext (\<lambda>b. ext b + rem_refs n ys b) c = (\<lambda>b. ext b + rem_refs n (ys @ [i]) b)"
  using assms by (cases c) (auto simp: dec_ext_def fun_eq_iff rem_refs_step [OF assms(1,2)])

lemma Destroy_children:
  assumes IH: "\<And>(g :: 'v sa_heap) ext D c. sa_wf g ext D \<Longrightarrow> ptr_ok g D (s - 8) c \<Longrightarrow>
        (\<forall>b. c = Node b \<longrightarrow> 0 < ext b) \<Longrightarrow>
        \<exists>g'. destroy g (Some c) = Some g' \<and> sa_wf g' (dec_ext ext c) D \<and>
             destroy_frame g g' (s - 8) D"
    and wf: "sa_wf h (\<lambda>c. ext c + cell_refs (Some n) c) (insert a D)"
    and a: "sa_nodes h a = Some n"
    and ok: "\<And>i. i < 256 \<Longrightarrow> \<exists>c. sa_data n i = Child c \<and> ptr_ok h D (s - 8) c"
  shows "\<exists>h'. foldM (\<lambda>g i. do { m \<leftarrow> sa_nodes g a; c \<leftarrow> child_ptr (sa_data m i);
                               destroy g (Some c) }) h [0..<256] = Some h' \<and>
              sa_wf h' ext (insert a D) \<and> destroy_frame h h' (s - 8) (insert a D)"
proof -
  let ?f = "\<lambda>g i. do { m \<leftarrow> sa_nodes g a; c \<leftarrow> child_ptr (sa_data m i); destroy g (Some c) }"
  let ?P = "\<lambda>g ys. sa_wf g (\<lambda>b. ext b + rem_refs n ys b) (insert a D) \<and>
              destroy_frame h g (s - 8) (insert a D)"
  have "\<exists>g. foldM ?f h [0..<256] = Some g \<and> ?P g [0..<256]"
  proof (rule foldM_invariant)
    show "?P h []" using wf by (simp add: rem_refs_Nil destroy_frame_refl)
  next
    fix g i ys zs
    assume split: "[0..<256] = ys @ i # zs" and P: "?P g ys"
    have i: "i < 256" "i \<notin> set ys"
    proof -
      have "i \<in> set [0..<256]" unfolding split by simp
      then show "i < 256" by simp
      have "distinct (ys @ i # zs)" unfolding split [symmetric] by simp
      then show "i \<notin> set ys" by simp
    qed
    from P have wfg: "sa_wf g (\<lambda>b. ext b + rem_refs n ys b) (insert a D)"
      and fr: "destroy_frame h g (s - 8) (insert a D)" by simp_all
    from fr a have ga: "sa_nodes g a = Some n" by (simp add: destroy_frame_def)
    from ok [OF i(1)] obtain c where c: "sa_data n i = Child c" "ptr_ok h D (s - 8) c" by blast
    have pos: "0 < ext b + rem_refs n ys b" if "c = Node b" for b
      using rem_refs_step [OF i, of n b] c(1) that by simp
    have "ptr_ok g (insert a D) (s - 8) c"
    proof (cases c)
      case (Node b)
      from sa_wf_ext [OF wfg pos [OF Node]] obtain m
        where m: "b \<notin> insert a D" "sa_nodes g b = Some m" by blast
      with fr have "same_at h g b" by (simp add: destroy_frame_def sa_sub_def)
      with m c(2) Node show ?thesis by (auto simp: ptr_ok_Node same_at_def)
    qed (use c(2) in auto)
    from IH [OF wfg this] pos obtain g' where
      "destroy g (Some c) = Some g'" "sa_wf g' (dec_ext (\<lambda>b. ext b + rem_refs n ys b) c) (insert a D)"
      "destroy_frame g g' (s - 8) (insert a D)" by auto
    moreover from this(3) fr have "destroy_frame h g' (s - 8) (insert a D)"
      by (auto intro: destroy_frame_trans)
    ultimately show "\<exists>g'. ?f g i = Some g' \<and> ?P g' (ys @ [i])"
      using ga c(1) dec_ext_rem_refs [OF i c(1)] by simp
  qed
  moreover have "(\<lambda>b. ext b + rem_refs n [0..<256] b) = ext"
    using rem_refs_all [of "[0..<256]" n] by (auto simp: fun_eq_iff atLeast0LessThan)
  ultimately show ?thesis by auto
qed

lemma Destroy_spec:
  "sa_wf h ext D \<Longrightarrow> ptr_ok h D (8 * k) p \<Longrightarrow> k < fuel \<Longrightarrow> (\<forall>a. p = Node a \<longrightarrow> 0 < ext a) \<Longrightarrow>
   \<exists>h'. SparseArrayDestroy fuel h (Some p) = Some h' \<and> sa_wf h' (dec_ext ext p) D \<and>
        destroy_frame h h' (8 * k) D"
proof (induction fuel arbitrary: h ext D k p)
  case 0
  then show ?case by simp
next
  case (Suc fuel)
  show ?case
  proof (cases "is_empty_child p")
    case True
    with Suc.prems show ?thesis
      by (cases p) (auto simp: is_empty_child_def destroy_frame_refl)
  next
    case False
    then obtain a where p: "p = Node a" by (auto simp: not_empty_child)
    with Suc.prems obtain n where n: "sa_nodes h a = Some n" "sa_shift n = 8 * k" "a \<notin> D"
      and ea: "0 < ext a" by (auto simp: ptr_ok_Node)
    note wf = Suc.prems(1)
    have cnt: "unat (sa_refCount n) = ext a + sa_refs h D a"
      using sa_wf_count [OF wf n(1,3)] by simp
    then have dec: "unat (sa_refCount n - 1) = ext a + sa_refs h D a - 1"
      using ea by (subst unat_minus_one) (auto simp: unat_eq_zero [symmetric])
    let ?h1 = "sa_set h a (n\<lparr>sa_refCount := sa_refCount n - 1\<rparr>)"
    show ?thesis
    proof (cases "0 < sa_refCount n - 1")
      case True
      then have "0 < unat (sa_refCount n - 1)"
        unfolding word_less_nat_alt by (simp only: unat_0)
      then have "sa_wf ?h1 (dec_ext ext p) D"
        using dec ea p by (intro sa_wf_set_rc [OF wf n(1,3)]) auto
      moreover have "destroy_frame h ?h1 (8 * k) D"
        using destroy_frame_set_rc [OF n(1,3)] n(2) by simp
      moreover have "SparseArrayDestroy (Suc fuel) h (Some p) = Some ?h1"
        using True n p by (simp add: Let_def)
      ultimately show ?thesis by blast
    next
      case False
      then have z: "sa_refCount n - 1 = 0" by (simp add: word_gt_0)
      with dec ea have one: "ext a = 1" "sa_refs h D a = 0" by auto
      then have pe: "dec_ext ext p = ext(a := 0)" using p by simp
      have wf1: "sa_wf ?h1 (\<lambda>c. (ext(a := 0)) c + cell_refs (Some n) c) (insert a D)"
        unfolding z by (rule sa_wf_condemn [OF wf n(1,3) one])
      have fr1: "destroy_frame h ?h1 (8 * k) D"
        using destroy_frame_set_rc [OF n(1,3)] n(2) by simp
      have ok: "sa_node_ok h D n" by (rule sa_wf_node [OF wf n(1,3)])
      show ?thesis
      proof (cases "sa_shift n = 0")
        case True
        with ok have "cell_refs (Some n) c = 0" for c
          by (auto simp: sa_node_ok_def cell_refs_zero_iff)
        with wf1 have "sa_wf ?h1 (ext(a := 0)) (insert a D)" by (simp add: fun_upd_def)
        then have "sa_wf (sa_free ?h1 a) (ext(a := 0)) D" using n(3) by (rule sa_wf_release)
        moreover have "destroy_frame ?h1 (sa_free ?h1 a) (8 * k) D"
          using destroy_frame_free [of ?h1 a _ D] n by (fastforce simp: True)
        moreover have "destroy_frame h (sa_free ?h1 a) (8 * k) D"
          by (rule destroy_frame_trans [OF fr1 calculation(2)]) auto
        moreover have "SparseArrayDestroy (Suc fuel) h (Some p) = Some (sa_free ?h1 a)"
          using True n p z by (simp add: Let_def)
        ultimately show ?thesis using pe by metis
      next
        case False
        then have k: "0 < k" "k - 1 < fuel" "8 * k - 8 = 8 * (k - 1)"
          using n(2) Suc.prems(3) by auto
        let ?n1 = "n\<lparr>sa_refCount := sa_refCount n - 1\<rparr>"
        have "\<exists>h'. foldM (\<lambda>g i. do { m \<leftarrow> sa_nodes g a; c \<leftarrow> child_ptr (sa_data m i);
                  SparseArrayDestroy fuel g (Some c) }) ?h1 [0..<256] = Some h' \<and>
              sa_wf h' (ext(a := 0)) (insert a D) \<and> destroy_frame ?h1 h' (8 * k - 8) (insert a D)"
        proof (rule Destroy_children [where n = ?n1])
          fix g :: "'a sa_heap" and ext D c
          assume "sa_wf g ext D" "ptr_ok g D (8 * k - 8) c" "\<forall>b. c = Node b \<longrightarrow> 0 < ext b"
          then show "\<exists>g'. SparseArrayDestroy fuel g (Some c) = Some g' \<and>
              sa_wf g' (dec_ext ext c) D \<and> destroy_frame g g' (8 * k - 8) D"
            using Suc.IH [of g ext D "k - 1" c] k by simp
        next
          show "sa_wf ?h1 (\<lambda>c. (ext(a := 0)) c + cell_refs (Some ?n1) c) (insert a D)"
            using wf1 by simp
          show "sa_nodes ?h1 a = Some ?n1" by simp
          show "\<exists>c. sa_data ?n1 i = Child c \<and> ptr_ok ?h1 D (8 * k - 8) c" if "i < 256" for i
            using ok that n(2) k(1) by (simp add: sa_node_ok_def ptr_ok_set_rc [OF n(1)])
        qed
        then obtain h' where h': "foldM (\<lambda>g i. do { m \<leftarrow> sa_nodes g a; c \<leftarrow> child_ptr (sa_data m i);
                  SparseArrayDestroy fuel g (Some c) }) ?h1 [0..<256] = Some h'"
              "sa_wf h' (ext(a := 0)) (insert a D)" "destroy_frame ?h1 h' (8 * k - 8) (insert a D)"
          by blast
        from h'(3) have ha: "sa_nodes h' a = Some ?n1" by (simp add: destroy_frame_def)
        have fr2: "destroy_frame h' (sa_free h' a) (8 * k) D"
          using destroy_frame_free [OF ha n(3)] n(2) by simp
        have "destroy_frame h h' (8 * k) D"
          by (rule destroy_frame_trans [OF fr1 h'(3)]) auto
        then have "destroy_frame h (sa_free h' a) (8 * k) D"
          by (rule destroy_frame_trans [OF _ fr2]) auto
        moreover have "sa_wf (sa_free h' a) (ext(a := 0)) D"
          using h'(2) n(3) by (rule sa_wf_release)
        moreover have "SparseArrayDestroy (Suc fuel) h (Some p) = Some (sa_free h' a)"
          using False n p z h'(1) by (simp add: Let_def)
        ultimately show ?thesis using pe by metis
      qed
    qed
  qed
qed

text \<open>Adding a node: first with cells that do not count, then with counted cells.\<close>

lemma sa_wf_cong:
  "sa_nodes h' = sa_nodes h \<Longrightarrow> sa_brk h' = sa_brk h \<Longrightarrow> sa_wf h' ext D = sa_wf h ext D"
proof -
  assume eq: "sa_nodes h' = sa_nodes h" "sa_brk h' = sa_brk h"
  have "sa_deref h' p = sa_deref h p" for p using eq by (cases p) auto
  then have "ptr_ok h' D s p = ptr_ok h D s p" for s p by (simp add: ptr_ok_def)
  then show ?thesis using eq by (simp add: sa_wf_def sa_refs_def sa_node_ok_def)
qed

lemma sa_wf_fresh:
  assumes wf: "sa_wf h ext {}" and h': "sa_nodes h' = (sa_nodes h)(sa_brk h := Some m)"
    "sa_brk h' = Suc (sa_brk h)"
  shows "sa_wf h' ext {sa_brk h}"
proof -
  let ?r = "sa_brk h"
  have r: "sa_nodes h ?r = None"
    using sa_wf_brk [OF wf, of ?r] by (cases "sa_nodes h ?r") auto
  have rng: "{..<Suc ?r} - {?r} = {..<?r}" by auto
  have refs: "sa_refs h' {?r} b = sa_refs h {} b" for b
    unfolding sa_refs_def h' rng by (intro sum.cong) auto
  have ptr: "ptr_ok h {} s p \<Longrightarrow> ptr_ok h' {?r} s p" for s p
    using r h' by (cases p) (auto simp: ptr_ok_def)
  have node: "sa_node_ok h {} n \<Longrightarrow> sa_node_ok h' {?r} n" for n
    by (erule node_ok_mono) (rule ptr)
  show ?thesis
    unfolding sa_wf_def refs
  proof (intro conjI allI impI)
    fix b n
    assume n: "sa_nodes h' b = Some n"
    then show "b < sa_brk h'" using wf h' by (auto simp: sa_wf_def less_Suc_eq split: if_splits)
    assume "b \<notin> {?r}"
    with n h' have hb: "sa_nodes h b = Some n" by auto
    show "sa_node_ok h' {?r} n" using sa_wf_node [OF wf hb] node by simp
    show "unat (sa_refCount n) = ext b + sa_refs h {} b" and "0 < ext b + sa_refs h {} b"
      using sa_wf_count [OF wf hb] by simp_all
  next
    fix b
    assume "0 < ext b"
    with sa_wf_ext [OF wf this] r h' show "b \<notin> {?r}" and "sa_nodes h' b \<noteq> None" by auto
  qed
qed

lemma sa_wf_revive:
  assumes wf: "sa_wf h (\<lambda>c. ext c + cell_refs (Some m) c) {r}"
    and m: "sa_nodes h r = Some m" "sa_refCount m = 1" "sa_node_ok h {} m"
  shows "sa_wf h (ext(r := 1)) {}"
proof -
  have lt: "r < sa_brk h" by (rule sa_wf_brk [OF wf m(1)])
  have refs: "sa_refs h {} b = sa_refs h {r} b + cell_refs (Some m) b" for b
    using sa_refs_condemn [OF lt, of "{}" b] m(1) by simp
  have er: "ext r = 0 \<and> cell_refs (Some m) r = 0"
    using sa_wf_ext [OF wf, of r] by (cases "0 < ext r + cell_refs (Some m) r") auto
  have "cell_refs (sa_nodes h b) r = 0" if "b \<in> {..<sa_brk h} - {r}" for b
  proof (cases "sa_nodes h b")
    case (Some n)
    have ok: "sa_node_ok h {r} n" by (rule sa_wf_node [OF wf Some]) (use that in auto)
    then show ?thesis unfolding Some cell_refs_zero_iff
      by (auto simp: sa_node_ok_def ptr_ok_def)
  qed simp
  then have rr: "sa_refs h {r} r = 0" unfolding sa_refs_def by simp
  show ?thesis
    unfolding sa_wf_def
  proof (intro conjI allI impI)
    fix b n
    assume n: "sa_nodes h b = Some n"
    then show "b < sa_brk h" by (rule sa_wf_brk [OF wf])
    show "sa_node_ok h {} n"
    proof (cases "b = r")
      case True
      with n m show ?thesis by simp
    next
      case False
      then have "sa_node_ok h {r} n" by (intro sa_wf_node [OF wf n]) simp
      then show ?thesis by (rule node_ok_mono) (auto simp: ptr_ok_def)
    qed
    have "unat (sa_refCount n) = (ext(r := 1)) b + sa_refs h {} b \<and> 0 < (ext(r := 1)) b + sa_refs h {} b"
    proof (cases "b = r")
      case True
      with n m er rr refs [of r] show ?thesis by simp
    next
      case False
      with sa_wf_count [OF wf n] refs [of b] show ?thesis by auto
    qed
    then show "unat (sa_refCount n) = (ext(r := 1)) b + sa_refs h {} b"
      and "0 < (ext(r := 1)) b + sa_refs h {} b" by auto
  next
    fix b
    assume b: "0 < (ext(r := 1)) b"
    show "b \<notin> {}" by simp
    show "sa_nodes h b \<noteq> None"
      using b m(1) sa_wf_ext [OF wf, of b] by (cases "b = r") auto
  qed
qed

text \<open>A fresh node whose cells are all the same static empty array (or all empty values).\<close>

definition sa_blank :: "nat \<Rightarrow> 'v sa_node \<Rightarrow> bool" where
  "sa_blank s m \<longleftrightarrow> sa_shift m = s \<and> sa_refCount m = 1 \<and>
     (if s = 0 then \<forall>i < 256. sa_data m i = Value None
      else \<exists>c. EmptyChildForShift s = Some c \<and> (\<forall>i < 256. sa_data m i = Child c))"

lemma sa_blank_refs: "sa_blank s m \<Longrightarrow> cell_refs (Some m) c = 0"
  by (auto simp: sa_blank_def cell_refs_zero_iff EmptyChildForShift_def split: if_splits)

lemma sa_blank_ok: "sa_blank s m \<Longrightarrow> s \<in> sa_shifts \<Longrightarrow> sa_node_ok h D m"
  by (auto simp: sa_blank_def sa_node_ok_def EmptyChild_ptr_ok split: if_splits)

lemma sa_wf_blank:
  assumes wf: "sa_wf h ext {}" and h': "sa_nodes h' = (sa_nodes h)(sa_brk h := Some m)"
    "sa_brk h' = Suc (sa_brk h)" and m: "sa_blank s m" "s \<in> sa_shifts"
  shows "sa_wf h' (ext(sa_brk h := 1)) {}"
proof (rule sa_wf_revive)
  show "sa_wf h' (\<lambda>c. ext c + cell_refs (Some m) c) {sa_brk h}"
    using sa_wf_fresh [OF wf h'] by (simp add: sa_blank_refs [OF m(1)])
qed (use m h' in \<open>auto simp: sa_blank_ok, auto simp: sa_blank_def\<close>)

text \<open>Copying a node: the new node shares its children, whose counts grow.\<close>

definition done_refs :: "'v sa_node \<Rightarrow> nat list \<Rightarrow> nat \<Rightarrow> nat" where
  "done_refs n ys c = card {i. i \<in> set ys \<and> i < 256 \<and> sa_data n i = Child (Node c)}"

lemma done_refs_Nil [simp]: "done_refs n [] c = 0"
  by (simp add: done_refs_def)

lemma done_refs_all: "set ys = {..<256} \<Longrightarrow> done_refs n ys c = cell_refs (Some n) c"
  by (simp add: done_refs_def cell_refs_def)

lemma done_refs_le: "done_refs n ys c \<le> 256"
proof -
  have "done_refs n ys c \<le> card {..<256::nat}"
    unfolding done_refs_def by (intro card_mono) auto
  then show ?thesis by simp
qed

lemma done_refs_step:
  assumes "i < 256" "i \<notin> set ys"
  shows "done_refs n (ys @ [i]) c =
         done_refs n ys c + (if sa_data n i = Child (Node c) then 1 else 0)"
proof -
  let ?S = "{j. j \<in> set ys \<and> j < 256 \<and> sa_data n j = Child (Node c)}"
  have "{j. j \<in> set (ys @ [i]) \<and> j < 256 \<and> sa_data n j = Child (Node c)} =
      (if sa_data n i = Child (Node c) then insert i ?S else ?S)"
    using assms by auto
  moreover have "card (insert i ?S) = Suc (card ?S)"
    using assms by (intro card_insert_disjoint) auto
  ultimately show ?thesis unfolding done_refs_def by simp
qed

text \<open>What copying and counting leave unchanged: contents everywhere, whole nodes from shift \<open>s\<close> up.\<close>

definition rc_frame :: "'v sa_heap \<Rightarrow> 'v sa_heap \<Rightarrow> nat \<Rightarrow> bool" where
  "rc_frame h h' s \<longleftrightarrow>
     (\<forall>b n. sa_nodes h b = Some n \<longrightarrow> same_at h h' b \<and> (s \<le> sa_shift n \<longrightarrow> sa_nodes h' b = Some n))"

lemma rc_frame_refl: "rc_frame h h s"
  by (auto simp: rc_frame_def same_at_def)

lemma rc_frame_trans: "rc_frame h h1 s \<Longrightarrow> rc_frame h1 h2 s \<Longrightarrow> rc_frame h h2 s"
  unfolding rc_frame_def by (metis same_at_def same_at_trans)

lemma rc_frame_node:
  "rc_frame h g s \<Longrightarrow> sa_nodes h b = Some n \<Longrightarrow>
     \<exists>n'. sa_nodes g b = Some n' \<and> sa_shift n' = sa_shift n \<and> sa_data n' = sa_data n"
  by (fastforce simp: rc_frame_def same_at_def)

lemma rc_frame_ptr_ok: "rc_frame h g s \<Longrightarrow> ptr_ok h {} t c \<Longrightarrow> ptr_ok g {} t c"
  by (cases c) (auto simp: ptr_ok_Node dest: rc_frame_node)

lemma rc_frame_set_rc:
  "sa_nodes h b = Some m \<Longrightarrow> sa_shift m < s \<Longrightarrow> rc_frame h (sa_set h b (m\<lparr>sa_refCount := rc\<rparr>)) s"
  by (auto simp: rc_frame_def same_at_def)

lemma retain_children:
  assumes wf: "sa_wf h ext {r}" and s: "0 < s"
    and ok: "\<And>i. i < 256 \<Longrightarrow> \<exists>c. sa_data n i = Child c \<and> ptr_ok h {r} (s - 8) c"
    and room: "\<And>b. ext b + 256 * (sa_brk h + 2) < 2 ^ 32"
  shows "\<exists>h'. foldM (sa_retain_child n) h [0..<256] = Some h' \<and>
              sa_wf h' (\<lambda>c. ext c + cell_refs (Some n) c) {r} \<and> sa_brk h' = sa_brk h \<and>
              rc_frame h h' s \<and> sa_nodes h' r = sa_nodes h r"
proof -
  let ?P = "\<lambda>g ys. sa_wf g (\<lambda>c. ext c + done_refs n ys c) {r} \<and> sa_brk g = sa_brk h \<and>
              rc_frame h g s \<and> sa_nodes g r = sa_nodes h r"
  have "\<exists>g. foldM (sa_retain_child n) h [0..<256] = Some g \<and> ?P g [0..<256]"
  proof (rule foldM_invariant)
    show "?P h []" using wf by (simp add: rc_frame_refl)
  next
    fix g i ys zs
    assume split: "[0..<256] = ys @ i # zs" and P: "?P g ys"
    have i: "i < 256" "i \<notin> set ys"
    proof -
      have "i \<in> set [0..<256]" unfolding split by simp
      then show "i < 256" by simp
      have "distinct (ys @ i # zs)" unfolding split [symmetric] by simp
      then show "i \<notin> set ys" by simp
    qed
    from ok [OF i(1)] obtain c where c: "sa_data n i = Child c" "ptr_ok h {r} (s - 8) c" by blast
    show "\<exists>g'. sa_retain_child n g i = Some g' \<and> ?P g' (ys @ [i])"
    proof (cases "is_empty_child c")
      case True
      then have "done_refs n (ys @ [i]) b = done_refs n ys b" for b
        using done_refs_step [OF i, of n b] c(1) by (auto simp: is_empty_child_def)
      with True c(1) P show ?thesis by (simp add: sa_retain_child_def)
    next
      case False
      then obtain b where b: "c = Node b" by (auto simp: not_empty_child)
      with c(2) obtain m0 where m0: "sa_nodes h b = Some m0" "sa_shift m0 = s - 8" "b \<noteq> r"
        by (auto simp: ptr_ok_Node)
      with P obtain m where m: "sa_nodes g b = Some m" "sa_shift m = s - 8"
        using rc_frame_node by metis
      from P have wfg: "sa_wf g (\<lambda>c. ext c + done_refs n ys c) {r}" by simp
      have cnt: "unat (sa_refCount m) = ext b + done_refs n ys b + sa_refs g {r} b"
        using sa_wf_count [OF wfg m(1)] m0(3) by simp
      have "unat (sa_refCount m) + 1 < 2 ^ 32"
        using cnt room [of b] sa_refs_le [of g "{r}" b] done_refs_le [of n ys b] P by simp
      then have inc: "unat (sa_refCount m + 1) = unat (sa_refCount m) + 1"
        by (simp add: unat_word_ariths)
      let ?g = "sa_set g b (m\<lparr>sa_refCount := sa_refCount m + 1\<rparr>)"
      have "sa_wf ?g (\<lambda>c. ext c + done_refs n (ys @ [i]) c) {r}"
        by (rule sa_wf_set_rc [OF wfg m(1)])
          (use m0(3) inc cnt done_refs_step [OF i, of n] c(1) b in auto)
      moreover have "rc_frame h ?g s"
        using P rc_frame_set_rc [OF m(1), of s] m(2) s by (auto intro: rc_frame_trans)
      moreover have "sa_retain_child n g i = Some ?g"
        using c(1) b m(1) by (simp add: sa_retain_child_def)
      ultimately show ?thesis using P m0(3) by auto
    qed
  qed
  moreover have "(\<lambda>c. ext c + done_refs n [0..<256] c) = (\<lambda>c. ext c + cell_refs (Some n) c)"
    by (simp add: done_refs_all atLeast0LessThan)
  ultimately show ?thesis by auto
qed

lemma calloc_cases:
  obtains (fail) h1 where "sa_calloc h = (h1, None)" "sa_nodes h1 = sa_nodes h" "sa_brk h1 = sa_brk h"
  | (ok) h1 where "sa_calloc h = (h1, Some (sa_brk h))" "sa_brk h1 = Suc (sa_brk h)"
      "sa_nodes h1 = (sa_nodes h)(sa_brk h :=
          Some \<lparr>sa_shift = 0, sa_refCount = 0, sa_data = (\<lambda>_. Value None)\<rparr>)"
  by (cases "sa_calloc_fails h (sa_attempts h)") (auto simp: sa_calloc_def)

lemma Copy_spec:
  assumes wf: "sa_wf h ext {}" and p: "ptr_ok h {} s p" "sa_deref h p = Some n"
    and room: "\<And>b. ext b + 256 * (sa_brk h + 3) < 2 ^ 32"
  shows "(\<exists>h'. SparseArrayCopy h (Some p) = Some (h', None) \<and> sa_nodes h' = sa_nodes h \<and>
            sa_brk h' = sa_brk h) \<or>
         (\<exists>h'. SparseArrayCopy h (Some p) = Some (h', Some (Node (sa_brk h))) \<and>
            sa_wf h' (ext(sa_brk h := 1)) {} \<and> sa_brk h' = Suc (sa_brk h) \<and>
            rc_frame h h' s \<and> sa_nodes h' (sa_brk h) = Some (n\<lparr>sa_refCount := 1\<rparr>))"
proof (cases h rule: calloc_cases)
  case (fail h1)
  then show ?thesis by auto
next
  case (ok h1)
  let ?r = "sa_brk h" and ?m = "n\<lparr>sa_refCount := 1\<rparr>"
  have r: "sa_nodes h ?r = None"
    using sa_wf_brk [OF wf, of ?r] by (cases "sa_nodes h ?r") auto
  have n1: "sa_deref h1 p = Some n"
    using p(2) r ok(3) by (cases p) auto
  have sn: "sa_shift n = s" using p by (auto simp: ptr_ok_def)
  let ?h2 = "sa_set h1 ?r ?m"
  have wf2: "sa_wf ?h2 ext {?r}"
    by (rule sa_wf_fresh [OF wf]) (use ok in auto)
  have fr2: "rc_frame h ?h2 s"
    using r ok(3) by (auto simp: rc_frame_def same_at_def)
  have okn: "sa_node_ok h {} n" by (rule deref_node_ok [OF wf p])
  have keep: "ptr_ok h {} t c \<Longrightarrow> ptr_ok ?h2 {?r} t c" for t c
    using r ok(3) by (cases c) (auto simp: ptr_ok_def)
  show ?thesis
  proof (cases "s = 0")
    case True
    with okn sn have z: "cell_refs (Some ?m) c = 0" for c
      by (auto simp: sa_node_ok_def cell_refs_zero_iff)
    have "sa_wf ?h2 (ext(?r := 1)) {}"
    proof (rule sa_wf_revive)
      show "sa_wf ?h2 (\<lambda>c. ext c + cell_refs (Some ?m) c) {?r}" using wf2 z by simp
      show "sa_node_ok ?h2 {} ?m" using okn True sn by (simp add: sa_node_ok_def)
    qed auto
    then show ?thesis using ok n1 sn True fr2 by (intro disjI2) (simp add: Let_def)
  next
    case False
    have "\<exists>h'. foldM (sa_retain_child ?m) ?h2 [0..<256] = Some h' \<and>
              sa_wf h' (\<lambda>c. ext c + cell_refs (Some ?m) c) {?r} \<and> sa_brk h' = sa_brk ?h2 \<and>
              rc_frame ?h2 h' s \<and> sa_nodes h' ?r = sa_nodes ?h2 ?r"
    proof (rule retain_children [OF wf2])
      show "\<exists>c. sa_data ?m i = Child c \<and> ptr_ok ?h2 {?r} (s - 8) c" if "i < 256" for i
        using okn that False sn keep by (fastforce simp: sa_node_ok_def)
      show "ext b + 256 * (sa_brk ?h2 + 2) < 2 ^ 32" for b using room [of b] ok(2) by simp
    qed (use False in simp)
    then obtain h' where h': "foldM (sa_retain_child ?m) ?h2 [0..<256] = Some h'"
      "sa_wf h' (\<lambda>c. ext c + cell_refs (Some ?m) c) {?r}" "sa_brk h' = Suc ?r"
      "rc_frame ?h2 h' s" "sa_nodes h' ?r = Some ?m"
      using ok(2) by auto
    have fr: "rc_frame h h' s" using fr2 h'(4) by (rule rc_frame_trans)
    have "sa_node_ok h' {} ?m"
      using okn unfolding node_ok_rc by (rule node_ok_mono) (rule rc_frame_ptr_ok [OF fr])
    then have "sa_wf h' (ext(?r := 1)) {}"
      by (intro sa_wf_revive [OF h'(2,5)]) auto
    then show ?thesis using ok n1 sn False fr h' by (intro disjI2) (simp add: Let_def)
  qed
qed

end
