(* ===== verification/Objc_Sparse_Array_Insert.thy ===== *)
theory Objc_Sparse_Array_Insert
  imports Objc_Sparse_Array_Ops
begin

text \<open>
  Insertion into a sparse array: it changes exactly the addressed entry of the array it is
  given and no entry of any other array that shares nodes with it (copy on write), keeps
  the reference counts exact, and leaves every array as it was when memory runs out.
\<close>

lemma view_frame:
  assumes "\<And>b. b \<in> S \<Longrightarrow> same_at h h' b"
    and "\<And>b n i c. b \<in> S \<Longrightarrow> sa_nodes h b = Some n \<Longrightarrow> i < 256 \<Longrightarrow>
            sa_data n i = Child (Node c) \<Longrightarrow> c \<in> S"
  shows "(\<forall>a. p = Node a \<longrightarrow> a \<in> S) \<Longrightarrow>
           SparseArrayLookupLoop f h' p j = SparseArrayLookupLoop f h p j"
proof (induction f arbitrary: p)
  case (Suc f)
  show ?case
  proof (cases p)
    case (Node a)
    with Suc.prems have a: "a \<in> S" by simp
    obtain n n' where n: "sa_nodes h a = Some n" "sa_nodes h' a = Some n'"
      "sa_shift n' = sa_shift n" "sa_data n' = sa_data n"
      using assms(1) [OF a] unfolding same_at_def by blast
    let ?d = "sa_data n (mask_index (sa_shift n) j)"
    have "SparseArrayLookupLoop f h' c j = SparseArrayLookupLoop f h c j" if "?d = Child c" for c
      using assms(2) [OF a n(1) mask_index_lt] that by (intro Suc.IH) auto
    with n Node show ?thesis by (cases ?d) auto
  qed (auto intro: Suc.IH)
qed simp

inductive sa_reach :: "'v sa_heap \<Rightarrow> nat \<Rightarrow> nat \<Rightarrow> bool" for h :: "'v sa_heap" and q :: nat where
  reach_root: "sa_reach h q q"
| reach_child: "sa_reach h q b \<Longrightarrow> sa_nodes h b = Some n \<Longrightarrow> i < 256 \<Longrightarrow>
     sa_data n i = Child (Node c) \<Longrightarrow> sa_reach h q c"

lemma view_reach:
  assumes "\<And>b. sa_reach h q b \<Longrightarrow> same_at h h' b"
  shows "SparseArrayLookupLoop f h' (Node q) j = SparseArrayLookupLoop f h (Node q) j"
  by (rule view_frame [where S = "{b. sa_reach h q b}"])
    (use assms in \<open>auto intro: sa_reach.intros\<close>)

lemma child_live:
  assumes "sa_wf h ext D" "sa_nodes h b = Some n" "b \<notin> D" "i < 256" "sa_data n i = Child (Node c)"
  shows "c \<notin> D \<and> (\<exists>m. sa_nodes h c = Some m \<and> sa_shift n = sa_shift m + 8)"
proof -
  have ok: "sa_node_ok h D n" by (rule sa_wf_node [OF assms(1-3)])
  then have s: "0 < sa_shift n" "sa_shift n \<in> sa_shifts" using assms(4,5)
    by (auto simp: sa_node_ok_def)
  with ok assms(4,5) have "ptr_ok h D (sa_shift n - 8) (Node c)" by (auto simp: sa_node_ok_def)
  then show ?thesis using s by (auto simp: ptr_ok_Node sa_shifts_def)
qed

lemma reach_live:
  assumes wf: "sa_wf h ext {}"
  shows "sa_reach h q b \<Longrightarrow> sa_nodes h q = Some nq \<Longrightarrow>
     \<exists>m. sa_nodes h b = Some m \<and> sa_shift m \<le> sa_shift nq"
proof (induction rule: sa_reach.induct)
  case (reach_child b n i c)
  then show ?case using child_live [OF wf reach_child.hyps(2) _ reach_child.hyps(3,4)] by fastforce
qed auto

text \<open>
  A set of nodes each of which is referenced from outside the store, from another node of
  the set, or from one of the cells \<open>J\<close> of nodes above level \<open>s\<close>.
\<close>

definition sa_rooted ::
  "'v sa_heap \<Rightarrow> (nat \<Rightarrow> nat) \<Rightarrow> nat set \<Rightarrow> (nat \<times> nat) set \<Rightarrow> nat \<Rightarrow> bool" where
  "sa_rooted h ext S J s \<longleftrightarrow>
     (\<forall>b \<in> S. sa_nodes h b \<noteq> None \<and>
        (0 < ext b \<or> (\<exists>d n j. sa_nodes h d = Some n \<and> j < 256 \<and>
           sa_data n j = Child (Node b) \<and> (d \<in> S \<or> (d, j) \<in> J)))) \<and>
     (\<forall>(d, j) \<in> J. \<exists>n. sa_nodes h d = Some n \<and> s < sa_shift n)"

lemma sa_rooted_cases:
  assumes "sa_rooted h ext S J s" "b \<in> S"
  obtains (owned) "0 < ext b"
  | (held) d n j where "sa_nodes h d = Some n" "j < 256" "sa_data n j = Child (Node b)"
      "d \<in> S \<or> (d, j) \<in> J"
proof -
  from assms have "0 < ext b \<or> (\<exists>d n j. sa_nodes h d = Some n \<and> j < 256 \<and>
      sa_data n j = Child (Node b) \<and> (d \<in> S \<or> (d, j) \<in> J))"
    unfolding sa_rooted_def by simp
  with that show ?thesis by metis
qed

lemma sa_rooted_transfer:
  assumes r: "sa_rooted h ext S J s" and s: "s' \<le> s"
    and S: "\<And>b. b \<in> S \<Longrightarrow> same_at h h' b" and J: "\<And>d j. (d, j) \<in> J \<Longrightarrow> same_at h h' d"
    and e: "\<And>b. b \<in> S \<Longrightarrow> 0 < ext b \<Longrightarrow> 0 < ext' b"
  shows "sa_rooted h' ext' S J s'"
  unfolding sa_rooted_def
proof (intro conjI ballI)
  fix b
  assume b: "b \<in> S"
  then show "sa_nodes h' b \<noteq> None" using S by (auto simp: same_at_def)
  from r b show "0 < ext' b \<or> (\<exists>d n j. sa_nodes h' d = Some n \<and> j < 256 \<and>
           sa_data n j = Child (Node b) \<and> (d \<in> S \<or> (d, j) \<in> J))"
  proof (cases rule: sa_rooted_cases)
    case owned
    then show ?thesis using e b by blast
  next
    case (held d n j)
    then have "same_at h h' d" using S J by blast
    with held show ?thesis by (fastforce simp: same_at_def)
  qed
next
  fix x
  assume "x \<in> J"
  then show "case x of (d, j) \<Rightarrow> \<exists>n. sa_nodes h' d = Some n \<and> s' < sa_shift n"
    using r s J by (fastforce simp: sa_rooted_def same_at_def)
qed

lemma sa_rooted_all:
  assumes wf: "sa_wf h ext {}"
  shows "sa_rooted h ext {b. sa_nodes h b \<noteq> None} {} s"
  unfolding sa_rooted_def
proof (intro conjI ballI)
  fix b
  assume "b \<in> {b. sa_nodes h b \<noteq> None}"
  then obtain m where m: "sa_nodes h b = Some m" by auto
  then show "sa_nodes h b \<noteq> None" by simp
  show "0 < ext b \<or> (\<exists>d n j. sa_nodes h d = Some n \<and> j < 256 \<and> sa_data n j = Child (Node b) \<and>
      (d \<in> {b. sa_nodes h b \<noteq> None} \<or> (d, j) \<in> {}))"
  proof (cases "0 < ext b")
    case False
    with sa_wf_count [OF wf m] have "0 < sa_refs h {} b" by simp
    then obtain d where "0 < cell_refs (sa_nodes h d) b"
      unfolding sa_refs_def by (metis gr0I less_irrefl sum.neutral)
    then show ?thesis by (cases "sa_nodes h d") (auto simp: cell_refs_pos_iff)
  qed simp
qed simp

lemma sa_rooted_reach:
  assumes wf: "sa_wf h ext0 {}" and q: "sa_nodes h q = Some nq"
    and just: "0 < ext q \<or> (\<exists>d n j. sa_nodes h d = Some n \<and> j < 256 \<and>
                 sa_data n j = Child (Node q) \<and> (d, j) \<in> J)"
    and J: "\<And>d j. (d, j) \<in> J \<Longrightarrow> \<exists>n. sa_nodes h d = Some n \<and> s < sa_shift n"
  shows "sa_rooted h ext {b. sa_reach h q b} J s"
  unfolding sa_rooted_def
proof (intro conjI ballI)
  fix b
  assume "b \<in> {b. sa_reach h q b}"
  then have b: "sa_reach h q b" by simp
  then show "sa_nodes h b \<noteq> None" using reach_live [OF wf b q] by auto
  from b show "0 < ext b \<or> (\<exists>d n j. sa_nodes h d = Some n \<and> j < 256 \<and>
      sa_data n j = Child (Node b) \<and> (d \<in> {b. sa_reach h q b} \<or> (d, j) \<in> J))"
    by cases (use just in auto)
qed (use J in auto)

lemma survive:
  assumes r: "sa_rooted h ext S J s" and wf: "sa_wf h ext0 {}" and wf': "sa_wf h' ext {}"
    and sub: "sa_sub h h'" and J: "\<And>d j. (d, j) \<in> J \<Longrightarrow> same_at h h' d"
    and b: "b \<in> S"
  shows "same_at h h' b"
proof -
  have "b \<in> S \<Longrightarrow> sa_nodes h b = Some n \<Longrightarrow> sa_nodes h' b \<noteq> None" for b n
  proof (induction "24 - sa_shift n" arbitrary: b n rule: less_induct)
    case less
    from r less.prems(1) show ?case
    proof (cases rule: sa_rooted_cases)
      case owned
      then show ?thesis using sa_wf_ext [OF wf'] by auto
    next
      case 2: (held d m j)
      from child_live [OF wf 2(1) _ 2(2,3)] less.prems have up: "sa_shift m = sa_shift n + 8" by auto
      have "sa_shift m \<in> sa_shifts"
        using sa_wf_node [OF wf 2(1)] by (simp add: sa_node_ok_def)
      then have lt: "24 - sa_shift m < 24 - sa_shift n" using up by (auto simp: sa_shifts_def)
      have "same_at h h' d"
        using 2(4) J less.hyps [OF lt _ 2(1)] sub by (auto simp: sa_sub_def)
      with 2 obtain m' where "sa_nodes h' d = Some m'" "sa_data m' j = Child (Node b)"
        by (auto simp: same_at_def)
      then show ?thesis using child_live [OF wf' _ _ 2(2)] by fastforce
    qed
  qed
  with b r sub show ?thesis by (auto simp: sa_rooted_def sa_sub_def)
qed

lemma sole_reference:
  assumes wf: "sa_wf h ext {}" and a: "sa_nodes h a = Some n" "i < 256" "sa_data n i = Child (Node c)"
    and c: "sa_nodes h c = Some m" "unat (sa_refCount m) = 1"
  shows "ext c = 0"
    and "sa_nodes h d = Some n' \<Longrightarrow> j < 256 \<Longrightarrow> sa_data n' j = Child (Node c) \<Longrightarrow> d = a \<and> j = i"
proof -
  have lt: "a < sa_brk h" by (rule sa_wf_brk [OF wf a(1)])
  have one: "ext c + sa_refs h {} c = 1" using sa_wf_count [OF wf c(1)] c(2) by simp
  have ca: "0 < cell_refs (Some n) c" using a by (auto simp: cell_refs_pos_iff)
  moreover have "cell_refs (Some n) c \<le> sa_refs h {} c"
    using sa_refs_mono_member [OF lt, of "{}" c] a(1) by simp
  ultimately have e: "ext c = 0" and cn: "cell_refs (Some n) c = 1" and rf: "sa_refs h {} c = 1"
    using one by auto
  from e show "ext c = 0" .
  assume d: "sa_nodes h d = Some n'" "j < 256" "sa_data n' j = Child (Node c)"
  have da: "d = a"
  proof (rule ccontr)
    assume "d \<noteq> a"
    then have "cell_refs (sa_nodes h a) c + cell_refs (sa_nodes h d) c \<le> sa_refs h {} c"
      using lt sa_wf_brk [OF wf d(1)] by (intro sa_refs_two) auto
    moreover have "0 < cell_refs (Some n') c" using d by (auto simp: cell_refs_pos_iff)
    ultimately show False using cn rf a(1) d(1) by simp
  qed
  have "j = i"
  proof (rule ccontr)
    assume "j \<noteq> i"
    with d a da have "{i, j} \<subseteq> {l. l < 256 \<and> sa_data n l = Child (Node c)}" by auto
    then have "card {i, j} \<le> card {l. l < 256 \<and> sa_data n l = Child (Node c)}"
      by (intro card_mono) auto
    with cn \<open>j \<noteq> i\<close> show False by (simp add: cell_refs_def)
  qed
  with da show "d = a \<and> j = i" by simp
qed

text \<open>Publishing a privately owned child in its parent.\<close>

lemma sa_wf_link:
  assumes wf: "sa_wf h (ext(r := 1)) {}" and er: "ext r = 0"
    and a: "sa_nodes h a = Some n" "0 < sa_shift n" "i < 256" "sa_data n i = Child c" "c \<noteq> Node r"
    and r: "sa_nodes h r = Some m" "sa_shift n = sa_shift m + 8"
  shows "sa_wf (sa_set h a (n\<lparr>sa_data := (sa_data n)(i := Child (Node r))\<rparr>)) (inc_ext ext c) {}"
    (is "sa_wf ?h ?e {}")
proof -
  let ?n = "n\<lparr>sa_data := (sa_data n)(i := Child (Node r))\<rparr>"
  have lt: "a < sa_brk h" by (rule sa_wf_brk [OF wf a(1)])
  have ra: "r \<noteq> a" using a r by auto
  have refs: "sa_refs ?h {} b + (if c = Node b then 1 else 0) =
      sa_refs h {} b + (if b = r then 1 else 0)" for b
    using sa_refs_set [OF lt, of "{}" ?n b] cell_refs_upd [OF a(3), of n "Child (Node r)" b] a(1,4)
    by auto
  have sum: "?e b + sa_refs ?h {} b = (ext(r := 1)) b + sa_refs h {} b" for b
    using refs [of b] er a(5) by (cases c) (auto simp: inc_ext_def)
  have ptr: "ptr_ok h {} t p \<Longrightarrow> ptr_ok ?h {} t p" for t p
    using a(1) by (cases p) (auto simp: ptr_ok_Node)
  have node: "sa_node_ok h {} x \<Longrightarrow> sa_node_ok ?h {} x" for x
    by (erule node_ok_mono) (rule ptr)
  have "ptr_ok ?h {} (sa_shift n - 8) (Node r)" using r ra by (simp add: ptr_ok_Node)
  then have okn: "sa_node_ok ?h {} ?n"
    using node [OF sa_wf_node [OF wf a(1)]] a(2) by (simp add: sa_node_ok_def)
  show ?thesis
    unfolding sa_wf_def sum
  proof (intro conjI allI impI)
    fix b x
    assume x: "sa_nodes ?h b = Some x"
    show "b < sa_brk ?h" using x lt sa_wf_brk [OF wf] by (auto split: if_splits)
    show "sa_node_ok ?h {} x"
      using x okn node sa_wf_node [OF wf] by (auto split: if_splits)
    obtain y where "sa_nodes h b = Some y" "sa_refCount x = sa_refCount y"
      using x a(1) by (auto split: if_splits)
    then show "unat (sa_refCount x) = (ext(r := 1)) b + sa_refs h {} b"
      and "0 < (ext(r := 1)) b + sa_refs h {} b"
      using sa_wf_count [OF wf, of b y] by auto
  next
    fix b
    assume b: "0 < ?e b"
    show "b \<notin> {}" by simp
    have "sa_nodes h b \<noteq> None"
    proof (cases "c = Node b")
      case True
      then show ?thesis using child_live [OF wf a(1) _ a(3)] a(4) by auto
    next
      case False
      with b have "0 < ext b" by (cases c) (auto simp: inc_ext_def split: if_splits)
      then have "0 < (ext(r := 1)) b" by simp
      then show ?thesis using sa_wf_ext [OF wf] by blast
    qed
    then show "sa_nodes ?h b \<noteq> None" by simp
  qed
qed

text \<open>Storing a value in a leaf.\<close>

lemma sa_wf_set_value:
  assumes wf: "sa_wf h ext {}" and a: "sa_nodes h a = Some n" "sa_shift n = 0" "i < 256"
  shows "sa_wf (sa_set h a (n\<lparr>sa_data := (sa_data n)(i := Value v)\<rparr>)) ext {}" (is "sa_wf ?h ext {}")
proof -
  let ?n = "n\<lparr>sa_data := (sa_data n)(i := Value v)\<rparr>"
  have lt: "a < sa_brk h" by (rule sa_wf_brk [OF wf a(1)])
  have okn: "sa_node_ok h {} n" by (rule sa_wf_node [OF wf a(1)]) simp
  then obtain w where "sa_data n i = Value w" using a unfolding sa_node_ok_def by blast
  then have refs: "sa_refs ?h {} b = sa_refs h {} b" for b
    using sa_refs_set [OF lt, of "{}" ?n b] cell_refs_upd [OF a(3), of n "Value v" b] a(1) by simp
  have ptr: "ptr_ok ?h {} t p = ptr_ok h {} t p" for t p
    using a(1) by (cases p) (auto simp: ptr_ok_Node)
  have node: "sa_node_ok ?h {} x = sa_node_ok h {} x" for x
    by (simp add: sa_node_ok_def ptr)
  have "sa_node_ok h {} ?n" using okn a by (auto simp: sa_node_ok_def)
  then show ?thesis unfolding sa_wf_def refs node using wf a(1)
    by (auto simp: sa_wf_def split: if_splits)
qed

text \<open>Lookups that counting does not disturb.\<close>

lemma view_static: "is_empty_child p \<Longrightarrow> SparseArrayLookupLoop f h' p j = SparseArrayLookupLoop f h p j"
  by (rule view_frame [where S = "{}"]) auto

lemma view_rc_frame:
  assumes wf: "sa_wf h ext {}" and rc: "rc_frame h h' s" and p: "ptr_ok h {} t p"
  shows "SparseArrayLookupLoop f h' p j = SparseArrayLookupLoop f h p j"
proof (rule view_frame [where S = "{b. sa_nodes h b \<noteq> None}"])
  show "same_at h h' b" if "b \<in> {b. sa_nodes h b \<noteq> None}" for b
    using that rc by (auto simp: rc_frame_def)
  show "c \<in> {b. sa_nodes h b \<noteq> None}"
    if "sa_nodes h b = Some n" "i < 256" "sa_data n i = Child (Node c)" for b n i c
    using child_live [OF wf that(1) _ that(2,3)] by auto
qed (use p in \<open>auto simp: ptr_ok_Node\<close>)

definition sa_room :: "'v sa_heap \<Rightarrow> (nat \<Rightarrow> nat) \<Rightarrow> nat \<Rightarrow> bool" where
  "sa_room h ext k \<longleftrightarrow> (\<forall>b. ext b < 2 ^ 16) \<and> sa_brk h + k < 2 ^ 23"

lemma sa_room_copy: "sa_room h ext k \<Longrightarrow> ext b + 256 * (sa_brk h + 3) < 2 ^ 32"
  unfolding sa_room_def by (auto dest: spec [of _ b])

lemma blank_view:
  assumes m: "sa_nodes h' r = Some m" "sa_blank s m" and p: "ptr_ok h {} s p" "is_empty_child p"
    and s: "s \<in> sa_shifts"
  shows "SparseArrayLookupLoop f h' (Node r) j = SparseArrayLookupLoop f h p j"
proof (cases f)
  case (Suc g)
  obtain x where x: "sa_deref h p = Some x" "sa_shift x = s"
    "\<And>i. i < 256 \<Longrightarrow> sa_data x i = sa_data m i"
  proof -
    have "\<exists>x. sa_deref h p = Some x \<and> sa_shift x = s \<and> (\<forall>i < 256. sa_data x i = sa_data m i)"
      using p m(2) by (cases p) (auto simp: sa_blank_def EmptyChildForShift_def is_empty_child_def)
    with that show ?thesis by blast
  qed
  have sm: "sa_shift m = s" using m(2) by (simp add: sa_blank_def)
  show ?thesis
  proof (cases "s = 0")
    case True
    then show ?thesis using x(1,2) x(3) [OF mask_index_lt [of 0 j]] sm m(1)
      by (simp add: Suc and_ff_eq)
  next
    case False
    with m(2) obtain c where c: "sa_data m (mask_index s j) = Child c" "is_empty_child c"
      by (auto simp: sa_blank_def dest: EmptyChild_ptr_ok)
    with False show ?thesis using x(1,2) x(3) [OF mask_index_lt [of s j]] sm m(1)
      view_static [OF c(2), of g h' j h] by (simp add: Suc)
  qed
qed simp

lemma copy_view:
  assumes wf: "sa_wf h ext {}" and rc: "rc_frame h h' t" and n: "sa_nodes h c = Some n"
    and r: "sa_nodes h' r = Some (n\<lparr>sa_refCount := rc\<rparr>)"
  shows "SparseArrayLookupLoop f h' (Node r) j = SparseArrayLookupLoop f h (Node c) j"
proof (cases f)
  case (Suc g)
  have ok: "sa_node_ok h {} n" by (rule sa_wf_node [OF wf n]) simp
  show ?thesis
  proof (cases "sa_shift n = 0")
    case False
    with ok obtain d where d: "sa_data n (mask_index (sa_shift n) j) = Child d"
      "ptr_ok h {} (sa_shift n - 8) d" using mask_index_lt unfolding sa_node_ok_def by blast
    then show ?thesis using False n r view_rc_frame [OF wf rc d(2), of g j] by (simp add: Suc)
  qed (use n r in \<open>simp add: Suc\<close>)
qed simp

lemma init_blank:
  assumes "s \<in> sa_shifts" "sa_nodes h1 = (sa_nodes h)(r := x)"
  shows "\<exists>h2 m. init_pointers (sa_set h1 r
           \<lparr>sa_shift = s, sa_refCount = 1, sa_data = (\<lambda>_. Value None)\<rparr>) r = Some h2 \<and>
         sa_nodes h2 = (sa_nodes h)(r := Some m) \<and> sa_brk h2 = sa_brk h1 \<and> sa_blank s m"
proof -
  have "s = 0 \<or> s = 8 \<or> s = 16 \<or> s = 24" using assms(1) by (auto simp: sa_shifts_def)
  then show ?thesis using assms(2)
    by (elim disjE) (auto simp: init_pointers_def EmptyChildForShift_def sa_blank_def)
qed

lemma replacement_cases:
  assumes wf: "sa_wf h ext {}" and c: "ptr_ok h {} (s - 8) child" and s: "s \<in> sa_shifts" "0 < s"
    and room: "sa_room h ext k"
  obtains (fail) h1 where "sa_replacement h s child = Some (h1, None)"
      "sa_nodes h1 = sa_nodes h" "sa_brk h1 = sa_brk h"
  | (keep) b m where "child = Node b" "sa_replacement h s child = Some (h, Some (child, False))"
      "sa_nodes h b = Some m" "unat (sa_refCount m) = 1"
  | (new) h1 m where "sa_replacement h s child = Some (h1, Some (Node (sa_brk h), True))"
      "sa_wf h1 (ext(sa_brk h := 1)) {}" "sa_brk h1 = Suc (sa_brk h)" "rc_frame h h1 (s - 8)"
      "sa_nodes h1 (sa_brk h) = Some m" "sa_shift m = s - 8"
      "\<And>f j. SparseArrayLookupLoop f h1 (Node (sa_brk h)) j = SparseArrayLookupLoop f h child j"
proof (cases "is_empty_child child")
  case True
  show ?thesis
  proof (cases h rule: calloc_cases)
    case (fail h1)
    with True that(1) show ?thesis by (simp add: sa_replacement_def)
  next
    case (ok h1)
    let ?t = "if base_shift \<ge> s then 0 else s - base_shift"
    have t: "?t = s - 8" "s - 8 \<in> sa_shifts" using s by (auto simp: base_shift_def sa_shifts_def)
    obtain h2 m where h2: "init_pointers (sa_set h1 (sa_brk h)
          \<lparr>sa_shift = s - 8, sa_refCount = 1, sa_data = (\<lambda>_. Value None)\<rparr>) (sa_brk h) = Some h2"
      "sa_nodes h2 = (sa_nodes h)(sa_brk h := Some m)" "sa_brk h2 = Suc (sa_brk h)"
      "sa_blank (s - 8) m"
      using init_blank [OF t(2) ok(3)] ok(2) by auto
    have none: "sa_nodes h (sa_brk h) = None"
      using sa_wf_brk [OF wf, of "sa_brk h"] by (cases "sa_nodes h (sa_brk h)") auto
    show ?thesis
    proof (rule that(3) [of h2 m])
      show "sa_replacement h s child = Some (h2, Some (Node (sa_brk h), True))"
        using True ok h2(1) by (simp add: sa_replacement_def t(1))
      show "sa_wf h2 (ext(sa_brk h := 1)) {}" by (rule sa_wf_blank [OF wf h2(2-4) t(2)])
      show "rc_frame h h2 (s - 8)" using h2(2) none by (auto simp: rc_frame_def same_at_def)
      show "sa_shift m = s - 8" using h2(4) by (simp add: sa_blank_def)
    qed (use h2 blank_view [OF _ h2(4) c True t(2)] in auto)
  qed
next
  case False
  then obtain b where b: "child = Node b" by (auto simp: not_empty_child)
  with c obtain m where m: "sa_nodes h b = Some m" "sa_shift m = s - 8" by (auto simp: ptr_ok_Node)
  show ?thesis
  proof (cases "sa_refCount m > 1")
    case le: False
    have "0 < unat (sa_refCount m)" using sa_wf_count [OF wf m(1)] by simp
    with le have "unat (sa_refCount m) = 1" by (simp add: word_less_nat_alt)
    then show ?thesis using that(2) [OF b _ m(1)] le b m by (simp add: sa_replacement_def)
  next
    case True
    have "sa_deref h child = Some m" using b m by simp
    from Copy_spec [OF wf c this sa_room_copy [OF room]] show ?thesis
    proof (elim disjE exE conjE)
      fix h' assume "SparseArrayCopy h (Some child) = Some (h', None)" "sa_nodes h' = sa_nodes h"
        "sa_brk h' = sa_brk h"
      then show ?thesis using that(1) [of h'] b m True by (simp add: sa_replacement_def)
    next
      fix h' assume h': "SparseArrayCopy h (Some child) = Some (h', Some (Node (sa_brk h)))"
        "sa_wf h' (ext(sa_brk h := 1)) {}" "sa_brk h' = Suc (sa_brk h)" "rc_frame h h' (s - 8)"
        "sa_nodes h' (sa_brk h) = Some (m\<lparr>sa_refCount := 1\<rparr>)"
      show ?thesis
        by (rule that(3) [OF _ h'(2-5)])
          (use h'(1) b m True copy_view [OF wf h'(4) m(1) h'(5)] in \<open>auto simp: sa_replacement_def\<close>)
    qed
  qed
qed

text \<open>
  What an insertion at node \<open>a\<close> of shift \<open>8 * k\<close> leaves behind: exact counts, at most one new
  node per level, unchanged nodes above, unchanged contents of every node that is
  reachable without going through \<open>a\<close>, the new entry, and on failure every old node.
\<close>

definition insert_post ::
  "nat \<Rightarrow> 'v sa_heap \<Rightarrow> 'v sa_heap \<Rightarrow> (nat \<Rightarrow> nat) \<Rightarrow> nat \<Rightarrow> nat \<Rightarrow> uint32 \<Rightarrow> 'v option \<Rightarrow> bool \<Rightarrow> bool" where
  "insert_post f h h' ext a k i v ok \<longleftrightarrow>
     sa_wf h' ext {} \<and> sa_brk h \<le> sa_brk h' \<and> sa_brk h' \<le> sa_brk h + k \<and>
     (\<exists>n'. sa_nodes h' a = Some n' \<and> sa_shift n' = 8 * k) \<and>
     (\<forall>b m. sa_nodes h b = Some m \<longrightarrow> 8 * k < sa_shift m \<longrightarrow> sa_nodes h' b = Some m) \<and>
     (\<forall>S J b. sa_rooted h ext S J (8 * k) \<longrightarrow> a \<notin> S \<longrightarrow> b \<in> S \<longrightarrow> same_at h h' b) \<and>
     (ok \<longrightarrow> (\<forall>j. SparseArrayLookupLoop f h' (Node a) j =
         (if unat j mod 2 ^ (8 * k + 8) = unat i mod 2 ^ (8 * k + 8) then Some v
          else SparseArrayLookupLoop f h (Node a) j))) \<and>
     (\<not> ok \<longrightarrow> (\<forall>b n. sa_nodes h b = Some n \<longrightarrow> same_at h h' b))"

lemma insert_post_fail:
  assumes "sa_wf h' ext {}" "sa_brk h \<le> sa_brk h'" "sa_brk h' \<le> sa_brk h + k"
    and "sa_nodes h a = Some n" "sa_shift n = 8 * k"
    and "\<And>b m. sa_nodes h b = Some m \<Longrightarrow> 8 * k < sa_shift m \<Longrightarrow> sa_nodes h' b = Some m"
    and same: "\<And>b m. sa_nodes h b = Some m \<Longrightarrow> same_at h h' b"
  shows "insert_post f h h' ext a k i v False"
proof -
  have "\<exists>n'. sa_nodes h' a = Some n' \<and> sa_shift n' = 8 * k"
    using same [OF assms(4)] assms(4,5) by (auto simp: same_at_def)
  moreover have "same_at h h' b" if "sa_rooted h ext S J s" "b \<in> S" for S J s b
    using that same [of b] unfolding sa_rooted_def by (cases "sa_nodes h b") auto
  ultimately show ?thesis using assms unfolding insert_post_def by blast
qed

lemma Insert_leaf:
  assumes wf: "sa_wf h ext {}" and a: "sa_nodes h a = Some n" "sa_shift n = 0"
    and h': "h' = sa_set h a (n\<lparr>sa_data := (sa_data n)(mask_index 0 i := Value v)\<rparr>)"
  shows "insert_post (Suc f) h h' ext a 0 i v True"
proof -
  have wf': "sa_wf h' ext {}" unfolding h' by (rule sa_wf_set_value [OF wf a mask_index_lt])
  have "same_at h h' b" if "sa_rooted h ext S J s" "a \<notin> S" "b \<in> S" for S J s b
  proof -
    have "sa_nodes h b \<noteq> None" "b \<noteq> a" using that by (auto simp: sa_rooted_def)
    then show ?thesis by (auto simp: h' same_at_def)
  qed
  moreover have "SparseArrayLookupLoop (Suc f) h' (Node a) j =
      (if unat j mod 2 ^ (8 * 0 + 8) = unat i mod 2 ^ (8 * 0 + 8) then Some v
       else SparseArrayLookupLoop (Suc f) h (Node a) j)" for j
    using same_index_split [of j 0 i] a by (auto simp: h' and_ff_eq)
  ultimately show ?thesis using wf' a unfolding insert_post_def
    by (auto simp: h' sa_rooted_def)
qed

text \<open>A child with a single reference is only reachable through its parent's cell.\<close>

lemma sole_not_rooted:
  assumes wf: "sa_wf h ext {}" and a: "sa_nodes h a = Some n" "i < 256" "sa_data n i = Child (Node c)"
    and c: "sa_nodes h c = Some m" "unat (sa_refCount m) = 1"
    and r: "sa_rooted h ext S J s" and S: "a \<notin> S" "(a, i) \<notin> J"
  shows "c \<notin> S"
proof
  assume "c \<in> S"
  with r show False
    by (cases rule: sa_rooted_cases)
      (use sole_reference [OF wf a c] S in auto)
qed

lemma sibling_reach:
  assumes wf: "sa_wf h ext0 {}" and a: "sa_nodes h a = Some n" "sa_shift n = 8 * Suc k" "j0 < 256"
    and q: "sa_data n j0 = Child (Node q)"
  shows "sa_rooted h ext {b. sa_reach h q b} {(a, j0)} (8 * k)" and "\<not> sa_reach h q a"
proof -
  obtain m where m: "sa_nodes h q = Some m" "sa_shift n = sa_shift m + 8"
    using child_live [OF wf a(1) _ a(3) q] by auto
  show "sa_rooted h ext {b. sa_reach h q b} {(a, j0)} (8 * k)"
    by (rule sa_rooted_reach [OF wf m(1)]) (use a q in auto)
  show "\<not> sa_reach h q a" using reach_live [OF wf _ m(1)] a m by fastforce
qed

lemma loop_step:
  assumes wf: "sa_wf h ext {}" and a: "sa_nodes h a = Some n" "sa_shift n = 8 * Suc k"
  obtains c where "sa_data n (mask_index (8 * Suc k) j) = Child c" "ptr_ok h {} (8 * k) c"
    "SparseArrayLookupLoop (Suc f) h (Node a) j = SparseArrayLookupLoop f h c j"
proof -
  have ok: "sa_node_ok h {} n" by (rule sa_wf_node [OF wf a(1)]) simp
  then obtain c where c: "sa_data n (mask_index (8 * Suc k) j) = Child c" "ptr_ok h {} (8 * k) c"
    using a(2) mask_index_lt [of "8 * Suc k" j] unfolding sa_node_ok_def by fastforce
  then show ?thesis using that a by simp
qed

lemma Insert_keep:
  assumes wf: "sa_wf h ext {}" and a: "sa_nodes h a = Some n" "sa_shift n = 8 * Suc k"
    and c: "sa_data n (mask_index (8 * Suc k) i) = Child (Node c)"
      "sa_nodes h c = Some m" "unat (sa_refCount m) = 1"
    and post: "insert_post f h h' ext c k i v ok"
  shows "insert_post (Suc f) h h' ext a (Suc k) i v ok"
proof (cases ok)
  case False
  have "insert_post (Suc f) h h' ext a (Suc k) i v False"
    by (rule insert_post_fail [OF _ _ _ a]) (use post False in \<open>auto simp: insert_post_def\<close>)
  with False show ?thesis by simp
next
  case True
  note P = post [unfolded insert_post_def]
  let ?i = "mask_index (8 * Suc k) i"
  have wf': "sa_wf h' ext {}" using P by blast
  have high: "sa_nodes h' b = Some x" if "sa_nodes h b = Some x" "8 * k < sa_shift x" for b x
    using P that by blast
  have na: "sa_nodes h' a = Some n" using high [OF a(1)] a(2) by simp
  have frame: "same_at h h' b" if r: "sa_rooted h ext S J (8 * k)" and "a \<notin> S" "(a, ?i) \<notin> J" "b \<in> S"
    for S J b
    using P sole_not_rooted [OF wf a(1) mask_index_lt c r that(2,3)] that by blast
  have "same_at h h' b" if r: "sa_rooted h ext S J (8 * Suc k)" and "a \<notin> S" "b \<in> S" for S J b
  proof (rule frame [OF _ that(2) _ that(3)])
    show "sa_rooted h ext S J (8 * k)" using r unfolding sa_rooted_def by fastforce
    show "(a, ?i) \<notin> J" using r a unfolding sa_rooted_def by fastforce
  qed
  moreover have "SparseArrayLookupLoop (Suc f) h' (Node a) j =
      (if unat j mod 2 ^ (8 * Suc k + 8) = unat i mod 2 ^ (8 * Suc k + 8) then Some v
       else SparseArrayLookupLoop (Suc f) h (Node a) j)" for j
  proof -
    obtain d where d: "sa_data n (mask_index (8 * Suc k) j) = Child d"
      "SparseArrayLookupLoop (Suc f) h (Node a) j = SparseArrayLookupLoop f h d j"
      by (rule loop_step [OF wf a])
    have d': "SparseArrayLookupLoop (Suc f) h' (Node a) j = SparseArrayLookupLoop f h' d j"
      using d(1) na a(2) by simp
    show ?thesis
    proof (cases "mask_index (8 * Suc k) j = ?i")
      case True
      then have "d = Node c" using c d by simp
      then have "SparseArrayLookupLoop f h' d j =
          (if unat j mod 2 ^ (8 * Suc k) = unat i mod 2 ^ (8 * Suc k) then Some v
           else SparseArrayLookupLoop f h d j)"
        using P \<open>ok\<close> by (simp add: add.commute)
      then show ?thesis unfolding d d' same_index_split using True by simp
    next
      case False
      have "SparseArrayLookupLoop f h' d j = SparseArrayLookupLoop f h d j"
      proof (cases "is_empty_child d")
        case ne: False
        then obtain q where q: "d = Node q" by (auto simp: not_empty_child)
        note sib = sibling_reach [OF wf a mask_index_lt d(1) [unfolded q]]
        show ?thesis unfolding q
          by (rule view_reach, rule frame [OF sib(1)]) (use sib(2) False in auto)
      qed (rule view_static)
      then show ?thesis unfolding d d' same_index_split using False by simp
    qed
  qed
  ultimately show ?thesis using P True na a(2) high unfolding insert_post_def by auto
qed

text \<open>Publishing the replacement of a child and dropping the reference to the old child.\<close>

lemma Insert_publish:
  assumes wf: "sa_wf h ext {}" and a: "sa_nodes h a = Some n" "sa_shift n = 8 * Suc k"
    and c: "sa_data n (mask_index (8 * Suc k) i) = Child c"
    and h1: "rc_frame h h1 (8 * k)" "sa_nodes h r = None" "sa_nodes h1 r = Some m" "sa_brk h1 = Suc (sa_brk h)"
      "\<And>j. SparseArrayLookupLoop f h1 (Node r) j = SparseArrayLookupLoop f h c j"
    and post: "insert_post f h1 h2 (ext(r := 1)) r k i v True"
    and h3: "h3 = sa_set h2 a (n\<lparr>sa_data := (sa_data n)(mask_index (8 * Suc k) i := Child (Node r))\<rparr>)"
      "sa_wf h3 e3 {}"
    and h4: "destroy_frame h3 h4 (8 * k) {}" "sa_wf h4 ext {}"
  shows "insert_post (Suc f) h h4 ext a (Suc k) i v True"
proof -
  note P = post [unfolded insert_post_def]
  let ?i = "mask_index (8 * Suc k) i"
  let ?n = "n\<lparr>sa_data := (sa_data n)(?i := Child (Node r))\<rparr>"
  have sub: "sa_sub h3 h4" using h4(1) by (simp add: destroy_frame_def)
  have high2: "sa_nodes h2 b = Some x" if "sa_nodes h b = Some x" "8 * k < sa_shift x" for b x
  proof -
    have "sa_nodes h1 b = Some x" using h1(1) that unfolding rc_frame_def by fastforce
    then show ?thesis using P that by blast
  qed
  have high: "sa_nodes h4 b = Some x" if "sa_nodes h b = Some x" "8 * k < sa_shift x" "b \<noteq> a" for b x
    using high2 [OF that(1,2)] that h4(1) by (auto simp: destroy_frame_def h3)
  have na2: "sa_nodes h2 a = Some n" using high2 [OF a(1)] a(2) by simp
  have na3: "sa_nodes h3 a = Some ?n" by (simp add: h3)
  have na4: "sa_nodes h4 a = Some ?n" using h4(1) na3 a(2) by (auto simp: destroy_frame_def)
  have wf2: "sa_wf h2 (ext(r := 1)) {}" using P by blast
  have set3: "same_at h2 h3 b" if "sa_nodes h2 b \<noteq> None" "b \<noteq> a" for b
    using that by (auto simp: h3 same_at_def)
  have frame3: "same_at h h3 b" if R: "sa_rooted h ext S J s" "8 * k \<le> s" and "a \<notin> S" "b \<in> S" for S J s b
  proof -
    have live: "sa_nodes h x \<noteq> None" if "x \<in> S" for x using R that unfolding sa_rooted_def by blast
    have s1: "same_at h h1 x" if "sa_nodes h x \<noteq> None" for x using h1(1) that by (auto simp: rc_frame_def)
    have "sa_rooted h1 (ext(r := 1)) S J (8 * k)"
      by (rule sa_rooted_transfer [OF R(1,2)]) (use R live s1 in \<open>fastforce simp: sa_rooted_def\<close>)+
    moreover have "r \<notin> S" using live [of r] h1(2) by auto
    ultimately have "same_at h1 h2 b" using P \<open>b \<in> S\<close> by blast
    then have "same_at h h2 b" using s1 live \<open>b \<in> S\<close> same_at_trans by blast
    moreover have "same_at h2 h3 b" using calculation that by (intro set3) (auto simp: same_at_def)
    ultimately show ?thesis by (rule same_at_trans)
  qed
  have frame4: "same_at h3 h4 b" if "sa_rooted h3 ext S J (8 * k)" "b \<in> S" for S J b
    by (rule survive [OF that(1) h3(2) h4(2) sub _ that(2)])
      (use that(1) h4(1) in \<open>fastforce simp: sa_rooted_def destroy_frame_def same_at_def\<close>)
  have "same_at h h4 b" if R: "sa_rooted h ext S J (8 * Suc k)" and S: "a \<notin> S" "b \<in> S" for S J b
  proof -
    have J: "same_at h h3 d" if "(d, j) \<in> J" for d j
    proof -
      obtain x where x: "sa_nodes h d = Some x" "8 * Suc k < sa_shift x"
        using R \<open>(d, j) \<in> J\<close> unfolding sa_rooted_def by blast
      then have "d \<noteq> a" using a by auto
      then show ?thesis using high2 [OF x(1)] x by (auto simp: h3 same_at_def)
    qed
    have S3: "same_at h h3 x" if "x \<in> S" for x by (rule frame3 [OF R _ S(1) that]) simp
    have "sa_rooted h3 ext S J (8 * k)" by (rule sa_rooted_transfer [OF R _ S3 J]) auto
    from same_at_trans [OF S3 frame4 [OF this]] S show ?thesis by blast
  qed
  moreover have "SparseArrayLookupLoop (Suc f) h4 (Node a) j =
      (if unat j mod 2 ^ (8 * Suc k + 8) = unat i mod 2 ^ (8 * Suc k + 8) then Some v
       else SparseArrayLookupLoop (Suc f) h (Node a) j)" for j
  proof -
    obtain d where d: "sa_data n (mask_index (8 * Suc k) j) = Child d"
      "SparseArrayLookupLoop (Suc f) h (Node a) j = SparseArrayLookupLoop f h d j"
      by (rule loop_step [OF wf a])
    have a3: "sa_shift ?n = 8 * Suc k" using a(2) by simp
    obtain d' where d': "sa_data ?n (mask_index (8 * Suc k) j) = Child d'"
      "SparseArrayLookupLoop (Suc f) h4 (Node a) j = SparseArrayLookupLoop f h4 d' j"
      by (rule loop_step [OF h4(2) na4 a3])
    have late: "SparseArrayLookupLoop f h4 d' j = SparseArrayLookupLoop f h3 d' j"
    proof (cases "is_empty_child d'")
      case ne: False
      then obtain q where q: "d' = Node q" by (auto simp: not_empty_child)
      from frame4 [OF sibling_reach(1) [OF h3(2) na3 a3 mask_index_lt d'(1) [unfolded q]]]
      show ?thesis unfolding q by (intro view_reach) simp
    qed (rule view_static)
    show ?thesis
    proof (cases "mask_index (8 * Suc k) j = ?i")
      case True
      then have eq: "d' = Node r" "d = c" using c d d' by auto
      have ar: "\<not> sa_reach h2 r a"
        using P reach_live [OF wf2, of r a] na2 a(2) by fastforce
      have "SparseArrayLookupLoop f h3 (Node r) j = SparseArrayLookupLoop f h2 (Node r) j"
      proof (rule view_reach)
        fix b
        assume b: "sa_reach h2 r b"
        then show "same_at h2 h3 b"
          using P reach_live [OF wf2 b] ar by (intro set3) auto
      qed
      then have "SparseArrayLookupLoop f h4 d' j =
          (if unat j mod 2 ^ (8 * Suc k) = unat i mod 2 ^ (8 * Suc k) then Some v
           else SparseArrayLookupLoop f h c j)"
        using P late eq h1(5) by (simp add: add.commute)
      then show ?thesis unfolding d d' same_index_split using True eq by simp
    next
      case False
      then have eq: "d' = d" using d d' by auto
      have "SparseArrayLookupLoop f h3 d j = SparseArrayLookupLoop f h d j"
      proof (cases "is_empty_child d")
        case ne: False
        then obtain q where q: "d = Node q" by (auto simp: not_empty_child)
        note sib = sibling_reach [OF wf a mask_index_lt d(1) [unfolded q]]
        show ?thesis unfolding q
          by (rule view_reach, rule frame3 [OF sib(1)]) (use sib(2) in auto)
      qed (rule view_static)
      then show ?thesis unfolding d d' same_index_split using False late eq by simp
    qed
  qed
  moreover have "sa_brk h4 = sa_brk h2" using h4(1) by (simp add: destroy_frame_def h3)
  then have "sa_brk h \<le> sa_brk h4" "sa_brk h4 \<le> sa_brk h + Suc k" using P h1(4) by auto
  moreover have "sa_nodes h4 b = Some x" if "sa_nodes h b = Some x" "8 * Suc k < sa_shift x" for b x
    by (rule high [OF that(1)]) (use that a in auto)
  moreover have "\<exists>n'. sa_nodes h4 a = Some n' \<and> sa_shift n' = 8 * Suc k" using na4 a(2) by simp
  ultimately show ?thesis using h4(2) unfolding insert_post_def by blast
qed

text \<open>Giving the replacement back when the insertion below it ran out of memory.\<close>

lemma Insert_rollback:
  assumes wf: "sa_wf h ext {}" and a: "sa_nodes h a = Some n" "sa_shift n = 8 * Suc k"
    and h1: "rc_frame h h1 (8 * k)" "sa_brk h1 = Suc (sa_brk h)"
    and post: "insert_post f h1 h2 (ext(r := 1)) r k i v False"
    and h3: "destroy_frame h2 h3 (8 * k) {}" "sa_wf h3 ext {}"
  shows "insert_post (Suc f) h h3 ext a (Suc k) i v False"
proof (rule insert_post_fail [OF h3(2) _ _ a])
  note P = post [unfolded insert_post_def]
  have "sa_brk h3 = sa_brk h2" using h3(1) by (simp add: destroy_frame_def)
  with P h1(2) show "sa_brk h \<le> sa_brk h3" "sa_brk h3 \<le> sa_brk h + Suc k" by auto
  show "sa_nodes h3 b = Some x" if "sa_nodes h b = Some x" "8 * Suc k < sa_shift x" for b x
  proof -
    have "sa_nodes h1 b = Some x" using h1(1) that unfolding rc_frame_def by fastforce
    then have "sa_nodes h2 b = Some x" using P that by auto
    then show ?thesis using h3(1) that by (auto simp: destroy_frame_def)
  qed
  have same2: "same_at h h2 b" if "sa_nodes h b \<noteq> None" for b
  proof -
    have s1: "same_at h h1 b" using h1(1) that by (auto simp: rc_frame_def)
    then obtain y where "sa_nodes h1 b = Some y" unfolding same_at_def by blast
    then have "same_at h1 h2 b" using P by blast
    with s1 show ?thesis by (rule same_at_trans)
  qed
  have R: "sa_rooted h2 ext {b. sa_nodes h b \<noteq> None} {} 0"
    by (rule sa_rooted_transfer [OF sa_rooted_all [OF wf]]) (use same2 in auto)
  have wf2: "sa_wf h2 (ext(r := 1)) {}" using P by blast
  have sub: "sa_sub h2 h3" using h3(1) by (simp add: destroy_frame_def)
  show "same_at h h3 b" if "sa_nodes h b = Some x" for b x
    by (rule same_at_trans [OF same2 survive [OF R wf2 h3(2) sub]]) (use that in auto)
qed

lemma Insert_spec:
  "sa_wf h ext {} \<Longrightarrow> sa_nodes h a = Some n \<Longrightarrow> sa_shift n = 8 * k \<Longrightarrow> k < fuel \<Longrightarrow> sa_room h ext k \<Longrightarrow>
   \<exists>h' ok. SparseArrayInsert fuel h (Some (Node a)) i v = Some (h', ok) \<and>
          insert_post fuel h h' ext a k i v ok"
proof (induction fuel arbitrary: h ext a n k)
  case 0
  then show ?case by simp
next
  case (Suc f)
  note wf = Suc.prems(1) and a = Suc.prems(2,3) and room = Suc.prems(5)
  show ?case
  proof (cases k)
    case 0
    then show ?thesis using Insert_leaf [OF wf a(1) _ refl, of f i v] a by (simp, blast)
  next
    case (Suc l)
    note a' = a(1) a(2) [unfolded Suc]
    have s: "8 * Suc l \<in> sa_shifts"
      using sa_wf_node [OF wf a(1)] a' by (simp add: sa_node_ok_def)
    obtain c where c: "sa_data n (mask_index (8 * Suc l) i) = Child c" "ptr_ok h {} (8 * l) c"
      by (rule loop_step [OF wf a'])
    have none: "sa_nodes h (sa_brk h) = None"
      using sa_wf_brk [OF wf, of "sa_brk h"] by (cases "sa_nodes h (sa_brk h)") auto
    then have er: "ext (sa_brk h) = 0" using sa_wf_ext [OF wf, of "sa_brk h"] by fastforce
    have lf: "l < f" using Suc.prems(4) Suc by simp
    have pc: "ptr_ok h {} (8 * Suc l - 8) c" using c(2) by simp
    have pos: "0 < 8 * Suc l" by simp
    from wf pc s pos room show ?thesis
    proof (cases rule: replacement_cases)
      case (fail h1)
      have "insert_post (Suc f) h h1 ext a (Suc l) i v False"
        by (rule insert_post_fail [OF _ _ _ a'])
          (use fail wf sa_wf_cong [of h1 h ext] in \<open>auto simp: same_at_def\<close>)
      then show ?thesis using fail a' c(1) Suc by (simp, blast)
    next
      case (keep b m)
      have "sa_shift m = 8 * l" using c(2) keep by (simp add: ptr_ok_Node)
      moreover have "sa_room h ext l" using room Suc by (simp add: sa_room_def)
      ultimately obtain h' ok where h': "SparseArrayInsert f h (Some c) i v = Some (h', ok)"
        "insert_post f h h' ext b l i v ok"
        using Suc.IH [OF wf keep(3) _ lf] keep(1) by blast
      from Insert_keep [OF wf a' c(1) [unfolded keep(1)] keep(3,4) h'(2)]
      show ?thesis using h'(1) a' c(1) keep(2) Suc by (simp, blast)
    next
      case (new h1 m)
      let ?r = "sa_brk h"
      have m: "sa_shift m = 8 * l" using new(6) by simp
      have rc: "rc_frame h h1 (8 * l)" using new(4) by simp
      have "sa_room h1 (ext(?r := 1)) l" using room new(3) Suc by (simp add: sa_room_def)
      from Suc.IH [OF new(2,5) m lf this] obtain h2 ok where
        h2: "SparseArrayInsert f h1 (Some (Node ?r)) i v = Some (h2, ok)"
          "insert_post f h1 h2 (ext(?r := 1)) ?r l i v ok" by blast
      note P = h2(2) [unfolded insert_post_def]
      obtain mr where mr: "sa_nodes h2 ?r = Some mr" "sa_shift mr = 8 * l" using P by blast
      have wf2: "sa_wf h2 (ext(?r := 1)) {}" using P by blast
      show ?thesis
      proof (cases ok)
        case False
        have pr: "ptr_ok h2 {} (8 * l) (Node ?r)" using mr by (simp add: ptr_ok_Node)
        from Destroy_spec [OF wf2 pr lf] obtain h3 where
          h3: "SparseArrayDestroy f h2 (Some (Node ?r)) = Some h3"
            "sa_wf h3 ext {}" "destroy_frame h2 h3 (8 * l) {}" using er by (auto simp: fun_upd_idem)
        have "insert_post f h1 h2 (ext(?r := 1)) ?r l i v False" using h2(2) False by simp
        from Insert_rollback [OF wf a' rc new(3) this h3(3,2)] False
        show ?thesis using h3(1) h2(1) new(1) a' c(1) Suc by (simp, blast)
      next
        case True
        let ?h3 = "sa_set h2 a (n\<lparr>sa_data := (sa_data n)(mask_index (8 * Suc l) i := Child (Node ?r))\<rparr>)"
        have "sa_nodes h1 a = Some n" using rc a' unfolding rc_frame_def by fastforce
        then have na: "sa_nodes h2 a = Some n" using P a' by auto
        have cr: "c \<noteq> Node ?r" using c(2) none by (auto simp: ptr_ok_Node)
        have wf3: "sa_wf ?h3 (inc_ext ext c) {}"
          by (rule sa_wf_link [OF wf2 er na _ mask_index_lt c(1) cr mr(1)]) (use a' mr in auto)
        obtain h4 where h4: "(if \<not> is_empty_child c then SparseArrayDestroy f ?h3 (Some c)
              else Some ?h3) = Some h4" "sa_wf h4 ext {}" "destroy_frame ?h3 h4 (8 * l) {}"
        proof (cases "is_empty_child c")
          case True
          then show ?thesis using that [of ?h3] wf3 by (simp add: destroy_frame_refl)
        next
          case False
          then obtain b where b: "c = Node b" by (auto simp: not_empty_child)
          obtain y where y: "sa_nodes h2 b = Some y" "sa_shift n = sa_shift y + 8"
            using child_live [OF wf2 na _ mask_index_lt c(1) [unfolded b]] by blast
          then have "b \<noteq> a" using na by auto
          with y a' have "ptr_ok ?h3 {} (8 * l) c" by (simp add: b ptr_ok_Node)
          from Destroy_spec [OF wf3 this lf] b False show ?thesis using that by (auto simp: fun_upd_idem)
        qed
        have "insert_post f h1 h2 (ext(?r := 1)) ?r l i v True" using h2(2) True by simp
        note pub = Insert_publish [OF wf a' c(1) rc none new(5,3,7) this refl wf3 h4(3,2)]
        have "SparseArrayInsert (Suc f) h (Some (Node a)) i v = Some (h4, True)"
          using h4(1) h2(1) new(1) a' na c(1) True by (cases "is_empty_child c") simp_all
        with pub Suc show ?thesis by blast
      qed
    qed
  qed
qed

end
