(* ===== verification/Objc_Sparse_Array_Props.thy ===== *)
theory Objc_Sparse_Array_Props
  imports Objc_Sparse_Array_Insert
begin

text \<open>
  The contract of the sparse arrays, as the dispatch tables use them: a store of arrays each
  owned once from outside, in which lookups are total, an insertion changes one entry of one
  array, a copy is an independent array with the same entries, destruction touches no other
  array and leaks nothing, and expansion keeps every entry. The laws are collected in the
  locale \<open>cow_store\<close> and discharged for the code's operations by its interpretation.
\<close>

definition sa_store :: "'v sa_heap \<Rightarrow> (nat \<rightharpoonup> nat) \<Rightarrow> nat \<Rightarrow> bool" where
  "sa_store h own N \<longleftrightarrow>
     sa_wf h (\<lambda>a. if own a = None then 0 else 1) {} \<and>
     (\<forall>a d. own a = Some d \<longrightarrow>
        (\<exists>n. sa_nodes h a = Some n \<and> sa_shift n + 8 = d \<and> sa_refs h {} a = 0)) \<and>
     sa_brk h + 4 * N < 2 ^ 23"

definition same_slot :: "nat \<Rightarrow> uint32 \<Rightarrow> uint32 \<Rightarrow> bool" where
  "same_slot d i j \<longleftrightarrow> unat i mod 2 ^ d = unat j mod 2 ^ d"

text \<open>The entry at \<open>j\<close> after a run of writes to an array of depth \<open>d\<close> (the last write wins).\<close>

fun sa_writes :: "nat \<Rightarrow> (uint32 \<times> 'v option) list \<Rightarrow> uint32 \<Rightarrow> 'v option option \<Rightarrow> 'v option option" where
  "sa_writes d [] j w = w"
| "sa_writes d (iv # ivs) j w =
     sa_writes d ivs j (if same_slot d (fst iv) j then Some (snd iv) else w)"

locale cow_store =
  fixes store :: "'h \<Rightarrow> (nat \<rightharpoonup> nat) \<Rightarrow> nat \<Rightarrow> bool"
    and reliable :: "'h \<Rightarrow> bool"
    and lookup :: "'h \<Rightarrow> nat \<Rightarrow> uint32 \<Rightarrow> 'v option option"
    and insert_at :: "'h \<Rightarrow> nat \<Rightarrow> uint32 \<Rightarrow> 'v option \<Rightarrow> ('h \<times> bool) option"
    and copy :: "'h \<Rightarrow> nat \<Rightarrow> ('h \<times> nat option) option"
    and destroy :: "'h \<Rightarrow> nat \<Rightarrow> 'h option"
  assumes lookup_total: "store h own N \<Longrightarrow> own a = Some d \<Longrightarrow> \<exists>v. lookup h a i = Some v"
    and lookup_slot: "store h own N \<Longrightarrow> own a = Some d \<Longrightarrow> same_slot d i j \<Longrightarrow>
          lookup h a i = lookup h a j"
    and insert_law: "store h own (Suc N) \<Longrightarrow> own a = Some d \<Longrightarrow>
          \<exists>h' ok. insert_at h a i v = Some (h', ok) \<and> store h' own N \<and>
            (reliable h \<longrightarrow> ok \<and> reliable h') \<and>
            (\<forall>b e j. own b = Some e \<longrightarrow> lookup h' b j =
               (if ok \<and> b = a \<and> same_slot d i j then Some v else lookup h b j))"
    and copy_law: "store h own (Suc N) \<Longrightarrow> own a = Some d \<Longrightarrow>
          \<exists>h' r. copy h a = Some (h', r) \<and> (reliable h \<longrightarrow> r \<noteq> None \<and> reliable h') \<and>
            (\<forall>b e j. own b = Some e \<longrightarrow> lookup h' b j = lookup h b j) \<and>
            (case r of None \<Rightarrow> store h' own N
             | Some c \<Rightarrow> own c = None \<and> store h' (own(c \<mapsto> d)) N \<and> (\<forall>j. lookup h' c j = lookup h a j))"
    and destroy_law: "store h own N \<Longrightarrow> own a = Some d \<Longrightarrow>
          \<exists>h'. destroy h a = Some h' \<and> store h' (own(a := None)) N \<and>
            (reliable h \<longrightarrow> reliable h') \<and>
            (\<forall>b e j. b \<noteq> a \<longrightarrow> own b = Some e \<longrightarrow> lookup h' b j = lookup h b j)"
begin

text \<open>A run of insertions into one array, as the dispatch-table code performs them.\<close>

definition insert_or_abort :: "nat \<Rightarrow> 'h \<Rightarrow> uint32 \<times> 'v option \<Rightarrow> 'h option" where
  "insert_or_abort a h iv =
     Option.bind (insert_at h a (fst iv) (snd iv)) (\<lambda>(h', ok). if ok then Some h' else None)"

lemma insert_run:
  assumes "store h own (N + length ivs)" "own a = Some d" "reliable h"
  shows "\<exists>h'. foldM (insert_or_abort a) h ivs = Some h' \<and> store h' own N \<and> reliable h' \<and>
           (\<forall>b e j. b \<noteq> a \<longrightarrow> own b = Some e \<longrightarrow> lookup h' b j = lookup h b j) \<and>
           (\<forall>j. lookup h' a j = sa_writes d ivs j (lookup h a j))"
  using assms
proof (induction ivs arbitrary: h)
  case (Cons iv ivs)
  have "store h own (Suc (N + length ivs))" using Cons.prems(1) by simp
  from insert_law [OF this Cons.prems(2), of "fst iv" "snd iv"] Cons.prems(3)
  obtain h1 where h1: "insert_at h a (fst iv) (snd iv) = Some (h1, True)"
    "store h1 own (N + length ivs)" "reliable h1"
    "\<And>b e j. own b = Some e \<Longrightarrow> lookup h1 b j =
       (if b = a \<and> same_slot d (fst iv) j then Some (snd iv) else lookup h b j)" by auto
  from Cons.IH [OF h1(2) Cons.prems(2) h1(3)] show ?case using h1 Cons.prems(2)
    by (auto simp: insert_or_abort_def)
qed simp

end

text \<open>Lookups descend one level per step, through heap nodes and static arrays alike.\<close>

lemma ptr_step:
  assumes wf: "sa_wf h ext {}" and p: "ptr_ok h {} (8 * Suc k) p"
  obtains n c where "sa_deref h p = Some n" "sa_shift n = 8 * Suc k"
    "sa_data n (mask_index (8 * Suc k) j) = Child c" "ptr_ok h {} (8 * k) c"
proof -
  obtain n where n: "sa_deref h p = Some n" "sa_shift n = 8 * Suc k" using p by (auto simp: ptr_ok_def)
  have "sa_node_ok h {} n" by (rule deref_node_ok [OF wf p n(1)])
  then obtain c where "sa_data n (mask_index (8 * Suc k) j) = Child c" "ptr_ok h {} (8 * k) c"
    using n(2) mask_index_lt [of "8 * Suc k" j] unfolding sa_node_ok_def by fastforce
  with n that show ?thesis by blast
qed

lemma ptr_leaf:
  assumes wf: "sa_wf h ext {}" and p: "ptr_ok h {} 0 p"
  obtains n v where "sa_deref h p = Some n" "sa_shift n = 0" "sa_data n (mask_index 0 j) = Value v"
proof -
  obtain n where n: "sa_deref h p = Some n" "sa_shift n = 0" using p by (auto simp: ptr_ok_def)
  have "sa_node_ok h {} n" by (rule deref_node_ok [OF wf p n(1)])
  with n mask_index_lt [of 0 j] that show ?thesis unfolding sa_node_ok_def by blast
qed

lemma loop_total:
  assumes wf: "sa_wf h ext {}"
  shows "ptr_ok h {} (8 * k) p \<Longrightarrow> k < f \<Longrightarrow> \<exists>v. SparseArrayLookupLoop f h p j = Some v"
proof (induction f arbitrary: k p)
  case (Suc f)
  show ?case
  proof (cases k)
    case 0
    with Suc.prems(1) have "ptr_ok h {} 0 p" by simp
    then obtain n v where "sa_deref h p = Some n" "sa_shift n = 0" "sa_data n (mask_index 0 j) = Value v"
      by (rule ptr_leaf [OF wf, of p j])
    then show ?thesis by (simp add: and_ff_eq)
  next
    case (Suc l)
    have "ptr_ok h {} (8 * Suc l) p" using Suc.prems(1) Suc by simp
    from ptr_step [OF wf this, of j] obtain n c where c: "sa_deref h p = Some n"
      "sa_shift n = 8 * Suc l" "sa_data n (mask_index (8 * Suc l) j) = Child c"
      "ptr_ok h {} (8 * l) c" .
    from Suc.IH [OF c(4)] Suc.prems(2) Suc c show ?thesis by simp
  qed
qed simp

lemma loop_slot:
  assumes wf: "sa_wf h ext {}"
  shows "ptr_ok h {} (8 * k) p \<Longrightarrow> k < f \<Longrightarrow> same_slot (8 * k + 8) i j \<Longrightarrow>
     SparseArrayLookupLoop f h p i = SparseArrayLookupLoop f h p j"
proof (induction f arbitrary: k p)
  case (Suc f)
  have eq: "mask_index (8 * k) i = mask_index (8 * k) j" "same_slot (8 * k) i j"
    using Suc.prems(3) unfolding same_slot_def same_index_split by auto
  show ?case
  proof (cases k)
    case 0
    with Suc.prems(1) have "ptr_ok h {} 0 p" by simp
    then obtain n where "sa_deref h p = Some n" "sa_shift n = 0"
      by (rule ptr_leaf [OF wf, of p j])
    with eq(1) 0 show ?thesis by (simp add: and_ff_eq)
  next
    case (Suc l)
    have "ptr_ok h {} (8 * Suc l) p" using Suc.prems(1) Suc by simp
    from ptr_step [OF wf this, of j] obtain n c where c: "sa_deref h p = Some n"
      "sa_shift n = 8 * Suc l" "sa_data n (mask_index (8 * Suc l) j) = Child c"
      "ptr_ok h {} (8 * l) c" .
    have "same_slot (8 * l + 8) i j" using eq(2) Suc by (simp add: add.commute)
    from Suc.IH [OF c(4) _ this] Suc.prems(2) Suc c eq(1) show ?thesis by simp
  qed
qed simp

lemma ptr_step_shift:
  assumes "sa_wf h ext {}" "ptr_ok h {} (t + 8) p" "t \<in> {0, 8, 16}"
  obtains n c where "sa_deref h p = Some n" "sa_shift n = t + 8"
    "sa_data n (mask_index (t + 8) j) = Child c" "ptr_ok h {} t c"
proof -
  obtain k where "t = 8 * k" using assms(3) by (auto intro: that [of 0] that [of 1] that [of 2])
  then have "ptr_ok h {} (8 * Suc k) p" "8 * Suc k = t + 8" using assms(2) by (simp_all add: add.commute)
  from ptr_step [OF assms(1) this(1), of j] this(2) \<open>t = 8 * k\<close> that show ?thesis by metis
qed

lemma ptr_ok_shifts: "sa_wf h ext {} \<Longrightarrow> ptr_ok h {} s p \<Longrightarrow> s \<in> {0, 8, 16, 24}"
  using deref_node_ok unfolding ptr_ok_def sa_node_ok_def sa_shifts_def by fastforce

lemma loop4: "SparseArrayLookupLoop 4 = SparseArrayLookupLoop (Suc (Suc (Suc (Suc 0))))"
  by (simp add: eval_nat_numeral)

lemma mask_index_drop: "mask_index 0 (drop_bit s i) = mask_index s i"
  by (simp add: mask_index_def)

lemma Lookup_eq_loop:
  assumes wf: "sa_wf h ext {}" and p: "ptr_ok h {} s p"
  shows "SparseArrayLookup h p i = SparseArrayLookupLoop 4 h p i"
proof -
  note simps = SparseArrayLookup_def sa_child_at_def unrolled_index and_ff_eq mask_index_drop loop4
  consider "s = 0" | "s = 8" | "s = 16" | "s = 24" using ptr_ok_shifts [OF wf p] by auto
  then show ?thesis
  proof cases
    case 1
    then show ?thesis using p by (auto simp: simps ptr_ok_def)
  next
    case 2
    then have "ptr_ok h {} (0 + 8) p" using p by simp
    then show ?thesis by (rule ptr_step_shift [OF wf, where j = i]) (auto simp: simps ptr_ok_def)
  next
    case 3
    then have "ptr_ok h {} (8 + 8) p" using p by simp
    then obtain n c where n: "sa_deref h p = Some n" "sa_shift n = 8 + 8"
      "sa_data n (mask_index (8 + 8) i) = Child c" "ptr_ok h {} 8 c"
      by (rule ptr_step_shift [OF wf, where j = i]) auto
    then have "ptr_ok h {} (0 + 8) c" by simp
    then show ?thesis using n(1-3)
      by (elim ptr_step_shift [OF wf, where j = i]) (auto simp: simps ptr_ok_def)
  next
    case 4
    then have "ptr_ok h {} (16 + 8) p" using p by simp
    then obtain n c where n: "sa_deref h p = Some n" "sa_shift n = 16 + 8"
      "sa_data n (mask_index (16 + 8) i) = Child c" "ptr_ok h {} 16 c"
      by (rule ptr_step_shift [OF wf, where j = i]) auto
    then have "ptr_ok h {} (8 + 8) c" by simp
    then obtain n' c' where n': "sa_deref h c = Some n'" "sa_shift n' = 8 + 8"
      "sa_data n' (mask_index (8 + 8) i) = Child c'" "ptr_ok h {} 8 c'"
      by (rule ptr_step_shift [OF wf, where j = i]) auto
    then have "ptr_ok h {} (0 + 8) c'" by simp
    then show ?thesis using n(1-3) n'(1-3)
      by (elim ptr_step_shift [OF wf, where j = i]) (auto simp: simps ptr_ok_def)
  qed
qed

text \<open>
  Facts that every operation keeps whatever the counts are: a live node that no cell refers
  to stays unreferenced (only fresh nodes are ever linked), and the outcome of \<open>calloc\<close> is
  fixed by the environment.
\<close>

definition sa_avoids :: "'v sa_node \<Rightarrow> nat \<Rightarrow> bool" where
  "sa_avoids n b \<longleftrightarrow> (\<forall>j < 256. sa_data n j \<noteq> Child (Node b))"

definition sa_unref :: "nat \<Rightarrow> (nat \<Rightarrow> bool) \<Rightarrow> 'v sa_heap \<Rightarrow> bool" where
  "sa_unref b F h \<longleftrightarrow>
     (\<forall>d n. sa_nodes h d = Some n \<longrightarrow> sa_avoids n b) \<and> b < sa_brk h \<and> sa_calloc_fails h = F"

lemma sa_set_fails [simp]:
  "sa_calloc_fails (sa_set h a n) = sa_calloc_fails h" "sa_calloc_fails (sa_free h a) = sa_calloc_fails h"
  by (simp_all add: sa_set_def sa_free_def)

lemma unref_set: "sa_unref b F h \<Longrightarrow> sa_avoids n b \<Longrightarrow> sa_unref b F (sa_set h a n)"
  by (auto simp: sa_unref_def)

lemma unref_free: "sa_unref b F h \<Longrightarrow> sa_unref b F (sa_free h a)"
  by (auto simp: sa_unref_def)

lemma avoids_rc [simp]: "sa_avoids (n\<lparr>sa_refCount := rc\<rparr>) b = sa_avoids n b"
  by (simp add: sa_avoids_def)

lemma unref_update_rc:
  "sa_update h p (\<lambda>m. m\<lparr>sa_refCount := f m\<rparr>) = Some h' \<Longrightarrow> sa_unref b F h \<Longrightarrow> sa_unref b F h'"
  by (cases p) (auto simp: sa_unref_def split: if_splits)

lemma unref_deref: "sa_unref b F h \<Longrightarrow> sa_deref h p = Some n \<Longrightarrow> sa_avoids n b"
  by (cases p) (auto simp: sa_unref_def sa_avoids_def)

lemma unref_calloc:
  assumes "sa_unref b F h" "sa_calloc h = (h1, r)"
  shows "sa_unref b F h1 \<and> r \<noteq> Some b \<and> (r = None \<longrightarrow> F (sa_attempts h))"
  using assms by (auto simp: sa_calloc_def sa_unref_def sa_avoids_def split: if_splits)

lemma unref_init:
  assumes "init_pointers h a = Some h'" "sa_unref b F h"
  shows "sa_unref b F h'"
proof -
  have "is_empty_child c \<Longrightarrow> c \<noteq> Node b" for c by auto
  then show ?thesis using assms
    by (auto simp: init_pointers_def sa_avoids_def intro!: unref_set
        dest!: EmptyChild_ptr_ok [where h = h and D = "{}"] split: bind_splits if_splits)
qed

lemma foldM_preserves:
  assumes "foldM f s xs = Some t" "P s" "\<And>u x u'. f u x = Some u' \<Longrightarrow> P u \<Longrightarrow> P u'"
  shows "P t"
  using assms(1,2) by (induction xs arbitrary: s) (auto split: bind_splits intro: assms(3))

lemma unref_copy:
  assumes copy: "SparseArrayCopy h (Some p) = Some (h', r)" and un: "sa_unref b F h"
  shows "sa_unref b F h' \<and> r \<noteq> Some (Node b) \<and> (r = None \<longrightarrow> F (sa_attempts h))"
proof -
  obtain h1 q where q: "sa_calloc h = (h1, q)" by fastforce
  note c = unref_calloc [OF un q]
  show ?thesis
  proof (cases q)
    case None
    then show ?thesis using copy q c by auto
  next
    case (Some a)
    with copy q obtain n h2 where n: "sa_deref h1 p = Some n"
      and h2: "(if sa_shift n > 0 then foldM (sa_retain_child (n\<lparr>sa_refCount := 1\<rparr>))
                 (sa_set h1 a (n\<lparr>sa_refCount := 1\<rparr>)) [0..<256]
               else Some (sa_set h1 a (n\<lparr>sa_refCount := 1\<rparr>))) = Some h2"
      and h': "h' = h2" "r = Some (Node a)"
      by (auto simp: Let_def split: bind_splits)
    have "sa_unref b F (sa_set h1 a (n\<lparr>sa_refCount := 1\<rparr>))"
      using c unref_deref [OF _ n] by (auto intro: unref_set)
    moreover have "sa_unref b F u'" if "sa_retain_child m u x = Some u'" "sa_unref b F u" for m u x u'
      using that by (auto simp: sa_retain_child_def split: bind_splits if_splits intro: unref_update_rc)
    ultimately have "sa_unref b F h2" using h2
      by (auto split: if_splits elim!: foldM_preserves [where P = "sa_unref b F"])
    then show ?thesis using h' c Some by auto
  qed
qed

lemma unref_destroy:
  "SparseArrayDestroy f h (Some p) = Some h' \<Longrightarrow> sa_unref b F h \<Longrightarrow> sa_unref b F h'"
proof (induction f arbitrary: h p h')
  case (Suc f)
  show ?case
  proof (cases p)
    case (Node a)
    with Suc.prems obtain n where n: "sa_nodes h a = Some n" by (auto split: bind_splits)
    let ?h1 = "sa_set h a (n\<lparr>sa_refCount := sa_refCount n - 1\<rparr>)"
    have un1: "sa_unref b F ?h1" using n Suc.prems(2) by (auto simp: sa_unref_def intro!: unref_set)
    have loop: "sa_unref b F t"
      if "foldM (\<lambda>g i. do { m \<leftarrow> sa_nodes g a; c \<leftarrow> child_ptr (sa_data m i);
            SparseArrayDestroy f g (Some c) }) ?h1 [0..<256] = Some t" for t
      by (rule foldM_preserves [OF that, where P = "sa_unref b F"])
        (use un1 Suc.IH in \<open>auto split: bind_splits\<close>)
    from Suc.prems(1) Node n un1 show ?thesis
      by (auto simp: Let_def split: if_splits bind_splits intro!: unref_free intro: loop)
  qed (use Suc.prems in auto)
qed simp

lemma unref_replacement:
  assumes rep: "sa_replacement h s c = Some (h', r)" and un: "sa_unref b F h"
  shows "sa_unref b F h' \<and> r \<noteq> Some (Node b, True) \<and> (r = None \<longrightarrow> F (sa_attempts h))"
proof (cases "is_empty_child c")
  case True
  obtain h1 q where q: "sa_calloc h = (h1, q)" by fastforce
  note k = unref_calloc [OF un q]
  show ?thesis
  proof (cases q)
    case (Some a)
    define t where "t = (if base_shift \<ge> s then 0 else s - base_shift)"
    from rep True q Some obtain n where n: "sa_nodes h1 a = Some n"
      "init_pointers (sa_set h1 a (n\<lparr>sa_refCount := 1, sa_shift := t\<rparr>)) a = Some h'"
      "r = Some (Node a, True)"
      by (auto simp: sa_replacement_def t_def simp del: One_nat_def split: bind_splits)
    have "sa_avoids (n\<lparr>sa_refCount := 1, sa_shift := t\<rparr>) b"
      using k n(1) by (simp add: sa_unref_def sa_avoids_def)
    then have "sa_unref b F (sa_set h1 a (n\<lparr>sa_refCount := 1, sa_shift := t\<rparr>))"
      using k by (intro unref_set) auto
    from unref_init [OF n(2) this] n(3) k Some show ?thesis by simp
  qed (use rep True q k in \<open>auto simp: sa_replacement_def\<close>)
next
  case False
  with rep un show ?thesis
    by (auto simp: sa_replacement_def simp del: SparseArrayCopy.simps
        split: bind_splits if_splits dest: unref_copy [OF _ un])
qed

lemma unref_insert:
  "SparseArrayInsert f h (Some p) i v = Some (h', ok) \<Longrightarrow> sa_unref b F h \<Longrightarrow>
     sa_unref b F h' \<and> ((\<forall>k. \<not> F k) \<longrightarrow> ok)"
proof (induction f arbitrary: h p h' ok)
  case (Suc f)
  from Suc.prems(1) obtain n where n: "sa_deref h p = Some n" by (auto split: bind_splits)
  let ?i = "mask_index (sa_shift n) i"
  have upd: "sa_unref b F g'" if "sa_update g p (\<lambda>m. m\<lparr>sa_data := (sa_data m)(?i := x)\<rparr>) = Some g'"
    "sa_unref b F g" "x \<noteq> Child (Node b)" for g g' x
    using that by (cases p) (auto simp: sa_unref_def sa_avoids_def split: if_splits)
  show ?case
  proof (cases "sa_shift n = 0")
    case True
    with Suc.prems n upd [of h "Value v"] show ?thesis by (auto split: bind_splits)
  next
    case False
    with Suc.prems(1) n obtain c h1 rep where c: "child_ptr (sa_data n ?i) = Some c"
      "sa_replacement h (sa_shift n) c = Some (h1, rep)" by (auto simp: Let_def split: bind_splits)
    note R = unref_replacement [OF c(2) Suc.prems(2)]
    show ?thesis
    proof (cases rep)
      case None
      with Suc.prems(1) n False c R show ?thesis by auto
    next
      case (Some rp)
      obtain r pub where rp: "rp = (r, pub)" by fastforce
      obtain h2 ok2 where h2: "SparseArrayInsert f h1 (Some r) i v = Some (h2, ok2)"
        using Suc.prems(1) n False c Some rp by (auto simp: Let_def split: bind_splits)
      from Suc.IH [OF h2] R have IH: "sa_unref b F h2" "(\<forall>k. \<not> F k) \<longrightarrow> ok2" by auto
      show ?thesis using Suc.prems(1) n False c Some rp h2 IH R
        by (auto simp: Let_def split: bind_splits if_splits
            dest: unref_destroy intro: upd elim!: unref_destroy)
    qed
  qed
qed simp

text \<open>The operations of the contract on root addresses.\<close>

definition sa_lookup :: "'v sa_heap \<Rightarrow> nat \<Rightarrow> uint32 \<Rightarrow> 'v option option" where
  "sa_lookup h a i = SparseArrayLookup h (Node a) i"

definition sa_insert :: "'v sa_heap \<Rightarrow> nat \<Rightarrow> uint32 \<Rightarrow> 'v option \<Rightarrow> ('v sa_heap \<times> bool) option" where
  "sa_insert h a i v = SparseArrayInsert 4 h (Some (Node a)) i v"

definition sa_copy :: "'v sa_heap \<Rightarrow> nat \<Rightarrow> ('v sa_heap \<times> nat option) option" where
  "sa_copy h a =
     map_option (\<lambda>(h', r). (h', case r of Some (Node c) \<Rightarrow> Some c | _ \<Rightarrow> None))
       (SparseArrayCopy h (Some (Node a)))"

definition sa_destroy :: "'v sa_heap \<Rightarrow> nat \<Rightarrow> 'v sa_heap option" where
  "sa_destroy h a = SparseArrayDestroy 4 h (Some (Node a))"

definition sa_reliable :: "'v sa_heap \<Rightarrow> bool" where
  "sa_reliable h \<longleftrightarrow> (\<forall>k. \<not> sa_calloc_fails h k)"

abbreviation own_ext :: "(nat \<rightharpoonup> nat) \<Rightarrow> nat \<Rightarrow> nat" where
  "own_ext own \<equiv> (\<lambda>a. if own a = None then 0 else 1)"

lemma store_root:
  assumes "sa_store h own N" "own a = Some d"
  obtains n k where "sa_nodes h a = Some n" "sa_shift n = 8 * k" "d = 8 * k + 8" "k < 4"
    "ptr_ok h {} (8 * k) (Node a)" "sa_refs h {} a = 0"
proof -
  from assms obtain n where n: "sa_nodes h a = Some n" "sa_shift n + 8 = d" "sa_refs h {} a = 0"
    and wf: "sa_wf h (own_ext own) {}" unfolding sa_store_def by blast
  have "sa_shift n \<in> sa_shifts" using sa_wf_node [OF wf n(1)] by (simp add: sa_node_ok_def)
  then obtain k where "sa_shift n = 8 * k" "k < 4"
    unfolding sa_shifts_def by (auto intro: that [of 0] that [of 1] that [of 2] that [of 3])
  with n that show ?thesis by (auto simp: ptr_ok_Node)
qed

lemma store_wf: "sa_store h own N \<Longrightarrow> sa_wf h (own_ext own) {}"
  by (simp add: sa_store_def)

lemma sa_lookup_eq:
  assumes "sa_store h own N" "own a = Some d"
  shows "sa_lookup h a i = SparseArrayLookupLoop 4 h (Node a) i"
proof -
  obtain k where "ptr_ok h {} (8 * k) (Node a)" using store_root [OF assms] by metis
  then show ?thesis unfolding sa_lookup_def by (rule Lookup_eq_loop [OF store_wf [OF assms(1)]])
qed

lemma refs_zero_avoids:
  assumes "sa_wf h ext {}"
  shows "sa_refs h {} b = 0 \<longleftrightarrow> (\<forall>d n. sa_nodes h d = Some n \<longrightarrow> sa_avoids n b)"
proof
  assume z: "sa_refs h {} b = 0"
  show "\<forall>d n. sa_nodes h d = Some n \<longrightarrow> sa_avoids n b"
  proof (intro allI impI)
    fix d n
    assume n: "sa_nodes h d = Some n"
    have "cell_refs (sa_nodes h d) b \<le> sa_refs h {} b"
      using sa_wf_brk [OF assms n] by (intro sa_refs_mono_member) auto
    with z n show "sa_avoids n b" by (simp add: cell_refs_zero_iff sa_avoids_def)
  qed
next
  assume a: "\<forall>d n. sa_nodes h d = Some n \<longrightarrow> sa_avoids n b"
  have "cell_refs (sa_nodes h d) b = 0" for d
    using a by (cases "sa_nodes h d") (auto simp: cell_refs_zero_iff sa_avoids_def)
  then show "sa_refs h {} b = 0" by (simp add: sa_refs_def)
qed

lemma store_unref:
  assumes "sa_store h own N" "own b = Some d"
  shows "sa_unref b (sa_calloc_fails h) h"
proof -
  note wf = store_wf [OF assms(1)]
  obtain n where n: "sa_nodes h b = Some n" "sa_refs h {} b = 0" using store_root [OF assms] by metis
  then show ?thesis using refs_zero_avoids [OF wf] sa_wf_brk [OF wf n(1)] by (auto simp: sa_unref_def)
qed

lemma root_not_reached:
  assumes wf: "sa_wf h ext {}" and un: "sa_refs h {} a = 0" and q: "q \<noteq> a"
  shows "\<not> sa_reach h q a"
proof
  assume "sa_reach h q a"
  then show False
    by cases (use q un refs_zero_avoids [OF wf, of a] in \<open>auto simp: sa_avoids_def\<close>)
qed

text \<open>A store whose roots keep their contents is a store again.\<close>

lemma store_next:
  assumes st: "sa_store h own N" and wf: "sa_wf h' (own_ext own') {}"
    and brk: "sa_brk h' + 4 * M < 2 ^ 23"
    and old: "\<And>b d. own' b = Some d \<Longrightarrow> own b = Some d \<and> sa_unref b F h' \<and>
        (\<exists>n n'. sa_nodes h b = Some n \<and> sa_nodes h' b = Some n' \<and> sa_shift n' = sa_shift n)"
  shows "sa_store h' own' M"
  unfolding sa_store_def
proof (intro conjI allI impI)
  fix b d
  assume b: "own' b = Some d"
  have "sa_refs h' {} b = 0" using old [OF b] refs_zero_avoids [OF wf] by (simp add: sa_unref_def)
  moreover obtain n where "sa_nodes h b = Some n" "sa_shift n + 8 = d"
    using st old [OF b] unfolding sa_store_def by blast
  ultimately show "\<exists>n. sa_nodes h' b = Some n \<and> sa_shift n + 8 = d \<and> sa_refs h' {} b = 0"
    using old [OF b] by auto
qed (use wf brk in auto)

end
