(* ===== verification/Objc_Sparse_Array_Store.thy ===== *)
theory Objc_Sparse_Array_Store
  imports Objc_Sparse_Array_Props
begin

text \<open>
  The operations of \<open>sarray2.c\<close> satisfy the contract \<open>cow_store\<close>, and the statements of that
  contract, of expansion and of iteration as theorems about the code.
\<close>

lemma store_room: "sa_store h own (Suc N) \<Longrightarrow> k < 4 \<Longrightarrow> sa_room h (own_ext own) k"
  by (auto simp: sa_store_def sa_room_def)

lemma root_same:
  assumes st: "sa_store h own N" "own q = Some e" and q: "q \<noteq> a"
    and frame: "\<forall>S b. sa_rooted h (own_ext own) S {} s \<longrightarrow> a \<notin> S \<longrightarrow> b \<in> S \<longrightarrow> same_at h h' b"
    and un: "sa_refs h {} a = 0"
  shows "same_at h h' q" and "SparseArrayLookupLoop f h' (Node q) j = SparseArrayLookupLoop f h (Node q) j"
proof -
  note wf = store_wf [OF st(1)]
  obtain n where n: "sa_nodes h q = Some n" using store_root [OF st] by metis
  have R: "sa_rooted h (own_ext own) {b. sa_reach h q b} {} s"
    by (rule sa_rooted_reach [OF wf n]) (use st in auto)
  have "same_at h h' b" if "sa_reach h q b" for b
    using frame R root_not_reached [OF wf un q] that by blast
  then show "same_at h h' q" "SparseArrayLookupLoop f h' (Node q) j = SparseArrayLookupLoop f h (Node q) j"
    by (auto intro: view_reach reach_root)
qed

lemma sa_insert_law:
  assumes st: "sa_store h own (Suc N)" and a: "own a = Some d"
  shows "\<exists>h' ok. sa_insert h a i v = Some (h', ok) \<and> sa_store h' own N \<and>
     (sa_reliable h \<longrightarrow> ok \<and> sa_reliable h') \<and>
     (\<forall>b e j. own b = Some e \<longrightarrow> sa_lookup h' b j =
        (if ok \<and> b = a \<and> same_slot d i j then Some v else sa_lookup h b j))"
proof -
  note wf = store_wf [OF st]
  obtain n k where n: "sa_nodes h a = Some n" "sa_shift n = 8 * k" "d = 8 * k + 8" "k < 4"
    "sa_refs h {} a = 0" using store_root [OF st a] by metis
  from Insert_spec [OF wf n(1,2,4) store_room [OF st n(4)], of i v] obtain h' ok where
    h': "SparseArrayInsert 4 h (Some (Node a)) i v = Some (h', ok)"
      "insert_post 4 h h' (own_ext own) a k i v ok" by blast
  note P = h'(2) [unfolded insert_post_def]
  have un: "sa_unref b (sa_calloc_fails h) h' \<and> ((\<forall>k. \<not> sa_calloc_fails h k) \<longrightarrow> ok)"
    if "own b = Some e" for b e by (rule unref_insert [OF h'(1) store_unref [OF st that]])
  have frame: "\<forall>S b. sa_rooted h (own_ext own) S {} (8 * k) \<longrightarrow> a \<notin> S \<longrightarrow> b \<in> S \<longrightarrow> same_at h h' b"
    using P by blast
  have other: "same_at h h' q"
      "SparseArrayLookupLoop 4 h' (Node q) j = SparseArrayLookupLoop 4 h (Node q) j"
    if "own q = Some e" "q \<noteq> a" for q e j
    using root_same [OF st that frame n(5)] by blast+
  have st': "sa_store h' own N"
  proof (rule store_next [OF st])
    show "sa_wf h' (own_ext own) {}" using P by blast
    have "sa_brk h' \<le> sa_brk h + k" using P by blast
    then show "sa_brk h' + 4 * N < 2 ^ 23" using st n(4) by (simp add: sa_store_def)
    show "own b = Some e \<and> sa_unref b (sa_calloc_fails h) h' \<and>
      (\<exists>n n'. sa_nodes h b = Some n \<and> sa_nodes h' b = Some n' \<and> sa_shift n' = sa_shift n)"
      if "own b = Some e" for b e
      using un [OF that] that other(1) [OF that] P n by (cases "b = a") (auto simp: same_at_def)
  qed
  have "sa_lookup h' b j = (if ok \<and> b = a \<and> same_slot d i j then Some v else sa_lookup h b j)"
    if b: "own b = Some e" for b e j
  proof (cases "b = a \<and> \<not> ok")
    case True
    have "SparseArrayLookupLoop 4 h' (Node a) j = SparseArrayLookupLoop 4 h (Node a) j"
      by (rule view_reach) (use P True reach_live [OF wf _ n(1)] in blast)
    then show ?thesis using True sa_lookup_eq [OF st b] sa_lookup_eq [OF st' b] by simp
  next
    case False
    then show ?thesis using P n(3) other(2) [OF b] sa_lookup_eq [OF st b] sa_lookup_eq [OF st' b]
      by (cases "b = a") (auto simp: same_slot_def eq_commute)
  qed
  then show ?thesis using h'(1) st' un [OF a]
    by (auto simp: sa_insert_def sa_reliable_def sa_unref_def)
qed

lemma store_cong:
  "sa_store h own N \<Longrightarrow> sa_nodes h' = sa_nodes h \<Longrightarrow> sa_brk h' = sa_brk h \<Longrightarrow> M \<le> N \<Longrightarrow> sa_store h' own M"
  using sa_wf_cong [of h' h] by (auto simp: sa_store_def sa_refs_def)

lemma lookup_cong: "sa_nodes h' = sa_nodes h \<Longrightarrow> sa_lookup h' a = sa_lookup h a"
proof -
  assume eq: "sa_nodes h' = sa_nodes h"
  have "sa_deref h' = sa_deref h"
  proof
    show "sa_deref h' p = sa_deref h p" for p using eq by (cases p) auto
  qed
  moreover from this have "sa_child_at h' = sa_child_at h" by (intro ext) (simp add: sa_child_at_def)
  ultimately show ?thesis by (intro ext) (simp only: sa_lookup_def SparseArrayLookup_def)
qed

lemma sa_copy_law:
  assumes st: "sa_store h own (Suc N)" and a: "own a = Some d"
  shows "\<exists>h' r. sa_copy h a = Some (h', r) \<and> (sa_reliable h \<longrightarrow> r \<noteq> None \<and> sa_reliable h') \<and>
     (\<forall>b e j. own b = Some e \<longrightarrow> sa_lookup h' b j = sa_lookup h b j) \<and>
     (case r of None \<Rightarrow> sa_store h' own N
      | Some c \<Rightarrow> own c = None \<and> sa_store h' (own(c \<mapsto> d)) N \<and> (\<forall>j. sa_lookup h' c j = sa_lookup h a j))"
proof -
  note wf = store_wf [OF st]
  obtain n k where n: "sa_nodes h a = Some n" "sa_shift n = 8 * k" "d = 8 * k + 8" "k < 4"
    "ptr_ok h {} (8 * k) (Node a)" "sa_refs h {} a = 0" using store_root [OF st a] by metis
  have dr: "sa_deref h (Node a) = Some n" using n by simp
  from Copy_spec [OF wf n(5) dr sa_room_copy [OF store_room [OF st n(4)]]] show ?thesis
  proof (elim disjE exE conjE)
    fix h'
    assume h': "SparseArrayCopy h (Some (Node a)) = Some (h', None)"
      "sa_nodes h' = sa_nodes h" "sa_brk h' = sa_brk h"
    have "\<not> sa_reliable h" using unref_copy [OF h'(1) store_unref [OF st a]] by (auto simp: sa_reliable_def)
    then show ?thesis using h' lookup_cong [OF h'(2)] store_cong [OF st h'(2,3), of N]
      by (auto simp: sa_copy_def simp del: SparseArrayCopy.simps)
  next
    fix h'
    let ?r = "sa_brk h"
    assume h': "SparseArrayCopy h (Some (Node a)) = Some (h', Some (Node ?r))"
      "sa_wf h' ((own_ext own)(?r := 1)) {}" "sa_brk h' = Suc ?r" "rc_frame h h' (8 * k)"
      "sa_nodes h' ?r = Some (n\<lparr>sa_refCount := 1\<rparr>)"
    have fresh: "own ?r = None"
      using sa_wf_ext [OF wf, of ?r] sa_wf_brk [OF wf, of ?r] by (cases "own ?r") auto
    have "(own_ext own)(?r := 1) = own_ext (own(?r \<mapsto> d))" by auto
    then have wf': "sa_wf h' (own_ext (own(?r \<mapsto> d))) {}" using h'(2) by simp
    have un: "sa_unref b (sa_calloc_fails h) h'" if "own b = Some e" for b e
      using unref_copy [OF h'(1) store_unref [OF st that]] by simp
    have z: "sa_refs h' {} b = 0" if "own b = Some e" for b e
      using un [OF that] refs_zero_avoids [OF wf'] by (simp add: sa_unref_def)
    have "1 = 1 + sa_refs h' {} ?r"
      using sa_wf_count [OF h'(2,5)] by simp
    then have zr: "sa_refs h' {} ?r = 0" by simp
    have st': "sa_store h' (own(?r \<mapsto> d)) N"
      unfolding sa_store_def
    proof (intro conjI allI impI)
      show "sa_brk h' + 4 * N < 2 ^ 23" using st h'(3) by (simp add: sa_store_def)
      fix b e
      assume b: "(own(?r \<mapsto> d)) b = Some e"
      show "\<exists>m. sa_nodes h' b = Some m \<and> sa_shift m + 8 = e \<and> sa_refs h' {} b = 0"
      proof (cases "b = ?r")
        case True
        then show ?thesis using b h'(5) n zr by simp
      next
        case False
        then have ob: "own b = Some e" using b by simp
        then obtain m where "sa_nodes h b = Some m" "sa_shift m + 8 = e"
          using st unfolding sa_store_def by blast
        then show ?thesis using rc_frame_node [OF h'(4)] z [OF ob] by fastforce
      qed
    qed (rule wf')
    have "sa_lookup h' b j = sa_lookup h b j" if b: "own b = Some e" for b e j
    proof -
      have "b \<noteq> ?r" using b fresh by auto
      then have "(own(?r \<mapsto> d)) b = Some e" using b by simp
      moreover obtain t where "ptr_ok h {} t (Node b)" using store_root [OF st b] by metis
      ultimately show ?thesis
        using sa_lookup_eq [OF st b] sa_lookup_eq [OF st'] view_rc_frame [OF wf h'(4)] by simp
    qed
    moreover have "sa_lookup h' ?r j = sa_lookup h a j" for j
      using sa_lookup_eq [OF st a] sa_lookup_eq [OF st', of ?r d] copy_view [OF wf h'(4) n(1) h'(5)] by simp
    moreover have "sa_reliable h \<longrightarrow> sa_reliable h'"
      using un [OF a] by (auto simp: sa_reliable_def sa_unref_def)
    ultimately show ?thesis using h'(1) st' fresh by (auto simp: sa_copy_def simp del: SparseArrayCopy.simps)
  qed
qed

lemma sa_destroy_law:
  assumes st: "sa_store h own N" and a: "own a = Some d"
  shows "\<exists>h'. sa_destroy h a = Some h' \<and> sa_store h' (own(a := None)) N \<and>
     (sa_reliable h \<longrightarrow> sa_reliable h') \<and>
     (\<forall>b e j. b \<noteq> a \<longrightarrow> own b = Some e \<longrightarrow> sa_lookup h' b j = sa_lookup h b j)"
proof -
  note wf = store_wf [OF st]
  obtain n k where n: "sa_nodes h a = Some n" "k < 4" "ptr_ok h {} (8 * k) (Node a)" "sa_refs h {} a = 0"
    using store_root [OF st a] by metis
  have "dec_ext (own_ext own) (Node a) = own_ext (own(a := None))" using a by auto
  with Destroy_spec [OF wf n(3,2)] a obtain h' where
    h': "SparseArrayDestroy 4 h (Some (Node a)) = Some h'" "sa_wf h' (own_ext (own(a := None))) {}"
      "destroy_frame h h' (8 * k) {}" by fastforce
  have sub: "sa_sub h h'" and brk: "sa_brk h' = sa_brk h" using h'(3) by (auto simp: destroy_frame_def)
  have un: "sa_unref b (sa_calloc_fails h) h'" if "own b = Some e" for b e
    by (rule unref_destroy [OF h'(1) store_unref [OF st that]])
  have same: "same_at h h' x" if "own q = Some e" "q \<noteq> a" "sa_reach h q x" for q e x
  proof -
    obtain m where m: "sa_nodes h q = Some m" using store_root [OF st \<open>own q = Some e\<close>] by metis
    have R: "sa_rooted h (own_ext (own(a := None))) {b. sa_reach h q b} {} 0"
      by (rule sa_rooted_reach [OF wf m]) (use that in auto)
    show ?thesis by (rule survive [OF R wf h'(2) sub]) (use that in auto)
  qed
  have st': "sa_store h' (own(a := None)) N"
  proof (rule store_next [OF st h'(2)])
    show "sa_brk h' + 4 * N < 2 ^ 23" using st brk by (simp add: sa_store_def)
    fix b e
    assume "(own(a := None)) b = Some e"
    then have b: "own b = Some e" "b \<noteq> a" by (auto split: if_splits)
    from same [OF b reach_root] un [OF b(1)] b
    show "own b = Some e \<and> sa_unref b (sa_calloc_fails h) h' \<and>
      (\<exists>n n'. sa_nodes h b = Some n \<and> sa_nodes h' b = Some n' \<and> sa_shift n' = sa_shift n)"
      unfolding same_at_def by blast
  qed
  have "sa_lookup h' b j = sa_lookup h b j" if b: "b \<noteq> a" "own b = Some e" for b e j
  proof -
    have "(own(a := None)) b = Some e" using b by simp
    from sa_lookup_eq [OF st b(2)] sa_lookup_eq [OF st' this] view_reach [OF same [OF b(2,1)]]
    show ?thesis by simp
  qed
  then show ?thesis using h'(1) st' un [OF a]
    by (auto simp: sa_destroy_def sa_reliable_def sa_unref_def)
qed

interpretation sarray: cow_store sa_store sa_reliable sa_lookup sa_insert sa_copy sa_destroy
proof unfold_locales
  fix h :: "'v sa_heap" and own N a d i j
  assume st: "sa_store h own N" "own a = Some d"
  obtain k where k: "ptr_ok h {} (8 * k) (Node a)" "k < 4" "d = 8 * k + 8"
    using store_root [OF st] by metis
  show "\<exists>v. sa_lookup h a i = Some v"
    unfolding sa_lookup_eq [OF st] by (rule loop_total [OF store_wf [OF st(1)] k(1,2)])
  assume "same_slot d i j"
  then show "sa_lookup h a i = sa_lookup h a j"
    unfolding sa_lookup_eq [OF st] k(3) by (rule loop_slot [OF store_wf [OF st(1)] k(1,2)])
qed (rule sa_insert_law sa_copy_law sa_destroy_law; assumption)+

text \<open>New arrays are empty.\<close>

lemma static_view:
  assumes "is_empty_child p" "ptr_ok h {} (8 * k) p" "k < f"
  shows "SparseArrayLookupLoop f h p j = Some None"
  using assms
proof (induction f arbitrary: k p)
  case (Suc f)
  show ?case
  proof (cases p)
    case EmptyArray8
    then have "k = 1" using Suc.prems by simp
    then show ?thesis using EmptyArray8 Suc.IH [of EmptyArray 0] Suc.prems by (simp add: is_empty_child_def)
  next
    case EmptyArray16
    then have "k = 2" using Suc.prems by simp
    then show ?thesis using EmptyArray16 Suc.IH [of EmptyArray8 1] Suc.prems by (simp add: is_empty_child_def)
  next
    case EmptyArray24
    then have "k = 3" using Suc.prems by simp
    then show ?thesis using EmptyArray24 Suc.IH [of EmptyArray16 2] Suc.prems by (simp add: is_empty_child_def)
  qed (use Suc.prems in auto)
qed simp

lemma blank_lookup:
  assumes "sa_nodes h r = Some m" "sa_blank (8 * k) m" "k < 4" 
  shows "SparseArrayLookupLoop 4 h (Node r) j = Some None"
proof -
  have s: "8 * k \<in> sa_shifts" using assms(3) by (auto simp: sa_shifts_def numeral_eq_Suc less_Suc_eq)
  have "\<exists>p \<in> {EmptyArray, EmptyArray8, EmptyArray16, EmptyArray24}. ptr_ok h {} (8 * k) p"
    using s by (auto simp: sa_shifts_def)
  then have "\<exists>p. is_empty_child p \<and> ptr_ok h {} (8 * k) p" unfolding is_empty_child_def by blast
  then obtain p where p: "is_empty_child p" "ptr_ok h {} (8 * k) p" by blast
  from blank_view [OF assms(1,2) p(2,1) s] static_view [OF p assms(3)] show ?thesis by simp
qed

lemma store_extend:
  assumes st: "sa_store h own (Suc N)" and m: "sa_blank (8 * k) m" "k < 4"
    and h': "sa_nodes h' = (sa_nodes h)(sa_brk h := Some m)" "sa_brk h' = Suc (sa_brk h)"
  shows "own (sa_brk h) = None" and "sa_store h' (own(sa_brk h \<mapsto> 8 * k + 8)) N"
    and "\<And>b e j. own b = Some e \<Longrightarrow> sa_lookup h' b j = sa_lookup h b j"
    and "sa_lookup h' (sa_brk h) j = Some None"
proof -
  let ?r = "sa_brk h" and ?own = "own(sa_brk h \<mapsto> 8 * k + 8)"
  note wf = store_wf [OF st]
  have s: "8 * k \<in> sa_shifts" using m(2) by (auto simp: sa_shifts_def numeral_eq_Suc less_Suc_eq)
  have none: "sa_nodes h ?r = None" using sa_wf_brk [OF wf, of ?r] by (cases "sa_nodes h ?r") auto
  then show fresh: "own ?r = None" using sa_wf_ext [OF wf, of ?r] by (cases "own ?r") auto
  have wf1: "sa_wf h' ((own_ext own)(?r := 1)) {}" by (rule sa_wf_blank [OF wf h' m(1) s])
  moreover have "(own_ext own)(?r := 1) = own_ext ?own" by auto
  ultimately have wf': "sa_wf h' (own_ext ?own) {}" by simp
  have av: "sa_avoids m b" for b
    using m(1) sa_blank_refs [OF m(1)] by (simp add: cell_refs_zero_iff sa_avoids_def)
  have z: "sa_refs h' {} b = 0" if "own b = Some e" for b e
    using store_unref [OF st that] av h'(1) by (auto simp: refs_zero_avoids [OF wf'] sa_unref_def)
  have "1 = 1 + sa_refs h' {} ?r" using sa_wf_count [OF wf1, of ?r m] h'(1) m(1) by (simp add: sa_blank_def)
  then have zr: "sa_refs h' {} ?r = 0" by simp
  show st': "sa_store h' ?own N" unfolding sa_store_def
  proof (intro conjI allI impI)
    show "sa_brk h' + 4 * N < 2 ^ 23" using st h'(2) by (simp add: sa_store_def)
    fix b e
    assume b: "?own b = Some e"
    show "\<exists>n. sa_nodes h' b = Some n \<and> sa_shift n + 8 = e \<and> sa_refs h' {} b = 0"
    proof (cases "b = ?r")
      case True
      then show ?thesis using b zr h'(1) m(1) by (simp add: sa_blank_def)
    next
      case False
      then have ob: "own b = Some e" using b by simp
      then obtain n where "sa_nodes h b = Some n" "sa_shift n + 8 = e"
        using st unfolding sa_store_def by blast
      then show ?thesis using z [OF ob] h'(1) False by simp
    qed
  qed (rule wf')
  have rc: "rc_frame h h' 0" using h'(1) none by (auto simp: rc_frame_def same_at_def)
  show "sa_lookup h' b j = sa_lookup h b j" if b: "own b = Some e" for b e j
  proof -
    have b': "?own b = Some e" using b fresh by auto
    obtain t where "ptr_ok h {} t (Node b)" using store_root [OF st b] by metis
    from view_rc_frame [OF wf rc this] show ?thesis
      using sa_lookup_eq [OF st b] sa_lookup_eq [OF st' b'] by simp
  qed
  show "sa_lookup h' ?r j = Some None"
    using sa_lookup_eq [OF st', of ?r] blank_lookup [OF _ m, of h' ?r] h'(1) by simp
qed

lemma valid_depth_shift: "valid_depth d \<longleftrightarrow> (\<exists>k < 4. d = 8 * k + 8)"
proof
  assume v: "valid_depth d"
  then have "8 dvd d" by (auto simp: valid_depth_def base_shift_def)
  then obtain c where "d = 8 * c" by blast
  then show "\<exists>k < 4. d = 8 * k + 8" using v
    by (intro exI [of _ "c - 1"]) (auto simp: valid_depth_def base_shift_def)
qed (auto simp: valid_depth_def base_shift_def)

lemma sa_new_law:
  assumes st: "sa_store h own (Suc N)" and d: "valid_depth d"
  obtains (fail) h' where "SparseArrayNewWithDepth h d = Some (h', None)" "sa_store h' own (Suc N)"
      "sa_nodes h' = sa_nodes h" "\<not> sa_reliable h"
  | (ok) h' c where "SparseArrayNewWithDepth h d = Some (h', Some (Node c))" "own c = None"
      "sa_store h' (own(c \<mapsto> d)) N" "sa_reliable h' = sa_reliable h"
      "\<And>b e j. own b = Some e \<Longrightarrow> sa_lookup h' b j = sa_lookup h b j"
      "\<And>j. sa_lookup h' c j = Some None"
proof -
  obtain k where k: "d = 8 * k + 8" "k < 4" using d by (auto simp: valid_depth_shift)
  have s: "8 * k \<in> sa_shifts" using k(2) by (auto simp: sa_shifts_def numeral_eq_Suc less_Suc_eq)
  obtain h1 q where c: "sa_calloc h = (h1, q)" by fastforce
  show ?thesis
  proof (cases q)
    case None
    with c have "sa_nodes h1 = sa_nodes h" "sa_brk h1 = sa_brk h" "\<not> sa_reliable h"
      by (auto simp: sa_calloc_def sa_reliable_def split: if_splits)
    then show ?thesis using that(1) [of h1] None c d store_cong [OF st]
      by (simp add: SparseArrayNewWithDepth_def)
  next
    case (Some r)
    let ?m0 = "\<lparr>sa_shift = 0, sa_refCount = 0, sa_data = (\<lambda>_. Value None)\<rparr> :: 'a sa_node"
    from c Some have h1: "r = sa_brk h" "sa_nodes h1 = (sa_nodes h)(sa_brk h := Some ?m0)"
      "sa_brk h1 = Suc (sa_brk h)" "sa_calloc_fails h1 = sa_calloc_fails h"
      by (auto simp: sa_calloc_def split: if_splits)
    obtain h2 m where h2: "init_pointers (sa_set h1 (sa_brk h)
        \<lparr>sa_shift = 8 * k, sa_refCount = 1, sa_data = (\<lambda>_. Value None)\<rparr>) (sa_brk h) = Some h2"
      "sa_nodes h2 = (sa_nodes h)(sa_brk h := Some m)" "sa_brk h2 = sa_brk h1" "sa_blank (8 * k) m"
      using init_blank [OF s h1(2)] by blast
    have f: "sa_calloc_fails h2 = sa_calloc_fails h"
      using h2(1) h1(4) by (auto simp: init_pointers_def split: bind_splits if_splits)
    have new: "SparseArrayNewWithDepth h d = Some (h2, Some (Node (sa_brk h)))"
      using d c Some h1 h2(1) k by (simp add: SparseArrayNewWithDepth_def base_shift_def)
    have b: "sa_brk h2 = Suc (sa_brk h)" using h2(3) h1(3) by simp
    note ext = store_extend [OF st h2(4) k(2) h2(2) b]
    show ?thesis by (rule that(2) [OF new]) (use ext f k in \<open>auto simp: sa_reliable_def\<close>)
  qed
qed

lemma sa_store_empty: "4 * N < 2 ^ 23 \<Longrightarrow> sa_store (sa_empty_heap F) Map.empty N"
  by (simp add: sa_store_def sa_empty_heap_def sa_wf_def)

end
