(* ===== verification/Objc_Sparse_Array_Walk.thy ===== *)
theory Objc_Sparse_Array_Walk
  imports Objc_Sparse_Array_Store
begin

text \<open>
  Expansion of an array to a larger depth and iteration over its entries.
\<close>

lemma loop_fuel:
  assumes wf: "sa_wf h ext {}"
  shows "ptr_ok h {} (8 * k) p \<Longrightarrow> k < f \<Longrightarrow> k < g \<Longrightarrow>
     SparseArrayLookupLoop f h p j = SparseArrayLookupLoop g h p j"
proof (induction f arbitrary: k p g)
  case (Suc f)
  then obtain g' where g: "g = Suc g'" by (cases g) auto
  show ?case
  proof (cases k)
    case 0
    with Suc.prems(1) have "ptr_ok h {} 0 p" by simp
    then obtain n where "sa_deref h p = Some n" "sa_shift n = 0" by (rule ptr_leaf [OF wf, of p j])
    then show ?thesis by (simp add: g)
  next
    case (Suc l)
    have "ptr_ok h {} (8 * Suc l) p" using Suc.prems(1) Suc by simp
    from ptr_step [OF wf this, of j] obtain n c where c: "sa_deref h p = Some n"
      "sa_shift n = 8 * Suc l" "sa_data n (mask_index (8 * Suc l) j) = Child c"
      "ptr_ok h {} (8 * l) c" .
    from Suc.IH [OF c(4), of g'] Suc.prems(2,3) Suc c g show ?thesis by simp
  qed
qed simp

text \<open>One round of the expansion loop: a new root whose first cell is the old root.\<close>

lemma expand_step:
  assumes st: "sa_store h own (Suc N)" and r: "own r = Some (8 * k + 8)"
    and c: "EmptyChildForShift (8 * k + 8) = Some c"
    and m: "sa_shift m = 8 * k + 8" "sa_refCount m = 1" "sa_data m 0 = Child (Node r)"
      "\<And>i. 0 < i \<Longrightarrow> i < 256 \<Longrightarrow> sa_data m i = Child c"
    and h': "sa_nodes h' = (sa_nodes h)(sa_brk h := Some m)" "sa_brk h' = Suc (sa_brk h)"
  shows "own (sa_brk h) = None"
    and "sa_store h' ((own(r := None))(sa_brk h \<mapsto> 8 * k + 16)) N"
    and "\<And>b e j. own b = Some e \<Longrightarrow> b \<noteq> r \<Longrightarrow> sa_lookup h' b j = sa_lookup h b j"
    and "sa_lookup h' (sa_brk h) j =
           (if mask_index (8 * k + 8) j = 0 then sa_lookup h r j else Some None)"
proof -
  let ?e = "sa_brk h" and ?own = "(own(r := None))(sa_brk h \<mapsto> 8 * k + 16)"
  note wf = store_wf [OF st]
  have k: "k < 3" using c by (auto simp: EmptyChildForShift_def split: if_splits)
  have ec: "is_empty_child c" "ptr_ok h' {} (8 * k) c"
    using EmptyChild_ptr_ok [OF c, of h' "{}"] by auto
  obtain n where n: "sa_nodes h r = Some n" "sa_shift n = 8 * k" "sa_refs h {} r = 0"
    using store_root [OF st r] by (metis add_right_cancel)
  have none: "sa_nodes h ?e = None" using sa_wf_brk [OF wf, of ?e] by (cases "sa_nodes h ?e") auto
  then show fresh: "own ?e = None" using sa_wf_ext [OF wf, of ?e] by (cases "own ?e") auto
  have re: "r \<noteq> ?e" using n(1) none by auto
  have cells: "cell_refs (Some m) b = (if b = r then 1 else 0)" for b
  proof -
    have "c \<noteq> Node b" using ec(1) by auto
    then have "sa_data m i = Child (Node b) \<longleftrightarrow> i = 0 \<and> b = r" if "i < 256" for i
      using m(3) m(4) [OF _ that] by (cases "i = 0") auto
    then have "{i. i < 256 \<and> sa_data m i = Child (Node b)} = {i. i < 256 \<and> i = 0 \<and> b = r}" by blast
    also have "\<dots> = (if b = r then {0} else {})" by auto
    finally have "{i. i < 256 \<and> sa_data m i = Child (Node b)} = (if b = r then {0} else {})" .
    then show ?thesis by (simp add: cell_refs_def)
  qed
  have e1: "own_ext own = (\<lambda>b. own_ext (own(r := None)) b + cell_refs (Some m) b)"
    using r by (auto simp: cells)
  have okm: "sa_node_ok h' {} m"
  proof -
    have "\<exists>x. sa_data m i = Child x \<and> ptr_ok h' {} (8 * k) x" if "i < 256" for i
      using m(3) m(4) [OF _ that] ec(2) n h'(1) re by (cases "i = 0") (auto simp: ptr_ok_Node)
    moreover have "8 * k + 8 \<in> sa_shifts"
      using c by (auto simp: sa_shifts_def EmptyChildForShift_def split: if_splits)
    ultimately show ?thesis using m(1) by (simp add: sa_node_ok_def)
  qed
  have wf1: "sa_wf h' ((own_ext (own(r := None)))(?e := 1)) {}"
    by (rule sa_wf_revive [OF _ _ m(2) okm]) (use sa_wf_fresh [OF wf h'] e1 h'(1) in auto)
  moreover have "(own_ext (own(r := None)))(?e := 1) = own_ext ?own" by auto
  ultimately have wf': "sa_wf h' (own_ext ?own) {}" by simp
  have z: "sa_refs h' {} b = 0" if "own b = Some x" "b \<noteq> r" for b x
    using store_unref [OF st that(1)] cells [of b] that(2) h'(1)
    by (auto simp: refs_zero_avoids [OF wf'] sa_unref_def cell_refs_zero_iff sa_avoids_def)
  have "1 = 1 + sa_refs h' {} ?e" using sa_wf_count [OF wf1, of ?e m] h'(1) m(2) by simp
  then have ze: "sa_refs h' {} ?e = 0" by simp
  show st': "sa_store h' ?own N" unfolding sa_store_def
  proof (intro conjI allI impI)
    show "sa_brk h' + 4 * N < 2 ^ 23" using st h'(2) by (simp add: sa_store_def)
    fix b x
    assume b: "?own b = Some x"
    show "\<exists>n. sa_nodes h' b = Some n \<and> sa_shift n + 8 = x \<and> sa_refs h' {} b = 0"
    proof (cases "b = ?e")
      case True
      then show ?thesis using b ze h'(1) m(1) by simp
    next
      case False
      then have ob: "own b = Some x" "b \<noteq> r" using b by (auto split: if_splits)
      then obtain n where "sa_nodes h b = Some n" "sa_shift n + 8 = x"
        using st unfolding sa_store_def by blast
      then show ?thesis using z [OF ob] h'(1) False by simp
    qed
  qed (rule wf')
  have rc: "rc_frame h h' 0" using h'(1) none by (auto simp: rc_frame_def same_at_def)
  have view: "SparseArrayLookupLoop f h' (Node b) j = SparseArrayLookupLoop f h (Node b) j"
    if "own b = Some x" for b x j f
  proof -
    obtain t where "ptr_ok h {} t (Node b)" using store_root [OF st \<open>own b = Some x\<close>] by metis
    then show ?thesis by (rule view_rc_frame [OF wf rc])
  qed
  show "sa_lookup h' b j = sa_lookup h b j" if b: "own b = Some x" "b \<noteq> r" for b x j
  proof -
    have "?own b = Some x" using b fresh by auto
    then show ?thesis using sa_lookup_eq [OF st b(1)] sa_lookup_eq [OF st'] view [OF b(1)] by simp
  qed
  have pr: "ptr_ok h {} (8 * k) (Node r)" using n by (simp add: ptr_ok_Node)
  have f3: "SparseArrayLookupLoop 3 h (Node r) j = SparseArrayLookupLoop 4 h (Node r) j"
    by (rule loop_fuel [OF wf pr]) (use k in auto)
  have "SparseArrayLookupLoop (Suc 3) h' (Node ?e) j =
      (if mask_index (8 * k + 8) j = 0 then SparseArrayLookupLoop 3 h (Node r) j else Some None)"
    using m(1,3) m(4) [OF _ mask_index_lt] h'(1) static_view [OF ec, of 3 j] k view [OF r]
    by (subst SparseArrayLookupLoop.simps(2)) (auto simp del: Suc_numeral)
  then show "sa_lookup h' ?e j = (if mask_index (8 * k + 8) j = 0 then sa_lookup h r j else Some None)"
    using sa_lookup_eq [OF st', of ?e] sa_lookup_eq [OF st r] f3 by simp
qed

text \<open>Undoing the expansion gives back the store it started from.\<close>

lemma store_regrow:
  assumes st: "sa_store h own N" and h': "sa_nodes h' = sa_nodes h" "sa_brk h \<le> sa_brk h'"
    "sa_brk h' + 4 * M < 2 ^ 23"
  shows "sa_store h' own M"
proof -
  note wf = store_wf [OF st]
  have gone: "sa_nodes h b = None" if "sa_brk h \<le> b" for b
    using that sa_wf_brk [OF wf, of b] by (cases "sa_nodes h b") auto
  have refs: "sa_refs h' {} b = sa_refs h {} b" for b
    unfolding sa_refs_def h'(1) using h'(2) gone by (intro sum.mono_neutral_right) auto
  have ptr: "ptr_ok h' {} s p = ptr_ok h {} s p" for s p
    using h'(1) by (cases p) (auto simp: ptr_ok_Node)
  have node: "sa_node_ok h' {} n = sa_node_ok h {} n" for n by (simp add: sa_node_ok_def ptr)
  have "sa_wf h' (own_ext own) {}" using wf h'(1,2) unfolding sa_wf_def refs node by fastforce
  then show ?thesis using st h' by (auto simp: sa_store_def refs)
qed

definition unwinds_to :: "nat \<Rightarrow> 'v sa_heap \<Rightarrow> nat \<Rightarrow> nat \<Rightarrow> (nat \<Rightarrow> 'v sa_node option) \<Rightarrow> bool" where
  "unwinds_to c h root a old \<longleftrightarrow>
     (\<forall>f g. c \<le> f \<longrightarrow> sa_nodes g = sa_nodes h \<longrightarrow>
        (\<exists>g'. sa_unwind_roots f g (Node root) (Node a) = Some g' \<and> sa_nodes g' = old \<and>
              sa_brk g' = sa_brk g \<and> sa_calloc_fails g' = sa_calloc_fails g))"

lemma unwinds_self: "unwinds_to 0 h a a (sa_nodes h)"
proof -
  have "sa_unwind_roots f g (Node a) (Node a) = Some g" for f and g :: "'a sa_heap" by (cases f) auto
  then show ?thesis by (auto simp: unwinds_to_def)
qed

lemma unwinds_step:
  assumes u: "unwinds_to c h root a old" and e: "e \<noteq> a" "sa_nodes h e = None"
    and h': "sa_nodes h' = (sa_nodes h)(e := Some m)" "sa_data m 0 = Child (Node root)"
  shows "unwinds_to (Suc c) h' e a old"
  unfolding unwinds_to_def
proof (intro allI impI)
  fix f and g :: "'a sa_heap"
  assume f: "Suc c \<le> f" and g: "sa_nodes g = sa_nodes h'"
  then obtain f' where f': "f = Suc f'" "c \<le> f'" by (cases f) auto
  have "sa_nodes (sa_free g e) = sa_nodes h" using g h'(1) e(2) by auto
  with u f'(2) obtain g' where "sa_unwind_roots f' (sa_free g e) (Node root) (Node a) = Some g'"
    "sa_nodes g' = old" "sa_brk g' = sa_brk (sa_free g e)"
    "sa_calloc_fails g' = sa_calloc_fails (sa_free g e)" unfolding unwinds_to_def by blast
  then show "\<exists>g'. sa_unwind_roots f g (Node e) (Node a) = Some g' \<and> sa_nodes g' = old \<and>
      sa_brk g' = sa_brk g \<and> sa_calloc_fails g' = sa_calloc_fails g"
    using e(1) f'(1) g h' by simp
qed

lemma expand_index:
  assumes "d \<le> 8 * k + 8"
  shows "unat j mod 2 ^ (8 * k + 16) < 2 ^ d \<longleftrightarrow>
     mask_index (8 * k + 8) j = 0 \<and> unat j mod 2 ^ (8 * k + 8) < (2 ^ d :: nat)"
proof -
  let ?M = "2 ^ (8 * k + 8) :: nat"
  have split: "unat j mod 2 ^ (8 * k + 16) = ?M * mask_index (8 * k + 8) j + unat j mod ?M"
  proof -
    have "(2 :: nat) ^ (8 * k + 16) = ?M * 256" by (simp add: power_add)
    then show ?thesis by (simp add: mask_index_eq mod_mult2_eq)
  qed
  have "(2 :: nat) ^ d \<le> ?M" using assms by (intro power_increasing) auto
  then have "?M * x + y < 2 ^ d \<Longrightarrow> x = 0" for x y by (cases x) auto
  then show ?thesis unfolding split by auto
qed

text \<open>What the expansion of the root \<open>a\<close> of depth \<open>d\<close> to a root of depth \<open>d'\<close> promises.\<close>

definition expanded ::
  "'v sa_heap \<Rightarrow> (nat \<rightharpoonup> nat) \<Rightarrow> nat \<Rightarrow> nat \<Rightarrow> 'v sa_heap \<Rightarrow> nat \<Rightarrow> nat \<Rightarrow> nat \<Rightarrow> bool" where
  "expanded h own a d h' root d' N \<longleftrightarrow>
     (root = a \<or> own root = None) \<and>
     sa_store h' ((own(a := None))(root \<mapsto> d')) N \<and>
     (\<forall>b e j. own b = Some e \<longrightarrow> b \<noteq> a \<longrightarrow> sa_lookup h' b j = sa_lookup h b j) \<and>
     (\<forall>j. sa_lookup h' root j = (if unat j mod 2 ^ d' < 2 ^ d then sa_lookup h a j else Some None))"

lemma expand_loop:
  fixes h h0 :: "'v sa_heap"
  assumes st0: "sa_store h0 own N0" "own a = Some d"
    and inv: "expanded h0 own a d h root (8 * k + 8) (N + f)" "unwinds_to c h root a (sa_nodes h0)"
      "c + f \<le> 4" "d \<le> 8 * k + 8" "k + f < 4" "sa_brk h0 \<le> sa_brk h" "sa_calloc_fails h = sa_calloc_fails h0"
  shows "\<exists>h' r. sa_expand_loop (f + x) h (Node root) (Node a) (8 * k + 8) (8 * (k + f) + 8) = Some (h', r) \<and>
     sa_calloc_fails h' = sa_calloc_fails h0 \<and>
     (case r of None \<Rightarrow> sa_nodes h' = sa_nodes h0 \<and> sa_store h' own N \<and> \<not> sa_reliable h0
      | Some p \<Rightarrow> \<exists>root'. p = Node root' \<and> expanded h0 own a d h' root' (8 * (k + f) + 8) N)"
  using inv
proof (induction f arbitrary: h root k c)
  case 0
  then show ?case by (cases x) auto
next
  case (Suc f)
  note E = Suc.prems(1) [unfolded expanded_def]
  let ?own = "(own(a := None))(root \<mapsto> 8 * k + 8)"
  have st: "sa_store h ?own (Suc (N + f))" using E by simp
  have root: "?own root = Some (8 * k + 8)" by simp
  show ?case
  proof (cases h rule: calloc_cases)
    case (fail h1)
    have "sa_calloc_fails h1 = sa_calloc_fails h0 \<and> \<not> sa_reliable h0"
      using fail Suc.prems(7) by (auto simp: sa_calloc_def sa_reliable_def split: if_splits)
    moreover obtain g where g: "sa_unwind_roots 4 h1 (Node root) (Node a) = Some g"
      "sa_nodes g = sa_nodes h0" "sa_brk g = sa_brk h" "sa_calloc_fails g = sa_calloc_fails h1"
      using Suc.prems(2,3) fail(2,3) unfolding unwinds_to_def by (metis add_leD1)
    moreover have "sa_brk h + 4 * N < 2 ^ 23" using st by (simp add: sa_store_def)
    then have "sa_store g own N" using g(2,3) Suc.prems(6) by (intro store_regrow [OF st0(1)]) auto
    ultimately show ?thesis using fail(1) by auto
  next
    case (ok h1)
    let ?e = "sa_brk h"
    obtain n where n: "sa_nodes h root = Some n" "sa_shift n = 8 * k"
      using store_root [OF st root] by (metis add_right_cancel)
    have none: "sa_nodes h ?e = None"
      using sa_wf_brk [OF store_wf [OF st], of ?e] by (cases "sa_nodes h ?e") auto
    then have re: "root \<noteq> ?e" using n by auto
    have "k < 3" using Suc.prems(5) by simp
    then obtain y where y: "EmptyChildForShift (8 * k + 8) = Some y"
      by (auto simp: EmptyChildForShift_def numeral_eq_Suc less_Suc_eq)
    let ?m = "\<lparr>sa_shift = 8 * k + 8, sa_refCount = 1,
        sa_data = (\<lambda>i. if i = 0 then Child (Node root) else if i \<le> 0xff then Child y else Value None)\<rparr>"
    define h2 where "h2 = sa_set h1 ?e ?m"
    have h2: "sa_nodes h2 = (sa_nodes h)(?e := Some ?m)" "sa_brk h2 = Suc ?e"
      "sa_calloc_fails h2 = sa_calloc_fails h0"
      using ok Suc.prems(7) by (auto simp: h2_def sa_calloc_def split: if_splits)
    have cell: "sa_data ?m i = Child y" if "0 < i" "i < 256" for i using that by simp
    note S = expand_step [OF st root y, of ?m, OF _ _ _ cell h2(1,2)]
    have ea: "?e \<noteq> a"
    proof
      assume "?e = a"
      moreover have "a < sa_brk h0" using store_root [OF st0] sa_wf_brk [OF store_wf [OF st0(1)]] by metis
      ultimately show False using Suc.prems(6) by simp
    qed
    have owne: "own ?e = None" using S(1) re ea by (simp split: if_splits)
    have ro: "?own(root := None) = own(a := None)" using E by auto
    have st2: "sa_store h2 ((own(a := None))(?e \<mapsto> 8 * Suc k + 8)) (N + f)"
      using S(2) unfolding ro by (simp add: add.commute)
    have "expanded h0 own a d h2 ?e (8 * Suc k + 8) (N + f)"
      unfolding expanded_def
    proof (intro conjI allI impI)
      show "?e = a \<or> own ?e = None" using owne by simp
      show "sa_store h2 ((own(a := None))(?e \<mapsto> 8 * Suc k + 8)) (N + f)" by (rule st2)
      show "sa_lookup h2 b j = sa_lookup h0 b j" if "own b = Some e" "b \<noteq> a" for b e j
      proof -
        have "b \<noteq> root" using that E by auto
        then have "sa_lookup h2 b j = sa_lookup h b j" using S(3) [of b e j] that by simp
        also have "\<dots> = sa_lookup h0 b j" using E that by blast
        finally show ?thesis .
      qed
      show "sa_lookup h2 ?e j = (if unat j mod 2 ^ (8 * Suc k + 8) < 2 ^ d then sa_lookup h0 a j else Some None)" for j
      proof -
        have s: "8 * Suc k + 8 = 8 * k + 16" by simp
        show ?thesis unfolding s expand_index [OF Suc.prems(4)] using S(4) [of j] E by simp
      qed
    qed
    moreover have "unwinds_to (Suc c) h2 ?e a (sa_nodes h0)"
      by (rule unwinds_step [OF Suc.prems(2) ea none h2(1)]) simp
    ultimately have IH: "\<exists>h' r. sa_expand_loop (f + x) h2 (Node ?e) (Node a) (8 * Suc k + 8) (8 * (Suc k + f) + 8) = Some (h', r) \<and>
     sa_calloc_fails h' = sa_calloc_fails h0 \<and>
     (case r of None \<Rightarrow> sa_nodes h' = sa_nodes h0 \<and> sa_store h' own N \<and> \<not> sa_reliable h0
      | Some p \<Rightarrow> \<exists>root'. p = Node root' \<and> expanded h0 own a d h' root' (8 * (Suc k + f) + 8) N)"
      by (rule Suc.IH) (use Suc.prems h2 in auto)
    have eq: "sa_expand_loop (Suc f + x) h (Node root) (Node a) (8 * k + 8) (8 * (k + Suc f) + 8) =
        sa_expand_loop (f + x) h2 (Node ?e) (Node a) (8 * Suc k + 8) (8 * (Suc k + f) + 8)"
      using ok n re y by (simp add: base_shift_def h2_def Let_def add.commute add.left_commute cong: if_cong)
    have s: "8 * (k + Suc f) + 8 = 8 * (Suc k + f) + 8" by simp
    from IH show ?thesis unfolding eq unfolding s .
  qed
qed

lemma expanding_law:
  assumes st: "sa_store h own (N + 4)" and a: "own a = Some d" and d': "valid_depth d'" "d \<le> d'"
  obtains (fail) h' where "SparseArrayExpandingArray h (Some (Node a)) d' = Some (h', None)"
      "sa_nodes h' = sa_nodes h" "sa_store h' own N" "\<not> sa_reliable h"
  | (ok) h' root where "SparseArrayExpandingArray h (Some (Node a)) d' = Some (h', Some (Node root))"
      "expanded h own a d h' root d' N" "sa_calloc_fails h' = sa_calloc_fails h"
proof -
  obtain n k where n: "sa_nodes h a = Some n" "sa_shift n = 8 * k" "d = 8 * k + 8" "k < 4"
    "sa_refs h {} a = 0" using store_root [OF st a] by metis
  obtain l where l: "d' = 8 * l + 8" "l < 4" using d'(1) by (auto simp: valid_depth_shift)
  have kl: "k \<le> l" using d'(2) n(3) l by simp
  have stN: "sa_store h own (N + x)" if "x \<le> 4" for x
    using st that by (intro store_cong [OF st]) auto
  have own: "(own(a := None))(a \<mapsto> d) = own" using a by auto
  have self: "expanded h own a d h a d (N + (l - k))"
  proof -
    have "sa_lookup h a j = Some None" if "\<not> unat j mod 2 ^ d < 2 ^ d" for j :: uint32 using that by simp
    then show ?thesis using stN [of "l - k"] l(2) unfolding expanded_def own by auto
  qed
  have rc: "sa_refCount n = 1"
  proof -
    have "unat (sa_refCount n) = 1" using sa_wf_count [OF store_wf [OF st] n(1)] a n(5) by simp
    then show ?thesis by (simp add: word_unat_eq_iff)
  qed
  show ?thesis
  proof (cases "k = l")
    case True
    then have "SparseArrayExpandingArray h (Some (Node a)) d' = Some (h, Some (Node a))"
      using d'(1) n l by (simp add: base_shift_def)
    with that(2) [OF this] self True n(3) l(1) show ?thesis by simp
  next
    case False
    have e: "SparseArrayExpandingArray h (Some (Node a)) d' =
        sa_expand_loop ((l - k) + (4 - (l - k))) h (Node a) (Node a) (8 * k + 8) (8 * (k + (l - k)) + 8)"
      using d'(1) n l kl False rc by (simp add: base_shift_def)
    have self': "expanded h own a d h a (8 * k + 8) (N + (l - k))" using self n(3) by simp
    have dl: "8 * (k + (l - k)) + 8 = d'" using l kl by simp
    from expand_loop [OF st a self' unwinds_self, of "4 - (l - k)"] n(3,4) l kl obtain h' r where
      "SparseArrayExpandingArray h (Some (Node a)) d' = Some (h', r)"
      "sa_calloc_fails h' = sa_calloc_fails h"
      "case r of None \<Rightarrow> sa_nodes h' = sa_nodes h \<and> sa_store h' own N \<and> \<not> sa_reliable h
       | Some p \<Rightarrow> \<exists>root'. p = Node root' \<and> expanded h own a d h' root' d' N"
      unfolding e unfolding dl by auto
    with that show ?thesis by (cases r) auto
  qed
qed

text \<open>Iteration: the least index from \<open>lo\<close> below \<open>hi\<close> that holds a value.\<close>

definition least_from ::
  "(uint32 \<Rightarrow> 'v option option) \<Rightarrow> nat \<Rightarrow> nat \<Rightarrow> ('v \<times> uint32) option \<Rightarrow> bool" where
  "least_from V lo hi r \<longleftrightarrow>
     (case r of
        None \<Rightarrow> \<forall>j. lo \<le> unat j \<longrightarrow> unat j < hi \<longrightarrow> V j = Some None
      | Some (v, f) \<Rightarrow> lo \<le> unat f \<and> unat f < hi \<and> V f = Some (Some v) \<and>
          (\<forall>j. lo \<le> unat j \<longrightarrow> unat j < unat f \<longrightarrow> V j = Some None))"

lemma least_from_append:
  assumes "least_from V lo mid None" "least_from V mid hi r" "lo \<le> mid" "mid \<le> hi"
  shows "least_from V lo hi r"
  using assms by (auto simp: least_from_def split: option.splits)

lemma least_from_found: "least_from V lo mid (Some x) \<Longrightarrow> mid \<le> hi \<Longrightarrow> least_from V lo hi (Some x)"
  by (auto simp: least_from_def)

lemma scan_slots:
  assumes g: "\<And>slot. first \<le> slot \<Longrightarrow> slot < 256 \<Longrightarrow>
      \<exists>r. g slot = Some r \<and> least_from V (max S (P + slot * w)) (P + Suc slot * w) r"
    and m: "first \<le> m" "m \<le> 256" "S \<le> P + Suc m * w" "S < P + 256 * w"
  shows "\<exists>r. scanM g [m..<256] = Some r \<and> least_from V (max S (P + m * w)) (P + 256 * w) r"
  using m
proof (induction "256 - m" arbitrary: m)
  case 0
  then have "m = 256" by simp
  then show ?case by (simp add: least_from_def)
next
  case (Suc x)
  then have lt: "m < 256" by simp
  from g [OF Suc.prems(1) lt] obtain r where
    r: "g m = Some r" "least_from V (max S (P + m * w)) (P + Suc m * w) r" by blast
  have le: "P + Suc m * w \<le> P + 256 * w" using lt by (intro add_left_mono mult_right_mono) auto
  show ?case
  proof (cases r)
    case None
    have x: "x = 256 - Suc m" using Suc.hyps(2) by simp
    have "S \<le> P + Suc (Suc m) * w" using Suc.prems(3) by simp
    then obtain r' where r': "scanM g [Suc m..<256] = Some r'"
      "least_from V (max S (P + Suc m * w)) (P + 256 * w) r'"
      using Suc.hyps(1) [of "Suc m"] x Suc.prems lt by auto
    have mx: "max S (P + Suc m * w) = P + Suc m * w" using Suc.prems(3) by simp
    have "least_from V (max S (P + m * w)) (P + 256 * w) r'"
      by (rule least_from_append [OF r(2) [unfolded None] r'(2) [unfolded mx]])
        (use le Suc.prems(3) in auto)
    then show ?thesis using r(1) None r'(1) lt by (simp add: upt_conv_Cons)
  next
    case (Some y)
    have "least_from V (max S (P + m * w)) (P + 256 * w) r"
      unfolding Some by (rule least_from_found [OF r(2) [unfolded Some] le])
    then show ?thesis using r(1) Some lt by (simp add: upt_conv_Cons)
  qed
qed

lemma or_disjoint: "2 ^ t dvd P \<Longrightarrow> x < 2 ^ t \<Longrightarrow> P OR x = P + (x :: nat)"
proof -
  assume d: "2 ^ t dvd P" and x: "x < 2 ^ t"
  from d obtain c where c: "P = push_bit t c" by (auto simp: push_bit_eq_mult ac_simps)
  have "x = take_bit t x" using x by (simp add: take_bit_nat_eq_self)
  moreover have "push_bit t c AND take_bit t x = 0" by (rule bit_eqI) (auto simp: bit_simps)
  ultimately have "P AND x = 0" using c by metis
  then show ?thesis by (simp add: disjunctive_add_eq_or)
qed

lemma slot_prefix:
  assumes "2 ^ (s + 8) dvd unat (prefix :: uint32)" "slot < 256" "s + 8 \<le> 32"
  shows "unat (prefix OR push_bit s (of_nat slot)) = unat prefix + slot * 2 ^ s"
proof -
  have lt: "slot * 2 ^ s < 2 ^ (s + 8)" using assms(2) by (simp add: power_add)
  also have "\<dots> \<le> 2 ^ 32" using assms(3) by (intro power_increasing) auto
  finally have "slot * 2 ^ s < 2 ^ 32" .
  then have "unat (push_bit s (of_nat slot) :: uint32) = slot * 2 ^ s"
    using assms(2) by (simp only: unsigned_push_bit_eq unsigned_of_nat)
      (simp add: push_bit_eq_mult take_bit_eq_mod)
  then show ?thesis using or_disjoint [OF assms(1) lt] by (simp add: unsigned_or_eq)
qed

lemma index_in_range:
  assumes "(2 :: nat) ^ (s + 8) dvd P" "P + slot * 2 ^ s \<le> unat j" "unat j < P + Suc slot * 2 ^ s" "slot < 256"
  shows "mask_index s j = slot"
proof -
  obtain c where c: "P = 2 ^ s * (256 * c)" using assms(1) by (auto simp: power_add dvd_def)
  have "unat j div 2 ^ s = 256 * c + slot"
    using assms(2,3) unfolding c by (intro div_nat_eqI) (auto simp: algebra_simps)
  then show ?thesis using assms(4) by (simp add: mask_index_eq)
qed

lemma first_slot:
  assumes "(2 :: nat) ^ (s + 8) dvd P" "P \<le> unat j" "unat j < P + 2 ^ (s + 8)"
  shows "P + mask_index s j * 2 ^ s \<le> unat j" "unat j < P + Suc (mask_index s j) * 2 ^ s"
proof -
  obtain c where c: "P = 2 ^ s * (256 * c)" using assms(1) by (auto simp: power_add dvd_def)
  let ?q = "unat j div 2 ^ s"
  have q: "256 * c \<le> ?q" using assms(2) unfolding c by (simp add: less_eq_div_iff_mult_less_eq mult.commute)
  have "unat j < (256 * c + 256) * 2 ^ s" using assms(3) unfolding c by (simp add: power_add algebra_simps)
  then have "?q < 256 * c + 256" by (simp add: less_mult_imp_div_less)
  with q have m: "?q = 256 * c + mask_index s j" by (simp add: mask_index_eq mod_nat_eqI [of "?q - 256 * c"] flip: dvd_minus_mod)
  have j: "unat j = ?q * 2 ^ s + unat j mod 2 ^ s" by (simp only: div_mult_mod_eq)
  have lt: "unat j mod 2 ^ s < (2 :: nat) ^ s" by simp
  show "P + mask_index s j * 2 ^ s \<le> unat j" using j m unfolding c by (simp add: algebra_simps)
  have "unat j < ?q * 2 ^ s + 2 ^ s" using j lt by linarith
  then show "unat j < P + Suc (mask_index s j) * 2 ^ s" unfolding m c by (simp add: algebra_simps)
qed

lemma least_from_cong:
  assumes "least_from V lo hi r" "\<And>j. lo \<le> unat j \<Longrightarrow> unat j < hi \<Longrightarrow> V j = W j"
  shows "least_from W lo hi r"
  using assms by (auto simp: least_from_def split: option.splits)

lemma FindFrom_spec:
  assumes wf: "sa_wf h ext {}"
  shows "ptr_ok h {} (8 * k) p \<Longrightarrow> k < f \<Longrightarrow> 2 ^ (8 * k + 8) dvd unat prefix \<Longrightarrow>
     unat prefix \<le> unat start \<Longrightarrow> unat start < unat prefix + 2 ^ (8 * k + 8) \<Longrightarrow> k < 4 \<Longrightarrow>
     \<exists>r. SparseArrayFindFrom f h p start prefix = Some r \<and>
         least_from (\<lambda>j. SparseArrayLookupLoop f h p j) (unat start) (unat prefix + 2 ^ (8 * k + 8)) r"
proof (induction f arbitrary: k p start prefix)
  case (Suc f)
  let ?s = "8 * k" and ?S = "unat start" and ?P = "unat prefix" and ?V = "SparseArrayLookupLoop (Suc f) h p"
  let ?first = "mask_index ?s start"
  obtain n where n: "sa_deref h p = Some n" "sa_shift n = ?s" using Suc.prems(1) by (auto simp: ptr_ok_def)
  have okn: "sa_node_ok h {} n" by (rule deref_node_ok [OF wf Suc.prems(1) n(1)])
  note fs = first_slot [OF Suc.prems(3-5)]
  define g where "g = (\<lambda>slot. let sp = prefix OR push_bit ?s (of_nat slot) in
      if ?s = 0 then do { value \<leftarrow> cell_value (sa_data n slot);
          (case value of Some v \<Rightarrow> (if sp \<ge> start then Some (Some (v, sp)) else Some None)
           | None \<Rightarrow> Some None) }
      else do { child \<leftarrow> child_ptr (sa_data n slot);
          if is_empty_child child then Some None
          else SparseArrayFindFrom f h child (if slot = ?first then start else sp) sp })"
  have step: "\<exists>r. g slot = Some r \<and> least_from ?V (max ?S (?P + slot * 2 ^ ?s)) (?P + Suc slot * 2 ^ ?s) r"
    if slot: "?first \<le> slot" "slot < 256" for slot
  proof -
    define sp where "sp = prefix OR push_bit ?s (of_nat slot)"
    have sp: "unat sp = ?P + slot * 2 ^ ?s"
      unfolding sp_def by (rule slot_prefix [OF Suc.prems(3) slot(2)]) (use Suc.prems(6) in simp)
    have mi: "mask_index ?s j = slot" if "unat sp \<le> unat j" "unat j < unat sp + 2 ^ ?s" for j
      by (rule index_in_range [OF Suc.prems(3)]) (use that sp slot in auto)
    show ?thesis
    proof (cases "k = 0")
      case True
      obtain v where v: "sa_data n slot = Value v"
        using okn n(2) True slot(2) unfolding sa_node_ok_def by auto
      have V: "?V j = Some v" if "unat sp \<le> unat j" "unat j < unat sp + 1" for j
        using mi [of j] that True n v by (simp add: and_ff_eq)
      have "?S \<le> unat sp" using fs(2) slot(1) sp True by simp
      then have "max ?S (?P + slot * 2 ^ ?s) = unat sp" "?P + Suc slot * 2 ^ ?s = unat sp + 1" "start \<le> sp"
        using sp True by (auto simp: word_le_nat_alt)
      moreover have "g slot = Some (map_option (\<lambda>x. (x, sp)) v)"
        using v True calculation(3) by (cases v) (auto simp: g_def sp_def Let_def)
      ultimately show ?thesis using V by (cases v) (auto simp: least_from_def)
    next
      case False
      then obtain l where l: "k = Suc l" by (cases k) auto
      obtain c where c: "sa_data n slot = Child c" "ptr_ok h {} (8 * l) c"
        using okn n(2) l slot(2) unfolding sa_node_ok_def by fastforce
      have V: "?V j = SparseArrayLookupLoop f h c j" if "unat sp \<le> unat j" "unat j < unat sp + 2 ^ ?s" for j
        using mi [OF that] n c(1) l by simp
      have w: "?P + Suc slot * 2 ^ ?s = unat sp + 2 ^ (8 * l + 8)" using sp l by (simp add: power_add)
      let ?st = "if slot = ?first then start else sp"
      have st: "unat ?st = max ?S (?P + slot * 2 ^ ?s)" "unat sp \<le> unat ?st" "unat ?st < unat sp + 2 ^ ?s"
      proof -
        have "?S \<le> unat sp" if "slot \<noteq> ?first"
        proof -
          have "Suc ?first * 2 ^ ?s \<le> slot * 2 ^ ?s" using that slot(1) by (intro mult_right_mono) auto
          then show ?thesis using fs(2) sp by simp
        qed
        then show "unat ?st = max ?S (?P + slot * 2 ^ ?s)" "unat sp \<le> unat ?st" "unat ?st < unat sp + 2 ^ ?s"
          using fs sp by auto
      qed
      show ?thesis
      proof (cases "is_empty_child c")
        case True
        have "?V j = Some None" if "unat sp \<le> unat j" "unat j < unat sp + 2 ^ ?s" for j
          using V [OF that] static_view [OF True c(2)] Suc.prems(2) l by simp
        then have "least_from ?V (max ?S (?P + slot * 2 ^ ?s)) (?P + Suc slot * 2 ^ ?s) None"
          using st sp by (simp add: least_from_def)
        then show ?thesis using True False c(1) by (auto simp: g_def Let_def)
      next
        case ne: False
        have "(2 :: nat) ^ ?s dvd ?P" using Suc.prems(3) by (rule dvd_trans [rotated]) (simp add: le_imp_power_dvd)
        then have "2 ^ (8 * l + 8) dvd unat sp" using sp l by (simp add: add.commute)
        from Suc.IH [OF c(2) _ this st(2)] st(3) Suc.prems(2,6) l obtain r where
          r: "SparseArrayFindFrom f h c ?st sp = Some r"
            "least_from (SparseArrayLookupLoop f h c) (unat ?st) (unat sp + 2 ^ (8 * l + 8)) r"
          by (auto simp: add.commute)
        have "least_from ?V (max ?S (?P + slot * 2 ^ ?s)) (?P + Suc slot * 2 ^ ?s) r"
          unfolding w unfolding st(1) [symmetric]
          by (rule least_from_cong [OF r(2)]) (use V st(2) l in \<open>auto simp: add.commute\<close>)
        moreover have "g slot = Some r"
          using r(1) c(1) ne False unfolding g_def Let_def sp_def [symmetric] by simp
        ultimately show ?thesis by blast
      qed
    qed
  qed
  have ff: "SparseArrayFindFrom (Suc f) h p start prefix = scanM g [?first..<256]"
    by (simp only: SparseArrayFindFrom.simps n bind.bind_lunit Let_def g_def)
  have hi: "?P + 256 * 2 ^ ?s = ?P + 2 ^ (?s + 8)" by (simp add: power_add)
  have scan: "\<exists>r. scanM g [?first..<256] = Some r \<and> least_from ?V (max ?S (?P + ?first * 2 ^ ?s)) (?P + 256 * 2 ^ ?s) r"
    by (rule scan_slots [OF step]) (use fs hi Suc.prems(5) less_imp_le [OF mask_index_lt [of ?s start]] in auto)
  have mx: "max ?S (?P + ?first * 2 ^ ?s) = ?S" using fs(1) by simp
  from scan show ?case unfolding ff hi mx .
qed simp

end
