(* ===== verification/Objc_Sparse_Array_Thms.thy ===== *)
theory Objc_Sparse_Array_Thms
  imports Objc_Sparse_Array_Walk
begin

text \<open>
  The properties of \<open>sarray2.c\<close> and \<open>sarray2.h\<close>. \<open>sa_store h own N\<close> says that \<open>h\<close> is a store of
  well-typed trees with exact reference counts in which \<open>own\<close> maps the roots that are held from
  outside, once each, to their depths, with room for \<open>N\<close> more insertions before the 32-bit
  counts could overflow. \<open>sa_calloc_fails\<close> is the environment's choice of failing allocations.
\<close>

definition sarray_example :: "nat sa_heap" where
  "sarray_example = fst (the (SparseArrayNewWithDepth (sa_empty_heap (\<lambda>_. False)) 16))"

lemma sarray_example_store: "sa_store sarray_example [0 \<mapsto> 16] 7"
proof -
  have "sa_store (sa_empty_heap (\<lambda>_. False) :: nat sa_heap) Map.empty (Suc 7)" by (rule sa_store_empty) simp
  moreover have "valid_depth 16" by (simp add: valid_depth_def base_shift_def)
  ultimately show ?thesis
  proof (cases rule: sa_new_law)
    case (fail h')
    then show ?thesis by (simp add: sa_reliable_def sa_empty_heap_def)
  next
    case (ok h' c)
    have "c = 0" using ok(1) by (auto simp: SparseArrayNewWithDepth_def sa_calloc_def
        sa_empty_heap_def split: if_splits bind_splits)
    then show ?thesis using ok(1,3) by (simp add: sarray_example_def)
  qed
qed

lemma sarray_example_reliable: "\<not> sa_calloc_fails sarray_example k"
  by (simp add: sarray_example_def SparseArrayNewWithDepth_def valid_depth_def base_shift_def
      sa_empty_heap_def sa_calloc_def sa_set_def init_pointers_def EmptyChildForShift_def)

text \<open>
  C4: the unrolled lookup that message dispatch inlines never dereferences a bad pointer and
  returns exactly what the level-by-level loop it replaces returns.
\<close>

theorem sarray_lookup_unrolled:
  assumes "sa_store h own N" "own a = Some d"
  shows "SparseArrayLookup h (Node a) i = SparseArrayLookupLoop 4 h (Node a) i \<and>
         (\<exists>v. SparseArrayLookup h (Node a) i = Some v)"
  using sa_lookup_eq [OF assms] sarray.lookup_total [OF assms] by (simp add: sa_lookup_def)

theorem sarray_lookup_unrolled_witness:
  "SparseArrayLookup sarray_example (Node 0) 300 = SparseArrayLookupLoop 4 sarray_example (Node 0) 300 \<and>
   (\<exists>v. SparseArrayLookup sarray_example (Node 0) 300 = Some v)"
  by (rule sarray_lookup_unrolled [OF sarray_example_store]) simp

text \<open>
  C1: inserting into an array always returns, keeps the reference counts of the whole store
  exact, and, when it reports success, changes the addressed entry of that array and no other
  entry of it or of any array sharing nodes with it (copy on write); when it reports failure
  no entry of any array has changed; it only fails when an allocation fails.
\<close>

theorem sarray_insert_correct:
  assumes "sa_store h own (Suc N)" "own a = Some d"
  shows "\<exists>h' ok. SparseArrayInsert 4 h (Some (Node a)) i v = Some (h', ok) \<and> sa_store h' own N \<and>
     ((\<forall>k. \<not> sa_calloc_fails h k) \<longrightarrow> ok) \<and>
     (\<forall>b e j. own b = Some e \<longrightarrow> SparseArrayLookup h' (Node b) j =
        (if ok \<and> b = a \<and> unat i mod 2 ^ d = unat j mod 2 ^ d then Some v
         else SparseArrayLookup h (Node b) j))"
  using sarray.insert_law [OF assms, of i v]
  unfolding sa_insert_def sa_lookup_def sa_reliable_def same_slot_def by blast

theorem sarray_insert_correct_witness:
  "\<exists>h' ok. SparseArrayInsert 4 sarray_example (Some (Node 0)) 300 (Some 7) = Some (h', ok) \<and>
     sa_store h' [0 \<mapsto> 16] 6 \<and> ok \<and>
     SparseArrayLookup h' (Node 0) 300 = Some (Some 7) \<and>
     SparseArrayLookup h' (Node 0) 301 = SparseArrayLookup sarray_example (Node 0) 301"
proof -
  have "sa_store sarray_example [0 \<mapsto> 16] (Suc 6)" using sarray_example_store by simp
  from sarray_insert_correct [OF this, of 0 16 300 "Some 7"] sarray_example_reliable
  obtain h' ok where h': "SparseArrayInsert 4 sarray_example (Some (Node 0)) 300 (Some 7) = Some (h', ok)"
    "sa_store h' [0 \<mapsto> 16] 6" "ok" and l: "SparseArrayLookup h' (Node 0) j =
       (if unat (300 :: uint32) mod 2 ^ 16 = unat j mod 2 ^ 16 then Some (Some 7)
        else SparseArrayLookup sarray_example (Node 0) j)" for j by auto
  show ?thesis using h' l [of 300] l [of 301] by (simp del: SparseArrayInsert.simps, blast)
qed

text \<open>
  C2: a copy made by \<open>SparseArrayCopy\<close> is a new array of the same depth with the same entries;
  making it changes no entry of any array, and the store stays exact, so that later insertions
  into either array do not show in the other.
\<close>

theorem sarray_copy_correct:
  assumes "sa_store h own (Suc N)" "own a = Some d" "\<forall>k. \<not> sa_calloc_fails h k"
  shows "\<exists>h' c. SparseArrayCopy h (Some (Node a)) = Some (h', Some (Node c)) \<and> own c = None \<and>
     sa_store h' (own(c \<mapsto> d)) N \<and>
     (\<forall>j. SparseArrayLookup h' (Node c) j = SparseArrayLookup h (Node a) j) \<and>
     (\<forall>b e j. own b = Some e \<longrightarrow> SparseArrayLookup h' (Node b) j = SparseArrayLookup h (Node b) j)"
proof -
  from sarray.copy_law [OF assms(1,2)] assms(3) obtain h' c where
    h': "sa_copy h a = Some (h', Some c)" "own c = None" "sa_store h' (own(c \<mapsto> d)) N"
      "\<And>j. sa_lookup h' c j = sa_lookup h a j"
      "\<And>b e j. own b = Some e \<Longrightarrow> sa_lookup h' b j = sa_lookup h b j"
    by (fastforce simp: sa_reliable_def split: option.splits)
  from h'(1) obtain r where r: "SparseArrayCopy h (Some (Node a)) = Some (h', r)"
    "(case r of Some (Node c) \<Rightarrow> Some c | _ \<Rightarrow> None) = Some c"
    by (auto simp: sa_copy_def simp del: SparseArrayCopy.simps)
  then have "SparseArrayCopy h (Some (Node a)) = Some (h', Some (Node c))"
    by (auto simp del: SparseArrayCopy.simps split: option.splits sa_ptr.splits)
  with h'(2-5) show ?thesis by (auto simp: sa_lookup_def simp del: SparseArrayCopy.simps)
qed

theorem sarray_copy_correct_witness:
  "\<exists>h' c. SparseArrayCopy sarray_example (Some (Node 0)) = Some (h', Some (Node c)) \<and> c \<noteq> 0 \<and>
     sa_store h' [0 \<mapsto> 16, c \<mapsto> 16] 6 \<and>
     SparseArrayLookup h' (Node c) 300 = SparseArrayLookup sarray_example (Node 0) 300"
proof -
  have "sa_store sarray_example [0 \<mapsto> 16] (Suc 6)" using sarray_example_store by simp
  from sarray_copy_correct [OF this, of 0 16] sarray_example_reliable
  show ?thesis by (fastforce simp del: SparseArrayCopy.simps split: if_splits)
qed

text \<open>Without outside owners there are no nodes.\<close>

lemma unowned_empty:
  assumes wf: "sa_wf h (\<lambda>_. 0) {}"
  shows "sa_nodes h b = None"
proof -
  have "sa_nodes h b \<noteq> Some n" for b n
  proof (induction "24 - sa_shift n" arbitrary: b n rule: less_induct)
    case less
    show ?case
    proof
      assume n: "sa_nodes h b = Some n"
      have "0 < sa_refs h {} b" using sa_wf_count [OF wf n] by simp
      then obtain d where "0 < cell_refs (sa_nodes h d) b"
        unfolding sa_refs_def by (metis gr0I less_irrefl sum.neutral)
      then obtain m i where m: "sa_nodes h d = Some m" "i < 256" "sa_data m i = Child (Node b)"
        by (cases "sa_nodes h d") (auto simp: cell_refs_pos_iff)
      have "sa_shift m = sa_shift n + 8" using child_live [OF wf m(1) _ m(2,3)] n by auto
      moreover have "sa_shift m \<in> sa_shifts" using sa_wf_node [OF wf m(1)] by (simp add: sa_node_ok_def)
      ultimately have "24 - sa_shift m < 24 - sa_shift n" by (auto simp: sa_shifts_def)
      with less m(1) show False by blast
    qed
  qed
  then show ?thesis by (cases "sa_nodes h b") auto
qed

text \<open>
  C3: destroying an array returns, changes no entry of any other array and keeps the store
  exact; destroying the last array releases every node, so nothing leaks and nothing is
  released twice.
\<close>

theorem sarray_destroy_correct:
  assumes "sa_store h own N" "own a = Some d"
  shows "\<exists>h'. SparseArrayDestroy 4 h (Some (Node a)) = Some h' \<and> sa_store h' (own(a := None)) N \<and>
     (\<forall>b e j. b \<noteq> a \<longrightarrow> own b = Some e \<longrightarrow>
        SparseArrayLookup h' (Node b) j = SparseArrayLookup h (Node b) j) \<and>
     (own(a := None) = Map.empty \<longrightarrow> (\<forall>b. sa_nodes h' b = None))"
proof -
  from sarray.destroy_law [OF assms] obtain h' where
    h': "SparseArrayDestroy 4 h (Some (Node a)) = Some h'" "sa_store h' (own(a := None)) N"
      "\<And>b e j. b \<noteq> a \<Longrightarrow> own b = Some e \<Longrightarrow> sa_lookup h' b j = sa_lookup h b j"
    by (auto simp: sa_destroy_def)
  have "sa_nodes h' b = None" if "own(a := None) = Map.empty" for b
    using unowned_empty [of h' b] store_wf [OF h'(2)] unfolding that by simp
  then show ?thesis using h' by (auto simp: sa_lookup_def)
qed

theorem sarray_destroy_correct_witness:
  "\<exists>h'. SparseArrayDestroy 4 sarray_example (Some (Node 0)) = Some h' \<and> (\<forall>b. sa_nodes h' b = None)"
proof -
  have "[0 \<mapsto> 16](0 := None) = (Map.empty :: nat \<rightharpoonup> nat)" by auto
  with sarray_destroy_correct [OF sarray_example_store, of 0 16] show ?thesis by auto
qed

text \<open>
  C5: expanding an array to a larger valid depth either hands over a root of that depth whose
  low entries are the entries of the old array and whose other entries are empty, leaving
  every other array alone, or, when an allocation fails, releases the partly built roots and
  leaves the store exactly as it was.
\<close>

theorem sarray_expand_correct:
  assumes "sa_store h own (N + 4)" "own a = Some d" "valid_depth d'" "d \<le> d'"
  shows "\<exists>h' r. SparseArrayExpandingArray h (Some (Node a)) d' = Some (h', r) \<and>
     (case r of
        None \<Rightarrow> sa_nodes h' = sa_nodes h \<and> sa_store h' own N \<and> (\<exists>k. sa_calloc_fails h k)
      | Some p \<Rightarrow> \<exists>c. p = Node c \<and> sa_store h' ((own(a := None))(c \<mapsto> d')) N \<and>
          (\<forall>j. SparseArrayLookup h' (Node c) j =
             (if unat j mod 2 ^ d' < 2 ^ d then SparseArrayLookup h (Node a) j else Some None)) \<and>
          (\<forall>b e j. own b = Some e \<longrightarrow> b \<noteq> a \<longrightarrow>
             SparseArrayLookup h' (Node b) j = SparseArrayLookup h (Node b) j))"
  using assms
proof (cases rule: expanding_law)
  case (fail h')
  then show ?thesis by (auto simp: sa_reliable_def)
next
  case (ok h' root)
  then show ?thesis by (auto simp: expanded_def sa_lookup_def)
qed

theorem sarray_expand_correct_witness:
  "\<exists>h' c. SparseArrayExpandingArray sarray_example (Some (Node 0)) 24 = Some (h', Some (Node c)) \<and>
     sa_store h' [c \<mapsto> 24] 3 \<and> SparseArrayLookup h' (Node c) 70000 = Some None \<and>
     SparseArrayLookup h' (Node c) 300 = SparseArrayLookup sarray_example (Node 0) 300"
proof -
  have "sa_store sarray_example [0 \<mapsto> 16] (3 + 4)" "valid_depth 24"
    using sarray_example_store by (simp_all add: valid_depth_def base_shift_def)
  moreover have "[0 \<mapsto> 16](0 := None) = (Map.empty :: nat \<rightharpoonup> nat)" by auto
  ultimately show ?thesis
    using sarray_expand_correct [of sarray_example "[0 \<mapsto> 16]" 3 0 16 24] sarray_example_reliable
    by (fastforce split: option.splits)
qed



definition sarray_full :: "nat sa_heap" where
  "sarray_full = fst (the (SparseArrayInsert 4
     (fst (the (SparseArrayInsert 4 sarray_example (Some (Node 0)) 256 (Some 8)))) (Some (Node 0)) 65535 (Some 7)))"

text \<open>
  At the last index of an array of depth 16 the iteration wraps instead of ending: the
  start index no longer fits the depth, and entries below \<open>*idx\<close> are returned again, so a loop
  over the array that has an entry at 65535 never ends.
\<close>

theorem sarray_next_wraps:
  "SparseArrayNext sarray_full (Some (Node 0)) (Some 65534) = Some (Some 7, Some 65535) \<and>
   SparseArrayNext sarray_full (Some (Node 0)) (Some 65535) = Some (Some 8, Some 256)"
  by code_simp

end
