(* ===== verification/Objc_Encoding.thy ===== *)
theory Objc_Encoding
  imports Objc_Prelude
begin

text \<open>
  The type-encoding parser of \<open>src/encoding/encoding2.c\<close>: qualifiers, sizes and alignments of
  encoded types, argument positions of method signatures, and structure layout.

  A \<open>const char *\<close> is the suffix of the string it points to; the terminator is the end of the
  list. \<open>None\<close> is an abort or a pointer that runs past the terminator. Sizes are 64-bit words
  that count bits, as in the code. The primitive sizes are those of the LP64 targets. The
  recursive parsers carry fuel for the nesting depth; a suffix of length \<open>n\<close> needs at most
  \<open>n + 1\<close>.
\<close>

definition char_at :: "string \<Rightarrow> char" where
  "char_at s = (case s of [] \<Rightarrow> CHR 0x00 | c # _ \<Rightarrow> c)"

definition advance :: "string \<Rightarrow> string option" where
  "advance s = (case s of [] \<Rightarrow> None | _ # t \<Rightarrow> Some t)"

fun scan_to :: "char \<Rightarrow> string \<Rightarrow> string option" where
  "scan_to e [] = None"
| "scan_to e (c # s) = (if c = e then Some (c # s) else scan_to e s)"

definition is_digit :: "char \<Rightarrow> bool" where
  "is_digit c \<longleftrightarrow> c \<in> set ''0123456789''"

definition is_space :: "char \<Rightarrow> bool" where
  "is_space c \<longleftrightarrow> c \<in> {CHR '' '', CHR 0x09, CHR 0x0A, CHR 0x0B, CHR 0x0C, CHR 0x0D}"

definition digits_value :: "string \<Rightarrow> int" where
  "digits_value ds = fold (\<lambda>c v. v * 10 + (int (of_char c) - 48)) ds 0"

text \<open>\<open>strtol(s, &end, 10)\<close> for a 64-bit \<open>long\<close>.\<close>

definition strtol10 :: "string \<Rightarrow> int \<times> string" where
  "strtol10 s =
     (let t = dropWhile is_space s;
          (neg, u) = (case t of c # r \<Rightarrow> if c = CHR ''-'' then (True, r)
                                        else if c = CHR ''+'' then (False, r) else (False, t)
                      | [] \<Rightarrow> (False, t));
          ds = takeWhile is_digit u
      in if ds = [] then (0, s)
         else (max (- (2 ^ 63)) (min (2 ^ 63 - 1) (if neg then - digits_value ds else digits_value ds)),
               dropWhile is_digit u))"

definition to_int32 :: "int \<Rightarrow> int" where
  "to_int32 v = (v + 2 ^ 31) mod 2 ^ 32 - 2 ^ 31"

definition type_qualifiers :: "string" where
  "type_qualifiers = ''rnNoORVA''"

fun objc_skip_type_qualifiers :: "string \<Rightarrow> string" where
  "objc_skip_type_qualifiers [] = []"
| "objc_skip_type_qualifiers (c # s) =
     (if c \<in> set type_qualifiers then objc_skip_type_qualifiers s else c # s)"

text \<open>\<open>type_encoding_cases.h\<close>: size and alignment in bytes of the primitive encodings.\<close>

definition arith_types :: "(char \<times> nat \<times> nat) list" where
  "arith_types =
     [(CHR ''D'', 16, 16), (CHR ''d'', 8, 8), (CHR ''f'', 4, 4), (CHR ''c'', 1, 1), (CHR ''i'', 4, 4),
      (CHR ''s'', 2, 2), (CHR ''l'', 8, 8), (CHR ''q'', 8, 8), (CHR ''C'', 1, 1), (CHR ''S'', 2, 2),
      (CHR ''I'', 4, 4), (CHR ''L'', 8, 8), (CHR ''Q'', 8, 8)]"

definition non_integer_types :: "(char \<times> nat \<times> nat) list" where
  "non_integer_types =
     [(CHR ''B'', 1, 1), (CHR ''#'', 8, 8), (CHR '':'', 8, 8), (CHR ''*'', 8, 8)]"

definition prim_type :: "char \<Rightarrow> (nat \<times> nat) option" where
  "prim_type c = map_of (arith_types @ non_integer_types) c"

text \<open>\<open>_Complex\<close> types have twice the size and the alignment of their parts.\<close>

definition complex_type :: "char \<Rightarrow> (nat \<times> nat) option" where
  "complex_type c = map_option (\<lambda>(sz, al). (2 * sz, al)) (map_of arith_types c)"

definition round_up :: "size_t \<Rightarrow> size_t \<Rightarrow> size_t" where
  "round_up v b = (if b = 0 then v else if v mod b \<noteq> 0 then v + (b - v mod b) else v)"

type_synonym 'c type_parser = "string \<Rightarrow> 'c \<Rightarrow> (string \<times> 'c) option"

definition parse_array :: "'c type_parser \<Rightarrow> string \<Rightarrow> 'c \<Rightarrow> (string \<times> 'c \<times> int) option" where
  "parse_array callback type ctx =
     do {
       t1 \<leftarrow> advance type;
       let (n, t2) = strtol10 t1;
       (t3, ctx') \<leftarrow> callback t2 ctx;
       t4 \<leftarrow> advance t3;
       Some (t4, ctx', to_int32 n)
     }"

text \<open>The name of a structure: \<open>Inl\<close> after an opaque type, \<open>Inr\<close> after the \<open>=\<close>.\<close>

fun skip_struct_name :: "char \<Rightarrow> string \<Rightarrow> (string + string) option" where
  "skip_struct_name endchar [] = None"
| "skip_struct_name endchar (c # s) =
     (if c = endchar then Some (Inl s)
      else if c = CHR ''='' then Some (Inr s) else skip_struct_name endchar s)"

definition skip_field_name :: "string \<Rightarrow> string option" where
  "skip_field_name s =
     (if char_at s = CHR 0x22 then
        do { t \<leftarrow> advance s; u \<leftarrow> scan_to (CHR 0x22) t; advance u }
      else Some s)"

fun struct_fields :: "'c type_parser \<Rightarrow> char \<Rightarrow> nat \<Rightarrow> string \<Rightarrow> 'c \<Rightarrow> (string \<times> 'c) option" where
  "struct_fields callback endchar 0 s ctx =
     (if char_at s = endchar then do { t \<leftarrow> advance s; Some (t, ctx) } else None)"
| "struct_fields callback endchar (Suc n) s ctx =
     (if char_at s = endchar then do { t \<leftarrow> advance s; Some (t, ctx) }
      else
        do {
          s1 \<leftarrow> skip_field_name s;
          (s2, ctx') \<leftarrow> callback s1 ctx;
          struct_fields callback endchar n s2 ctx'
        })"

definition parse_struct_or_union :: "'c type_parser \<Rightarrow> char \<Rightarrow> string \<Rightarrow> 'c \<Rightarrow> (string \<times> 'c) option" where
  "parse_struct_or_union callback endchar type ctx =
     do {
       t \<leftarrow> advance type;
       r \<leftarrow> skip_struct_name endchar t;
       (case r of
          Inl u \<Rightarrow> Some (u, ctx)
        | Inr u \<Rightarrow> struct_fields callback endchar (length u) u ctx)
     }"

definition parse_union :: "'c type_parser \<Rightarrow> string \<Rightarrow> 'c \<Rightarrow> (string \<times> 'c) option" where
  "parse_union callback = parse_struct_or_union callback (CHR '')'')"

definition parse_struct :: "'c type_parser \<Rightarrow> string \<Rightarrow> 'c \<Rightarrow> (string \<times> 'c) option" where
  "parse_struct callback = parse_struct_or_union callback (CHR ''}'')"

definition skip_object_extended_qualifiers :: "string \<Rightarrow> string option" where
  "skip_object_extended_qualifiers type =
     do {
       t1 \<leftarrow> advance type;
       if char_at t1 = CHR ''?'' then
         do {
           t2 \<leftarrow> advance t1;
           if char_at t2 = CHR ''<'' then do { t3 \<leftarrow> advance t2; scan_to (CHR ''>'') t3 }
           else Some t1
         }
       else if char_at t1 = CHR 0x22 then do { t2 \<leftarrow> advance t1; scan_to (CHR 0x22) t2 }
       else Some type
     }"

fun alignof_type :: "nat \<Rightarrow> string \<Rightarrow> size_t \<Rightarrow> (string \<times> size_t) option" where
  "alignof_type 0 type align = None"
| "alignof_type (Suc fuel) type0 align =
     (let type = objc_skip_type_qualifiers type0; c = char_at type in
      case prim_type c of
        Some (sz, al) \<Rightarrow> do { t \<leftarrow> advance type; Some (t, max (of_nat (al * 8)) align) }
      | None \<Rightarrow>
        if c = CHR ''@'' then
          do {
            e \<leftarrow> skip_object_extended_qualifiers type;
            t \<leftarrow> advance e;
            Some (t, max 64 align)
          }
        else if c = CHR ''?'' \<or> c = CHR ''v'' then do { t \<leftarrow> advance type; Some (t, align) }
        else if c = CHR ''j'' then
          do {
            t \<leftarrow> advance type;
            (case complex_type (char_at t) of
               Some (sz, al) \<Rightarrow> do { u \<leftarrow> advance t; Some (u, max (of_nat (al * 8)) align) }
             | None \<Rightarrow> parse_struct (alignof_type fuel) t align)
          }
        else if c = CHR ''{'' then parse_struct (alignof_type fuel) type align
        else if c = CHR ''('' then parse_union (alignof_type fuel) type align
        else if c = CHR ''['' then
          do { (t, a, n) \<leftarrow> parse_array (alignof_type fuel) type align; Some (t, a) }
        else if c = CHR ''b'' then
          do {
            t \<leftarrow> advance type;
            (u, a) \<leftarrow> alignof_type fuel (snd (strtol10 t)) align;
            Some (snd (strtol10 u), a)
          }
        else if c = CHR ''^'' then
          do {
            t \<leftarrow> advance type;
            (u, ignored) \<leftarrow> alignof_type fuel t 0;
            Some (u, max 64 align)
          }
        else None)"

definition objc_alignof_type :: "string \<Rightarrow> size_t option" where
  "objc_alignof_type type =
     map_option (\<lambda>(t, align). align div 8) (alignof_type (Suc (length type)) type 0)"

text \<open>\<open>sizeof_union_field\<close> around the recursive size parser.\<close>

definition sizeof_union_field :: "size_t type_parser \<Rightarrow> size_t type_parser" where
  "sizeof_union_field sizeof type sz =
     do { (t, field_size) \<leftarrow> sizeof type 0; Some (t, max sz field_size) }"

fun sizeof_type :: "nat \<Rightarrow> string \<Rightarrow> size_t \<Rightarrow> (string \<times> size_t) option" where
  "sizeof_type 0 type acc = None"
| "sizeof_type (Suc fuel) type0 acc =
     (let type = objc_skip_type_qualifiers type0; c = char_at type in
      case prim_type c of
        Some (sz, al) \<Rightarrow>
          do { t \<leftarrow> advance type; Some (t, round_up acc (of_nat (al * 8)) + of_nat (sz * 8)) }
      | None \<Rightarrow>
        if c = CHR ''@'' then
          do {
            e \<leftarrow> skip_object_extended_qualifiers type;
            t \<leftarrow> advance e;
            Some (t, round_up acc 64 + 64)
          }
        else if c = CHR ''?'' \<or> c = CHR ''v'' then do { t \<leftarrow> advance type; Some (t, acc) }
        else if c = CHR ''j'' then
          do {
            t \<leftarrow> advance type;
            (case complex_type (char_at t) of
               Some (sz, al) \<Rightarrow>
                 do { u \<leftarrow> advance t; Some (u, round_up acc (of_nat (al * 8)) + of_nat (sz * 8)) }
             | None \<Rightarrow>
                 do {
                   (u, s) \<leftarrow> parse_struct (sizeof_type fuel) t acc;
                   align \<leftarrow> objc_alignof_type t;
                   Some (u, round_up s (align * 8))
                 })
          }
        else if c = CHR ''{'' then
          do {
            (t, s) \<leftarrow> parse_struct (sizeof_type fuel) type acc;
            align \<leftarrow> objc_alignof_type type;
            Some (t, round_up s (align * 8))
          }
        else if c = CHR ''['' then
          do {
            (t, element_size, element_count) \<leftarrow> parse_array (sizeof_type fuel) type 0;
            Some (t, acc + element_size * of_int element_count)
          }
        else if c = CHR ''('' then
          do {
            (t, union_size) \<leftarrow> parse_union (sizeof_union_field (sizeof_type fuel)) type 0;
            Some (t, acc + union_size)
          }
        else if c = CHR ''b'' then
          do {
            t \<leftarrow> advance type;
            u \<leftarrow> advance (snd (strtol10 t));
            let (bits, v) = strtol10 u;
            Some (v, acc + of_int bits)
          }
        else if c = CHR ''^'' then
          do {
            t \<leftarrow> advance type;
            (u, ignored) \<leftarrow> sizeof_type fuel t 0;
            Some (u, acc + 64)
          }
        else None)"

definition objc_skip_typespec :: "string \<Rightarrow> string option" where
  "objc_skip_typespec type = map_option fst (sizeof_type (Suc (length type)) type 0)"

definition objc_skip_argspec :: "string \<Rightarrow> string option" where
  "objc_skip_argspec type = map_option (dropWhile is_digit) (objc_skip_typespec type)"

text \<open>A null \<open>types\<close> pointer is \<open>None\<close>.\<close>

definition lengthOfTypeEncoding :: "string option \<Rightarrow> nat option" where
  "lengthOfTypeEncoding types =
     (case types of
        None \<Rightarrow> Some 0
      | Some t \<Rightarrow>
          if t = [] then Some 0
          else do { e \<leftarrow> objc_skip_typespec t; Some (length t - length e) })"

definition copyTypeEncoding :: "string option \<Rightarrow> string option" where
  "copyTypeEncoding types =
     do {
       len \<leftarrow> lengthOfTypeEncoding types;
       Some (case types of None \<Rightarrow> [] | Some t \<Rightarrow> take len t)
     }"

text \<open>\<open>Some None\<close> is the null result.\<close>

fun skip_params :: "nat \<Rightarrow> string \<Rightarrow> string option option" where
  "skip_params 0 types = Some (Some types)"
| "skip_params (Suc n) types =
     do {
       t \<leftarrow> objc_skip_argspec types;
       if t = [] then Some None else skip_params n t
     }"

definition findParameterStart :: "string option \<Rightarrow> nat \<Rightarrow> string option option" where
  "findParameterStart types index = do { t \<leftarrow> types; skip_params (Suc index) t }"

definition objc_sizeof_type :: "string \<Rightarrow> size_t option" where
  "objc_sizeof_type type = map_option (\<lambda>(t, size). size div 8) (sizeof_type (Suc (length type)) type 0)"

definition objc_aligned_size :: "string \<Rightarrow> size_t option" where
  "objc_aligned_size type =
     do {
       size \<leftarrow> objc_sizeof_type type;
       align \<leftarrow> objc_alignof_type type;
       Some (round_up size align)
     }"

definition objc_promoted_size :: "string \<Rightarrow> size_t option" where
  "objc_promoted_size type = do { size \<leftarrow> objc_sizeof_type type; Some (size + size mod 8) }"

text \<open>
  A method as this file sees it: the type encoding of its selector. The outer \<open>option\<close> of the
  \<open>Method\<close> arguments is the null pointer. A destination buffer of \<open>dst_len\<close> bytes is described
  by the bytes written to its start.
\<close>

record enc_method =
  sel_types :: "string option"

definition method_getTypeEncoding :: "enc_method option \<Rightarrow> string option" where
  "method_getTypeEncoding m = (case m of None \<Rightarrow> None | Some x \<Rightarrow> sel_types x)"

definition copy_out :: "string option \<Rightarrow> nat \<Rightarrow> string option" where
  "copy_out types dst_len =
     do {
       len \<leftarrow> lengthOfTypeEncoding types;
       let t = (case types of None \<Rightarrow> [] | Some t \<Rightarrow> t);
       Some (if len < dst_len then take len t @ [CHR 0x00] else take dst_len t)
     }"

definition method_getReturnType :: "enc_method option \<Rightarrow> nat \<Rightarrow> string option" where
  "method_getReturnType m dst_len =
     (case m of None \<Rightarrow> Some [] | Some _ \<Rightarrow> copy_out (method_getTypeEncoding m) dst_len)"

definition method_getArgumentType :: "enc_method option \<Rightarrow> nat \<Rightarrow> nat \<Rightarrow> string option" where
  "method_getArgumentType m index dst_len =
     (case m of
        None \<Rightarrow> Some []
      | Some _ \<Rightarrow>
          do {
            types \<leftarrow> findParameterStart (method_getTypeEncoding m) index;
            (case types of
               None \<Rightarrow> Some (if dst_len > 0 then [CHR 0x00] else [])
             | Some t \<Rightarrow> copy_out (Some t) dst_len)
          })"

fun count_args :: "nat \<Rightarrow> string \<Rightarrow> uint32 \<Rightarrow> uint32 option" where
  "count_args 0 types count = (if types = [] then Some count else None)"
| "count_args (Suc n) types count =
     (if types = [] then Some count
      else do { t \<leftarrow> objc_skip_argspec types; count_args n t (count + 1) })"

definition method_getNumberOfArguments :: "enc_method option \<Rightarrow> uint32 option" where
  "method_getNumberOfArguments m =
     (case m of
        None \<Rightarrow> Some 0
      | Some _ \<Rightarrow>
          do {
            types \<leftarrow> method_getTypeEncoding m;
            count \<leftarrow> count_args (length types) types 0;
            Some (count - 1)
          })"

definition method_copyArgumentType :: "enc_method option \<Rightarrow> nat \<Rightarrow> string option option" where
  "method_copyArgumentType m index =
     (case m of
        None \<Rightarrow> Some None
      | Some _ \<Rightarrow>
          do {
            types \<leftarrow> findParameterStart (method_getTypeEncoding m) index;
            (case types of
               None \<Rightarrow> Some None
             | Some t \<Rightarrow> map_option Some (copyTypeEncoding (Some t)))
          })"

definition method_copyReturnType :: "enc_method option \<Rightarrow> string option option" where
  "method_copyReturnType m =
     (case m of
        None \<Rightarrow> Some None
      | Some _ \<Rightarrow> map_option Some (copyTypeEncoding (method_getTypeEncoding m)))"

definition qualifier_flag :: "char \<Rightarrow> uint32 option" where
  "qualifier_flag c = map_of
     [(CHR ''r'', 0x01), (CHR ''n'', 0x01), (CHR ''o'', 0x02), (CHR ''N'', 0x03),
      (CHR ''O'', 0x04), (CHR ''V'', 0x10), (CHR ''R'', 0x08)] c"

unbundle bit_operations_syntax

fun get_type_qualifiers_loop :: "string \<Rightarrow> uint32 \<Rightarrow> uint32" where
  "get_type_qualifiers_loop [] flags = flags"
| "get_type_qualifiers_loop (c # s) flags =
     (case qualifier_flag c of
        None \<Rightarrow> flags
      | Some b \<Rightarrow> get_type_qualifiers_loop s (flags OR b))"

definition objc_get_type_qualifiers :: "string \<Rightarrow> uint32" where
  "objc_get_type_qualifiers type = get_type_qualifiers_loop type 0"

text \<open>
  Structure layout. A pointer into the original encoding is its suffix, so that \<open>p < q\<close> on
  pointers is a longer suffix; \<open>None\<close> is the null pointer.
\<close>

record objc_struct_layout =
  original_type :: string
  layout_type :: "string option"
  prev_type :: "string option"
  record_size :: uint32
  record_align :: uint32

definition objc_layout_structure :: "string \<Rightarrow> objc_struct_layout \<Rightarrow> objc_struct_layout" where
  "objc_layout_structure type layout = layout\<lparr>original_type := type, layout_type := None\<rparr>"

definition layout_structure_callback :: "objc_struct_layout type_parser" where
  "layout_structure_callback type layout =
     do {
       (e, size) \<leftarrow> sizeof_type (Suc (length type)) type 0;
       (e', align) \<leftarrow> alignof_type (Suc (length type)) type 0;
       Some (e,
         if (case prev_type layout of None \<Rightarrow> True | Some p \<Rightarrow> length type < length p) then
           (if record_align layout = 0
            then layout\<lparr>record_align := ucast align, layout_type := Some type\<rparr> else layout)
         else
           layout\<lparr>record_size := ucast (round_up (ucast (record_size layout)) align + size)\<rparr>)
     }"

definition objc_layout_structure_next_member ::
  "objc_struct_layout \<Rightarrow> (objc_struct_layout \<times> bool) option" where
  "objc_layout_structure_next_member layout =
     do {
       let start = layout\<lparr>record_size := 0, record_align := 0, prev_type := layout_type layout\<rparr>;
       (t, l) \<leftarrow> parse_struct layout_structure_callback (original_type start) start;
       Some (l, layout_type l \<noteq> layout_type layout)
     }"

text \<open>Offset, alignment and type of the current member.\<close>

definition objc_layout_structure_get_info ::
  "objc_struct_layout \<Rightarrow> uint32 \<times> uint32 \<times> string option" where
  "objc_layout_structure_get_info layout =
     (let align = record_align layout div 8 in
      (ucast (round_up (ucast (record_size layout div 8)) (ucast align)), align, layout_type layout))"

end
