(* ===== verification/Objc_Encoding_Props.thy ===== *)
theory Objc_Encoding_Props
  imports Objc_Encoding
begin

text \<open>
  Correctness of the type-encoding parser against a grammar of encodings: a datatype of
  encoded types with its printer, the size and alignment the code assigns to a type, and the
  theorem that parsing a printed type consumes exactly the printed text.
\<close>

datatype obj_ext = Plain | Block | BlockSig string | ClassName string

datatype enc =
    Prim char
  | Obj obj_ext
  | Unsized char
  | Cplx char
  | Opaque bool string
  | Aggr bool string "(string option \<times> enc) list"
  | Arr nat enc
  | Bits nat char nat
  | Ptr enc
  | Qual string enc

fun digits :: "nat \<Rightarrow> string" where
  "digits n = (if n < 10 then [''0123456789'' ! n] else digits (n div 10) @ [''0123456789'' ! (n mod 10)])"

declare digits.simps [simp del]

definition quote :: char where
  "quote = CHR 0x22"

fun show_obj :: "obj_ext \<Rightarrow> string" where
  "show_obj Plain = ''@''"
| "show_obj Block = ''@?''"
| "show_obj (BlockSig s) = ''@?<'' @ s @ ''>''"
| "show_obj (ClassName s) = CHR ''@'' # quote # s @ [quote]"

definition open_char :: "bool \<Rightarrow> char" where
  "open_char u = (if u then CHR ''('' else CHR ''{'')"

definition close_char :: "bool \<Rightarrow> char" where
  "close_char u = (if u then CHR '')'' else CHR ''}'')"

definition show_label :: "string option \<Rightarrow> string" where
  "show_label l = (case l of None \<Rightarrow> [] | Some s \<Rightarrow> quote # s @ [quote])"

fun show_enc :: "enc \<Rightarrow> string" where
  "show_enc (Prim c) = [c]"
| "show_enc (Obj x) = show_obj x"
| "show_enc (Unsized c) = [c]"
| "show_enc (Cplx c) = CHR ''j'' # [c]"
| "show_enc (Opaque u n) = open_char u # n @ [close_char u]"
| "show_enc (Aggr u n fs) =
     open_char u # n @ CHR ''='' # concat (map (\<lambda>(l, t). show_label l @ show_enc t) fs) @ [close_char u]"
| "show_enc (Arr n t) = CHR ''['' # digits n @ show_enc t @ '']''"
| "show_enc (Bits off c n) = CHR ''b'' # digits off @ c # digits n"
| "show_enc (Ptr t) = CHR ''^'' # show_enc t"
| "show_enc (Qual q t) = q @ show_enc t"

definition show_field :: "string option \<times> enc \<Rightarrow> string" where
  "show_field f = show_label (fst f) @ show_enc (snd f)"

definition show_fields :: "(string option \<times> enc) list \<Rightarrow> string" where
  "show_fields fs = concat (map show_field fs)"

text \<open>Characters that may follow a type without being read as a part of it.\<close>

fun follow_ok :: "enc \<Rightarrow> char \<Rightarrow> bool" where
  "follow_ok (Obj Plain) c \<longleftrightarrow> c \<noteq> CHR ''?'' \<and> c \<noteq> quote"
| "follow_ok (Obj Block) c \<longleftrightarrow> c \<noteq> CHR ''<''"
| "follow_ok (Bits off k n) c \<longleftrightarrow> \<not> is_digit c"
| "follow_ok (Ptr t) c \<longleftrightarrow> follow_ok t c"
| "follow_ok (Qual q t) c \<longleftrightarrow> follow_ok t c"
| "follow_ok _ c \<longleftrightarrow> True"

fun fields_follow :: "char \<Rightarrow> (string option \<times> enc) list \<Rightarrow> bool" where
  "fields_follow e [] \<longleftrightarrow> True"
| "fields_follow e (f # fs) \<longleftrightarrow>
     follow_ok (snd f) (char_at (show_fields fs @ [e])) \<and> fields_follow e fs"

fun wf_enc :: "enc \<Rightarrow> bool" where
  "wf_enc (Prim c) \<longleftrightarrow> prim_type c \<noteq> None"
| "wf_enc (Obj (BlockSig s)) \<longleftrightarrow> CHR ''>'' \<notin> set s"
| "wf_enc (Obj (ClassName s)) \<longleftrightarrow> quote \<notin> set s"
| "wf_enc (Obj _) \<longleftrightarrow> True"
| "wf_enc (Unsized c) \<longleftrightarrow> c = CHR ''?'' \<or> c = CHR ''v''"
| "wf_enc (Cplx c) \<longleftrightarrow> complex_type c \<noteq> None"
| "wf_enc (Opaque u n) \<longleftrightarrow> CHR ''='' \<notin> set n \<and> close_char u \<notin> set n"
| "wf_enc (Aggr u n fs) \<longleftrightarrow> CHR ''='' \<notin> set n \<and> close_char u \<notin> set n \<and>
     (\<forall>f \<in> set fs. wf_enc (snd f) \<and> (\<forall>l. fst f = Some l \<longrightarrow> quote \<notin> set l)) \<and>
     fields_follow (close_char u) fs"
| "wf_enc (Arr n t) \<longleftrightarrow> wf_enc t \<and> n < 2 ^ 31 \<and> follow_ok t (CHR '']'')"
| "wf_enc (Bits off c n) \<longleftrightarrow> prim_type c \<noteq> None \<and> off < 2 ^ 31 \<and> n < 2 ^ 31"
| "wf_enc (Ptr t) \<longleftrightarrow> wf_enc t"
| "wf_enc (Qual q t) \<longleftrightarrow> set q \<subseteq> set type_qualifiers \<and> wf_enc t"

fun enc_depth :: "enc \<Rightarrow> nat" where
  "enc_depth (Aggr u n fs) = Suc (Max (insert 0 (set (map (\<lambda>f. enc_depth (snd f)) fs))))"
| "enc_depth (Arr n t) = Suc (enc_depth t)"
| "enc_depth (Bits off c n) = 1"
| "enc_depth (Ptr t) = Suc (enc_depth t)"
| "enc_depth (Qual q t) = enc_depth t"
| "enc_depth _ = 0"

text \<open>The alignment and the running size the code assigns to a type, both in bits.\<close>

definition prim_align :: "char \<Rightarrow> size_t" where
  "prim_align c = (case prim_type c of None \<Rightarrow> 0 | Some (sz, al) \<Rightarrow> of_nat (al * 8))"

definition prim_size :: "char \<Rightarrow> size_t" where
  "prim_size c = (case prim_type c of None \<Rightarrow> 0 | Some (sz, al) \<Rightarrow> of_nat (sz * 8))"

definition cplx_align :: "char \<Rightarrow> size_t" where
  "cplx_align c = (case complex_type c of None \<Rightarrow> 0 | Some (sz, al) \<Rightarrow> of_nat (al * 8))"

definition cplx_size :: "char \<Rightarrow> size_t" where
  "cplx_size c = (case complex_type c of None \<Rightarrow> 0 | Some (sz, al) \<Rightarrow> of_nat (sz * 8))"

fun enc_align :: "enc \<Rightarrow> size_t \<Rightarrow> size_t" where
  "enc_align (Prim c) a = max (prim_align c) a"
| "enc_align (Obj x) a = max 64 a"
| "enc_align (Unsized c) a = a"
| "enc_align (Cplx c) a = max (cplx_align c) a"
| "enc_align (Opaque u n) a = a"
| "enc_align (Aggr u n fs) a = fold (\<lambda>f. enc_align (snd f)) fs a"
| "enc_align (Arr n t) a = enc_align t a"
| "enc_align (Bits off c n) a = max (prim_align c) a"
| "enc_align (Ptr t) a = max 64 a"
| "enc_align (Qual q t) a = enc_align t a"

fun enc_size :: "enc \<Rightarrow> size_t \<Rightarrow> size_t" where
  "enc_size (Prim c) s = round_up s (prim_align c) + prim_size c"
| "enc_size (Obj x) s = round_up s 64 + 64"
| "enc_size (Unsized c) s = s"
| "enc_size (Cplx c) s = round_up s (cplx_align c) + cplx_size c"
| "enc_size (Opaque u n) s = s"
| "enc_size (Aggr u n fs) s =
     (if u then s + fold (\<lambda>f m. max m (enc_size (snd f) 0)) fs 0
      else round_up (fold (\<lambda>f. enc_size (snd f)) fs s) (enc_align (Aggr u n fs) 0 div 8 * 8))"
| "enc_size (Arr n t) s = s + enc_size t 0 * of_nat n"
| "enc_size (Bits off c n) s = s + of_nat n"
| "enc_size (Ptr t) s = s + 64"
| "enc_size (Qual q t) s = enc_size t s"

text \<open>Character-level lemmas.\<close>

lemma char_at_simps [simp]: "char_at (c # s) = c" "char_at [] = CHR 0x00"
  by (simp_all add: char_at_def)

lemma advance_simps [simp]: "advance (c # s) = Some s" "advance [] = None"
  by (simp_all add: advance_def)

lemma scan_to_found: "e \<notin> set s \<Longrightarrow> scan_to e (s @ e # r) = Some (e # r)"
  by (induction s) auto

lemma digit_char: "n < 10 \<Longrightarrow> is_digit (''0123456789'' ! n)"
  unfolding is_digit_def by (rule nth_mem) simp

lemma digit_code: "n < 10 \<Longrightarrow> of_char (''0123456789'' ! n) = 48 + (n :: nat)"
proof -
  assume "n < 10"
  then have "n \<in> {0, 1, 2, 3, 4, 5, 6, 7, 8, 9}" by auto
  then show ?thesis by (elim insertE) (simp_all add: of_char_def)
qed

lemma digits_all: "\<forall>c \<in> set (digits n). is_digit c"
  by (induction n rule: digits.induct) (subst digits.simps, auto intro!: digit_char)

lemma digits_ne: "digits n \<noteq> []"
  by (subst digits.simps) (simp del: nth.simps)

lemma digits_value_snoc: "digits_value (ds @ [c]) = digits_value ds * 10 + (int (of_char c) - 48)"
  by (simp add: digits_value_def)

lemma digits_value: "digits_value (digits n) = int n"
proof (induction n rule: digits.induct)
  case (1 n)
  note c = digit_code
  show ?case
  proof (cases "n < 10")
    case True
    then show ?thesis using c [of n] by (subst digits.simps) (simp add: digits_value_def)
  next
    case False
    have "int n = int (n div 10) * 10 + int (n mod 10)" 
      using div_mult_mod_eq [of n 10] by (metis of_nat_add of_nat_mult of_nat_numeral)
    then show ?thesis using False 1 c [of "n mod 10"]
      by (subst digits.simps) (simp add: digits_value_snoc)
  qed
qed

lemma digit_not_special: "is_digit c \<Longrightarrow> \<not> is_space c \<and> c \<noteq> CHR ''-'' \<and> c \<noteq> CHR ''+''"
  by (auto simp: is_digit_def is_space_def)

lemma takeWhile_digits: "\<not> is_digit (char_at r) \<Longrightarrow> takeWhile is_digit (digits n @ r) = digits n"
  using digits_all [of n] by (cases r) (auto simp: takeWhile_append takeWhile_eq_all_conv)

lemma dropWhile_digits: "\<not> is_digit (char_at r) \<Longrightarrow> dropWhile is_digit (digits n @ r) = r"
  using digits_all [of n] by (cases r) (auto simp: dropWhile_append dropWhile_eq_Nil_conv)

lemma strtol10_digits:
  assumes "\<not> is_digit (char_at r)" "n < 2 ^ 31"
  shows "strtol10 (digits n @ r) = (int n, r)"
proof -
  obtain d ds where d: "digits n = d # ds" using digits_ne [of n] by (cases "digits n") auto
  have dd: "is_digit d" using digits_all [of n] d by simp
  have "dropWhile is_space (digits n @ r) = digits n @ r" using digit_not_special [OF dd] d by simp
  moreover have "int n < 2 ^ 31" using assms(2) by (simp add: of_nat_less_iff flip: of_nat_power)
  ultimately show ?thesis
    using takeWhile_digits [OF assms(1), of n] dropWhile_digits [OF assms(1), of n] digits_value [of n]
      digit_not_special [OF dd] digits_ne [of n]
    by (simp add: strtol10_def d Let_def)
qed

lemma to_int32_small: "n < 2 ^ 31 \<Longrightarrow> to_int32 (int n) = int n"
proof -
  assume "n < 2 ^ 31"
  then have "int n < 2 ^ 31" by (simp add: of_nat_less_iff flip: of_nat_power)
  then show ?thesis by (simp add: to_int32_def)
qed

lemma skip_quals: "set q \<subseteq> set type_qualifiers \<Longrightarrow> objc_skip_type_qualifiers (q @ s) = objc_skip_type_qualifiers s"
  by (induction q) auto

text \<open>The first character of a printed type.\<close>

definition head_ok :: "char \<Rightarrow> bool" where
  "head_ok h \<longleftrightarrow> h \<notin> {quote, CHR '')'', CHR ''}'', CHR '']'', CHR ''='', CHR ''<''} \<and> \<not> is_digit h \<and> \<not> is_space h"

lemma prim_head: "prim_type c \<noteq> None \<Longrightarrow> head_ok c \<and> c \<notin> set type_qualifiers \<and> c \<noteq> CHR ''@'' \<and> c \<noteq> CHR ''j''"
  by (auto simp: prim_type_def arith_types_def non_integer_types_def head_ok_def quote_def is_digit_def
      is_space_def type_qualifiers_def split: if_splits)

lemma show_head: "wf_enc t \<Longrightarrow> \<exists>h r. show_enc t = h # r \<and> head_ok h"
proof (induction t)
  case (Obj x)
  then show ?case by (cases x) (auto simp: head_ok_def quote_def is_digit_def is_space_def)
next
  case (Qual q t)
  then obtain h r where "show_enc t = h # r" "head_ok h" by auto
  moreover have "c \<in> set type_qualifiers \<Longrightarrow> head_ok c" for c
    by (auto simp: type_qualifiers_def head_ok_def quote_def is_digit_def is_space_def)
  ultimately show ?case using Qual.prems by (cases q) auto
next
  case (Prim c)
  then show ?case using prim_head [of c] by simp
qed (auto simp: head_ok_def quote_def is_digit_def is_space_def open_char_def)

lemma field_head:
  assumes "wf_enc (snd f)" "e = CHR '')'' \<or> e = CHR ''}''"
  shows "char_at (show_field f @ s) \<noteq> e \<and> show_field f \<noteq> []"
proof -
  obtain h r where "show_enc (snd f) = h # r" "head_ok h" using show_head [OF assms(1)] by blast
  then show ?thesis using assms(2)
    by (cases "fst f") (auto simp: show_field_def show_label_def head_ok_def quote_def)
qed

lemma skip_field_name_show:
  assumes "wf_enc (snd f)" "\<And>l. fst f = Some l \<Longrightarrow> quote \<notin> set l"
  shows "skip_field_name (show_field f @ s) = Some (show_enc (snd f) @ s)"
proof (cases "fst f")
  case None
  obtain h r where "show_enc (snd f) = h # r" "head_ok h" using show_head [OF assms(1)] by blast
  then show ?thesis using None
    by (auto simp: skip_field_name_def show_field_def show_label_def head_ok_def quote_def)
next
  case (Some l)
  then show ?thesis
    using assms(2) [OF Some] scan_to_found [of quote l "show_enc (snd f) @ s"]
    by (auto simp: skip_field_name_def show_field_def show_label_def quote_def)
qed

lemma char_at_snoc: "char_at (s @ e # r) = char_at (s @ [e])"
  by (cases s) auto

lemma show_fields_simps [simp]: "show_fields [] = []" "show_fields (f # fs) = show_field f @ show_fields fs"
  by (simp_all add: show_fields_def)

lemma show_aggr: "show_enc (Aggr u n fs) = open_char u # n @ CHR ''='' # show_fields fs @ [close_char u]"
proof -
  have "(\<lambda>(l, t). show_label l @ show_enc t) = show_field" by (auto simp: show_field_def)
  then show ?thesis by (simp add: show_fields_def)
qed

lemma struct_fields_show:
  assumes "\<And>f r c. f \<in> set fs \<Longrightarrow> follow_ok (snd f) (char_at r) \<Longrightarrow>
             cb (show_enc (snd f) @ r) c = Some (r, g (snd f) c)"
    and "e = CHR '')'' \<or> e = CHR ''}''" "fields_follow e fs" "length fs \<le> n"
    and "\<forall>f \<in> set fs. wf_enc (snd f) \<and> (\<forall>l. fst f = Some l \<longrightarrow> quote \<notin> set l)"
  shows "struct_fields cb e n (show_fields fs @ e # rest) c = Some (rest, fold (\<lambda>f. g (snd f)) fs c)"
  using assms
proof (induction fs arbitrary: n c)
  case Nil
  then show ?case by (cases n) auto
next
  case (Cons f fs)
  obtain m where n: "n = Suc m" "length fs \<le> m" using Cons.prems(4) by (cases n) auto
  have wf: "wf_enc (snd f)" "\<And>l. fst f = Some l \<Longrightarrow> quote \<notin> set l" using Cons.prems(5) by auto
  let ?r = "show_fields fs @ e # rest"
  have "char_at (show_field f @ ?r) \<noteq> e" using field_head [OF wf(1) Cons.prems(2)] by blast
  moreover have "cb (show_enc (snd f) @ ?r) c = Some (?r, g (snd f) c)"
    by (rule Cons.prems(1)) (use Cons.prems(3) char_at_snoc [of "show_fields fs" e rest] in simp_all)
  moreover have "struct_fields cb e m ?r (g (snd f) c) = Some (rest, fold (\<lambda>f. g (snd f)) fs (g (snd f) c))"
    using Cons.prems n by (intro Cons.IH) auto
  ultimately show ?case using skip_field_name_show [OF wf, where s = ?r] n by simp
qed

lemma skip_struct_name_show:
  "e \<notin> set n \<Longrightarrow> CHR ''='' \<notin> set n \<Longrightarrow> e \<noteq> CHR ''='' \<Longrightarrow>
     skip_struct_name e (n @ CHR ''='' # s) = Some (Inr s) \<and> skip_struct_name e (n @ e # s) = Some (Inl s)"
  by (induction n) auto

lemma fields_count: "(\<forall>f \<in> set fs. wf_enc (snd f)) \<Longrightarrow> length fs \<le> length (show_fields fs @ s)"
proof (induction fs)
  case (Cons f fs)
  have "show_field f \<noteq> []" using field_head [of f "CHR '')''"] Cons.prems by auto
  then have "1 \<le> length (show_field f)" by (cases "show_field f") auto
  then show ?case using Cons by fastforce
qed simp

lemma parse_aggr_show:
  assumes "\<And>f r c. f \<in> set fs \<Longrightarrow> follow_ok (snd f) (char_at r) \<Longrightarrow>
             cb (show_enc (snd f) @ r) c = Some (r, g (snd f) c)"
    and wf: "wf_enc (Aggr u n fs)"
  shows "parse_struct_or_union cb (close_char u) (show_enc (Aggr u n fs) @ rest) c =
           Some (rest, fold (\<lambda>f. g (snd f)) fs c)"
proof -
  let ?e = "close_char u" and ?s = "show_fields fs @ close_char u # rest"
  have e: "?e = CHR '')'' \<or> ?e = CHR ''}''" by (simp add: close_char_def)
  have "skip_struct_name ?e (n @ CHR ''='' # ?s) = Some (Inr ?s)"
    using wf skip_struct_name_show [of ?e n ?s] e by auto
  moreover have "struct_fields cb ?e (length ?s) ?s c = Some (rest, fold (\<lambda>f. g (snd f)) fs c)"
    by (rule struct_fields_show [OF assms(1) e]) (use wf fields_count [of fs "close_char u # rest"] in auto)
  ultimately show ?thesis by (simp add: parse_struct_or_union_def show_aggr del: show_enc.simps)
qed

lemma parse_opaque_show:
  "wf_enc (Opaque u n) \<Longrightarrow> parse_struct_or_union cb (close_char u) (show_enc (Opaque u n) @ rest) c = Some (rest, c)"
  using skip_struct_name_show [of "close_char u" n rest]
  by (auto simp: parse_struct_or_union_def close_char_def)

lemma parse_array_show:
  assumes "\<And>r c. follow_ok t (char_at r) \<Longrightarrow> cb (show_enc t @ r) c = Some (r, g t c)" "wf_enc (Arr n t)"
  shows "parse_array cb (show_enc (Arr n t) @ rest) c = Some (rest, g t c, int n)"
proof -
  obtain h r where "show_enc t = h # r" "head_ok h" using show_head assms(2) by fastforce
  then have "\<not> is_digit (char_at (show_enc t @ CHR '']'' # rest))" by (simp add: head_ok_def)
  then have "strtol10 (digits n @ show_enc t @ CHR '']'' # rest) = (int n, show_enc t @ CHR '']'' # rest)"
    using assms(2) by (intro strtol10_digits) auto
  then show ?thesis using assms(1) [of "CHR '']'' # rest"] assms(2)
    by (simp add: parse_array_def to_int32_small)
qed

lemma skip_object_show:
  assumes "wf_enc (Obj x)" "follow_ok (Obj x) (char_at rest)"
  shows "\<exists>k. skip_object_extended_qualifiers (show_obj x @ rest) = Some (k # rest)"
proof (cases x)
  case (BlockSig s)
  then show ?thesis using scan_to_found [of "CHR ''>''" s rest] assms(1)
    by (simp add: skip_object_extended_qualifiers_def)
next
  case (ClassName s)
  then show ?thesis using scan_to_found [of quote s rest] assms(1)
    by (simp add: skip_object_extended_qualifiers_def quote_def)
qed (use assms in \<open>auto simp: skip_object_extended_qualifiers_def quote_def\<close>)

lemma bits_show:
  assumes "wf_enc (Bits off c n)" "\<not> is_digit (char_at rest)"
  shows "strtol10 (digits off @ c # digits n @ rest) = (int off, c # digits n @ rest)"
    and "strtol10 (digits n @ rest) = (int n, rest)"
  using assms prim_head [of c] strtol10_digits [of "c # digits n @ rest" off] strtol10_digits [of rest n]
  by (auto simp: head_ok_def)

text \<open>Alignment of printed types.\<close>

lemma special_heads:
  "prim_type (CHR ''@'') = None" "prim_type (CHR ''?'') = None" "prim_type (CHR ''v'') = None"
  "prim_type (CHR ''j'') = None" "prim_type (CHR ''{'') = None" "prim_type (CHR ''('') = None"
  "prim_type (CHR ''['') = None" "prim_type (CHR ''b'') = None" "prim_type (CHR ''^'') = None"
  by (simp_all add: prim_type_def arith_types_def non_integer_types_def)

lemma skip_quals_stop: "c \<notin> set type_qualifiers \<Longrightarrow> objc_skip_type_qualifiers (c # s) = c # s"
  by simp

lemma heads_not_quals:
  "CHR ''@'' \<notin> set type_qualifiers" "CHR ''?'' \<notin> set type_qualifiers" "CHR ''v'' \<notin> set type_qualifiers"
  "CHR ''j'' \<notin> set type_qualifiers" "CHR ''{'' \<notin> set type_qualifiers" "CHR ''('' \<notin> set type_qualifiers"
  "CHR ''['' \<notin> set type_qualifiers" "CHR ''b'' \<notin> set type_qualifiers" "CHR ''^'' \<notin> set type_qualifiers"
  by (simp_all add: type_qualifiers_def)

lemmas head_simps = special_heads heads_not_quals

lemma show_obj_head: "\<exists>r. show_obj x = CHR ''@'' # r"
  by (cases x) auto

lemma depth_fields: "f \<in> set fs \<Longrightarrow> enc_depth (Aggr u n fs) < Suc k \<Longrightarrow> enc_depth (snd f) < k"
  by (auto simp: Max_less_iff)

lemma alignof_qual: "set q \<subseteq> set type_qualifiers \<Longrightarrow> alignof_type f (q @ s) a = alignof_type f s a"
  by (cases f) (simp_all add: skip_quals)

lemma sizeof_qual: "set q \<subseteq> set type_qualifiers \<Longrightarrow> sizeof_type f (q @ s) a = sizeof_type f s a"
  by (cases f) (simp_all add: skip_quals)

lemma alignof_show:
  "wf_enc t \<Longrightarrow> follow_ok t (char_at rest) \<Longrightarrow> enc_depth t < f \<Longrightarrow>
     alignof_type f (show_enc t @ rest) a = Some (rest, enc_align t a)"
proof (induction t arbitrary: f rest a)
  case (Prim c)
  then obtain k where k: "f = Suc k" by (cases f) auto
  from Prim.prems obtain sz al where "prim_type c = Some (sz, al)" by auto
  then show ?case using prim_head [of c] by (simp add: k prim_align_def)
next
  case (Obj x)
  then obtain k where k: "f = Suc k" by (cases f) auto
  obtain r where r: "show_obj x = CHR ''@'' # r" using show_obj_head by blast
  obtain y where y: "skip_object_extended_qualifiers (show_obj x @ rest) = Some (y # rest)"
    using skip_object_show [OF Obj.prems(1,2)] by blast
  from y show ?case by (simp add: k r head_simps)
next
  case (Unsized c)
  then obtain k where k: "f = Suc k" by (cases f) auto
  from Unsized show ?case by (auto simp: k head_simps)
next
  case (Cplx c)
  then obtain k where k: "f = Suc k" by (cases f) auto
  from Cplx.prems obtain sz al where "complex_type c = Some (sz, al)" by auto
  then show ?case by (simp add: k head_simps cplx_align_def)
next
  case (Opaque u n)
  then obtain k where k: "f = Suc k" by (cases f) auto
  note p = parse_opaque_show [OF Opaque.prems(1), where rest = rest and c = a]
  show ?case using p [where cb = "alignof_type k"]
    by (cases u) (simp_all add: k head_simps open_char_def close_char_def parse_struct_def parse_union_def)
next
  case (Aggr u n fs)
  then obtain k where k: "f = Suc k" by (cases f) auto
  have "alignof_type k (show_enc (snd x) @ r) c = Some (r, enc_align (snd x) c)"
    if "x \<in> set fs" "follow_ok (snd x) (char_at r)" for x r c
  proof -
    have "snd x \<in> Basic_BNFs.snds x" by (cases x) (simp add: snds.intros)
    with Aggr.IH [OF that(1) this] show ?thesis
      using Aggr.prems that depth_fields [OF that(1), of u n k] k by simp
  qed
  note p = parse_aggr_show [where cb = "alignof_type k" and g = enc_align, OF this Aggr.prems(1), where rest = rest and c = a]
  show ?case using p [simplified show_aggr]
    by (cases u) (simp_all add: k head_simps open_char_def close_char_def parse_struct_def parse_union_def
        show_aggr del: show_enc.simps(6))
next
  case (Arr n t)
  then obtain k where k: "f = Suc k" by (cases f) auto
  have "alignof_type k (show_enc t @ r) c = Some (r, enc_align t c)" if "follow_ok t (char_at r)" for r c
    using Arr that k by simp
  from parse_array_show [where cb = "alignof_type k" and g = enc_align, OF this Arr.prems(1), where rest = rest and c = a]
  show ?case by (simp add: k head_simps)
next
  case (Bits off c n)
  then obtain k where k: "f = Suc (Suc k)" by (cases f; cases "f - 1") auto
  from Bits.prems obtain sz al where c: "prim_type c = Some (sz, al)" by auto
  have nd: "\<not> is_digit (char_at rest)" using Bits.prems by simp
  from bits_show [OF Bits.prems(1) nd] c prim_head [of c] show ?case
    by (simp add: k head_simps prim_align_def)
next
  case (Ptr t)
  then obtain k where k: "f = Suc k" by (cases f) auto
  from Ptr show ?case by (simp add: k head_simps)
next
  case (Qual q t)
  then show ?case by (simp add: alignof_qual)
qed

text \<open>Sizes of printed types.\<close>

lemma enc_depth_le: "wf_enc t \<Longrightarrow> enc_depth t < length (show_enc t)"
proof (induction t)
  case (Aggr u n fs)
  have "enc_depth (snd f) < Suc (length (show_fields fs))" if "f \<in> set fs" for f
  proof -
    have "snd f \<in> Basic_BNFs.snds f" by (cases f) (simp add: snds.intros)
    then have "enc_depth (snd f) < length (show_enc (snd f))" using Aggr that by auto
    also have "\<dots> \<le> length (show_field f)" by (simp add: show_field_def)
    also have "length (show_field f) \<le> length (show_fields fs)"
      using that by (auto simp: show_fields_def length_concat intro!: member_le_sum_list)
    finally show ?thesis by simp
  qed
  then have "Max (insert 0 (set (map (\<lambda>f. enc_depth (snd f)) fs))) < Suc (length (show_fields fs))"
    by (subst Max_less_iff) auto
  then show ?case by (simp add: show_aggr del: show_enc.simps(6) Max_less_iff)
next
  case (Obj x)
  then show ?case by (cases x) auto
next
  case (Qual q t)
  then show ?case by simp
qed (auto simp: digits_ne)

lemma sizeof_show:
  "wf_enc t \<Longrightarrow> follow_ok t (char_at rest) \<Longrightarrow> enc_depth t < f \<Longrightarrow>
     sizeof_type f (show_enc t @ rest) s = Some (rest, enc_size t s)"
proof (induction t arbitrary: f rest s)
  case (Prim c)
  then obtain k where k: "f = Suc k" by (cases f) auto
  from Prim.prems obtain sz al where "prim_type c = Some (sz, al)" by auto
  then show ?case using prim_head [of c] by (simp add: k prim_align_def prim_size_def)
next
  case (Obj x)
  then obtain k where k: "f = Suc k" by (cases f) auto
  obtain r where r: "show_obj x = CHR ''@'' # r" using show_obj_head by blast
  obtain y where y: "skip_object_extended_qualifiers (show_obj x @ rest) = Some (y # rest)"
    using skip_object_show [OF Obj.prems(1,2)] by blast
  from y show ?case by (simp add: k r head_simps)
next
  case (Unsized c)
  then obtain k where k: "f = Suc k" by (cases f) auto
  from Unsized show ?case by (auto simp: k head_simps)
next
  case (Cplx c)
  then obtain k where k: "f = Suc k" by (cases f) auto
  from Cplx.prems obtain sz al where "complex_type c = Some (sz, al)" by auto
  then show ?case by (simp add: k head_simps cplx_align_def cplx_size_def)
next
  case (Opaque u n)
  then obtain k where k: "f = Suc k" by (cases f) auto
  have al: "objc_alignof_type (show_enc (Opaque u n) @ rest) = Some 0"
    using alignof_show [OF Opaque.prems(1,2), of "Suc (length (show_enc (Opaque u n) @ rest))" 0]
    by (simp add: objc_alignof_type_def del: show_enc.simps alignof_type.simps)
  show ?case
    using al parse_opaque_show [OF Opaque.prems(1), where rest = rest and cb = "sizeof_type k" and c = s]
      parse_opaque_show [OF Opaque.prems(1), where rest = rest and cb = "sizeof_union_field (sizeof_type k)" and c = 0]
    by (cases u) (simp_all add: k head_simps open_char_def close_char_def parse_struct_def parse_union_def
        round_up_def)
next
  case (Aggr u n fs)
  then obtain k where k: "f = Suc k" by (cases f) auto
  have IH: "sizeof_type k (show_enc (snd x) @ r) c = Some (r, enc_size (snd x) c)"
    if "x \<in> set fs" "follow_ok (snd x) (char_at r)" for x r c
  proof -
    have "snd x \<in> Basic_BNFs.snds x" by (cases x) (simp add: snds.intros)
    with Aggr.IH [OF that(1) this] show ?thesis
      using Aggr.prems that depth_fields [OF that(1), of u n k] k by simp
  qed
  then have IHu: "sizeof_union_field (sizeof_type k) (show_enc (snd x) @ r) c = Some (r, max c (enc_size (snd x) 0))"
    if "x \<in> set fs" "follow_ok (snd x) (char_at r)" for x r c
    using that by (simp add: sizeof_union_field_def)
  note ps = parse_aggr_show [where cb = "sizeof_type k" and g = enc_size, OF IH Aggr.prems(1), where rest = rest]
  note pu = parse_aggr_show [where cb = "sizeof_union_field (sizeof_type k)"
      and g = "\<lambda>t c. max c (enc_size t 0)", OF IHu Aggr.prems(1), where rest = rest]
  have al: "objc_alignof_type (show_enc (Aggr u n fs) @ rest) = Some (enc_align (Aggr u n fs) 0 div 8)"
    using alignof_show [OF Aggr.prems(1,2), of "Suc (length (show_enc (Aggr u n fs) @ rest))" 0]
      enc_depth_le [OF Aggr.prems(1)]
    by (simp add: objc_alignof_type_def del: show_enc.simps alignof_type.simps enc_align.simps enc_depth.simps)
  show ?case
    using ps [simplified show_aggr] pu [simplified show_aggr] al [simplified show_aggr]
    by (cases u) (simp_all add: k head_simps open_char_def close_char_def parse_struct_def parse_union_def
        show_aggr del: show_enc.simps(6) enc_align.simps)
next
  case (Arr n t)
  then obtain k where k: "f = Suc k" by (cases f) auto
  have "sizeof_type k (show_enc t @ r) c = Some (r, enc_size t c)" if "follow_ok t (char_at r)" for r c
    using Arr that k by simp
  from parse_array_show [where cb = "sizeof_type k" and g = enc_size, OF this Arr.prems(1), where rest = rest]
  show ?case by (simp add: k head_simps)
next
  case (Bits off c n)
  then obtain k where k: "f = Suc (Suc k)" by (cases f; cases "f - 1") auto
  have nd: "\<not> is_digit (char_at rest)" using Bits.prems by simp
  from bits_show [OF Bits.prems(1) nd] show ?case by (simp add: k head_simps)
next
  case (Ptr t)
  then obtain k where k: "f = Suc k" by (cases f) auto
  from Ptr show ?case by (simp add: k head_simps)
next
  case (Qual q t)
  then show ?case by (simp add: sizeof_qual)
qed

end
