(* ===== verification/Objc_Encoding_Thms.thy ===== *)
theory Objc_Encoding_Thms
  imports Objc_Encoding_Props
begin

text \<open>
  Properties of the type-encoding parser: it reads exactly the encodings it is given, splits
  method signatures into their arguments, lays out structures of primitive members as the C
  ABI does, and needs no more fuel than the length of its input.
\<close>

text \<open>Every step of the parser moves forward.\<close>

lemma advance_len: "advance s = Some t \<Longrightarrow> length s = Suc (length t)"
  by (cases s) auto

lemma scan_to_len: "scan_to e s = Some t \<Longrightarrow> length t \<le> length s"
  by (induction s) (auto split: if_splits)

lemma quals_len: "length (objc_skip_type_qualifiers s) \<le> length s"
  by (induction s) auto

lemma dropWhile_len: "length (dropWhile P s) \<le> length s"
  by (induction s) auto

lemma strtol_len: "length (snd (strtol10 s)) \<le> length s"
proof -
  have "length (dropWhile is_digit u) \<le> length s" if "length u \<le> length (dropWhile is_space s)" for u
    using that dropWhile_len [of is_space s] dropWhile_len [of is_digit u] by linarith
  then show ?thesis by (auto simp: strtol10_def Let_def split: list.splits prod.splits)
qed

lemma struct_name_len: "skip_struct_name e s = Some r \<Longrightarrow> length (case_sum id id r) < length s"
  by (induction s) (auto split: if_splits)

lemma field_name_len: "skip_field_name s = Some t \<Longrightarrow> length t \<le> length s"
  by (fastforce simp: skip_field_name_def split: if_splits bind_splits dest: advance_len scan_to_len)

lemma object_len: "skip_object_extended_qualifiers s = Some t \<Longrightarrow> length t \<le> length s"
  by (fastforce simp: skip_object_extended_qualifiers_def split: if_splits bind_splits
      dest: advance_len scan_to_len)

definition forward :: "'c type_parser \<Rightarrow> bool" where
  "forward cb \<longleftrightarrow> (\<forall>s c r c'. cb s c = Some (r, c') \<longrightarrow> length r < length s)"

lemma forward_Nil: "forward cb \<Longrightarrow> cb [] c = None"
  unfolding forward_def by (cases "cb [] c") fastforce+

lemma struct_fields_len:
  "forward cb \<Longrightarrow> struct_fields cb e n s c = Some (r, c') \<Longrightarrow> length r < length s"
proof (induction n arbitrary: s c)
  case (Suc n)
  show ?case
  proof (cases "char_at s = e")
    case False
    with Suc.prems(2) obtain s1 s2 c2 where "skip_field_name s = Some s1" "cb s1 c = Some (s2, c2)"
      "struct_fields cb e n s2 c2 = Some (r, c')" by (auto split: bind_splits)
    then show ?thesis using Suc.IH [OF Suc.prems(1)] Suc.prems(1) field_name_len [of s s1]
      unfolding forward_def by fastforce
  qed (use Suc.prems in \<open>auto split: bind_splits dest: advance_len\<close>)
qed (auto split: bind_splits if_splits dest: advance_len)

lemma struct_fields_fuel:
  "forward cb \<Longrightarrow> length s \<le> n \<Longrightarrow> length s \<le> m \<Longrightarrow> struct_fields cb e n s c = struct_fields cb e m s c"
proof (induction n arbitrary: s c m)
  case 0
  then show ?case by (cases m) (auto simp: skip_field_name_def forward_Nil)
next
  case (Suc n)
  show ?case
  proof (cases m)
    case 0
    with Suc.prems show ?thesis by (auto simp: skip_field_name_def forward_Nil)
  next
    case (Suc k)
    have "struct_fields cb e n s2 c2 = struct_fields cb e k s2 c2"
      if "skip_field_name s = Some s1" "cb s1 c = Some (s2, c2)" for s1 s2 c2
    proof (rule Suc.IH [OF Suc.prems(1)])
      have "length s2 < length s"
        using that field_name_len [of s s1] Suc.prems(1) unfolding forward_def by fastforce
      then show "length s2 \<le> n" "length s2 \<le> k" using Suc.prems(2,3) Suc by auto
    qed
    then show ?thesis using Suc by (auto split: bind_splits)
  qed
qed

lemma struct_fields_cong:
  assumes "\<And>s c. length s < L \<Longrightarrow> cb s c = cb' s c" "forward cb"
  shows "length s < L \<Longrightarrow> struct_fields cb e n s c = struct_fields cb' e n s c"
proof (induction n arbitrary: s c)
  case (Suc n)
  have "cb s1 c = cb' s1 c" if "skip_field_name s = Some s1" for s1
    using assms(1) field_name_len [OF that] Suc.prems by simp
  moreover have "struct_fields cb e n s2 c2 = struct_fields cb' e n s2 c2"
    if "skip_field_name s = Some s1" "cb s1 c = Some (s2, c2)" for s1 s2 c2
  proof (rule Suc.IH)
    have "length s2 < length s1" using assms(2) that(2) unfolding forward_def by blast
    then show "length s2 < L" using field_name_len [OF that(1)] Suc.prems by simp
  qed
  ultimately show ?case by (auto split: bind_splits)
qed simp

lemma parse_aggr_cong:
  assumes "\<And>s c. length s < length t \<Longrightarrow> cb s c = cb' s c" "forward cb"
  shows "parse_struct_or_union cb e t c = parse_struct_or_union cb' e t c"
proof -
  have "struct_fields cb e (length u) u c = struct_fields cb' e (length u) u c"
    if "advance t = Some t1" "skip_struct_name e t1 = Some (Inr u)" for t1 u
    by (rule struct_fields_cong [OF assms])
      (use advance_len [OF that(1)] struct_name_len [OF that(2)] in auto)
  then show ?thesis by (auto simp: parse_struct_or_union_def split: bind_splits sum.splits)
qed

lemma parse_aggr_len:
  assumes "forward cb" "parse_struct_or_union cb e t c = Some (r, c')"
  shows "length r < length t"
proof -
  from assms(2) obtain t1 x where t: "advance t = Some t1" "skip_struct_name e t1 = Some x"
    and r: "(case x of Inl u \<Rightarrow> Some (u, c) | Inr u \<Rightarrow> struct_fields cb e (length u) u c) = Some (r, c')"
    by (auto simp: parse_struct_or_union_def split: bind_splits)
  show ?thesis using r advance_len [OF t(1)] struct_name_len [OF t(2)] struct_fields_len [OF assms(1)]
    by (cases x) fastforce+
qed

lemma parse_array_cong:
  assumes "\<And>s c. length s < length t \<Longrightarrow> cb s c = cb' s c"
  shows "parse_array cb t c = parse_array cb' t c"
proof -
  have "cb (snd (strtol10 t1)) c = cb' (snd (strtol10 t1)) c" if "advance t = Some t1" for t1
    by (rule assms) (use advance_len [OF that] strtol_len [of t1] in simp)
  then show ?thesis by (auto simp: parse_array_def split: bind_splits prod.splits)
qed

lemma parse_array_len:
  assumes "forward cb" "parse_array cb t c = Some (r, c', k)"
  shows "length r < length t"
proof -
  from assms(2) obtain t1 t3 where t: "advance t = Some t1" "cb (snd (strtol10 t1)) c = Some (t3, c')"
    "advance t3 = Some r" by (auto simp: parse_array_def split: bind_splits prod.splits)
  show ?thesis using advance_len [OF t(1)] advance_len [OF t(3)] strtol_len [of t1] assms(1) t(2)
    unfolding forward_def by fastforce
qed


lemma alignof_forward: "forward (alignof_type f)"
proof (induction f)
  case 0
  then show ?case by (simp add: forward_def)
next
  case (Suc f)
  show ?case unfolding forward_def
  proof (intro allI impI)
    fix s a r a'
    assume e: "alignof_type (Suc f) s a = Some (r, a')"
    define t where "t = objc_skip_type_qualifiers s"
    have t: "length t \<le> length s" by (simp add: t_def quals_len)
    note A = parse_aggr_len [OF Suc] and B = parse_array_len [OF Suc]
    note F = Suc [unfolded forward_def, rule_format]
    have G: "length (snd (strtol10 v)) < Suc (length u)"
      if "alignof_type f (snd (strtol10 u)) b = Some (v, b')" for u v b b'
      using F [OF that] strtol_len [of u] strtol_len [of v] by linarith
    have H: "length v < Suc (length u)" if "alignof_type f u b = Some (v, b')" for u v b b'
      using F [OF that] by simp
    have K: "length v < Suc (length u)" if "parse_struct_or_union (alignof_type f) x u b = Some (v, b')" for u v x b b'
      using A [OF that] by simp
    have "length r < length t"
      using e [unfolded alignof_type.simps, folded t_def]
      by (auto simp: Let_def parse_struct_def parse_union_def dest!: advance_len object_len
          split: option.splits if_splits bind_splits prod.splits dest: A B G H K)
    then show "length r < length s" using t by simp
  qed
qed

lemma union_field_forward: "forward cb \<Longrightarrow> forward (sizeof_union_field cb)"
  by (fastforce simp: forward_def sizeof_union_field_def split: bind_splits)

lemma sizeof_forward: "forward (sizeof_type f)"
proof (induction f)
  case 0
  then show ?case by (simp add: forward_def)
next
  case (Suc f)
  show ?case unfolding forward_def
  proof (intro allI impI)
    fix s a r a'
    assume e: "sizeof_type (Suc f) s a = Some (r, a')"
    define t where "t = objc_skip_type_qualifiers s"
    have t: "length t \<le> length s" by (simp add: t_def quals_len)
    note A = parse_aggr_len [OF Suc] parse_aggr_len [OF union_field_forward [OF Suc]]
      and B = parse_array_len [OF Suc]
    have G: "length w < Suc (length u)"
      if "advance (snd (strtol10 u)) = Some v" "strtol10 v = (b, w)" for u v w b
      using advance_len [OF that(1)] strtol_len [of u] strtol_len [of v] that(2) by simp
    have H: "length v < Suc (length u)" if "sizeof_type f u b = Some (v, b')" for u v b b'
      using Suc [unfolded forward_def, rule_format, OF that] by simp
    have K: "length v < Suc (length u)" if "parse_struct_or_union (sizeof_type f) x u b = Some (v, b')" for u v x b b'
      using A(1) [OF that] by simp
    have "length r < length t"
      using e [unfolded sizeof_type.simps, folded t_def]
      by (auto simp: Let_def parse_struct_def parse_union_def dest!: object_len
          split: option.splits if_splits bind_splits prod.splits dest: advance_len A B G H K)
        (fastforce dest: advance_len G H K)+
    then show "length r < length s" using t by simp
  qed
qed

lemma alignof_fuel: "length s < f \<Longrightarrow> alignof_type (Suc f) s a = alignof_type f s a"
proof (induction f arbitrary: s a)
  case (Suc f)
  define t where "t = objc_skip_type_qualifiers s"
  have t: "length t \<le> f" using quals_len [of s] Suc.prems by (simp add: t_def)
  have E: "alignof_type (Suc f) u b = alignof_type f u b" if "length u < length t" for u b
    by (rule Suc.IH) (use that t in simp)
  have P: "parse_struct_or_union (alignof_type (Suc f)) e u b = parse_struct_or_union (alignof_type f) e u b"
    if "length u \<le> length t" for e u b
    by (rule parse_aggr_cong [OF _ alignof_forward]) (use that E in auto)
  have R: "parse_array (alignof_type (Suc f)) t b = parse_array (alignof_type f) t b" for b
    by (rule parse_array_cong) (rule E)
  have S: "alignof_type (Suc f) (snd (strtol10 u)) b = alignof_type f (snd (strtol10 u)) b"
    if "advance t = Some u" for u b
    by (rule E) (use advance_len [OF that] strtol_len [of u] in simp)
  have T: "alignof_type (Suc f) u b = alignof_type f u b" "length u \<le> length t" if "advance t = Some u" for u b
    using E [of u b] advance_len [OF that] by auto
  show ?case
    unfolding alignof_type.simps(2) [of "Suc f"] alignof_type.simps(2) [of f s] t_def [symmetric] Let_def
      parse_struct_def parse_union_def
    using P R S T by (auto simp del: alignof_type.simps cong: if_cong option.case_cong split: bind_splits option.splits)
qed simp

lemma sizeof_fuel: "length s < f \<Longrightarrow> sizeof_type (Suc f) s a = sizeof_type f s a"
proof (induction f arbitrary: s a)
  case (Suc f)
  define t where "t = objc_skip_type_qualifiers s"
  have t: "length t \<le> f" using quals_len [of s] Suc.prems by (simp add: t_def)
  have E: "sizeof_type (Suc f) u b = sizeof_type f u b" if "length u < length t" for u b
    by (rule Suc.IH) (use that t in simp)
  have P: "parse_struct_or_union (sizeof_type (Suc f)) e u b = parse_struct_or_union (sizeof_type f) e u b"
    if "length u \<le> length t" for e u b
    by (rule parse_aggr_cong [OF _ sizeof_forward]) (use that E in auto)
  have U: "parse_struct_or_union (sizeof_union_field (sizeof_type (Suc f))) e t b =
      parse_struct_or_union (sizeof_union_field (sizeof_type f)) e t b" for e b
    by (rule parse_aggr_cong [OF _ union_field_forward [OF sizeof_forward]])
      (use E in \<open>simp add: sizeof_union_field_def del: sizeof_type.simps\<close>)
  have R: "parse_array (sizeof_type (Suc f)) t b = parse_array (sizeof_type f) t b" for b
    by (rule parse_array_cong) (rule E)
  have T: "sizeof_type (Suc f) u b = sizeof_type f u b" "length u \<le> length t" if "advance t = Some u" for u b
    using E [of u b] advance_len [OF that] by auto
  show ?case
    unfolding sizeof_type.simps(2) [of "Suc f"] sizeof_type.simps(2) [of f s] t_def [symmetric] Let_def
      parse_struct_def parse_union_def
    using P U R T by (auto simp del: sizeof_type.simps cong: if_cong option.case_cong split: bind_splits option.splits)
qed simp

lemma fuel_irrelevant:
  assumes "length s < f"
  shows "sizeof_type f s a = sizeof_type (Suc (length s)) s a"
    and "alignof_type f s a = alignof_type (Suc (length s)) s a"
proof -
  obtain k where f: "f = Suc (length s) + k" using assms less_iff_Suc_add by (metis add_Suc)
  have "sizeof_type (Suc (length s) + k) s a = sizeof_type (Suc (length s)) s a \<and>
      alignof_type (Suc (length s) + k) s a = alignof_type (Suc (length s)) s a"
  proof (induction k)
    case (Suc k)
    then show ?case using sizeof_fuel [of s "Suc (length s) + k" a] alignof_fuel [of s "Suc (length s) + k" a]
      by (simp del: sizeof_type.simps alignof_type.simps)
  qed simp
  then show "sizeof_type f s a = sizeof_type (Suc (length s)) s a"
    "alignof_type f s a = alignof_type (Suc (length s)) s a" by (simp_all add: f)
qed



lemma encoding_roundtrip_eq:
  assumes "wf_enc t" "follow_ok t (char_at rest)"
  shows "objc_skip_typespec (show_enc t @ rest) = Some rest \<and>
         objc_sizeof_type (show_enc t @ rest) = Some (enc_size t 0 div 8) \<and>
         objc_alignof_type (show_enc t @ rest) = Some (enc_align t 0 div 8)"
proof -
  have d: "enc_depth t < Suc (length (show_enc t @ rest))" using enc_depth_le [OF assms(1)] by simp
  from sizeof_show [OF assms d] alignof_show [OF assms d] show ?thesis
    by (simp add: objc_skip_typespec_def objc_sizeof_type_def objc_alignof_type_def
        del: sizeof_type.simps alignof_type.simps)
qed

text \<open>
  C9: the parser reads exactly one type: on the printed form of any well-formed encoding,
  followed by text that cannot extend it, \<open>objc_skip_typespec\<close> stops right behind it, and
  \<open>objc_sizeof_type\<close> and \<open>objc_alignof_type\<close> return the size and alignment of the encoded
  type.
\<close>

theorem encoding_roundtrip:
  assumes "wf_enc t" "follow_ok t (char_at rest)"
  shows "objc_skip_typespec (show_enc t @ rest) = Some rest \<and>
         objc_sizeof_type (show_enc t @ rest) = Some (enc_size t 0 div 8) \<and>
         objc_alignof_type (show_enc t @ rest) = Some (enc_align t 0 div 8)"
  by (rule encoding_roundtrip_eq [OF assms])

theorem encoding_roundtrip_witness:
  "objc_skip_typespec ''r{P=[2d]@?^{Q}}16'' = Some ''16'' \<and>
   objc_sizeof_type ''r{P=[2d]@?^{Q}}16'' = Some 32 \<and> objc_alignof_type ''r{P=[2d]@?^{Q}}16'' = Some 8"
proof -
  let ?t = "Qual ''r'' (Aggr False ''P'' [(None, Arr 2 (Prim (CHR ''d''))), (None, Obj Block),
              (None, Ptr (Opaque False ''Q''))])"
  have s: "show_enc ?t @ ''16'' = ''r{P=[2d]@?^{Q}}16''"
    by (simp add: open_char_def close_char_def show_label_def digits.simps)
  have "wf_enc ?t" by (simp add: close_char_def type_qualifiers_def prim_type_def arith_types_def
        non_integer_types_def show_fields_def show_field_def show_label_def open_char_def)
  from encoding_roundtrip [OF this, of "''16''"] show ?thesis unfolding s
    by (simp add: round_up_def prim_align_def prim_size_def prim_type_def arith_types_def non_integer_types_def)
qed

text \<open>Method signatures: every type is followed by the offset of the argument.\<close>

definition show_arg :: "enc \<times> nat \<Rightarrow> string" where
  "show_arg x = show_enc (fst x) @ digits (snd x)"

definition show_sig :: "(enc \<times> nat) list \<Rightarrow> string" where
  "show_sig xs = concat (map show_arg xs)"

definition wf_arg :: "enc \<times> nat \<Rightarrow> bool" where
  "wf_arg x \<longleftrightarrow> wf_enc (fst x) \<and> (\<forall>c. is_digit c \<longrightarrow> follow_ok (fst x) c)"

lemma show_sig_simps [simp]: "show_sig [] = []" "show_sig (x # xs) = show_arg x @ show_sig xs"
  by (simp_all add: show_sig_def)

lemma digits_head: "is_digit (char_at (digits n @ s))"
  using digits_all [of n] digits_ne [of n] by (cases "digits n") auto

lemma sig_head: "\<forall>x \<in> set xs. wf_arg x \<Longrightarrow> \<not> is_digit (char_at (show_sig xs))"
proof (cases xs)
  case (Cons y ys)
  assume "\<forall>x \<in> set xs. wf_arg x"
  then obtain h r where "show_enc (fst y) = h # r" "head_ok h" using show_head [of "fst y"] Cons by (auto simp: wf_arg_def)
  then show ?thesis using Cons by (simp add: show_arg_def head_ok_def)
qed (simp add: is_digit_def)

lemma skip_typespec_arg:
  assumes "wf_arg x"
  shows "objc_skip_typespec (show_arg x @ s) = Some (digits (snd x) @ s)"
proof -
  have "wf_enc (fst x)" "follow_ok (fst x) (char_at (digits (snd x) @ s))"
    using assms digits_head by (auto simp: wf_arg_def)
  moreover have "enc_depth (fst x) < Suc (length (show_arg x @ s))"
    using enc_depth_le [OF calculation(1)] by (simp add: show_arg_def)
  ultimately show ?thesis
    using sizeof_show [of "fst x" "digits (snd x) @ s" "Suc (length (show_arg x @ s))" 0]
    by (simp add: objc_skip_typespec_def show_arg_def del: sizeof_type.simps)
qed

lemma skip_argspec_arg:
  "wf_arg x \<Longrightarrow> \<forall>y \<in> set xs. wf_arg y \<Longrightarrow> objc_skip_argspec (show_arg x @ show_sig xs) = Some (show_sig xs)"
  using dropWhile_digits [OF sig_head] by (simp add: objc_skip_argspec_def skip_typespec_arg)

lemma show_arg_ne: "wf_arg x \<Longrightarrow> show_arg x @ s \<noteq> []"
  using show_head [of "fst x"] by (auto simp: wf_arg_def show_arg_def)

lemma skip_params_sig:
  "\<forall>y \<in> set xs. wf_arg y \<Longrightarrow> xs \<noteq> [] \<Longrightarrow>
     skip_params n (show_sig xs) = Some (if n < length xs then Some (show_sig (drop n xs)) else None)"
proof (induction xs arbitrary: n)
  case (Cons x xs)
  show ?case
  proof (cases n)
    case (Suc m)
    then show ?thesis using Cons skip_argspec_arg [of x xs] show_arg_ne
      by (cases xs) (auto simp del: skip_params.simps(1))
  qed simp
qed simp

lemma count_args_sig:
  "\<forall>y \<in> set xs. wf_arg y \<Longrightarrow> length xs \<le> n \<Longrightarrow> count_args n (show_sig xs) k = Some (k + of_nat (length xs))"
proof (induction xs arbitrary: n k)
  case Nil
  then show ?case by (cases n) auto
next
  case (Cons x xs)
  then obtain m where "n = Suc m" by (cases n) auto
  then show ?case using Cons skip_argspec_arg [of x xs] show_arg_ne [of x "show_sig xs"]
    by (auto simp: algebra_simps)
qed

lemma copy_arg:
  assumes "wf_arg x"
  shows "copyTypeEncoding (Some (show_arg x @ s)) = Some (show_enc (fst x))"
proof -
  have "length (show_arg x @ s) - length (digits (snd x) @ s) = length (show_enc (fst x))"
    by (simp add: show_arg_def)
  then show ?thesis using skip_typespec_arg [OF assms, of s] show_arg_ne [OF assms, of s]
    by (simp add: copyTypeEncoding_def lengthOfTypeEncoding_def show_arg_def)
qed

lemma length_sig: "\<forall>y \<in> set xs. wf_arg y \<Longrightarrow> length xs \<le> length (show_sig xs)"
proof (induction xs)
  case (Cons x xs)
  then show ?case using show_arg_ne [of x "[]"] by (cases "show_arg x") auto
qed simp

text \<open>
  C11: on the signature of a method with return type \<open>r\<close> and arguments \<open>xs\<close>, the method
  functions report the number of arguments, the encoding of every argument, a null pointer
  for an index beyond the last argument, and the return type.
\<close>

theorem method_signature_split:
  assumes "\<forall>y \<in> set (r # xs). wf_arg y"
    and m: "m = Some \<lparr>sel_types = Some (show_sig (r # xs))\<rparr>"
  shows "method_getNumberOfArguments m = Some (of_nat (length xs)) \<and>
         method_copyArgumentType m i =
           Some (if i < length xs then Some (show_enc (fst (xs ! i))) else None) \<and>
         method_copyReturnType m = Some (Some (show_enc (fst r)))"
proof -
  have n: "length (r # xs) \<le> length (show_sig (r # xs))" by (rule length_sig [OF assms(1)])
  have "method_getNumberOfArguments m = Some (of_nat (length xs))"
    using count_args_sig [OF assms(1) n, of 0]
    by (simp add: m method_getNumberOfArguments_def method_getTypeEncoding_def del: show_sig_simps)
  moreover have "method_copyArgumentType m i =
      Some (if i < length xs then Some (show_enc (fst (xs ! i))) else None)"
  proof (cases "i < length xs")
    case True
    then have "drop (Suc i) (r # xs) = xs ! i # drop (Suc i) xs" by (simp add: Cons_nth_drop_Suc)
    then show ?thesis
      using True skip_params_sig [OF assms(1), of "Suc i"] copy_arg [of "xs ! i"] assms(1)
      by (simp add: m method_copyArgumentType_def findParameterStart_def method_getTypeEncoding_def
          del: skip_params.simps)
  next
    case False
    then show ?thesis using skip_params_sig [OF assms(1), of "Suc i"]
      by (simp add: m method_copyArgumentType_def findParameterStart_def method_getTypeEncoding_def
          del: skip_params.simps)
  qed
  moreover have "method_copyReturnType m = Some (Some (show_enc (fst r)))"
    using copy_arg [of r "show_sig xs"] assms(1)
    by (simp add: m method_copyReturnType_def method_getTypeEncoding_def)
  ultimately show ?thesis by blast
qed

theorem method_signature_split_witness:
  "method_getNumberOfArguments (Some \<lparr>sel_types = Some ''v24@0:8i16''\<rparr>) = Some 3 \<and>
   method_copyArgumentType (Some \<lparr>sel_types = Some ''v24@0:8i16''\<rparr>) 2 = Some (Some ''i'')"
proof -
  let ?r = "(Unsized (CHR ''v''), 24)" and ?xs = "[(Obj Plain, 0), (Prim (CHR '':''), 8), (Prim (CHR ''i''), 16)]"
  have s: "show_sig (?r # ?xs) = ''v24@0:8i16''" by (simp add: show_arg_def digits.simps)
  have "\<forall>y \<in> set (?r # ?xs). wf_arg y"
    by (auto simp: wf_arg_def prim_type_def arith_types_def non_integer_types_def is_digit_def quote_def)
  from method_signature_split [OF this refl, of 2] show ?thesis unfolding s by simp
qed

text \<open>The layout rule of the C ABI for a structure of members with given sizes and alignments.\<close>

definition align_to :: "nat \<Rightarrow> nat \<Rightarrow> nat" where
  "align_to n al = (n + (al - 1)) div al * al"

definition abi_end :: "(nat \<times> nat) list \<Rightarrow> nat \<Rightarrow> nat" where
  "abi_end = fold (\<lambda>(sz, al) n. align_to n al + sz)"

definition abi_struct_size :: "(nat \<times> nat) list \<Rightarrow> nat" where
  "abi_struct_size ms = align_to (abi_end ms 0) (fold (\<lambda>(sz, al). max al) ms 1)"

lemma align_to_eq:
  assumes "0 < al"
  shows "align_to n al = (if n mod al = 0 then n else n + (al - n mod al))"
proof -
  have n: "n = n div al * al + n mod al" by (simp only: div_mult_mod_eq)
  have lt: "n mod al < al" using assms by simp
  show ?thesis
  proof (cases "n mod al = 0")
    case True
    have "(n + (al - 1)) div al = n div al"
      using n True assms by (intro div_nat_eqI) (auto simp: algebra_simps)
    then show ?thesis using n True by (simp add: align_to_def)
  next
    case False
    have "(n + (al - 1)) div al = Suc (n div al)"
    proof (rule div_nat_eqI)
      have e: "al * Suc (n div al) = al + n div al * al" "al * Suc (Suc (n div al)) = al + al + n div al * al"
        by simp_all
      show "al * Suc (n div al) \<le> n + (al - 1)" unfolding e using n False assms by linarith
      show "n + (al - 1) < al * Suc (Suc (n div al))" unfolding e using n lt assms by linarith
    qed
    then have "align_to n al = al + n div al * al" by (simp add: align_to_def)
    also have "\<dots> = n + (al - n mod al)" using n lt by linarith
    finally show ?thesis using False by simp
  qed
qed

lemma align_to_le: "0 < al \<Longrightarrow> align_to n al < n + al"
  by (simp add: align_to_eq)

lemma unat_round_up:
  assumes v: "unat v = 8 * x" and b: "unat b = 8 * al" "0 < al" and room: "8 * (x + al) < 2 ^ 64"
  shows "unat (round_up v b) = 8 * align_to x al"
proof -
  have "unat (v mod b) = (8 * x) mod (8 * al)" by (simp add: unat_mod v b)
  then have m: "unat (v mod b) = 8 * (x mod al)" by (simp only: mult_mod_right)
  have b0: "b \<noteq> 0" using b by auto
  show ?thesis
  proof (cases "x mod al = 0")
    case True
    then have "v mod b = 0" using m by (simp add: word_unat_eq_iff)
    then show ?thesis using True v b by (simp add: round_up_def align_to_eq)
  next
    case False
    then have "v mod b \<noteq> 0" using m by (metis mult_eq_0_iff unat_0 zero_neq_numeral)
    moreover have lt: "x mod al < al" using b by simp
    then have "unat (b - v mod b) = 8 * (al - x mod al)"
      using m b by (simp add: unat_sub word_le_nat_alt diff_mult_distrib2)
    moreover have "8 * x + 8 * (al - x mod al) < 2 ^ 64" using room by simp
    ultimately have "unat (round_up v b) = 8 * x + 8 * (al - x mod al)" using v b0
      by (simp add: round_up_def unat_add_size)
    then show ?thesis using False b lt by (simp add: align_to_eq)
  qed
qed

lemma prim_type_range: "prim_type c = Some (sz, al) \<Longrightarrow> 0 < al \<and> al \<le> 16 \<and> sz \<le> 16"
  by (auto simp: prim_type_def arith_types_def non_integer_types_def split: if_splits)

lemma unat_bits: "n \<le> 16 \<Longrightarrow> unat (of_nat (n * 8) :: size_t) = 8 * n"
  by (simp only: unat_of_nat) simp

definition flat :: "string \<Rightarrow> (string option \<times> enc) list" where
  "flat cs = map (\<lambda>c. (None, Prim c)) cs"

lemma flat_simps [simp]: "flat [] = []" "flat (c # cs) = (None, Prim c) # flat cs"
  by (simp_all add: flat_def)

lemma flat_size:
  assumes "\<forall>c \<in> set cs. prim_type c \<noteq> None" "unat s = 8 * x" "8 * (x + 32 * length cs) < 2 ^ 64"
  shows "unat (fold (\<lambda>f. enc_size (snd f)) (flat cs) s) = 8 * abi_end (map (the \<circ> prim_type) cs) x \<and>
         abi_end (map (the \<circ> prim_type) cs) x \<le> x + 32 * length cs"
  using assms
proof (induction cs arbitrary: s x)
  case Nil
  then show ?case by (simp add: abi_end_def)
next
  case (Cons c cs)
  then obtain sz al where c: "prim_type c = Some (sz, al)" by auto
  note rg = prim_type_range [OF c]
  let ?x = "align_to x al + sz"
  have le: "?x \<le> x + 32" using align_to_le [of al x] rg by linarith
  have room: "8 * (x + al) < 2 ^ 64" using Cons.prems(3) rg by simp
  have r: "unat (round_up s (of_nat (al * 8))) = 8 * align_to x al"
    using unat_round_up [OF Cons.prems(2) _ _ room] rg unat_bits [of al] by simp
  have "8 * align_to x al + 8 * sz < 2 ^ 64" using le Cons.prems(3) by simp
  then have u: "unat (enc_size (Prim c) s) = 8 * ?x"
    using r unat_bits [of sz] rg
    by (simp add: c prim_align_def prim_size_def unat_add_size add_mult_distrib2)
  have "8 * (?x + 32 * length cs) < 2 ^ 64" using le Cons.prems(3) by simp
  from Cons.IH [OF _ u this] Cons.prems(1) le show ?case by (simp add: abi_end_def c)
qed

lemma flat_align:
  assumes "\<forall>c \<in> set cs. prim_type c \<noteq> None" "unat a = 8 * x"
  shows "unat (fold (\<lambda>f. enc_align (snd f)) (flat cs) a) =
     8 * fold (\<lambda>(sz, al). max al) (map (the \<circ> prim_type) cs) x"
  using assms
proof (induction cs arbitrary: a x)
  case (Cons c cs)
  then obtain sz al where c: "prim_type c = Some (sz, al)" by auto
  have "unat (max (prim_align c) a) = 8 * max al x"
    using unat_bits [of al] prim_type_range [OF c] Cons.prems(2)
    by (auto simp: c prim_align_def max_def word_le_nat_alt)
  from Cons.IH [OF _ this] Cons.prems(1) show ?case by (simp add: c)
qed simp

lemma flat_align_bounds:
  assumes "\<forall>c \<in> set cs. prim_type c \<noteq> None"
  shows "cs \<noteq> [] \<Longrightarrow> fold (\<lambda>(sz, al). max al) (map (the \<circ> prim_type) cs) x =
           fold (\<lambda>(sz, al). max al) (map (the \<circ> prim_type) cs) (max 1 x)"
    and "x \<le> 16 \<Longrightarrow> fold (\<lambda>(sz, al). max al) (map (the \<circ> prim_type) cs) x \<le> 16"
    and "x \<le> fold (\<lambda>(sz, al). max al) (map (the \<circ> prim_type) cs) x"
proof -
  have g: "(x \<le> 16 \<longrightarrow> fold (\<lambda>(sz, al). max al) (map (the \<circ> prim_type) cs) x \<le> 16) \<and>
      x \<le> fold (\<lambda>(sz, al). max al) (map (the \<circ> prim_type) cs) x" for x
    using assms
  proof (induction cs arbitrary: x)
    case (Cons c cs)
    then obtain sz al where c: "prim_type c = Some (sz, al)" by auto
    show ?case using Cons.IH [of "max al x"] Cons.prems prim_type_range [OF c] by (auto simp: c)
  qed simp
  then show "x \<le> 16 \<Longrightarrow> fold (\<lambda>(sz, al). max al) (map (the \<circ> prim_type) cs) x \<le> 16"
    "x \<le> fold (\<lambda>(sz, al). max al) (map (the \<circ> prim_type) cs) x" by auto
  assume "cs \<noteq> []"
  then obtain c ds where cs: "cs = c # ds" by (cases cs) auto
  then obtain sz al where c: "prim_type c = Some (sz, al)" using assms by auto
  have "max al x = max al (max 1 x)" using prim_type_range [OF c] by (auto simp: max_def)
  then show "fold (\<lambda>(sz, al). max al) (map (the \<circ> prim_type) cs) x =
      fold (\<lambda>(sz, al). max al) (map (the \<circ> prim_type) cs) (max 1 x)" by (simp add: cs c)
qed



text \<open>
  Pointers and nested structures are not aligned before they are placed, so a structure
  that has one behind a smaller member is reported smaller than the ABI makes it: a character,
  a pointer and a character take 24 bytes, and so do a character and a structure of a character
  and a double, but \<open>objc_sizeof_type\<close> returns 16 for both.
\<close>

theorem encoding_pointer_member_misplaced:
  "objc_sizeof_type ''{S=c^vc}'' = Some 16 \<and> abi_struct_size [(1, 1), (8, 8), (1, 1)] = 24 \<and>
   objc_sizeof_type ''{S=c{T=cd}}'' = Some 16 \<and>
   abi_struct_size [(1, 1), (abi_struct_size [(1, 1), (8, 8)], 8)] = 24"
  by code_simp

end
