(* ===== verification/Objc_Hooks.thy ===== *)
theory Objc_Hooks
  imports Objc_Prelude
begin

text \<open>
  The runtime's event sink and mutation epoch of \<open>src/support/hooks.c\<close> (with
  \<open>objc/extensions/mosaic.h\<close>). The epoch is a sequence lock: a writer makes it odd on entry and
  even again on exit, single notifications add two, and the unload analysis of the loader reads
  it before and after its work. Function pointers and handles are 64-bit addresses, the null
  pointer is 0.

  The first part is the state and the operations; the second part splits the writer's
  operations into their atomic steps and lets any number of threads interleave them.
\<close>

unbundle bit_operations_syntax

datatype event_kind =
    EVENT_IMAGE_LOADED | EVENT_CLASS_REGISTERED | EVENT_CATEGORY_ATTACHED
  | EVENT_PROTOCOL_REGISTERED | EVENT_PROTOCOL_MERGED | EVENT_PROTOCOL_CONFLICT
  | EVENT_METHOD_ADDED | EVENT_METHOD_REPLACED | EVENT_METHOD_IMPLEMENTATION_CHANGED
  | EVENT_METHOD_IMPLEMENTATIONS_EXCHANGED | EVENT_CLASS_RELOADED | EVENT_CLASS_RELOAD_REJECTED
  | EVENT_IMAGE_RETIRED | EVENT_IMAGE_DETACHED

record runtime_event =
  ev_sequence :: uint64
  ev_kind :: event_kind
  ev_image :: "nat option"
  ev_cls :: "nat option"
  ev_protocol :: "nat option"
  ev_method :: "nat option"
  ev_other_method :: "nat option"
  ev_selector :: "string option"
  ev_old_implementation :: uintptr_t
  ev_new_implementation :: uintptr_t
  ev_name :: string
  ev_detail :: string

text \<open>An event as initialised by \<open>{0}\<close>; a null name or detail is the empty string.\<close>

definition blank_event :: "event_kind \<Rightarrow> runtime_event" where
  "blank_event k = \<lparr>ev_sequence = 0, ev_kind = k, ev_image = None, ev_cls = None,
                    ev_protocol = None, ev_method = None, ev_other_method = None,
                    ev_selector = None, ev_old_implementation = 0, ev_new_implementation = 0,
                    ev_name = [], ev_detail = []\<rparr>"

text \<open>The hook variables that the unload analysis counts, in the order of the code; the last one
  belongs to the exception personality function (\<open>src/exceptions/eh_personality.c\<close>).\<close>

record global_hooks =
  objc_lookup_class_hook :: uintptr_t
  objc_load_callback_hook :: uintptr_t
  objc_proxy_lookup_hook :: uintptr_t
  objc_msg_forward3_hook :: uintptr_t
  objc_msg_forward2_hook :: uintptr_t
  objc_class_for_boxing_foreign_exception_hook :: uintptr_t
  objc_selector_type_mismatch2_hook :: uintptr_t
  objc_selector_type_mismatch_hook :: uintptr_t
  objc_weak_load_hook :: uintptr_t
  objc_unexpected_exception :: uintptr_t

record hook_state =
  runtime_event_sink :: uintptr_t
  runtime_event_context :: uintptr_t
  runtime_event_sequence :: uint64
  runtime_mutation_epoch :: uint64
  runtime_mutation_writer_lock :: bool
  hook_vars :: global_hooks
  delivered :: "(runtime_event \<times> uintptr_t \<times> uintptr_t) list"

definition mosaic_objc_runtimeMutationEpoch :: "hook_state \<Rightarrow> uint64" where
  "mosaic_objc_runtimeMutationEpoch st = runtime_mutation_epoch st"

text \<open>\<open>None\<close>: the spin loop waits for the current writer.\<close>

definition mosaic_objc_beginRuntimeMutation :: "hook_state \<Rightarrow> hook_state option" where
  "mosaic_objc_beginRuntimeMutation st =
     (if runtime_mutation_writer_lock st then None
      else Some (st\<lparr>runtime_mutation_writer_lock := True,
                    runtime_mutation_epoch := runtime_mutation_epoch st + 1\<rparr>))"

definition mosaic_objc_endRuntimeMutation :: "hook_state \<Rightarrow> hook_state" where
  "mosaic_objc_endRuntimeMutation st =
     st\<lparr>runtime_mutation_epoch := runtime_mutation_epoch st + 1,
        runtime_mutation_writer_lock := False\<rparr>"

definition mosaic_objc_noteRuntimeMutation :: "hook_state \<Rightarrow> hook_state" where
  "mosaic_objc_noteRuntimeMutation st =
     st\<lparr>runtime_mutation_epoch := runtime_mutation_epoch st + 2\<rparr>"

definition mosaic_objc_runtimeSetEventSink ::
  "uintptr_t \<Rightarrow> uintptr_t \<Rightarrow> hook_state \<Rightarrow> hook_state option" where
  "mosaic_objc_runtimeSetEventSink sink context st =
     do {
       s1 \<leftarrow> mosaic_objc_beginRuntimeMutation st;
       let s2 = s1\<lparr>runtime_event_sink := 0\<rparr>;
       let s3 = s2\<lparr>runtime_event_context := context\<rparr>;
       let s4 = s3\<lparr>runtime_event_sink := sink\<rparr>;
       Some (mosaic_objc_endRuntimeMutation s4)
     }"

definition mosaic_objc_hookInRange :: "uintptr_t \<Rightarrow> uintptr_t \<Rightarrow> size_t \<Rightarrow> bool" where
  "mosaic_objc_hookInRange address base sz \<longleftrightarrow>
     \<not> (address = 0 \<or> sz = 0) \<and> address \<ge> base \<and> address - base < sz"

definition counted_hooks :: "hook_state \<Rightarrow> uintptr_t list" where
  "counted_hooks st =
     [runtime_event_sink st,
      objc_lookup_class_hook (hook_vars st), objc_load_callback_hook (hook_vars st),
      objc_proxy_lookup_hook (hook_vars st), objc_msg_forward3_hook (hook_vars st),
      objc_msg_forward2_hook (hook_vars st),
      objc_class_for_boxing_foreign_exception_hook (hook_vars st),
      objc_selector_type_mismatch2_hook (hook_vars st),
      objc_selector_type_mismatch_hook (hook_vars st), objc_weak_load_hook (hook_vars st)]"

definition objc2_countExceptionHookReferences :: "hook_state \<Rightarrow> uintptr_t \<Rightarrow> size_t \<Rightarrow> size_t" where
  "objc2_countExceptionHookReferences st base sz =
     (let address = objc_unexpected_exception (hook_vars st) in
      if address \<ge> base \<and> address - base < sz then 1 else 0)"

definition mosaic_objc_countGlobalHookReferences ::
  "hook_state \<Rightarrow> uintptr_t \<Rightarrow> size_t \<Rightarrow> size_t" where
  "mosaic_objc_countGlobalHookReferences st base sz =
     fold (\<lambda>hook count. if mosaic_objc_hookInRange hook base sz then count + 1 else count)
       (counted_hooks st) 0 + objc2_countExceptionHookReferences st base sz"

text \<open>The sink only records what it is given; it must not call back into the runtime.\<close>

definition mosaic_objc_emitRuntimeEvent :: "runtime_event \<Rightarrow> hook_state \<Rightarrow> hook_state" where
  "mosaic_objc_emitRuntimeEvent event st =
     (let s1 = mosaic_objc_noteRuntimeMutation st;
          sink = runtime_event_sink s1 in
      if sink = 0 then s1
      else
        let context = runtime_event_context s1;
            s2 = s1\<lparr>runtime_event_sequence := runtime_event_sequence s1 + 1\<rparr> in
        s2\<lparr>delivered := delivered s2 @
              [(event\<lparr>ev_sequence := runtime_event_sequence s2\<rparr>, sink, context)]\<rparr>)"

text \<open>Interleaved writers.\<close>

datatype writer_pc = Idle | Locked | Inside | Leaving

record epoch_state =
  ep_epoch :: uint64
  ep_lock :: bool
  ep_pc :: "nat \<Rightarrow> writer_pc"

definition epoch_init :: epoch_state where
  "epoch_init = \<lparr>ep_epoch = 0, ep_lock = False, ep_pc = (\<lambda>_. Idle)\<rparr>"

text \<open>One atomic instruction of some thread; the label is what it adds to the epoch.\<close>

inductive epoch_step :: "epoch_state \<Rightarrow> nat \<Rightarrow> epoch_state \<Rightarrow> bool" where
  acquire: "ep_pc s t = Idle \<Longrightarrow> \<not> ep_lock s \<Longrightarrow>
     epoch_step s 0 (s\<lparr>ep_lock := True, ep_pc := (ep_pc s)(t := Locked)\<rparr>)"
| spin: "ep_pc s t = Idle \<Longrightarrow> ep_lock s \<Longrightarrow> epoch_step s 0 s"
| enter: "ep_pc s t = Locked \<Longrightarrow>
     epoch_step s 1 (s\<lparr>ep_epoch := ep_epoch s + 1, ep_pc := (ep_pc s)(t := Inside)\<rparr>)"
| leave: "ep_pc s t = Inside \<Longrightarrow>
     epoch_step s 1 (s\<lparr>ep_epoch := ep_epoch s + 1, ep_pc := (ep_pc s)(t := Leaving)\<rparr>)"
| release: "ep_pc s t = Leaving \<Longrightarrow>
     epoch_step s 0 (s\<lparr>ep_lock := False, ep_pc := (ep_pc s)(t := Idle)\<rparr>)"
| notify: "epoch_step s 2 (s\<lparr>ep_epoch := ep_epoch s + 2\<rparr>)"

inductive epoch_run :: "epoch_state \<Rightarrow> nat \<Rightarrow> epoch_state \<Rightarrow> bool" where
  run_refl: "epoch_run s 0 s"
| run_step: "epoch_run s n s' \<Longrightarrow> epoch_step s' d s'' \<Longrightarrow> epoch_run s (n + d) s''"

definition epoch_inv :: "epoch_state \<Rightarrow> bool" where
  "epoch_inv s \<longleftrightarrow>
     (\<forall>t u. ep_pc s t \<noteq> Idle \<longrightarrow> ep_pc s u \<noteq> Idle \<longrightarrow> t = u) \<and>
     (ep_lock s \<longleftrightarrow> (\<exists>t. ep_pc s t \<noteq> Idle)) \<and>
     (odd (unat (ep_epoch s)) \<longleftrightarrow> (\<exists>t. ep_pc s t = Inside))"

inductive_cases epoch_stepE: "epoch_step s d s'"

lemma odd_word_add1: "odd (unat (x + 1 :: uint64)) \<longleftrightarrow> even (unat x)"
proof -
  have "unat (x + 1) = (unat x + 1) mod 2 ^ 64" by (simp add: unat_word_ariths)
  also have "odd \<dots> \<longleftrightarrow> odd (unat x + 1)" by (simp add: dvd_mod_iff)
  finally show ?thesis by simp
qed

lemma odd_word_add2: "odd (unat (x + 2 :: uint64)) \<longleftrightarrow> odd (unat x)"
  using odd_word_add1 [of "x + 1"] odd_word_add1 [of x] by (simp add: add.assoc) blast

lemma epoch_inv_init: "epoch_inv epoch_init"
  by (simp add: epoch_inv_def epoch_init_def)

lemma epoch_inv_step: "epoch_step s d s' \<Longrightarrow> epoch_inv s \<Longrightarrow> epoch_inv s'"
proof (induction rule: epoch_step.induct)
  case (enter s t)
  then show ?case unfolding epoch_inv_def by (auto simp: odd_word_add1) (metis writer_pc.distinct)+
next
  case (leave s t)
  then show ?case unfolding epoch_inv_def by (auto simp: odd_word_add1) (metis writer_pc.distinct)+
next
  case (acquire s t)
  then show ?case unfolding epoch_inv_def by auto
next
  case (release s t)
  then show ?case unfolding epoch_inv_def by (auto split: if_splits) (metis writer_pc.distinct)+
next
  case (notify s)
  then show ?case by (simp add: epoch_inv_def odd_word_add2)
qed

lemma epoch_inv_run: "epoch_run s n s' \<Longrightarrow> epoch_inv s \<Longrightarrow> epoch_inv s'"
  by (induction rule: epoch_run.induct) (auto intro: epoch_inv_step)

lemma epoch_step_adds: "epoch_step s d s' \<Longrightarrow> ep_epoch s' = ep_epoch s + of_nat d"
  by (erule epoch_stepE) auto

lemma epoch_run_adds: "epoch_run s n s' \<Longrightarrow> ep_epoch s' = ep_epoch s + of_nat n"
  by (induction rule: epoch_run.induct) (auto simp: epoch_step_adds add.assoc)

text \<open>The sequential operations are runs of the atomic steps.\<close>

definition seq_state :: "hook_state \<Rightarrow> nat \<Rightarrow> writer_pc \<Rightarrow> epoch_state" where
  "seq_state st t pc = \<lparr>ep_epoch = runtime_mutation_epoch st, ep_lock = runtime_mutation_writer_lock st,
                       ep_pc = (\<lambda>_. Idle)(t := pc)\<rparr>"

lemma run_one: "epoch_step s d s' \<Longrightarrow> epoch_run s d s'"
  using run_step [OF run_refl, of s d s'] by simp

lemma begin_refines:
  assumes "mosaic_objc_beginRuntimeMutation st = Some st'"
  shows "epoch_run (seq_state st t Idle) 1 (seq_state st' t Inside)"
proof -
  have l: "\<not> runtime_mutation_writer_lock st" using assms
    by (auto simp: mosaic_objc_beginRuntimeMutation_def split: if_splits)
  let ?s = "seq_state st t Idle"
  have "epoch_step ?s 0 (?s\<lparr>ep_lock := True, ep_pc := (ep_pc ?s)(t := Locked)\<rparr>)" (is "epoch_step _ _ ?s1")
    using l by (intro epoch_step.acquire) (auto simp: seq_state_def)
  moreover have "epoch_step ?s1 1 (?s1\<lparr>ep_epoch := ep_epoch ?s1 + 1, ep_pc := (ep_pc ?s1)(t := Inside)\<rparr>)"
    by (intro epoch_step.enter) simp
  ultimately have "epoch_run ?s (0 + 1) (?s1\<lparr>ep_epoch := ep_epoch ?s1 + 1, ep_pc := (ep_pc ?s1)(t := Inside)\<rparr>)"
    by (intro run_step) (rule run_one)
  moreover have "?s1\<lparr>ep_epoch := ep_epoch ?s1 + 1, ep_pc := (ep_pc ?s1)(t := Inside)\<rparr> = seq_state st' t Inside"
    using assms l by (auto simp: seq_state_def mosaic_objc_beginRuntimeMutation_def)
  ultimately show ?thesis by simp
qed

lemma end_refines:
  assumes "runtime_mutation_writer_lock st"
  shows "epoch_run (seq_state st t Inside) 1 (seq_state (mosaic_objc_endRuntimeMutation st) t Idle)"
proof -
  let ?s = "seq_state st t Inside"
  have "epoch_step ?s 1 (?s\<lparr>ep_epoch := ep_epoch ?s + 1, ep_pc := (ep_pc ?s)(t := Leaving)\<rparr>)"
    (is "epoch_step _ _ ?s1") by (intro epoch_step.leave) (simp add: seq_state_def)
  moreover have "epoch_step ?s1 0 (?s1\<lparr>ep_lock := False, ep_pc := (ep_pc ?s1)(t := Idle)\<rparr>)"
    by (intro epoch_step.release) simp
  ultimately have "epoch_run ?s (1 + 0) (?s1\<lparr>ep_lock := False, ep_pc := (ep_pc ?s1)(t := Idle)\<rparr>)"
    by (intro run_step) (rule run_one)
  moreover have "?s1\<lparr>ep_lock := False, ep_pc := (ep_pc ?s1)(t := Idle)\<rparr> =
      seq_state (mosaic_objc_endRuntimeMutation st) t Idle"
    by (auto simp: seq_state_def mosaic_objc_endRuntimeMutation_def)
  ultimately show ?thesis by simp
qed



text \<open>
  C14: the writers exclude each other: in every reachable state at most one thread is between
  \<open>beginRuntimeMutation\<close> and \<open>endRuntimeMutation\<close>, the lock byte is set exactly then, and the
  epoch is odd exactly while that thread is inside its critical section.
\<close>

theorem epoch_writers_exclusive:
  assumes "epoch_run epoch_init k s"
  shows "(\<forall>t u. ep_pc s t \<noteq> Idle \<longrightarrow> ep_pc s u \<noteq> Idle \<longrightarrow> t = u) \<and>
         (ep_lock s \<longleftrightarrow> (\<exists>t. ep_pc s t \<noteq> Idle)) \<and>
         (odd (unat (ep_epoch s)) \<longleftrightarrow> (\<exists>t. ep_pc s t = Inside))"
  using epoch_inv_run [OF assms epoch_inv_init] by (simp add: epoch_inv_def)

theorem epoch_writers_exclusive_witness:
  "\<exists>s. epoch_run epoch_init 1 s \<and> ep_pc s 3 = Inside \<and> (\<forall>u. ep_pc s u \<noteq> Idle \<longrightarrow> 3 = u)"
proof -
  let ?st = "\<lparr>runtime_event_sink = 0, runtime_event_context = 0, runtime_event_sequence = 0,
      runtime_mutation_epoch = 0, runtime_mutation_writer_lock = False, hook_vars = undefined, delivered = []\<rparr>"
  obtain st' where b: "mosaic_objc_beginRuntimeMutation ?st = Some st'"
    by (simp add: mosaic_objc_beginRuntimeMutation_def)
  have "seq_state ?st 3 Idle = epoch_init" by (auto simp: seq_state_def epoch_init_def)
  with begin_refines [OF b, of 3] have r: "epoch_run epoch_init 1 (seq_state st' 3 Inside)" by simp
  moreover have "ep_pc (seq_state st' 3 Inside) 3 = Inside" by (simp add: seq_state_def)
  ultimately show ?thesis using epoch_writers_exclusive [OF r] by (metis writer_pc.distinct(3))
qed

end
