(* ===== verification/Objc_Image.thy ===== *)
theory Objc_Image
  imports Objc_Hooks Objc_Allocation
begin

text \<open>
  The image registry of \<open>src/runtime/loader.c\<close>: registration, identity and address range of
  loaded images, their life cycle (active, retired, detached) and the unload analysis.

  An image handle is the position of its record in the list, \<open>None\<close> the null pointer (records
  are never freed, so a position identifies a record as its address does). Addresses are 64-bit
  words. What other parts of the runtime answer during an analysis (the class list, the method
  lists, counts of cached code pointers, the two epoch readings, the outcome of \<open>malloc\<close>) is
  the argument \<open>env\<close>.
\<close>

record objc_init =
  init_version :: uint64
  sel_begin :: uintptr_t
  sel_end :: uintptr_t
  cls_begin :: uintptr_t
  cls_end :: uintptr_t
  cls_ref_begin :: uintptr_t
  cls_ref_end :: uintptr_t
  cat_begin :: uintptr_t
  cat_end :: uintptr_t
  proto_begin :: uintptr_t
  proto_end :: uintptr_t
  proto_ref_begin :: uintptr_t
  proto_ref_end :: uintptr_t
  alias_begin :: uintptr_t
  alias_end :: uintptr_t
  strings_begin :: uintptr_t
  strings_end :: uintptr_t

definition zero_init :: objc_init where
  "zero_init =
     \<lparr>init_version = 0, sel_begin = 0, sel_end = 0, cls_begin = 0, cls_end = 0, cls_ref_begin = 0,
      cls_ref_end = 0, cat_begin = 0, cat_end = 0, proto_begin = 0, proto_end = 0,
      proto_ref_begin = 0, proto_ref_end = 0, alias_begin = 0, alias_end = 0, strings_begin = 0,
      strings_end = 0\<rparr>"

text \<open>Sizes of the metadata structures on 64-bit targets.\<close>

definition sizeof_Class :: size_t where "sizeof_Class = 8"
definition sizeof_objc_selector :: size_t where "sizeof_objc_selector = 16"
definition sizeof_objc_category :: size_t where "sizeof_objc_category = 56"
definition sizeof_objc_protocol :: size_t where "sizeof_objc_protocol = 88"
definition sizeof_objc_alias :: size_t where "sizeof_objc_alias = 16"
definition sizeof_nsstr :: size_t where "sizeof_nsstr = 32"

datatype image_state = IMAGE_ACTIVE | IMAGE_RETIRED | IMAGE_DETACHED

record image_record =
  img_init :: objc_init
  img_generation :: uint64
  img_identifier :: "string option"
  img_provider :: "string option"
  img_base_address :: uintptr_t
  img_mapped_size :: size_t
  img_state :: image_state

record loader_state =
  loaded_objc_images :: "image_record list"
  next_objc_image_generation :: uint64
  ld_hooks :: hook_state
  ld_memory :: "uintptr_t \<Rightarrow> uintptr_t"

definition new_image :: "objc_init \<Rightarrow> uint64 \<Rightarrow> image_record" where
  "new_image init gen =
     \<lparr>img_init = init, img_generation = gen, img_identifier = None, img_provider = None,
      img_base_address = 0, img_mapped_size = 0, img_state = IMAGE_ACTIVE\<rparr>"

text \<open>\<open>None\<close>: \<open>calloc\<close> failed and the code aborts.\<close>

definition register_loaded_objc_image ::
  "bool \<Rightarrow> objc_init \<Rightarrow> loader_state \<Rightarrow> (loader_state \<times> nat) option" where
  "register_loaded_objc_image calloc_ok init st =
     (if \<not> calloc_ok then None
      else Some (st\<lparr>loaded_objc_images :=
                      loaded_objc_images st @ [new_image init (next_objc_image_generation st)],
                    next_objc_image_generation := next_objc_image_generation st + 1\<rparr>,
                 length (loaded_objc_images st)))"

definition objc_image_range_count :: "uintptr_t \<Rightarrow> uintptr_t \<Rightarrow> size_t \<Rightarrow> size_t" where
  "objc_image_range_count start stop itemSize =
     (if start = 0 \<or> stop = 0 \<or> itemSize = 0 then 0
      else if stop < start then 0
      else let bytes = stop - start in
           if bytes mod itemSize = 0 then bytes div itemSize else 0)"

text \<open>The result and the new value of \<open>*total\<close>.\<close>

definition objc_image_accumulate_range_count ::
  "uintptr_t \<Rightarrow> uintptr_t \<Rightarrow> size_t \<Rightarrow> size_t \<Rightarrow> bool \<times> size_t" where
  "objc_image_accumulate_range_count start stop itemSize sofar =
     (if itemSize = 0 then (False, sofar)
      else if start = 0 \<or> stop = 0 then (start = stop, sofar)
      else if stop < start then (False, sofar)
      else let bytes = stop - start in
           if bytes mod itemSize \<noteq> 0 then (False, sofar)
           else let count = bytes div itemSize in
                if sofar > SIZE_MAX - count then (False, sofar)
                else (True, sofar + count))"

definition objc_image_is_registered :: "loader_state \<Rightarrow> nat \<Rightarrow> bool" where
  "objc_image_is_registered st handle = list_ex (\<lambda>candidate. candidate = handle) [0..<length (loaded_objc_images st)]"

definition objc_image_contains_address :: "image_record \<Rightarrow> uintptr_t \<Rightarrow> bool" where
  "objc_image_contains_address handle address =
     (if img_base_address handle = 0 \<or> img_mapped_size handle = 0 then False
      else address \<ge> img_base_address handle \<and>
           address - img_base_address handle < img_mapped_size handle)"

definition get_image :: "loader_state \<Rightarrow> nat option \<Rightarrow> image_record option" where
  "get_image st handle =
     (case handle of
        None \<Rightarrow> None
      | Some i \<Rightarrow> if objc_image_is_registered st i then Some (loaded_objc_images st ! i) else None)"

definition set_image :: "loader_state \<Rightarrow> nat \<Rightarrow> image_record \<Rightarrow> loader_state" where
  "set_image st i img = st\<lparr>loaded_objc_images := (loaded_objc_images st)[i := img]\<rparr>"

text \<open>The list and \<open>*outCount\<close>; \<open>None\<close> is a null list.\<close>

definition mosaic_objc_copyImageList :: "bool \<Rightarrow> loader_state \<Rightarrow> nat list option \<times> size_t" where
  "mosaic_objc_copyImageList malloc_ok st =
     (let count = length (loaded_objc_images st) in
      if count \<ge> 2 ^ 64 then (None, 0)
      else if count = 0 then (None, 0)
      else if of_nat count > SIZE_MAX div 8 then (None, 0)
      else if \<not> malloc_ok then (None, 0)
      else (Some [0..<count], of_nat count))"

record image_info =
  info_generation :: uint64
  info_identifier :: "string option"
  info_provider :: "string option"
  info_base_address :: uintptr_t
  info_class_count :: size_t
  info_class_reference_count :: size_t
  info_category_count :: size_t
  info_protocol_count :: size_t

definition mosaic_objc_imageGetInfo :: "loader_state \<Rightarrow> nat option \<Rightarrow> image_info option" where
  "mosaic_objc_imageGetInfo st handle =
     do {
       img \<leftarrow> get_image st handle;
       let init = img_init img;
       Some \<lparr>info_generation = img_generation img,
             info_identifier = img_identifier img,
             info_provider = img_provider img,
             info_base_address = img_base_address img,
             info_class_count = objc_image_range_count (cls_begin init) (cls_end init) sizeof_Class,
             info_class_reference_count =
               objc_image_range_count (cls_ref_begin init) (cls_ref_end init) sizeof_Class,
             info_category_count =
               objc_image_range_count (cat_begin init) (cat_end init) sizeof_objc_category,
             info_protocol_count =
               objc_image_range_count (proto_begin init) (proto_end init) sizeof_objc_protocol\<rparr>
     }"

definition conflicts :: "'a option \<Rightarrow> 'a option \<Rightarrow> bool" where
  "conflicts new old = (case (new, old) of (Some a, Some b) \<Rightarrow> a \<noteq> b | _ \<Rightarrow> False)"

definition fill_identity ::
  "string option \<Rightarrow> string option \<Rightarrow> uintptr_t \<Rightarrow> image_record \<Rightarrow> image_record" where
  "fill_identity identifier provider baseAddress img =
     img\<lparr>img_identifier := (if img_identifier img = None then identifier else img_identifier img),
         img_provider := (if img_provider img = None then provider else img_provider img),
         img_base_address := (if baseAddress \<noteq> 0 \<and> img_base_address img = 0
                              then baseAddress else img_base_address img)\<rparr>"

text \<open>The two Booleans are the outcomes of copying the identifier and the provider.\<close>

definition mosaic_objc_imageSetIdentity ::
  "bool \<Rightarrow> bool \<Rightarrow> loader_state \<Rightarrow> nat option \<Rightarrow> string option \<Rightarrow> string option \<Rightarrow> uintptr_t \<Rightarrow>
   loader_state \<times> bool" where
  "mosaic_objc_imageSetIdentity id_ok prov_ok st handle identifier provider baseAddress =
     (case (handle, get_image st handle) of
        (Some i, Some img) \<Rightarrow>
          if conflicts identifier (img_identifier img) then (st, False)
          else if conflicts provider (img_provider img) then (st, False)
          else if baseAddress \<noteq> 0 \<and> img_base_address img \<noteq> 0 \<and> baseAddress \<noteq> img_base_address img
          then (st, False)
          else if identifier \<noteq> None \<and> img_identifier img = None \<and> \<not> id_ok then (st, False)
          else if provider \<noteq> None \<and> img_provider img = None \<and> \<not> prov_ok then (st, False)
          else (set_image st i (fill_identity identifier provider baseAddress img), True)
      | _ \<Rightarrow> (st, False))"

definition mosaic_objc_imageSetAddressRange ::
  "loader_state \<Rightarrow> nat option \<Rightarrow> uintptr_t \<Rightarrow> size_t \<Rightarrow> loader_state \<times> bool" where
  "mosaic_objc_imageSetAddressRange st handle baseAddress mappedSize =
     (if handle = None \<or> baseAddress = 0 \<or> mappedSize = 0 then (st, False)
      else if mappedSize > SIZE_MAX - baseAddress then (st, False)
      else case (handle, get_image st handle) of
        (Some i, Some img) \<Rightarrow>
          if img_base_address img \<noteq> 0 \<and> img_base_address img \<noteq> baseAddress then (st, False)
          else if img_mapped_size img \<noteq> 0 \<and> img_mapped_size img \<noteq> mappedSize then (st, False)
          else (set_image st i (img\<lparr>img_base_address := baseAddress, img_mapped_size := mappedSize\<rparr>), True)
      | _ \<Rightarrow> (st, False))"

definition emit_image_event :: "event_kind \<Rightarrow> nat \<Rightarrow> string \<Rightarrow> loader_state \<Rightarrow> loader_state" where
  "emit_image_event k i detail st =
     st\<lparr>ld_hooks := mosaic_objc_emitRuntimeEvent
          ((blank_event k)\<lparr>ev_image := Some i, ev_detail := detail\<rparr>) (ld_hooks st)\<rparr>"

definition mosaic_objc_imageRetire :: "loader_state \<Rightarrow> nat option \<Rightarrow> loader_state \<times> bool" where
  "mosaic_objc_imageRetire st handle =
     (case (handle, get_image st handle) of
        (Some i, Some img) \<Rightarrow>
          if img_state img = IMAGE_RETIRED \<or> img_state img = IMAGE_DETACHED then (st, True)
          else (emit_image_event EVENT_IMAGE_RETIRED i ''retired''
                  (set_image st i (img\<lparr>img_state := IMAGE_RETIRED\<rparr>)), True)
      | _ \<Rightarrow> (st, False))"

definition BLOCKER_NOT_RETIRED :: uint32 where "BLOCKER_NOT_RETIRED = 0x1"
definition BLOCKER_ADDRESS_RANGE_UNKNOWN :: uint32 where "BLOCKER_ADDRESS_RANGE_UNKNOWN = 0x2"
definition BLOCKER_CLASS_METADATA :: uint32 where "BLOCKER_CLASS_METADATA = 0x4"
definition BLOCKER_PROTOCOL_METADATA :: uint32 where "BLOCKER_PROTOCOL_METADATA = 0x8"
definition BLOCKER_CATEGORY_METADATA :: uint32 where "BLOCKER_CATEGORY_METADATA = 0x10"
definition BLOCKER_EXECUTABLE_CODE :: uint32 where "BLOCKER_EXECUTABLE_CODE = 0x20"
definition BLOCKER_ANALYSIS_INCOMPLETE :: uint32 where "BLOCKER_ANALYSIS_INCOMPLETE = 0x40"
definition BLOCKER_LOADER_METADATA :: uint32 where "BLOCKER_LOADER_METADATA = 0x80"
definition BLOCKER_GLOBAL_HOOK_CODE :: uint32 where "BLOCKER_GLOBAL_HOOK_CODE = 0x100"
definition BLOCKER_TRACING_HOOK_CODE :: uint32 where "BLOCKER_TRACING_HOOK_CODE = 0x200"
definition BLOCKER_NOT_DETACHED :: uint32 where "BLOCKER_NOT_DETACHED = 0x400"
definition BLOCKER_HOST_NOT_QUIESCENT :: uint32 where "BLOCKER_HOST_NOT_QUIESCENT = 0x800"
definition BLOCKER_STALE_EPOCH :: uint32 where "BLOCKER_STALE_EPOCH = 0x1000"
definition BLOCKER_RUNTIME_CACHE_CODE :: uint32 where "BLOCKER_RUNTIME_CACHE_CODE = 0x2000"
definition BLOCKER_BLOCK_TRAMPOLINE :: uint32 where "BLOCKER_BLOCK_TRAMPOLINE = 0x4000"

record unload_report =
  rp_state :: image_state
  rp_blockers :: uint32
  rp_mutation_epoch :: uint64
  rp_mapped_size :: size_t
  rp_class_metadata_count :: size_t
  rp_protocol_metadata_count :: size_t
  rp_category_metadata_count :: size_t
  rp_loader_metadata_count :: size_t
  rp_executable_reference_count :: size_t
  rp_global_hook_reference_count :: size_t
  rp_tracing_hook_reference_count :: size_t
  rp_runtime_cache_reference_count :: size_t
  rp_block_trampoline_reference_count :: size_t

definition zero_report :: unload_report where
  "zero_report =
     \<lparr>rp_state = IMAGE_ACTIVE, rp_blockers = 0, rp_mutation_epoch = 0, rp_mapped_size = 0,
      rp_class_metadata_count = 0, rp_protocol_metadata_count = 0, rp_category_metadata_count = 0,
      rp_loader_metadata_count = 0, rp_executable_reference_count = 0,
      rp_global_hook_reference_count = 0, rp_tracing_hook_reference_count = 0,
      rp_runtime_cache_reference_count = 0, rp_block_trampoline_reference_count = 0\<rparr>"

definition block_if :: "bool \<Rightarrow> uint32 \<Rightarrow> unload_report \<Rightarrow> unload_report" where
  "block_if c b r = (if c then r\<lparr>rp_blockers := rp_blockers r OR b\<rparr> else r)"

text \<open>
  A class as the code scan sees it: the result of \<open>class_copyMethodList\<close> as implementation
  addresses (\<open>None\<close> is null), whether the class has a method list, and the cached C++ methods.
\<close>

record class_code =
  cc_copied :: "uintptr_t list option"
  cc_has_methods :: bool
  cc_cxx_construct :: uintptr_t
  cc_cxx_destruct :: uintptr_t

definition count_executable :: "image_record \<Rightarrow> unload_report \<Rightarrow> uintptr_t \<Rightarrow> unload_report" where
  "count_executable handle r imp =
     (if imp \<noteq> 0 \<and> objc_image_contains_address handle imp then
        (if rp_executable_reference_count r = SIZE_MAX
         then block_if True BLOCKER_ANALYSIS_INCOMPLETE r
         else r\<lparr>rp_executable_reference_count := rp_executable_reference_count r + 1\<rparr>)
      else r)"

definition count_cached :: "image_record \<Rightarrow> unload_report \<Rightarrow> uintptr_t \<Rightarrow> unload_report" where
  "count_cached handle r imp =
     (if imp \<noteq> 0 \<and> objc_image_contains_address handle imp then
        (if rp_runtime_cache_reference_count r = SIZE_MAX
         then block_if True BLOCKER_ANALYSIS_INCOMPLETE r
         else r\<lparr>rp_runtime_cache_reference_count := rp_runtime_cache_reference_count r + 1\<rparr>)
      else r)"

definition objc_image_scan_method_code ::
  "image_record \<Rightarrow> class_code option \<Rightarrow> unload_report \<Rightarrow> unload_report" where
  "objc_image_scan_method_code handle cls r =
     (case cls of
        None \<Rightarrow> r
      | Some c \<Rightarrow>
          if cc_copied c = None \<and> cc_has_methods c then block_if True BLOCKER_ANALYSIS_INCOMPLETE r
          else
            let r1 = foldl (count_executable handle) r (case cc_copied c of None \<Rightarrow> [] | Some ms \<Rightarrow> ms) in
            foldl (count_cached handle) r1 [cc_cxx_construct c, cc_cxx_destruct c])"

record unload_env =
  env_class_count :: int
  env_malloc_ok :: bool
  env_classes :: "(class_code \<times> class_code option) list"
  env_tracing_hooks :: "uintptr_t \<Rightarrow> size_t \<Rightarrow> size_t"
  env_arc_cache :: "uintptr_t \<Rightarrow> size_t \<Rightarrow> size_t"
  env_block_trampolines :: "uintptr_t \<Rightarrow> size_t \<Rightarrow> size_t"
  env_epoch_before :: uint64
  env_epoch_after :: uint64

text \<open>The eight metadata ranges, in the order of the code.\<close>

definition count_metadata :: "objc_init \<Rightarrow> unload_report \<Rightarrow> bool \<times> unload_report" where
  "count_metadata init r =
     (let (b1, cls) = objc_image_accumulate_range_count (cls_begin init) (cls_end init)
                        sizeof_Class (rp_class_metadata_count r);
          (b2, proto) = objc_image_accumulate_range_count (proto_begin init) (proto_end init)
                        sizeof_objc_protocol (rp_protocol_metadata_count r);
          (b3, cat) = objc_image_accumulate_range_count (cat_begin init) (cat_end init)
                        sizeof_objc_category (rp_category_metadata_count r);
          (b4, l1) = objc_image_accumulate_range_count (sel_begin init) (sel_end init)
                        sizeof_objc_selector (rp_loader_metadata_count r);
          (b5, l2) = objc_image_accumulate_range_count (cls_ref_begin init) (cls_ref_end init)
                        sizeof_Class l1;
          (b6, l3) = objc_image_accumulate_range_count (proto_ref_begin init) (proto_ref_end init)
                        sizeof_Class l2;
          (b7, l4) = objc_image_accumulate_range_count (alias_begin init) (alias_end init)
                        sizeof_objc_alias l3;
          (b8, l5) = objc_image_accumulate_range_count (strings_begin init) (strings_end init)
                        sizeof_nsstr l4
      in (b1 \<and> b2 \<and> b3 \<and> b4 \<and> b5 \<and> b6 \<and> b7 \<and> b8,
          r\<lparr>rp_class_metadata_count := cls, rp_protocol_metadata_count := proto,
            rp_category_metadata_count := cat, rp_loader_metadata_count := l5\<rparr>))"

definition scan_classes :: "unload_env \<Rightarrow> image_record \<Rightarrow> unload_report \<Rightarrow> unload_report" where
  "scan_classes env img r =
     (if env_class_count env < 0 then block_if True BLOCKER_ANALYSIS_INCOMPLETE r
      else if env_class_count env > 0 then
        (case objc2_size_multiply True (of_int (env_class_count env)) sizeof_Class of
           None \<Rightarrow> block_if True BLOCKER_ANALYSIS_INCOMPLETE r
         | Some classBytes \<Rightarrow>
             if \<not> env_malloc_ok env then block_if True BLOCKER_ANALYSIS_INCOMPLETE r
             else foldl (\<lambda>q (c, isa). objc_image_scan_method_code img isa
                            (objc_image_scan_method_code img (Some c) q)) r (env_classes env))
      else r)"

definition range_known :: "image_record \<Rightarrow> bool" where
  "range_known img \<longleftrightarrow> \<not> (img_base_address img = 0 \<or> img_mapped_size img = 0)"

definition count_runtime_references ::
  "unload_env \<Rightarrow> hook_state \<Rightarrow> image_record \<Rightarrow> unload_report \<Rightarrow> unload_report" where
  "count_runtime_references env hooks img r =
     (if range_known img then
        let base = img_base_address img; sz = img_mapped_size img;
            r1 = r\<lparr>rp_global_hook_reference_count :=
                     mosaic_objc_countGlobalHookReferences hooks base sz\<rparr>;
            r2 = r1\<lparr>rp_tracing_hook_reference_count := env_tracing_hooks env base sz\<rparr>;
            arcCacheReferences = env_arc_cache env base sz;
            r3 = r2\<lparr>rp_block_trampoline_reference_count := env_block_trampolines env base sz\<rparr> in
        if arcCacheReferences > SIZE_MAX - rp_runtime_cache_reference_count r3 then
          block_if True BLOCKER_ANALYSIS_INCOMPLETE (r3\<lparr>rp_runtime_cache_reference_count := SIZE_MAX\<rparr>)
        else r3\<lparr>rp_runtime_cache_reference_count :=
                  rp_runtime_cache_reference_count r3 + arcCacheReferences\<rparr>
      else r)"

definition unload_analysis :: "unload_env \<Rightarrow> hook_state \<Rightarrow> image_record \<Rightarrow> unload_report" where
  "unload_analysis env hooks img =
     (let r0 = zero_report\<lparr>rp_state := img_state img, rp_mapped_size := img_mapped_size img\<rparr>;
          r1 = block_if (img_state img = IMAGE_ACTIVE) BLOCKER_NOT_RETIRED r0;
          r2 = block_if (\<not> range_known img) BLOCKER_ADDRESS_RANGE_UNKNOWN r1;
          (metadataComplete, r3) = count_metadata (img_init img) r2;
          r4 = block_if (\<not> metadataComplete) BLOCKER_ANALYSIS_INCOMPLETE r3;
          r5 = block_if (rp_class_metadata_count r4 \<noteq> 0) BLOCKER_CLASS_METADATA r4;
          r6 = block_if (rp_protocol_metadata_count r5 \<noteq> 0) BLOCKER_PROTOCOL_METADATA r5;
          r7 = block_if (rp_category_metadata_count r6 \<noteq> 0) BLOCKER_CATEGORY_METADATA r6;
          r8 = block_if (rp_loader_metadata_count r7 \<noteq> 0) BLOCKER_LOADER_METADATA r7;
          r9 = (if range_known img then scan_classes env img r8 else r8);
          r10 = block_if (rp_executable_reference_count r9 \<noteq> 0) BLOCKER_EXECUTABLE_CODE r9;
          r11 = count_runtime_references env hooks img r10;
          r12 = block_if (rp_global_hook_reference_count r11 \<noteq> 0) BLOCKER_GLOBAL_HOOK_CODE r11;
          r13 = block_if (rp_tracing_hook_reference_count r12 \<noteq> 0) BLOCKER_TRACING_HOOK_CODE r12;
          r14 = block_if (rp_runtime_cache_reference_count r13 \<noteq> 0) BLOCKER_RUNTIME_CACHE_CODE r13;
          r15 = block_if (rp_block_trampoline_reference_count r14 \<noteq> 0) BLOCKER_BLOCK_TRAMPOLINE r14;
          r16 = r15\<lparr>rp_mutation_epoch := env_epoch_after env\<rparr>
      in block_if ((env_epoch_before env OR env_epoch_after env) AND 1 \<noteq> 0 \<or>
                   env_epoch_before env \<noteq> env_epoch_after env) BLOCKER_ANALYSIS_INCOMPLETE r16)"

definition mosaic_objc_imageGetUnloadReport ::
  "unload_env \<Rightarrow> loader_state \<Rightarrow> nat option \<Rightarrow> unload_report option" where
  "mosaic_objc_imageGetUnloadReport env st handle =
     map_option (unload_analysis env (ld_hooks st)) (get_image st handle)"

text \<open>
  Detaching reads a report without keeping the runtime lock, then takes the lock and checks
  again: \<open>st\<close> is the state at the report, \<open>st'\<close> the state when the lock is taken.
\<close>

definition detach_commit :: "loader_state \<Rightarrow> nat \<Rightarrow> uint64 \<Rightarrow> loader_state \<times> bool" where
  "detach_commit st i expectedMutationEpoch =
     (case get_image st (Some i) of
        None \<Rightarrow> (st, False)
      | Some img \<Rightarrow>
          if img_state img \<noteq> IMAGE_RETIRED \<or>
             mosaic_objc_runtimeMutationEpoch (ld_hooks st) \<noteq> expectedMutationEpoch then (st, False)
          else (emit_image_event EVENT_IMAGE_DETACHED i ''detached''
                  (set_image st i (img\<lparr>img_init := zero_init, img_state := IMAGE_DETACHED\<rparr>)), True))"

definition mosaic_objc_imageDetach ::
  "unload_env \<Rightarrow> loader_state \<Rightarrow> loader_state \<Rightarrow> nat option \<Rightarrow> uint64 \<Rightarrow> loader_state \<times> bool" where
  "mosaic_objc_imageDetach env st st' handle expectedMutationEpoch =
     (case handle of
        None \<Rightarrow> (st', False)
      | Some i \<Rightarrow>
          if expectedMutationEpoch = 0 then (st', False)
          else case mosaic_objc_imageGetUnloadReport env st handle of
            None \<Rightarrow> (st', False)
          | Some report \<Rightarrow>
              if rp_state report = IMAGE_DETACHED then
                (st', rp_blockers report = 0 \<and> rp_mutation_epoch report = expectedMutationEpoch)
              else if rp_state report \<noteq> IMAGE_RETIRED \<or> rp_blockers report \<noteq> 0 \<or>
                      rp_mutation_epoch report \<noteq> expectedMutationEpoch then (st', False)
              else detach_commit st' i expectedMutationEpoch)"

definition mosaic_objc_imageIsUnloadCandidate ::
  "unload_env \<Rightarrow> loader_state \<Rightarrow> nat option \<Rightarrow> unload_report option \<times> bool" where
  "mosaic_objc_imageIsUnloadCandidate env st handle =
     (case mosaic_objc_imageGetUnloadReport env st handle of
        None \<Rightarrow> (None, False)
      | Some report \<Rightarrow> (Some report, rp_blockers report = 0))"

definition mosaic_objc_imageIsPhysicalUnloadReady ::
  "unload_env \<Rightarrow> loader_state \<Rightarrow> nat option \<Rightarrow> uint64 \<Rightarrow> bool \<Rightarrow> unload_report option \<times> bool" where
  "mosaic_objc_imageIsPhysicalUnloadReady env st handle expectedMutationEpoch hostQuiescent =
     (case mosaic_objc_imageGetUnloadReport env st handle of
        None \<Rightarrow> (None, False)
      | Some r0 \<Rightarrow>
          let r1 = block_if (rp_state r0 \<noteq> IMAGE_DETACHED) BLOCKER_NOT_DETACHED r0;
              r2 = block_if (\<not> hostQuiescent) BLOCKER_HOST_NOT_QUIESCENT r1;
              r3 = block_if (expectedMutationEpoch = 0 \<or> rp_mutation_epoch r2 \<noteq> expectedMutationEpoch)
                     BLOCKER_STALE_EPOCH r2
          in (Some r3, rp_blockers r3 = 0))"

definition range_elements :: "uintptr_t \<Rightarrow> uintptr_t \<Rightarrow> size_t \<Rightarrow> uintptr_t list" where
  "range_elements start stop sz =
     map (\<lambda>k. start + of_nat k * sz) [0..<unat (objc_image_range_count start stop sz)]"

text \<open>The first image, in load order, one of whose class slots holds the class.\<close>

definition mosaic_objc_imageForClass :: "loader_state \<Rightarrow> uintptr_t \<Rightarrow> nat option" where
  "mosaic_objc_imageForClass st cls =
     (if cls = 0 then None
      else find (\<lambda>i. let init = img_init (loaded_objc_images st ! i) in
                     list_ex (\<lambda>slot. ld_memory st slot = cls)
                       (range_elements (cls_begin init) (cls_end init) sizeof_Class))
             [0..<length (loaded_objc_images st)])"

definition mosaic_objc_imageForProtocol :: "loader_state \<Rightarrow> uintptr_t \<Rightarrow> nat option" where
  "mosaic_objc_imageForProtocol st protocol =
     (if protocol = 0 then None
      else find (\<lambda>i. let init = img_init (loaded_objc_images st ! i) in
                     list_ex (\<lambda>p. p = protocol)
                       (range_elements (proto_begin init) (proto_end init) sizeof_objc_protocol))
             [0..<length (loaded_objc_images st)])"

definition mosaic_objc_imageGetClass :: "loader_state \<Rightarrow> nat option \<Rightarrow> size_t \<Rightarrow> uintptr_t" where
  "mosaic_objc_imageGetClass st handle index =
     (case get_image st handle of
        None \<Rightarrow> 0
      | Some img \<Rightarrow>
          if index < objc_image_range_count (cls_begin (img_init img)) (cls_end (img_init img)) sizeof_Class
          then ld_memory st (cls_begin (img_init img) + index * sizeof_Class) else 0)"

definition mosaic_objc_imageGetProtocol :: "loader_state \<Rightarrow> nat option \<Rightarrow> size_t \<Rightarrow> uintptr_t" where
  "mosaic_objc_imageGetProtocol st handle index =
     (case get_image st handle of
        None \<Rightarrow> 0
      | Some img \<Rightarrow>
          if index < objc_image_range_count (proto_begin (img_init img)) (proto_end (img_init img))
                       sizeof_objc_protocol
          then proto_begin (img_init img) + index * sizeof_objc_protocol else 0)"

definition mosaic_objc_imageGetCategoryName :: "loader_state \<Rightarrow> nat option \<Rightarrow> size_t \<Rightarrow> uintptr_t" where
  "mosaic_objc_imageGetCategoryName st handle index =
     (case get_image st handle of
        None \<Rightarrow> 0
      | Some img \<Rightarrow>
          if index < objc_image_range_count (cat_begin (img_init img)) (cat_end (img_init img))
                       sizeof_objc_category
          then ld_memory st (cat_begin (img_init img) + index * sizeof_objc_category) else 0)"

definition mosaic_objc_imageGetCategoryClassName :: "loader_state \<Rightarrow> nat option \<Rightarrow> size_t \<Rightarrow> uintptr_t" where
  "mosaic_objc_imageGetCategoryClassName st handle index =
     (case get_image st handle of
        None \<Rightarrow> 0
      | Some img \<Rightarrow>
          if index < objc_image_range_count (cat_begin (img_init img)) (cat_end (img_init img))
                       sizeof_objc_category
          then ld_memory st (cat_begin (img_init img) + index * sizeof_objc_category + 8) else 0)"

end
