(* ===== verification/Objc_Image_Thms.thy ===== *)
theory Objc_Image_Thms
  imports Objc_Image
begin

text \<open>
  Correctness of the image registry of \<open>src/runtime/loader.c\<close>. The unload analysis is exact: a
  report without blockers is equivalent to a plain condition on the image and on the rest of the
  runtime. The life cycle is a step relation over the exported operations; the invariants are
  proved by rule induction.
\<close>

section \<open>The unload report\<close>

text \<open>What a report without blockers promises, without counters and bit masks.\<close>

definition in_image :: "image_record \<Rightarrow> uintptr_t \<Rightarrow> bool" where
  "in_image img a \<longleftrightarrow> a \<noteq> 0 \<and> objc_image_contains_address img a"

definition no_metadata :: "objc_init \<Rightarrow> bool" where
  "no_metadata init \<longleftrightarrow>
     cls_begin init = cls_end init \<and> proto_begin init = proto_end init \<and>
     cat_begin init = cat_end init \<and> sel_begin init = sel_end init \<and>
     cls_ref_begin init = cls_ref_end init \<and> proto_ref_begin init = proto_ref_end init \<and>
     alias_begin init = alias_end init \<and> strings_begin init = strings_end init"

definition class_free :: "image_record \<Rightarrow> class_code \<Rightarrow> bool" where
  "class_free img c \<longleftrightarrow>
     (case cc_copied c of None \<Rightarrow> \<not> cc_has_methods c | Some ms \<Rightarrow> list_all (\<lambda>a. \<not> in_image img a) ms) \<and>
     \<not> in_image img (cc_cxx_construct c) \<and> \<not> in_image img (cc_cxx_destruct c)"

definition classes_free :: "unload_env \<Rightarrow> image_record \<Rightarrow> bool" where
  "classes_free env img \<longleftrightarrow>
     env_class_count env = 0 \<or>
     env_class_count env > 0 \<and> env_malloc_ok env \<and>
     unat (of_int (env_class_count env) :: size_t) * 8 < 2 ^ 64 \<and>
     list_all (\<lambda>(c, isa). class_free img c \<and> (case isa of None \<Rightarrow> True | Some m \<Rightarrow> class_free img m))
       (env_classes env)"

definition hooks_free :: "hook_state \<Rightarrow> image_record \<Rightarrow> bool" where
  "hooks_free hooks img \<longleftrightarrow>
     list_all (\<lambda>a. \<not> in_image img a) (objc_unexpected_exception (hook_vars hooks) # counted_hooks hooks)"

definition unloadable :: "unload_env \<Rightarrow> hook_state \<Rightarrow> image_record \<Rightarrow> bool" where
  "unloadable env hooks img \<longleftrightarrow>
     img_state img \<noteq> IMAGE_ACTIVE \<and> img_base_address img \<noteq> 0 \<and> img_mapped_size img \<noteq> 0 \<and>
     no_metadata (img_init img) \<and> classes_free env img \<and> hooks_free hooks img \<and>
     env_tracing_hooks env (img_base_address img) (img_mapped_size img) = 0 \<and>
     env_arc_cache env (img_base_address img) (img_mapped_size img) = 0 \<and>
     env_block_trampolines env (img_base_address img) (img_mapped_size img) = 0 \<and>
     env_epoch_before env = env_epoch_after env \<and> even (env_epoch_after env)"

lemma blockers_block_if [simp]:
  "rp_blockers (block_if c b r) = 0 \<longleftrightarrow> rp_blockers r = 0 \<and> (c \<longrightarrow> b = 0)"
  by (simp add: block_if_def or_eq_0_iff)

lemma block_if_fields [simp]:
  "rp_state (block_if c b r) = rp_state r"
  "rp_mutation_epoch (block_if c b r) = rp_mutation_epoch r"
  "rp_class_metadata_count (block_if c b r) = rp_class_metadata_count r"
  "rp_protocol_metadata_count (block_if c b r) = rp_protocol_metadata_count r"
  "rp_category_metadata_count (block_if c b r) = rp_category_metadata_count r"
  "rp_loader_metadata_count (block_if c b r) = rp_loader_metadata_count r"
  "rp_executable_reference_count (block_if c b r) = rp_executable_reference_count r"
  "rp_global_hook_reference_count (block_if c b r) = rp_global_hook_reference_count r"
  "rp_tracing_hook_reference_count (block_if c b r) = rp_tracing_hook_reference_count r"
  "rp_runtime_cache_reference_count (block_if c b r) = rp_runtime_cache_reference_count r"
  "rp_block_trampoline_reference_count (block_if c b r) = rp_block_trampoline_reference_count r"
  by (simp_all add: block_if_def)

lemmas blocker_values =
  BLOCKER_NOT_RETIRED_def BLOCKER_ADDRESS_RANGE_UNKNOWN_def BLOCKER_CLASS_METADATA_def
  BLOCKER_PROTOCOL_METADATA_def BLOCKER_CATEGORY_METADATA_def BLOCKER_EXECUTABLE_CODE_def
  BLOCKER_ANALYSIS_INCOMPLETE_def BLOCKER_LOADER_METADATA_def BLOCKER_GLOBAL_HOOK_CODE_def
  BLOCKER_TRACING_HOOK_CODE_def BLOCKER_NOT_DETACHED_def BLOCKER_HOST_NOT_QUIESCENT_def
  BLOCKER_STALE_EPOCH_def BLOCKER_RUNTIME_CACHE_CODE_def BLOCKER_BLOCK_TRAMPOLINE_def

text \<open>A report in which nothing has been found so far.\<close>

definition clean :: "unload_report \<Rightarrow> bool" where
  "clean r \<longleftrightarrow> rp_blockers r = 0 \<and> rp_executable_reference_count r = 0 \<and>
     rp_runtime_cache_reference_count r = 0"

lemma succ_eq_0_iff: "c + 1 = 0 \<longleftrightarrow> c = SIZE_MAX" for c :: size_t
  by (simp add: SIZE_MAX_def add_eq_0_iff2)

lemma clean_count_executable: "clean (count_executable img r a) \<longleftrightarrow> clean r \<and> \<not> in_image img a"
  by (auto simp: clean_def count_executable_def in_image_def blocker_values succ_eq_0_iff SIZE_MAX_def)

lemma clean_count_cached: "clean (count_cached img r a) \<longleftrightarrow> clean r \<and> \<not> in_image img a"
  by (auto simp: clean_def count_cached_def in_image_def blocker_values succ_eq_0_iff SIZE_MAX_def)

lemma clean_foldl_executable:
  "clean (foldl (count_executable img) r ms) \<longleftrightarrow> clean r \<and> list_all (\<lambda>a. \<not> in_image img a) ms"
  by (induction ms arbitrary: r) (auto simp: clean_count_executable)

lemma clean_block: "clean (block_if True BLOCKER_ANALYSIS_INCOMPLETE r) \<longleftrightarrow> False"
  by (simp add: clean_def blocker_values)

lemma clean_scan_method_code:
  "clean (objc_image_scan_method_code img (Some c) r) \<longleftrightarrow> clean r \<and> class_free img c"
  by (cases "cc_copied c")
     (auto simp: objc_image_scan_method_code_def class_free_def clean_block clean_count_cached
        clean_foldl_executable)

lemma clean_scan_opt:
  "clean (objc_image_scan_method_code img isa r) \<longleftrightarrow>
     clean r \<and> (case isa of None \<Rightarrow> True | Some m \<Rightarrow> class_free img m)"
  by (cases isa) (simp_all add: clean_scan_method_code, simp add: objc_image_scan_method_code_def)

lemma clean_scan_list:
  "clean (foldl (\<lambda>q (c, isa). objc_image_scan_method_code img isa
            (objc_image_scan_method_code img (Some c) q)) r cs) \<longleftrightarrow>
   clean r \<and> list_all (\<lambda>(c, isa). class_free img c \<and>
            (case isa of None \<Rightarrow> True | Some m \<Rightarrow> class_free img m)) cs"
proof (induction cs arbitrary: r)
  case Nil
  then show ?case by simp
next
  case (Cons x cs)
  obtain c isa where "x = (c, isa)" by (cases x)
  then show ?case by (simp only: foldl_Cons Cons.IH list.pred_inject prod.case clean_scan_opt
      option.case conj_assoc)
qed

lemma size_multiply_8: "objc2_size_multiply True l sizeof_Class = None \<longleftrightarrow> \<not> unat l * 8 < 2 ^ 64"
  by (simp add: objc2_size_multiply_None sizeof_Class_def not_less)

lemma clean_scan_classes: "clean (scan_classes env img r) \<longleftrightarrow> clean r \<and> classes_free env img"
proof -
  consider (neg) "env_class_count env < 0" | (zero) "env_class_count env = 0"
    | (pos) "env_class_count env > 0" by linarith
  then show ?thesis
  proof cases
    case pos
    then show ?thesis
    proof (cases "objc2_size_multiply True (of_int (env_class_count env)) sizeof_Class")
      case None
      with size_multiply_8 [of "of_int (env_class_count env)"]
      have "\<not> unat (of_int (env_class_count env) :: size_t) * 8 < 2 ^ 64" by simp
      with pos None show ?thesis
        by (simp add: scan_classes_def classes_free_def clean_block)
    next
      case (Some n)
      with size_multiply_8 [of "of_int (env_class_count env)"]
      have "unat (of_int (env_class_count env) :: size_t) * 8 < 2 ^ 64" by simp
      with pos Some show ?thesis
        by (simp add: scan_classes_def classes_free_def clean_block clean_scan_list)
    qed
  qed (simp_all add: scan_classes_def classes_free_def clean_block)
qed

lemma accumulate_zero:
  assumes "sz \<noteq> 0"
  shows "objc_image_accumulate_range_count start stop sz sofar = (True, 0) \<longleftrightarrow>
    start = stop \<and> sofar = 0"
proof (cases "start = 0 \<or> stop = 0 \<or> stop < start")
  case True
  with assms show ?thesis
    by (auto simp: objc_image_accumulate_range_count_def Let_def)
next
  case False
  define d where "d = stop - start"
  have d: "d = 0 \<longleftrightarrow> start = stop" by (auto simp: d_def)
  have zero: "d mod sz = 0 \<Longrightarrow> d div sz = 0 \<Longrightarrow> d = 0"
    using div_mult_mod_eq [of d sz] by simp
  have sum: "sofar + d div sz = 0 \<Longrightarrow> \<not> SIZE_MAX - d div sz < sofar \<Longrightarrow> sofar = 0 \<and> d div sz = 0"
    by (metis add_is_0 size_add_guard unat_0 unat_add_size unat_eq_zero)
  have eq: "objc_image_accumulate_range_count start stop sz sofar =
      (if d mod sz \<noteq> 0 then (False, sofar)
       else if SIZE_MAX - d div sz < sofar then (False, sofar) else (True, sofar + d div sz))"
    using False assms by (simp add: objc_image_accumulate_range_count_def Let_def d_def)
  show ?thesis
  proof (cases "d = 0")
    case True
    with d show ?thesis unfolding eq by (simp add: SIZE_MAX_def)
  next
    case False
    have "objc_image_accumulate_range_count start stop sz sofar \<noteq> (True, 0)"
      unfolding eq using zero sum False by (metis Pair_inject)
    with False d show ?thesis by blast
  qed
qed

lemma sizeof_nonzero [simp]:
  "sizeof_Class \<noteq> 0" "sizeof_objc_selector \<noteq> 0" "sizeof_objc_category \<noteq> 0"
  "sizeof_objc_protocol \<noteq> 0" "sizeof_objc_alias \<noteq> 0" "sizeof_nsstr \<noteq> 0"
  by (simp_all add: sizeof_Class_def sizeof_objc_selector_def sizeof_objc_category_def
      sizeof_objc_protocol_def sizeof_objc_alias_def sizeof_nsstr_def)

lemma count_metadata_zero:
  assumes "count_metadata init r = (ok, r')"
    and "rp_class_metadata_count r = 0" "rp_protocol_metadata_count r = 0"
      "rp_category_metadata_count r = 0" "rp_loader_metadata_count r = 0"
  shows "ok \<and> rp_class_metadata_count r' = 0 \<and> rp_protocol_metadata_count r' = 0 \<and>
     rp_category_metadata_count r' = 0 \<and> rp_loader_metadata_count r' = 0 \<longleftrightarrow> no_metadata init"
proof -
  obtain b1 n1 where a1: "objc_image_accumulate_range_count (cls_begin init) (cls_end init)
      sizeof_Class 0 = (b1, n1)" by force
  obtain b2 n2 where a2: "objc_image_accumulate_range_count (proto_begin init) (proto_end init)
      sizeof_objc_protocol 0 = (b2, n2)" by force
  obtain b3 n3 where a3: "objc_image_accumulate_range_count (cat_begin init) (cat_end init)
      sizeof_objc_category 0 = (b3, n3)" by force
  obtain b4 n4 where a4: "objc_image_accumulate_range_count (sel_begin init) (sel_end init)
      sizeof_objc_selector 0 = (b4, n4)" by force
  obtain b5 n5 where a5: "objc_image_accumulate_range_count (cls_ref_begin init) (cls_ref_end init)
      sizeof_Class n4 = (b5, n5)" by force
  obtain b6 n6 where a6: "objc_image_accumulate_range_count (proto_ref_begin init) (proto_ref_end init)
      sizeof_Class n5 = (b6, n6)" by force
  obtain b7 n7 where a7: "objc_image_accumulate_range_count (alias_begin init) (alias_end init)
      sizeof_objc_alias n6 = (b7, n7)" by force
  obtain b8 n8 where a8: "objc_image_accumulate_range_count (strings_begin init) (strings_end init)
      sizeof_nsstr n7 = (b8, n8)" by force
  have r': "ok = (b1 \<and> b2 \<and> b3 \<and> b4 \<and> b5 \<and> b6 \<and> b7 \<and> b8)"
    "rp_class_metadata_count r' = n1" "rp_protocol_metadata_count r' = n2"
    "rp_category_metadata_count r' = n3" "rp_loader_metadata_count r' = n8"
    using assms by (auto simp: count_metadata_def a1 a2 a3 a4 a5 a6 a7 a8)
  have z: "b1 \<and> n1 = 0 \<longleftrightarrow> cls_begin init = cls_end init"
    "b2 \<and> n2 = 0 \<longleftrightarrow> proto_begin init = proto_end init"
    "b3 \<and> n3 = 0 \<longleftrightarrow> cat_begin init = cat_end init"
    "b4 \<and> n4 = 0 \<longleftrightarrow> sel_begin init = sel_end init"
    "b5 \<and> n5 = 0 \<longleftrightarrow> cls_ref_begin init = cls_ref_end init \<and> n4 = 0"
    "b6 \<and> n6 = 0 \<longleftrightarrow> proto_ref_begin init = proto_ref_end init \<and> n5 = 0"
    "b7 \<and> n7 = 0 \<longleftrightarrow> alias_begin init = alias_end init \<and> n6 = 0"
    "b8 \<and> n8 = 0 \<longleftrightarrow> strings_begin init = strings_end init \<and> n7 = 0"
    using accumulate_zero [OF sizeof_nonzero(1), of "cls_begin init" "cls_end init" 0]
      accumulate_zero [OF sizeof_nonzero(4), of "proto_begin init" "proto_end init" 0]
      accumulate_zero [OF sizeof_nonzero(3), of "cat_begin init" "cat_end init" 0]
      accumulate_zero [OF sizeof_nonzero(2), of "sel_begin init" "sel_end init" 0]
      accumulate_zero [OF sizeof_nonzero(1), of "cls_ref_begin init" "cls_ref_end init" n4]
      accumulate_zero [OF sizeof_nonzero(1), of "proto_ref_begin init" "proto_ref_end init" n5]
      accumulate_zero [OF sizeof_nonzero(5), of "alias_begin init" "alias_end init" n6]
      accumulate_zero [OF sizeof_nonzero(6), of "strings_begin init" "strings_end init" n7]
    by (simp_all add: a1 a2 a3 a4 a5 a6 a7 a8)
  show ?thesis unfolding r' no_metadata_def using z by blast
qed

lemma count_metadata_fields:
  assumes "count_metadata init r = (ok, r')"
  shows "rp_blockers r' = rp_blockers r" "rp_executable_reference_count r' = rp_executable_reference_count r"
    "rp_runtime_cache_reference_count r' = rp_runtime_cache_reference_count r"
    "rp_state r' = rp_state r" "rp_block_trampoline_reference_count r' = rp_block_trampoline_reference_count r"
    "rp_global_hook_reference_count r' = rp_global_hook_reference_count r"
    "rp_tracing_hook_reference_count r' = rp_tracing_hook_reference_count r"
  using assms by (auto simp: count_metadata_def Let_def split: prod.splits)

lemma hook_count:
  "fold (\<lambda>h n. if P h then n + 1 else n) hs k = k + of_nat (length (filter P hs))" for k :: size_t
  by (induction hs arbitrary: k) (simp_all add: algebra_simps)

lemma global_hooks_zero:
  assumes "range_known img"
  shows "mosaic_objc_countGlobalHookReferences hooks (img_base_address img) (img_mapped_size img) = 0
    \<longleftrightarrow> hooks_free hooks img"
proof -
  let ?P = "\<lambda>h. mosaic_objc_hookInRange h (img_base_address img) (img_mapped_size img)"
  have P: "?P h \<longleftrightarrow> in_image img h" for h
    using assms by (auto simp: mosaic_objc_hookInRange_def in_image_def objc_image_contains_address_def
        range_known_def)
  define n where "n = length (filter ?P (counted_hooks hooks))"
  define e where "e = (if in_image img (objc_unexpected_exception (hook_vars hooks)) then 1 else 0 :: nat)"
  have e: "objc2_countExceptionHookReferences hooks (img_base_address img) (img_mapped_size img) = of_nat e"
    using assms by (auto simp: objc2_countExceptionHookReferences_def e_def in_image_def Let_def
        objc_image_contains_address_def range_known_def)
  have small: "n + e < 2 ^ 64"
    using length_filter_le [of ?P "counted_hooks hooks"] by (simp add: n_def e_def counted_hooks_def)
  have "mosaic_objc_countGlobalHookReferences hooks (img_base_address img) (img_mapped_size img) =
      of_nat (n + e)"
    by (simp add: mosaic_objc_countGlobalHookReferences_def hook_count e n_def)
  also have "\<dots> = (0 :: size_t) \<longleftrightarrow> n + e = 0"
    using small by (simp only: word_unat_eq_iff unat_of_nat unat_0) simp
  also have "\<dots> \<longleftrightarrow> hooks_free hooks img"
    by (auto simp: n_def e_def hooks_free_def filter_empty_conv list_all_iff P)
  finally show ?thesis .
qed

lemma count_runtime_clean:
  assumes "range_known img" and r': "r' = count_runtime_references env hooks img r"
  shows "rp_blockers r' = 0 \<and> rp_global_hook_reference_count r' = 0 \<and>
      rp_tracing_hook_reference_count r' = 0 \<and> rp_runtime_cache_reference_count r' = 0 \<and>
      rp_block_trampoline_reference_count r' = 0 \<longleftrightarrow>
    rp_blockers r = 0 \<and> rp_runtime_cache_reference_count r = 0 \<and> hooks_free hooks img \<and>
      env_tracing_hooks env (img_base_address img) (img_mapped_size img) = 0 \<and>
      env_arc_cache env (img_base_address img) (img_mapped_size img) = 0 \<and>
      env_block_trampolines env (img_base_address img) (img_mapped_size img) = 0"
proof -
  let ?a = "env_arc_cache env (img_base_address img) (img_mapped_size img)"
  let ?c = "rp_runtime_cache_reference_count r"
  have sum: "?c + ?a = 0 \<Longrightarrow> \<not> SIZE_MAX - ?c < ?a \<Longrightarrow> ?a = 0 \<and> ?c = 0"
    by (metis add_is_0 add.commute size_add_guard unat_0 unat_add_size unat_eq_zero)
  show ?thesis
  proof (cases "SIZE_MAX - ?c < ?a")
    case True
    then have "\<not> (?a = 0 \<and> ?c = 0)" by (auto simp: SIZE_MAX_def)
    with True assms show ?thesis
      by (simp add: count_runtime_references_def Let_def blocker_values)
  next
    case False
    then show ?thesis
      using assms sum global_hooks_zero [OF assms(1), of hooks]
      by (auto simp: count_runtime_references_def Let_def)
  qed
qed

lemma count_runtime_fields [simp]:
  "rp_executable_reference_count (count_runtime_references env hooks img r) = rp_executable_reference_count r"
  "rp_state (count_runtime_references env hooks img r) = rp_state r"
  by (simp_all add: count_runtime_references_def Let_def)

lemma epochs_even:
  "(a OR b) AND 1 \<noteq> 0 \<or> a \<noteq> b \<longleftrightarrow> \<not> (a = b \<and> even b)" for a b :: uint64
  by (auto simp: and_one_eq even_or_iff even_iff_mod_2_eq_zero)

lemma unload_analysis_exact: "rp_blockers (unload_analysis env hooks img) = 0 \<longleftrightarrow> unloadable env hooks img"
proof (cases "range_known img")
  case False
  then show ?thesis
    by (auto simp: unload_analysis_def unloadable_def range_known_def Let_def blocker_values
        count_runtime_references_def count_metadata_def split: prod.splits)
next
  case True
  define r2 where "r2 = block_if (\<not> range_known img) BLOCKER_ADDRESS_RANGE_UNKNOWN
    (block_if (img_state img = IMAGE_ACTIVE) BLOCKER_NOT_RETIRED
      (zero_report\<lparr>rp_state := img_state img, rp_mapped_size := img_mapped_size img\<rparr>))"
  obtain ok r3 where m: "count_metadata (img_init img) r2 = (ok, r3)" by force
  define r8 where "r8 = block_if (rp_loader_metadata_count r3 \<noteq> 0) BLOCKER_LOADER_METADATA
    (block_if (rp_category_metadata_count r3 \<noteq> 0) BLOCKER_CATEGORY_METADATA
    (block_if (rp_protocol_metadata_count r3 \<noteq> 0) BLOCKER_PROTOCOL_METADATA
    (block_if (rp_class_metadata_count r3 \<noteq> 0) BLOCKER_CLASS_METADATA
    (block_if (\<not> ok) BLOCKER_ANALYSIS_INCOMPLETE r3))))"
  define r9 where "r9 = scan_classes env img r8"
  define r10 where "r10 = block_if (rp_executable_reference_count r9 \<noteq> 0) BLOCKER_EXECUTABLE_CODE r9"
  define r11 where "r11 = count_runtime_references env hooks img r10"
  have r2: "rp_blockers r2 = 0 \<longleftrightarrow> img_state img \<noteq> IMAGE_ACTIVE"
    "rp_class_metadata_count r2 = 0" "rp_protocol_metadata_count r2 = 0" "rp_category_metadata_count r2 = 0"
    "rp_loader_metadata_count r2 = 0" "rp_executable_reference_count r2 = 0"
    "rp_runtime_cache_reference_count r2 = 0"
    using True by (simp_all add: r2_def zero_report_def blocker_values)
  have r8: "clean r8 \<longleftrightarrow> img_state img \<noteq> IMAGE_ACTIVE \<and> no_metadata (img_init img)"
    using count_metadata_zero [OF m r2(2,3,4,5)]
    by (auto simp: r8_def clean_def count_metadata_fields [OF m] r2 blocker_values)
  have r10: "rp_blockers r10 = 0 \<and> rp_runtime_cache_reference_count r10 = 0 \<longleftrightarrow>
      clean r8 \<and> classes_free env img"
    unfolding clean_scan_classes [symmetric] r9_def [symmetric]
    by (auto simp: r10_def clean_def blocker_values)
  have "unload_analysis env hooks img =
      block_if ((env_epoch_before env OR env_epoch_after env) AND 1 \<noteq> 0 \<or>
          env_epoch_before env \<noteq> env_epoch_after env) BLOCKER_ANALYSIS_INCOMPLETE
        ((block_if (rp_block_trampoline_reference_count r11 \<noteq> 0) BLOCKER_BLOCK_TRAMPOLINE
          (block_if (rp_runtime_cache_reference_count r11 \<noteq> 0) BLOCKER_RUNTIME_CACHE_CODE
          (block_if (rp_tracing_hook_reference_count r11 \<noteq> 0) BLOCKER_TRACING_HOOK_CODE
          (block_if (rp_global_hook_reference_count r11 \<noteq> 0) BLOCKER_GLOBAL_HOOK_CODE r11))))
         \<lparr>rp_mutation_epoch := env_epoch_after env\<rparr>)"
    using m unfolding unload_analysis_def Let_def r2_def [symmetric]
    by (simp only: prod.case block_if_fields r11_def r10_def r9_def r8_def True if_True)
  then have "rp_blockers (unload_analysis env hooks img) = 0 \<longleftrightarrow>
      rp_blockers r11 = 0 \<and> rp_global_hook_reference_count r11 = 0 \<and>
      rp_tracing_hook_reference_count r11 = 0 \<and> rp_runtime_cache_reference_count r11 = 0 \<and>
      rp_block_trampoline_reference_count r11 = 0 \<and>
      env_epoch_before env = env_epoch_after env \<and> even (env_epoch_after env)"
    unfolding epochs_even by (auto simp: blocker_values)
  then show ?thesis
    using count_runtime_clean [OF True r11_def] r10 r8 True
    by (auto simp: unloadable_def range_known_def)
qed

lemma scan_method_state [simp]: "rp_state (objc_image_scan_method_code img c r) = rp_state r"
proof -
  have e: "rp_state (foldl (count_executable img) q ms) = rp_state q" for q ms
    by (induction ms arbitrary: q) (simp_all add: count_executable_def)
  have "rp_state (count_cached img q a) = rp_state q" for q a by (simp add: count_cached_def)
  with e show ?thesis by (simp add: objc_image_scan_method_code_def Let_def split: option.split)
qed

lemma scan_classes_state [simp]: "rp_state (scan_classes env img r) = rp_state r"
proof -
  have "rp_state (foldl (\<lambda>q (c, isa). objc_image_scan_method_code img isa
      (objc_image_scan_method_code img (Some c) q)) r cs) = rp_state r" for cs
    by (induction cs arbitrary: r) (simp_all add: case_prod_beta)
  then show ?thesis by (simp add: scan_classes_def split: option.split)
qed

lemma unload_analysis_fields:
  "rp_state (unload_analysis env hooks img) = img_state img"
  "rp_mutation_epoch (unload_analysis env hooks img) = env_epoch_after env"
  by (simp_all add: unload_analysis_def Let_def count_metadata_def zero_report_def case_prod_beta)

text \<open>
  C15: The unload report is exact. For a registered image the report is produced, carries the
  image's state and the epoch read last, and has no blocker exactly when the image is retired,
  its address range is known, all eight metadata ranges are empty, every class of the class list
  was scanned and no method implementation, cached C++ method, global hook, tracing hook, ARC
  cache entry or block trampoline points into the image, and the mutation epoch was even and did
  not change during the analysis.
\<close>

theorem unload_report_exact:
  assumes "get_image st (Some i) = Some img"
  shows "\<exists>r. mosaic_objc_imageGetUnloadReport env st (Some i) = Some r \<and>
    rp_state r = img_state img \<and> rp_mutation_epoch r = env_epoch_after env \<and>
    (rp_blockers r = 0 \<longleftrightarrow> unloadable env (ld_hooks st) img)"
  using assms
  by (simp add: mosaic_objc_imageGetUnloadReport_def unload_analysis_exact unload_analysis_fields)

text \<open>A registry with one retired image at \<open>0x1000\<close>, size \<open>0x800\<close>, and one class outside it.\<close>

definition demo_hooks :: hook_state where
  "demo_hooks =
     \<lparr>runtime_event_sink = 0, runtime_event_context = 0, runtime_event_sequence = 0,
      runtime_mutation_epoch = 6, runtime_mutation_writer_lock = False,
      hook_vars = \<lparr>objc_lookup_class_hook = 0x9000, objc_load_callback_hook = 0,
        objc_proxy_lookup_hook = 0, objc_msg_forward3_hook = 0x9100, objc_msg_forward2_hook = 0,
        objc_class_for_boxing_foreign_exception_hook = 0, objc_selector_type_mismatch2_hook = 0,
        objc_selector_type_mismatch_hook = 0, objc_weak_load_hook = 0,
        objc_unexpected_exception = 0\<rparr>,
      delivered = []\<rparr>"

definition demo_image :: image_record where
  "demo_image = \<lparr>img_init = zero_init, img_generation = 1, img_identifier = None,
     img_provider = None, img_base_address = 0x1000, img_mapped_size = 0x800,
     img_state = IMAGE_RETIRED\<rparr>"

definition demo_loader :: loader_state where
  "demo_loader = \<lparr>loaded_objc_images = [demo_image], next_objc_image_generation = 2,
     ld_hooks = demo_hooks, ld_memory = (\<lambda>_. 0)\<rparr>"

definition demo_env :: unload_env where
  "demo_env = \<lparr>env_class_count = 1, env_malloc_ok = True,
     env_classes = [(\<lparr>cc_copied = Some [0x2000], cc_has_methods = True, cc_cxx_construct = 0,
        cc_cxx_destruct = 0\<rparr>, None)],
     env_tracing_hooks = (\<lambda>_ _. 0), env_arc_cache = (\<lambda>_ _. 0), env_block_trampolines = (\<lambda>_ _. 0),
     env_epoch_before = 6, env_epoch_after = 6\<rparr>"

lemma demo_get_image: "get_image demo_loader (Some 0) = Some demo_image"
  by (simp add: get_image_def objc_image_is_registered_def demo_loader_def)

lemma demo_unloadable: "unloadable demo_env (ld_hooks demo_loader) demo_image"
  by (simp add: unloadable_def demo_env_def demo_loader_def demo_hooks_def demo_image_def
      no_metadata_def zero_init_def classes_free_def class_free_def in_image_def hooks_free_def
      objc_image_contains_address_def counted_hooks_def)

theorem unload_report_exact_witness:
  "get_image demo_loader (Some 0) = Some demo_image \<and>
   (\<exists>r. mosaic_objc_imageGetUnloadReport demo_env demo_loader (Some 0) = Some r \<and> rp_blockers r = 0)"
  using unload_report_exact [OF demo_get_image, of demo_env] demo_get_image demo_unloadable by blast

section \<open>The life cycle\<close>

text \<open>
  One call into the registry. A detach reads its report in an earlier state \<open>st0\<close>, since the
  lock is released in between; other parts of the runtime change hooks and memory.
\<close>

inductive image_step :: "loader_state \<Rightarrow> loader_state \<Rightarrow> bool" where
  step_register: "register_loaded_objc_image ok init st = Some (st', i) \<Longrightarrow> image_step st st'"
| step_identity: "mosaic_objc_imageSetIdentity ok1 ok2 st h identifier provider base = (st', res) \<Longrightarrow>
     image_step st st'"
| step_range: "mosaic_objc_imageSetAddressRange st h base sz = (st', res) \<Longrightarrow> image_step st st'"
| step_retire: "mosaic_objc_imageRetire st h = (st', res) \<Longrightarrow> image_step st st'"
| step_detach: "mosaic_objc_imageDetach env st0 st h epoch = (st', res) \<Longrightarrow> image_step st st'"
| step_other: "image_step st (st\<lparr>ld_hooks := hooks, ld_memory := mem\<rparr>)"

inductive_cases image_stepE: "image_step st st'"

abbreviation image_run :: "loader_state \<Rightarrow> loader_state \<Rightarrow> bool" where
  "image_run \<equiv> image_step\<^sup>*\<^sup>*"

definition loader_init :: "loader_state \<Rightarrow> bool" where
  "loader_init st \<longleftrightarrow> loaded_objc_images st = [] \<and> next_objc_image_generation st = 1"

primrec state_rank :: "image_state \<Rightarrow> nat" where
  "state_rank IMAGE_ACTIVE = 0"
| "state_rank IMAGE_RETIRED = 1"
| "state_rank IMAGE_DETACHED = 2"

definition fixed_once :: "'a option \<Rightarrow> 'a option \<Rightarrow> bool" where
  "fixed_once old new \<longleftrightarrow> old = None \<or> new = old"

text \<open>How the record of one image may develop.\<close>

definition image_le :: "image_record \<Rightarrow> image_record \<Rightarrow> bool" where
  "image_le a b \<longleftrightarrow>
     img_generation b = img_generation a \<and>
     state_rank (img_state a) \<le> state_rank (img_state b) \<and>
     fixed_once (img_identifier a) (img_identifier b) \<and>
     fixed_once (img_provider a) (img_provider b) \<and>
     (img_base_address a = 0 \<or> img_base_address b = img_base_address a) \<and>
     (img_mapped_size a = 0 \<or> img_mapped_size b = img_mapped_size a) \<and>
     (img_init b = img_init a \<or> img_state b = IMAGE_DETACHED)"

definition image_ok :: "image_record \<Rightarrow> bool" where
  "image_ok img \<longleftrightarrow>
     (img_state img = IMAGE_DETACHED \<longrightarrow> img_init img = zero_init) \<and>
     (img_mapped_size img \<noteq> 0 \<longrightarrow> img_base_address img \<noteq> 0 \<and>
        unat (img_base_address img) + unat (img_mapped_size img) < 2 ^ 64)"

definition loader_inv :: "loader_state \<Rightarrow> bool" where
  "loader_inv st \<longleftrightarrow>
     next_objc_image_generation st = of_nat (Suc (length (loaded_objc_images st))) \<and>
     (\<forall>i < length (loaded_objc_images st).
        img_generation (loaded_objc_images st ! i) = of_nat (Suc i) \<and>
        image_ok (loaded_objc_images st ! i))"

definition loader_le :: "loader_state \<Rightarrow> loader_state \<Rightarrow> bool" where
  "loader_le a b \<longleftrightarrow>
     length (loaded_objc_images a) \<le> length (loaded_objc_images b) \<and>
     (\<forall>i < length (loaded_objc_images a). image_le (loaded_objc_images a ! i) (loaded_objc_images b ! i))"

lemma image_le_refl [simp]: "image_le a a"
  by (simp add: image_le_def fixed_once_def)

lemma image_le_generation: "image_le a b \<Longrightarrow> img_generation b = img_generation a"
  by (simp add: image_le_def)

lemma rank_top: "state_rank IMAGE_DETACHED \<le> state_rank s \<longleftrightarrow> s = IMAGE_DETACHED"
  by (cases s) simp_all

lemma fixed_once_trans: "fixed_once a b \<Longrightarrow> fixed_once b c \<Longrightarrow> fixed_once a c"
  by (auto simp: fixed_once_def)

lemma image_le_trans:
  assumes "image_le a b" "image_le b c"
  shows "image_le a c"
proof -
  have "img_init c = img_init a \<or> img_state c = IMAGE_DETACHED"
    using assms rank_top [of "img_state c"] by (metis image_le_def)
  moreover have "fixed_once (img_identifier a) (img_identifier c)" "fixed_once (img_provider a) (img_provider c)"
    using assms fixed_once_trans by (metis image_le_def)+
  moreover have "img_base_address a = 0 \<or> img_base_address c = img_base_address a"
    "img_mapped_size a = 0 \<or> img_mapped_size c = img_mapped_size a"
    using assms by (metis image_le_def)+
  moreover have "img_generation c = img_generation a" "state_rank (img_state a) \<le> state_rank (img_state c)"
    using assms by (simp_all add: image_le_def)
  ultimately show ?thesis by (simp add: image_le_def)
qed

lemma loader_le_refl [simp]: "loader_le a a"
  by (simp add: loader_le_def)

lemma loader_le_trans: "loader_le a b \<Longrightarrow> loader_le b c \<Longrightarrow> loader_le a c"
  unfolding loader_le_def by (meson image_le_trans le_trans less_le_trans)

lemma get_image_Some:
  "get_image st (Some i) = Some img \<longleftrightarrow> i < length (loaded_objc_images st) \<and> img = loaded_objc_images st ! i"
  by (auto simp: get_image_def objc_image_is_registered_def list_ex_iff)

text \<open>Every operation but registration rewrites at most one record.\<close>

lemma set_image_keeps:
  assumes "get_image st (Some i) = Some img" "image_le img new" "image_ok img \<Longrightarrow> image_ok new"
    and "loaded_objc_images st' = (loaded_objc_images st)[i := new]"
    and "next_objc_image_generation st' = next_objc_image_generation st"
  shows "loader_le st st' \<and> (loader_inv st \<longrightarrow> loader_inv st')"
  using assms image_le_generation [OF assms(2)]
  by (auto simp: get_image_Some loader_le_def loader_inv_def nth_list_update)

abbreviation keeps :: "loader_state \<Rightarrow> loader_state \<Rightarrow> bool" where
  "keeps st st' \<equiv> loader_le st st' \<and> (loader_inv st \<longrightarrow> loader_inv st')"

lemma register_keeps:
  assumes "register_loaded_objc_image ok init st = Some (st', i)"
  shows "keeps st st'"
proof -
  from assms have "loaded_objc_images st' = loaded_objc_images st @ [new_image init (next_objc_image_generation st)]"
    "next_objc_image_generation st' = next_objc_image_generation st + 1"
    by (auto simp: register_loaded_objc_image_def split: if_splits)
  then show ?thesis
    by (auto simp: loader_le_def loader_inv_def nth_append new_image_def image_ok_def less_Suc_eq)
qed

lemma identity_keeps:
  assumes "mosaic_objc_imageSetIdentity ok1 ok2 st h ident prov base = (st', res)"
  shows "keeps st st'"
proof (cases "st' = st")
  case False
  with assms obtain i img where h: "h = Some i" "get_image st (Some i) = Some img"
    by (auto simp: mosaic_objc_imageSetIdentity_def split: option.splits prod.splits)
  let ?new = "fill_identity ident prov base img"
  have new: "st' = set_image st i ?new"
    using assms False h by (simp add: mosaic_objc_imageSetIdentity_def split: if_splits)
  have le: "image_le img ?new" by (simp add: image_le_def fixed_once_def fill_identity_def)
  have ok: "image_ok img \<Longrightarrow> image_ok ?new" by (simp add: image_ok_def fill_identity_def)
  show ?thesis by (rule set_image_keeps [OF h(2) le ok]) (simp_all add: new set_image_def)
qed simp

lemma range_keeps:
  assumes "mosaic_objc_imageSetAddressRange st h base sz = (st', res)"
  shows "keeps st st'"
proof (cases "st' = st")
  case False
  with assms obtain i img where h: "h = Some i" "get_image st (Some i) = Some img"
    by (auto simp: mosaic_objc_imageSetAddressRange_def split: option.splits prod.splits if_splits)
  let ?new = "img\<lparr>img_base_address := base, img_mapped_size := sz\<rparr>"
  have new: "\<not> SIZE_MAX - base < sz" "base \<noteq> 0" "st' = set_image st i ?new"
    "img_base_address img = 0 \<or> img_base_address img = base"
    "img_mapped_size img = 0 \<or> img_mapped_size img = sz"
    using assms False h by (auto simp: mosaic_objc_imageSetAddressRange_def split: if_splits)
  have le: "image_le img ?new" using new(4,5) by (auto simp: image_le_def fixed_once_def)
  have ok: "image_ok img \<Longrightarrow> image_ok ?new"
    using new(1,2) size_add_guard [of base sz] by (simp add: image_ok_def add.commute)
  show ?thesis by (rule set_image_keeps [OF h(2) le ok]) (simp_all add: new set_image_def)
qed simp

lemma retire_keeps:
  assumes "mosaic_objc_imageRetire st h = (st', res)"
  shows "keeps st st'"
proof (cases "st' = st")
  case False
  with assms obtain i img where h: "h = Some i" "get_image st (Some i) = Some img"
    by (auto simp: mosaic_objc_imageRetire_def split: option.splits prod.splits)
  let ?new = "img\<lparr>img_state := IMAGE_RETIRED\<rparr>"
  have new: "st' = emit_image_event EVENT_IMAGE_RETIRED i ''retired'' (set_image st i ?new)"
    "img_state img \<noteq> IMAGE_RETIRED" "img_state img \<noteq> IMAGE_DETACHED"
    using assms False h by (auto simp: mosaic_objc_imageRetire_def split: if_splits)
  then have "img_state img = IMAGE_ACTIVE" by (cases "img_state img") simp_all
  then have le: "image_le img ?new" by (simp add: image_le_def fixed_once_def)
  have ok: "image_ok img \<Longrightarrow> image_ok ?new" by (simp add: image_ok_def)
  show ?thesis
    by (rule set_image_keeps [OF h(2) le ok]) (simp_all add: new set_image_def emit_image_event_def)
qed simp

lemma detach_commit_cases:
  assumes "detach_commit st i epoch = (st', res)" "res"
  obtains img where "get_image st (Some i) = Some img" "img_state img = IMAGE_RETIRED"
    "mosaic_objc_runtimeMutationEpoch (ld_hooks st) = epoch"
    "st' = emit_image_event EVENT_IMAGE_DETACHED i ''detached''
       (set_image st i (img\<lparr>img_init := zero_init, img_state := IMAGE_DETACHED\<rparr>))"
  using assms by (auto simp: detach_commit_def split: option.splits if_splits)

lemma detach_cases:
  assumes "mosaic_objc_imageDetach env st0 st h epoch = (st', res)"
  obtains "st' = st" | i where "h = Some i" "detach_commit st i epoch = (st', res)" "res"
  using assms
  by (auto simp: mosaic_objc_imageDetach_def detach_commit_def split: option.splits if_splits)

lemma detach_keeps:
  assumes "mosaic_objc_imageDetach env st0 st h epoch = (st', res)"
  shows "keeps st st'"
  using assms
proof (cases rule: detach_cases)
  case (2 i)
  from 2(2,3) show ?thesis
  proof (cases rule: detach_commit_cases)
    case (1 img)
    let ?new = "img\<lparr>img_init := zero_init, img_state := IMAGE_DETACHED\<rparr>"
    have le: "image_le img ?new" using 1 by (simp add: image_le_def fixed_once_def)
    have ok: "image_ok img \<Longrightarrow> image_ok ?new" by (simp add: image_ok_def)
    show ?thesis
      by (rule set_image_keeps [OF 1(1) le ok]) (simp_all add: 1 set_image_def emit_image_event_def)
  qed
qed simp

lemma image_run_keeps: "image_run st st' \<Longrightarrow> keeps st st'"
proof (induction rule: rtranclp_induct)
  case (step y z)
  from step(2) have "keeps y z"
    by (cases rule: image_step.cases)
       (auto dest: register_keeps identity_keeps range_keeps retire_keeps detach_keeps
          simp: loader_le_def loader_inv_def)
  with step.IH show ?case by (meson loader_le_trans)
qed simp

lemma image_run_lifecycle:
  assumes "loader_init st0" "image_run st0 st" "image_run st st'"
    and "i < length (loaded_objc_images st)"
  shows "i < length (loaded_objc_images st')"
    and "image_le (loaded_objc_images st ! i) (loaded_objc_images st' ! i)"
    and "img_generation (loaded_objc_images st' ! i) = of_nat (Suc i)"
    and "img_state (loaded_objc_images st' ! i) = IMAGE_DETACHED \<longrightarrow>
      img_init (loaded_objc_images st' ! i) = zero_init"
proof -
  have "loader_inv st0" using assms(1) by (simp add: loader_inv_def loader_init_def)
  then have inv: "loader_inv st'" and le: "loader_le st st'"
    using image_run_keeps [OF assms(2)] image_run_keeps [OF assms(3)] by blast+
  from le assms(4) show i: "i < length (loaded_objc_images st')"
    and "image_le (loaded_objc_images st ! i) (loaded_objc_images st' ! i)"
    by (auto simp: loader_le_def)
  from inv i show "img_generation (loaded_objc_images st' ! i) = of_nat (Suc i)"
    and "img_state (loaded_objc_images st' ! i) = IMAGE_DETACHED \<longrightarrow>
      img_init (loaded_objc_images st' ! i) = zero_init"
    by (auto simp: loader_inv_def image_ok_def)
qed

text \<open>
  C16: The life cycle of images. In every history of registrations, identity and range
  settings, retirements and detachments (interleaved with anything else that changes hooks or
  memory), every image keeps its place and its generation number, which is its position in load
  order counted from one; its state only moves from active to retired to detached; identifier,
  provider, base address and size never change once set; the metadata pointers stay as
  registered until the image is detached and are all null from then on.
\<close>

theorem image_lifecycle:
  assumes "loader_init st0" "image_run st0 st" "image_run st st'"
    and "i < length (loaded_objc_images st)"
  shows "i < length (loaded_objc_images st') \<and>
    image_le (loaded_objc_images st ! i) (loaded_objc_images st' ! i) \<and>
    img_generation (loaded_objc_images st' ! i) = of_nat (Suc i) \<and>
    (img_state (loaded_objc_images st' ! i) = IMAGE_DETACHED \<longrightarrow>
      img_init (loaded_objc_images st' ! i) = zero_init)"
  using image_run_lifecycle [OF assms] by blast

text \<open>A registry before the first load, and after loading and retiring one image.\<close>

definition empty_loader :: loader_state where
  "empty_loader = \<lparr>loaded_objc_images = [], next_objc_image_generation = 1,
     ld_hooks = demo_hooks, ld_memory = (\<lambda>_. 0)\<rparr>"

definition loader_one :: loader_state where
  "loader_one = empty_loader\<lparr>loaded_objc_images := [new_image zero_init 1],
     next_objc_image_generation := 2\<rparr>"

lemma loader_one_run: "image_run empty_loader loader_one"
proof -
  have "register_loaded_objc_image True zero_init empty_loader = Some (loader_one, 0)"
    by (simp add: register_loaded_objc_image_def loader_one_def empty_loader_def)
  then show ?thesis by (blast intro: step_register)
qed

theorem image_lifecycle_witness:
  "loader_init empty_loader \<and> image_run empty_loader loader_one \<and>
   image_run loader_one (fst (mosaic_objc_imageRetire loader_one (Some 0))) \<and>
   img_generation (loaded_objc_images (fst (mosaic_objc_imageRetire loader_one (Some 0))) ! 0) = 1"
proof -
  have init: "loader_init empty_loader" by (simp add: loader_init_def empty_loader_def)
  have run: "image_run loader_one (fst (mosaic_objc_imageRetire loader_one (Some 0)))"
    using step_retire [OF surjective_pairing] by blast
  have "0 < length (loaded_objc_images loader_one)" by (simp add: loader_one_def)
  from image_lifecycle [OF init loader_one_run run this] init loader_one_run run
  show ?thesis by simp
qed

text \<open>
  Detaching is safe and leads to physical unloading. When a detach of a retired image
  succeeds (with the report read in the state in which the lock is taken), the image was
  unloadable at the expected epoch, its metadata pointers are cleared and its state is detached;
  if nothing else changes, a request for physical unloading at the new epoch from a quiescent
  host is then granted without blockers.
\<close>

theorem image_detach_ready:
  assumes "get_image st (Some i) = Some img" "img_state img = IMAGE_RETIRED"
    and "mosaic_objc_imageDetach env st st (Some i) epoch = (st', True)"
    and "epoch \<noteq> - 2"
    and "env' = env\<lparr>env_epoch_before := runtime_mutation_epoch (ld_hooks st'),
                     env_epoch_after := runtime_mutation_epoch (ld_hooks st')\<rparr>"
  shows "unloadable env (ld_hooks st) img \<and> env_epoch_after env = epoch \<and>
    get_image st' (Some i) = Some (img\<lparr>img_init := zero_init, img_state := IMAGE_DETACHED\<rparr>) \<and>
    runtime_mutation_epoch (ld_hooks st') = epoch + 2 \<and>
    (\<exists>r. mosaic_objc_imageIsPhysicalUnloadReady env' st' (Some i) (epoch + 2) True = (Some r, True) \<and>
         rp_blockers r = 0)"
proof -
  let ?new = "img\<lparr>img_init := zero_init, img_state := IMAGE_DETACHED\<rparr>"
  have rep: "mosaic_objc_imageGetUnloadReport env st (Some i) = Some (unload_analysis env (ld_hooks st) img)"
    using assms(1) by (simp add: mosaic_objc_imageGetUnloadReport_def)
  from assms(2,3) rep have un: "unloadable env (ld_hooks st) img" and ep: "env_epoch_after env = epoch"
    and commit: "detach_commit st i epoch = (st', True)"
    by (auto simp: mosaic_objc_imageDetach_def unload_analysis_fields unload_analysis_exact
        split: if_splits)
  from commit obtain st': "runtime_mutation_epoch (ld_hooks st) = epoch"
    "st' = emit_image_event EVENT_IMAGE_DETACHED i ''detached'' (set_image st i ?new)"
    using assms(1) by (auto elim: detach_commit_cases simp: mosaic_objc_runtimeMutationEpoch_def)
  have hooks: "hook_vars (ld_hooks st') = hook_vars (ld_hooks st)"
    "runtime_event_sink (ld_hooks st') = runtime_event_sink (ld_hooks st)"
    "runtime_mutation_epoch (ld_hooks st') = epoch + 2"
    using st'(1) by (simp_all add: st'(2) emit_image_event_def mosaic_objc_emitRuntimeEvent_def
        mosaic_objc_noteRuntimeMutation_def set_image_def Let_def)
  have new: "get_image st' (Some i) = Some ?new"
    using assms(1) by (simp add: get_image_Some st'(2) emit_image_event_def set_image_def)
  have in_image: "in_image ?new a = in_image img a" for a
    by (simp add: in_image_def objc_image_contains_address_def)
  have "unloadable env' (ld_hooks st') ?new"
    using un ep unfolding unloadable_def hooks_free_def classes_free_def class_free_def in_image
    by (simp add: assms(5) hooks counted_hooks_def no_metadata_def zero_init_def)
  then have "rp_blockers (unload_analysis env' (ld_hooks st') ?new) = 0"
    by (simp add: unload_analysis_exact)
  moreover have "epoch + 2 \<noteq> 0" using assms(4) by (metis add_eq_0_iff2)
  ultimately have "\<exists>r. mosaic_objc_imageIsPhysicalUnloadReady env' st' (Some i) (epoch + 2) True = (Some r, True) \<and>
         rp_blockers r = 0"
    by (simp add: mosaic_objc_imageIsPhysicalUnloadReady_def mosaic_objc_imageGetUnloadReport_def new
        unload_analysis_fields assms(5) hooks)
  with un ep new hooks show ?thesis by blast
qed

theorem image_detach_ready_witness:
  "\<exists>st'. mosaic_objc_imageDetach demo_env demo_loader demo_loader (Some 0) 6 = (st', True) \<and>
     runtime_mutation_epoch (ld_hooks st') = 8 \<and>
     snd (mosaic_objc_imageIsPhysicalUnloadReady
       (demo_env\<lparr>env_epoch_before := runtime_mutation_epoch (ld_hooks st'),
                 env_epoch_after := runtime_mutation_epoch (ld_hooks st')\<rparr>) st' (Some 0) 8 True)"
proof -
  have s: "img_state demo_image = IMAGE_RETIRED" "env_epoch_after demo_env = 6"
    "runtime_mutation_epoch (ld_hooks demo_loader) = 6"
    by (simp_all add: demo_image_def demo_env_def demo_loader_def demo_hooks_def)
  have "rp_blockers (unload_analysis demo_env (ld_hooks demo_loader) demo_image) = 0"
    using demo_unloadable by (simp add: unload_analysis_exact)
  then have "snd (mosaic_objc_imageDetach demo_env demo_loader demo_loader (Some 0) 6)"
    by (simp add: mosaic_objc_imageDetach_def mosaic_objc_imageGetUnloadReport_def demo_get_image
        unload_analysis_fields detach_commit_def mosaic_objc_runtimeMutationEpoch_def s)
  then obtain st' where st': "mosaic_objc_imageDetach demo_env demo_loader demo_loader (Some 0) 6 = (st', True)"
    by (metis prod.collapse)
  from image_detach_ready [OF demo_get_image s(1) st' _ refl] st' show ?thesis by fastforce
qed

text \<open>
  C17: The address test of the unload analysis is exact for every reachable registry: when an
  image has a size, the wrap-around-free comparison of the code accepts exactly the addresses
  from its base address up to, but not including, base plus size, and that sum does not wrap.
\<close>

theorem image_contains_address_exact:
  assumes "loader_init st0" "image_run st0 st" "i < length (loaded_objc_images st)"
    and "img = loaded_objc_images st ! i" "img_mapped_size img \<noteq> 0"
  shows "unat (img_base_address img) + unat (img_mapped_size img) < 2 ^ 64 \<and>
    (objc_image_contains_address img a \<longleftrightarrow>
       unat (img_base_address img) \<le> unat a \<and>
       unat a < unat (img_base_address img) + unat (img_mapped_size img))"
proof -
  have "loader_inv st0" using assms(1) by (simp add: loader_inv_def loader_init_def)
  then have "image_ok img"
    using image_run_keeps [OF assms(2)] assms(3,4) by (simp add: loader_inv_def)
  then have img: "img_base_address img \<noteq> 0" "unat (img_base_address img) + unat (img_mapped_size img) < 2 ^ 64"
    using assms(5) by (simp_all add: image_ok_def)
  have "img_base_address img \<le> a \<and> a - img_base_address img < img_mapped_size img \<longleftrightarrow>
      unat (img_base_address img) \<le> unat a \<and>
      unat a < unat (img_base_address img) + unat (img_mapped_size img)"
    by (auto simp: word_le_nat_alt word_less_nat_alt unat_sub)
  with img assms(5) show ?thesis by (simp add: objc_image_contains_address_def)
qed

lemma empty_run_range:
  "image_run empty_loader (fst (mosaic_objc_imageSetAddressRange loader_one (Some 0) 0x1000 0x800))"
  by (rule rtranclp.rtrancl_into_rtrancl [OF loader_one_run step_range [OF surjective_pairing]])

theorem image_contains_address_exact_witness:
  "\<not> objc_image_contains_address
     (loaded_objc_images (fst (mosaic_objc_imageSetAddressRange loader_one (Some 0) 0x1000 0x800)) ! 0) 0x1800 \<and>
   objc_image_contains_address
     (loaded_objc_images (fst (mosaic_objc_imageSetAddressRange loader_one (Some 0) 0x1000 0x800)) ! 0) 0x17FF"
proof -
  let ?st = "fst (mosaic_objc_imageSetAddressRange loader_one (Some 0) 0x1000 0x800)"
  have st: "loaded_objc_images ?st = [(new_image zero_init 1)\<lparr>img_base_address := 0x1000, img_mapped_size := 0x800\<rparr>]"
    by (simp add: mosaic_objc_imageSetAddressRange_def SIZE_MAX_def get_image_def objc_image_is_registered_def
        loader_one_def empty_loader_def new_image_def set_image_def)
  have init: "loader_init empty_loader" by (simp add: loader_init_def empty_loader_def)
  have "0 < length (loaded_objc_images ?st)" "img_mapped_size (loaded_objc_images ?st ! 0) \<noteq> 0"
    by (simp_all add: st)
  note exact = image_contains_address_exact [OF init empty_run_range this(1) refl this(2)]
  from exact [of "0x1800"] exact [of "0x17FF"] show ?thesis by (simp add: st)
qed

section \<open>Finding the image of a class\<close>

lemma range_elements_nth:
  "set (range_elements start stop sz) =
     {start + k * sz | k. k < objc_image_range_count start stop sz}"
proof -
  let ?n = "objc_image_range_count start stop sz"
  have "\<exists>k < ?n. a = start + k * sz" if "a \<in> set (range_elements start stop sz)" for a
  proof -
    from that obtain k where k: "k < unat ?n" "a = start + of_nat k * sz"
      by (auto simp: range_elements_def)
    then have "of_nat k < ?n"
      using less_trans [OF k(1) unsigned_less [of ?n, where 'a = nat]]
      by (simp add: word_less_nat_alt unat_of_nat)
    with k show ?thesis by blast
  qed
  moreover have "start + k * sz \<in> set (range_elements start stop sz)" if "k < ?n" for k
  proof -
    have "unat k < unat ?n" using that by (simp add: word_less_nat_alt)
    then have "(\<lambda>k. start + of_nat k * sz) (unat k) \<in> set (range_elements start stop sz)"
      unfolding range_elements_def by (intro imageI list.set_map [THEN equalityD2, THEN subsetD]) simp
    then show ?thesis by simp
  qed
  ultimately show ?thesis by blast
qed

text \<open>
  Classes and images agree. The image that \<open>mosaic_objc_imageForClass\<close> reports for a class
  is the first one, in load order, from which \<open>mosaic_objc_imageGetClass\<close> returns that class at
  some index; it reports none exactly when no image returns the class.
\<close>

theorem image_for_class_spec:
  assumes "cls \<noteq> 0"
  shows "case mosaic_objc_imageForClass st cls of
      None \<Rightarrow> (\<forall>i k. mosaic_objc_imageGetClass st (Some i) k \<noteq> cls)
    | Some i \<Rightarrow> (\<exists>k. mosaic_objc_imageGetClass st (Some i) k = cls) \<and>
        (\<forall>j < i. \<forall>k. mosaic_objc_imageGetClass st (Some j) k \<noteq> cls)"
proof -
  define P where "P i \<longleftrightarrow> (\<exists>k. mosaic_objc_imageGetClass st (Some i) k = cls)" for i
  define Q where "Q i \<longleftrightarrow> list_ex (\<lambda>slot. ld_memory st slot = cls)
      (range_elements (cls_begin (img_init (loaded_objc_images st ! i)))
        (cls_end (img_init (loaded_objc_images st ! i))) sizeof_Class)" for i
  have P: "P i \<longleftrightarrow> i < length (loaded_objc_images st) \<and> Q i" for i
  proof (cases "i < length (loaded_objc_images st)")
    case True
    then have "get_image st (Some i) = Some (loaded_objc_images st ! i)" by (simp add: get_image_Some)
    then show ?thesis using True assms
      by (auto simp: P_def Q_def mosaic_objc_imageGetClass_def list_ex_iff range_elements_nth split: if_splits)
  next
    case False
    then have "get_image st (Some i) = None" by (auto simp: get_image_def objc_image_is_registered_def list_ex_iff)
    with False assms show ?thesis by (simp add: P_def mosaic_objc_imageGetClass_def)
  qed
  have f: "mosaic_objc_imageForClass st cls = find Q [0..<length (loaded_objc_images st)]"
    using assms by (simp add: mosaic_objc_imageForClass_def Q_def [abs_def] Let_def)
  show ?thesis
  proof (cases "find Q [0..<length (loaded_objc_images st)]")
    case None
    then have "\<not> P i" for i by (auto simp: P find_None_iff)
    with f None show ?thesis by (simp add: P_def)
  next
    case (Some i)
    then have "i < length (loaded_objc_images st)" "Q i" "\<forall>j < i. \<not> Q j"
      by (auto simp: find_Some_iff)
    then have "P i" "\<forall>j < i. \<not> P j" by (simp_all add: P)
    with f Some show ?thesis by (simp add: P_def)
  qed
qed

theorem image_for_class_spec_witness:
  "(0x77 :: uintptr_t) \<noteq> 0 \<and> (\<forall>i k. mosaic_objc_imageGetClass demo_loader (Some i) k \<noteq> 0x77)"
proof -
  have "mosaic_objc_imageForClass demo_loader 0x77 = None"
    by (simp add: mosaic_objc_imageForClass_def demo_loader_def demo_image_def zero_init_def
        range_elements_def objc_image_range_count_def)
  with image_for_class_spec [of "0x77" demo_loader] show ?thesis by simp
qed

end
