(* ===== verification/Objc_Protocol.thy ===== *)
theory Objc_Protocol
  imports Objc_Allocation Objc_Hooks
begin

text \<open>
  Protocols, \<open>src/runtime/protocol.c\<close> with the structures of \<open>src/internal/runtime/protocol.h\<close>:
  the table of known protocols, merging of duplicate definitions, initialisation of protocol
  lists, conformance, queries, and the construction of protocols at run time.

  Protocols and adopted-protocol lists live in an explicit store and are named by handles, so
  that in-place updates and sharing are visible; \<open>None\<close> is the null pointer. Method description
  lists and property lists are never shared after they are built and are values. The table of
  known protocols is the list of its members (\<open>hash_table.h\<close> is a different component). A
  selector is its name and, when typed, its type encoding. \<open>malloc\<close> and \<open>calloc\<close> may fail:
  \<open>pr_fails\<close> decides the outcome of every attempt. An outer \<open>None\<close> is an abort, a failed assertion
  or an access through a null or dangling pointer. The modelled build supports the version 2 ABI
  only (without \<open>OLDABI_COMPAT\<close>).
\<close>

record selector =
  sel_name :: string
  sel_type :: "string option"

record method_description =
  md_selector :: "selector option"
  md_types :: "string option"

record method_description_list =
  mdl_count :: int
  mdl_size :: int
  mdl_methods :: "method_description list"

record objc_property =
  prop_name :: "string option"
  prop_attributes :: "string option"
  prop_type :: "string option"
  prop_getter :: "selector option"
  prop_setter :: "selector option"

text \<open>A property list is a chain of blocks; the empty chain is the null pointer.\<close>

record property_block =
  pb_count :: int
  pb_size :: int
  pb_items :: "objc_property list"

datatype proto_isa =
    Isa_Protocol | Isa_ProtocolGCC | Isa_ProtocolGSv1 | Isa_IncompleteProtocol
  | Isa_Version uintptr_t

record objc_protocol =
  p_isa :: proto_isa
  p_name :: "string option"
  p_protocol_list :: "nat option"
  p_instance_methods :: "method_description_list option"
  p_class_methods :: "method_description_list option"
  p_optional_instance_methods :: "method_description_list option"
  p_optional_class_methods :: "method_description_list option"
  p_properties :: "property_block list"
  p_optional_properties :: "property_block list"
  p_class_properties :: "property_block list"
  p_optional_class_properties :: "property_block list"

record objc_protocol_list =
  pl_next :: "nat option"
  pl_list :: "nat option list"

record proto_state =
  protos :: "nat \<Rightarrow> objc_protocol option"
  proto_brk :: nat
  plists :: "nat \<Rightarrow> objc_protocol_list option"
  plist_brk :: nat
  known_protocol_table :: "nat list"
  protocol_merge_conflicts :: uint64
  pr_hooks :: hook_state
  pr_fails :: "nat \<Rightarrow> bool"
  pr_attempts :: nat

definition pr_alloc :: "proto_state \<Rightarrow> proto_state \<times> bool" where
  "pr_alloc st = (st\<lparr>pr_attempts := Suc (pr_attempts st)\<rparr>, \<not> pr_fails st (pr_attempts st))"

definition set_proto :: "proto_state \<Rightarrow> nat \<Rightarrow> objc_protocol \<Rightarrow> proto_state" where
  "set_proto st p r = st\<lparr>protos := (protos st)(p := Some r)\<rparr>"

definition set_plist :: "proto_state \<Rightarrow> nat \<Rightarrow> objc_protocol_list \<Rightarrow> proto_state" where
  "set_plist st l r = st\<lparr>plists := (plists st)(l := Some r)\<rparr>"

definition sizeof_method_description :: int where "sizeof_method_description = 16"
definition sizeof_method_description_list :: size_t where "sizeof_method_description_list = 8"
definition sizeof_property :: int where "sizeof_property = 40"
definition sizeof_property_list :: size_t where "sizeof_property_list = 16"
definition sizeof_protocol_list :: size_t where "sizeof_protocol_list = 16"
definition sizeof_pointer :: size_t where "sizeof_pointer = 8"

text \<open>The entries a loop over \<open>0 \<le> i < count\<close> visits.\<close>

definition mdl_items :: "method_description_list \<Rightarrow> method_description list" where
  "mdl_items l = take (nat (mdl_count l)) (mdl_methods l)"

definition pb_properties :: "property_block \<Rightarrow> objc_property list" where
  "pb_properties b = take (nat (pb_count b)) (pb_items b)"

definition protocol_table_insert :: "proto_state \<Rightarrow> nat \<Rightarrow> proto_state" where
  "protocol_table_insert st p = st\<lparr>known_protocol_table := known_protocol_table st @ [p]\<rparr>"

definition proto_name :: "proto_state \<Rightarrow> nat \<Rightarrow> string option" where
  "proto_name st p = do { r \<leftarrow> protos st p; p_name r }"

definition protocol_for_name :: "proto_state \<Rightarrow> string \<Rightarrow> nat option" where
  "protocol_for_name st name = find (\<lambda>p. proto_name st p = Some name) (known_protocol_table st)"

definition protocol_hasClassProperties :: "objc_protocol \<Rightarrow> bool" where
  "protocol_hasClassProperties p \<longleftrightarrow> p_isa p = Isa_Protocol"

definition protocol_hasOptionalMethodsAndProperties :: "objc_protocol \<Rightarrow> bool" where
  "protocol_hasOptionalMethodsAndProperties p \<longleftrightarrow> p_isa p \<noteq> Isa_ProtocolGCC"

definition mosaic_objc_runtimeGetProtocolConflictCount :: "proto_state \<Rightarrow> uint64" where
  "mosaic_objc_runtimeGetProtocolConflictCount st = protocol_merge_conflicts st"

definition protocol_string_equal :: "string option \<Rightarrow> string option \<Rightarrow> bool" where
  "protocol_string_equal a b \<longleftrightarrow> a = b"

definition text_of :: "string option \<Rightarrow> string" where
  "text_of s = (case s of None \<Rightarrow> [] | Some t \<Rightarrow> t)"

definition emit_protocol_event :: "event_kind \<Rightarrow> nat option \<Rightarrow> string \<Rightarrow> string \<Rightarrow> proto_state \<Rightarrow> proto_state" where
  "emit_protocol_event k p nm detail st =
     st\<lparr>pr_hooks := mosaic_objc_emitRuntimeEvent
          ((blank_event k)\<lparr>ev_protocol := p, ev_name := nm, ev_detail := detail\<rparr>) (pr_hooks st)\<rparr>"

definition protocol_report_conflict ::
  "string option \<Rightarrow> string \<Rightarrow> string option \<Rightarrow> proto_state \<Rightarrow> proto_state" where
  "protocol_report_conflict protocolName kind member st =
     (let s1 = st\<lparr>protocol_merge_conflicts := protocol_merge_conflicts st + 1\<rparr> in
      emit_protocol_event EVENT_PROTOCOL_CONFLICT
        (case protocolName of None \<Rightarrow> None | Some n \<Rightarrow> protocol_for_name s1 n)
        (text_of member) kind s1)"

definition no_methods :: "method_description_list option \<Rightarrow> bool" where
  "no_methods l = (case l of None \<Rightarrow> True | Some m \<Rightarrow> mdl_count m = 0)"

definition no_properties :: "property_block list \<Rightarrow> bool" where
  "no_properties l = (case l of [] \<Rightarrow> True | b # _ \<Rightarrow> pb_count b = 0)"

definition isEmptyProtocol :: "proto_state \<Rightarrow> objc_protocol \<Rightarrow> bool" where
  "isEmptyProtocol st p \<longleftrightarrow>
     no_methods (p_instance_methods p) \<and> no_methods (p_class_methods p) \<and>
     (case p_protocol_list p of None \<Rightarrow> True
      | Some l \<Rightarrow> (case plists st l of None \<Rightarrow> True | Some b \<Rightarrow> pl_list b = [])) \<and>
     (protocol_hasOptionalMethodsAndProperties p \<longrightarrow>
        no_methods (p_optional_instance_methods p) \<and> no_methods (p_optional_class_methods p) \<and>
        no_properties (p_properties p) \<and> no_properties (p_optional_properties p) \<and>
        (protocol_hasClassProperties p \<longrightarrow>
           no_properties (p_class_properties p) \<and> no_properties (p_optional_class_properties p)))"

definition protocol_selector_name :: "selector option \<Rightarrow> string option" where
  "protocol_selector_name s = map_option sel_name s"

text \<open>Position of the first entry with a property, as the search loops return it; \<open>None\<close> is -1.\<close>

fun first_index :: "('a \<Rightarrow> bool) \<Rightarrow> 'a list \<Rightarrow> nat option" where
  "first_index P [] = None"
| "first_index P (x # xs) = (if P x then Some 0 else map_option Suc (first_index P xs))"

definition protocol_find_method :: "method_description_list option \<Rightarrow> selector option \<Rightarrow> nat option" where
  "protocol_find_method l s =
     (case l of
        None \<Rightarrow> None
      | Some m \<Rightarrow>
          if mdl_count m \<le> 0 \<or> mdl_size m < sizeof_method_description then None
          else first_index (\<lambda>d. protocol_string_equal (protocol_selector_name (md_selector d))
                                 (protocol_selector_name s)) (mdl_items m))"

section \<open>Merging duplicate definitions\<close>

definition merge_method ::
  "string option \<Rightarrow> string \<Rightarrow> method_description list \<times> proto_state \<Rightarrow> method_description \<Rightarrow>
   method_description list \<times> proto_state" where
  "merge_method protocolName kind ms candidate =
     (case ms of (merged, st) \<Rightarrow>
        (case first_index (\<lambda>d. protocol_string_equal (protocol_selector_name (md_selector d))
                 (protocol_selector_name (md_selector candidate))) merged of
           Some existing \<Rightarrow>
             if protocol_string_equal (md_types (merged ! existing)) (md_types candidate)
             then (merged, st)
             else (merged, protocol_report_conflict protocolName kind
                             (protocol_selector_name (md_selector candidate)) st)
         | None \<Rightarrow> (merged @ [candidate], st)))"

definition bad_method_list :: "method_description_list option \<Rightarrow> bool" where
  "bad_method_list l =
     (case l of None \<Rightarrow> False
      | Some f \<Rightarrow> mdl_count f < 0 \<or> mdl_size f < sizeof_method_description)"

definition protocol_merge_methods ::
  "method_description_list option \<Rightarrow> method_description_list option \<Rightarrow> string option \<Rightarrow> string \<Rightarrow>
   proto_state \<Rightarrow> (method_description_list option \<times> proto_state) option" where
  "protocol_merge_methods first second protocolName kind st =
     (case second of
        None \<Rightarrow> Some (first, st)
      | Some s \<Rightarrow>
          if mdl_count s \<le> 0 then Some (first, st)
          else if mdl_size s < sizeof_method_description then
            Some (first, protocol_report_conflict protocolName kind (Some ''<invalid-list>'') st)
          else if bad_method_list first then
            Some (first, protocol_report_conflict protocolName kind (Some ''<invalid-canonical-list>'') st)
          else
            let firstItems = (case first of None \<Rightarrow> [] | Some f \<Rightarrow> mdl_items f);
                firstCount = (case first of None \<Rightarrow> 0 | Some f \<Rightarrow> nat (mdl_count f));
                secondCount = nat (mdl_count s) in
            if INT_MAX < firstCount + secondCount then None
            else
              do {
                bytes \<leftarrow> objc2_flexible_array_size True sizeof_method_description_list
                          (of_nat (firstCount + secondCount)) (of_int sizeof_method_description);
                let (st1, ok) = pr_alloc st;
                if \<not> ok then None
                else
                  let (merged, st2) = foldl (merge_method protocolName kind) (firstItems, st1) (mdl_items s)
                  in Some (Some \<lparr>mdl_count = int (length merged), mdl_size = sizeof_method_description,
                                 mdl_methods = merged\<rparr>, st2)
              })"

definition protocol_property_equal :: "objc_property \<Rightarrow> objc_property \<Rightarrow> bool" where
  "protocol_property_equal a b \<longleftrightarrow>
     protocol_string_equal (prop_attributes a) (prop_attributes b) \<and>
     protocol_string_equal (prop_type a) (prop_type b) \<and>
     protocol_string_equal (protocol_selector_name (prop_getter a)) (protocol_selector_name (prop_getter b)) \<and>
     protocol_string_equal (protocol_selector_name (prop_setter a)) (protocol_selector_name (prop_setter b))"

fun property_count_from :: "property_block list \<Rightarrow> size_t \<Rightarrow> size_t" where
  "property_count_from [] count = count"
| "property_count_from (b # bs) count =
     (if pb_count b < 0 \<or> pb_size b < sizeof_property then SIZE_MAX
      else if SIZE_MAX - count < of_int (pb_count b) then SIZE_MAX
      else property_count_from bs (count + of_int (pb_count b)))"

definition protocol_property_count :: "property_block list \<Rightarrow> size_t" where
  "protocol_property_count l = property_count_from l 0"

definition merge_property ::
  "string option \<Rightarrow> string \<Rightarrow> objc_property list \<times> proto_state \<Rightarrow> objc_property \<Rightarrow>
   objc_property list \<times> proto_state" where
  "merge_property protocolName kind ms candidate =
     (case ms of (merged, st) \<Rightarrow>
        (case first_index (\<lambda>q. protocol_string_equal (prop_name q) (prop_name candidate)) merged of
           Some found \<Rightarrow>
             if protocol_property_equal (merged ! found) candidate then (merged, st)
             else (merged, protocol_report_conflict protocolName kind (prop_name candidate) st)
         | None \<Rightarrow> (merged @ [candidate], st)))"

definition protocol_merge_properties ::
  "property_block list \<Rightarrow> property_block list \<Rightarrow> string option \<Rightarrow> string \<Rightarrow>
   proto_state \<Rightarrow> (property_block list \<times> proto_state) option" where
  "protocol_merge_properties first second protocolName kind st =
     (if second = [] then Some (first, st)
      else
        let firstCount = protocol_property_count first;
            secondCount = protocol_property_count second in
        if firstCount = SIZE_MAX \<or> secondCount = SIZE_MAX \<or> INT_MAX < unat firstCount \<or>
           INT_MAX - unat firstCount < unat secondCount then
          Some (first, protocol_report_conflict protocolName kind (Some ''<invalid-list>'') st)
        else
          do {
            bytes \<leftarrow> objc2_flexible_array_size True sizeof_property_list (firstCount + secondCount)
                      (of_int sizeof_property);
            let (st1, ok) = pr_alloc st;
            if \<not> ok then None
            else
              let (merged, st2) = foldl (merge_property protocolName kind)
                                    (concat (map pb_properties first), st1)
                                    (concat (map pb_properties second))
              in Some ([\<lparr>pb_count = int (length merged), pb_size = sizeof_property, pb_items = merged\<rparr>], st2)
          })"

text \<open>
  The entries of a chain of protocol lists. A chain that is longer than the number of lists
  allocated so far is cyclic, and the loops of the code do not end: \<open>None\<close>.
\<close>

fun chain_items :: "nat \<Rightarrow> proto_state \<Rightarrow> nat option \<Rightarrow> nat option list option" where
  "chain_items n st None = Some []"
| "chain_items 0 st (Some l) = None"
| "chain_items (Suc n) st (Some l) =
     do {
       b \<leftarrow> plists st l;
       rest \<leftarrow> chain_items n st (pl_next b);
       Some (pl_list b @ rest)
     }"

definition plist_items :: "proto_state \<Rightarrow> nat option \<Rightarrow> nat option list option" where
  "plist_items st l = chain_items (Suc (plist_brk st)) st l"

definition merge_adopted_step ::
  "proto_state \<Rightarrow> nat list \<Rightarrow> nat option \<Rightarrow> nat list option" where
  "merge_adopted_step st merged candidate =
     (case candidate of
        None \<Rightarrow> Some merged
      | Some c \<Rightarrow>
          do {
            r \<leftarrow> protos st c;
            Some (if p_name r = None then merged
                  else if list_ex (\<lambda>q. protocol_string_equal (proto_name st q) (p_name r)) merged then merged
                  else merged @ [c])
          })"

definition protocol_merge_adopted ::
  "nat option \<Rightarrow> nat option \<Rightarrow> proto_state \<Rightarrow> (nat option \<times> proto_state) option" where
  "protocol_merge_adopted first second st =
     (if second = None then Some (first, st)
      else
        do {
          xs \<leftarrow> plist_items st first;
          ys \<leftarrow> plist_items st second;
          if 2 ^ 64 \<le> length xs + length ys then None
          else
            do {
              bytes \<leftarrow> objc2_flexible_array_size True sizeof_protocol_list
                        (of_nat (length xs + length ys)) sizeof_pointer;
              let (st1, ok) = pr_alloc st;
              if \<not> ok then None
              else
                do {
                  merged \<leftarrow> foldM (merge_adopted_step st1) [] (xs @ ys);
                  let l = plist_brk st1;
                  Some (Some l,
                        (set_plist st1 l \<lparr>pl_next = None, pl_list = map Some merged\<rparr>)
                          \<lparr>plist_brk := Suc l\<rparr>)
                }
            }
        })"

definition makeProtocolEqualToProtocol :: "nat \<Rightarrow> nat \<Rightarrow> proto_state \<Rightarrow> proto_state option" where
  "makeProtocolEqualToProtocol p1 p2 st =
     do {
       r1 \<leftarrow> protos st p1;
       r2 \<leftarrow> protos st p2;
       (im, s1) \<leftarrow> protocol_merge_methods (p_instance_methods r1) (p_instance_methods r2)
                    (p_name r1) ''required instance method'' st;
       (cm, s2) \<leftarrow> protocol_merge_methods (p_class_methods r1) (p_class_methods r2)
                    (p_name r1) ''required class method'' s1;
       (pl, s3) \<leftarrow> protocol_merge_adopted (p_protocol_list r1) (p_protocol_list r2) s2;
       let m1 = r1\<lparr>p_instance_methods := im, p_class_methods := cm, p_protocol_list := pl\<rparr>;
       if protocol_hasOptionalMethodsAndProperties r1 \<and> protocol_hasOptionalMethodsAndProperties r2 then
         do {
           (oim, s4) \<leftarrow> protocol_merge_methods (p_optional_instance_methods r1)
                         (p_optional_instance_methods r2) (p_name r1) ''optional instance method'' s3;
           (ocm, s5) \<leftarrow> protocol_merge_methods (p_optional_class_methods r1)
                         (p_optional_class_methods r2) (p_name r1) ''optional class method'' s4;
           (pr, s6) \<leftarrow> protocol_merge_properties (p_properties r1) (p_properties r2)
                        (p_name r1) ''required instance property'' s5;
           (opr, s7) \<leftarrow> protocol_merge_properties (p_optional_properties r1) (p_optional_properties r2)
                        (p_name r1) ''optional instance property'' s6;
           let m2 = m1\<lparr>p_optional_instance_methods := oim, p_optional_class_methods := ocm,
                       p_properties := pr, p_optional_properties := opr\<rparr>;
           if protocol_hasClassProperties r1 \<and> protocol_hasClassProperties r2 then
             do {
               (cp, s8) \<leftarrow> protocol_merge_properties (p_class_properties r1) (p_class_properties r2)
                            (p_name r1) ''required class property'' s7;
               (ocp, s9) \<leftarrow> protocol_merge_properties (p_optional_class_properties r1)
                            (p_optional_class_properties r2) (p_name r1) ''optional class property'' s8;
               Some (set_proto s9 p1 (m2\<lparr>p_class_properties := cp, p_optional_class_properties := ocp\<rparr>))
             }
           else Some (set_proto s7 p1 m2)
         }
       else Some (set_proto s3 p1 m1)
     }"

section \<open>Initialisation\<close>

definition unique_protocol :: "proto_state \<Rightarrow> nat \<Rightarrow> (proto_state \<times> nat) option" where
  "unique_protocol st aProto =
     do {
       nm \<leftarrow> proto_name st aProto;
       (case protocol_for_name st nm of
          None \<Rightarrow> Some (protocol_table_insert st aProto, aProto)
        | Some oldProtocol \<Rightarrow>
            if oldProtocol \<noteq> aProto then
              do { s1 \<leftarrow> makeProtocolEqualToProtocol oldProtocol aProto st; Some (s1, oldProtocol) }
            else Some (st, oldProtocol))
     }"

definition protocol_version_gsv2 :: uintptr_t where "protocol_version_gsv2 = 4"

fun init_protocols :: "nat \<Rightarrow> proto_state \<Rightarrow> nat \<Rightarrow> proto_state option" where
  "init_protocols 0 st protocols = None"
| "init_protocols (Suc fuel) st protocols =
     do {
       b \<leftarrow> plists st protocols;
       foldM (\<lambda>s i. do {
                c \<leftarrow> plists s protocols;
                aProto \<leftarrow> pl_list c ! i;
                r \<leftarrow> protos s aProto;
                (case p_isa r of
                   Isa_Version version \<Rightarrow>
                     if version \<noteq> protocol_version_gsv2 then None
                     else
                       do {
                         let s1 = set_proto s aProto (r\<lparr>p_isa := Isa_Protocol\<rparr>);
                         s2 \<leftarrow> (case p_protocol_list r of
                                  None \<Rightarrow> Some s1
                                | Some l \<Rightarrow> init_protocols fuel s1 l);
                         (s3, q) \<leftarrow> unique_protocol s2 aProto;
                         d \<leftarrow> plists s3 protocols;
                         Some (set_plist s3 protocols (d\<lparr>pl_list := (pl_list d)[i := Some q]\<rparr>))
                       }
                 | Isa_IncompleteProtocol \<Rightarrow> None
                 | _ \<Rightarrow> Some s)
              }) st [0..<length (pl_list b)]
     }"

text \<open>
  \<open>init_protocols\<close> only ever returns \<open>YES\<close>, so the buffer of postponed lists stays empty and
  \<open>objc_init_protocols\<close> is the call alone. Every nested call marks one more protocol.
\<close>

definition objc_init_protocols :: "proto_state \<Rightarrow> nat \<Rightarrow> proto_state option" where
  "objc_init_protocols st protocols = init_protocols (Suc (proto_brk st)) st protocols"

section \<open>Queries\<close>

definition objc_getProtocol :: "proto_state \<Rightarrow> string option \<Rightarrow> nat option" where
  "objc_getProtocol st name = (case name of None \<Rightarrow> None | Some n \<Rightarrow> protocol_for_name st n)"

fun protocol_conformsToProtocol :: "nat \<Rightarrow> proto_state \<Rightarrow> nat option \<Rightarrow> nat option \<Rightarrow> bool option" where
  "protocol_conformsToProtocol 0 st p1 p2 = None"
| "protocol_conformsToProtocol (Suc fuel) st p1 p2 =
     (case (p1, p2) of
        (Some a, Some b) \<Rightarrow>
          do {
            na \<leftarrow> proto_name st a;
            nb \<leftarrow> proto_name st b;
            if na = nb then Some True
            else
              do {
                r \<leftarrow> protos st a;
                items \<leftarrow> plist_items st (p_protocol_list r);
                anyM (\<lambda>q. do {
                         c \<leftarrow> q;
                         nc \<leftarrow> proto_name st c;
                         if nc = nb then Some True
                         else protocol_conformsToProtocol fuel st (Some c) p2
                       }) items
              }
          }
      | _ \<Rightarrow> Some False)"

text \<open>
  The protocol lists of a class and of its superclasses, as \<open>class_getSuperclass\<close> walks them, are
  the argument \<open>adopted\<close>; \<open>None\<close> stands for the class pointer \<open>Nil\<close>.
\<close>

definition class_conformsToProtocol ::
  "nat \<Rightarrow> proto_state \<Rightarrow> nat option list option \<Rightarrow> nat option \<Rightarrow> bool option" where
  "class_conformsToProtocol fuel st adopted protocol =
     (case (adopted, protocol) of
        (Some ls, Some p) \<Rightarrow>
          anyM (\<lambda>l. do {
                   items \<leftarrow> plist_items st l;
                   anyM (\<lambda>q. protocol_conformsToProtocol fuel st q protocol) items
                 }) ls
      | _ \<Rightarrow> Some False)"

definition get_method_list :: "objc_protocol \<Rightarrow> bool \<Rightarrow> bool \<Rightarrow> method_description_list option" where
  "get_method_list p isRequiredMethod isInstanceMethod =
     (if isRequiredMethod then
        (if isInstanceMethod then p_instance_methods p else p_class_methods p)
      else if \<not> protocol_hasOptionalMethodsAndProperties p then None
      else if isInstanceMethod then p_optional_instance_methods p
      else p_optional_class_methods p)"

text \<open>A copied list and the count stored through the pointer; \<open>None\<close> is a null result.\<close>

definition protocol_copyMethodDescriptionList ::
  "bool \<Rightarrow> objc_protocol option \<Rightarrow> bool \<Rightarrow> bool \<Rightarrow>
   (selector option \<times> string option) list option \<times> uint32" where
  "protocol_copyMethodDescriptionList malloc_ok p isRequiredMethod isInstanceMethod =
     (case p of
        None \<Rightarrow> (None, 0)
      | Some r \<Rightarrow>
          (case get_method_list r isRequiredMethod isInstanceMethod of
             None \<Rightarrow> (None, 0)
           | Some l \<Rightarrow>
               if mdl_count l \<le> 0 then (None, 0)
               else if objc2_flexible_array_size True 0 (of_int (mdl_count l)) 16 = None then (None, 0)
               else if \<not> malloc_ok then (None, 0)
               else (Some (map (\<lambda>m. (md_selector m, Option.bind (md_selector m) sel_type)) (mdl_items l)),
                     of_int (mdl_count l))))"

definition protocol_copyProtocolList ::
  "bool \<Rightarrow> proto_state \<Rightarrow> objc_protocol option \<Rightarrow> nat option list option \<times> uint32" where
  "protocol_copyProtocolList malloc_ok st p =
     (case p of
        None \<Rightarrow> (None, 0)
      | Some r \<Rightarrow>
          (case Option.bind (p_protocol_list r) (plists st) of
             None \<Rightarrow> (None, 0)
           | Some b \<Rightarrow>
               if pl_list b = [] \<or> UINT_MAX < length (pl_list b) then (None, 0)
               else if objc2_flexible_array_size True 0 (of_nat (length (pl_list b))) sizeof_pointer = None
               then (None, 0)
               else if \<not> malloc_ok then (None, 0)
               else (Some (pl_list b), of_nat (length (pl_list b)))))"

definition property_lists :: "objc_protocol \<Rightarrow> bool \<Rightarrow> bool \<Rightarrow> property_block list" where
  "property_lists p isRequiredProperty isInstanceProperty =
     (if isInstanceProperty then
        (if isRequiredProperty then p_properties p else p_optional_properties p)
      else if isRequiredProperty then p_class_properties p else p_optional_class_properties p)"

fun count_properties :: "property_block list \<Rightarrow> nat \<Rightarrow> nat option" where
  "count_properties [] count = Some count"
| "count_properties (b # bs) count =
     (if pb_count b < 0 \<or> pb_size b < sizeof_property then None
      else if UINT_MAX - count < nat (pb_count b) then None
      else count_properties bs (count + nat (pb_count b)))"

definition protocol_copyPropertyList2 ::
  "bool \<Rightarrow> objc_protocol option \<Rightarrow> bool \<Rightarrow> bool \<Rightarrow> objc_property list option \<times> uint32" where
  "protocol_copyPropertyList2 malloc_ok p isRequiredProperty isInstanceProperty =
     (case p of
        None \<Rightarrow> (None, 0)
      | Some r \<Rightarrow>
          if \<not> protocol_hasOptionalMethodsAndProperties r then (None, 0)
          else if \<not> isInstanceProperty \<and> \<not> protocol_hasClassProperties r then (None, 0)
          else
            let properties = property_lists r isRequiredProperty isInstanceProperty in
            if properties = [] then (None, 0)
            else
              (case count_properties properties 0 of
                 None \<Rightarrow> (None, 0)
               | Some count \<Rightarrow>
                   if count = 0 \<or> UINT_MAX < count then (None, 0)
                   else if objc2_flexible_array_size True 0 (of_nat count) sizeof_pointer = None
                   then (None, 0)
                   else if \<not> malloc_ok then (None, 0)
                   else (Some (concat (map pb_properties properties)), of_nat count)))"

definition protocol_copyPropertyList ::
  "bool \<Rightarrow> objc_protocol option \<Rightarrow> objc_property list option \<times> uint32" where
  "protocol_copyPropertyList malloc_ok p = protocol_copyPropertyList2 malloc_ok p True True"

text \<open>The name of every property that is compared must not be null.\<close>

fun find_property :: "string \<Rightarrow> objc_property list \<Rightarrow> objc_property option option" where
  "find_property name [] = Some None"
| "find_property name (q # qs) =
     do { n \<leftarrow> prop_name q; if n = name then Some (Some q) else find_property name qs }"

definition protocol_getProperty ::
  "objc_protocol option \<Rightarrow> string option \<Rightarrow> bool \<Rightarrow> bool \<Rightarrow> objc_property option option" where
  "protocol_getProperty p name isRequiredProperty isInstanceProperty =
     (case (p, name) of
        (Some r, Some n) \<Rightarrow>
          if \<not> protocol_hasOptionalMethodsAndProperties r then Some None
          else if \<not> isInstanceProperty \<and> \<not> protocol_hasClassProperties r then Some None
          else find_property n
                 (concat (map pb_properties (property_lists r isRequiredProperty isInstanceProperty)))
      | _ \<Rightarrow> Some None)"

definition sel_getName :: "selector option \<Rightarrow> string" where
  "sel_getName s = (case s of None \<Rightarrow> ''<null selector>'' | Some x \<Rightarrow> sel_name x)"

text \<open>
  \<open>sel_isEqual\<close> only holds for selectors of one name, so the second half of the test of the
  code, equality of the names, decides.
\<close>

definition get_method_description ::
  "objc_protocol option \<Rightarrow> selector option \<Rightarrow> bool \<Rightarrow> bool \<Rightarrow> method_description option" where
  "get_method_description p aSel isRequiredMethod isInstanceMethod =
     (case (p, aSel) of
        (Some r, Some s) \<Rightarrow>
          (case get_method_list r isRequiredMethod isInstanceMethod of
             None \<Rightarrow> None
           | Some l \<Rightarrow> find (\<lambda>m. sel_getName (md_selector m) = sel_name s) (mdl_items l))
      | _ \<Rightarrow> None)"

definition protocol_getMethodDescription ::
  "objc_protocol option \<Rightarrow> selector option \<Rightarrow> bool \<Rightarrow> bool \<Rightarrow> selector option \<times> string option" where
  "protocol_getMethodDescription p aSel isRequiredMethod isInstanceMethod =
     (case get_method_description p aSel isRequiredMethod isInstanceMethod of
        None \<Rightarrow> (None, None)
      | Some m \<Rightarrow> (aSel, Option.bind (md_selector m) sel_type))"

definition protocol_getMethodTypeEncoding ::
  "objc_protocol option \<Rightarrow> selector option \<Rightarrow> bool \<Rightarrow> bool \<Rightarrow> string option" where
  "protocol_getMethodTypeEncoding p aSel isRequiredMethod isInstanceMethod =
     Option.bind (get_method_description p aSel isRequiredMethod isInstanceMethod) md_types"

definition protocol_getName :: "objc_protocol option \<Rightarrow> string option" where
  "protocol_getName p = Option.bind p p_name"

definition protocol_isEqual :: "proto_state \<Rightarrow> nat option \<Rightarrow> nat option \<Rightarrow> bool option" where
  "protocol_isEqual st p other =
     (case (p, other) of
        (Some a, Some b) \<Rightarrow>
          if a = b then Some True
          else do { ra \<leftarrow> protos st a; rb \<leftarrow> protos st b;
                    (case (p_name ra, p_name rb) of
                       (Some na, Some nb) \<Rightarrow> Some (na = nb)
                     | (None, None) \<Rightarrow> Some True
                     | _ \<Rightarrow> None) }
      | _ \<Rightarrow> Some False)"

definition objc_copyProtocolList :: "bool \<Rightarrow> proto_state \<Rightarrow> nat list option \<times> uint32" where
  "objc_copyProtocolList malloc_ok st =
     (let total_count = length (known_protocol_table st) in
      if total_count = 0 \<or> UINT_MAX < total_count then (None, 0)
      else if objc2_flexible_array_size True 0 (of_nat total_count) sizeof_pointer = None then (None, 0)
      else if \<not> malloc_ok then (None, 0)
      else (Some (known_protocol_table st), of_nat total_count))"

section \<open>Construction and registration\<close>

definition empty_protocol :: "proto_isa \<Rightarrow> string option \<Rightarrow> objc_protocol" where
  "empty_protocol isa nm =
     \<lparr>p_isa = isa, p_name = nm, p_protocol_list = None, p_instance_methods = None,
      p_class_methods = None, p_optional_instance_methods = None, p_optional_class_methods = None,
      p_properties = [], p_optional_properties = [], p_class_properties = [],
      p_optional_class_properties = []\<rparr>"

definition objc_allocateProtocol :: "proto_state \<Rightarrow> string option \<Rightarrow> proto_state \<times> nat option" where
  "objc_allocateProtocol st name =
     (case name of
        None \<Rightarrow> (st, None)
      | Some n \<Rightarrow>
          if n = [] \<or> objc_getProtocol st name \<noteq> None then (st, None)
          else
            let (s1, ok1) = pr_alloc st in
            if \<not> ok1 then (s1, None)
            else
              let (s2, ok2) = pr_alloc s1 in
              if \<not> ok2 then (s2, None)
              else ((set_proto s2 (proto_brk s2) (empty_protocol Isa_IncompleteProtocol (Some n)))
                      \<lparr>proto_brk := Suc (proto_brk s2)\<rparr>, Some (proto_brk s2)))"

definition register_protocol_definition :: "proto_state \<Rightarrow> nat \<Rightarrow> (proto_state \<times> nat) option" where
  "register_protocol_definition st proto =
     do {
       r \<leftarrow> protos st proto;
       nm \<leftarrow> p_name r;
       let existing = protocol_for_name st nm;
       let s1 = set_proto st proto (r\<lparr>p_isa := Isa_Protocol\<rparr>);
       (case existing of
          None \<Rightarrow>
            Some (emit_protocol_event EVENT_PROTOCOL_REGISTERED (Some proto) nm []
                    (protocol_table_insert s1 proto), proto)
        | Some e \<Rightarrow>
            do {
              s2 \<leftarrow> makeProtocolEqualToProtocol e proto s1;
              Some (emit_protocol_event EVENT_PROTOCOL_MERGED (Some e) nm [] s2, e)
            })
     }"

definition objc_registerProtocol :: "proto_state \<Rightarrow> nat option \<Rightarrow> proto_state option" where
  "objc_registerProtocol st proto =
     (case proto of
        None \<Rightarrow> Some st
      | Some p \<Rightarrow>
          do {
            r \<leftarrow> protos st p;
            if p_name r = None \<or> p_isa r \<noteq> Isa_IncompleteProtocol then Some st
            else map_option fst (register_protocol_definition st p)
          })"

definition registerProtocol :: "proto_state \<Rightarrow> nat option \<Rightarrow> proto_state option" where
  "registerProtocol st proto =
     (case proto of
        None \<Rightarrow> Some st
      | Some p \<Rightarrow>
          do {
            r \<leftarrow> protos st p;
            if p_name r = None then Some st
            else map_option fst (register_protocol_definition st p)
          })"

definition update_method_list ::
  "bool \<Rightarrow> bool \<Rightarrow> method_description_list option \<Rightarrow> objc_protocol \<Rightarrow> objc_protocol" where
  "update_method_list isRequiredMethod isInstanceMethod l p =
     (if isInstanceMethod then
        (if isRequiredMethod then p\<lparr>p_instance_methods := l\<rparr> else p\<lparr>p_optional_instance_methods := l\<rparr>)
      else if isRequiredMethod then p\<lparr>p_class_methods := l\<rparr> else p\<lparr>p_optional_class_methods := l\<rparr>)"

definition stored_method_list :: "bool \<Rightarrow> bool \<Rightarrow> objc_protocol \<Rightarrow> method_description_list option" where
  "stored_method_list isRequiredMethod isInstanceMethod p =
     (if isInstanceMethod then
        (if isRequiredMethod then p_instance_methods p else p_optional_instance_methods p)
      else if isRequiredMethod then p_class_methods p else p_optional_class_methods p)"

text \<open>
  \<open>reg\<close> is \<open>sel_registerTypedName_np\<close> of the selector table (\<open>None\<close>: no memory); \<open>dup_ok\<close> and
  \<open>realloc_ok\<close> are the outcomes of the two allocations.
\<close>

definition protocol_addMethodDescription ::
  "(string \<Rightarrow> string \<Rightarrow> selector option) \<Rightarrow> bool \<Rightarrow> bool \<Rightarrow> proto_state \<Rightarrow> nat option \<Rightarrow>
   selector option \<Rightarrow> string option \<Rightarrow> bool \<Rightarrow> bool \<Rightarrow> proto_state option" where
  "protocol_addMethodDescription reg dup_ok realloc_ok st aProtocol name types isRequiredMethod isInstanceMethod =
     (case (aProtocol, name, types) of
        (Some p, Some nm, Some ty) \<Rightarrow>
          do {
            r \<leftarrow> protos st p;
            if p_isa r \<noteq> Isa_IncompleteProtocol then Some st
            else
              let typedSelector = reg (sel_name nm) ty;
                  oldList = stored_method_list isRequiredMethod isInstanceMethod r;
                  oldItems = (case oldList of None \<Rightarrow> [] | Some l \<Rightarrow> mdl_items l);
                  oldCount = (case oldList of None \<Rightarrow> 0 | Some l \<Rightarrow> nat (mdl_count l));
                  stride = (case oldList of None \<Rightarrow> sizeof_method_description | Some l \<Rightarrow> mdl_size l) in
              if typedSelector = None \<or> \<not> dup_ok then Some st
              else if bad_method_list oldList then Some st
              else if INT_MAX \<le> oldCount then Some st
              else if objc2_flexible_array_size True sizeof_method_description_list
                        (of_nat (oldCount + 1)) (of_int stride) = None then Some st
              else if \<not> realloc_ok then Some st
              else
                Some (set_proto st p (update_method_list isRequiredMethod isInstanceMethod
                  (Some \<lparr>mdl_count = int (oldCount + 1),
                         mdl_size = (if oldCount = 0 then sizeof_method_description else stride),
                         mdl_methods = oldItems @ [\<lparr>md_selector = typedSelector, md_types = Some ty\<rparr>]\<rparr>) r))
          }
      | _ \<Rightarrow> Some st)"

text \<open>
  The list of an incomplete protocol is a single block that nothing else refers to; growing it
  with \<open>realloc\<close> gives it a new handle and frees the old one.
\<close>

definition protocol_addProtocol ::
  "bool \<Rightarrow> proto_state \<Rightarrow> nat option \<Rightarrow> nat option \<Rightarrow> proto_state option" where
  "protocol_addProtocol realloc_ok st aProtocol addition =
     (case (aProtocol, addition) of
        (Some p, Some a) \<Rightarrow>
          do {
            r \<leftarrow> protos st p;
            if p_isa r \<noteq> Isa_IncompleteProtocol then Some st
            else
              do {
                old \<leftarrow> (case p_protocol_list r of
                           None \<Rightarrow> Some \<lparr>pl_next = None, pl_list = []\<rparr>
                         | Some l \<Rightarrow> plists st l);
                let oldCount = length (pl_list old);
                if 2 ^ 64 \<le> Suc oldCount then Some st
                else if objc2_flexible_array_size True sizeof_protocol_list (of_nat (oldCount + 1))
                          sizeof_pointer = None then Some st
                else if \<not> realloc_ok then Some st
                else
                  let l = plist_brk st;
                      freed = (case p_protocol_list r of
                                 None \<Rightarrow> plists st | Some k \<Rightarrow> (plists st)(k := None));
                      s1 = st\<lparr>plists := freed(l \<mapsto>
                             \<lparr>pl_next = (if oldCount = 0 then None else pl_next old),
                              pl_list = pl_list old @ [Some a]\<rparr>), plist_brk := Suc l\<rparr>
                  in Some (set_proto s1 p (r\<lparr>p_protocol_list := Some l\<rparr>))
              }
          }
      | _ \<Rightarrow> Some st)"

definition update_property_list ::
  "bool \<Rightarrow> bool \<Rightarrow> property_block list \<Rightarrow> objc_protocol \<Rightarrow> objc_protocol" where
  "update_property_list isRequiredProperty isInstanceProperty l p =
     (if isInstanceProperty then
        (if isRequiredProperty then p\<lparr>p_properties := l\<rparr> else p\<lparr>p_optional_properties := l\<rparr>)
      else if isRequiredProperty then p\<lparr>p_class_properties := l\<rparr>
      else p\<lparr>p_optional_class_properties := l\<rparr>)"

text \<open>\<open>property\<close> is the result of \<open>propertyFromAttrs\<close> for the given attributes and name.\<close>

definition protocol_addProperty ::
  "bool \<Rightarrow> (string \<Rightarrow> objc_property) \<Rightarrow> proto_state \<Rightarrow> nat option \<Rightarrow> string option \<Rightarrow> bool \<Rightarrow> bool \<Rightarrow>
   proto_state option" where
  "protocol_addProperty realloc_ok property st aProtocol name isRequiredProperty isInstanceProperty =
     (case (aProtocol, name) of
        (Some p, Some n) \<Rightarrow>
          do {
            r \<leftarrow> protos st p;
            if p_isa r \<noteq> Isa_IncompleteProtocol then Some st
            else
              let blocks = property_lists r isRequiredProperty isInstanceProperty;
                  oldItems = (case blocks of [] \<Rightarrow> [] | b # _ \<Rightarrow> pb_properties b);
                  oldCount = (case blocks of [] \<Rightarrow> 0 | b # _ \<Rightarrow> nat (pb_count b));
                  stride = (case blocks of [] \<Rightarrow> sizeof_property | b # _ \<Rightarrow> pb_size b);
                  rest = (if oldCount = 0 then [] else tl blocks) in
              if (case blocks of [] \<Rightarrow> False | b # _ \<Rightarrow> pb_count b < 0 \<or> pb_size b < sizeof_property)
              then Some st
              else if INT_MAX \<le> oldCount then Some st
              else if objc2_flexible_array_size True sizeof_property_list (of_nat (oldCount + 1))
                        (of_int stride) = None then Some st
              else if \<not> realloc_ok then Some st
              else
                Some (set_proto st p (update_property_list isRequiredProperty isInstanceProperty
                  (\<lparr>pb_count = int (oldCount + 1),
                    pb_size = (if oldCount = 0 then sizeof_property else stride),
                    pb_items = oldItems @ [property n]\<rparr> # rest) r))
          }
      | _ \<Rightarrow> Some st)"

section \<open>The state at start-up\<close>

definition quiet_hooks :: hook_state where
  "quiet_hooks =
     \<lparr>runtime_event_sink = 0, runtime_event_context = 0, runtime_event_sequence = 0,
      runtime_mutation_epoch = 0, runtime_mutation_writer_lock = False,
      hook_vars = \<lparr>objc_lookup_class_hook = 0, objc_load_callback_hook = 0,
        objc_proxy_lookup_hook = 0, objc_msg_forward3_hook = 0, objc_msg_forward2_hook = 0,
        objc_class_for_boxing_foreign_exception_hook = 0, objc_selector_type_mismatch2_hook = 0,
        objc_selector_type_mismatch_hook = 0, objc_weak_load_hook = 0,
        objc_unexpected_exception = 0\<rparr>,
      delivered = []\<rparr>"

definition empty_proto_state :: proto_state where
  "empty_proto_state =
     \<lparr>protos = (\<lambda>_. None), proto_brk = 0, plists = (\<lambda>_. None), plist_brk = 0,
      known_protocol_table = [], protocol_merge_conflicts = 0, pr_hooks = quiet_hooks,
      pr_fails = (\<lambda>_. False), pr_attempts = 0\<rparr>"

end
