(* ===== verification/Objc_Protocol_Thms.thy ===== *)
theory Objc_Protocol_Thms
  imports Objc_Protocol
begin

text \<open>
  Correctness of \<open>src/runtime/protocol.c\<close>: merging duplicate definitions keeps the first
  definition of every member, registration makes one protocol per name canonical, conformance is
  reachability in the adoption graph, initialisation ends, and what is added to a protocol under
  construction is found again.
\<close>

section \<open>Merging by key\<close>

text \<open>
  The contract of one step of a merging loop: an element is appended when its key is new and
  ignored otherwise.
\<close>

locale merge_step =
  fixes step :: "'a list \<times> 's \<Rightarrow> 'a \<Rightarrow> 'a list \<times> 's"
    and key :: "'a \<Rightarrow> 'k"
  assumes step_law: "fst (step (xs, s) c) = (if key c \<in> key ` set xs then xs else xs @ [c])"
begin

lemma step_cases:
  obtains s' where "key c \<in> key ` set xs" "step (xs, s) c = (xs, s')"
  | s' where "key c \<notin> key ` set xs" "step (xs, s) c = (xs @ [c], s')"
  using step_law [of xs s c] by (metis prod.collapse)

lemma merge_prefix: "\<exists>zs. fst (foldl step (xs, s) cs) = xs @ zs \<and> set zs \<subseteq> set cs"
proof (induction cs arbitrary: xs s)
  case (Cons c cs)
  show ?case
  proof (cases rule: step_cases [of c xs s])
    case (1 s')
    with Cons.IH [of xs s'] show ?thesis by auto
  next
    case (2 s')
    with Cons.IH [of "xs @ [c]" s'] show ?thesis by auto
  qed
qed simp

lemma merge_distinct: "distinct (map key xs) \<Longrightarrow> distinct (map key (fst (foldl step (xs, s) cs)))"
proof (induction cs arbitrary: xs s)
  case (Cons c cs)
  show ?case
    by (cases rule: step_cases [of c xs s]) (use Cons in auto)
qed simp

lemma merge_find:
  "find (\<lambda>x. key x = k) (fst (foldl step (xs, s) cs)) =
     (case find (\<lambda>x. key x = k) xs of Some y \<Rightarrow> Some y | None \<Rightarrow> find (\<lambda>x. key x = k) cs)"
proof (induction cs arbitrary: xs s)
  case Nil
  then show ?case by (simp split: option.split)
next
  case (Cons c cs)
  have app: "find P (xs @ ys) = (case find P xs of Some y \<Rightarrow> Some y | None \<Rightarrow> find P ys)"
    for P :: "'a \<Rightarrow> bool" and xs ys by (induction xs) auto
  show ?case
  proof (cases rule: step_cases [of c xs s])
    case (1 s')
    then have "key c = k \<Longrightarrow> find (\<lambda>x. key x = k) xs \<noteq> None" by (auto simp: find_None_iff)
    with 1 Cons.IH [of xs s'] show ?thesis by (auto split: option.split)
  next
    case (2 s')
    with Cons.IH [of "xs @ [c]" s'] show ?thesis by (simp add: app split: option.split)
  qed
qed

end

lemma first_index_None: "first_index P xs = None \<longleftrightarrow> (\<forall>x\<in>set xs. \<not> P x)"
  by (induction xs) auto

lemma first_index_Some: "first_index P xs = Some i \<Longrightarrow> i < length xs \<and> P (xs ! i)"
  by (induction xs arbitrary: i) (auto split: if_splits)

lemma first_index_key: "first_index (\<lambda>x. key x = k) xs = Some i \<Longrightarrow> k \<in> key ` set xs"
  by (drule first_index_Some) (auto intro: rev_image_eqI)

abbreviation method_key :: "method_description \<Rightarrow> string option" where
  "method_key d \<equiv> protocol_selector_name (md_selector d)"

interpretation methods: merge_step "merge_method n k" method_key for n k
  by unfold_locales
     (auto simp: merge_method_def protocol_string_equal_def first_index_None
        dest: first_index_key split: option.splits if_splits)

interpretation properties: merge_step "merge_property n k" prop_name for n k
  by unfold_locales
     (auto simp: merge_property_def protocol_string_equal_def first_index_None
        dest: first_index_key split: option.splits if_splits)

section \<open>Merged method and property lists\<close>

text \<open>The entries of a list that may be null.\<close>

definition mdl_entries :: "method_description_list option \<Rightarrow> method_description list" where
  "mdl_entries l = (case l of None \<Rightarrow> [] | Some m \<Rightarrow> mdl_items m)"

text \<open>A list whose header agrees with its storage.\<close>

definition mdl_ok :: "method_description_list option \<Rightarrow> bool" where
  "mdl_ok l = (case l of None \<Rightarrow> True
     | Some m \<Rightarrow> mdl_count m = int (length (mdl_methods m)) \<and> sizeof_method_description \<le> mdl_size m)"

lemma mdl_entries_simps [simp]:
  "mdl_entries None = []"
  "mdl_entries (Some \<lparr>mdl_count = int (length ms), mdl_size = sz, mdl_methods = ms\<rparr>) = ms"
  by (simp_all add: mdl_entries_def mdl_items_def)

lemma mdl_ok_entries: "mdl_ok (Some m) \<Longrightarrow> mdl_items m = mdl_methods m"
  by (simp add: mdl_ok_def mdl_items_def)

text \<open>
  C18: Merging two method lists of duplicate protocol definitions. For lists whose headers are
  consistent the merge is defined (when memory is available) and every selector name resolves in
  the result to the first list's description if the first list describes it, and to the second
  list's first description otherwise. The first list is a prefix of the result, and the result
  has no two entries of one name if the first list has none.
\<close>

theorem protocol_merge_first_wins:
  assumes "mdl_ok first" "mdl_ok second"
    and "length (mdl_entries first) + length (mdl_entries second) \<le> INT_MAX"
    and "\<not> pr_fails st (pr_attempts st)"
  shows "\<exists>merged st'. protocol_merge_methods first second nm kind st = Some (merged, st') \<and> mdl_ok merged \<and>
    (\<forall>k. find (\<lambda>d. method_key d = k) (mdl_entries merged) =
      (case find (\<lambda>d. method_key d = k) (mdl_entries first) of
         Some d \<Rightarrow> Some d | None \<Rightarrow> find (\<lambda>d. method_key d = k) (mdl_entries second))) \<and>
    (\<exists>new. mdl_entries merged = mdl_entries first @ new \<and> set new \<subseteq> set (mdl_entries second)) \<and>
    (distinct (map method_key (mdl_entries first)) \<longrightarrow> distinct (map method_key (mdl_entries merged)))"
proof (cases "mdl_entries second = []")
  case True
  then have "protocol_merge_methods first second nm kind st = Some (first, st)"
    using assms(2) by (auto simp: protocol_merge_methods_def mdl_entries_def mdl_ok_def mdl_items_def
        split: option.splits)
  with assms True show ?thesis by (auto split: option.split)
next
  case False
  then obtain s where s: "second = Some s" by (cases second) simp_all
  have items: "mdl_items s = mdl_methods s" "mdl_count s = int (length (mdl_methods s))"
    "sizeof_method_description \<le> mdl_size s"
    using assms(2) by (simp_all add: s mdl_ok_entries) (simp_all add: mdl_ok_def)
  have firstCount: "(case first of None \<Rightarrow> 0 | Some f \<Rightarrow> nat (mdl_count f)) = length (mdl_entries first)"
    "(case first of None \<Rightarrow> [] | Some f \<Rightarrow> mdl_items f) = mdl_entries first"
    "\<not> bad_method_list first"
    using assms(1) by (auto simp: mdl_ok_def mdl_entries_def mdl_items_def bad_method_list_def split: option.splits)
  have len: "length (mdl_entries first) + length (mdl_methods s) \<le> INT_MAX"
    using assms(3) items by (simp add: s mdl_entries_def)
  note bytes = flexible_small [OF len]
  let ?st1 = "st\<lparr>pr_attempts := Suc (pr_attempts st)\<rparr>"
  obtain ms st' where ms: "foldl (merge_method nm kind) (mdl_entries first, ?st1) (mdl_methods s) = (ms, st')"
    by force
  have "mdl_methods s \<noteq> []" using False items by (simp add: s mdl_entries_def)
  then have eq: "protocol_merge_methods first second nm kind st =
      Some (Some \<lparr>mdl_count = int (length ms), mdl_size = sizeof_method_description, mdl_methods = ms\<rparr>, st')"
    using assms(4) items bytes len ms firstCount(3)
    unfolding protocol_merge_methods_def s option.case firstCount(1,2) Let_def
    by (simp add: pr_alloc_def sizeof_method_description_list_def sizeof_method_description_def)
  have fst_ms: "ms = fst (foldl (merge_method nm kind) (mdl_entries first, ?st1) (mdl_entries second))"
    using ms items by (simp add: s mdl_entries_def)
  show ?thesis
    unfolding eq using methods.merge_find [of _ nm kind "mdl_entries first" ?st1 "mdl_entries second"]
      methods.merge_prefix [of nm kind "mdl_entries first" ?st1 "mdl_entries second"]
      methods.merge_distinct [of "mdl_entries first" nm kind ?st1 "mdl_entries second"]
    unfolding fst_ms [symmetric] by (auto simp: mdl_ok_def)
qed

text \<open>Two methods described in both lists with different types, and one in the second only.\<close>

definition demo_first :: method_description_list where
  "demo_first = \<lparr>mdl_count = 1, mdl_size = 16,
     mdl_methods = [\<lparr>md_selector = Some \<lparr>sel_name = ''count'', sel_type = None\<rparr>, md_types = Some ''i16@0:8''\<rparr>]\<rparr>"

definition demo_second :: method_description_list where
  "demo_second = \<lparr>mdl_count = 2, mdl_size = 16,
     mdl_methods = [\<lparr>md_selector = Some \<lparr>sel_name = ''count'', sel_type = None\<rparr>, md_types = Some ''q16@0:8''\<rparr>,
                    \<lparr>md_selector = Some \<lparr>sel_name = ''clear'', sel_type = None\<rparr>, md_types = Some ''v16@0:8''\<rparr>]\<rparr>"

theorem protocol_merge_first_wins_witness:
  "\<exists>merged st'. protocol_merge_methods (Some demo_first) (Some demo_second) (Some ''Bag'') ''method''
       empty_proto_state = Some (merged, st') \<and>
     find (\<lambda>d. method_key d = Some ''count'') (mdl_entries merged) = Some (mdl_methods demo_first ! 0)"
proof -
  have "mdl_ok (Some demo_first)" "mdl_ok (Some demo_second)"
    by (simp_all add: mdl_ok_def demo_first_def demo_second_def sizeof_method_description_def)
  moreover have "length (mdl_entries (Some demo_first)) + length (mdl_entries (Some demo_second)) \<le> INT_MAX"
    by (simp add: mdl_entries_def mdl_items_def demo_first_def demo_second_def INT_MAX_def)
  moreover have "\<not> pr_fails empty_proto_state (pr_attempts empty_proto_state)"
    by (simp add: empty_proto_state_def)
  moreover have "find (\<lambda>d. method_key d = Some ''count'') (mdl_entries (Some demo_first)) =
      Some (mdl_methods demo_first ! 0)"
    by (simp add: mdl_entries_def mdl_items_def demo_first_def protocol_selector_name_def)
  ultimately show ?thesis
    using protocol_merge_first_wins [of "Some demo_first" "Some demo_second" empty_proto_state] by fastforce
qed

section \<open>Registration\<close>

text \<open>What a merge leaves alone.\<close>

definition proto_frame :: "proto_state \<Rightarrow> proto_state \<Rightarrow> bool" where
  "proto_frame st st' \<longleftrightarrow> protos st' = protos st \<and> known_protocol_table st' = known_protocol_table st \<and>
     proto_brk st' = proto_brk st"

lemma proto_frame_refl [simp]: "proto_frame st st"
  by (simp add: proto_frame_def)

lemma proto_frame_trans: "proto_frame a b \<Longrightarrow> proto_frame b c \<Longrightarrow> proto_frame a c"
  by (simp add: proto_frame_def)

lemma emit_frame [simp]: "proto_frame st (emit_protocol_event k p n d st)"
  by (simp add: emit_protocol_event_def proto_frame_def)

lemma report_frame [simp]: "proto_frame st (protocol_report_conflict n k m st)"
  by (simp add: protocol_report_conflict_def Let_def emit_protocol_event_def proto_frame_def)

lemma alloc_frame: "pr_alloc st = (st', ok) \<Longrightarrow> proto_frame st st'"
  by (auto simp: pr_alloc_def proto_frame_def)

lemma merge_method_frame: "proto_frame s (snd (foldl (merge_method n k) (xs, s) cs))"
proof (induction cs arbitrary: xs s)
  case (Cons c cs)
  obtain ys s' where "merge_method n k (xs, s) c = (ys, s')" by force
  moreover from this have "proto_frame s s'"
    by (auto simp: merge_method_def split: option.splits if_splits)
  ultimately show ?case using Cons.IH [of s' ys] proto_frame_trans by simp
qed simp

lemma merge_property_frame: "proto_frame s (snd (foldl (merge_property n k) (xs, s) cs))"
proof (induction cs arbitrary: xs s)
  case (Cons c cs)
  obtain ys s' where "merge_property n k (xs, s) c = (ys, s')" by force
  moreover from this have "proto_frame s s'"
    by (auto simp: merge_property_def split: option.splits if_splits)
  ultimately show ?case using Cons.IH [of s' ys] proto_frame_trans by simp
qed simp

lemma attempts_frame [simp]: "proto_frame (st\<lparr>pr_attempts := n\<rparr>) st' = proto_frame st st'"
  by (simp add: proto_frame_def)

lemma merge_methods_frame:
  assumes "protocol_merge_methods first second n k st = Some (l, st')"
  shows "proto_frame st st'"
proof -
  have "foldl (merge_method n k) (xs, s) cs = (ys, s') \<Longrightarrow> proto_frame s s'" for xs s cs ys s'
    using merge_method_frame [of s n k xs cs] by simp
  from this [of _ "st\<lparr>pr_attempts := Suc (pr_attempts st)\<rparr>"] show ?thesis using assms
    by (auto simp: protocol_merge_methods_def Let_def pr_alloc_def
        split: option.splits if_splits prod.splits bind_splits)
qed

lemma merge_properties_frame:
  assumes "protocol_merge_properties first second n k st = Some (l, st')"
  shows "proto_frame st st'"
proof -
  have "foldl (merge_property n k) (xs, s) cs = (ys, s') \<Longrightarrow> proto_frame s s'" for xs s cs ys s'
    using merge_property_frame [of s n k xs cs] by simp
  from this [of _ "st\<lparr>pr_attempts := Suc (pr_attempts st)\<rparr>"] show ?thesis using assms
    by (auto simp: protocol_merge_properties_def Let_def pr_alloc_def
        split: if_splits prod.splits bind_splits)
qed

lemma merge_adopted_frame:
  assumes "protocol_merge_adopted first second st = Some (l, st')"
  shows "proto_frame st st'"
  using assms alloc_frame [of st]
  by (fastforce simp: protocol_merge_adopted_def Let_def set_plist_def proto_frame_def
      split: if_splits prod.splits bind_splits)

lemma make_equal_frame:
  assumes "makeProtocolEqualToProtocol p1 p2 st = Some st'"
  obtains r1 r where "protos st p1 = Some r1" "p_name r = p_name r1" "p_isa r = p_isa r1"
    "protos st' = (protos st)(p1 \<mapsto> r)" "known_protocol_table st' = known_protocol_table st"
    "proto_brk st' = proto_brk st"
proof -
  let ?goal = "\<lambda>r1 st' s r. p_name r = p_name r1 \<and> p_isa r = p_isa r1 \<and> st' = set_proto s p1 r \<and> proto_frame st s"
  from assms obtain r1 r2 im s1 cm s2 pl s3 where r: "protos st p1 = Some r1" "protos st p2 = Some r2"
    and m: "protocol_merge_methods (p_instance_methods r1) (p_instance_methods r2)
        (p_name r1) ''required instance method'' st = Some (im, s1)"
      "protocol_merge_methods (p_class_methods r1) (p_class_methods r2)
        (p_name r1) ''required class method'' s1 = Some (cm, s2)"
      "protocol_merge_adopted (p_protocol_list r1) (p_protocol_list r2) s2 = Some (pl, s3)"
    unfolding makeProtocolEqualToProtocol_def by (fastforce split: bind_splits prod.splits)
  have f3: "proto_frame st s3"
    by (rule proto_frame_trans [OF proto_frame_trans [OF merge_methods_frame [OF m(1)]
          merge_methods_frame [OF m(2)]] merge_adopted_frame [OF m(3)]])
  let ?m1 = "r1\<lparr>p_instance_methods := im, p_class_methods := cm, p_protocol_list := pl\<rparr>"
  have "\<exists>s r. ?goal r1 st' s r"
  proof (cases "protocol_hasOptionalMethodsAndProperties r1 \<and> protocol_hasOptionalMethodsAndProperties r2")
    case False
    with assms r m have "st' = set_proto s3 p1 ?m1"
      by (simp add: makeProtocolEqualToProtocol_def Let_def)
    with f3 show ?thesis by (intro exI [of _ s3] exI [of _ ?m1]) simp
  next
    case True
    with assms r m obtain oim s4 ocm s5 pr s6 opr s7 where
      n: "protocol_merge_methods (p_optional_instance_methods r1) (p_optional_instance_methods r2)
            (p_name r1) ''optional instance method'' s3 = Some (oim, s4)"
        "protocol_merge_methods (p_optional_class_methods r1) (p_optional_class_methods r2)
            (p_name r1) ''optional class method'' s4 = Some (ocm, s5)"
        "protocol_merge_properties (p_properties r1) (p_properties r2)
            (p_name r1) ''required instance property'' s5 = Some (pr, s6)"
        "protocol_merge_properties (p_optional_properties r1) (p_optional_properties r2)
            (p_name r1) ''optional instance property'' s6 = Some (opr, s7)"
      by (simp add: makeProtocolEqualToProtocol_def Let_def) (fastforce split: bind_splits prod.splits)
    have f7: "proto_frame st s7"
      by (rule proto_frame_trans [OF f3 proto_frame_trans [OF proto_frame_trans [OF merge_methods_frame [OF n(1)]
            merge_methods_frame [OF n(2)]] proto_frame_trans [OF merge_properties_frame [OF n(3)]
            merge_properties_frame [OF n(4)]]]])
    let ?m2 = "?m1\<lparr>p_optional_instance_methods := oim, p_optional_class_methods := ocm,
      p_properties := pr, p_optional_properties := opr\<rparr>"
    show ?thesis
    proof (cases "protocol_hasClassProperties r1 \<and> protocol_hasClassProperties r2")
      case False
      with True assms r m n have "st' = set_proto s7 p1 ?m2"
        by (simp add: makeProtocolEqualToProtocol_def Let_def)
      with f7 show ?thesis by (intro exI [of _ s7] exI [of _ ?m2]) simp
    next
      case cls: True
      with True assms r m n obtain cp s8 ocp s9 where c:
        "protocol_merge_properties (p_class_properties r1) (p_class_properties r2)
            (p_name r1) ''required class property'' s7 = Some (cp, s8)"
        "protocol_merge_properties (p_optional_class_properties r1) (p_optional_class_properties r2)
            (p_name r1) ''optional class property'' s8 = Some (ocp, s9)"
        "st' = set_proto s9 p1 (?m2\<lparr>p_class_properties := cp, p_optional_class_properties := ocp\<rparr>)"
        by (simp add: makeProtocolEqualToProtocol_def Let_def) (fastforce split: bind_splits prod.splits)
      have "proto_frame st s9"
        by (rule proto_frame_trans [OF f7 proto_frame_trans [OF merge_properties_frame [OF c(1)]
              merge_properties_frame [OF c(2)]]])
      with c(3) show ?thesis
        by (intro exI [of _ s9] exI [of _ "?m2\<lparr>p_class_properties := cp, p_optional_class_properties := ocp\<rparr>"]) simp
    qed
  qed
  then show thesis using that r by (auto simp: proto_frame_def set_proto_def)
qed

text \<open>The table of known protocols holds one protocol per name.\<close>

definition known_ok :: "proto_state \<Rightarrow> bool" where
  "known_ok st \<longleftrightarrow> None \<notin> set (map (proto_name st) (known_protocol_table st)) \<and>
     distinct (map (proto_name st) (known_protocol_table st))"

lemma names_frame: "proto_frame st st' \<Longrightarrow> proto_name st' = proto_name st"
  by (rule ext) (simp add: proto_frame_def proto_name_def)

lemma make_equal_names:
  assumes "makeProtocolEqualToProtocol p1 p2 st = Some st'"
  shows "proto_name st' = proto_name st" "known_protocol_table st' = known_protocol_table st"
  using assms by (auto elim!: make_equal_frame simp: proto_name_def)

lemma known_cong:
  assumes "proto_name st' = proto_name st" "known_protocol_table st' = known_protocol_table st"
  shows "known_ok st' = known_ok st" "protocol_for_name st' = protocol_for_name st"
  using assms by (auto simp: known_ok_def protocol_for_name_def)

lemma protocol_for_name_insert:
  "protocol_for_name (protocol_table_insert st p) n =
     (case protocol_for_name st n of Some x \<Rightarrow> Some x
      | None \<Rightarrow> if proto_name st p = Some n then Some p else None)"
proof -
  have "proto_name (protocol_table_insert st p) = proto_name st"
    by (rule ext) (simp add: proto_name_def protocol_table_insert_def)
  moreover have "find P (xs @ [p]) = (case find P xs of Some y \<Rightarrow> Some y | None \<Rightarrow> if P p then Some p else None)"
    for P xs by (induction xs) auto
  ultimately show ?thesis by (simp add: protocol_for_name_def protocol_table_insert_def)
qed

lemma known_ok_insert:
  assumes "known_ok st" "proto_name st p = Some n" "protocol_for_name st n = None"
  shows "known_ok (protocol_table_insert st p)"
proof -
  have "proto_name (protocol_table_insert st p) = proto_name st"
    by (rule ext) (simp add: proto_name_def protocol_table_insert_def)
  moreover have "Some n \<notin> proto_name st ` set (known_protocol_table st)"
    using assms(3) by (auto simp: protocol_for_name_def find_None_iff)
  ultimately show ?thesis using assms(1,2) by (simp add: known_ok_def protocol_table_insert_def)
qed


definition one_protocol :: proto_state where
  "one_protocol = empty_proto_state\<lparr>protos := [0 \<mapsto> empty_protocol (Isa_Version 4) (Some ''Bag'')],
     proto_brk := 1\<rparr>"


section \<open>Conformance\<close>

text \<open>One protocol adopts another when the other is in the chain of its list.\<close>

definition adopts :: "proto_state \<Rightarrow> nat \<Rightarrow> nat \<Rightarrow> bool" where
  "adopts st a b \<longleftrightarrow> (\<exists>r items. protos st a = Some r \<and>
     plist_items st (p_protocol_list r) = Some items \<and> Some b \<in> set items)"

text \<open>
  A hierarchy that can be walked: every protocol has a name, the chains end, no entry is null
  or dangling, and a rank decreases along adoption, so that no protocol adopts itself through
  others.
\<close>

definition hierarchy :: "proto_state \<Rightarrow> (nat \<Rightarrow> nat) \<Rightarrow> bool" where
  "hierarchy st rank \<longleftrightarrow>
     (\<forall>a r. protos st a = Some r \<longrightarrow> p_name r \<noteq> None \<and>
        (\<exists>items. plist_items st (p_protocol_list r) = Some items \<and>
           (\<forall>q \<in> set items. \<exists>b. q = Some b \<and> protos st b \<noteq> None \<and> rank b < rank a)))"

lemma anyM_total:
  assumes "\<And>x. x \<in> set xs \<Longrightarrow> f x = Some (P x)"
  shows "anyM f xs = Some (\<exists>x \<in> set xs. P x)"
  using assms by (induction xs) auto

lemma conforms_rank:
  assumes "hierarchy st rank" "protos st a \<noteq> None" "protos st b \<noteq> None" "rank a < fuel"
  shows "protocol_conformsToProtocol fuel st (Some a) (Some b) =
    Some (\<exists>c. (adopts st)\<^sup>*\<^sup>* a c \<and> proto_name st c = proto_name st b)"
  using assms(2,4)
proof (induction fuel arbitrary: a)
  case (Suc fuel)
  obtain r where r: "protos st a = Some r" using Suc.prems(1) by blast
  obtain rb nb where rb: "protos st b = Some rb" "p_name rb = Some nb"
    using assms(1,3) unfolding hierarchy_def by (metis option.exhaust)
  obtain na items where h: "p_name r = Some na" "plist_items st (p_protocol_list r) = Some items"
    "\<And>q. q \<in> set items \<Longrightarrow> \<exists>c. q = Some c \<and> protos st c \<noteq> None \<and> rank c < rank a"
    using assms(1) r unfolding hierarchy_def by (metis option.exhaust)
  let ?reach = "\<lambda>c. \<exists>d. (adopts st)\<^sup>*\<^sup>* c d \<and> proto_name st d = Some nb"
  have names: "proto_name st a = Some na" "proto_name st b = Some nb"
    using r h rb by (simp_all add: proto_name_def)
  have step: "adopts st a c \<longleftrightarrow> Some c \<in> set items" for c using r h(2) by (auto simp: adopts_def)
  let ?f = "\<lambda>q. do { c \<leftarrow> q; nc \<leftarrow> proto_name st c; if nc = nb then Some True
      else protocol_conformsToProtocol fuel st (Some c) (Some b) }"
  have f: "?f q = Some (case q of None \<Rightarrow> False | Some c \<Rightarrow> ?reach c)" if "q \<in> set items" for q
  proof -
    obtain c where c: "q = Some c" "protos st c \<noteq> None" "rank c < rank a" using h(3) [OF \<open>q \<in> set items\<close>] by blast
    then obtain nc where nc: "proto_name st c = Some nc"
      using assms(1) by (fastforce simp: hierarchy_def proto_name_def)
    show ?thesis
    proof (cases "nc = nb")
      case True
      then show ?thesis using c nc by auto
    next
      case False
      have "rank c < fuel" using c(3) Suc.prems(2) by simp
      from Suc.IH [OF c(2) this] show ?thesis using c nc False names by simp
    qed
  qed
  have reach: "?reach a \<longleftrightarrow> na = nb \<or> (\<exists>q \<in> set items. case q of None \<Rightarrow> False | Some c \<Rightarrow> ?reach c)"
  proof -
    have "?reach a \<longleftrightarrow> na = nb \<or> (\<exists>c. adopts st a c \<and> ?reach c)"
      using names by (metis converse_rtranclp_into_rtranclp converse_rtranclpE option.inject rtranclp.rtrancl_refl)
    also have "\<dots> \<longleftrightarrow> na = nb \<or> (\<exists>q \<in> set items. case q of None \<Rightarrow> False | Some c \<Rightarrow> ?reach c)"
      unfolding step by (auto split: option.splits)
    finally show ?thesis .
  qed
  show ?case
  proof (cases "na = nb")
    case True
    then show ?thesis using names reach by simp
  next
    case False
    then show ?thesis using names reach anyM_total [of items, OF f] r h(2) by simp
  qed
qed simp


text \<open>Protocol 0 adopts protocol 1, protocol 1 adopts protocol 2.\<close>

definition three_protocols :: proto_state where
  "three_protocols = empty_proto_state\<lparr>
     protos := [0 \<mapsto> (empty_protocol Isa_Protocol (Some ''A''))\<lparr>p_protocol_list := Some 0\<rparr>,
                1 \<mapsto> (empty_protocol Isa_Protocol (Some ''B''))\<lparr>p_protocol_list := Some 1\<rparr>,
                2 \<mapsto> empty_protocol Isa_Protocol (Some ''C'')],
     proto_brk := 3,
     plists := [0 \<mapsto> \<lparr>pl_next = None, pl_list = [Some 1]\<rparr>, 1 \<mapsto> \<lparr>pl_next = None, pl_list = [Some 2]\<rparr>],
     plist_brk := 2\<rparr>"

lemma three_hierarchy: "hierarchy three_protocols (\<lambda>p. 3 - p)"
  by (auto simp: hierarchy_def three_protocols_def empty_protocol_def plist_items_def
      numeral_2_eq_2 split: if_splits)


text \<open>A protocol that was made to adopt itself, and another protocol.\<close>

definition self_adopting :: proto_state where
  "self_adopting = empty_proto_state\<lparr>
     protos := [0 \<mapsto> (empty_protocol Isa_Protocol (Some ''A''))\<lparr>p_protocol_list := Some 0\<rparr>,
                1 \<mapsto> empty_protocol Isa_Protocol (Some ''B'')],
     proto_brk := 2,
     plists := [0 \<mapsto> \<lparr>pl_next = None, pl_list = [Some 0]\<rparr>],
     plist_brk := 1\<rparr>"


section \<open>Protocols under construction\<close>

text \<open>
  A method description added to a protocol under construction is found again. If the list
  it goes to has a consistent header and describes no method of that name yet, then after
  \<open>protocol_addMethodDescription\<close> the description queries return the selector asked for, the
  types of the registered selector and the given type encoding; queries for other names and
  for the three other lists are unchanged.
\<close>

theorem protocol_add_then_get:
  assumes "protos st p = Some r" "p_isa r = Isa_IncompleteProtocol"
    and "reg (sel_name nm) ty = Some ts" "sel_name ts = sel_name nm"
    and "mdl_ok (stored_method_list req inst r)" "length (mdl_entries (stored_method_list req inst r)) < INT_MAX"
    and "case stored_method_list req inst r of None \<Rightarrow> True | Some l \<Rightarrow> mdl_size l = sizeof_method_description"
    and "get_method_description (Some r) (Some nm) req inst = None"
  shows "\<exists>st' r'. protocol_addMethodDescription reg True True st (Some p) (Some nm) (Some ty) req inst = Some st' \<and>
    protos st' p = Some r' \<and>
    protocol_getMethodDescription (Some r') (Some nm) req inst = (Some nm, sel_type ts) \<and>
    protocol_getMethodTypeEncoding (Some r') (Some nm) req inst = Some ty \<and>
    (\<forall>other. sel_name other \<noteq> sel_name nm \<longrightarrow>
       get_method_description (Some r') (Some other) req inst = get_method_description (Some r) (Some other) req inst) \<and>
    (\<forall>s req' inst'. (req', inst') \<noteq> (req, inst) \<longrightarrow>
       get_method_description (Some r') s req' inst' = get_method_description (Some r) s req' inst')"
proof -
  let ?old = "stored_method_list req inst r"
  let ?n = "length (mdl_entries ?old)"
  let ?m = "\<lparr>md_selector = Some ts, md_types = Some ty\<rparr>"
  define new where "new = \<lparr>mdl_count = int (?n + 1), mdl_size = sizeof_method_description,
      mdl_methods = mdl_entries ?old @ [?m]\<rparr>"
  let ?r' = "update_method_list req inst (Some new) r"
  have old: "(case ?old of None \<Rightarrow> [] | Some l \<Rightarrow> mdl_items l) = mdl_entries ?old"
    "(case ?old of None \<Rightarrow> 0 | Some l \<Rightarrow> nat (mdl_count l)) = ?n" "\<not> bad_method_list ?old"
    using assms(5) by (auto simp: mdl_ok_def mdl_entries_def mdl_items_def bad_method_list_def split: option.splits)
  have stride: "(case ?old of None \<Rightarrow> sizeof_method_description | Some l \<Rightarrow> mdl_size l) = sizeof_method_description"
    using assms(7) by (simp split: option.splits)
  have size_ok: "objc2_flexible_array_size True sizeof_method_description_list (of_nat (?n + 1))
      (of_int sizeof_method_description) \<noteq> None"
    using flexible_small [of "?n + 1"] assms(6)
    by (simp add: sizeof_method_description_list_def sizeof_method_description_def)
  have get_old: "get_method_list r req inst = ?old"
    using assms(2) by (simp add: get_method_list_def stored_method_list_def
        protocol_hasOptionalMethodsAndProperties_def)
  have get_new: "get_method_list ?r' req inst = Some new"
    using assms(2) by (simp add: get_method_list_def update_method_list_def
        protocol_hasOptionalMethodsAndProperties_def)
  have get_other: "get_method_list ?r' req' inst' = get_method_list r req' inst'"
    if "(req', inst') \<noteq> (req, inst)" for req' inst'
    using that assms(2) by (cases req; cases inst; cases req'; cases inst')
      (simp_all add: get_method_list_def update_method_list_def protocol_hasOptionalMethodsAndProperties_def)
  have items: "mdl_items new = mdl_entries ?old @ [?m]" by (simp add: mdl_items_def new_def)
  have desc: "get_method_description (Some r) (Some s) req inst =
      find (\<lambda>m. sel_getName (md_selector m) = sel_name s) (mdl_entries ?old)" for s
    by (simp add: get_method_description_def get_old mdl_entries_def split: option.splits)
  have get': "get_method_description (Some ?r') (Some s) req inst =
      find (\<lambda>m. sel_getName (md_selector m) = sel_name s) (mdl_entries ?old @ [?m])" for s
    by (simp add: get_method_description_def get_new items)
  have app: "find P (xs @ [x]) = (case find P xs of Some y \<Rightarrow> Some y | None \<Rightarrow> if P x then Some x else None)"
    for P xs and x :: method_description by (induction xs) auto
  have desc': "get_method_description (Some ?r') (Some s) req inst =
      (case get_method_description (Some r) (Some s) req inst of Some d \<Rightarrow> Some d
       | None \<Rightarrow> if sel_name nm = sel_name s then Some ?m else None)" for s
    unfolding desc get' app by (simp add: sel_getName_def assms(4) split: option.split)
  have run: "protocol_addMethodDescription reg True True st (Some p) (Some nm) (Some ty) req inst =
      Some (set_proto st p ?r')"
    using assms(1-3) assms(6) old(3) size_ok
    unfolding protocol_addMethodDescription_def Let_def old stride prod.case option.case
    by (auto simp: old stride new_def)
  show ?thesis
    unfolding run using assms(8) desc' get_other
    by (auto simp: set_proto_def protocol_getMethodDescription_def protocol_getMethodTypeEncoding_def
        get_method_description_def split: option.splits)
qed

theorem protocol_add_then_get_witness:
  "\<exists>st' r'. protocol_addMethodDescription (\<lambda>n t. Some \<lparr>sel_name = n, sel_type = Some t\<rparr>) True True
      (empty_proto_state\<lparr>protos := [0 \<mapsto> empty_protocol Isa_IncompleteProtocol (Some ''A'')]\<rparr>)
      (Some 0) (Some \<lparr>sel_name = ''m'', sel_type = None\<rparr>) (Some ''v16'') True False = Some st' \<and>
    protos st' 0 = Some r' \<and>
    protocol_getMethodTypeEncoding (Some r') (Some \<lparr>sel_name = ''m'', sel_type = None\<rparr>) True False = Some ''v16''"
proof -
  let ?st = "empty_proto_state\<lparr>protos := [0 \<mapsto> empty_protocol Isa_IncompleteProtocol (Some ''A'')]\<rparr>"
  show ?thesis
    using protocol_add_then_get [of ?st 0 "empty_protocol Isa_IncompleteProtocol (Some ''A'')"
        "\<lambda>n t. Some \<lparr>sel_name = n, sel_type = Some t\<rparr>" "\<lparr>sel_name = ''m'', sel_type = None\<rparr>" "''v16''"
        "\<lparr>sel_name = ''m'', sel_type = Some ''v16''\<rparr>" True False]
    by (auto simp: empty_protocol_def stored_method_list_def mdl_ok_def mdl_entries_def INT_MAX_def
        get_method_description_def get_method_list_def protocol_hasOptionalMethodsAndProperties_def)
qed

end
