(* ===== verification/Objc_Class.thy ===== *)
theory Objc_Class
  imports Objc_Protocol Objc_Sparse_Array
begin

text \<open>
  Classes, methods and instance variables: the structures of \<open>src/internal/runtime/class.h\<close>,
  \<open>method.h\<close> and \<open>ivar.h\<close>, the class flags, the instance variable flags, tagged (small) objects,
  and the state of the runtime that the class table, the dispatch tables and the class API share.

  Classes, methods and the offset variables of instance variables live in explicit stores and
  are named by handles, because the code compares their addresses, links them and updates them
  in place. A C string is its address and its text. The selector table
  (\<open>src/dispatch/selector_table.cc\<close>) appears by its two operations: registration of a name with
  a type encoding and the index of a registered selector.
\<close>

unbundle bit_operations_syntax

record cstring =
  cs_addr :: uintptr_t
  cs_text :: string

text \<open>Before a class is resolved the compiler may leave a name in the superclass field.\<close>

datatype super_ref = SuperName cstring | SuperClass nat

record objc_method =
  m_imp :: uintptr_t
  m_selector :: selector
  m_types :: "string option"

record objc_method_list =
  ml_count :: int
  ml_size :: size_t
  ml_methods :: "nat list"

record objc_ivar =
  iv_name :: "string option"
  iv_type :: "string option"
  iv_offset :: "nat option"
  iv_size :: uint32
  iv_flags :: uint32

record objc_ivar_list =
  il_count :: int
  il_size :: size_t
  il_ivars :: "objc_ivar list"

record objc_class =
  c_isa :: "nat option"
  c_super_class :: "super_ref option"
  c_name :: "cstring option"
  c_version :: int
  c_info :: uint64
  c_instance_size :: int
  c_ivars :: "objc_ivar_list option"
  c_methods :: "objc_method_list list"
  c_dtable :: "sa_ptr option"
  c_subclass_list :: "nat option"
  c_cxx_construct :: uintptr_t
  c_cxx_destruct :: uintptr_t
  c_sibling_class :: "nat option"
  c_protocols :: "nat option"
  c_abi_version :: int
  c_properties :: "property_block list"

definition sizeof_objc_method :: size_t where "sizeof_objc_method = 24"
definition sizeof_objc_method_list :: size_t where "sizeof_objc_method_list = 24"
definition sizeof_objc_ivar :: size_t where "sizeof_objc_ivar = 32"
definition sizeof_objc_ivar_list :: size_t where "sizeof_objc_ivar_list = 16"

section \<open>Class flags\<close>

definition objc_class_flag_meta :: uint64 where "objc_class_flag_meta = push_bit 0 1"
definition objc_class_flag_initialized :: uint64 where "objc_class_flag_initialized = push_bit 8 1"
definition objc_class_flag_resolved :: uint64 where "objc_class_flag_resolved = push_bit 9 1"
definition objc_class_flag_user_created :: uint64 where "objc_class_flag_user_created = push_bit 10 1"
definition objc_class_flag_fast_arc :: uint64 where "objc_class_flag_fast_arc = push_bit 11 1"
definition objc_class_flag_hidden_class :: uint64 where "objc_class_flag_hidden_class = push_bit 12 1"
definition objc_class_flag_assoc_class :: uint64 where "objc_class_flag_assoc_class = push_bit 13 1"
definition objc_class_flag_permanent_instances :: uint64 where "objc_class_flag_permanent_instances = push_bit 14 1"
definition objc_class_flag_fast_alloc_init :: uint64 where "objc_class_flag_fast_alloc_init = push_bit 15 1"
definition objc_class_flag_is_block :: uint64 where "objc_class_flag_is_block = push_bit 16 1"
definition objc_class_flag_owned_ivar_offsets :: uint64 where "objc_class_flag_owned_ivar_offsets = push_bit 17 1"
definition objc_class_flag_duplicate :: uint64 where "objc_class_flag_duplicate = push_bit 18 1"
definition objc_class_flag_future :: uint64 where "objc_class_flag_future = push_bit 19 1"

lemmas class_flag_defs =
  objc_class_flag_meta_def objc_class_flag_initialized_def objc_class_flag_resolved_def
  objc_class_flag_user_created_def objc_class_flag_fast_arc_def objc_class_flag_hidden_class_def
  objc_class_flag_assoc_class_def objc_class_flag_permanent_instances_def
  objc_class_flag_fast_alloc_init_def objc_class_flag_is_block_def
  objc_class_flag_owned_ivar_offsets_def objc_class_flag_duplicate_def objc_class_flag_future_def

definition objc_set_class_flag :: "objc_class \<Rightarrow> uint64 \<Rightarrow> objc_class" where
  "objc_set_class_flag aClass flag = aClass\<lparr>c_info := c_info aClass OR flag\<rparr>"

definition objc_clear_class_flag :: "objc_class \<Rightarrow> uint64 \<Rightarrow> objc_class" where
  "objc_clear_class_flag aClass flag = aClass\<lparr>c_info := c_info aClass AND NOT flag\<rparr>"

definition objc_test_class_flag :: "objc_class \<Rightarrow> uint64 \<Rightarrow> bool" where
  "objc_test_class_flag aClass flag \<longleftrightarrow> c_info aClass AND flag = flag"

section \<open>Instance variable flags\<close>

datatype objc_ivar_ownership =
  ownership_invalid | ownership_strong | ownership_weak | ownership_unsafe

fun ownership_code :: "objc_ivar_ownership \<Rightarrow> uint32" where
  "ownership_code ownership_invalid = 0"
| "ownership_code ownership_strong = 1"
| "ownership_code ownership_weak = 2"
| "ownership_code ownership_unsafe = 3"

definition ivar_align_shift :: nat where "ivar_align_shift = 3"
definition ivar_ownership_mask :: uint32 where "ivar_ownership_mask = 3"
definition ivar_align_mask :: uint32 where "ivar_align_mask = push_bit ivar_align_shift (push_bit 6 1 - 1)"

definition ivarGetAlign :: "objc_ivar \<Rightarrow> size_t" where
  "ivarGetAlign ivar =
     (let exponent = drop_bit ivar_align_shift (iv_flags ivar AND ivar_align_mask) in
      if 64 \<le> exponent then 0 else push_bit (unat exponent) 1)"

text \<open>The compiler builtin: the number of leading zero bits.\<close>

definition builtin_clzll :: "size_t \<Rightarrow> nat" where
  "builtin_clzll x = length (takeWhile (\<lambda>i. \<not> bit x i) (rev [0..<64]))"

definition ivarSetAlign :: "objc_ivar \<Rightarrow> size_t \<Rightarrow> objc_ivar" where
  "ivarSetAlign ivar align =
     (let exponent = (if align \<noteq> 0 then of_nat (63 - builtin_clzll align) else 0);
          encoded = push_bit ivar_align_shift exponent in
      ivar\<lparr>iv_flags := (iv_flags ivar AND NOT ivar_align_mask) OR encoded\<rparr>)"

definition ivarSetOwnership :: "objc_ivar \<Rightarrow> objc_ivar_ownership \<Rightarrow> objc_ivar" where
  "ivarSetOwnership ivar own =
     ivar\<lparr>iv_flags := (iv_flags ivar AND NOT ivar_ownership_mask) OR ownership_code own\<rparr>"

definition ivarGetOwnership :: "objc_ivar \<Rightarrow> objc_ivar_ownership" where
  "ivarGetOwnership ivar =
     (let w = iv_flags ivar AND ivar_ownership_mask in
      if w = 0 then ownership_invalid
      else if w = 1 then ownership_strong
      else if w = 2 then ownership_weak
      else ownership_unsafe)"

section \<open>The state of the runtime\<close>

text \<open>
  One thread's class lookup cache, \<open>CLASS_LOOKUP_CACHE_SETS\<close> sets of \<open>CLASS_LOOKUP_CACHE_WAYS\<close>
  ways. Key 0 and entry \<open>None\<close> are null.
\<close>

record lookup_cache =
  lc_generation :: uint64
  lc_keys :: "nat \<Rightarrow> nat \<Rightarrow> uintptr_t"
  lc_entries :: "nat \<Rightarrow> nat \<Rightarrow> nat option"
  lc_victim :: "nat \<Rightarrow> nat"

datatype developer_mode = mode_user | mode_developer | mode_safe_reload

text \<open>
  A message is sent to a class object or to an instance, which is an address or a tagged value.
\<close>

datatype receiver = ClassObject nat | Instance uintptr_t

text \<open>The legacy slot structure, \<open>struct objc_slot\<close>, and the newer selector mismatch hook, which may
  be null, the runtime's own, or the client's. The client's hook sees the class, the selector
  and the method found under the untyped selector, and returns the method to call.\<close>

record objc_slot =
  os_owner :: "nat option"
  os_cachedFor :: "nat option"
  os_types :: "string option"
  os_version :: int
  os_method :: uintptr_t
  os_selector :: "selector option"

text \<open>The four methods that answer messages to \<open>nil\<close>, by the type of zero they return.\<close>

datatype nil_kind = NilInteger | NilLongDouble | NilDouble | NilFloat

datatype mismatch2_hook =
  Mismatch2Null | Mismatch2Default | Mismatch2Client "nat \<Rightarrow> selector \<Rightarrow> nat \<Rightarrow> uintptr_t"

text \<open>
  \<open>load_calls\<close>, \<open>load_callbacks\<close> and \<open>initialize_calls\<close> record the calls of \<open>+load\<close> methods, of
  the load callback and of \<open>+initialize\<close> methods. \<open>register_selector\<close> and \<open>sel_index\<close> are the
  operations of the selector table, \<open>object_isa\<close> reads the first word of an ordinary object.
  The fields from \<open>type_mismatch_v1\<close> on are the global hook variables of \<open>sendmsg2.c\<close>, the
  addresses of its nil methods, and the two uncacheable slots of the thread that sends messages.
\<close>

record rt_state =
  classes :: "nat \<Rightarrow> objc_class option"
  class_brk :: nat
  meths :: "nat \<Rightarrow> objc_method option"
  meth_brk :: nat
  ints :: "nat \<Rightarrow> int option"
  int_brk :: nat
  class_table :: "nat list"
  future_class_table :: "nat list"
  remapped_class_table :: "(nat \<times> nat) list"
  alias_table :: "(string \<times> nat option) list"
  class_table_generation :: uint64
  class_lookup_cache :: "nat \<Rightarrow> lookup_cache"
  unresolved_class_list :: "nat option"
  dev_mode :: developer_mode
  zombie_class :: "nat option"
  SmallObjectClasses :: "nat option list"
  load_table :: "uintptr_t list"
  load_calls :: "(nat \<times> uintptr_t) list"
  load_callbacks :: "nat list"
  dtables :: "nat sa_heap"
  uninstalled_dtable :: sa_ptr
  temporary_dtables :: "(nat \<times> sa_ptr) list"
  dtable_depth :: nat
  objc_method_cache_version :: uint64
  rt_protocols :: proto_state
  register_selector :: "string \<Rightarrow> string option \<Rightarrow> selector option"
  sel_index :: "selector \<Rightarrow> uint32"
  object_isa :: "uintptr_t \<Rightarrow> nat option"
  initialize_calls :: "(nat \<times> uintptr_t) list"
  type_mismatch_v1 :: "(nat \<Rightarrow> selector \<Rightarrow> objc_slot \<Rightarrow> uintptr_t) option"
  type_mismatch2 :: mismatch2_hook
  proxy_lookup :: "receiver \<Rightarrow> selector \<Rightarrow> receiver option"
  msg_forward2 :: "receiver option \<Rightarrow> selector \<Rightarrow> uintptr_t"
  nil_imp :: "nil_kind \<Rightarrow> uintptr_t"
  uncacheable_imp :: uintptr_t
  uncacheable_slot_v1 :: objc_slot

text \<open>Field updates through a class pointer; \<open>None\<close> is an access through a bad pointer.\<close>

definition upd_class :: "nat \<Rightarrow> (objc_class \<Rightarrow> objc_class) \<Rightarrow> rt_state \<Rightarrow> rt_state option" where
  "upd_class c f st =
     (case classes st c of None \<Rightarrow> None | Some r \<Rightarrow> Some (st\<lparr>classes := (classes st)(c \<mapsto> f r)\<rparr>))"

definition upd_class_opt :: "nat option \<Rightarrow> (objc_class \<Rightarrow> objc_class) \<Rightarrow> rt_state \<Rightarrow> rt_state option" where
  "upd_class_opt p f st = Option.bind p (\<lambda>c. upd_class c f st)"

definition deref_class :: "rt_state \<Rightarrow> nat option \<Rightarrow> objc_class option" where
  "deref_class st p = Option.bind p (classes st)"

definition rt_hooks :: "rt_state \<Rightarrow> hook_state" where
  "rt_hooks st = pr_hooks (rt_protocols st)"

definition rt_emit :: "runtime_event \<Rightarrow> rt_state \<Rightarrow> rt_state" where
  "rt_emit ev st =
     st\<lparr>rt_protocols := (rt_protocols st)\<lparr>pr_hooks := mosaic_objc_emitRuntimeEvent ev (rt_hooks st)\<rparr>\<rparr>"

definition rt_alloc :: "rt_state \<Rightarrow> rt_state \<times> bool" where
  "rt_alloc st = (let (p, ok) = pr_alloc (rt_protocols st) in (st\<lparr>rt_protocols := p\<rparr>, ok))"

text \<open>The methods a loop over the blocks of a class visits, in order.\<close>

definition ml_items :: "objc_method_list \<Rightarrow> nat list" where
  "ml_items l = take (nat (ml_count l)) (ml_methods l)"

definition il_items :: "objc_ivar_list \<Rightarrow> objc_ivar list" where
  "il_items l = take (nat (il_count l)) (il_ivars l)"

section \<open>Tagged objects and inheritance\<close>

definition OBJC_SMALL_OBJECT_MASK :: uintptr_t where "OBJC_SMALL_OBJECT_MASK = 7"

definition isSmallObject :: "uintptr_t \<Rightarrow> bool" where
  "isSmallObject obj \<longleftrightarrow> obj AND OBJC_SMALL_OBJECT_MASK \<noteq> 0"

text \<open>\<open>isa_of\<close> reads the first word of an ordinary object. The outer \<open>None\<close> is an access
  outside the array of seven classes.\<close>

definition classForObject :: "(uintptr_t \<Rightarrow> nat option) \<Rightarrow> rt_state \<Rightarrow> uintptr_t \<Rightarrow> nat option option" where
  "classForObject isa_of st obj =
     (if isSmallObject obj then
        (let i = unat (obj AND OBJC_SMALL_OBJECT_MASK) in
         if i < length (SmallObjectClasses st) then Some (SmallObjectClasses st ! i) else None)
      else Some (isa_of obj))"

definition objc_registerSmallObjectClass_np ::
  "rt_state \<Rightarrow> nat option \<Rightarrow> uintptr_t \<Rightarrow> (rt_state \<times> bool) option" where
  "objc_registerSmallObjectClass_np st cls tag =
     (if tag AND OBJC_SMALL_OBJECT_MASK \<noteq> tag then Some (st, False)
      else
        (let i = unat tag in
         if \<not> i < length (SmallObjectClasses st) then None
         else if SmallObjectClasses st ! i \<noteq> None then Some (st, False)
         else Some (st\<lparr>SmallObjectClasses := (SmallObjectClasses st)[i := cls]\<rparr>, True)))"

text \<open>The fuel bounds the length of the superclass chain.\<close>

fun classIsOrInherits :: "nat \<Rightarrow> rt_state \<Rightarrow> nat option \<Rightarrow> nat option \<Rightarrow> bool option" where
  "classIsOrInherits fuel st None base = Some False"
| "classIsOrInherits 0 st (Some c) base = None"
| "classIsOrInherits (Suc fuel) st (Some c) base =
     (if Some c = base then Some True
      else do {
        r \<leftarrow> classes st c;
        (case c_super_class r of
           None \<Rightarrow> Some False
         | Some (SuperClass s) \<Rightarrow> classIsOrInherits fuel st (Some s) base
         | Some (SuperName _) \<Rightarrow> None)
      })"

end
