(* ===== verification/Objc_Class_Table.thy ===== *)
theory Objc_Class_Table
  imports Objc_Class
begin

text \<open>
  The class table, \<open>src/runtime/class_table.c\<close>, with the instance variable layout of
  \<open>src/runtime/ivar.c\<close> it runs and the alias table of \<open>src/runtime/alias_table.c\<close>: insertion,
  cached lookup, future classes and remapping, class resolution, \<open>+load\<close>, loading and
  enumeration. Reloading of classes is in \<open>Objc_Reload\<close>.

  The hash tables are taken by their contract: a table is the list of its values and a lookup
  returns the first value with the given key. Every thread has its own lookup cache. Long
  integers are \<open>int\<close> (their overflow is undefined in C); stores to an \<open>int\<close> variable truncate to
  32 bits. The modelled build is a version 2 ABI build (without \<open>OLDABI_COMPAT\<close>) on a host other
  than Windows.
\<close>

unbundle bit_operations_syntax

section \<open>Insertion and cached lookup\<close>

definition CLASS_LOOKUP_CACHE_WAYS :: nat where "CLASS_LOOKUP_CACHE_WAYS = 2"
definition CLASS_LOOKUP_CACHE_SETS :: nat where "CLASS_LOOKUP_CACHE_SETS = 16"

definition class_lookup_cache_set :: "uintptr_t \<Rightarrow> nat" where
  "class_lookup_cache_set name =
     (let key0 = drop_bit 4 name;
          key1 = key0 XOR drop_bit 16 key0;
          key2 = key1 * 0x9e3779b1;
          key3 = key2 XOR drop_bit 13 key2 in
      unat (key3 AND of_nat (CLASS_LOOKUP_CACHE_SETS - 1)))"

definition class_text :: "rt_state \<Rightarrow> nat \<Rightarrow> string option" where
  "class_text st c = do { r \<leftarrow> classes st c; nm \<leftarrow> c_name r; Some (cs_text nm) }"

definition class_table_internal_table_get :: "rt_state \<Rightarrow> string \<Rightarrow> nat option" where
  "class_table_internal_table_get st name = find (\<lambda>c. class_text st c = Some name) (class_table st)"

definition class_table_invalidate_cache :: "rt_state \<Rightarrow> rt_state" where
  "class_table_invalidate_cache st = st\<lparr>class_table_generation := class_table_generation st + 1\<rparr>"

text \<open>Pushes a class on the list of unresolved classes.\<close>

definition link_unresolved :: "rt_state \<Rightarrow> nat \<Rightarrow> rt_state option" where
  "link_unresolved st cls =
     do {
       t1 \<leftarrow> (case unresolved_class_list st of
                None \<Rightarrow> Some st
              | Some u \<Rightarrow> upd_class u (\<lambda>x. x\<lparr>c_sibling_class := Some cls\<rparr>) st);
       t2 \<leftarrow> upd_class cls (\<lambda>x. x\<lparr>c_subclass_list := unresolved_class_list t1\<rparr>) t1;
       Some (t2\<lparr>unresolved_class_list := Some cls\<rparr>)
     }"

definition class_table_insert :: "bool \<Rightarrow> rt_state \<Rightarrow> nat \<Rightarrow> rt_state option" where
  "class_table_insert insert_ok st cls =
     do {
       r \<leftarrow> classes st cls;
       s1 \<leftarrow> (if objc_test_class_flag r objc_class_flag_resolved then Some st else link_unresolved st cls);
       nm \<leftarrow> c_name r;
       let s2 = (if zombie_class s1 = None \<and> cs_text nm = ''NSZombie''
                 then s1\<lparr>zombie_class := Some cls\<rparr> else s1);
       Some (if insert_ok then class_table_invalidate_cache (s2\<lparr>class_table := class_table s2 @ [cls]\<rparr>)
             else s2)
     }"

definition empty_cache :: "uint64 \<Rightarrow> lookup_cache" where
  "empty_cache g = \<lparr>lc_generation = g, lc_keys = (\<lambda>_ _. 0), lc_entries = (\<lambda>_ _. None),
                    lc_victim = (\<lambda>_. 0)\<rparr>"

definition cache_hit :: "rt_state \<Rightarrow> lookup_cache \<Rightarrow> cstring \<Rightarrow> nat \<Rightarrow> nat option" where
  "cache_hit st lc nm way =
     (case lc_entries lc (class_lookup_cache_set (cs_addr nm)) way of
        None \<Rightarrow> None
      | Some c \<Rightarrow>
          if lc_keys lc (class_lookup_cache_set (cs_addr nm)) way = cs_addr nm \<and>
             class_text st c = Some (cs_text nm)
          then Some c else None)"

definition cache_store :: "lookup_cache \<Rightarrow> nat \<Rightarrow> uintptr_t \<Rightarrow> nat \<Rightarrow> lookup_cache" where
  "cache_store lc s addr c =
     (let way = (case find (\<lambda>w. lc_entries lc s w = None) [0..<CLASS_LOOKUP_CACHE_WAYS] of
                   Some w \<Rightarrow> w | None \<Rightarrow> lc_victim lc s) in
      lc\<lparr>lc_keys := (lc_keys lc)(s := (lc_keys lc s)(way := addr)),
         lc_entries := (lc_entries lc)(s := (lc_entries lc s)(way := Some c)),
         lc_victim := (lc_victim lc)(s := 1 - way)\<rparr>)"

definition class_table_get_safe :: "nat \<Rightarrow> rt_state \<Rightarrow> cstring option \<Rightarrow> rt_state \<times> nat option" where
  "class_table_get_safe thread st class_name =
     (case class_name of
        None \<Rightarrow> (st, None)
      | Some nm \<Rightarrow>
          (let generation = class_table_generation st;
               lc = (if lc_generation (class_lookup_cache st thread) \<noteq> generation
                     then empty_cache generation else class_lookup_cache st thread);
               s = class_lookup_cache_set (cs_addr nm);
               store = (\<lambda>l. st\<lparr>class_lookup_cache := (class_lookup_cache st)(thread := l)\<rparr>) in
           case find (\<lambda>w. cache_hit st lc nm w \<noteq> None) [0..<CLASS_LOOKUP_CACHE_WAYS] of
             Some w \<Rightarrow> (store (lc\<lparr>lc_victim := (lc_victim lc)(s := 1 - w)\<rparr>), cache_hit st lc nm w)
           | None \<Rightarrow>
               (case class_table_internal_table_get st (cs_text nm) of
                  None \<Rightarrow> (store lc, None)
                | Some c \<Rightarrow> (store (cache_store lc s (cs_addr nm) c), Some c))))"

text \<open>Removal asserts that the class was created at run time.\<close>

definition class_table_remove :: "rt_state \<Rightarrow> nat \<Rightarrow> rt_state option" where
  "class_table_remove st cls =
     do {
       r \<leftarrow> classes st cls;
       if \<not> objc_test_class_flag r objc_class_flag_user_created then None
       else do {
         nm \<leftarrow> c_name r;
         Some (class_table_invalidate_cache
           (st\<lparr>class_table := (case class_table_internal_table_get st (cs_text nm) of
                  None \<Rightarrow> class_table st | Some c \<Rightarrow> remove1 c (class_table st))\<rparr>)) }
     }"

section \<open>Aliases and public lookup\<close>

definition alias_getClass :: "rt_state \<Rightarrow> cstring option \<Rightarrow> nat option" where
  "alias_getClass st alias_name =
     (case alias_name of
        None \<Rightarrow> None
      | Some nm \<Rightarrow> Option.bind (map_of (alias_table st) (cs_text nm)) id)"

text \<open>\<open>hook\<close> is what the class lookup hook answers.\<close>

definition objc_getClass ::
  "(string option \<Rightarrow> nat option) \<Rightarrow> nat \<Rightarrow> rt_state \<Rightarrow> cstring option \<Rightarrow> rt_state \<times> nat option" where
  "objc_getClass hook thread st name =
     (let (s1, cls) = class_table_get_safe thread st name in
      if cls \<noteq> None then (s1, cls)
      else if alias_getClass s1 name \<noteq> None then (s1, alias_getClass s1 name)
      else if objc_lookup_class_hook (hook_vars (rt_hooks s1)) \<noteq> 0
        then (s1, hook (map_option cs_text name))
      else (s1, None))"

definition objc_lookUpClass :: "nat \<Rightarrow> rt_state \<Rightarrow> cstring option \<Rightarrow> rt_state \<times> nat option" where
  "objc_lookUpClass thread st name = class_table_get_safe thread st name"

definition objc_getMetaClass ::
  "(string option \<Rightarrow> nat option) \<Rightarrow> nat \<Rightarrow> rt_state \<Rightarrow> cstring option \<Rightarrow> (rt_state \<times> nat option) option" where
  "objc_getMetaClass hook thread st name =
     (let (s1, cls) = objc_getClass hook thread st name in
      case cls of None \<Rightarrow> Some (s1, None)
      | Some c \<Rightarrow> map_option (\<lambda>r. (s1, c_isa r)) (classes s1 c))"

definition class_registerAlias_np ::
  "(string option \<Rightarrow> nat option) \<Rightarrow> nat \<Rightarrow> rt_state \<Rightarrow> nat option \<Rightarrow> cstring option \<Rightarrow> (rt_state \<times> bool) option" where
  "class_registerAlias_np hook thread st cls alias =
     (case (alias, cls) of
        (Some a, Some c) \<Rightarrow>
          do {
            r \<leftarrow> classes st c;
            let (s1, c') = objc_getClass hook thread st (c_name r);
            let (s2, existingClass) = objc_getClass hook thread s1 alias;
            Some (if existingClass \<noteq> None then (s2, c' = existingClass)
                  else (s2\<lparr>alias_table := alias_table s2 @ [(cs_text a, c')]\<rparr>, True))
          }
      | _ \<Rightarrow> Some (st, False))"

section \<open>Future classes\<close>

definition objc_remap_class :: "rt_state \<Rightarrow> nat option \<Rightarrow> nat option" where
  "objc_remap_class st cls =
     (case cls of None \<Rightarrow> None
      | Some c \<Rightarrow> (case map_of (remapped_class_table st) c of None \<Rightarrow> Some c | Some t \<Rightarrow> Some t))"

definition future_class_internal_table_get :: "rt_state \<Rightarrow> string \<Rightarrow> nat option" where
  "future_class_internal_table_get st name =
     find (\<lambda>c. class_text st c = Some name) (future_class_table st)"

text \<open>A failed insertion into the remapping table aborts.\<close>

definition objc_claim_future_class :: "bool \<Rightarrow> rt_state \<Rightarrow> nat option \<Rightarrow> (rt_state \<times> nat option) option" where
  "objc_claim_future_class insert_ok st cls =
     (case cls of None \<Rightarrow> Some (st, None)
      | Some c \<Rightarrow>
          do {
            r \<leftarrow> classes st c;
            (case c_name r of
               None \<Rightarrow> Some (st, cls)
             | Some nm \<Rightarrow>
                 if objc_remap_class st cls \<noteq> cls then Some (st, objc_remap_class st cls)
                 else
                   (case future_class_internal_table_get st (cs_text nm) of
                      None \<Rightarrow> Some (st, cls)
                    | Some future \<Rightarrow>
                        if \<not> insert_ok then None
                        else Some (st\<lparr>remapped_class_table := remapped_class_table st @ [(c, future)],
                                      future_class_table := remove1 future (future_class_table st),
                                      classes := (classes st)(future \<mapsto> r)\<rparr>, Some future)))
          })"

definition future_class :: "rt_state \<Rightarrow> cstring \<Rightarrow> objc_class" where
  "future_class st name =
     \<lparr>c_isa = None, c_super_class = None, c_name = Some name, c_version = 0,
      c_info = objc_class_flag_future, c_instance_size = 0, c_ivars = None, c_methods = [],
      c_dtable = Some (uninstalled_dtable st), c_subclass_list = None, c_cxx_construct = 0,
      c_cxx_destruct = 0, c_sibling_class = None, c_protocols = None, c_abi_version = 0,
      c_properties = []\<rparr>"

text \<open>\<open>copy\<close> is the address of the private copy of the name.\<close>

definition objc_getFutureClass ::
  "bool \<Rightarrow> uintptr_t \<Rightarrow> nat \<Rightarrow> rt_state \<Rightarrow> cstring option \<Rightarrow> rt_state \<times> nat option" where
  "objc_getFutureClass insert_ok copy thread st name =
     (case name of
        None \<Rightarrow> (st, None)
      | Some nm \<Rightarrow>
          (let (s1, cls) = class_table_get_safe thread st name in
           if cls \<noteq> None then (s1, cls)
           else if future_class_internal_table_get s1 (cs_text nm) \<noteq> None
             then (s1, future_class_internal_table_get s1 (cs_text nm))
           else
             let (s2, ok) = rt_alloc s1 in
             if \<not> ok then (s2, None)
             else
               let (s3, ok') = rt_alloc s2 in
               if \<not> ok' \<or> \<not> insert_ok then (s3, None)
               else
                 let future = class_brk s3 in
                 (s3\<lparr>classes := (classes s3)(future \<mapsto> future_class s3 (nm\<lparr>cs_addr := copy\<rparr>)),
                     class_brk := Suc future,
                     future_class_table := future_class_table s3 @ [future]\<rparr>, Some future)))"

section \<open>Instance variable layout\<close>

text \<open>A store to a C \<open>int\<close>.\<close>

definition to_int :: "int \<Rightarrow> int" where "to_int x = signed_take_bit 31 x"

definition refcount_size :: int where "refcount_size = 8"

record layout_state =
  ly_next_ivar :: int
  ly_last_offset :: int
  ly_last_computed_offset :: int
  ly_instance_size :: int
  ly_ivars :: "objc_ivar list"
  ly_ints :: "nat \<Rightarrow> int option"

text \<open>The offset variable has just been set to \<open>next_ivar\<close>; padding makes it aligned.\<close>

definition place_ivar :: "layout_state \<Rightarrow> nat \<Rightarrow> int \<Rightarrow> int \<Rightarrow> int \<Rightarrow> layout_state option" where
  "place_ivar ly off v ivar_size align =
     (let o1 = to_int (ly_next_ivar ly);
          rem = (o1 + refcount_size) mod 2 ^ 64 mod align;
          padding = (if rem \<noteq> 0 then align - rem else 0);
          o2 = to_int (o1 + padding) in
      if (o2 + refcount_size) mod 2 ^ 64 mod align \<noteq> 0 then None
      else Some (ly\<lparr>ly_next_ivar := ly_next_ivar ly + ivar_size + padding,
                    ly_last_offset := v,
                    ly_last_computed_offset := o2,
                    ly_instance_size := ly_instance_size ly + padding + ivar_size,
                    ly_ints := (ly_ints ly)(off \<mapsto> o2)\<rparr>))"

definition fix_bool_size :: "objc_ivar \<Rightarrow> objc_ivar option" where
  "fix_bool_size ivar =
     (if iv_size ivar \<noteq> 0 then Some ivar
      else (case iv_type ivar of None \<Rightarrow> None
            | Some t \<Rightarrow> Some (if t \<noteq> [] \<and> hd t = CHR ''B'' then ivar\<lparr>iv_size := 1\<rparr> else ivar)))"

definition layout_ivar :: "layout_state \<Rightarrow> nat \<Rightarrow> layout_state option" where
  "layout_ivar ly i =
     (if \<not> i < length (ly_ivars ly) then None
      else do {
        ivar \<leftarrow> fix_bool_size (ly_ivars ly ! i);
        let ly1 = ly\<lparr>ly_ivars := (ly_ivars ly)[i := ivar]\<rparr>;
        off \<leftarrow> iv_offset ivar;
        v \<leftarrow> ly_ints ly1 off;
        if i \<noteq> 0 \<and> v = ly_last_offset ly1
        then Some (ly1\<lparr>ly_ints := (ly_ints ly1)(off \<mapsto> to_int (ly_last_computed_offset ly1))\<rparr>)
        else if ivarGetAlign ivar = 0 then None
        else place_ivar ly1 off v (uint (iv_size ivar)) (uint (ivarGetAlign ivar))
      })"

definition LONG_MIN :: int where "LONG_MIN = - (2 ^ 63)"

definition layout_ivars :: "rt_state \<Rightarrow> nat \<Rightarrow> int \<Rightarrow> rt_state option" where
  "layout_ivars st cls ivar_start =
     do {
       r \<leftarrow> classes st cls;
       il \<leftarrow> c_ivars r;
       ly \<leftarrow> foldM layout_ivar
              \<lparr>ly_next_ivar = ivar_start, ly_last_offset = LONG_MIN, ly_last_computed_offset = -1,
               ly_instance_size = ivar_start, ly_ivars = il_ivars il, ly_ints = ints st\<rparr>
              [0..<nat (il_count il)];
       upd_class cls (\<lambda>x. x\<lparr>c_instance_size := ly_instance_size ly,
                             c_ivars := Some (il\<lparr>il_ivars := ly_ivars ly\<rparr>)\<rparr>)
         (st\<lparr>ints := ly_ints ly\<rparr>)
     }"

section \<open>Class resolution\<close>

definition resolved :: "objc_class \<Rightarrow> bool" where
  "resolved r \<longleftrightarrow> objc_test_class_flag r objc_class_flag_resolved"

definition unlink_unresolved :: "rt_state \<Rightarrow> nat \<Rightarrow> rt_state option" where
  "unlink_unresolved st cls =
     do {
       r \<leftarrow> classes st cls;
       s1 \<leftarrow> (case c_sibling_class r of
                None \<Rightarrow> Some (st\<lparr>unresolved_class_list := c_subclass_list r\<rparr>)
              | Some prev \<Rightarrow> upd_class prev (\<lambda>x. x\<lparr>c_subclass_list := c_subclass_list r\<rparr>) st);
       s2 \<leftarrow> (case c_subclass_list r of
                None \<Rightarrow> Some s1
              | Some next \<Rightarrow> upd_class next (\<lambda>x. x\<lparr>c_sibling_class := c_sibling_class r\<rparr>) s1);
       upd_class cls (\<lambda>x. x\<lparr>c_sibling_class := None, c_subclass_list := None\<rparr>) s2
     }"

text \<open>The loop over the superclasses ends with the metaclass of the root.\<close>

fun root_isa :: "nat \<Rightarrow> rt_state \<Rightarrow> nat \<Rightarrow> nat option option" where
  "root_isa 0 st super = None"
| "root_isa (Suc fuel) st super =
     do {
       r \<leftarrow> classes st super;
       (case c_super_class r of
          None \<Rightarrow> Some (c_isa r)
        | Some (SuperClass s) \<Rightarrow> root_isa fuel st s
        | Some (SuperName _) \<Rightarrow> None)
     }"

definition link_class :: "rt_state \<Rightarrow> nat \<Rightarrow> nat option \<Rightarrow> nat option \<Rightarrow> rt_state option" where
  "link_class st cls superMeta metaMeta =
     do {
       r \<leftarrow> classes st cls;
       meta \<leftarrow> c_isa r;
       s1 \<leftarrow> upd_class meta (\<lambda>x. x\<lparr>c_super_class := map_option SuperClass superMeta,
                                   c_isa := metaMeta\<rparr>) st;
       s2 \<leftarrow> (case c_super_class r of
                None \<Rightarrow> Some s1
              | Some (SuperName _) \<Rightarrow> None
              | Some (SuperClass s) \<Rightarrow>
                  do { rs \<leftarrow> classes s1 s;
                       t \<leftarrow> upd_class cls (\<lambda>x. x\<lparr>c_sibling_class := c_subclass_list rs\<rparr>) s1;
                       upd_class s (\<lambda>x. x\<lparr>c_subclass_list := Some cls\<rparr>) t });
       rm \<leftarrow> deref_class s2 superMeta;
       s3 \<leftarrow> upd_class meta (\<lambda>x. x\<lparr>c_sibling_class := c_subclass_list rm\<rparr>) s2;
       s4 \<leftarrow> upd_class_opt superMeta (\<lambda>x. x\<lparr>c_subclass_list := Some meta\<rparr>) s3;
       s5 \<leftarrow> upd_class cls (\<lambda>x. objc_set_class_flag x objc_class_flag_resolved) s4;
       r5 \<leftarrow> classes s5 cls;
       upd_class_opt (c_isa r5) (\<lambda>x. objc_set_class_flag x objc_class_flag_resolved) s5
     }"

definition send_load :: "nat \<Rightarrow> rt_state \<Rightarrow> nat \<Rightarrow> rt_state option" where
  "send_load cls st h =
     do {
       m \<leftarrow> meths st h;
       Some (if sel_name (m_selector m) = ''load'' \<and> m_imp m \<notin> set (load_table st)
             then st\<lparr>load_calls := load_calls st @ [(cls, m_imp m)],
                     load_table := m_imp m # load_table st\<rparr>
             else st)
     }"

definition objc_send_load_message :: "rt_state \<Rightarrow> nat \<Rightarrow> rt_state option" where
  "objc_send_load_message st cls =
     do {
       r \<leftarrow> classes st cls;
       meta \<leftarrow> deref_class st (c_isa r);
       foldM (send_load cls) st (concat (map ml_items (c_methods meta)))
     }"

definition announce_class :: "rt_state \<Rightarrow> nat \<Rightarrow> rt_state option" where
  "announce_class st cls =
     do {
       r \<leftarrow> classes st cls;
       s1 \<leftarrow> (if objc_test_class_flag r objc_class_flag_user_created then Some st
              else objc_send_load_message st cls);
       Some (if objc_load_callback_hook (hook_vars (rt_hooks s1)) \<noteq> 0
             then s1\<lparr>load_callbacks := load_callbacks s1 @ [cls]\<rparr> else s1)
     }"

text \<open>
  \<open>objc_resolve_class\<close>, \<open>objc_compute_ivar_offsets\<close> and \<open>class_getSuperclass\<close> call each other.
  The bodies below take the functions they call as arguments; the knot is tied after them, with
  fuel that bounds the depth of the calls. The superclass is resolved first if it is not.
\<close>

definition resolve_super ::
  "(rt_state \<Rightarrow> nat \<Rightarrow> (rt_state \<times> bool) option) \<Rightarrow> rt_state \<Rightarrow> objc_class \<Rightarrow> (rt_state \<times> bool) option" where
  "resolve_super resolve st r =
     (case c_super_class r of
        None \<Rightarrow> Some (st, True)
      | Some (SuperName _) \<Rightarrow> None
      | Some (SuperClass super) \<Rightarrow>
          do { rs \<leftarrow> classes st super;
               if resolved rs then Some (st, True) else resolve st super })"

text \<open>The superclass and the class of the metaclass.\<close>

definition meta_links ::
  "(rt_state \<Rightarrow> nat \<Rightarrow> (rt_state \<times> bool) option) \<Rightarrow> nat \<Rightarrow> rt_state \<Rightarrow> nat \<Rightarrow>
   (rt_state \<times> nat option \<times> nat option) option" where
  "meta_links resolve depth st cls =
     do {
       r \<leftarrow> classes st cls;
       (case c_super_class r of
          None \<Rightarrow> Some (st, Some cls, c_isa r)
        | Some (SuperName _) \<Rightarrow> None
        | Some (SuperClass super) \<Rightarrow>
            do { rs \<leftarrow> classes st super;
                 t \<leftarrow> (if resolved rs then Some st else map_option fst (resolve st super));
                 rt \<leftarrow> classes t super;
                 mm \<leftarrow> root_isa depth t super;
                 Some (t, c_isa rt, mm) })
     }"

definition resolve_body ::
  "(rt_state \<Rightarrow> nat \<Rightarrow> (rt_state \<times> bool) option) \<Rightarrow> (rt_state \<Rightarrow> nat \<Rightarrow> rt_state option) \<Rightarrow> nat \<Rightarrow>
   rt_state \<Rightarrow> nat \<Rightarrow> (rt_state \<times> bool) option" where
  "resolve_body resolve compute depth st cls =
     do {
       r \<leftarrow> classes st cls;
       if resolved r then Some (st, True)
       else do {
         (s1, ok) \<leftarrow> resolve_super resolve st r;
         if \<not> ok then Some (s1, False)
         else do {
           s2 \<leftarrow> unlink_unresolved s1 cls;
           (s3, superMeta, metaMeta) \<leftarrow> meta_links resolve depth s2 cls;
           s4 \<leftarrow> link_class s3 cls superMeta metaMeta;
           s5 \<leftarrow> compute s4 cls;
           s6 \<leftarrow> announce_class s5 cls;
           Some (s6, True)
         }
       }
     }"

definition getSuperclass_body ::
  "(rt_state \<Rightarrow> nat \<Rightarrow> (rt_state \<times> bool) option) \<Rightarrow> rt_state \<Rightarrow> nat option \<Rightarrow>
   (rt_state \<times> super_ref option) option" where
  "getSuperclass_body resolve st cls =
     (case cls of
        None \<Rightarrow> Some (st, None)
      | Some c \<Rightarrow>
          do {
            r \<leftarrow> classes st c;
            s1 \<leftarrow> (if resolved r then Some st else map_option fst (resolve st c));
            r1 \<leftarrow> classes s1 c;
            Some (s1, c_super_class r1)
          })"

definition compute_body ::
  "(rt_state \<Rightarrow> nat option \<Rightarrow> (rt_state \<times> super_ref option) option) \<Rightarrow>
   (rt_state \<Rightarrow> nat \<Rightarrow> rt_state option) \<Rightarrow> rt_state \<Rightarrow> nat \<Rightarrow> rt_state option" where
  "compute_body getSuper compute st cls =
     do {
       r \<leftarrow> classes st cls;
       (case c_ivars r of
          None \<Rightarrow>
            do { (s1, super_class) \<leftarrow> getSuper st (Some cls);
                 (case super_class of
                    None \<Rightarrow> Some s1
                  | Some (SuperName _) \<Rightarrow> None
                  | Some (SuperClass s) \<Rightarrow>
                      do { rs \<leftarrow> classes s1 s;
                           upd_class cls (\<lambda>x. x\<lparr>c_instance_size := c_instance_size rs\<rparr>) s1 }) }
        | Some il \<Rightarrow>
            if il_size il \<noteq> sizeof_objc_ivar then None
            else if c_instance_size r > 0 then Some st
            else do {
              (s1, super) \<leftarrow> getSuper st (Some cls);
              (s2, ivar_start) \<leftarrow>
                (case super of
                   None \<Rightarrow> Some (s1, 0)
                 | Some (SuperName _) \<Rightarrow> None
                 | Some (SuperClass s) \<Rightarrow>
                     do { rs \<leftarrow> classes s1 s;
                          t \<leftarrow> (if c_instance_size rs \<le> 0 then compute s1 s else Some s1);
                          rt \<leftarrow> classes t s;
                          Some (t, c_instance_size rt) });
              layout_ivars s2 cls ivar_start })
     }"

fun objc_resolve_class :: "nat \<Rightarrow> rt_state \<Rightarrow> nat \<Rightarrow> (rt_state \<times> bool) option"
and objc_compute_ivar_offsets :: "nat \<Rightarrow> rt_state \<Rightarrow> nat \<Rightarrow> rt_state option"
and class_getSuperclass :: "nat \<Rightarrow> rt_state \<Rightarrow> nat option \<Rightarrow> (rt_state \<times> super_ref option) option" where
  "objc_resolve_class 0 st cls = None"
| "objc_resolve_class (Suc fuel) st cls =
     resolve_body (\<lambda>s c. objc_resolve_class fuel s c) (\<lambda>s c. objc_compute_ivar_offsets fuel s c)
       (Suc fuel) st cls"
| "objc_compute_ivar_offsets 0 st cls = None"
| "objc_compute_ivar_offsets (Suc fuel) st cls =
     compute_body (\<lambda>s c. class_getSuperclass fuel s c) (\<lambda>s c. objc_compute_ivar_offsets fuel s c) st cls"
| "class_getSuperclass 0 st cls = None"
| "class_getSuperclass (Suc fuel) st cls = getSuperclass_body (\<lambda>s c. objc_resolve_class fuel s c) st cls"

text \<open>The inner loop of \<open>objc_resolve_class_links\<close>; it fails on the assertion of the code.\<close>

fun resolve_pass :: "nat \<Rightarrow> nat \<Rightarrow> rt_state \<Rightarrow> nat option \<Rightarrow> bool \<Rightarrow> (rt_state \<times> bool) option" where
  "resolve_pass depth n st None resolvedClass = Some (st, resolvedClass)"
| "resolve_pass depth 0 st (Some c) resolvedClass = None"
| "resolve_pass depth (Suc n) st (Some c) resolvedClass =
     do {
       r \<leftarrow> classes st c;
       if resolved r then (if resolvedClass then Some (st, True) else None)
       else do {
         (s1, _) \<leftarrow> objc_resolve_class depth st c;
         r1 \<leftarrow> classes s1 c;
         resolve_pass depth n s1 (c_subclass_list r) (resolvedClass \<or> resolved r1)
       }
     }"

fun objc_resolve_class_links :: "nat \<Rightarrow> nat \<Rightarrow> rt_state \<Rightarrow> rt_state option" where
  "objc_resolve_class_links depth 0 st = None"
| "objc_resolve_class_links depth (Suc n) st =
     do {
       (s1, resolvedClass) \<leftarrow> resolve_pass depth (Suc n) st (unresolved_class_list st) False;
       if resolvedClass then objc_resolve_class_links depth n s1 else Some s1
     }"

section \<open>Enumeration\<close>

text \<open>
  An enumerator of the table is created by the first call and freed by the call that finds no
  further entry; using or freeing a freed one is an error.
\<close>

datatype enumerator = NoEnumerator | Live nat | Freed

definition class_table_next :: "rt_state \<Rightarrow> enumerator \<Rightarrow> (enumerator \<times> nat option) option" where
  "class_table_next st e =
     (let step = (\<lambda>seen. if length (class_table st) \<le> seen then (Freed, None)
                         else (Live (Suc seen), Some (class_table st ! seen))) in
      case e of NoEnumerator \<Rightarrow> Some (step 0) | Live seen \<Rightarrow> Some (step seen) | Freed \<Rightarrow> None)"

definition free_enumerator :: "enumerator \<Rightarrow> unit option" where
  "free_enumerator e = (if e = Freed then None else Some ())"

fun fill_class_list :: "nat \<Rightarrow> rt_state \<Rightarrow> enumerator \<Rightarrow> nat list \<Rightarrow> (enumerator \<times> nat list) option" where
  "fill_class_list 0 st e buffer = Some (e, buffer)"
| "fill_class_list (Suc room) st e buffer =
     do {
       (e1, next) \<leftarrow> class_table_next st e;
       (case next of
          None \<Rightarrow> Some (e1, buffer)
        | Some c \<Rightarrow> fill_class_list room st e1 (buffer @ [c]))
     }"

text \<open>Returns the classes stored to the buffer and the result.\<close>

definition objc_getClassList :: "rt_state \<Rightarrow> bool \<Rightarrow> int \<Rightarrow> (nat list \<times> int) option" where
  "objc_getClassList st buffer_null bufferLen =
     (if buffer_null \<or> bufferLen = 0 then Some ([], int (length (class_table st)))
      else do {
        (e, buffer) \<leftarrow> fill_class_list (nat bufferLen) st NoEnumerator [];
        _ \<leftarrow> free_enumerator e;
        Some (buffer, int (length buffer))
      })"

definition objc_copyClassList :: "bool \<Rightarrow> rt_state \<Rightarrow> (nat list option \<times> int) option" where
  "objc_copyClassList malloc_ok st =
     (let count = int (length (class_table st)) in
      do {
        (buffer, _) \<leftarrow> objc_getClassList st (\<not> malloc_ok) count;
        Some (if malloc_ok then Some buffer else None, count)
      })"

section \<open>The state at start-up\<close>

text \<open>The state \<open>init_class_tables\<close> and \<open>init_dispatch_tables\<close> leave, for given selector table
  operations. Which addresses the linker gives to the four nil methods does not matter.\<close>

definition boot_state ::
  "(string \<Rightarrow> string option \<Rightarrow> selector option) \<Rightarrow> (selector \<Rightarrow> uint32) \<Rightarrow> rt_state" where
  "boot_state reg idx =
     \<lparr>classes = (\<lambda>_. None), class_brk = 0, meths = (\<lambda>_. None), meth_brk = 0, ints = (\<lambda>_. None), int_brk = 0,
      class_table = [], future_class_table = [], remapped_class_table = [], alias_table = [],
      class_table_generation = 1, class_lookup_cache = (\<lambda>_. empty_cache 0),
      unresolved_class_list = None, dev_mode = mode_user, zombie_class = None,
      SmallObjectClasses = replicate 7 None, load_table = [], load_calls = [], load_callbacks = [],
      dtables = fst (the (SparseArrayNewWithDepth (sa_empty_heap (\<lambda>_. False)) 8)),
      uninstalled_dtable = Node 0, temporary_dtables = [],
      dtable_depth = 8, objc_method_cache_version = 0, rt_protocols = empty_proto_state,
      register_selector = reg, sel_index = idx, object_isa = (\<lambda>_. None), initialize_calls = [],
      type_mismatch_v1 = None, type_mismatch2 = Mismatch2Default,
      proxy_lookup = (\<lambda>_ _. None), msg_forward2 = (\<lambda>_ _. 1),
      nil_imp = (\<lambda>k. case k of NilInteger \<Rightarrow> 1 | NilLongDouble \<Rightarrow> 2 | NilDouble \<Rightarrow> 3 | NilFloat \<Rightarrow> 4),
      uncacheable_imp = 1,
      uncacheable_slot_v1 = \<lparr>os_owner = None, os_cachedFor = None, os_types = None, os_version = 0,
        os_method = 1, os_selector = None\<rparr>\<rparr>"

text \<open>A freshly loaded class: no links, no methods, no instance variables.\<close>

definition plain_class :: "cstring \<Rightarrow> nat option \<Rightarrow> super_ref option \<Rightarrow> objc_class" where
  "plain_class name isa super =
     \<lparr>c_isa = isa, c_super_class = super, c_name = Some name, c_version = 0, c_info = 0,
      c_instance_size = 0, c_ivars = None, c_methods = [], c_dtable = None,
      c_subclass_list = None, c_cxx_construct = 0, c_cxx_destruct = 0, c_sibling_class = None,
      c_protocols = None, c_abi_version = 0, c_properties = []\<rparr>"

end
