(* ===== verification/Objc_Class_Lookup_Thms.thy ===== *)
theory Objc_Class_Lookup_Thms
  imports Objc_Class_Table
begin

text \<open>
  Lookup of classes by name: the per-thread caches never change an answer, future classes keep
  their identity when the class is loaded, and enumeration.
\<close>

section \<open>The lookup cache is transparent\<close>

definition entries_ok :: "rt_state \<Rightarrow> lookup_cache \<Rightarrow> bool" where
  "entries_ok st lc \<longleftrightarrow>
     (\<forall>s w c. lc_entries lc s w = Some c \<longrightarrow>
        (\<exists>nm. class_text st c = Some nm \<and> class_table_internal_table_get st nm = Some c))"

lemma entries_ok_cong:
  assumes "class_table st' = class_table st" "\<And>c. class_text st' c = class_text st c"
  shows "entries_ok st' lc = entries_ok st lc"
  using assms by (simp add: entries_ok_def class_table_internal_table_get_def)

lemma entries_ok_empty [simp]: "entries_ok st (empty_cache g)"
  by (simp add: entries_ok_def empty_cache_def)

lemma cache_hit_ok:
  assumes "entries_ok st lc" "cache_hit st lc nm w = Some c"
  shows "class_table_internal_table_get st (cs_text nm) = Some c"
  using assms by (fastforce simp: entries_ok_def cache_hit_def split: option.splits if_splits)

lemma entries_ok_victim [simp]: "entries_ok st (lc\<lparr>lc_victim := v\<rparr>) = entries_ok st lc"
  by (simp add: entries_ok_def)

lemma entries_ok_store:
  assumes "entries_ok st lc" "class_table_internal_table_get st nm = Some c"
  shows "entries_ok st (cache_store lc s a c)"
proof -
  have "class_text st c = Some nm"
    using assms(2) by (auto simp: class_table_internal_table_get_def find_Some_iff)
  with assms show ?thesis
    by (simp add: entries_ok_def cache_store_def Let_def)
qed

lemma cache_store_generation [simp]: "lc_generation (cache_store lc s a c) = lc_generation lc"
  by (simp add: cache_store_def Let_def)

text \<open>What a lookup answers and what it leaves behind, for a cache that is stale or correct.\<close>

lemma get_safe_correct:
  assumes "lc_generation (class_lookup_cache st t) = class_table_generation st \<longrightarrow>
      entries_ok st (class_lookup_cache st t)"
  shows "\<exists>lc. class_table_get_safe t st (Some nm) =
      (st\<lparr>class_lookup_cache := (class_lookup_cache st)(t := lc)\<rparr>,
       class_table_internal_table_get st (cs_text nm)) \<and>
      lc_generation lc = class_table_generation st \<and> entries_ok st lc"
proof -
  define lc where "lc = (if lc_generation (class_lookup_cache st t) \<noteq> class_table_generation st
     then empty_cache (class_table_generation st) else class_lookup_cache st t)"
  have ok: "entries_ok st lc" and gen: "lc_generation lc = class_table_generation st"
    using assms by (auto simp: lc_def empty_cache_def [of "class_table_generation st"] entries_ok_def)
  show ?thesis
  proof (cases "find (\<lambda>w. cache_hit st lc nm w \<noteq> None) [0..<CLASS_LOOKUP_CACHE_WAYS]")
    case (Some w)
    then obtain c where c: "cache_hit st lc nm w = Some c" by (auto simp: find_Some_iff)
    show ?thesis
      using Some c cache_hit_ok [OF ok c] ok gen
      by (intro exI [of _ "lc\<lparr>lc_victim := (lc_victim lc)(class_lookup_cache_set (cs_addr nm) := 1 - w)\<rparr>"])
        (simp add: class_table_get_safe_def Let_def lc_def [symmetric])
  next
    case None
    show ?thesis
    proof (cases "class_table_internal_table_get st (cs_text nm)")
      case none: None
      then show ?thesis
        using None ok gen by (intro exI [of _ lc]) (simp add: class_table_get_safe_def Let_def lc_def [symmetric])
    next
      case (Some c)
      then show ?thesis
        using None gen entries_ok_store [OF ok Some]
        by (intro exI [of _ "cache_store lc (class_lookup_cache_set (cs_addr nm)) (cs_addr nm) c"])
          (simp add: class_table_get_safe_def Let_def lc_def [symmetric])
    qed
  qed
qed

lemma get_safe_frame:
  "class_table (fst (class_table_get_safe t st nm)) = class_table st"
  "class_text (fst (class_table_get_safe t st nm)) c = class_text st c"
  by (auto simp: class_table_get_safe_def Let_def class_text_def split: option.split)

lemma table_get_cong:
  assumes "class_table st' = class_table st" "\<And>c. class_text st' c = class_text st c"
  shows "class_table_internal_table_get st' nm = class_table_internal_table_get st nm"
  using assms by (simp add: class_table_internal_table_get_def)

text \<open>
  Runs of the class table: lookups by any thread, insertions, removals, and steps of the rest
  of the runtime, which do not touch the table, the caches or the names of classes. The number
  counts the changes of the table.
\<close>

inductive table_run :: "nat \<Rightarrow> rt_state \<Rightarrow> bool" where
  start: "class_table st = [] \<Longrightarrow> class_table_generation st = 1 \<Longrightarrow>
    \<forall>t. class_lookup_cache st t = empty_cache 0 \<Longrightarrow> table_run 0 st"
| lookup: "table_run n st \<Longrightarrow> table_run n (fst (class_table_get_safe t st nm))"
| insert: "table_run n st \<Longrightarrow> class_table_insert ok st c = Some st' \<Longrightarrow>
    table_run (if ok then Suc n else n) st'"
| remove: "table_run n st \<Longrightarrow> class_table_remove st c = Some st' \<Longrightarrow> table_run (Suc n) st'"
| other: "table_run n st \<Longrightarrow> class_table st' = class_table st \<Longrightarrow>
    class_table_generation st' = class_table_generation st \<Longrightarrow>
    class_lookup_cache st' = class_lookup_cache st \<Longrightarrow>
    \<forall>c. class_text st' c = class_text st c \<Longrightarrow> table_run n st'"

definition cache_inv :: "nat \<Rightarrow> rt_state \<Rightarrow> bool" where
  "cache_inv n st \<longleftrightarrow> class_table_generation st = of_nat (Suc n) \<and>
     (\<forall>t. \<exists>k \<le> Suc n. lc_generation (class_lookup_cache st t) = of_nat k \<and>
        (k = Suc n \<longrightarrow> entries_ok st (class_lookup_cache st t)))"

lemma cache_inv_bump:
  assumes "cache_inv n st" "class_table_generation st' = class_table_generation st + 1"
    and "class_lookup_cache st' = class_lookup_cache st"
  shows "cache_inv (Suc n) st'"
  using assms by (fastforce simp: cache_inv_def le_Suc_eq)

lemma cache_inv_frame:
  assumes "cache_inv n st" "class_table_generation st' = class_table_generation st"
    and "class_lookup_cache st' = class_lookup_cache st" "class_table st' = class_table st"
    and "\<And>c. class_text st' c = class_text st c"
  shows "cache_inv n st'"
  using assms entries_ok_cong [of st' st] by (simp add: cache_inv_def)

lemma cache_inv_current:
  assumes "cache_inv n st" "Suc n < 2 ^ 64"
  shows "lc_generation (class_lookup_cache st t) = class_table_generation st \<longrightarrow>
    entries_ok st (class_lookup_cache st t)"
proof
  assume eq: "lc_generation (class_lookup_cache st t) = class_table_generation st"
  obtain k where k: "k \<le> Suc n" "lc_generation (class_lookup_cache st t) = of_nat k"
    "k = Suc n \<longrightarrow> entries_ok st (class_lookup_cache st t)"
    using assms(1) unfolding cache_inv_def by blast
  have "(of_nat k :: uint64) = of_nat (Suc n)" using eq k(2) assms(1) by (simp add: cache_inv_def)
  then have "unat (of_nat k :: uint64) = unat (of_nat (Suc n) :: uint64)" by (simp only:)
  then have "k mod 2 ^ 64 = Suc n mod 2 ^ 64" by (simp only: unat_of_nat) simp
  then have "k = Suc n" using k(1) assms(2) by simp
  with k(3) show "entries_ok st (class_lookup_cache st t)" by simp
qed

text \<open>A lookup keeps the invariant of the caches.\<close>

lemma get_safe_inv:
  assumes inv: "cache_inv n st" and small: "Suc n < 2 ^ 64"
  shows "\<exists>lcs. class_table_get_safe t st (Some nm) = (st\<lparr>class_lookup_cache := lcs\<rparr>, class_table_internal_table_get st (cs_text nm)) \<and>
    cache_inv n (st\<lparr>class_lookup_cache := lcs\<rparr>)"
proof -
  from get_safe_correct [OF cache_inv_current [OF assms], of t nm] obtain lc where
    lc: "class_table_get_safe t st (Some nm) = (st\<lparr>class_lookup_cache := (class_lookup_cache st)(t := lc)\<rparr>,
      class_table_internal_table_get st (cs_text nm))" "lc_generation lc = class_table_generation st" "entries_ok st lc" by blast
  let ?st = "st\<lparr>class_lookup_cache := (class_lookup_cache st)(t := lc)\<rparr>"
  have "entries_ok ?st l = entries_ok st l" for l by (intro entries_ok_cong) (simp_all add: class_text_def)
  then have "cache_inv n ?st" using inv lc(2,3) by (auto simp: cache_inv_def intro!: exI [of _ "Suc n"])
  with lc(1) show ?thesis by blast
qed

lemma class_text_upd:
  assumes "upd_class c f st = Some st'" "\<And>x. c_name (f x) = c_name x"
  shows "class_text st' d = class_text st d"
  using assms by (auto simp: upd_class_def class_text_def split: option.splits)

lemma upd_class_frame:
  assumes "upd_class c f st = Some st'"
  shows "class_table st' = class_table st" "class_table_generation st' = class_table_generation st"
    "class_lookup_cache st' = class_lookup_cache st"
  using assms by (auto simp: upd_class_def split: option.splits)

lemma link_unresolved_frame:
  assumes "link_unresolved st c = Some st'"
  shows "class_text st' d = class_text st d" "class_lookup_cache st' = class_lookup_cache st"
    "class_table st' = class_table st" "class_table_generation st' = class_table_generation st"
proof -
  obtain t1 t2 where t: "t1 = st \<or> (\<exists>u. upd_class u (\<lambda>x. x\<lparr>c_sibling_class := Some c\<rparr>) st = Some t1)"
    "upd_class c (\<lambda>x. x\<lparr>c_subclass_list := unresolved_class_list t1\<rparr>) t1 = Some t2"
    "st' = t2\<lparr>unresolved_class_list := Some c\<rparr>"
  proof (cases "unresolved_class_list st")
    case None
    then show ?thesis using assms that [of st] by (auto simp: link_unresolved_def bind_eq_Some_conv)
  next
    case (Some u)
    then show ?thesis using assms that by (auto simp: link_unresolved_def bind_eq_Some_conv)
  qed
  have 1: "class_text t1 d = class_text st d" "class_lookup_cache t1 = class_lookup_cache st"
    "class_table t1 = class_table st" "class_table_generation t1 = class_table_generation st"
    using t(1) by (auto simp: upd_class_frame intro: class_text_upd)
  have 2: "class_text t2 d = class_text t1 d" by (rule class_text_upd [OF t(2)]) simp
  have 3: "class_text st' d = class_text t2 d" by (simp add: t(3) class_text_def)
  from 1 2 3 show "class_text st' d = class_text st d" by simp
  from 1 upd_class_frame [OF t(2)]
  show "class_lookup_cache st' = class_lookup_cache st" "class_table st' = class_table st"
    "class_table_generation st' = class_table_generation st" by (simp_all add: t(3))
qed

lemma class_table_insert_frame:
  assumes "class_table_insert ok st c = Some st'"
  shows "class_text st' d = class_text st d" "class_lookup_cache st' = class_lookup_cache st"
    "class_table st' = class_table st @ (if ok then [c] else [])"
    "class_table_generation st' = class_table_generation st + (if ok then 1 else 0)"
proof -
  obtain r nm s1 where r: "classes st c = Some r" "c_name r = Some nm"
    and s1: "(if objc_test_class_flag r objc_class_flag_resolved then Some st else link_unresolved st c) = Some s1"
    and st': "st' = (let s2 = (if zombie_class s1 = None \<and> cs_text nm = ''NSZombie''
                 then s1\<lparr>zombie_class := Some c\<rparr> else s1) in
        if ok then class_table_invalidate_cache (s2\<lparr>class_table := class_table s2 @ [c]\<rparr>) else s2)"
    using assms unfolding class_table_insert_def bind_eq_Some_conv Let_def by blast
  have "class_text s1 d = class_text st d" "class_lookup_cache s1 = class_lookup_cache st"
    "class_table s1 = class_table st" "class_table_generation s1 = class_table_generation st"
    using s1 link_unresolved_frame [of st c s1] by (auto split: if_splits)
  then show "class_text st' d = class_text st d" "class_lookup_cache st' = class_lookup_cache st"
    "class_table st' = class_table st @ (if ok then [c] else [])"
    "class_table_generation st' = class_table_generation st + (if ok then 1 else 0)"
    by (simp_all add: st' Let_def class_table_invalidate_cache_def class_text_def)
qed

lemma table_run_inv: "table_run n st \<Longrightarrow> Suc n < 2 ^ 64 \<Longrightarrow> cache_inv n st"
proof (induction rule: table_run.induct)
  case (start st)
  then show ?case by (auto simp: cache_inv_def empty_cache_def intro!: exI [of _ 0])
next
  case (lookup n st t nm)
  then have inv: "cache_inv n st" by simp
  show ?case
  proof (cases nm)
    case None
    then show ?thesis using inv by (simp add: class_table_get_safe_def)
  next
    case (Some x)
    then show ?thesis using get_safe_inv [OF inv lookup.prems, of t x] by auto
  qed
next
  case (insert n st ok c st')
  note frame = class_table_insert_frame [OF insert.hyps(2)]
  show ?case
  proof (cases ok)
    case True
    then show ?thesis using insert frame by (auto intro: cache_inv_bump)
  next
    case False
    then show ?thesis using insert frame by (auto intro: cache_inv_frame [of n st])
  qed
next
  case (remove n st c st')
  then show ?case
    by (auto intro!: cache_inv_bump [of n st] simp: class_table_remove_def bind_eq_Some_conv
        class_table_invalidate_cache_def split: if_splits)
next
  case (other n st st')
  then show ?case by (auto intro: cache_inv_frame [of n st])
qed

text \<open>
  C22: The class lookup cache is transparent. In every state that a run of the class table can
  reach with fewer than \<open>2 ^ 64 - 1\<close> changes of the table, whatever the threads looked up before,
  whatever addresses the names had and whatever those addresses held then,
  \<open>class_table_get_safe\<close> answers exactly what the table holds for the name, and it changes nothing
  but the cache of its own thread.
\<close>

theorem class_lookup_transparent:
  assumes "table_run n st" "Suc n < 2 ^ 64"
  shows "\<exists>lc. class_table_get_safe t st (Some nm) =
    (st\<lparr>class_lookup_cache := (class_lookup_cache st)(t := lc)\<rparr>,
     class_table_internal_table_get st (cs_text nm))"
  using get_safe_correct [OF cache_inv_current [OF table_run_inv [OF assms] assms(2)]] by blast

definition two_classes :: rt_state where
  "two_classes =
     (boot_state (\<lambda>n t. Some \<lparr>sel_name = n, sel_type = t\<rparr>) (\<lambda>_. 0))
       \<lparr>classes := [0 \<mapsto> plain_class \<lparr>cs_addr = 16, cs_text = ''A''\<rparr> (Some 2) None,
                   1 \<mapsto> plain_class \<lparr>cs_addr = 32, cs_text = ''B''\<rparr> (Some 3) (Some (SuperClass 0)),
                   2 \<mapsto> plain_class \<lparr>cs_addr = 16, cs_text = ''A''\<rparr> None None,
                   3 \<mapsto> plain_class \<lparr>cs_addr = 32, cs_text = ''B''\<rparr> None None],
        class_brk := 4\<rparr>"

text \<open>The same buffer, at address 64, is used for two different names.\<close>

theorem class_lookup_transparent_witness:
  "\<exists>s1 s2. class_table_insert True two_classes 0 = Some s1 \<and> class_table_insert True s1 1 = Some s2 \<and>
     snd (class_table_get_safe 5 (fst (class_table_get_safe 5 s2 (Some \<lparr>cs_addr = 64, cs_text = ''A''\<rparr>)))
       (Some \<lparr>cs_addr = 64, cs_text = ''B''\<rparr>)) = Some 1"
proof -
  let ?A = "\<lparr>cs_addr = 64, cs_text = ''A''\<rparr>" and ?B = "\<lparr>cs_addr = 64, cs_text = ''B''\<rparr>"
  have "table_run 0 two_classes"
    by (rule table_run.start) (simp_all add: two_classes_def boot_state_def)
  moreover obtain s1 where s1: "class_table_insert True two_classes 0 = Some s1"
    by (simp add: class_table_insert_def link_unresolved_def two_classes_def boot_state_def plain_class_def
        objc_test_class_flag_def objc_class_flag_resolved_def upd_class_def)
  moreover obtain s2 where s2: "class_table_insert True s1 1 = Some s2"
    using s1 by (force simp: class_table_insert_def link_unresolved_def two_classes_def boot_state_def plain_class_def
        objc_test_class_flag_def objc_class_flag_resolved_def upd_class_def class_table_invalidate_cache_def)
  ultimately have "table_run 2 (fst (class_table_get_safe 5 s2 (Some ?A)))"
    using table_run.insert [of 0 two_classes True 0 s1] table_run.insert [of 1 s1 True 1 s2]
    by (auto intro!: table_run.lookup simp: numeral_2_eq_2)
  from class_lookup_transparent [OF this, of 5 ?B] have
    "snd (class_table_get_safe 5 (fst (class_table_get_safe 5 s2 (Some ?A))) (Some ?B)) =
     class_table_internal_table_get (fst (class_table_get_safe 5 s2 (Some ?A))) ''B''" by auto
  also have "\<dots> = class_table_internal_table_get s2 ''B''"
    by (rule table_get_cong [OF get_safe_frame])
  also have "\<dots> = Some 1"
    using class_table_insert_frame [OF s1] class_table_insert_frame [OF s2]
    by (simp add: class_table_internal_table_get_def)
      (simp add: class_text_def two_classes_def boot_state_def plain_class_def)
  finally show ?thesis using s1 s2 by blast
qed

section \<open>Future classes\<close>

lemma future_get_append:
  "future_class_internal_table_get st nm = None \<Longrightarrow> class_text st' f = Some nm \<Longrightarrow>
   \<forall>c \<in> set (future_class_table st). class_text st' c = class_text st c \<Longrightarrow>
   future_class_table st' = future_class_table st @ [f] \<Longrightarrow>
   future_class_internal_table_get st' nm = Some f"
  by (auto simp: future_class_internal_table_get_def find_None_iff find_Some_iff nth_append
      intro!: exI [of _ "length (future_class_table st)"])

lemma rt_alloc_ok:
  assumes "\<not> pr_fails (rt_protocols st) (pr_attempts (rt_protocols st))"
  shows "rt_alloc st = (st\<lparr>rt_protocols := (rt_protocols st)
    \<lparr>pr_attempts := Suc (pr_attempts (rt_protocols st))\<rparr>\<rparr>, True)"
  using assms by (simp add: rt_alloc_def pr_alloc_def)

text \<open>A class at a fresh handle changes no lookup.\<close>

lemma table_get_fresh:
  assumes "class_table st' = class_table st" "f \<notin> set (class_table st)"
    and "\<And>c. c \<noteq> f \<Longrightarrow> class_text st' c = class_text st c"
  shows "class_table_internal_table_get st' nm = class_table_internal_table_get st nm"
  unfolding class_table_internal_table_get_def assms(1)
  using assms(2) by (intro find_cong refl) (metis assms(3))

lemma entries_ok_fresh:
  assumes "entries_ok st lc" "class_table st' = class_table st" "f \<notin> set (class_table st)"
    and "\<And>c. c \<noteq> f \<Longrightarrow> class_text st' c = class_text st c"
  shows "entries_ok st' lc"
proof -
  have "c \<in> set (class_table st)" if "class_table_internal_table_get st nm = Some c" for c nm
    using that by (auto simp: class_table_internal_table_get_def find_Some_iff)
  then show ?thesis
    using assms(1,3,4) table_get_fresh [OF assms(2-4)] unfolding entries_ok_def by metis
qed

text \<open>
  C23: A future class keeps its identity. When \<open>objc_getFutureClass\<close> hands out a new placeholder
  for a name, asking again returns the same placeholder; when a class of that name arrives from
  an image, \<open>objc_claim_future_class\<close> makes the placeholder the class (all its fields are those of
  the arriving definition), redirects the arriving address to it, and does so once: claiming
  again returns the placeholder and changes nothing.
\<close>

theorem future_class_identity:
  assumes "table_run n st" "Suc n < 2 ^ 64"
    and "class_table_internal_table_get st (cs_text nm) = None"
    and "future_class_internal_table_get st (cs_text nm) = None"
    and "\<forall>c \<in> set (class_table st) \<union> set (future_class_table st). c < class_brk st"
    and "\<not> pr_fails (rt_protocols st) (pr_attempts (rt_protocols st))"
    and "\<not> pr_fails (rt_protocols st) (Suc (pr_attempts (rt_protocols st)))"
    and "classes st c = Some r" "c_name r = Some cn" "cs_text cn = cs_text nm" "c < class_brk st"
    and "map_of (remapped_class_table st) c = None"
  shows "\<exists>s1 s2. objc_getFutureClass True a t st (Some nm) = (s1, Some (class_brk st)) \<and>
    snd (objc_getFutureClass True b u s1 (Some nm)) = Some (class_brk st) \<and>
    objc_claim_future_class True s1 (Some c) = Some (s2, Some (class_brk st)) \<and>
    classes s2 (class_brk st) = Some r \<and>
    objc_remap_class s2 (Some c) = Some (class_brk st) \<and>
    objc_claim_future_class True s2 (Some c) = Some (s2, Some (class_brk st))"
proof -
  let ?f = "class_brk st"
  note current = cache_inv_current [OF table_run_inv [OF assms(1,2)] assms(2)]
  obtain lc where get: "class_table_get_safe t st (Some nm) =
      (st\<lparr>class_lookup_cache := (class_lookup_cache st)(t := lc)\<rparr>, None)" and ok: "entries_ok st lc"
    using get_safe_correct [OF current, of t nm] assms(3) by auto
  define s1 where "s1 = st\<lparr>class_lookup_cache := (class_lookup_cache st)(t := lc),
      rt_protocols := (rt_protocols st)\<lparr>pr_attempts := Suc (Suc (pr_attempts (rt_protocols st)))\<rparr>,
      classes := (classes st)(?f \<mapsto> future_class st (nm\<lparr>cs_addr := a\<rparr>)), class_brk := Suc ?f,
      future_class_table := future_class_table st @ [?f]\<rparr>"
  have future0: "future_class_internal_table_get
      (st\<lparr>class_lookup_cache := (class_lookup_cache st)(t := lc)\<rparr>) (cs_text nm) = None"
    using assms(4) by (simp add: future_class_internal_table_get_def class_text_def)
  have first: "objc_getFutureClass True a t st (Some nm) = (s1, Some ?f)"
    using assms(6,7) future0
    by (simp add: objc_getFutureClass_def get rt_alloc_ok s1_def future_class_def Let_def)
  have same: "class_text s1 x = class_text st x" if "x \<noteq> ?f" for x
    using that by (simp add: s1_def class_text_def)
  have text_f: "class_text s1 ?f = Some (cs_text nm)" by (simp add: s1_def class_text_def future_class_def)
  have tab: "class_table s1 = class_table st" "?f \<notin> set (class_table st)" "?f \<notin> set (future_class_table st)"
    using assms(5) by (auto simp: s1_def)
  have cur1: "lc_generation (class_lookup_cache s1 u) = class_table_generation s1 \<longrightarrow>
      entries_ok s1 (class_lookup_cache s1 u)"
    using entries_ok_fresh [OF _ tab(1,2) same] ok current [of u] by (auto simp: s1_def)
  have "class_table_internal_table_get s1 (cs_text nm) = None"
    using table_get_fresh [OF tab(1,2) same] assms(3) by simp
  with get_safe_correct [OF cur1, of nm] obtain lc' where get1:
    "class_table_get_safe u s1 (Some nm) = (s1\<lparr>class_lookup_cache := (class_lookup_cache s1)(u := lc')\<rparr>, None)"
    by auto
  have fut1: "future_class_internal_table_get s1 (cs_text nm) = Some ?f"
  proof (rule future_get_append [OF assms(4) text_f])
    show "\<forall>x \<in> set (future_class_table st). class_text s1 x = class_text st x"
      using tab(3) same by metis
  qed (simp add: s1_def)
  have second: "snd (objc_getFutureClass True b u s1 (Some nm)) = Some ?f"
    using fut1 by (simp add: objc_getFutureClass_def get1 future_class_internal_table_get_def class_text_def)
  define s2 where "s2 = s1\<lparr>remapped_class_table := remapped_class_table s1 @ [(c, ?f)],
      future_class_table := remove1 ?f (future_class_table s1), classes := (classes s1)(?f \<mapsto> r)\<rparr>"
  have c1: "classes s1 c = Some r" "map_of (remapped_class_table s1) c = None" "c \<noteq> ?f"
    using assms(8,11,12) by (auto simp: s1_def)
  have claim: "objc_claim_future_class True s1 (Some c) = Some (s2, Some ?f)"
    using c1 assms(9,10) fut1 by (simp add: objc_claim_future_class_def objc_remap_class_def s2_def)
  have remap: "objc_remap_class s2 (Some c) = Some ?f"
    using c1(2) by (simp add: objc_remap_class_def s2_def map_add_def)
  have again: "objc_claim_future_class True s2 (Some c) = Some (s2, Some ?f)"
    using c1 assms(9) remap by (simp add: objc_claim_future_class_def) (simp add: s2_def)
  show ?thesis using first second claim remap again by (auto simp: s2_def)
qed

theorem future_class_identity_witness:
  "\<exists>s1 s2. objc_getFutureClass True 80 0 two_classes (Some \<lparr>cs_addr = 64, cs_text = ''B''\<rparr>) = (s1, Some 4) \<and>
    objc_claim_future_class True s1 (Some 1) = Some (s2, Some 4) \<and> objc_remap_class s2 (Some 1) = Some 4"
proof -
  let ?B = "\<lparr>cs_addr = 64, cs_text = ''B''\<rparr>"
  have run: "table_run 0 two_classes"
    by (rule table_run.start) (simp_all add: two_classes_def boot_state_def)
  have "class_table_internal_table_get two_classes (cs_text ?B) = None"
    "future_class_internal_table_get two_classes (cs_text ?B) = None"
    "\<forall>c \<in> set (class_table two_classes) \<union> set (future_class_table two_classes). c < class_brk two_classes"
    "\<not> pr_fails (rt_protocols two_classes) (pr_attempts (rt_protocols two_classes))"
    "\<not> pr_fails (rt_protocols two_classes) (Suc (pr_attempts (rt_protocols two_classes)))"
    "1 < class_brk two_classes" "map_of (remapped_class_table two_classes) 1 = None" "class_brk two_classes = 4"
    by (simp_all add: two_classes_def boot_state_def class_table_internal_table_get_def
        future_class_internal_table_get_def empty_proto_state_def)
  moreover have "classes two_classes 1 = Some (plain_class \<lparr>cs_addr = 32, cs_text = ''B''\<rparr> (Some 3) (Some (SuperClass 0)))"
    by (simp add: two_classes_def)
  ultimately show ?thesis
    using future_class_identity [OF run, of ?B 1 _ "\<lparr>cs_addr = 32, cs_text = ''B''\<rparr>" 80 0 80 0]
    by (fastforce simp: plain_class_def)
qed

section \<open>Enumeration\<close>

lemma fill_class_list_Live:
  "seen \<le> length (class_table st) \<Longrightarrow>
   fill_class_list room st (Live seen) buffer =
     Some (if length (class_table st) - seen < room then Freed else Live (seen + room),
           buffer @ take room (drop seen (class_table st)))"
proof (induction room arbitrary: seen buffer)
  case 0
  then show ?case by simp
next
  case (Suc room)
  show ?case
  proof (cases "seen < length (class_table st)")
    case True
    then show ?thesis using Suc.IH [of "Suc seen" "buffer @ [class_table st ! seen]"]
      by (auto simp: class_table_next_def Let_def Cons_nth_drop_Suc [symmetric])
  next
    case False
    then show ?thesis using Suc.prems by (simp add: class_table_next_def Let_def)
  qed
qed

lemma fill_class_list_start:
  "0 < room \<Longrightarrow> fill_class_list room st NoEnumerator buffer = fill_class_list room st (Live 0) buffer"
  by (cases room) (simp_all add: class_table_next_def)

text \<open>
  C24: \<open>objc_getClassList\<close> on a buffer of \<open>n\<close> entries stores the first \<open>n\<close> classes when there are at
  least \<open>n\<close>. When the buffer has more room than there are classes, the enumeration runs to its
  end, which frees the enumerator, and the function frees it a second time: the call is
  undefined. The exact buffer that \<open>objc_copyClassList\<close> uses is safe and gets every class.
\<close>

theorem class_list_exact:
  "objc_getClassList st False (int n) =
     (if n = 0 then Some ([], int (length (class_table st)))
      else if n \<le> length (class_table st) then Some (take n (class_table st), int n)
      else None) \<and>
   objc_copyClassList True st = Some (Some (class_table st), int (length (class_table st)))"
proof -
  have list: "objc_getClassList st False (int n) =
     (if n = 0 then Some ([], int (length (class_table st)))
      else if n \<le> length (class_table st) then Some (take n (class_table st), int n)
      else None)" for n
    by (auto simp: objc_getClassList_def fill_class_list_start fill_class_list_Live free_enumerator_def)
  then show ?thesis by (simp add: objc_copyClassList_def Let_def)
qed

end
