(* ===== verification/Objc_Ivar_Thms.thy ===== *)
theory Objc_Ivar_Thms
  imports Objc_Class_Table
begin

text \<open>
  Instance variables: the encoding of alignment and ownership in the flags, and the layout
  computed by \<open>objc_compute_ivar_offsets\<close>, which is compared with a reference layout.
\<close>

unbundle bit_operations_syntax

section \<open>Flags\<close>

lemma clz_power: "e < 64 \<Longrightarrow> builtin_clzll (push_bit e 1) = 63 - e"
proof -
  assume e: "e < 64"
  then have "[0..<64] = [0..<Suc e] @ [Suc e..<64]" by (metis Suc_leI le0 upt_add_eq_append le_add_diff_inverse)
  then have split: "rev [0..<64] = rev [Suc e..<64] @ e # rev [0..<e]" by simp
  have bit: "bit (push_bit e 1 :: size_t) i \<longleftrightarrow> i = e" for i
    using e by (auto simp: bit_simps)
  have "takeWhile (\<lambda>i. \<not> bit (push_bit e 1 :: size_t) i) (rev [0..<64]) = rev [Suc e..<64]"
    unfolding split bit by (subst takeWhile_append2) auto
  then show ?thesis unfolding builtin_clzll_def using e by simp
qed

lemma align_codes:
  "list_all (\<lambda>e. push_bit 3 (of_nat e :: uint32) AND ivar_align_mask = push_bit 3 (of_nat e) \<and>
     drop_bit 3 (push_bit 3 (of_nat e :: uint32)) = of_nat e \<and>
     push_bit 3 (of_nat e :: uint32) AND ivar_ownership_mask = 0 \<and> \<not> 64 \<le> (of_nat e :: uint32)) [0..<64]"
  by code_simp

lemma align_code:
  assumes "e < 64"
  shows "push_bit 3 (of_nat e :: uint32) AND ivar_align_mask = push_bit 3 (of_nat e)"
    and "drop_bit 3 (push_bit 3 (of_nat e :: uint32)) = of_nat e"
    and "push_bit 3 (of_nat e :: uint32) AND ivar_ownership_mask = 0"
    and "\<not> 64 \<le> (of_nat e :: uint32)" "unat (of_nat e :: uint32) = e"
  using align_codes assms by (auto simp: list_all_iff unat_of_nat)

lemma masked_field: "y AND m = y \<Longrightarrow> ((x AND NOT m) OR y) AND m = (y :: uint32)"
proof (rule bit_word_eqI)
  fix i assume "y AND m = y" "i < LENGTH(32)"
  then show "bit (((x AND NOT m) OR y) AND m) i = bit y i"
    by (cases "bit y i") (use \<open>y AND m = y\<close> in \<open>metis bit_and_iff bit_or_iff bit_not_iff\<close>)+
qed

lemma masked_other: "n AND m = 0 \<Longrightarrow> y AND n = 0 \<Longrightarrow> ((x AND NOT m) OR y) AND n = x AND (n :: uint32)"
proof (rule bit_word_eqI)
  fix i assume a: "n AND m = 0" "y AND n = 0"
  have "\<not> (bit n i \<and> bit m i)" "\<not> (bit y i \<and> bit n i)"
    using a by (metis bit_and_iff bit_0_eq bot_apply bot_bool_def)+
  moreover assume "i < LENGTH(32)"
  ultimately show "bit (((x AND NOT m) OR y) AND n) i = bit (x AND n) i" by (auto simp: bit_simps)
qed

lemma within_disjoint:
  assumes "y AND m = y" "n AND m = 0"
  shows "y AND n = (0 :: uint32)"
proof -
  have "y AND n = (y AND m) AND n" using assms(1) by simp
  also have "\<dots> = y AND (n AND m)" by (simp only: and.assoc and.commute [of m n])
  finally show ?thesis using assms(2) by simp
qed

lemma masks_disjoint: "ivar_ownership_mask AND ivar_align_mask = 0" "ivar_align_mask AND ivar_ownership_mask = 0"
  by (simp_all add: ivar_ownership_mask_def ivar_align_mask_def ivar_align_shift_def)

lemma ownership_field: "ownership_code own AND ivar_ownership_mask = ownership_code own"
  "ownership_code own AND ivar_align_mask = 0"
  by (cases own; simp add: ivar_ownership_mask_def ivar_align_mask_def ivar_align_shift_def)+

text \<open>
  The two fields of the instance variable flags. Any power-of-two alignment up to \<open>2 ^ 63\<close> and
  any ownership that is stored is read back, and storing one field leaves the other one, and
  the bits that belong to neither, as they were.
\<close>

theorem ivar_flags_roundtrip:
  assumes "e < 64"
  shows "ivarGetAlign (ivarSetAlign ivar (push_bit e 1)) = push_bit e 1 \<and>
    ivarGetOwnership (ivarSetOwnership ivar own) = own \<and>
    ivarGetOwnership (ivarSetAlign ivar (push_bit e 1)) = ivarGetOwnership ivar \<and>
    ivarGetAlign (ivarSetOwnership ivar own) = ivarGetAlign ivar \<and>
    (\<forall>other. other AND ivar_align_mask = 0 \<and> other AND ivar_ownership_mask = 0 \<longrightarrow>
       iv_flags (ivarSetAlign (ivarSetOwnership ivar own) (push_bit e 1)) AND other = iv_flags ivar AND other)"
proof -
  have nz: "(push_bit e 1 :: size_t) \<noteq> 0" using assms by (simp add: push_bit_eq_0_iff)
  have flags: "iv_flags (ivarSetAlign iv (push_bit e 1)) =
      (iv_flags iv AND NOT ivar_align_mask) OR push_bit 3 (of_nat e)" for iv
    using assms nz by (simp add: ivarSetAlign_def clz_power [simplified] ivar_align_shift_def)
  note code = align_code [OF assms]
  have 1: "ivarGetAlign (ivarSetAlign ivar (push_bit e 1)) = push_bit e 1"
    unfolding ivarGetAlign_def flags Let_def masked_field [OF code(1)] ivar_align_shift_def code(2)
    using code by simp
  have own: "iv_flags (ivarSetOwnership iv own) = (iv_flags iv AND NOT ivar_ownership_mask) OR ownership_code own" for iv
    by (simp add: ivarSetOwnership_def)
  have 2: "ivarGetOwnership (ivarSetOwnership ivar own) = own"
    unfolding ivarGetOwnership_def own Let_def masked_field [OF ownership_field(1)] by (cases own) simp_all
  have 3: "ivarGetOwnership (ivarSetAlign ivar (push_bit e 1)) = ivarGetOwnership ivar"
    unfolding ivarGetOwnership_def flags masked_other [OF masks_disjoint(1) code(3)] ..
  have 4: "ivarGetAlign (ivarSetOwnership ivar own) = ivarGetAlign ivar"
    unfolding ivarGetAlign_def own masked_other [OF masks_disjoint(2) ownership_field(2)] ..
  have 5: "iv_flags (ivarSetAlign (ivarSetOwnership ivar own) (push_bit e 1)) AND other = iv_flags ivar AND other"
    if "other AND ivar_align_mask = 0" "other AND ivar_ownership_mask = 0" for other
  proof -
    note within_disjoint [OF code(1) that(1)] within_disjoint [OF ownership_field(1) that(2)]
    then show ?thesis unfolding flags own using that by (simp add: masked_other)
  qed
  from 1 2 3 4 5 show ?thesis by blast
qed

theorem ivar_flags_roundtrip_witness:
  "ivarGetAlign (ivarSetAlign \<lparr>iv_name = None, iv_type = None, iv_offset = None, iv_size = 4, iv_flags = 7\<rparr> 16) = 16"
  using ivar_flags_roundtrip [of 4 "\<lparr>iv_name = None, iv_type = None, iv_offset = None, iv_size = 4, iv_flags = 7\<rparr>"]
  by simp

section \<open>Layout\<close>

text \<open>
  The reference layout: a variable whose compile-time offset equals that of the variable placed
  before it is another bit-field of the same storage unit; every other variable goes to the
  first position at which the object, with its hidden reference count in front, is aligned.
  A variable is given as its compile-time offset, its size and its alignment.
\<close>

type_synonym ivar_spec = "int \<times> int \<times> int"

definition align_up :: "int \<Rightarrow> int \<Rightarrow> int" where
  "align_up pos al = pos + (- (pos + refcount_size)) mod al"

fun ref_layout :: "int \<Rightarrow> (int \<times> int) option \<Rightarrow> ivar_spec list \<Rightarrow> int list \<times> int" where
  "ref_layout pos prev [] = ([], pos)"
| "ref_layout pos prev ((v, sz, al) # xs) =
     (if prev \<noteq> None \<and> fst (the prev) = v
      then let (os, e) = ref_layout pos prev xs in (snd (the prev) # os, e)
      else let p = align_up pos al; (os, e) = ref_layout (p + sz) (Some (v, p)) xs in (p # os, e))"

lemma align_up_ok:
  assumes "0 < al"
  shows "pos \<le> align_up pos al" "align_up pos al < pos + al" "(align_up pos al + refcount_size) mod al = 0"
proof -
  show "pos \<le> align_up pos al" "align_up pos al < pos + al" using assms by (simp_all add: align_up_def)
  have "(align_up pos al + refcount_size) mod al = ((pos + refcount_size) + (- (pos + refcount_size)) mod al) mod al"
    by (simp add: align_up_def algebra_simps)
  also have "\<dots> = 0" by (simp add: mod_add_right_eq)
  finally show "(align_up pos al + refcount_size) mod al = 0" .
qed

definition spec_total :: "ivar_spec list \<Rightarrow> int" where
  "spec_total xs = sum_list (map (\<lambda>(v, sz, al). sz + al) xs)"

definition specs_ok :: "ivar_spec list \<Rightarrow> bool" where
  "specs_ok xs \<longleftrightarrow> (\<forall>(v, sz, al) \<in> set xs. 0 \<le> sz \<and> 0 < al)"

lemma ref_layout_length [simp]: "length (fst (ref_layout pos prev xs)) = length xs"
  by (induction pos prev xs rule: ref_layout.induct) (auto simp: Let_def split: prod.split)

text \<open>One step of the loop that places a variable.\<close>

lemma to_int_id: "0 \<le> x \<Longrightarrow> x < 2 ^ 31 \<Longrightarrow> to_int x = x"
  by (simp add: to_int_def signed_take_bit_int_eq_self)

lemma place_ivar_eq:
  assumes "0 \<le> ly_next_ivar ly" "0 < al" "ly_next_ivar ly + al < 2 ^ 31"
  shows "place_ivar ly off v sz al =
    Some (ly\<lparr>ly_next_ivar := align_up (ly_next_ivar ly) al + sz, ly_last_offset := v,
             ly_last_computed_offset := align_up (ly_next_ivar ly) al,
             ly_instance_size := ly_instance_size ly + (align_up (ly_next_ivar ly) al - ly_next_ivar ly) + sz,
             ly_ints := (ly_ints ly)(off \<mapsto> align_up (ly_next_ivar ly) al)\<rparr>)"
proof -
  let ?p = "ly_next_ivar ly" and ?q = "align_up (ly_next_ivar ly) al"
  note q = align_up_ok [OF assms(2), of ?p]
  have o1: "to_int ?p = ?p" using assms by (simp add: to_int_id)
  have big: "(x + refcount_size) mod 2 ^ 64 = x + refcount_size" if "0 \<le> x" "x < 2 ^ 31" for x
    using that by (simp add: refcount_size_def)
  have rem: "(?p + refcount_size) mod 2 ^ 64 mod al = (?p + refcount_size) mod al"
    using big [of ?p] assms by simp
  have pad: "(if (?p + refcount_size) mod al \<noteq> 0 then al - (?p + refcount_size) mod al else 0) = ?q - ?p"
    using assms(2) zmod_zminus1_eq_if [of "?p + refcount_size" al] by (simp add: align_up_def)
  have o2: "to_int ?q = ?q" "(?q + refcount_size) mod 2 ^ 64 mod al = 0"
    using assms q big [of ?q] by (simp_all add: to_int_id)
  show ?thesis
    unfolding place_ivar_def Let_def o1 rem pad using o2 by (simp add: algebra_simps)
qed

text \<open>What the loop reads of a variable.\<close>

definition ivar_spec_of :: "(nat \<Rightarrow> int option) \<Rightarrow> objc_ivar \<Rightarrow> ivar_spec" where
  "ivar_spec_of iv_ints ivar =
     (the (iv_ints (the (iv_offset ivar))), uint (iv_size (the (fix_bool_size ivar))), uint (ivarGetAlign ivar))"

definition ivar_ok :: "(nat \<Rightarrow> int option) \<Rightarrow> objc_ivar \<Rightarrow> bool" where
  "ivar_ok iv_ints ivar \<longleftrightarrow> (iv_size ivar = 0 \<longrightarrow> iv_type ivar \<noteq> None) \<and>
     (\<exists>off. iv_offset ivar = Some off \<and> iv_ints off \<noteq> None)"

lemma ivarGetAlign_nonzero: "ivarGetAlign ivar \<noteq> 0"
proof -
  let ?e = "drop_bit 3 (iv_flags ivar AND ivar_align_mask)"
  have "iv_flags ivar AND ivar_align_mask \<le> ivar_align_mask" by (simp add: word_and_le1)
  then have "unat (iv_flags ivar AND ivar_align_mask) \<le> 504"
    by (simp add: word_le_nat_alt ivar_align_mask_def ivar_align_shift_def)
  then have "unat ?e < 64" by (simp add: unat_drop_bit_eq drop_bit_eq_div unat_div)
  then show ?thesis
    by (simp add: ivarGetAlign_def Let_def ivar_align_shift_def word_le_nat_alt push_bit_eq_0_iff)
qed

lemma fix_bool_size_ok:
  assumes "ivar_ok iv_ints ivar"
  shows "\<exists>ivar'. fix_bool_size ivar = Some ivar' \<and> iv_offset ivar' = iv_offset ivar \<and>
    ivarGetAlign ivar' = ivarGetAlign ivar"
  using assms by (cases "iv_type ivar") (auto simp: fix_bool_size_def ivar_ok_def ivarGetAlign_def)

text \<open>The invariant of the loop at index \<open>k\<close> of the list \<open>ivs\<close>.\<close>

definition layout_inv :: "objc_ivar list \<Rightarrow> nat \<Rightarrow> layout_state \<Rightarrow> bool" where
  "layout_inv ivs k ly \<longleftrightarrow>
     length (ly_ivars ly) = length ivs \<and> (\<forall>j. k \<le> j \<and> j < length ivs \<longrightarrow> ly_ivars ly ! j = ivs ! j) \<and>
     (\<forall>iv \<in> set (drop k ivs). ivar_ok (ly_ints ly) iv) \<and>
     0 \<le> ly_next_ivar ly \<and> ly_instance_size ly = ly_next_ivar ly \<and>
     ly_next_ivar ly + spec_total (map (ivar_spec_of (ly_ints ly)) (drop k ivs)) < 2 ^ 31 \<and>
     (0 < k \<longrightarrow> 0 \<le> ly_last_computed_offset ly \<and> ly_last_computed_offset ly < 2 ^ 31)"

definition layout_prev :: "nat \<Rightarrow> layout_state \<Rightarrow> (int \<times> int) option" where
  "layout_prev k ly = (if k = 0 then None else Some (ly_last_offset ly, ly_last_computed_offset ly))"

lemma spec_frame:
  assumes "\<forall>iv \<in> set ivs. iv_offset iv \<noteq> Some off" "\<forall>iv \<in> set ivs. ivar_ok f iv"
  shows "map (ivar_spec_of (f(off := z))) ivs = map (ivar_spec_of f) ivs"
    and "\<forall>iv \<in> set ivs. ivar_ok (f(off := z)) iv"
proof -
  show "map (ivar_spec_of (f(off := z))) ivs = map (ivar_spec_of f) ivs"
    using assms by (auto simp: ivar_spec_of_def ivar_ok_def)
  show "\<forall>iv \<in> set ivs. ivar_ok (f(off := z)) iv"
    using assms unfolding ivar_ok_def fun_upd_apply by metis
qed

lemma spec_total_nonneg: "0 \<le> spec_total (map (ivar_spec_of f) ivs)"
  unfolding spec_total_def by (induction ivs) (auto simp: ivar_spec_of_def)

lemma layout_step:
  assumes "layout_inv ivs k ly" "k < length ivs" "distinct (map iv_offset ivs)"
  shows "\<exists>ly1 off p. layout_ivar ly k = Some ly1 \<and> layout_inv ivs (Suc k) ly1 \<and>
    iv_offset (ivs ! k) = Some off \<and> ly_ints ly1 = (ly_ints ly)(off \<mapsto> p) \<and>
    ref_layout (ly_next_ivar ly) (layout_prev k ly) (map (ivar_spec_of (ly_ints ly)) (drop k ivs)) =
      (let (os, e) = ref_layout (ly_next_ivar ly1) (layout_prev (Suc k) ly1)
           (map (ivar_spec_of (ly_ints ly1)) (drop (Suc k) ivs)) in (p # os, e)) \<and>
    map iv_offset (ly_ivars ly1) = map iv_offset (ly_ivars ly)"
proof -
  define iv where "iv = ivs ! k"
  note inv = assms(1) [unfolded layout_inv_def]
  have drop: "drop k ivs = iv # drop (Suc k) ivs" using assms(2) by (simp add: Cons_nth_drop_Suc iv_def)
  have ok: "ivar_ok (ly_ints ly) iv" "\<forall>i \<in> set (drop (Suc k) ivs). ivar_ok (ly_ints ly) i"
    using inv by (simp_all add: drop)
  obtain off v where off: "iv_offset iv = Some off" "ly_ints ly off = Some v"
    using ok(1) by (auto simp: ivar_ok_def)
  obtain iv' where iv': "fix_bool_size iv = Some iv'" "iv_offset iv' = Some off" "ivarGetAlign iv' = ivarGetAlign iv"
    using fix_bool_size_ok [OF ok(1)] off(1) by auto
  define al sz where "al = uint (ivarGetAlign iv)" and "sz = uint (iv_size iv')"
  have al: "0 < al" using ivarGetAlign_nonzero [of iv] uint_ge_0 [of "ivarGetAlign iv"]
    unfolding al_def by (metis less_le uint_0_iff)
  have sz: "0 \<le> sz" by (simp add: sz_def)
  have spec: "ivar_spec_of (ly_ints ly) iv = (v, sz, al)"
    by (simp add: ivar_spec_of_def off iv' sz_def al_def)
  have "distinct (map iv_offset (drop k ivs))" using assms(3) by (simp flip: drop_map)
  then have fresh: "\<forall>i \<in> set (drop (Suc k) ivs). iv_offset i \<noteq> Some off"
    using off(1) by (force simp: drop)
  note frame = spec_frame [OF fresh ok(2)]
  have cur: "ly_ivars ly ! k = iv" "k < length (ly_ivars ly)" using inv assms(2) by (simp_all add: iv_def)
  have offs: "map iv_offset ((ly_ivars ly)[k := iv']) = map iv_offset (ly_ivars ly)"
    using cur iv'(2) off(1) by (simp add: map_update list_update_same_conv)
  have total: "ly_next_ivar ly + (sz + al) + spec_total (map (ivar_spec_of (ly_ints ly)) (drop (Suc k) ivs)) < 2 ^ 31"
    using inv by (simp add: drop spec spec_total_def)
  note rest = spec_total_nonneg [of "ly_ints ly" "drop (Suc k) ivs"]
  show ?thesis
  proof (cases "k \<noteq> 0 \<and> v = ly_last_offset ly")
    case True
    let ?p = "ly_last_computed_offset ly"
    have p: "to_int ?p = ?p" using inv True by (simp add: to_int_id)
    define ly1 where "ly1 = ly\<lparr>ly_ivars := (ly_ivars ly)[k := iv'], ly_ints := (ly_ints ly)(off \<mapsto> ?p)\<rparr>"
    have run: "layout_ivar ly k = Some ly1"
      using True cur iv' off p by (simp add: layout_ivar_def ly1_def)
    have "layout_inv ivs (Suc k) ly1"
      using inv total frame(2) al sz True unfolding layout_inv_def ly1_def by (simp add: frame(1))
    moreover have "layout_prev (Suc k) ly1 = layout_prev k ly" using True by (simp add: layout_prev_def ly1_def)
    moreover have "prev = layout_prev k ly \<Longrightarrow> prev \<noteq> None \<and> fst (the prev) = v \<and> snd (the prev) = ?p" for prev
      using True by (simp add: layout_prev_def)
    ultimately show ?thesis using run off(1) offs
      by (intro exI [of _ ly1] exI [of _ off] exI [of _ ?p])
        (simp add: ly1_def drop spec iv_def [symmetric] Let_def frame(1))
  next
    case False
    let ?p = "align_up (ly_next_ivar ly) al"
    note p = align_up_ok [OF al, of "ly_next_ivar ly"]
    define ly0 where "ly0 = ly\<lparr>ly_ivars := (ly_ivars ly)[k := iv']\<rparr>"
    define ly1 where "ly1 = ly0\<lparr>ly_next_ivar := ?p + sz, ly_last_offset := v, ly_last_computed_offset := ?p,
        ly_instance_size := ly_instance_size ly + (?p - ly_next_ivar ly) + sz, ly_ints := (ly_ints ly)(off \<mapsto> ?p)\<rparr>"
    have "place_ivar ly0 off v sz al = Some ly1"
      using place_ivar_eq [of ly0 al off v sz] inv al sz total rest by (simp add: ly0_def ly1_def)
    then have run: "layout_ivar ly k = Some ly1"
      using False cur iv' off al unfolding layout_ivar_def ly0_def al_def sz_def by (auto simp: Let_def)
    have "layout_inv ivs (Suc k) ly1"
      using inv total rest frame(2) al sz p unfolding layout_inv_def ly1_def ly0_def by (simp add: frame(1))
    moreover have "ref_layout pos (layout_prev k ly) ((v, sz, al) # xs) =
        (let p = align_up pos al; (os, e) = ref_layout (p + sz) (Some (v, p)) xs in (p # os, e))" for pos xs
      using False by (auto simp: layout_prev_def)
    ultimately show ?thesis using run off(1) offs
      by (intro exI [of _ ly1] exI [of _ off] exI [of _ ?p])
        (simp del: ref_layout.simps(2) add: ly1_def ly0_def drop spec iv_def [symmetric] Let_def layout_prev_def [of "Suc k"] frame(1))
  qed
qed

lemma layout_loop:
  assumes "layout_inv ivs k ly" "k \<le> length ivs" "distinct (map iv_offset ivs)"
  shows "\<exists>ly'. foldM layout_ivar ly [k..<length ivs] = Some ly' \<and>
    (ly_instance_size ly' = snd (ref_layout (ly_next_ivar ly) (layout_prev k ly) (map (ivar_spec_of (ly_ints ly)) (drop k ivs)))) \<and>
    map (\<lambda>iv. ly_ints ly' (the (iv_offset iv))) (drop k ivs) =
      map Some (fst (ref_layout (ly_next_ivar ly) (layout_prev k ly) (map (ivar_spec_of (ly_ints ly)) (drop k ivs)))) \<and>
    (\<forall>x. Some x \<notin> iv_offset ` set (drop k ivs) \<longrightarrow> ly_ints ly' x = ly_ints ly x) \<and>
    map iv_offset (ly_ivars ly') = map iv_offset (ly_ivars ly)"
  using assms
proof (induction "length ivs - k" arbitrary: k ly)
  case 0
  then show ?case by (simp add: layout_inv_def)
next
  case (Suc m)
  have k: "k < length ivs" and m: "m = length ivs - Suc k" using Suc.hyps(2) by simp_all
  have drop: "drop k ivs = ivs ! k # drop (Suc k) ivs" using k by (simp add: Cons_nth_drop_Suc)
  have upt: "[k..<length ivs] = k # [Suc k..<length ivs]" using k by (simp add: upt_conv_Cons)
  obtain ly1 off p where st: "layout_ivar ly k = Some ly1" "layout_inv ivs (Suc k) ly1"
    "iv_offset (ivs ! k) = Some off" "ly_ints ly1 = (ly_ints ly)(off \<mapsto> p)"
    "ref_layout (ly_next_ivar ly) (layout_prev k ly) (map (ivar_spec_of (ly_ints ly)) (drop k ivs)) =
      (let (os, e) = ref_layout (ly_next_ivar ly1) (layout_prev (Suc k) ly1)
           (map (ivar_spec_of (ly_ints ly1)) (drop (Suc k) ivs)) in (p # os, e))"
    "map iv_offset (ly_ivars ly1) = map iv_offset (ly_ivars ly)"
    using layout_step [OF Suc.prems(1) k Suc.prems(3)] by blast
  obtain os e where ref: "ref_layout (ly_next_ivar ly1) (layout_prev (Suc k) ly1)
      (map (ivar_spec_of (ly_ints ly1)) (drop (Suc k) ivs)) = (os, e)" by force
  obtain ly' where IH: "foldM layout_ivar ly1 [Suc k..<length ivs] = Some ly'" "ly_instance_size ly' = e"
    "map (\<lambda>iv. ly_ints ly' (the (iv_offset iv))) (drop (Suc k) ivs) = map Some os"
    "\<forall>x. Some x \<notin> iv_offset ` set (drop (Suc k) ivs) \<longrightarrow> ly_ints ly' x = ly_ints ly1 x"
    "map iv_offset (ly_ivars ly') = map iv_offset (ly_ivars ly1)"
    using Suc.hyps(1) [OF m st(2) Suc_leI [OF k] Suc.prems(3)] unfolding ref fst_conv snd_conv by blast
  have "distinct (map iv_offset (drop k ivs))" using Suc.prems(3) by (simp flip: drop_map)
  then have "Some off \<notin> iv_offset ` set (drop (Suc k) ivs)" using st(3) by (auto simp: drop)
  then have "ly_ints ly' off = Some p" using IH(4) st(4) by simp
  then show ?case
    unfolding st(5) ref upt using st(1,3,4,6) IH
    by (intro exI [of _ ly']) (simp add: drop)
qed

text \<open>
  A variable starts a new storage unit unless it repeats the compile-time offset of the one
  before it. The units of the reference layout are aligned and do not overlap.
\<close>

fun starts_unit :: "int option \<Rightarrow> ivar_spec list \<Rightarrow> nat \<Rightarrow> bool" where
  "starts_unit prev xs 0 \<longleftrightarrow> prev \<noteq> Some (fst (xs ! 0))"
| "starts_unit prev xs (Suc i) \<longleftrightarrow> fst (xs ! Suc i) \<noteq> fst (xs ! i)"

lemma starts_unit_Cons: "starts_unit prev (x # xs) (Suc i) = starts_unit (Some (fst x)) xs i"
  by (cases i) auto

definition unit_ok :: "int \<Rightarrow> int option \<Rightarrow> int \<Rightarrow> ivar_spec list \<Rightarrow> int list \<Rightarrow> int \<Rightarrow> nat \<Rightarrow> bool" where
  "unit_ok pos first shared xs os e i \<longleftrightarrow>
     (if starts_unit first xs i
      then (os ! i + refcount_size) mod snd (snd (xs ! i)) = 0 \<and> pos \<le> os ! i \<and>
           os ! i + fst (snd (xs ! i)) \<le> e \<and>
           (\<forall>j < length xs. i < j \<and> starts_unit first xs j \<longrightarrow> os ! i + fst (snd (xs ! i)) \<le> os ! j)
      else os ! i = (if i = 0 then shared else os ! (i - 1)))"

lemma unit_ok_Suc:
  "unit_ok pos first shared (x # xs) (p # os) e (Suc i) = unit_ok pos (Some (fst x)) p xs os e i"
proof -
  have "(\<forall>j < length (x # xs). Suc i < j \<and> starts_unit first (x # xs) j \<longrightarrow> P ((p # os) ! j)) =
      (\<forall>j < length xs. i < j \<and> starts_unit (Some (fst x)) xs j \<longrightarrow> P (os ! j))" for P
    by (simp add: All_less_Suc2 starts_unit_Cons del: starts_unit.simps)
  then show ?thesis by (simp add: unit_ok_def starts_unit_Cons nth_Cons' [of p os i] del: starts_unit.simps)
qed

lemma unit_ok_shared: "unit_ok pos None shared xs os e i = unit_ok pos None 0 xs os e i"
  by (cases i) (simp_all add: unit_ok_def)

lemma unit_ok_mono: "unit_ok pos first shared xs os e i \<Longrightarrow> pos' \<le> pos \<Longrightarrow> unit_ok pos' first shared xs os e i"
  by (auto simp: unit_ok_def)

lemma ref_layout_units:
  "specs_ok xs \<Longrightarrow> pos \<le> snd (ref_layout pos prev xs) \<and>
   (\<forall>i < length xs. unit_ok pos (map_option fst prev) (snd (the prev)) xs (fst (ref_layout pos prev xs))
      (snd (ref_layout pos prev xs)) i)"
proof (induction pos prev xs rule: ref_layout.induct)
  case (1 pos prev)
  then show ?case by simp
next
  case (2 pos prev v sz al xs)
  have ok: "specs_ok xs" "0 \<le> sz" "0 < al" using "2.prems" by (auto simp: specs_ok_def)
  show ?case
  proof (cases "prev \<noteq> None \<and> fst (the prev) = v")
    case True
    then obtain o0 where prev: "prev = Some (v, o0)" by (cases prev) auto
    obtain os e where ref: "ref_layout pos prev xs = (os, e)" by force
    have IH: "pos \<le> e" "\<forall>i < length xs. unit_ok pos (Some v) o0 xs os e i"
      using "2.IH"(1) [OF True ok(1)] unfolding ref by (simp_all add: prev)
    then show ?thesis
      unfolding ref_layout.simps if_P [OF True] ref
      by (simp add: All_less_Suc2 unit_ok_Suc prev) (simp add: unit_ok_def)
  next
    case False
    let ?p = "align_up pos al"
    note p = align_up_ok [OF ok(3), of pos]
    obtain os e where ref: "ref_layout (?p + sz) (Some (v, ?p)) xs = (os, e)" by force
    have IH: "?p + sz \<le> e" "\<forall>i < length xs. unit_ok (?p + sz) (Some v) ?p xs os e i"
      using "2.IH"(2) [OF False refl ok(1)] by (simp_all add: ref)
    have "\<forall>i < length xs. unit_ok pos (Some v) ?p xs os e i"
      using IH(2) unit_ok_mono [of "?p + sz" "Some v" ?p xs os e _ pos] p(1) ok(2) by auto
    moreover have "unit_ok pos (map_option fst prev) (snd (the prev)) ((v, sz, al) # xs) (?p # os) e 0"
      using False p IH by (auto simp: unit_ok_def All_less_Suc2 starts_unit_Cons simp del: starts_unit.simps(2))
    ultimately show ?thesis
      unfolding ref_layout.simps if_not_P [OF False] ref Let_def using IH(1) p(1) ok(2)
      by (simp add: All_less_Suc2 unit_ok_Suc)
  qed
qed

lemma specs_ok_of: "specs_ok (map (ivar_spec_of f) ivs)"
proof -
  have "0 < uint (ivarGetAlign iv)" for iv
    using ivarGetAlign_nonzero [of iv] uint_ge_0 [of "ivarGetAlign iv"] by (metis less_le uint_0_iff)
  then show ?thesis by (auto simp: specs_ok_def ivar_spec_of_def)
qed

definition layout_start :: "rt_state \<Rightarrow> objc_class \<Rightarrow> int option" where
  "layout_start st r =
     (case c_super_class r of
        None \<Rightarrow> Some 0
      | Some (SuperClass s) \<Rightarrow>
          (case classes st s of None \<Rightarrow> None
           | Some rs \<Rightarrow> if 0 < c_instance_size rs then Some (c_instance_size rs) else None)
      | Some (SuperName _) \<Rightarrow> None)"

lemma compute_to_layout:
  assumes "classes st c = Some r" "resolved r" "c_ivars r = Some il" "il_size il = sizeof_objc_ivar"
    and "c_instance_size r \<le> 0" "layout_start st r = Some start"
  shows "objc_compute_ivar_offsets (Suc (Suc n)) st c = layout_ivars st c start"
proof -
  have super: "class_getSuperclass (Suc n) st (Some c) = Some (st, c_super_class r)"
    using assms(1,2) by (simp add: getSuperclass_body_def)
  show ?thesis
  proof (cases "c_super_class r")
    case None
    then show ?thesis using assms super by (simp add: compute_body_def layout_start_def)
  next
    case (Some ref)
    then obtain s rs where "ref = SuperClass s" "classes st s = Some rs" "0 < c_instance_size rs" "start = c_instance_size rs"
      using assms(6) by (auto simp: layout_start_def split: super_ref.splits option.splits if_splits)
    then show ?thesis using assms super Some by (simp add: compute_body_def)
  qed
qed

text \<open>
  C25: The instance variable layout. For a resolved class whose superclass has been laid out, with
  well-formed variables that fit into 31 bits, \<open>objc_compute_ivar_offsets\<close> returns, and the
  offsets it stores are these: a variable that starts a storage unit is aligned (with the
  reference count word counted in), lies behind the superclass's part and before the end of
  the instance, and ends before every later unit; a bit-field of the same unit gets the offset
  of the variable before it. No other offset variable and no other class changes.
\<close>

theorem ivar_layout_correct:
  assumes "classes st c = Some r" "resolved r" "c_ivars r = Some il" "il_size il = sizeof_objc_ivar"
    and "c_instance_size r \<le> 0" "layout_start st r = Some start"
    and "il_count il = int (length (il_ivars il))" "distinct (map iv_offset (il_ivars il))"
    and "\<forall>iv \<in> set (il_ivars il). ivar_ok (ints st) iv"
    and "start + spec_total (map (ivar_spec_of (ints st)) (il_ivars il)) < 2 ^ 31"
  shows "\<exists>st' r' os. objc_compute_ivar_offsets (Suc (Suc n)) st c = Some st' \<and> classes st' c = Some r' \<and>
    map (\<lambda>iv. ints st' (the (iv_offset iv))) (il_ivars il) = map Some os \<and>
    start \<le> c_instance_size r' \<and>
    (\<forall>i < length (il_ivars il).
       unit_ok start None 0 (map (ivar_spec_of (ints st)) (il_ivars il)) os (c_instance_size r') i) \<and>
    (\<forall>x. Some x \<notin> iv_offset ` set (il_ivars il) \<longrightarrow> ints st' x = ints st x) \<and>
    (\<forall>d. d \<noteq> c \<longrightarrow> classes st' d = classes st d)"
proof -
  let ?ivs = "il_ivars il"
  define ly where "ly = \<lparr>ly_next_ivar = start, ly_last_offset = LONG_MIN, ly_last_computed_offset = -1,
               ly_instance_size = start, ly_ivars = ?ivs, ly_ints = ints st\<rparr>"
  have start: "0 \<le> start"
    using assms(6) by (auto simp: layout_start_def split: option.splits super_ref.splits if_splits)
  have inv: "layout_inv ?ivs 0 ly" using assms(9,10) start by (simp add: layout_inv_def ly_def)
  obtain os e where ref: "ref_layout start None (map (ivar_spec_of (ints st)) ?ivs) = (os, e)" by force
  obtain ly' where ly': "foldM layout_ivar ly [0..<length ?ivs] = Some ly'" "ly_instance_size ly' = e"
    "map (\<lambda>iv. ly_ints ly' (the (iv_offset iv))) ?ivs = map Some os"
    "\<forall>x. Some x \<notin> iv_offset ` set ?ivs \<longrightarrow> ly_ints ly' x = ints st x"
    using layout_loop [OF inv _ assms(8)] ref by (auto simp: ly_def layout_prev_def)
  define r' where "r' = r\<lparr>c_instance_size := e, c_ivars := Some (il\<lparr>il_ivars := ly_ivars ly'\<rparr>)\<rparr>"
  define st' where "st' = st\<lparr>ints := ly_ints ly', classes := (classes st)(c \<mapsto> r')\<rparr>"
  have "layout_ivars st c start = Some st'"
    using assms(1,3,7) ly'(1,2) by (simp add: layout_ivars_def ly_def upd_class_def st'_def r'_def)
  then have run: "objc_compute_ivar_offsets (Suc (Suc n)) st c = Some st'"
    using compute_to_layout [OF assms(1-6)] by simp
  have "start \<le> e \<and> (\<forall>i < length ?ivs. unit_ok start None 0 (map (ivar_spec_of (ints st)) ?ivs) os e i)"
    using ref_layout_units [OF specs_ok_of [of "ints st" ?ivs], of start None]
    by (simp add: ref unit_ok_shared [of _ "snd (the None)"])
  then show ?thesis
    using run ly' by (intro exI [of _ st'] exI [of _ r'] exI [of _ os]) (auto simp: st'_def r'_def)
qed

text \<open>A char, an int and a second bit-field of the unit of the int.\<close>

definition demo_ivars :: "objc_ivar list" where
  "demo_ivars =
     [\<lparr>iv_name = Some ''c'', iv_type = Some ''c'', iv_offset = Some 0, iv_size = 1, iv_flags = 0\<rparr>,
      \<lparr>iv_name = Some ''i'', iv_type = Some ''b0i4'', iv_offset = Some 1, iv_size = 4, iv_flags = 16\<rparr>,
      \<lparr>iv_name = Some ''j'', iv_type = Some ''b4i4'', iv_offset = Some 2, iv_size = 4, iv_flags = 16\<rparr>]"

definition demo_layout :: rt_state where
  "demo_layout =
     (boot_state (\<lambda>n t. None) (\<lambda>_. 0))
       \<lparr>classes := [0 \<mapsto> (plain_class \<lparr>cs_addr = 16, cs_text = ''A''\<rparr> None None)
            \<lparr>c_info := objc_class_flag_resolved,
             c_ivars := Some \<lparr>il_count = 3, il_size = 32, il_ivars = demo_ivars\<rparr>\<rparr>],
        ints := [0 \<mapsto> 0, 1 \<mapsto> 4, 2 \<mapsto> 4]\<rparr>"

theorem ivar_layout_correct_witness:
  "\<exists>st' os. objc_compute_ivar_offsets 2 demo_layout 0 = Some st' \<and>
     map (\<lambda>iv. ints st' (the (iv_offset iv))) demo_ivars = map Some os \<and>
     (os ! 1 + refcount_size) mod 4 = 0 \<and> os ! 0 + 1 \<le> os ! 1 \<and> os ! 2 = os ! 1"
proof -
  let ?r = "(plain_class \<lparr>cs_addr = 16, cs_text = ''A''\<rparr> None None)
            \<lparr>c_info := objc_class_flag_resolved,
             c_ivars := Some \<lparr>il_count = 3, il_size = 32, il_ivars = demo_ivars\<rparr>\<rparr>"
  have al: "ivarGetAlign (demo_ivars ! 0) = 1" "ivarGetAlign (demo_ivars ! 1) = 4" "ivarGetAlign (demo_ivars ! 2) = 4"
    by (simp_all add: ivarGetAlign_def demo_ivars_def ivar_align_mask_def ivar_align_shift_def)
  have sp: "map (ivar_spec_of (ints demo_layout)) demo_ivars = [(0, 1, 1), (4, 4, 4), (4, 4, 4)]"
    using al by (simp add: ivar_spec_of_def demo_layout_def demo_ivars_def fix_bool_size_def)
  have r: "classes demo_layout 0 = Some ?r" "layout_start demo_layout ?r = Some 0" "resolved ?r"
    "c_ivars ?r = Some \<lparr>il_count = 3, il_size = 32, il_ivars = demo_ivars\<rparr>" "c_instance_size ?r \<le> 0"
    by (simp_all add: demo_layout_def layout_start_def plain_class_def resolved_def objc_test_class_flag_def)
  have ivs: "distinct (map iv_offset demo_ivars)" "length demo_ivars = 3" "\<forall>iv \<in> set demo_ivars. ivar_ok (ints demo_layout) iv"
    by (simp_all add: demo_ivars_def ivar_ok_def demo_layout_def)
  have il: "il_size \<lparr>il_count = 3, il_size = 32, il_ivars = demo_ivars\<rparr> = sizeof_objc_ivar"
    "il_count \<lparr>il_count = 3, il_size = 32, il_ivars = demo_ivars\<rparr> =
       int (length (il_ivars \<lparr>il_count = 3, il_size = 32, il_ivars = demo_ivars\<rparr>))"
    "distinct (map iv_offset (il_ivars \<lparr>il_count = 3, il_size = 32, il_ivars = demo_ivars\<rparr>))"
    "\<forall>iv \<in> set (il_ivars \<lparr>il_count = 3, il_size = 32, il_ivars = demo_ivars\<rparr>). ivar_ok (ints demo_layout) iv"
    "0 + spec_total (map (ivar_spec_of (ints demo_layout)) (il_ivars \<lparr>il_count = 3, il_size = 32, il_ivars = demo_ivars\<rparr>)) < 2 ^ 31"
    using ivs by (simp_all add: sizeof_objc_ivar_def sp spec_total_def)
  obtain st' os and r' :: objc_class where res: "objc_compute_ivar_offsets (Suc (Suc 0)) demo_layout 0 = Some st'"
    "map (\<lambda>iv. ints st' (the (iv_offset iv))) demo_ivars = map Some os"
    "\<forall>i < 3. unit_ok 0 None 0 [(0, 1, 1), (4, 4, 4), (4, 4, 4)] os (c_instance_size r') i"
    using ivar_layout_correct [OF r(1,3,4) il(1) r(5,2) il(2-5), of 0]
    unfolding objc_ivar_list.simps sp ivs(2) by (elim exE conjE) (rule that, assumption+)
  have "unit_ok 0 None 0 [(0, 1, 1), (4, 4, 4), (4, 4, 4)] os (c_instance_size r') 0"
    "unit_ok 0 None 0 [(0, 1, 1), (4, 4, 4), (4, 4, 4)] os (c_instance_size r') 1"
    "unit_ok 0 None 0 [(0, 1, 1), (4, 4, 4), (4, 4, 4)] os (c_instance_size r') 2"
    using res(3) by simp_all
  then have "(os ! 1 + refcount_size) mod 4 = 0 \<and> os ! 0 + 1 \<le> os ! 1 \<and> os ! 2 = os ! 1"
    by (simp add: unit_ok_def numeral_2_eq_2)
  with res(1,2) show ?thesis
    unfolding numeral_2_eq_2 by (elim conjE) (intro exI [of _ st'] exI [of _ os] conjI)
qed

end
