(* ===== verification/Objc_Resolve_Thms.thy ===== *)
theory Objc_Resolve_Thms
  imports Objc_Ivar_Thms
begin

text \<open>
  Class resolution: the list of unresolved classes, the metaclass hierarchy that
  \<open>objc_resolve_class\<close> builds in parallel to the class hierarchy, and termination of
  \<open>objc_resolve_class_links\<close>.
\<close>

unbundle bit_operations_syntax

section \<open>What the layout of instance variables leaves alone\<close>

text \<open>Instance variables for which the layout cannot fail, whatever the sizes are.\<close>

definition ivar_fits :: "(nat \<Rightarrow> int option) \<Rightarrow> objc_ivar \<Rightarrow> bool" where
  "ivar_fits f iv \<longleftrightarrow> ivar_ok f iv \<and> (\<exists>e \<le> 32. uint (ivarGetAlign iv) = 2 ^ e)"

definition ivars_fit :: "rt_state \<Rightarrow> objc_class \<Rightarrow> bool" where
  "ivars_fit st r \<longleftrightarrow>
     (case c_ivars r of None \<Rightarrow> True
      | Some il \<Rightarrow> il_size il = sizeof_objc_ivar \<and> nat (il_count il) \<le> length (il_ivars il) \<and>
          (\<forall>iv \<in> set (il_ivars il). ivar_fits (ints st) iv))"

definition ints_grow :: "(nat \<Rightarrow> int option) \<Rightarrow> (nat \<Rightarrow> int option) \<Rightarrow> bool" where
  "ints_grow f g \<longleftrightarrow> (\<forall>x. f x \<noteq> None \<longrightarrow> g x \<noteq> None)"

lemma ints_grow_refl [simp]: "ints_grow f f" by (simp add: ints_grow_def)

lemma ints_grow_trans: "ints_grow f g \<Longrightarrow> ints_grow g h \<Longrightarrow> ints_grow f h" by (simp add: ints_grow_def)

lemma ints_grow_upd [simp]: "ints_grow f (f(x \<mapsto> v))" by (simp add: ints_grow_def)

lemma ivar_fits_grow: "ivar_fits f iv \<Longrightarrow> ints_grow f g \<Longrightarrow> ivar_fits g iv"
  by (auto simp: ivar_fits_def ivar_ok_def ints_grow_def)

lemma ivar_fits_all_grow:
  "\<forall>iv \<in> S. ivar_fits f iv \<Longrightarrow> ints_grow f g \<Longrightarrow> \<forall>iv \<in> S. ivar_fits g iv"
  using ivar_fits_grow by blast

lemma ivars_fit_grow: "ivars_fit st r \<Longrightarrow> ints_grow (ints st) (ints st') \<Longrightarrow> ivars_fit st' r"
  by (auto simp: ivars_fit_def ivar_fits_grow split: option.splits)

lemma to_int_mod: "e \<le> 32 \<Longrightarrow> to_int x mod 2 ^ e = x mod 2 ^ e"
  unfolding to_int_def take_bit_eq_mod [symmetric] by (simp add: take_bit_signed_take_bit)

lemma place_ivar_total:
  assumes "al = 2 ^ e" "e \<le> 32"
  shows "\<exists>ly'. place_ivar ly off v sz al = Some ly' \<and> ly_ivars ly' = ly_ivars ly \<and>
    ints_grow (ly_ints ly) (ly_ints ly')"
proof -
  have big: "x mod 2 ^ 64 mod al = x mod al" for x :: int
    unfolding assms(1) by (rule mod_mod_cancel) (use assms(2) in \<open>intro le_imp_power_dvd\<close>, simp)
  define o1 where "o1 = to_int (ly_next_ivar ly)"
  define pad where "pad = (if (o1 + refcount_size) mod al \<noteq> 0 then al - (o1 + refcount_size) mod al else 0)"
  have "(o1 + pad + refcount_size) mod al = 0"
  proof (cases "(o1 + refcount_size) mod al = 0")
    case False
    have "(o1 + pad + refcount_size) mod al = ((o1 + refcount_size) - (o1 + refcount_size) mod al + al) mod al"
      using False by (simp add: pad_def algebra_simps)
    also have "\<dots> = 0" by (simp add: minus_mod_eq_mult_div)
    finally show ?thesis .
  qed (simp add: pad_def)
  moreover have "(to_int (o1 + pad) + refcount_size) mod al = (o1 + pad + refcount_size) mod al"
    using to_int_mod [OF assms(2), of "o1 + pad"] unfolding assms(1) by (metis mod_add_left_eq)
  ultimately have "(to_int (o1 + pad) + refcount_size) mod 2 ^ 64 mod al = 0" unfolding big by simp
  then show ?thesis
    unfolding place_ivar_def Let_def big o1_def [symmetric] pad_def [symmetric] by simp
qed

lemma layout_ivar_total:
  assumes "i < length (ly_ivars ly)" "\<forall>iv \<in> set (ly_ivars ly). ivar_fits (ly_ints ly) iv"
  shows "\<exists>ly'. layout_ivar ly i = Some ly' \<and> length (ly_ivars ly') = length (ly_ivars ly) \<and>
    ints_grow (ly_ints ly) (ly_ints ly') \<and> (\<forall>iv \<in> set (ly_ivars ly'). ivar_fits (ly_ints ly') iv)"
proof -
  define iv where "iv = ly_ivars ly ! i"
  have fit: "ivar_fits (ly_ints ly) iv" using assms by (simp add: iv_def)
  then obtain off v e where off: "iv_offset iv = Some off" "ly_ints ly off = Some v" "ivar_ok (ly_ints ly) iv"
    and e: "uint (ivarGetAlign iv) = 2 ^ e" "e \<le> 32" by (auto simp: ivar_fits_def ivar_ok_def)
  obtain iv' where iv': "fix_bool_size iv = Some iv'" "iv_offset iv' = Some off" "ivarGetAlign iv' = ivarGetAlign iv"
    using fix_bool_size_ok [OF off(3)] off(1) by auto
  define ly1 where "ly1 = ly\<lparr>ly_ivars := (ly_ivars ly)[i := iv']\<rparr>"
  have "ivar_fits (ly_ints ly) iv'"
    using fit iv' unfolding ivar_fits_def ivar_ok_def fix_bool_size_def by (auto split: if_splits option.splits)
  then have ok1: "\<forall>iv \<in> set (ly_ivars ly1). ivar_fits (ly_ints ly) iv"
    using assms(2) set_update_subset_insert [of "ly_ivars ly" i iv'] by (auto simp: ly1_def)
  obtain ly2 where ly2: "place_ivar ly1 off v (uint (iv_size iv')) (uint (ivarGetAlign iv')) = Some ly2"
    "ly_ivars ly2 = ly_ivars ly1" "ints_grow (ly_ints ly1) (ly_ints ly2)"
    using place_ivar_total [OF e] unfolding iv'(3) by metis
  have run: "layout_ivar ly i =
      (if i \<noteq> 0 \<and> v = ly_last_offset ly
       then Some (ly1\<lparr>ly_ints := (ly_ints ly)(off \<mapsto> to_int (ly_last_computed_offset ly))\<rparr>) else Some ly2)"
    using assms(1) iv' off(1,2) ly2(1) ivarGetAlign_nonzero
    by (auto simp: layout_ivar_def iv_def [symmetric] ly1_def)
  have len: "length (ly_ivars ly1) = length (ly_ivars ly)" by (simp add: ly1_def)
  show ?thesis
  proof (cases "i \<noteq> 0 \<and> v = ly_last_offset ly")
    case True
    then show ?thesis unfolding run using ivar_fits_all_grow [OF ok1 ints_grow_upd] len by simp
  next
    case False
    have "ints_grow (ly_ints ly) (ly_ints ly2)" using ly2(3) by (simp add: ly1_def)
    with ivar_fits_all_grow [OF ok1 this] show ?thesis unfolding run if_not_P [OF False] using len ly2(2) by simp
  qed
qed

text \<open>States that differ only in offset variables, instance sizes and instance variable lists.\<close>

definition strip :: "objc_class \<Rightarrow> objc_class" where
  "strip r = r\<lparr>c_instance_size := 0, c_ivars := None\<rparr>"

lemma strip_fields [simp]:
  "c_isa (strip r) = c_isa r" "c_super_class (strip r) = c_super_class r" "c_name (strip r) = c_name r"
  "c_info (strip r) = c_info r" "c_methods (strip r) = c_methods r"
  "c_subclass_list (strip r) = c_subclass_list r" "c_sibling_class (strip r) = c_sibling_class r"
  by (simp_all add: strip_def)

lemma resolved_strip [simp]: "resolved (strip r) = resolved r"
  by (simp add: resolved_def objc_test_class_flag_def)

definition same_skel :: "rt_state \<Rightarrow> rt_state \<Rightarrow> bool" where
  "same_skel st st' \<longleftrightarrow> (\<forall>d. map_option strip (classes st' d) = map_option strip (classes st d)) \<and>
     st'\<lparr>classes := \<lambda>_. None, ints := \<lambda>_. None\<rparr> = st\<lparr>classes := \<lambda>_. None, ints := \<lambda>_. None\<rparr> \<and> ints_grow (ints st) (ints st')"

lemma same_skel_refl [simp]: "same_skel st st"
  by (simp add: same_skel_def)

lemma same_skel_trans: "same_skel s t \<Longrightarrow> same_skel t u \<Longrightarrow> same_skel s u"
  using ints_grow_trans [of "ints s" "ints t" "ints u"] by (simp add: same_skel_def)

lemma same_skel_fields:
  assumes "same_skel st st'"
  shows "meths st' = meths st" "unresolved_class_list st' = unresolved_class_list st"
    "rt_protocols st' = rt_protocols st" "class_brk st' = class_brk st"
  using assms unfolding same_skel_def
  by (auto dest: arg_cong [where f = meths] arg_cong [where f = unresolved_class_list]
      arg_cong [where f = rt_protocols] arg_cong [where f = class_brk])

lemma same_skel_Some:
  assumes "same_skel st st'" "classes st d = Some r"
  obtains r' where "classes st' d = Some r'" "strip r' = strip r"
  using assms unfolding same_skel_def by (metis map_option_eq_Some)

lemma layout_ivars_total:
  assumes "classes st c = Some r" "c_ivars r = Some il" "ivars_fit st r"
  shows "\<exists>st' r'. layout_ivars st c start = Some st' \<and> same_skel st st' \<and> classes st' c = Some r' \<and>
    ivars_fit st' r' \<and> (\<forall>d. d \<noteq> c \<longrightarrow> classes st' d = classes st d)"
proof -
  define ly where "ly = \<lparr>ly_next_ivar = start, ly_last_offset = LONG_MIN, ly_last_computed_offset = -1,
               ly_instance_size = start, ly_ivars = il_ivars il, ly_ints = ints st\<rparr>"
  have fit: "nat (il_count il) \<le> length (il_ivars il)" "\<forall>iv \<in> set (il_ivars il). ivar_fits (ints st) iv"
    "il_size il = sizeof_objc_ivar"
    using assms(2,3) by (auto simp: ivars_fit_def)
  have "\<exists>ly'. foldM layout_ivar ly [0..<nat (il_count il)] = Some ly' \<and>
      length (ly_ivars ly') = length (il_ivars il) \<and> ints_grow (ints st) (ly_ints ly') \<and>
      (\<forall>iv \<in> set (ly_ivars ly'). ivar_fits (ly_ints ly') iv)"
  proof (rule foldM_invariant [where P = "\<lambda>l ys. length (ly_ivars l) = length (il_ivars il) \<and>
      ints_grow (ints st) (ly_ints l) \<and> (\<forall>iv \<in> set (ly_ivars l). ivar_fits (ly_ints l) iv)"])
    fix l :: layout_state and i ys zs
    assume ij: "[0..<nat (il_count il)] = ys @ i # zs"
      and inv: "length (ly_ivars l) = length (il_ivars il) \<and> ints_grow (ints st) (ly_ints l) \<and>
        (\<forall>iv \<in> set (ly_ivars l). ivar_fits (ly_ints l) iv)"
    have "i \<in> set [0..<nat (il_count il)]" unfolding ij by simp
    then have "i < length (ly_ivars l)" using fit(1) inv by simp
    from layout_ivar_total [OF this] inv
    show "\<exists>t'. layout_ivar l i = Some t' \<and> length (ly_ivars t') = length (il_ivars il) \<and>
        ints_grow (ints st) (ly_ints t') \<and> (\<forall>iv \<in> set (ly_ivars t'). ivar_fits (ly_ints t') iv)"
      using ints_grow_trans by metis
  qed (use fit in \<open>simp add: ly_def\<close>)
  then obtain ly' where ly': "foldM layout_ivar ly [0..<nat (il_count il)] = Some ly'"
    "length (ly_ivars ly') = length (il_ivars il)" "ints_grow (ints st) (ly_ints ly')"
    "\<forall>iv \<in> set (ly_ivars ly'). ivar_fits (ly_ints ly') iv" by blast
  define r' where "r' = r\<lparr>c_instance_size := ly_instance_size ly', c_ivars := Some (il\<lparr>il_ivars := ly_ivars ly'\<rparr>)\<rparr>"
  define st' where "st' = st\<lparr>ints := ly_ints ly', classes := (classes st)(c \<mapsto> r')\<rparr>"
  have "layout_ivars st c start = Some st'"
    using assms(1,2) ly'(1) by (simp add: layout_ivars_def ly_def upd_class_def st'_def r'_def)
  moreover have "same_skel st st'"
    using assms(1) ly'(3) by (simp add: same_skel_def st'_def r'_def strip_def)
  moreover have "ivars_fit st' r'" using fit ly' by (simp add: ivars_fit_def r'_def st'_def)
  ultimately show ?thesis by (intro exI [of _ st'] exI [of _ r']) (simp add: st'_def)
qed

section \<open>The class hierarchy\<close>

text \<open>
  \<open>K\<close> is the set of loaded classes (without their metaclasses) and \<open>rk\<close> a rank that decreases
  towards the root. Every loaded class has a metaclass of its own, its superclass is loaded,
  its instance variables can be laid out, and a resolved class has a resolved superclass.
\<close>

definition is_resolved :: "rt_state \<Rightarrow> nat \<Rightarrow> bool" where
  "is_resolved st c \<longleftrightarrow> (\<exists>r. classes st c = Some r \<and> resolved r)"

definition loaded_ok :: "nat set \<Rightarrow> (nat \<Rightarrow> nat) \<Rightarrow> rt_state \<Rightarrow> nat \<Rightarrow> objc_class \<Rightarrow> bool" where
  "loaded_ok K rk st c r \<longleftrightarrow>
     (\<exists>m rm. c_isa r = Some m \<and> m \<notin> K \<and> classes st m = Some rm \<and>
        (\<forall>h \<in> set (concat (map ml_items (c_methods rm))). meths st h \<noteq> None)) \<and>
     ivars_fit st r \<and>
     (c_super_class r = None \<or>
      (\<exists>s \<in> K. c_super_class r = Some (SuperClass s) \<and> rk s < rk c \<and> (resolved r \<longrightarrow> is_resolved st s)))"

definition hier :: "nat set \<Rightarrow> (nat \<Rightarrow> nat) \<Rightarrow> rt_state \<Rightarrow> bool" where
  "hier K rk st \<longleftrightarrow> (\<forall>c \<in> K. \<exists>r. classes st c = Some r \<and> loaded_ok K rk st c r) \<and>
     (\<forall>c \<in> K. \<forall>d \<in> K. Option.bind (classes st c) c_isa = Option.bind (classes st d) c_isa \<longrightarrow> c = d)"

lemma is_resolved_skel:
  assumes "same_skel st st'"
  shows "is_resolved st' d = is_resolved st d"
proof -
  have "map_option strip (classes st' d) = map_option strip (classes st d)"
    using assms by (simp add: same_skel_def)
  then show ?thesis
    by (cases "classes st d"; cases "classes st' d") (auto simp: is_resolved_def dest: arg_cong [where f = resolved])
qed

lemma hier_skel:
  assumes "hier K rk st" "same_skel st st'" "\<And>d r. d \<in> K \<Longrightarrow> classes st' d = Some r \<Longrightarrow> ivars_fit st' r"
  shows "hier K rk st'"
proof -
  have isa: "Option.bind (classes st' d) c_isa = Option.bind (classes st d) c_isa" for d
  proof (cases "classes st d")
    case None
    then have "classes st' d = None" using assms(2) unfolding same_skel_def by (metis map_option_is_None)
    with None show ?thesis by simp
  next
    case (Some r)
    then show ?thesis using same_skel_Some [OF assms(2) Some] by (metis bind.bind_lunit strip_fields(1))
  qed
  have "\<exists>r'. classes st' c = Some r' \<and> loaded_ok K rk st' c r'" if c: "c \<in> K" for c
  proof -
    obtain r where r: "classes st c = Some r" "loaded_ok K rk st c r" using assms(1) c by (auto simp: hier_def)
    obtain r' where r': "classes st' c = Some r'" "strip r' = strip r" using same_skel_Some [OF assms(2) r(1)] .
    have eq: "c_isa r' = c_isa r" "c_super_class r' = c_super_class r" "resolved r' = resolved r"
      using r'(2) by (metis strip_fields(1), metis strip_fields(2), metis resolved_strip)
    obtain m rm where m: "c_isa r = Some m" "m \<notin> K" "classes st m = Some rm"
      "\<forall>h \<in> set (concat (map ml_items (c_methods rm))). meths st h \<noteq> None" using r(2) by (auto simp: loaded_ok_def)
    obtain rm' where rm': "classes st' m = Some rm'" "strip rm' = strip rm" using same_skel_Some [OF assms(2) m(3)] .
    have "c_methods rm' = c_methods rm" using rm'(2) by (metis strip_fields(5))
    then show ?thesis
      using r r' eq m rm'(1) assms(3) [OF c r'(1)] is_resolved_skel [OF assms(2)] same_skel_fields(1) [OF assms(2)]
      by (auto simp: loaded_ok_def)
  qed
  then show ?thesis using assms(1) unfolding hier_def isa by blast
qed

lemma hier_fit:
  assumes "hier K rk st" "ints_grow (ints st) (ints st')" "\<And>d. d \<noteq> c \<Longrightarrow> classes st' d = classes st d"
    and "\<And>r. classes st' c = Some r \<Longrightarrow> ivars_fit st' r" "d \<in> K" "classes st' d = Some r"
  shows "ivars_fit st' r"
proof (cases "d = c")
  case False
  then have "classes st d = Some r" using assms(3,6) by simp
  then show ?thesis using assms(1,2,5) ivars_fit_grow by (fastforce simp: hier_def loaded_ok_def)
qed (use assms in blast)

lemma compute_total:
  assumes "hier K rk st" "c \<in> K" "is_resolved st c" "rk c + 2 \<le> fuel"
  shows "\<exists>st'. objc_compute_ivar_offsets fuel st c = Some st' \<and> same_skel st st' \<and> hier K rk st' \<and>
    (\<forall>d. rk c < rk d \<longrightarrow> classes st' d = classes st d)"
  using assms
proof (induction fuel arbitrary: st c)
  case 0
  then show ?case by simp
next
  case (Suc f)
  obtain r where r: "classes st c = Some r" "loaded_ok K rk st c r" "resolved r"
    using Suc.prems(1-3) by (auto simp: hier_def is_resolved_def)
  obtain f' where f: "f = Suc f'" using Suc.prems(4) by (cases f) auto
  have super: "class_getSuperclass f st (Some c) = Some (st, c_super_class r)"
    using r(1,3) by (simp add: f getSuperclass_body_def)
  have superK: "c_super_class r = None \<or> (\<exists>s rs. c_super_class r = Some (SuperClass s) \<and> s \<in> K \<and> s \<noteq> c \<and>
      rk s < rk c \<and> is_resolved st s \<and> classes st s = Some rs)"
    using r(2,3) by (auto simp: loaded_ok_def is_resolved_def)
  have run: "objc_compute_ivar_offsets (Suc f) st c =
      compute_body (\<lambda>s c. class_getSuperclass f s c) (\<lambda>s c. objc_compute_ivar_offsets f s c) st c" by simp
  show ?case
  proof (cases "c_ivars r")
    case None
    show ?thesis
    proof (cases "c_super_class r")
      case none: None
      then have "objc_compute_ivar_offsets (Suc f) st c = Some st"
        unfolding run compute_body_def using r(1) None super by simp
      then show ?thesis using Suc.prems(1) by (intro exI [of _ st]) simp
    next
      case (Some x)
      then obtain s rs where s: "c_super_class r = Some (SuperClass s)" "classes st s = Some rs" using superK by auto
      define st' where "st' = st\<lparr>classes := (classes st)(c \<mapsto> r\<lparr>c_instance_size := c_instance_size rs\<rparr>)\<rparr>"
      have "objc_compute_ivar_offsets (Suc f) st c = Some st'"
        unfolding run compute_body_def using r(1) None super s by (simp add: upd_class_def st'_def)
      moreover have skel: "same_skel st st'" using r(1) by (simp add: same_skel_def st'_def strip_def)
      moreover have "hier K rk st'"
        by (rule hier_skel [OF Suc.prems(1) skel], rule hier_fit [OF Suc.prems(1), of st' c])
          (use None in \<open>auto simp: st'_def ivars_fit_def\<close>)
      moreover have "\<forall>d. rk c < rk d \<longrightarrow> classes st' d = classes st d" by (auto simp: st'_def)
      ultimately show ?thesis by blast
    qed
  next
    case (Some il)
    have size: "il_size il = sizeof_objc_ivar" using r(2) Some by (simp add: loaded_ok_def ivars_fit_def)
    have lay: "\<exists>st'. layout_ivars t c start = Some st' \<and> same_skel st st' \<and> hier K rk st' \<and>
        (\<forall>d. rk c < rk d \<longrightarrow> classes st' d = classes st d)"
      if t: "same_skel st t" "hier K rk t" "\<forall>d. rk c \<le> rk d \<longrightarrow> classes t d = classes st d" for t start
    proof -
      have rt: "classes t c = Some r" "ivars_fit t r"
        using t(2,3) r(1) Suc.prems(2) by (auto simp: hier_def loaded_ok_def)
      obtain st' r' where st': "layout_ivars t c start = Some st'" "same_skel t st'" "classes st' c = Some r'"
        "ivars_fit st' r'" "\<forall>d. d \<noteq> c \<longrightarrow> classes st' d = classes t d"
        using layout_ivars_total [OF rt(1) Some rt(2)] by blast
      have "hier K rk st'"
        by (rule hier_skel [OF t(2) st'(2)], rule hier_fit [OF t(2), of st' c])
          (use st' in \<open>auto simp: same_skel_def\<close>)
      then show ?thesis using st' same_skel_trans [OF t(1) st'(2)] t(3) by (intro exI [of _ st']) auto
    qed
    show ?thesis
    proof (cases "0 < c_instance_size r")
      case True
      then have "objc_compute_ivar_offsets (Suc f) st c = Some st"
        unfolding run compute_body_def using r(1) Some size by simp
      then show ?thesis using Suc.prems(1) by (intro exI [of _ st]) simp
    next
      case False
      show ?thesis
      proof (cases "c_super_class r")
        case None
        then have "objc_compute_ivar_offsets (Suc f) st c = layout_ivars st c 0"
          unfolding run compute_body_def using r(1) Some size False super by simp
        then show ?thesis using lay [of st 0] Suc.prems(1) by simp
      next
        case (Some x)
        then obtain s rs where s: "c_super_class r = Some (SuperClass s)" "s \<in> K" "rk s < rk c" "is_resolved st s"
          "classes st s = Some rs" using superK by auto
        obtain t where t: "(if c_instance_size rs \<le> 0 then objc_compute_ivar_offsets f st s else Some st) = Some t"
          "same_skel st t" "hier K rk t" "\<forall>d. rk s < rk d \<longrightarrow> classes t d = classes st d"
          using Suc.IH [OF Suc.prems(1) s(2,4)] s(3) Suc.prems(1,4) by (cases "c_instance_size rs \<le> 0") auto
        obtain rt where rt: "classes t s = Some rt" using t(3) s(2) by (auto simp: hier_def)
        have "objc_compute_ivar_offsets (Suc f) st c = layout_ivars t c (c_instance_size rt)"
          unfolding run compute_body_def using r(1) \<open>c_ivars r = Some il\<close> size False super s t(1) rt by simp
        then show ?thesis using lay [OF t(2,3)] t(4) s(3) by auto
      qed
    qed
  qed
qed

section \<open>The list of unresolved classes\<close>

text \<open>The previous and the next pointer of a member, which are its sibling and subclass fields.\<close>

definition links :: "rt_state \<Rightarrow> nat \<Rightarrow> (nat option \<times> nat option) option" where
  "links st x = map_option (\<lambda>r. (c_sibling_class r, c_subclass_list r)) (classes st x)"

fun useg :: "(nat \<Rightarrow> (nat option \<times> nat option) option) \<Rightarrow> nat option \<Rightarrow> nat list \<Rightarrow> nat option \<Rightarrow> bool" where
  "useg L p [] n \<longleftrightarrow> True"
| "useg L p (x # xs) n \<longleftrightarrow> L x = Some (p, if xs = [] then n else Some (hd xs)) \<and> useg L (Some x) xs n"

definition ulist :: "rt_state \<Rightarrow> nat list \<Rightarrow> bool" where
  "ulist st xs \<longleftrightarrow> distinct xs \<and> useg (links st) None xs None \<and>
     unresolved_class_list st = (if xs = [] then None else Some (hd xs))"

lemma useg_append:
  "useg L p (ys @ zs) n \<longleftrightarrow> useg L p ys (if zs = [] then n else Some (hd zs)) \<and>
     useg L (if ys = [] then p else Some (last ys)) zs n"
  by (induction ys arbitrary: p) auto

lemma useg_cong: "(\<And>x. x \<in> set xs \<Longrightarrow> L' x = L x) \<Longrightarrow> useg L' p xs n = useg L p xs n"
  by (induction xs arbitrary: p) auto

lemma useg_links: "useg L p xs n \<Longrightarrow> x \<in> set xs \<Longrightarrow> L x \<noteq> None"
  by (induction xs arbitrary: p) auto

lemma useg_set_next:
  assumes "useg L p (ys @ [y]) n" "y \<notin> set ys" "L' y = Some (fst (the (L y)), n')"
    and "\<And>x. x \<in> set ys \<Longrightarrow> L' x = L x"
  shows "useg L' p (ys @ [y]) n'"
  using assms useg_cong [of ys L' L] by (simp add: useg_append)

lemma useg_set_prev:
  assumes "useg L p (z # zs) n" "z \<notin> set zs" "L' z = Some (p', snd (the (L z)))"
    and "\<And>x. x \<in> set zs \<Longrightarrow> L' x = L x"
  shows "useg L' p' (z # zs) n"
  using assms useg_cong [of zs L' L] by simp

definition unlinked :: "objc_class \<Rightarrow> objc_class" where
  "unlinked r = r\<lparr>c_sibling_class := None, c_subclass_list := None\<rparr>"

lemma links_upd:
  assumes "upd_class c f st = Some st'" "classes st c = Some r"
  shows "links st' = (links st)(c := Some (c_sibling_class (f r), c_subclass_list (f r)))"
    and "classes st' = (classes st)(c \<mapsto> f r)" "unresolved_class_list st' = unresolved_class_list st"
  using assms by (auto simp: upd_class_def links_def)

text \<open>Removing a class from the list, as a rewriting of the links.\<close>

lemma unlink_links:
  assumes "useg (links st) None (ys @ x # zs) None" "distinct (ys @ x # zs)"
    and "unresolved_class_list st = Some (hd (ys @ x # zs))"
  shows "\<exists>st'. unlink_unresolved st x = Some st' \<and> ulist st' (ys @ zs) \<and> links st' x = Some (None, None) \<and>
    (\<forall>d. map_option unlinked (classes st' d) = map_option unlinked (classes st d)) \<and>
    (\<forall>d. d \<notin> set (ys @ x # zs) \<longrightarrow> classes st' d = classes st d) \<and>
    st'\<lparr>classes := \<lambda>_. None, unresolved_class_list := None\<rparr> = st\<lparr>classes := \<lambda>_. None, unresolved_class_list := None\<rparr>"
proof -
  define p where "p = (if ys = [] then None else Some (last ys))"
  define n where "n = (if zs = [] then None else Some (hd zs))"
  have seg: "useg (links st) None ys (Some x)" "links st x = Some (p, n)" "useg (links st) (Some x) zs None"
    using assms(1) by (simp_all add: useg_append p_def n_def)
  obtain r where r: "classes st x = Some r" "c_sibling_class r = p" "c_subclass_list r = n"
    using seg(2) by (auto simp: links_def)
  define s1 where "s1 = (case p of None \<Rightarrow> st\<lparr>unresolved_class_list := n\<rparr>
     | Some y \<Rightarrow> st\<lparr>classes := (classes st)(y := map_option (\<lambda>x. x\<lparr>c_subclass_list := n\<rparr>) (classes st y))\<rparr>)"
  define s2 where "s2 = (case n of None \<Rightarrow> s1
     | Some z \<Rightarrow> s1\<lparr>classes := (classes s1)(z := map_option (\<lambda>x. x\<lparr>c_sibling_class := p\<rparr>) (classes s1 z))\<rparr>)"
  define s3 where "s3 = s2\<lparr>classes := (classes s2)(x := map_option (\<lambda>x. x\<lparr>c_sibling_class := None, c_subclass_list := None\<rparr>) (classes s2 x))\<rparr>"
  have inp: "y \<in> set ys \<and> classes st y \<noteq> None \<and> y \<noteq> x" if "p = Some y" for y
  proof -
    have "y \<in> set ys" using that by (auto simp: p_def split: if_splits)
    then show ?thesis using useg_links [OF seg(1), of y] assms(2) by (auto simp: links_def)
  qed
  have inn: "z \<in> set zs \<and> classes st z \<noteq> None \<and> z \<noteq> x" if "n = Some z" for z
  proof -
    have "z \<in> set zs" using that by (auto simp: n_def split: if_splits)
    then show ?thesis using useg_links [OF seg(3), of z] assms(2) by (auto simp: links_def)
  qed
  have pn: "y \<noteq> z" if "p = Some y" "n = Some z" for y z
    using inp [OF that(1)] inn [OF that(2)] assms(2) by auto
  have run: "unlink_unresolved st x = Some s3"
    using r inp inn pn
    by (cases p; cases n) (auto simp: unlink_unresolved_def upd_class_def s1_def s2_def s3_def)
  have links3: "links s3 d = (if d = x then Some (None, None) else if n = Some d then Some (p, snd (the (links st d)))
      else if p = Some d then Some (fst (the (links st d)), n) else links st d)" for d
    using inp [of d] inn [of d] r(1) pn
    by (cases p; cases n) (auto simp: links_def s1_def s2_def s3_def)
  have left: "useg (links s3) None ys n"
  proof (cases ys rule: rev_cases)
    case (snoc ys' y)
    then have y: "p = Some y" "y \<notin> set ys'" using assms(2) by (auto simp: p_def)
    show ?thesis
      unfolding snoc
    proof (rule useg_set_next)
      show "useg (links st) None (ys' @ [y]) (Some x)" using seg(1) snoc by simp
      show "links s3 y = Some (fst (the (links st y)), n)" using y inp [OF y(1)] pn [OF y(1)] by (auto simp: links3)
      show "links s3 d = links st d" if "d \<in> set ys'" for d
        using that y snoc assms(2) inn [of d] by (auto simp: links3)
    qed (rule y(2))
  qed simp
  have right: "useg (links s3) p zs None"
  proof (cases zs)
    case (Cons z zs')
    then have z: "n = Some z" "z \<notin> set zs'" using assms(2) by (auto simp: n_def)
    show ?thesis
      unfolding Cons
    proof (rule useg_set_prev)
      show "useg (links st) (Some x) (z # zs') None" using seg(3) Cons by simp
      show "links s3 z = Some (p, snd (the (links st z)))" using z inn [OF z(1)] by (auto simp: links3)
      show "links s3 d = links st d" if "d \<in> set zs'" for d
        using that z Cons assms(2) inp [of d] by (auto simp: links3)
    qed (rule z(2))
  qed simp
  have "ulist s3 (ys @ zs)"
  proof -
    have "unresolved_class_list s3 = (if ys @ zs = [] then None else Some (hd (ys @ zs)))"
      using assms(3) inp by (cases ys; cases zs) (auto simp: s3_def s2_def s1_def n_def p_def split: option.splits)
    then show ?thesis using left right assms(2) by (auto simp: ulist_def useg_append p_def n_def)
  qed
  moreover have "links s3 x = Some (None, None)" by (simp add: links3)
  moreover have "map_option unlinked (classes s3 d) = map_option unlinked (classes st d)" for d
    by (cases p; cases n) (auto simp: s1_def s2_def s3_def unlinked_def [abs_def] option.map_comp comp_def)
  moreover have "classes s3 d = classes st d" if "d \<notin> set (ys @ x # zs)" for d
    using that inp [of d] inn [of d] by (cases p; cases n) (auto simp: s1_def s2_def s3_def)
  moreover have "s3\<lparr>classes := \<lambda>_. None, unresolved_class_list := None\<rparr> = st\<lparr>classes := \<lambda>_. None, unresolved_class_list := None\<rparr>"
    by (cases p; cases n) (simp_all add: s1_def s2_def s3_def)
  ultimately show ?thesis using run by blast
qed

section \<open>Resolution\<close>

text \<open>
  The metaclass of a resolved class: its superclass is the metaclass of the superclass, or the
  class itself for a root, and its class is the metaclass of the root.
\<close>

definition meta_ok :: "rt_state \<Rightarrow> nat \<Rightarrow> bool" where
  "meta_ok st c \<longleftrightarrow> (\<exists>r m rm n. classes st c = Some r \<and> c_isa r = Some m \<and> classes st m = Some rm \<and>
     c_super_class rm = map_option SuperClass
       (case c_super_class r of Some (SuperClass s) \<Rightarrow> Option.bind (classes st s) c_isa | _ \<Rightarrow> Some c) \<and>
     root_isa n st c = Some (c_isa rm))"

text \<open>The invariant: \<open>xs\<close> is the list of unresolved classes.\<close>

definition world :: "nat set \<Rightarrow> (nat \<Rightarrow> nat) \<Rightarrow> nat list \<Rightarrow> rt_state \<Rightarrow> bool" where
  "world K rk xs st \<longleftrightarrow> hier K rk st \<and> ulist st xs \<and> set xs = {c \<in> K. \<not> is_resolved st c} \<and>
     (\<forall>c \<in> K. is_resolved st c \<longrightarrow> meta_ok st c)"

text \<open>The fields of loaded classes that resolution never changes.\<close>

definition same_tree :: "nat set \<Rightarrow> rt_state \<Rightarrow> rt_state \<Rightarrow> bool" where
  "same_tree K st st' \<longleftrightarrow> (\<forall>c \<in> K. map_option (\<lambda>r. (c_isa r, c_super_class r)) (classes st' c) =
     map_option (\<lambda>r. (c_isa r, c_super_class r)) (classes st c))"

lemma same_tree_Some:
  assumes "same_tree K st st'" "c \<in> K" "classes st c = Some r"
  obtains r' where "classes st' c = Some r'" "c_isa r' = c_isa r" "c_super_class r' = c_super_class r"
  using assms unfolding same_tree_def by (cases "classes st' c") auto

lemma root_isa_tree:
  assumes "hier K rk st" "same_tree K st st'" "c \<in> K"
  shows "root_isa n st' c = root_isa n st c"
  using assms(3)
proof (induction n arbitrary: c)
  case (Suc n)
  obtain r where r: "classes st c = Some r" "loaded_ok K rk st c r" using assms(1) Suc.prems by (auto simp: hier_def)
  obtain r' where r': "classes st' c = Some r'" "c_isa r' = c_isa r" "c_super_class r' = c_super_class r"
    using same_tree_Some [OF assms(2) Suc.prems r(1)] .
  show ?case using r r' Suc.IH by (auto simp: loaded_ok_def)
qed simp

lemma root_isa_total:
  assumes "hier K rk st" "c \<in> K" "rk c < n"
  shows "\<exists>m. root_isa n st c = Some (Some m)"
  using assms(2,3)
proof (induction n arbitrary: c)
  case (Suc n)
  obtain r where "classes st c = Some r" "loaded_ok K rk st c r" using assms(1) Suc.prems(1) by (auto simp: hier_def)
  then show ?case using Suc by (auto simp: loaded_ok_def)
qed simp

lemma root_isa_Suc:
  assumes "classes st c = Some r" "c_super_class r = Some (SuperClass s)"
  shows "root_isa (Suc n) st c = root_isa n st s"
  using assms by simp

lemma announce_total:
  assumes "hier K rk st" "c \<in> K"
  shows "\<exists>st'. announce_class st c = Some st' \<and>
    st'\<lparr>load_table := [], load_calls := [], load_callbacks := []\<rparr> =
    st\<lparr>load_table := [], load_calls := [], load_callbacks := []\<rparr>"
proof -
  obtain r m rm where r: "classes st c = Some r" "c_isa r = Some m" "classes st m = Some rm"
    "\<forall>h \<in> set (concat (map ml_items (c_methods rm))). meths st h \<noteq> None"
    using assms by (fastforce simp: hier_def loaded_ok_def)
  let ?same = "\<lambda>t :: rt_state. t\<lparr>load_table := [], load_calls := [], load_callbacks := []\<rparr> =
    st\<lparr>load_table := [], load_calls := [], load_callbacks := []\<rparr>"
  have "\<exists>t. foldM (send_load c) st (concat (map ml_items (c_methods rm))) = Some t \<and> ?same t"
  proof (rule foldM_invariant)
    fix t :: rt_state and h ys zs
    assume h: "concat (map ml_items (c_methods rm)) = ys @ h # zs" and t: "?same t"
    have "h \<in> set (concat (map ml_items (c_methods rm)))" unfolding h by simp
    moreover have "meths t = meths st" using arg_cong [OF t, of meths] by simp
    ultimately obtain x where "meths t h = Some x" using r(4) by fastforce
    then show "\<exists>t'. send_load c t h = Some t' \<and> ?same t'" using t by (simp add: send_load_def)
  qed simp
  then obtain t where t: "objc_send_load_message st c = Some t" "?same t"
    using r by (auto simp: objc_send_load_message_def deref_class_def)
  show ?thesis
    using r(1) t by (cases "objc_test_class_flag r objc_class_flag_user_created") (simp_all add: announce_class_def)
qed

text \<open>Transfer of the invariant between states.\<close>

lemma map_option_via:
  assumes "map_option g a = map_option g b" "\<And>r. f (g r) = f r"
  shows "map_option f a = map_option f b"
  using assms(1) by (cases a; cases b) (auto dest: arg_cong [where f = f] simp: assms(2))

lemma hier_loaded: "hier K rk st \<Longrightarrow> c \<in> K \<Longrightarrow> classes st c = Some r \<Longrightarrow> loaded_ok K rk st c r"
  by (auto simp: hier_def)

lemma hier_inj:
  assumes "hier K rk st" "c \<in> K" "d \<in> K" "classes st c = Some r" "classes st d = Some q" "c_isa r = c_isa q"
  shows "c = d"
  using assms unfolding hier_def by (metis bind.bind_lunit)

lemma hier_frame:
  assumes "hier K rk st" "same_tree K st st'" "ints st' = ints st" "meths st' = meths st"
    and "\<And>d. map_option (\<lambda>r. (c_methods r, c_ivars r)) (classes st' d) = map_option (\<lambda>r. (c_methods r, c_ivars r)) (classes st d)"
    and "\<And>d. d \<in> K \<Longrightarrow> is_resolved st d \<Longrightarrow> is_resolved st' d"
    and "\<And>d r s. d \<in> K \<Longrightarrow> \<not> is_resolved st d \<Longrightarrow> is_resolved st' d \<Longrightarrow> classes st d = Some r \<Longrightarrow>
      c_super_class r = Some (SuperClass s) \<Longrightarrow> is_resolved st' s"
  shows "hier K rk st'"
proof -
  have "\<exists>r'. classes st' d = Some r' \<and> loaded_ok K rk st' d r'" if d: "d \<in> K" for d
  proof -
    obtain r where r: "classes st d = Some r" "loaded_ok K rk st d r" using assms(1) d by (auto simp: hier_def)
    obtain r' where r': "classes st' d = Some r'" "c_isa r' = c_isa r" "c_super_class r' = c_super_class r"
      using same_tree_Some [OF assms(2) d r(1)] .
    obtain m rm where m: "c_isa r = Some m" "m \<notin> K" "classes st m = Some rm"
      "\<forall>h \<in> set (concat (map ml_items (c_methods rm))). meths st h \<noteq> None" using r(2) by (auto simp: loaded_ok_def)
    obtain rm' where rm': "classes st' m = Some rm'" "c_methods rm' = c_methods rm"
      using assms(5) [of m] m(3) by (cases "classes st' m") auto
    have "ivars_fit st' r'"
      using r r'(1) assms(3) assms(5) [of d] by (simp add: loaded_ok_def ivars_fit_def split: option.splits)
    moreover have "is_resolved st' s" if "resolved r'" "c_super_class r = Some (SuperClass s)" for s
    proof (cases "is_resolved st d")
      case True
      then have "is_resolved st s" "s \<in> K" using r that(2) by (auto simp: is_resolved_def loaded_ok_def)
      then show ?thesis by (simp add: assms(6))
    next
      case False
      have "is_resolved st' d" using r'(1) that(1) by (simp add: is_resolved_def)
      then show ?thesis using assms(7) [OF d False _ r(1) that(2)] by simp
    qed
    ultimately show ?thesis using r r' m rm' assms(4) by (auto simp: loaded_ok_def)
  qed
  moreover have "Option.bind (classes st' d) c_isa = Option.bind (classes st d) c_isa" if "d \<in> K" for d
    using assms(2) that by (cases "classes st d"; cases "classes st' d") (auto simp: same_tree_def)
  ultimately show ?thesis using assms(1) by (simp add: hier_def)
qed

lemma meta_ok_frame:
  assumes "hier K rk st" "same_tree K st st'" "d \<in> K" "meta_ok st d"
    and "\<And>r m. classes st d = Some r \<Longrightarrow> c_isa r = Some m \<Longrightarrow>
      map_option (\<lambda>r. (c_isa r, c_super_class r)) (classes st' m) = map_option (\<lambda>r. (c_isa r, c_super_class r)) (classes st m)"
  shows "meta_ok st' d"
proof -
  obtain r m rm n where r: "classes st d = Some r" "c_isa r = Some m" "classes st m = Some rm"
    "c_super_class rm = map_option SuperClass
       (case c_super_class r of Some (SuperClass s) \<Rightarrow> Option.bind (classes st s) c_isa | _ \<Rightarrow> Some d)"
    "root_isa n st d = Some (c_isa rm)" using assms(4) by (auto simp: meta_ok_def)
  obtain r' where r': "classes st' d = Some r'" "c_isa r' = c_isa r" "c_super_class r' = c_super_class r"
    using same_tree_Some [OF assms(2,3) r(1)] .
  obtain rm' where rm': "classes st' m = Some rm'" "c_isa rm' = c_isa rm" "c_super_class rm' = c_super_class rm"
    using assms(5) [OF r(1,2)] r(3) by (cases "classes st' m") auto
  have "Option.bind (classes st' s) c_isa = Option.bind (classes st s) c_isa" if "c_super_class r = Some (SuperClass s)" for s
  proof -
    have "s \<in> K" using assms(1,3) r(1) that by (fastforce simp: hier_def loaded_ok_def)
    then show ?thesis using assms(2) by (cases "classes st s"; cases "classes st' s") (auto simp: same_tree_def)
  qed
  then have "c_super_class rm' = map_option SuperClass
       (case c_super_class r' of Some (SuperClass s) \<Rightarrow> Option.bind (classes st' s) c_isa | _ \<Rightarrow> Some d)"
    using r(4) r'(3) rm'(3) by (auto split: option.splits super_ref.splits)
  then show ?thesis
    using r r' rm' root_isa_tree [OF assms(1,2,3), of n] unfolding meta_ok_def by metis
qed

lemma world_skel:
  assumes "world K rk xs st" "hier K rk st'"
    and "\<And>d. map_option strip (classes st' d) = map_option strip (classes st d)"
    and "unresolved_class_list st' = unresolved_class_list st"
  shows "world K rk xs st' \<and> same_tree K st st' \<and> (\<forall>d. is_resolved st' d = is_resolved st d)"
proof -
  have fields: "map_option f (classes st' d) = map_option f (classes st d)" if "\<And>r. f (strip r) = f r" for f :: "objc_class \<Rightarrow> 'z" and d
    by (rule map_option_via [OF assms(3)]) (rule that)
  have tree: "same_tree K st st'" by (simp add: same_tree_def fields)
  have lk: "links st' = links st" by (rule ext) (simp add: links_def fields)
  have res: "is_resolved st' d = is_resolved st d" for d
  proof -
    have "map_option resolved (classes st' d) = map_option resolved (classes st d)" by (rule fields) simp
    then show ?thesis by (cases "classes st d"; cases "classes st' d") (auto simp: is_resolved_def)
  qed
  have "meta_ok st' d" if "d \<in> K" "is_resolved st' d" for d
    using assms(1) that res by (intro meta_ok_frame [OF _ tree]) (auto simp: world_def fields)
  then show ?thesis using assms tree res lk by (simp add: world_def ulist_def)
qed

text \<open>The links that one resolution writes.\<close>

definition flag_resolved :: "objc_class \<Rightarrow> objc_class" where
  "flag_resolved r = objc_set_class_flag r objc_class_flag_resolved"

lemma resolved_flag [simp]: "resolved (flag_resolved r)"
  by (simp add: resolved_def flag_resolved_def objc_test_class_flag_def objc_set_class_flag_def bit_eq_iff)

lemma flag_resolved_fields [simp]:
  "c_isa (flag_resolved r) = c_isa r" "c_super_class (flag_resolved r) = c_super_class r"
  "c_methods (flag_resolved r) = c_methods r" "c_ivars (flag_resolved r) = c_ivars r"
  "c_subclass_list (flag_resolved r) = c_subclass_list r" "c_sibling_class (flag_resolved r) = c_sibling_class r"
  by (simp_all add: flag_resolved_def objc_set_class_flag_def)

lemma link_class_nonroot:
  assumes "classes st c = Some r" "c_isa r = Some m" "c_super_class r = Some (SuperClass s)"
    and "classes st s = Some rs" "classes st m = Some rm" "classes st sm = Some rsm" "distinct [c, m, s, sm]"
  shows "link_class st c (Some sm) mm = Some (st\<lparr>classes := (classes st)
    (m \<mapsto> flag_resolved (rm\<lparr>c_super_class := Some (SuperClass sm), c_isa := mm, c_sibling_class := c_subclass_list rsm\<rparr>),
     s \<mapsto> rs\<lparr>c_subclass_list := Some c\<rparr>, c \<mapsto> flag_resolved (r\<lparr>c_sibling_class := c_subclass_list rs\<rparr>),
     sm \<mapsto> rsm\<lparr>c_subclass_list := Some m\<rparr>)\<rparr>)"
  using assms
  by (simp add: link_class_def upd_class_def upd_class_opt_def deref_class_def flag_resolved_def objc_set_class_flag_def)
    (auto simp: fun_upd_def fun_eq_iff intro!: arg_cong [where f = "\<lambda>f. st\<lparr>classes := f\<rparr>"])

lemma link_class_root:
  assumes "classes st c = Some r" "c_isa r = Some m" "c_super_class r = None" "classes st m = Some rm" "c \<noteq> m"
  shows "link_class st c (Some c) mm = Some (st\<lparr>classes := (classes st)
    (m \<mapsto> flag_resolved (rm\<lparr>c_super_class := Some (SuperClass c), c_isa := mm, c_sibling_class := c_subclass_list r\<rparr>),
     c \<mapsto> flag_resolved (r\<lparr>c_subclass_list := Some m\<rparr>))\<rparr>)"
  using assms
  by (simp add: link_class_def upd_class_def upd_class_opt_def deref_class_def flag_resolved_def objc_set_class_flag_def)
    (auto simp: fun_upd_def fun_eq_iff intro!: arg_cong [where f = "\<lambda>f. st\<lparr>classes := f\<rparr>"])

lemma link_world:
  assumes W: "world K rk (ys @ c # zs) st" "c \<in> K" "classes st c = Some r" "c_isa r = Some m"
    and S: "\<And>s. c_super_class r = Some (SuperClass s) \<Longrightarrow> is_resolved st s"
    and U: "ulist s2 (ys @ zs)" "\<And>d. map_option unlinked (classes s2 d) = map_option unlinked (classes st d)"
      "ints s2 = ints st" "meths s2 = meths st"
    and C: "\<And>d. d \<noteq> m \<Longrightarrow> map_option (\<lambda>r. (c_isa r, c_super_class r)) (C d) = map_option (\<lambda>r. (c_isa r, c_super_class r)) (classes s2 d)"
      "\<And>d. map_option (\<lambda>r. (c_methods r, c_ivars r)) (C d) = map_option (\<lambda>r. (c_methods r, c_ivars r)) (classes s2 d)"
      "\<And>d. d \<noteq> m \<Longrightarrow> d \<noteq> c \<Longrightarrow> map_option resolved (C d) = map_option resolved (classes s2 d)"
      "map_option resolved (C c) = Some True" "\<And>d. d \<in> set (ys @ zs) \<Longrightarrow> C d = classes s2 d"
    and M: "C m = Some rm'" "root_isa n st c = Some (c_isa rm')"
      "c_super_class rm' = map_option SuperClass
         (case c_super_class r of Some (SuperClass s) \<Rightarrow> Option.bind (classes st s) c_isa | _ \<Rightarrow> Some c)"
  shows "world K rk (ys @ zs) (s2\<lparr>classes := C\<rparr>) \<and> same_tree K st (s2\<lparr>classes := C\<rparr>) \<and>
    (\<forall>d \<in> K. is_resolved (s2\<lparr>classes := C\<rparr>) d = (is_resolved st d \<or> d = c))"
proof -
  let ?s4 = "s2\<lparr>classes := C\<rparr>"
  have H: "hier K rk st" and xs: "set (ys @ c # zs) = {d \<in> K. \<not> is_resolved st d}" "distinct (ys @ c # zs)"
    and meta: "\<And>d. d \<in> K \<Longrightarrow> is_resolved st d \<Longrightarrow> meta_ok st d"
    using W(1) by (auto simp: world_def ulist_def)
  have m: "m \<notin> K" using H W(2-4) by (fastforce simp: hier_def loaded_ok_def)
  have fields: "map_option f (classes s2 d) = map_option f (classes st d)" if "\<And>r. f (unlinked r) = f r"
    for f :: "objc_class \<Rightarrow> 'z" and d
    by (rule map_option_via [OF U(2)]) (rule that)
  have un: "(c_isa (unlinked x), c_super_class (unlinked x)) = (c_isa x, c_super_class x)"
    "(c_methods (unlinked x), c_ivars (unlinked x)) = (c_methods x, c_ivars x)" "resolved (unlinked x) = resolved x" for x
    by (simp_all add: unlinked_def resolved_def objc_test_class_flag_def)
  have tree_d: "map_option (\<lambda>r. (c_isa r, c_super_class r)) (C d) = map_option (\<lambda>r. (c_isa r, c_super_class r)) (classes st d)"
    if "d \<noteq> m" for d using C(1) [OF that] fields [of "\<lambda>r. (c_isa r, c_super_class r)", OF un(1)] by simp
  have tree: "same_tree K st ?s4"
    unfolding same_tree_def
  proof
    fix d assume "d \<in> K"
    then have "d \<noteq> m" using m by blast
    from tree_d [OF this] show "map_option (\<lambda>r. (c_isa r, c_super_class r)) (classes ?s4 d) =
        map_option (\<lambda>r. (c_isa r, c_super_class r)) (classes st d)" by simp
  qed
  have data: "map_option (\<lambda>r. (c_methods r, c_ivars r)) (C d) = map_option (\<lambda>r. (c_methods r, c_ivars r)) (classes st d)" for d
    using C(2) fields [of "\<lambda>r. (c_methods r, c_ivars r)", OF un(2)] by simp
  have res: "is_resolved ?s4 d = (is_resolved st d \<or> d = c)" if "d \<in> K" for d
  proof (cases "d = c")
    case True
    then show ?thesis using C(4) by (auto simp: is_resolved_def)
  next
    case False
    then have "map_option resolved (C d) = map_option resolved (classes st d)"
      using C(3) [of d] fields [of resolved, OF un(3)] that m by metis
    then show ?thesis using False by (cases "C d"; cases "classes st d") (auto simp: is_resolved_def)
  qed
  have superK: "s \<in> K" if "c_super_class r = Some (SuperClass s)" for s
    using H W(2,3) that by (fastforce simp: hier_def loaded_ok_def)
  have H4: "hier K rk ?s4"
  proof (rule hier_frame [OF H tree])
    show "is_resolved ?s4 x" if "d \<in> K" "\<not> is_resolved st d" "is_resolved ?s4 d" "classes st d = Some q"
      "c_super_class q = Some (SuperClass x)" for d q x
    proof -
      have "d = c" using res that(1-3) by simp
      then have "c_super_class r = Some (SuperClass x)" using that(4,5) W(3) by simp
      then show ?thesis using S superK res by simp
    qed
  qed (use U data res in simp_all)
  have "meta_ok ?s4 d" if "d \<in> K" "is_resolved ?s4 d" for d
  proof (cases "d = c")
    case True
    obtain r' where r': "classes ?s4 c = Some r'" "c_isa r' = c_isa r" "c_super_class r' = c_super_class r"
      using same_tree_Some [OF tree W(2,3)] .
    have "Option.bind (C x) c_isa = Option.bind (classes st x) c_isa" if "c_super_class r = Some (SuperClass x)" for x
      using tree_d [of x] superK [OF that] m by (cases "C x"; cases "classes st x") auto
    then have "c_super_class rm' = map_option SuperClass
       (case c_super_class r' of Some (SuperClass s) \<Rightarrow> Option.bind (classes ?s4 s) c_isa | _ \<Rightarrow> Some c)"
      using M(3) r'(3) by (auto split: option.splits super_ref.splits)
    then show ?thesis
      using True r' W(4) M(1,2) root_isa_tree [OF H tree W(2), of n] unfolding meta_ok_def by auto
  next
    case False
    then have "is_resolved st d" using res that by simp
    moreover have "x \<noteq> m" if "classes st d = Some q" "c_isa q = Some x" for q x
      using H False W(2-4) \<open>d \<in> K\<close> that unfolding hier_def by (metis bind.bind_lunit)
    ultimately show ?thesis
      using meta that(1) tree_d by (intro meta_ok_frame [OF H tree that(1)]) auto
  qed
  moreover have "ulist ?s4 (ys @ zs)"
  proof -
    have "useg (links ?s4) None (ys @ zs) None = useg (links s2) None (ys @ zs) None"
      using C(5) by (intro useg_cong) (simp add: links_def)
    then show ?thesis using U(1) by (simp add: ulist_def)
  qed
  moreover have "set (ys @ zs) = {d \<in> K. \<not> is_resolved ?s4 d}"
    using xs res by auto
  ultimately show ?thesis using H4 tree res by (simp add: world_def)
qed

lemma unlinked_eq: "unlinked x = unlinked y \<Longrightarrow> c_sibling_class x = None \<Longrightarrow> c_subclass_list x = None \<Longrightarrow> x = unlinked y"
  for x y :: objc_class
  by (cases x; cases y) (simp add: unlinked_def)

lemma resolve_step:
  assumes W: "world K rk xs st" "c \<in> K" "classes st c = Some r" "\<not> resolved r"
    and S: "\<And>s. c_super_class r = Some (SuperClass s) \<Longrightarrow> is_resolved st s" and depth: "rk c \<le> depth"
  shows "\<exists>s2 sm mm s4 xs'. unlink_unresolved st c = Some s2 \<and> meta_links resolve depth s2 c = Some (s2, sm, mm) \<and>
    link_class s2 c sm mm = Some s4 \<and> world K rk xs' s4 \<and> same_tree K st s4 \<and>
    (\<forall>d \<in> K. is_resolved s4 d = (is_resolved st d \<or> d = c))"
proof -
  have H: "hier K rk st" and xs: "set xs = {d \<in> K. \<not> is_resolved st d}" and ul: "ulist st xs"
    using W(1) by (auto simp: world_def)
  have "c \<in> set xs" using xs W(2-4) by (auto simp: is_resolved_def)
  then obtain ys zs where split: "xs = ys @ c # zs" by (meson split_list)
  obtain m rm where m: "c_isa r = Some m" "m \<notin> K" "classes st m = Some rm"
    using H W(2,3) by (fastforce simp: hier_def loaded_ok_def)
  have "useg (links st) None (ys @ c # zs) None" "distinct (ys @ c # zs)"
    "unresolved_class_list st = Some (hd (ys @ c # zs))" using ul split by (auto simp: ulist_def)
  from unlink_links [OF this] obtain s2 where s2: "unlink_unresolved st c = Some s2" "ulist s2 (ys @ zs)"
    "links s2 c = Some (None, None)" "\<And>d. map_option unlinked (classes s2 d) = map_option unlinked (classes st d)"
    "\<And>d. d \<notin> set xs \<Longrightarrow> classes s2 d = classes st d"
    "s2\<lparr>classes := \<lambda>_. None, unresolved_class_list := None\<rparr> = st\<lparr>classes := \<lambda>_. None, unresolved_class_list := None\<rparr>"
    unfolding split by blast
  have same: "ints s2 = ints st" "meths s2 = meths st"
    using arg_cong [OF s2(6), of ints] arg_cong [OF s2(6), of meths] by simp_all
  have c2: "classes s2 c = Some (unlinked r)"
    using s2(3) s2(4) [of c] W(3) by (auto simp: links_def intro: unlinked_eq)
  have ur: "c_isa (unlinked r) = Some m" "c_super_class (unlinked r) = c_super_class r" using m(1) by (simp_all add: unlinked_def)
  have m2: "classes s2 m = Some rm" using m(2,3) s2(5) [of m] xs by auto
  have cm: "c \<noteq> m" using m(2) W(2) by auto
  note LW = link_world [OF W(1) [unfolded split] W(2,3) m(1) S s2(2,4) same]
  show ?thesis
  proof (cases "c_super_class r")
    case None
    let ?C = "(classes s2)(m \<mapsto> flag_resolved (rm\<lparr>c_super_class := Some (SuperClass c), c_isa := Some m,
        c_sibling_class := c_subclass_list (unlinked r)\<rparr>), c \<mapsto> flag_resolved ((unlinked r)\<lparr>c_subclass_list := Some m\<rparr>))"
    have ml: "meta_links resolve depth s2 c = Some (s2, Some c, Some m)"
      using c2 ur None by (simp add: meta_links_def)
    have "link_class s2 c (Some c) (Some m) = Some (s2\<lparr>classes := ?C\<rparr>)"
      using link_class_root [OF c2 ur(1) _ m2 cm] ur(2) None by simp
    moreover have "world K rk (ys @ zs) (s2\<lparr>classes := ?C\<rparr>) \<and> same_tree K st (s2\<lparr>classes := ?C\<rparr>) \<and>
        (\<forall>d \<in> K. is_resolved (s2\<lparr>classes := ?C\<rparr>) d = (is_resolved st d \<or> d = c))"
    proof (rule LW [where n = "Suc 0"])
      show "?C d = classes s2 d" if "d \<in> set (ys @ zs)" for d
      proof -
        have "d \<in> K" "d \<noteq> c" using that xs split ul by (auto simp: ulist_def)
        then show ?thesis using m(2) by auto
      qed
      show "?C m = Some (flag_resolved (rm\<lparr>c_super_class := Some (SuperClass c), c_isa := Some m,
        c_sibling_class := c_subclass_list (unlinked r)\<rparr>))" using cm by simp
    qed (use None W(3) m(1) m2 c2 cm in \<open>auto simp: unlinked_def\<close>)
    ultimately show ?thesis using s2(1) ml by blast
  next
    case (Some ref)
    then obtain s rs where s: "c_super_class r = Some (SuperClass s)" "s \<in> K" "rk s < rk c" "is_resolved st s"
      "classes st s = Some rs"
      using hier_loaded [OF H W(2,3)] S by (auto simp: loaded_ok_def is_resolved_def)
    obtain sm rsm where sm: "c_isa rs = Some sm" "sm \<notin> K" "classes st sm = Some rsm"
      using hier_loaded [OF H s(2,5)] by (auto simp: loaded_ok_def)
    have ne: "s \<noteq> c" using s(3) by auto
    have "m \<noteq> sm" using hier_inj [OF H s(2) W(2) s(5) W(3)] ne m(1) sm(1) by auto
    have dist: "distinct [c, m, s, sm]" using \<open>m \<noteq> sm\<close> ne cm m(2) sm(2) W(2) s(2) by auto
    have s2s: "classes s2 s = Some rs" "classes s2 sm = Some rsm"
      using s(4,5) sm s2(5) [of s] s2(5) [of sm] xs by auto
    have "same_tree K st s2"
    proof -
      have "map_option (\<lambda>r. (c_isa r, c_super_class r)) (classes s2 d) = map_option (\<lambda>r. (c_isa r, c_super_class r)) (classes st d)" for d
        by (rule map_option_via [OF s2(4)]) (simp add: unlinked_def)
      then show ?thesis by (simp add: same_tree_def)
    qed
    from root_isa_tree [OF H this s(2)] root_isa_total [OF H s(2), of depth] s(3) depth
    obtain mm where mm: "root_isa depth s2 s = Some (Some mm)" "root_isa depth st s = Some (Some mm)" by auto
    let ?M = "flag_resolved (rm\<lparr>c_super_class := Some (SuperClass sm), c_isa := Some mm, c_sibling_class := c_subclass_list rsm\<rparr>)"
    let ?C = "(classes s2)(m \<mapsto> ?M, s \<mapsto> rs\<lparr>c_subclass_list := Some c\<rparr>,
       c \<mapsto> flag_resolved ((unlinked r)\<lparr>c_sibling_class := c_subclass_list rs\<rparr>), sm \<mapsto> rsm\<lparr>c_subclass_list := Some m\<rparr>)"
    have rs: "resolved rs" using s(4,5) by (simp add: is_resolved_def)
    have ml: "meta_links resolve depth s2 c = Some (s2, Some sm, Some mm)"
      using c2 ur s s2s(1) sm mm(1) rs by (simp add: meta_links_def)
    have "link_class s2 c (Some sm) (Some mm) = Some (s2\<lparr>classes := ?C\<rparr>)"
      using link_class_nonroot [OF c2 ur(1) _ s2s(1) m2 s2s(2) dist] ur(2) s(1) by simp
    moreover have "world K rk (ys @ zs) (s2\<lparr>classes := ?C\<rparr>) \<and> same_tree K st (s2\<lparr>classes := ?C\<rparr>) \<and>
        (\<forall>d \<in> K. is_resolved (s2\<lparr>classes := ?C\<rparr>) d = (is_resolved st d \<or> d = c))"
    proof (rule LW [where n = "Suc depth" and rm' = ?M])
      show "?C d = classes s2 d" if "d \<in> set (ys @ zs)" for d
      proof -
        have "d \<in> K" "d \<noteq> c" "\<not> is_resolved st d" using that xs split ul by (auto simp: ulist_def)
        then show ?thesis using m(2) sm(2) s(4) by auto
      qed
      show "?C m = Some ?M" using dist by simp
      show "root_isa (Suc depth) st c = Some (c_isa ?M)" using W(3) s(1) mm(2) by simp
      show "c_super_class ?M = map_option SuperClass
         (case c_super_class r of Some (SuperClass s) \<Rightarrow> Option.bind (classes st s) c_isa | _ \<Rightarrow> Some c)"
        using s(1,5) sm(1) by simp
      show "map_option (\<lambda>r. (c_isa r, c_super_class r)) (?C d) = map_option (\<lambda>r. (c_isa r, c_super_class r)) (classes s2 d)" if "d \<noteq> m" for d
        using that c2 s2s by (simp add: unlinked_def)
      show "map_option (\<lambda>r. (c_methods r, c_ivars r)) (?C d) = map_option (\<lambda>r. (c_methods r, c_ivars r)) (classes s2 d)" for d
        using c2 s2s m2 by (simp add: unlinked_def)
      show "map_option resolved (?C d) = map_option resolved (classes s2 d)" if "d \<noteq> m" "d \<noteq> c" for d
        using that s2s by (simp add: resolved_def objc_test_class_flag_def)
      show "map_option resolved (?C c) = Some True" using dist by simp
    qed
    ultimately show ?thesis using s2(1) ml by blast
  qed
qed

lemma same_tree_trans: "same_tree K s t \<Longrightarrow> same_tree K t u \<Longrightarrow> same_tree K s u"
  by (simp add: same_tree_def)

lemma resolve_correct:
  assumes "world K rk xs st" "c \<in> K" "rk c + 3 \<le> fuel"
  shows "\<exists>st' xs'. objc_resolve_class fuel st c = Some (st', True) \<and> world K rk xs' st' \<and> same_tree K st st' \<and>
    is_resolved st' c \<and> (\<forall>d \<in> K. is_resolved st d \<longrightarrow> is_resolved st' d) \<and>
    (\<forall>d \<in> K. is_resolved st' d \<longrightarrow> is_resolved st d \<or> rk d \<le> rk c)"
  using assms
proof (induction fuel arbitrary: st c xs)
  case 0
  then show ?case by simp
next
  case (Suc f)
  obtain r where r: "classes st c = Some r" "loaded_ok K rk st c r"
    using Suc.prems(1,2) by (auto simp: world_def hier_def)
  have run: "objc_resolve_class (Suc f) st c =
      resolve_body (\<lambda>s c. objc_resolve_class f s c) (\<lambda>s c. objc_compute_ivar_offsets f s c) (Suc f) st c" by simp
  show ?case
  proof (cases "resolved r")
    case True
    then have "objc_resolve_class (Suc f) st c = Some (st, True)" unfolding run resolve_body_def using r(1) by simp
    then show ?thesis using Suc.prems(1) True r(1)
      by (intro exI [of _ st] exI [of _ xs]) (simp add: same_tree_def is_resolved_def)
  next
    case False
    obtain s1 xs1 where s1: "resolve_super (\<lambda>s c. objc_resolve_class f s c) st r = Some (s1, True)"
      "world K rk xs1 s1" "same_tree K st s1" "\<forall>d \<in> K. is_resolved st d \<longrightarrow> is_resolved s1 d"
      "\<forall>d \<in> K. is_resolved s1 d \<longrightarrow> is_resolved st d \<or> rk d < rk c"
      "\<And>s. c_super_class r = Some (SuperClass s) \<Longrightarrow> is_resolved s1 s"
    proof (cases "c_super_class r")
      case None
      then show ?thesis using that [of st xs] Suc.prems(1) by (simp add: resolve_super_def same_tree_def)
    next
      case (Some ref)
      then obtain s rs where s: "c_super_class r = Some (SuperClass s)" "s \<in> K" "rk s < rk c" "classes st s = Some rs"
        using r(2) Suc.prems(1) by (auto simp: loaded_ok_def world_def hier_def)
      show ?thesis
      proof (cases "resolved rs")
        case True
        then show ?thesis using that [of st xs] Suc.prems(1) s by (simp add: resolve_super_def same_tree_def is_resolved_def)
      next
        case unres: False
        have "rk s + 3 \<le> f" using s(3) Suc.prems(3) by simp
        from Suc.IH [OF Suc.prems(1) s(2) this] obtain t ts where t: "objc_resolve_class f st s = Some (t, True)"
          "world K rk ts t" "same_tree K st t" "is_resolved t s" "\<forall>d \<in> K. is_resolved st d \<longrightarrow> is_resolved t d"
          "\<forall>d \<in> K. is_resolved t d \<longrightarrow> is_resolved st d \<or> rk d \<le> rk s" by blast
        then show ?thesis using that [of t ts] s unres by (fastforce simp: resolve_super_def)
      qed
    qed
    obtain r1 where r1: "classes s1 c = Some r1" "c_super_class r1 = c_super_class r"
      using same_tree_Some [OF s1(3) Suc.prems(2) r(1)] .
    have "\<not> resolved r1" using s1(5) Suc.prems(2) r(1) r1(1) False by (auto simp: is_resolved_def)
    then obtain s2 sm mm s4 xs4 where s4: "unlink_unresolved s1 c = Some s2"
      "meta_links (\<lambda>s c. objc_resolve_class f s c) (Suc f) s2 c = Some (s2, sm, mm)"
      "link_class s2 c sm mm = Some s4" "world K rk xs4 s4" "same_tree K s1 s4"
      "\<forall>d \<in> K. is_resolved s4 d = (is_resolved s1 d \<or> d = c)"
      using resolve_step [OF s1(2) Suc.prems(2) r1(1), of "Suc f"] s1(6) r1(2) Suc.prems(3) by fastforce
    have H4: "hier K rk s4" "is_resolved s4 c" using s4(4,6) Suc.prems(2) by (auto simp: world_def)
    obtain s5 where s5: "objc_compute_ivar_offsets f s4 c = Some s5" "same_skel s4 s5" "hier K rk s5"
      using compute_total [OF H4(1) Suc.prems(2) H4(2), of f] Suc.prems(3) by auto
    obtain s6 where s6: "announce_class s5 c = Some s6"
      "s6\<lparr>load_table := [], load_calls := [], load_callbacks := []\<rparr> = s5\<lparr>load_table := [], load_calls := [], load_callbacks := []\<rparr>"
      using announce_total [OF s5(3) Suc.prems(2)] by blast
    have same6: "classes s6 = classes s5" "unresolved_class_list s6 = unresolved_class_list s5" "ints s6 = ints s5" "meths s6 = meths s5"
      using arg_cong [OF s6(2), of classes] arg_cong [OF s6(2), of unresolved_class_list]
        arg_cong [OF s6(2), of ints] arg_cong [OF s6(2), of meths] by simp_all
    have H6: "hier K rk s6"
      by (rule hier_frame [OF s5(3)]) (simp_all add: same_tree_def same6 is_resolved_def)
    have w6: "world K rk xs4 s6 \<and> same_tree K s4 s6 \<and> (\<forall>d. is_resolved s6 d = is_resolved s4 d)"
      using s5(2) same_skel_fields(2) [OF s5(2)] by (intro world_skel [OF s4(4) H6]) (simp_all add: same6 same_skel_def)
    have "objc_resolve_class (Suc f) st c = Some (s6, True)"
      unfolding run resolve_body_def using r(1) False s1(1) s4(1-3) s5(1) s6(1) by simp
    moreover have "same_tree K st s6" using same_tree_trans [OF s1(3) same_tree_trans [OF s4(5)]] w6 by blast
    ultimately show ?thesis using w6 s4(6) s1(4,5) Suc.prems(2) by (intro exI [of _ s6] exI [of _ xs4]) auto
  qed
qed

section \<open>Resolving all classes\<close>

lemma world_length:
  assumes "world K rk xs st" "world K rk ys st'" "\<forall>d \<in> K. is_resolved st d \<longrightarrow> is_resolved st' d"
    and "c \<in> K" "\<not> is_resolved st c" "is_resolved st' c"
  shows "length ys < length xs"
proof -
  have "set ys \<subset> set xs" using assms by (auto simp: world_def)
  moreover have "distinct xs" "distinct ys" using assms(1,2) by (auto simp: world_def ulist_def)
  ultimately show ?thesis by (metis distinct_card psubset_card_mono List.finite_set)
qed

lemma ulist_next:
  assumes "ulist st xs" "x \<in> set xs" "classes st x = Some r"
  shows "c_subclass_list r = None \<or> (\<exists>y \<in> set xs. c_subclass_list r = Some y)"
proof -
  obtain ys zs where split: "xs = ys @ x # zs" using assms(2) by (meson split_list)
  then have "links st x = Some (if ys = [] then None else Some (last ys), if zs = [] then None else Some (hd zs))"
    using assms(1) by (auto simp: ulist_def useg_append)
  then show ?thesis using assms(3) split by (cases zs) (auto simp: links_def)
qed

lemma pass_correct:
  assumes "world K rk xs st" "\<forall>c \<in> K. rk c + 3 \<le> depth" "length xs < n" "\<forall>c. cls = Some c \<longrightarrow> c \<in> K"
    and "flag \<or> (\<forall>c. cls = Some c \<longrightarrow> \<not> is_resolved st c)"
  shows "\<exists>st' ys. resolve_pass depth n st cls flag = Some (st', flag \<or> cls \<noteq> None) \<and> world K rk ys st' \<and>
    same_tree K st st' \<and> (\<forall>d \<in> K. is_resolved st d \<longrightarrow> is_resolved st' d) \<and> (\<forall>c. cls = Some c \<longrightarrow> is_resolved st' c)"
  using assms
proof (induction n arbitrary: st xs cls flag)
  case 0
  then show ?case by simp
next
  case (Suc n)
  show ?case
  proof (cases cls)
    case None
    then show ?thesis using Suc.prems(1) by (auto simp: same_tree_def)
  next
    case (Some c)
    then have c: "c \<in> K" using Suc.prems(4) by simp
    obtain r where r: "classes st c = Some r" using Suc.prems(1) c by (auto simp: world_def hier_def)
    show ?thesis
    proof (cases "resolved r")
      case True
      then have "flag" using Suc.prems(5) Some r by (auto simp: is_resolved_def)
      then show ?thesis using Some r True Suc.prems(1) by (auto simp: same_tree_def is_resolved_def)
    next
      case False
      have un: "\<not> is_resolved st c" using r False by (simp add: is_resolved_def)
      obtain s1 ys where s1: "objc_resolve_class depth st c = Some (s1, True)" "world K rk ys s1" "same_tree K st s1"
        "is_resolved s1 c" "\<forall>d \<in> K. is_resolved st d \<longrightarrow> is_resolved s1 d"
        using resolve_correct [OF Suc.prems(1) c] Suc.prems(2) c by blast
      have len: "length ys < n" using world_length [OF Suc.prems(1) s1(2,5) c un s1(4)] Suc.prems(3) by simp
      have "c \<in> set xs" using Suc.prems(1) c un by (simp add: world_def)
      then have nextK: "\<forall>d. c_subclass_list r = Some d \<longrightarrow> d \<in> K"
        using ulist_next [of st xs c r] r Suc.prems(1) by (auto simp: world_def)
      obtain r1 where r1: "classes s1 c = Some r1" "resolved r1" using s1(4) by (auto simp: is_resolved_def)
      obtain s2 zs where s2: "resolve_pass depth n s1 (c_subclass_list r) True = Some (s2, True)" "world K rk zs s2"
        "same_tree K s1 s2" "\<forall>d \<in> K. is_resolved s1 d \<longrightarrow> is_resolved s2 d"
        using Suc.IH [OF s1(2) Suc.prems(2) len nextK, of True] by auto
      have "resolve_pass depth (Suc n) st cls flag = Some (s2, True)"
        using Some r False s1(1) r1 s2(1) by simp
      then show ?thesis using Some s1(4,5) s2(2,4) same_tree_trans [OF s1(3) s2(3)] c by auto
    qed
  qed
qed

text \<open>
  C26: Class resolution. For a loaded class, \<open>objc_resolve_class\<close> returns YES (the depth of its
  superclass chain plus three bounds the calls), the class is resolved, and the invariant is
  kept: the doubly linked list holds exactly the unresolved classes, a resolved class has a
  resolved superclass, and every resolved class has a linked metaclass, whose superclass is
  the metaclass of the superclass (the class itself for a root) and whose class is the
  metaclass of the root. No class loses its resolution, metaclass or superclass.
\<close>

theorem class_resolution_correct:
  assumes "world K rk xs st" "c \<in> K" "rk c + 3 \<le> fuel"
  shows "\<exists>st' xs'. objc_resolve_class fuel st c = Some (st', True) \<and> world K rk xs' st' \<and> same_tree K st st' \<and>
    is_resolved st' c \<and> meta_ok st' c \<and> (\<forall>d \<in> K. is_resolved st d \<longrightarrow> is_resolved st' d)"
  using resolve_correct [OF assms] assms(2) by (auto simp: world_def)

text \<open>Two unresolved classes, B before its superclass A in the list.\<close>

definition demo_classes :: rt_state where
  "demo_classes =
     (boot_state (\<lambda>n t. None) (\<lambda>_. 0))
       \<lparr>classes := [0 \<mapsto> (plain_class \<lparr>cs_addr = 16, cs_text = ''A''\<rparr> (Some 2) None)\<lparr>c_sibling_class := Some 1\<rparr>,
                   1 \<mapsto> (plain_class \<lparr>cs_addr = 32, cs_text = ''B''\<rparr> (Some 3) (Some (SuperClass 0)))\<lparr>c_subclass_list := Some 0\<rparr>,
                   2 \<mapsto> plain_class \<lparr>cs_addr = 16, cs_text = ''A''\<rparr> None None,
                   3 \<mapsto> plain_class \<lparr>cs_addr = 32, cs_text = ''B''\<rparr> None None],
        unresolved_class_list := Some 1\<rparr>"

lemma demo_world: "world {0, 1} id [1, 0] demo_classes"
proof -
  have un: "\<not> is_resolved demo_classes 0" "\<not> is_resolved demo_classes 1"
    by (simp_all add: is_resolved_def demo_classes_def plain_class_def resolved_def objc_test_class_flag_def
        objc_class_flag_resolved_def)
  have "hier {0, 1} id demo_classes"
    by (simp add: hier_def loaded_ok_def demo_classes_def plain_class_def ivars_fit_def resolved_def
        objc_test_class_flag_def objc_class_flag_resolved_def)
  moreover have "ulist demo_classes [1, 0]"
    by (simp add: ulist_def links_def demo_classes_def plain_class_def)
  ultimately show ?thesis using un by (auto simp: world_def)
qed

theorem class_resolution_correct_witness:
  "\<exists>st'. objc_resolve_class 4 demo_classes 1 = Some (st', True) \<and> is_resolved st' 1 \<and> meta_ok st' 1"
  using class_resolution_correct [OF demo_world, of 1 4] by auto

text \<open>
  C27: \<open>objc_resolve_class_links\<close> terminates and leaves no class unresolved. With as many rounds as
  there are unresolved classes, plus one, it returns, its assertion holds throughout, the list
  of unresolved classes is empty and every loaded class is resolved with linked metaclasses.
\<close>

theorem resolve_links_complete:
  assumes "world K rk xs st" "\<forall>c \<in> K. rk c + 3 \<le> depth" "length xs < n"
  shows "\<exists>st'. objc_resolve_class_links depth n st = Some st' \<and> unresolved_class_list st' = None \<and>
    same_tree K st st' \<and> (\<forall>c \<in> K. is_resolved st' c \<and> meta_ok st' c)"
  using assms
proof (induction n arbitrary: st xs)
  case 0
  then show ?case by simp
next
  case (Suc n)
  show ?case
  proof (cases xs)
    case Nil
    then have "objc_resolve_class_links depth (Suc n) st = Some st" using Suc.prems(1) by (simp add: world_def ulist_def)
    then show ?thesis using Nil Suc.prems(1) by (auto simp: world_def ulist_def same_tree_def)
  next
    case (Cons c xs')
    have c: "c \<in> K" "\<not> is_resolved st c" "unresolved_class_list st = Some c"
      using Suc.prems(1) Cons by (auto simp: world_def ulist_def)
    obtain s1 ys where s1: "resolve_pass depth (Suc n) st (unresolved_class_list st) False = Some (s1, True)"
      "world K rk ys s1" "same_tree K st s1" "\<forall>d \<in> K. is_resolved st d \<longrightarrow> is_resolved s1 d" "is_resolved s1 c"
      using pass_correct [OF Suc.prems(1,2,3), of "unresolved_class_list st" False] c by auto
    have "length ys < n" using world_length [OF Suc.prems(1) s1(2,4) c(1,2) s1(5)] Suc.prems(3) by simp
    from Suc.IH [OF s1(2) Suc.prems(2) this] obtain st' where st': "objc_resolve_class_links depth n s1 = Some st'"
      "unresolved_class_list st' = None" "same_tree K s1 st'" "\<forall>c \<in> K. is_resolved st' c \<and> meta_ok st' c" by blast
    moreover have "objc_resolve_class_links depth (Suc n) st = Some st'" using s1(1) st'(1) by simp
    ultimately show ?thesis using same_tree_trans [OF s1(3)] by blast
  qed
qed

theorem resolve_links_complete_witness:
  "\<exists>st'. objc_resolve_class_links 4 3 demo_classes = Some st' \<and> unresolved_class_list st' = None \<and>
     is_resolved st' 0 \<and> is_resolved st' 1"
  using resolve_links_complete [OF demo_world, of 4 3] by (auto simp del: objc_resolve_class_links.simps)

end
