(* ===== verification/Objc_Dispatch.thy ===== *)
theory Objc_Dispatch
  imports Objc_Class_Table
begin

text \<open>
  Dispatch tables: \<open>src/dispatch/dtable.c\<close>, \<open>src/internal/dispatch/dtable.h\<close>, and the lookup without
  forwarding of \<open>src/dispatch/sendmsg2.c\<close> that they use. A dispatch table is a sparse array from
  selector indices to methods. A class without a table of its own has \<open>uninstalled_dtable\<close>, or,
  while its \<open>+initialize\<close> runs, an entry in the look-aside list \<open>temporary_dtables\<close>.

  \<open>None\<close> is an access through a bad or null pointer, a failed assertion or an \<open>abort\<close>. Loops over
  the lists of subclasses and the recursion over the class tree are bounded by the number of
  class addresses ever handed out: a longer walk is a cycle, in which the code would not return
  either. Registering a selector does not resize the tables here: the selectors of loaded methods
  and those the runtime itself uses (\<open>alloc\<close>, \<open>retain\<close>, \<open>.cxx_construct\<close> and so on) are in the
  selector table, with their untyped variants, before tables are built.
\<close>

section \<open>Tables of classes\<close>

definition dt_lookup :: "rt_state \<Rightarrow> sa_ptr option \<Rightarrow> uint32 \<Rightarrow> nat option option" where
  "dt_lookup st dtable idx = Option.bind dtable (\<lambda>p. SparseArrayLookup (dtables st) p idx)"

definition new_sparse_array_or_abort :: "rt_state \<Rightarrow> nat \<Rightarrow> (rt_state \<times> sa_ptr) option" where
  "new_sparse_array_or_abort st depth =
     do {
       (h, array) \<leftarrow> SparseArrayNewWithDepth (dtables st) depth;
       p \<leftarrow> array;
       Some (st\<lparr>dtables := h\<rparr>, p)
     }"

definition copy_sparse_array_or_abort :: "rt_state \<Rightarrow> sa_ptr option \<Rightarrow> (rt_state \<times> sa_ptr) option" where
  "copy_sparse_array_or_abort st array =
     do {
       (h, copy) \<leftarrow> SparseArrayCopy (dtables st) array;
       p \<leftarrow> copy;
       Some (st\<lparr>dtables := h\<rparr>, p)
     }"

definition sparse_array_insert_or_abort ::
  "rt_state \<Rightarrow> sa_ptr option \<Rightarrow> uint32 \<Rightarrow> nat option \<Rightarrow> rt_state option" where
  "sparse_array_insert_or_abort st array idx v =
     do {
       (h, ok) \<leftarrow> SparseArrayInsert 4 (dtables st) array idx v;
       if ok then Some (st\<lparr>dtables := h\<rparr>) else None
     }"

definition free_dtable :: "rt_state \<Rightarrow> sa_ptr option \<Rightarrow> rt_state option" where
  "free_dtable st dtable = map_option (\<lambda>h. st\<lparr>dtables := h\<rparr>) (SparseArrayDestroy 4 (dtables st) dtable)"

definition classHasInstalledDtable :: "rt_state \<Rightarrow> objc_class \<Rightarrow> bool" where
  "classHasInstalledDtable st r \<longleftrightarrow> c_dtable r \<noteq> Some (uninstalled_dtable st)"

definition dtable_for_class :: "rt_state \<Rightarrow> nat \<Rightarrow> sa_ptr option option" where
  "dtable_for_class st cls =
     do {
       r \<leftarrow> classes st cls;
       Some (if classHasInstalledDtable st r then c_dtable r
             else case map_of (temporary_dtables st) cls of
               None \<Rightarrow> Some (uninstalled_dtable st) | Some d \<Rightarrow> Some d)
     }"

definition classHasDtable :: "rt_state \<Rightarrow> nat \<Rightarrow> bool option" where
  "classHasDtable st cls = map_option (\<lambda>d. d \<noteq> Some (uninstalled_dtable st)) (dtable_for_class st cls)"

definition init_dispatch_tables :: "rt_state \<Rightarrow> rt_state option" where
  "init_dispatch_tables st =
     do {
       (s1, p) \<leftarrow> new_sparse_array_or_abort st (dtable_depth st);
       Some (s1\<lparr>uninstalled_dtable := p\<rparr>)
     }"

section \<open>Selectors\<close>

definition objc2_get_or_register_selector :: "rt_state \<Rightarrow> string \<Rightarrow> selector option" where
  "objc2_get_or_register_selector st name = register_selector st name None"

definition get_untyped_idx :: "rt_state \<Rightarrow> selector \<Rightarrow> uint32 option" where
  "get_untyped_idx st aSel = map_option (sel_index st) (register_selector st (sel_name aSel) None)"

definition selEqualUnTyped :: "rt_state \<Rightarrow> selector \<Rightarrow> selector \<Rightarrow> bool option" where
  "selEqualUnTyped st expected untyped =
     (if sel_index st expected = sel_index st untyped then Some True
      else map_option (\<lambda>i. i = sel_index st untyped) (get_untyped_idx st expected))"

section \<open>Lookup without forwarding\<close>

text \<open>
  What a lookup returns: a method, the thread's uncacheable slot, or one of the slots for \<open>nil\<close>.
\<close>

datatype slot = MethodSlot nat | UncacheableSlot | NilSlot nil_kind

fun slot_method :: "rt_state \<Rightarrow> slot \<Rightarrow> uintptr_t option" where
  "slot_method st (MethodSlot m) = map_option m_imp (meths st m)"
| "slot_method st UncacheableSlot = Some (uncacheable_imp st)"
| "slot_method st (NilSlot k) = Some (nil_imp st k)"

definition objc_selector_type_mismatch :: "rt_state \<Rightarrow> nat \<Rightarrow> uintptr_t option" where
  "objc_selector_type_mismatch st result = map_option m_imp (meths st result)"

text \<open>The older hook is handed the thread's legacy slot, whatever it holds from earlier lookups.\<close>

definition call_mismatch_hook :: "rt_state \<Rightarrow> nat \<Rightarrow> selector \<Rightarrow> nat \<Rightarrow> uintptr_t option" where
  "call_mismatch_hook st cls sel slot =
     (case (type_mismatch_v1 st, type_mismatch2 st) of
        (Some f, Mismatch2Null) \<Rightarrow> Some (f cls sel (uncacheable_slot_v1 st))
      | (Some f, Mismatch2Default) \<Rightarrow> Some (f cls sel (uncacheable_slot_v1 st))
      | (_, Mismatch2Client g) \<Rightarrow> Some (g cls sel slot)
      | (None, Mismatch2Default) \<Rightarrow> objc_selector_type_mismatch st slot
      | (None, Mismatch2Null) \<Rightarrow> None)"

text \<open>The third component is what is stored through the \<open>version\<close> argument.\<close>

definition objc_get_slot2 :: "rt_state \<Rightarrow> nat \<Rightarrow> selector \<Rightarrow> (rt_state \<times> slot option \<times> uint64) option" where
  "objc_get_slot2 st cls selector =
     do {
       r \<leftarrow> classes st cls;
       result \<leftarrow> dt_lookup st (c_dtable r) (sel_index st selector);
       (case result of
          Some m \<Rightarrow> Some (st, Some (MethodSlot m), objc_method_cache_version st)
        | None \<Rightarrow>
            do {
              dtable \<leftarrow> dtable_for_class st cls;
              again \<leftarrow> dt_lookup st dtable (sel_index st selector);
              (case again of
                 Some m \<Rightarrow> Some (st, Some (MethodSlot m), objc_method_cache_version st)
               | None \<Rightarrow>
                   do {
                     u \<leftarrow> get_untyped_idx st selector;
                     untyped \<leftarrow> dt_lookup st dtable u;
                     (case untyped of
                        None \<Rightarrow> Some (st, None, objc_method_cache_version st)
                      | Some m \<Rightarrow>
                          do {
                            imp \<leftarrow> call_mismatch_hook st cls selector m;
                            Some (st\<lparr>uncacheable_imp := imp\<rparr>, Some UncacheableSlot, 0)
                          })
                   })
            })
     }"

fun ownerForMethod :: "nat \<Rightarrow> rt_state \<Rightarrow> nat \<Rightarrow> selector \<Rightarrow> (rt_state \<times> nat option) option" where
  "ownerForMethod 0 st cls sel = None"
| "ownerForMethod (Suc fuel) st cls sel =
     do {
       (s1, slot, _) \<leftarrow> objc_get_slot2 st cls sel;
       (case slot of
          None \<Rightarrow> Some (s1, None)
        | Some sl \<Rightarrow>
            do {
              r \<leftarrow> classes s1 cls;
              (case c_super_class r of
                 None \<Rightarrow> Some (s1, Some cls)
               | Some (SuperName _) \<Rightarrow> None
               | Some (SuperClass super) \<Rightarrow>
                   do {
                     (s2, super_slot, _) \<leftarrow> objc_get_slot2 s1 super sel;
                     if super_slot = Some sl then ownerForMethod fuel s2 super sel
                     else Some (s2, Some cls)
                   })
            })
     }"

definition owner_for_method :: "rt_state \<Rightarrow> nat \<Rightarrow> selector \<Rightarrow> (rt_state \<times> nat option) option" where
  "owner_for_method st cls sel = ownerForMethod (Suc (class_brk st)) st cls sel"

definition ownsMethod :: "rt_state \<Rightarrow> nat \<Rightarrow> selector \<Rightarrow> (rt_state \<times> bool) option" where
  "ownsMethod st cls sel = map_option (map_prod id (\<lambda>owner. owner = Some cls)) (owner_for_method st cls sel)"

section \<open>Class flags that depend on methods\<close>

definition set_flag_if :: "bool \<Rightarrow> uint64 \<Rightarrow> objc_class \<Rightarrow> objc_class" where
  "set_flag_if b flag r = (if b then objc_set_class_flag r flag else objc_clear_class_flag r flag)"

definition class_isMetaClass :: "rt_state \<Rightarrow> nat option \<Rightarrow> bool option" where
  "class_isMetaClass st cls =
     (case cls of None \<Rightarrow> Some False
      | Some c \<Rightarrow> map_option (\<lambda>r. objc_test_class_flag r objc_class_flag_meta) (classes st c))"

definition checkFastAllocInit :: "rt_state \<Rightarrow> nat \<Rightarrow> rt_state option" where
  "checkFastAllocInit st cls =
     do {
       isMeta \<leftarrow> class_isMetaClass st (Some cls);
       if isMeta then Some st
       else do {
         alloc \<leftarrow> objc2_get_or_register_selector st ''alloc'';
         allocWithZone \<leftarrow> objc2_get_or_register_selector st ''allocWithZone:'';
         init \<leftarrow> objc2_get_or_register_selector st ''init'';
         isTrivialAllocInit \<leftarrow> objc2_get_or_register_selector st ''_TrivialAllocInit'';
         r \<leftarrow> classes st cls;
         metaclass \<leftarrow> c_isa r;
         (s1, isTrivialOwner) \<leftarrow> owner_for_method st metaclass isTrivialAllocInit;
         if isTrivialOwner = None then
           do {
             t \<leftarrow> upd_class cls (set_flag_if False objc_class_flag_fast_alloc_init) s1;
             upd_class metaclass (set_flag_if False objc_class_flag_fast_alloc_init) t
           }
         else do {
           (s2, allocOwner) \<leftarrow> owner_for_method s1 metaclass alloc;
           (s3, allocWithZoneOwner) \<leftarrow> owner_for_method s2 metaclass allocWithZone;
           s4 \<leftarrow> upd_class metaclass
                   (set_flag_if ((allocOwner = None \<or> allocOwner = isTrivialOwner) \<and>
                                 (allocWithZoneOwner = None \<or> allocWithZoneOwner = isTrivialOwner))
                      objc_class_flag_fast_alloc_init) s3;
           (s5, initOwner) \<leftarrow> owner_for_method s4 cls init;
           fast \<leftarrow> (case initOwner of None \<Rightarrow> Some True
                    | Some o' \<Rightarrow> map_option (\<lambda>ro. c_isa ro = isTrivialOwner) (classes s5 o'));
           upd_class cls (set_flag_if fast objc_class_flag_fast_alloc_init) s5
         }
       }
     }"

text \<open>The owner of a memory management method must also own the marker of ARC compliance.\<close>

definition arc_compliant :: "rt_state \<Rightarrow> nat \<Rightarrow> selector \<Rightarrow> selector \<Rightarrow> (rt_state \<times> bool) option" where
  "arc_compliant st cls sel isARC =
     do {
       (s1, owner) \<leftarrow> owner_for_method st cls sel;
       (case owner of None \<Rightarrow> Some (s1, True) | Some o' \<Rightarrow> ownsMethod s1 o' isARC)
     }"

definition checkARCAccessors :: "rt_state \<Rightarrow> nat \<Rightarrow> rt_state option" where
  "checkARCAccessors st cls =
     do {
       s0 \<leftarrow> checkFastAllocInit st cls;
       retain \<leftarrow> objc2_get_or_register_selector s0 ''retain'';
       release \<leftarrow> objc2_get_or_register_selector s0 ''release'';
       autorelease \<leftarrow> objc2_get_or_register_selector s0 ''autorelease'';
       isARC \<leftarrow> objc2_get_or_register_selector s0 ''_ARCCompliantRetainRelease'';
       (s1, ok1) \<leftarrow> arc_compliant s0 cls retain isARC;
       if \<not> ok1 then upd_class cls (set_flag_if False objc_class_flag_fast_arc) s1
       else do {
         (s2, ok2) \<leftarrow> arc_compliant s1 cls release isARC;
         if \<not> ok2 then upd_class cls (set_flag_if False objc_class_flag_fast_arc) s2
         else do {
           (s3, ok3) \<leftarrow> arc_compliant s2 cls autorelease isARC;
           upd_class cls (set_flag_if ok3 objc_class_flag_fast_arc) s3
         }
       }
     }"

text \<open>
  The methods of a class in the order of its blocks, with their selectors. \<open>arc_scan\<close> is the
  double loop of \<open>checkARCAccessorsSlow\<close>: \<open>None\<close> when the marker of compliance ends it, otherwise
  whether a memory management method was seen.
\<close>

definition class_methods :: "objc_class \<Rightarrow> nat list" where
  "class_methods r = concat (map ml_items (c_methods r))"

fun arc_scan ::
  "rt_state \<Rightarrow> selector \<Rightarrow> selector \<Rightarrow> selector \<Rightarrow> selector \<Rightarrow> bool \<Rightarrow> nat list \<Rightarrow> bool option option" where
  "arc_scan st retain release autorelease isARC seen [] = Some (Some seen)"
| "arc_scan st retain release autorelease isARC seen (h # hs) =
     do {
       m \<leftarrow> meths st h;
       rr \<leftarrow> anyM (selEqualUnTyped st (m_selector m)) [retain, release, autorelease];
       if rr then arc_scan st retain release autorelease isARC True hs
       else do {
         marker \<leftarrow> selEqualUnTyped st (m_selector m) isARC;
         if marker then Some None else arc_scan st retain release autorelease isARC seen hs
       }
     }"

fun checkARCAccessorsSlow :: "nat \<Rightarrow> rt_state \<Rightarrow> nat \<Rightarrow> rt_state option" where
  "checkARCAccessorsSlow 0 st cls = None"
| "checkARCAccessorsSlow (Suc fuel) st cls =
     do {
       r \<leftarrow> classes st cls;
       if c_dtable r \<noteq> Some (uninstalled_dtable st) then Some st
       else do {
         retain \<leftarrow> objc2_get_or_register_selector st ''retain'';
         release \<leftarrow> objc2_get_or_register_selector st ''release'';
         autorelease \<leftarrow> objc2_get_or_register_selector st ''autorelease'';
         isARC \<leftarrow> objc2_get_or_register_selector st ''_ARCCompliantRetainRelease'';
         (s1, superIsFast) \<leftarrow>
           (case c_super_class r of
              None \<Rightarrow> Some (st, True)
            | Some (SuperName _) \<Rightarrow> None
            | Some (SuperClass super) \<Rightarrow>
                do {
                  t \<leftarrow> checkARCAccessorsSlow fuel st super;
                  rs \<leftarrow> classes t super;
                  Some (t, objc_test_class_flag rs objc_class_flag_fast_arc)
                });
         r1 \<leftarrow> classes s1 cls;
         scan \<leftarrow> arc_scan s1 retain release autorelease isARC False (class_methods r1);
         (case scan of
            None \<Rightarrow> upd_class cls (\<lambda>x. objc_set_class_flag x objc_class_flag_fast_arc) s1
          | Some selfImplements \<Rightarrow>
              if superIsFast \<and> \<not> selfImplements
              then upd_class cls (\<lambda>x. objc_set_class_flag x objc_class_flag_fast_arc) s1
              else Some s1)
       }
     }"

section \<open>Installing methods\<close>

text \<open>Loops along a list of subclasses.\<close>

fun sibling_loop ::
  "nat \<Rightarrow> (rt_state \<Rightarrow> nat \<Rightarrow> rt_state option) \<Rightarrow> rt_state \<Rightarrow> nat option \<Rightarrow> rt_state option" where
  "sibling_loop n body st None = Some st"
| "sibling_loop 0 body st (Some c) = None"
| "sibling_loop (Suc n) body st (Some c) =
     do {
       s1 \<leftarrow> body st c;
       r \<leftarrow> classes s1 c;
       sibling_loop n body s1 (c_sibling_class r)
     }"

fun collectMethodsForMethodListToSparseArray ::
  "objc_method_list list \<Rightarrow> rt_state \<Rightarrow> sa_ptr \<Rightarrow> bool \<Rightarrow> rt_state option" where
  "collectMethodsForMethodListToSparseArray [] st sarray recurse = None"
| "collectMethodsForMethodListToSparseArray (l # ls) st sarray recurse =
     do {
       s1 \<leftarrow> (if recurse \<and> ls \<noteq> [] then collectMethodsForMethodListToSparseArray ls st sarray True
              else Some st);
       foldM (\<lambda>s h. do { m \<leftarrow> meths s h;
                         sparse_array_insert_or_abort s (Some sarray) (sel_index s (m_selector m)) (Some h) })
         s1 (ml_items l)
     }"

definition update_cxx_cache :: "rt_state \<Rightarrow> nat \<Rightarrow> objc_method \<Rightarrow> bool \<Rightarrow> rt_state option" where
  "update_cxx_cache st cls m updateCxxCache =
     do {
       cxx_construct \<leftarrow> objc2_get_or_register_selector st ''.cxx_construct'';
       cxx_destruct \<leftarrow> objc2_get_or_register_selector st ''.cxx_destruct'';
       if \<not> updateCxxCache then Some st
       else do {
         is_construct \<leftarrow> selEqualUnTyped st (m_selector m) cxx_construct;
         if is_construct then upd_class cls (\<lambda>x. x\<lparr>c_cxx_construct := m_imp m\<rparr>) st
         else do {
           is_destruct \<leftarrow> selEqualUnTyped st (m_selector m) cxx_destruct;
           if is_destruct then upd_class cls (\<lambda>x. x\<lparr>c_cxx_destruct := m_imp m\<rparr>) st else Some st
         }
       }
     }"

text \<open>Whether the method in the table has the same implementation already.\<close>

definition same_imp :: "rt_state \<Rightarrow> nat option \<Rightarrow> objc_method \<Rightarrow> bool option" where
  "same_imp st oldMethod m =
     (case oldMethod of None \<Rightarrow> Some False
      | Some old \<Rightarrow> map_option (\<lambda>om. m_imp om = m_imp m) (meths st old))"

fun installMethodInDtable ::
  "nat \<Rightarrow> rt_state \<Rightarrow> nat \<Rightarrow> sa_ptr option \<Rightarrow> nat \<Rightarrow> nat option \<Rightarrow> bool \<Rightarrow> bool \<Rightarrow>
   (rt_state \<times> bool) option" where
  "installMethodInDtable 0 st cls dtable h method_to_replace replaceExisting updateCxxCache = None"
| "installMethodInDtable (Suc fuel) st cls dtable h method_to_replace replaceExisting updateCxxCache =
     (if dtable = Some (uninstalled_dtable st) then None
      else do {
        m \<leftarrow> meths st h;
        oldMethod \<leftarrow> dt_lookup st dtable (sel_index st (m_selector m));
        if replaceExisting \<and> method_to_replace \<noteq> oldMethod then Some (st, False)
        else if \<not> replaceExisting \<and> oldMethod \<noteq> None then Some (st, False)
        else do {
          same \<leftarrow> same_imp st oldMethod m;
          if same then Some (st, False)
          else do {
            s1 \<leftarrow> sparse_array_insert_or_abort st dtable (sel_index st (m_selector m)) (Some h);
            untyped_idx \<leftarrow> get_untyped_idx s1 (m_selector m);
            s2 \<leftarrow> sparse_array_insert_or_abort s1 dtable untyped_idx (Some h);
            s3 \<leftarrow> update_cxx_cache s2 cls m updateCxxCache;
            r \<leftarrow> classes s3 cls;
            s4 \<leftarrow> sibling_loop (class_brk s3)
                    (\<lambda>s subclass. do {
                        has \<leftarrow> classHasDtable s subclass;
                        if \<not> has then Some s
                        else do {
                          d \<leftarrow> dtable_for_class s subclass;
                          (s', _) \<leftarrow> installMethodInDtable fuel s subclass d h oldMethod True False;
                          Some s'
                        }
                      }) s3 (c_subclass_list r);
            Some (if oldMethod \<noteq> None
                  then s4\<lparr>objc_method_cache_version := objc_method_cache_version s4 + 1\<rparr> else s4, True)
          }
        }
      })"

declare installMethodInDtable.simps(2) [simp del]

definition install_method ::
  "rt_state \<Rightarrow> nat \<Rightarrow> sa_ptr option \<Rightarrow> nat \<Rightarrow> nat option \<Rightarrow> bool \<Rightarrow> (rt_state \<times> bool) option" where
  "install_method st cls dtable h method_to_replace replaceExisting =
     installMethodInDtable (Suc (class_brk st)) st cls dtable h method_to_replace replaceExisting True"

text \<open>
  The loops over all entries of a table. \<open>SparseArrayNext\<close> may never return \<open>NULL\<close>, see
  \<open>sarray_next_wraps\<close>; \<open>fuel\<close> bounds the number of entries visited.
\<close>

fun dtable_loop ::
  "nat \<Rightarrow> (rt_state \<Rightarrow> uint32 \<Rightarrow> nat \<Rightarrow> rt_state option) \<Rightarrow> sa_ptr option \<Rightarrow> rt_state \<Rightarrow> uint32 \<Rightarrow>
   rt_state option" where
  "dtable_loop 0 body dtable st idx = None"
| "dtable_loop (Suc fuel) body dtable st idx =
     do {
       (m, idx') \<leftarrow> SparseArrayNext (dtables st) dtable (Some idx);
       (case (m, idx') of
          (Some h, Some i) \<Rightarrow> do { s1 \<leftarrow> body st i h; dtable_loop fuel body dtable s1 i }
        | _ \<Rightarrow> Some st)
     }"

definition installMethodsInClass ::
  "nat \<Rightarrow> rt_state \<Rightarrow> nat \<Rightarrow> sa_ptr option \<Rightarrow> sa_ptr \<Rightarrow> bool \<Rightarrow> rt_state option" where
  "installMethodsInClass fuel st cls methods_to_replace methods replaceExisting =
     do {
       dtable \<leftarrow> dtable_for_class st cls;
       if dtable = Some (uninstalled_dtable st) then None
       else dtable_loop fuel
         (\<lambda>s idx h. do {
            m \<leftarrow> meths s h;
            method_to_replace \<leftarrow>
              (case methods_to_replace of None \<Rightarrow> Some None
               | Some t \<Rightarrow> dt_lookup s (Some t) (sel_index s (m_selector m)));
            (s1, installed) \<leftarrow> install_method s cls dtable h method_to_replace replaceExisting;
            if installed then Some s1 else sparse_array_insert_or_abort s1 (Some methods) idx None
          }) (Some methods) st 0
     }"

section \<open>Updating tables\<close>

text \<open>The table of the superclass, if there is one.\<close>

definition super_dtable_of :: "rt_state \<Rightarrow> nat \<Rightarrow> sa_ptr option option" where
  "super_dtable_of st cls =
     do {
       r \<leftarrow> classes st cls;
       (case c_super_class r of
          None \<Rightarrow> Some None
        | Some (SuperName _) \<Rightarrow> None
        | Some (SuperClass super) \<Rightarrow> dtable_for_class st super)
     }"

definition objc_update_dtable_for_class :: "nat \<Rightarrow> rt_state \<Rightarrow> nat \<Rightarrow> rt_state option" where
  "objc_update_dtable_for_class fuel st cls =
     do {
       has \<leftarrow> classHasDtable st cls;
       if \<not> has then Some st
       else do {
         (s1, methods) \<leftarrow> new_sparse_array_or_abort st (dtable_depth st);
         r \<leftarrow> classes s1 cls;
         s2 \<leftarrow> collectMethodsForMethodListToSparseArray (c_methods r) s1 methods True;
         super_dtable \<leftarrow> super_dtable_of s2 cls;
         s3 \<leftarrow> installMethodsInClass fuel s2 cls super_dtable methods True;
         s4 \<leftarrow> free_dtable s3 (Some methods);
         checkARCAccessors s4 cls
       }
     }"

definition add_method_list_to_class ::
  "nat \<Rightarrow> rt_state \<Rightarrow> nat \<Rightarrow> objc_method_list \<Rightarrow> rt_state option" where
  "add_method_list_to_class fuel st cls l =
     do {
       has \<leftarrow> classHasDtable st cls;
       if \<not> has then Some st
       else do {
         (s1, methods) \<leftarrow> new_sparse_array_or_abort st (dtable_depth st);
         super_dtable \<leftarrow> super_dtable_of s1 cls;
         s2 \<leftarrow> collectMethodsForMethodListToSparseArray [l] s1 methods False;
         s3 \<leftarrow> installMethodsInClass fuel s2 cls super_dtable methods True;
         s4 \<leftarrow> free_dtable s3 (Some methods);
         checkARCAccessors s4 cls
       }
     }"

text \<open>The three loops of \<open>rebaseDtableRecursive\<close>.\<close>

definition collect_own_methods :: "rt_state \<Rightarrow> nat list \<Rightarrow> sa_ptr \<Rightarrow> rt_state option" where
  "collect_own_methods st hs temporaryDtable =
     foldM (\<lambda>s h. do {
         m \<leftarrow> meths s h;
         present \<leftarrow> dt_lookup s (Some temporaryDtable) (sel_index s (m_selector m));
         if present = None
         then sparse_array_insert_or_abort s (Some temporaryDtable) (sel_index s (m_selector m)) (Some h)
         else Some s }) st hs"

definition inherit_entry :: "sa_ptr option \<Rightarrow> sa_ptr \<Rightarrow> rt_state \<Rightarrow> uint32 \<Rightarrow> nat \<Rightarrow> rt_state option" where
  "inherit_entry dtable temporaryDtable s idx h =
     do {
       present \<leftarrow> dt_lookup s (Some temporaryDtable) idx;
       if present = None then
         do { t \<leftarrow> sparse_array_insert_or_abort s dtable idx (Some h);
              sparse_array_insert_or_abort t (Some temporaryDtable) idx (Some h) }
       else Some s
     }"

definition drop_stale_entry :: "sa_ptr option \<Rightarrow> sa_ptr \<Rightarrow> rt_state \<Rightarrow> uint32 \<Rightarrow> nat \<Rightarrow> rt_state option" where
  "drop_stale_entry dtable temporaryDtable s idx h =
     do {
       present \<leftarrow> dt_lookup s (Some temporaryDtable) idx;
       if present = None then sparse_array_insert_or_abort s dtable idx None else Some s
     }"

fun rebaseDtableRecursive :: "nat \<Rightarrow> nat \<Rightarrow> rt_state \<Rightarrow> nat \<Rightarrow> nat \<Rightarrow> rt_state option" where
  "rebaseDtableRecursive entries 0 st cls newSuper = None"
| "rebaseDtableRecursive entries (Suc fuel) st cls newSuper =
     do {
       parentDtable \<leftarrow> dtable_for_class st newSuper;
       (s1, temporaryDtable) \<leftarrow> new_sparse_array_or_abort st (dtable_depth st);
       r \<leftarrow> classes s1 cls;
       s2 \<leftarrow> collect_own_methods s1 (class_methods r) temporaryDtable;
       dtable \<leftarrow> dtable_for_class s2 cls;
       s3 \<leftarrow> dtable_loop entries (inherit_entry dtable temporaryDtable) parentDtable s2 0;
       s4 \<leftarrow> dtable_loop entries (drop_stale_entry dtable temporaryDtable) dtable s3 0;
       s5 \<leftarrow> free_dtable s4 (Some temporaryDtable);
       s6 \<leftarrow> checkARCAccessors s5 cls;
       r6 \<leftarrow> classes s6 cls;
       sibling_loop (class_brk s6)
         (\<lambda>s subclass. do {
            has \<leftarrow> classHasDtable s subclass;
            if \<not> has then Some s else rebaseDtableRecursive entries fuel s subclass cls
          }) s6 (c_subclass_list r6)
     }"

definition objc_update_dtable_for_new_superclass ::
  "nat \<Rightarrow> rt_state \<Rightarrow> nat \<Rightarrow> nat \<Rightarrow> rt_state option" where
  "objc_update_dtable_for_new_superclass entries st cls newSuper =
     do {
       has \<leftarrow> classHasDtable st cls;
       if \<not> has then Some st
       else do {
         s1 \<leftarrow> rebaseDtableRecursive entries (Suc (class_brk st)) st cls newSuper;
         Some (s1\<lparr>objc_method_cache_version := objc_method_cache_version s1 + 1\<rparr>)
       }
     }"

section \<open>Creating tables\<close>

text \<open>The loop that installs the methods of a class over the entries its table starts with.\<close>

definition install_own_method ::
  "nat \<Rightarrow> sa_ptr option \<Rightarrow> sa_ptr \<Rightarrow> rt_state \<Rightarrow> nat \<Rightarrow> rt_state option" where
  "install_own_method cls super_dtable dtable s h =
     do {
       m \<leftarrow> meths s h;
       super_method \<leftarrow>
         (case super_dtable of None \<Rightarrow> Some None
          | Some t \<Rightarrow> dt_lookup s (Some t) (sel_index s (m_selector m)));
       (s1, _) \<leftarrow> install_method s cls (Some dtable) h super_method True;
       Some s1
     }"

text \<open>
  \<open>class_getSuperclass\<close> resolves the class if it is not resolved yet. The superclass must have a
  table, except that the root class of a metaclass may be the class it describes, whose table
  is passed in.
\<close>

definition create_dtable_for_class :: "rt_state \<Rightarrow> nat \<Rightarrow> sa_ptr option \<Rightarrow> (rt_state \<times> sa_ptr option) option" where
  "create_dtable_for_class st cls root_dtable =
     do {
       existing \<leftarrow> dtable_for_class st cls;
       if existing \<noteq> Some (uninstalled_dtable st) then Some (st, existing)
       else do {
         (s1, super) \<leftarrow> class_getSuperclass (class_brk st + 3) st (Some cls);
         (s2, super_dtable, dtable) \<leftarrow>
           (case super of
              None \<Rightarrow> do { (t, d) \<leftarrow> new_sparse_array_or_abort s1 (dtable_depth s1); Some (t, None, d) }
            | Some (SuperName _) \<Rightarrow> None
            | Some (SuperClass parent) \<Rightarrow>
                do {
                  sd0 \<leftarrow> dtable_for_class s1 parent;
                  rs \<leftarrow> classes s1 parent;
                  sd \<leftarrow> (if sd0 = Some (uninstalled_dtable s1)
                         then (if c_isa rs = Some cls then Some root_dtable else None)
                         else Some sd0);
                  (t, d) \<leftarrow> copy_sparse_array_or_abort s1 sd;
                  Some (t, sd, d)
                });
         r \<leftarrow> classes s2 cls;
         s3 \<leftarrow> foldM (install_own_method cls super_dtable dtable) s2 (class_methods r);
         Some (s3, Some dtable)
       }
     }"

definition class_owns_method :: "objc_class \<Rightarrow> nat \<Rightarrow> bool" where
  "class_owns_method r h \<longleftrightarrow> h \<in> set (class_methods r)"

definition refresh_cxx_cache_for_class :: "rt_state \<Rightarrow> nat \<Rightarrow> nat \<Rightarrow> bool \<Rightarrow> rt_state option" where
  "refresh_cxx_cache_for_class st cls h construct =
     do {
       r \<leftarrow> classes st cls;
       if \<not> class_owns_method r h then Some st
       else do {
         m \<leftarrow> meths st h;
         upd_class cls (\<lambda>x. if construct then x\<lparr>c_cxx_construct := m_imp m\<rparr>
                            else x\<lparr>c_cxx_destruct := m_imp m\<rparr>) st
       }
     }"

definition objc_refresh_cxx_method_caches :: "rt_state \<Rightarrow> nat option \<Rightarrow> rt_state option" where
  "objc_refresh_cxx_method_caches st p =
     (case p of
        None \<Rightarrow> Some st
      | Some h \<Rightarrow>
          do {
            m \<leftarrow> meths st h;
            let construct = (sel_name (m_selector m) = ''.cxx_construct'');
            if \<not> construct \<and> sel_name (m_selector m) \<noteq> ''.cxx_destruct'' then Some st
            else foldM (\<lambda>s c. do {
                s1 \<leftarrow> refresh_cxx_cache_for_class s c h construct;
                r \<leftarrow> classes s1 c;
                (case c_isa r of None \<Rightarrow> Some s1
                 | Some meta \<Rightarrow> refresh_cxx_cache_for_class s1 meta h construct) }) st (class_table st)
          })"

section \<open>Growing tables\<close>

definition dtable_capacity :: "nat \<Rightarrow> uint64" where
  "dtable_capacity depth = push_bit depth 1"

function grow_depth :: "nat \<Rightarrow> uint32 \<Rightarrow> nat" where
  "grow_depth depth newSize =
     (if depth < 32 \<and> dtable_capacity depth < ucast newSize then grow_depth (depth + 8) newSize else depth)"
  by auto
termination by (relation "measure (\<lambda>(depth, _). 32 - depth)") auto

declare grow_depth.simps [simp del]

definition dtable_depth_for_size :: "rt_state \<Rightarrow> uint32 \<Rightarrow> nat" where
  "dtable_depth_for_size st newSize = grow_depth (dtable_depth st) newSize"

definition expand_dtable_or_abort :: "nat \<Rightarrow> rt_state \<Rightarrow> sa_ptr option \<Rightarrow> (rt_state \<times> sa_ptr) option" where
  "expand_dtable_or_abort targetDepth st dtable =
     do {
       (h, expanded) \<leftarrow> SparseArrayExpandingArray (dtables st) dtable targetDepth;
       p \<leftarrow> expanded;
       Some (st\<lparr>dtables := h\<rparr>, p)
     }"

definition expand_temporary :: "nat \<Rightarrow> rt_state \<Rightarrow> nat \<Rightarrow> rt_state option" where
  "expand_temporary targetDepth st i =
     do {
       (s1, p) \<leftarrow> expand_dtable_or_abort targetDepth st (Some (snd (temporary_dtables st ! i)));
       Some (s1\<lparr>temporary_dtables :=
              (temporary_dtables s1)[i := (fst (temporary_dtables s1 ! i), p)]\<rparr>)
     }"

definition resize_class :: "nat \<Rightarrow> nat \<Rightarrow> sa_ptr \<Rightarrow> rt_state \<Rightarrow> nat \<Rightarrow> rt_state option" where
  "resize_class targetDepth oldShift old_uninstalled st c =
     do {
       r \<leftarrow> classes st c;
       if c_dtable r = Some old_uninstalled then
         do { t \<leftarrow> upd_class c (\<lambda>x. x\<lparr>c_dtable := Some (uninstalled_dtable st)\<rparr>) st;
              upd_class_opt (c_isa r) (\<lambda>x. x\<lparr>c_dtable := Some (uninstalled_dtable st)\<rparr>) t }
       else case c_dtable r of
         None \<Rightarrow> Some st
       | Some d \<Rightarrow>
           do {
             n \<leftarrow> sa_deref (dtables st) d;
             if sa_shift n \<noteq> oldShift then Some st
             else do {
               (s1, p) \<leftarrow> expand_dtable_or_abort targetDepth st (Some d);
               s2 \<leftarrow> upd_class c (\<lambda>x. x\<lparr>c_dtable := Some p\<rparr>) s1;
               rm \<leftarrow> deref_class s2 (c_isa r);
               (s3, q) \<leftarrow> expand_dtable_or_abort targetDepth s2 (c_dtable rm);
               upd_class_opt (c_isa r) (\<lambda>x. x\<lparr>c_dtable := Some q\<rparr>) s3
             }
           }
     }"

definition objc_resize_dtables :: "rt_state \<Rightarrow> uint32 \<Rightarrow> rt_state option" where
  "objc_resize_dtables st newSize =
     (if ucast newSize \<le> dtable_capacity (dtable_depth st) then Some st
      else do {
        let targetDepth = dtable_depth_for_size st newSize;
        un \<leftarrow> sa_deref (dtables st) (uninstalled_dtable st);
        (s1, p) \<leftarrow> expand_dtable_or_abort targetDepth st (Some (uninstalled_dtable st));
        let s2 = s1\<lparr>uninstalled_dtable := p\<rparr>;
        s3 \<leftarrow> foldM (expand_temporary targetDepth) s2 [0..<length (temporary_dtables s2)];
        s4 \<leftarrow> foldM (resize_class targetDepth (sa_shift un) (uninstalled_dtable st)) s3 (class_table s3);
        Some (s4\<lparr>dtable_depth := targetDepth\<rparr>)
      })"

section \<open>Initialisation of classes\<close>

definition receiver_class :: "rt_state \<Rightarrow> receiver \<Rightarrow> nat option option" where
  "receiver_class st object =
     (case object of
        ClassObject c \<Rightarrow> map_option c_isa (classes st c)
      | Instance x \<Rightarrow> classForObject (object_isa st) st x)"

text \<open>
  The look-aside entries of a class and its metaclass are adjacent, the metaclass first; an
  owner has at most one entry, because a class is initialised once.
\<close>

definition remove_dtable :: "rt_state \<Rightarrow> nat \<Rightarrow> rt_state option" where
  "remove_dtable st meta =
     (case dropWhile (\<lambda>b. fst b \<noteq> meta) (temporary_dtables st) of
        (meta_owner, meta_dtable) # (owner, dtable) # rest \<Rightarrow>
          do {
            s1 \<leftarrow> upd_class meta_owner (\<lambda>x. x\<lparr>c_dtable := Some meta_dtable\<rparr>) st;
            s2 \<leftarrow> upd_class owner (\<lambda>x. x\<lparr>c_dtable := Some dtable\<rparr>) s1;
            Some (s2\<lparr>temporary_dtables :=
                   takeWhile (\<lambda>b. fst b \<noteq> meta) (temporary_dtables st) @ rest\<rparr>)
          }
      | _ \<Rightarrow> None)"

text \<open>
  The part of \<open>objc_send_initialize\<close> that runs once per class. \<open>run\<close> is what the body of a
  \<open>+initialize\<close> method does to the state of the runtime, whose call is recorded.
\<close>

definition initialize_class ::
  "(rt_state \<Rightarrow> nat \<Rightarrow> uintptr_t \<Rightarrow> rt_state option) \<Rightarrow> rt_state \<Rightarrow> nat \<Rightarrow> nat \<Rightarrow> rt_state option" where
  "initialize_class run st cls meta =
     do {
       rm \<leftarrow> classes st meta;
       let skipMeta = objc_test_class_flag rm objc_class_flag_initialized;
       s1 \<leftarrow> (if skipMeta then Some st
              else upd_class meta (\<lambda>x. objc_set_class_flag x objc_class_flag_permanent_instances) st);
       s2 \<leftarrow> upd_class cls (\<lambda>x. objc_set_class_flag x objc_class_flag_initialized) s1;
       s3 \<leftarrow> upd_class meta (\<lambda>x. objc_set_class_flag x objc_class_flag_initialized) s2;
       (s4, class_dtable) \<leftarrow> create_dtable_for_class s3 cls (Some (uninstalled_dtable s3));
       (s5, dtable) \<leftarrow> (if skipMeta then Some (s4, None) else create_dtable_for_class s4 meta class_dtable);
       initializeSel \<leftarrow> objc2_get_or_register_selector s5 ''initialize'';
       initializeSlot \<leftarrow> (if skipMeta then Some None else dt_lookup s5 dtable (sel_index s5 initializeSel));
       (case initializeSlot of
          None \<Rightarrow>
            do {
              s6 \<leftarrow> (if skipMeta then Some s5 else upd_class meta (\<lambda>x. x\<lparr>c_dtable := dtable\<rparr>) s5);
              s7 \<leftarrow> upd_class cls (\<lambda>x. x\<lparr>c_dtable := class_dtable\<rparr>) s6;
              checkARCAccessors s7 cls
            }
        | Some h \<Rightarrow>
            do {
              d \<leftarrow> class_dtable;
              dm \<leftarrow> dtable;
              let s6 = s5\<lparr>temporary_dtables := (meta, dm) # (cls, d) # temporary_dtables s5\<rparr>;
              s7 \<leftarrow> checkARCAccessors s6 cls;
              m \<leftarrow> meths s7 h;
              s8 \<leftarrow> run (s7\<lparr>initialize_calls := initialize_calls s7 @ [(cls, m_imp m)]\<rparr>) cls (m_imp m);
              remove_dtable s8 meta
            })
     }"

text \<open>The superclass is initialised first; its \<open>+initialize\<close> may have initialised the class.\<close>

fun objc_send_initialize ::
  "(rt_state \<Rightarrow> nat \<Rightarrow> uintptr_t \<Rightarrow> rt_state option) \<Rightarrow> nat \<Rightarrow> rt_state \<Rightarrow> receiver \<Rightarrow> rt_state option" where
  "objc_send_initialize run 0 st object = None"
| "objc_send_initialize run (Suc fuel) st object =
     do {
       isa \<leftarrow> receiver_class st object;
       c0 \<leftarrow> isa;
       r0 \<leftarrow> classes st c0;
       cls \<leftarrow> (if objc_test_class_flag r0 objc_class_flag_meta
               then (case object of ClassObject c \<Rightarrow> Some c | Instance _ \<Rightarrow> None) else Some c0);
       r \<leftarrow> classes st cls;
       meta \<leftarrow> c_isa r;
       (s1, _) \<leftarrow> objc_resolve_class (class_brk st + 3) st cls;
       r1 \<leftarrow> classes s1 cls;
       s2 \<leftarrow> (case c_super_class r1 of
                None \<Rightarrow> Some s1
              | Some (SuperName _) \<Rightarrow> None
              | Some (SuperClass s) \<Rightarrow> objc_send_initialize run fuel s1 (ClassObject s));
       r2 \<leftarrow> classes s2 cls;
       if objc_test_class_flag r2 objc_class_flag_initialized then
         do { d \<leftarrow> dtable_for_class s2 cls; if d = Some (uninstalled_dtable s2) then None else Some s2 }
       else initialize_class run s2 cls meta
     }"

end
