(* ===== verification/Objc_Message.thy ===== *)
theory Objc_Message
  imports Objc_Dispatch
begin

text \<open>
  Message lookup, \<open>src/dispatch/sendmsg2.c\<close>: from a receiver and a selector to the method to call,
  with initialisation of classes on first use, selectors of mismatching types, proxies,
  forwarding, messages to \<open>nil\<close> and the legacy slots. A receiver of \<open>None\<close> is \<open>nil\<close>. The hooks
  are the global variables of the file; \<open>run\<close> is the effect of \<open>+initialize\<close> methods. The fuel
  bounds the number of proxies a message passes through.
\<close>

section \<open>Messages to nil\<close>

definition is_type_qualifier :: "char \<Rightarrow> bool" where
  "is_type_qualifier c \<longleftrightarrow> c \<in> set ''rnNoORVA''"

text \<open>The kind of zero to return: the first character of the types after the qualifiers.\<close>

definition nil_kind_for :: "string option \<Rightarrow> nil_kind" where
  "nil_kind_for types =
     (case types of
        None \<Rightarrow> NilInteger
      | Some t \<Rightarrow>
          (case dropWhile is_type_qualifier t of
             [] \<Rightarrow> NilInteger
           | c # _ \<Rightarrow>
               if c = CHR ''D'' then NilLongDouble
               else if c = CHR ''d'' then NilDouble
               else if c = CHR ''f'' then NilFloat
               else NilInteger))"

section \<open>Lookup\<close>

text \<open>What is found under the untyped variant of the selector goes through the mismatch hook.\<close>

definition lookup_untyped ::
  "rt_state \<Rightarrow> nat \<Rightarrow> sa_ptr option \<Rightarrow> selector \<Rightarrow> (rt_state \<times> slot option) option" where
  "lookup_untyped st cls dtable selector =
     do {
       u \<leftarrow> get_untyped_idx st selector;
       untyped \<leftarrow> dt_lookup st dtable u;
       (case untyped of
          None \<Rightarrow> Some (st, None)
        | Some m \<Rightarrow>
            do {
              imp \<leftarrow> call_mismatch_hook st cls selector m;
              Some (st\<lparr>uncacheable_imp := imp\<rparr>, Some UncacheableSlot)
            })
     }"

text \<open>
  The result has the receiver, which a proxy may have replaced, and the value stored through
  the \<open>version\<close> argument. A lookup through a proxy does not pass that argument on.
\<close>

fun objc_msg_lookup_internal ::
  "(rt_state \<Rightarrow> nat \<Rightarrow> uintptr_t \<Rightarrow> rt_state option) \<Rightarrow> nat \<Rightarrow> rt_state \<Rightarrow> receiver \<Rightarrow> selector \<Rightarrow>
   (rt_state \<times> receiver \<times> slot \<times> uint64) option" where
  "objc_msg_lookup_internal run 0 st rcv selector = None"
| "objc_msg_lookup_internal run (Suc fuel) st rcv selector =
     do {
       isa \<leftarrow> receiver_class st rcv;
       cls \<leftarrow> isa;
       r \<leftarrow> classes st cls;
       result \<leftarrow> dt_lookup st (c_dtable r) (sel_index st selector);
       (case result of
          Some m \<Rightarrow> Some (st, rcv, MethodSlot m, objc_method_cache_version st)
        | None \<Rightarrow>
            do {
              dtable0 \<leftarrow> dtable_for_class st cls;
              (s1, dtable) \<leftarrow>
                (if dtable0 = Some (uninstalled_dtable st) then
                   do { t \<leftarrow> objc_send_initialize run (Suc (class_brk st)) st rcv;
                        d \<leftarrow> dtable_for_class t cls;
                        Some (t, d) }
                 else Some (st, dtable0));
              again \<leftarrow> dt_lookup s1 dtable (sel_index s1 selector);
              (case again of
                 Some m \<Rightarrow> Some (s1, rcv, MethodSlot m, objc_method_cache_version st)
               | None \<Rightarrow>
                   do {
                     (s2, found) \<leftarrow> lookup_untyped s1 cls dtable selector;
                     let version = (if found = None then objc_method_cache_version st else 0);
                     (case proxy_lookup s2 rcv selector of
                        Some newReceiver \<Rightarrow>
                          do {
                            (s3, rcv', slot, _) \<leftarrow> objc_msg_lookup_internal run fuel s2 newReceiver selector;
                            Some (s3, rcv', slot, version)
                          }
                      | None \<Rightarrow>
                          (case found of
                             Some slot \<Rightarrow> Some (s2, rcv, slot, 0)
                           | None \<Rightarrow> Some (s2\<lparr>uncacheable_imp := msg_forward2 s2 (Some rcv) selector\<rparr>, rcv,
                                            UncacheableSlot, 0)))
                   })
            })
     }"

definition slowMsgLookup where
  "slowMsgLookup run fuel st rcv cmd =
     do {
       (s1, rcv', slot, _) \<leftarrow> objc_msg_lookup_internal run fuel st rcv cmd;
       imp \<leftarrow> slot_method s1 slot;
       Some (s1, rcv', imp)
     }"

definition objc_slot_lookup_version where
  "objc_slot_lookup_version run fuel st rcv selector =
     (case rcv of
        None \<Rightarrow> Some (st, None, NilSlot (nil_kind_for (sel_type selector)), 0)
      | Some x \<Rightarrow> map_option (\<lambda>(s1, y, slot, v). (s1, Some y, slot, v))
                    (objc_msg_lookup_internal run fuel st x selector))"

definition objc_slot_lookup where
  "objc_slot_lookup run fuel st rcv selector =
     (case rcv of
        None \<Rightarrow> Some (st, None, NilSlot (nil_kind_for (sel_type selector)))
      | Some x \<Rightarrow> map_option (\<lambda>(s1, y, slot, _). (s1, Some y, slot))
                    (objc_msg_lookup_internal run fuel st x selector))"

definition objc_msg_lookup2 where
  "objc_msg_lookup2 run fuel st rcv selector =
     do {
       (s1, rcv', slot) \<leftarrow> objc_slot_lookup run fuel st rcv selector;
       imp \<leftarrow> slot_method s1 slot;
       Some (s1, rcv', imp)
     }"

text \<open>A receiver that a proxy has replaced falls back to forwarding for the original one.\<close>

definition objc_msg_lookup where
  "objc_msg_lookup run fuel st rcv selector =
     (case rcv of
        None \<Rightarrow> Some (st, nil_imp st NilInteger)
      | Some x \<Rightarrow>
          do {
            (s1, self, slot, _) \<leftarrow> objc_msg_lookup_internal run fuel st x selector;
            imp \<leftarrow> slot_method s1 slot;
            Some (s1, if self \<noteq> x then msg_forward2 s1 (Some x) selector else imp)
          })"

section \<open>Legacy slots\<close>

datatype slot_v1 = NilSlotV1 nil_kind | UncacheableSlotV1

text \<open>The types in a legacy slot are those of the selector of the method found, if it is a method.\<close>

definition slot_types :: "rt_state \<Rightarrow> slot \<Rightarrow> string option option" where
  "slot_types st slot =
     (case slot of
        MethodSlot m \<Rightarrow> map_option (\<lambda>x. sel_type (m_selector x)) (meths st m)
      | UncacheableSlot \<Rightarrow> Some None
      | NilSlot _ \<Rightarrow> Some None)"

definition fill_slot_v1 :: "rt_state \<Rightarrow> string option \<Rightarrow> selector \<Rightarrow> uintptr_t \<Rightarrow> rt_state" where
  "fill_slot_v1 st types selector imp =
     st\<lparr>uncacheable_slot_v1 := (uncacheable_slot_v1 st)
         \<lparr>os_owner := None, os_types := types, os_selector := Some selector, os_method := imp\<rparr>\<rparr>"

definition objc_msg_lookup_sender where
  "objc_msg_lookup_sender run fuel st rcv selector =
     (case rcv of
        None \<Rightarrow> Some (st, None, NilSlotV1 (nil_kind_for (sel_type selector)))
      | Some x \<Rightarrow>
          do {
            (s1, y, slot, _) \<leftarrow> objc_msg_lookup_internal run fuel st x selector;
            types \<leftarrow> slot_types s1 slot;
            imp \<leftarrow> slot_method s1 slot;
            Some (fill_slot_v1 s1 types selector imp, Some y, UncacheableSlotV1)
          })"

definition objc_get_slot :: "rt_state \<Rightarrow> nat \<Rightarrow> selector \<Rightarrow> (rt_state \<times> slot_v1 option) option" where
  "objc_get_slot st cls selector =
     do {
       (s1, result, _) \<leftarrow> objc_get_slot2 st cls selector;
       (case result of
          None \<Rightarrow> Some (s1, None)
        | Some slot \<Rightarrow>
            do {
              types \<leftarrow> slot_types s1 slot;
              imp \<leftarrow> slot_method s1 slot;
              Some (fill_slot_v1 s1 types selector imp, Some UncacheableSlotV1)
            })
     }"

section \<open>Messages to super\<close>

text \<open>
  \<open>super\<close> is the receiver and the class to start from. When nothing is found and the class of the
  receiver has no table yet, it is initialised and the lookup starts again.
\<close>

definition initialize_for_super where
  "initialize_for_super run st rcv cls =
     do {
       meta \<leftarrow> class_isMetaClass st (Some cls);
       t \<leftarrow> objc_send_initialize run (Suc (class_brk st)) st (if meta then rcv else ClassObject cls);
       objc_send_initialize run (Suc (class_brk t)) t (ClassObject cls)
     }"

fun super_lookup ::
  "(rt_state \<Rightarrow> nat \<Rightarrow> uintptr_t \<Rightarrow> rt_state option) \<Rightarrow> nat \<Rightarrow> rt_state \<Rightarrow> receiver \<Rightarrow> nat \<Rightarrow> selector \<Rightarrow>
   (rt_state \<times> nat option) option" where
  "super_lookup run 0 st rcv super_cls selector = None"
| "super_lookup run (Suc fuel) st rcv super_cls selector =
     do {
       d \<leftarrow> dtable_for_class st super_cls;
       result \<leftarrow> dt_lookup st d (sel_index st selector);
       (case result of
          Some m \<Rightarrow> Some (st, Some m)
        | None \<Rightarrow>
            do {
              isa \<leftarrow> receiver_class st rcv;
              cls \<leftarrow> isa;
              dc \<leftarrow> dtable_for_class st cls;
              if dc = Some (uninstalled_dtable st) then
                do { s1 \<leftarrow> initialize_for_super run st rcv cls;
                     super_lookup run fuel s1 rcv super_cls selector }
              else Some (st, None)
            })
     }"

definition objc_slot_lookup_super2 where
  "objc_slot_lookup_super2 run fuel st rcv super_cls selector =
     (case rcv of
        None \<Rightarrow> Some (st, NilSlot NilInteger)
      | Some x \<Rightarrow>
          do {
            (s1, result) \<leftarrow> super_lookup run fuel st x super_cls selector;
            Some (case result of
                Some m \<Rightarrow> (s1, MethodSlot m)
              | None \<Rightarrow> (s1\<lparr>uncacheable_imp := msg_forward2 s1 (Some x) selector\<rparr>, UncacheableSlot))
          })"

definition objc_slot_lookup_super where
  "objc_slot_lookup_super run fuel st rcv super_cls selector =
     (case rcv of
        None \<Rightarrow> Some (st, NilSlotV1 NilInteger)
      | Some x \<Rightarrow>
          do {
            (s1, result) \<leftarrow> super_lookup run fuel st x super_cls selector;
            (case result of
               Some m \<Rightarrow>
                 do { types \<leftarrow> slot_types s1 (MethodSlot m);
                      imp \<leftarrow> slot_method s1 (MethodSlot m);
                      Some (fill_slot_v1 s1 types selector imp, UncacheableSlotV1) }
             | None \<Rightarrow>
                 Some (fill_slot_v1 s1 (sel_type selector) selector (msg_forward2 s1 (Some x) selector),
                       UncacheableSlotV1))
          })"

definition objc_msg_lookup_super where
  "objc_msg_lookup_super run fuel st rcv super_cls selector =
     do {
       (s1, slot) \<leftarrow> objc_slot_lookup_super2 run fuel st rcv super_cls selector;
       imp \<leftarrow> slot_method s1 slot;
       Some (s1, imp)
     }"

section \<open>Public queries\<close>

definition class_respondsToSelector :: "rt_state \<Rightarrow> nat option \<Rightarrow> selector option \<Rightarrow> (rt_state \<times> bool) option" where
  "class_respondsToSelector st cls selector =
     (case (cls, selector) of
        (Some c, Some s) \<Rightarrow> map_option (\<lambda>(s1, slot, _). (s1, slot \<noteq> None)) (objc_get_slot2 st c s)
      | _ \<Rightarrow> Some (st, False))"

definition class_getMethodImplementation ::
  "rt_state \<Rightarrow> nat option \<Rightarrow> selector option \<Rightarrow> (rt_state \<times> uintptr_t) option" where
  "class_getMethodImplementation st cls name =
     (case (cls, name) of
        (Some c, Some s) \<Rightarrow>
          do {
            (s1, slot, _) \<leftarrow> objc_get_slot2 st c s;
            imp \<leftarrow> (case slot of Some sl \<Rightarrow> slot_method s1 sl | None \<Rightarrow> Some (msg_forward2 s1 None s));
            Some (s1, imp)
          }
      | _ \<Rightarrow> Some (st, 0))"

definition class_getMethodImplementation_stret ::
  "rt_state \<Rightarrow> nat option \<Rightarrow> selector option \<Rightarrow> (rt_state \<times> uintptr_t) option" where
  "class_getMethodImplementation_stret = class_getMethodImplementation"

definition objc_responds_to :: "rt_state \<Rightarrow> receiver \<Rightarrow> selector option \<Rightarrow> (rt_state \<times> bool) option" where
  "objc_responds_to st object sel =
     do { c \<leftarrow> receiver_class st object; class_respondsToSelector st c sel }"

definition get_imp :: "rt_state \<Rightarrow> nat option \<Rightarrow> selector option \<Rightarrow> (rt_state \<times> uintptr_t) option" where
  "get_imp = class_getMethodImplementation"

end
