(* ===== verification/Objc_Dispatch_Install.thy ===== *)
theory Objc_Dispatch_Install
  imports Objc_Dispatch Objc_Sparse_Array_Store
begin

text \<open>
  Installing a method: which entries of which dispatch tables \<open>installMethodInDtable\<close> changes. The
  tables of all classes live in one store of sparse arrays; \<open>T k\<close> is the root of the table of
  class \<open>k\<close>, for the classes \<open>K\<close> that have one.
\<close>

section \<open>What updates of dispatch tables leave alone\<close>

definition strip_cxx :: "objc_class \<Rightarrow> objc_class" where
  "strip_cxx r = r\<lparr>c_cxx_construct := 0, c_cxx_destruct := 0\<rparr>"

definition dt_blank :: "rt_state \<Rightarrow> rt_state" where
  "dt_blank st = st\<lparr>classes := (\<lambda>_. None), dtables := sa_empty_heap (\<lambda>_. False),
                    objc_method_cache_version := 0\<rparr>"

text \<open>\<open>st'\<close> differs from \<open>st\<close> only in tables, cached C++ methods and the cache version.\<close>

definition dt_frame :: "rt_state \<Rightarrow> rt_state \<Rightarrow> bool" where
  "dt_frame st st' \<longleftrightarrow> dt_blank st' = dt_blank st \<and>
     (\<forall>k. map_option strip_cxx (classes st' k) = map_option strip_cxx (classes st k))"

lemma dt_frame_refl [simp, intro]: "dt_frame st st"
  by (simp add: dt_frame_def)

lemma dt_frame_trans: "dt_frame st s1 \<Longrightarrow> dt_frame s1 s2 \<Longrightarrow> dt_frame st s2"
  by (simp add: dt_frame_def)

lemma dt_frame_dtables [simp]: "dt_frame st (s1\<lparr>dtables := h\<rparr>) = dt_frame st s1"
  by (simp add: dt_frame_def dt_blank_def)

lemma dt_frame_version [simp]: "dt_frame st (s1\<lparr>objc_method_cache_version := v\<rparr>) = dt_frame st s1"
  by (simp add: dt_frame_def dt_blank_def)

lemma dt_frame_fields:
  assumes "dt_frame st st'"
  shows "meths st' = meths st" "sel_index st' = sel_index st" "register_selector st' = register_selector st"
    "uninstalled_dtable st' = uninstalled_dtable st" "temporary_dtables st' = temporary_dtables st"
    "class_brk st' = class_brk st" "dtable_depth st' = dtable_depth st" "class_table st' = class_table st"
proof -
  have eq: "dt_blank st' = dt_blank st" using assms by (simp add: dt_frame_def)
  show "meths st' = meths st" using arg_cong [OF eq, of meths] by (simp add: dt_blank_def)
  show "sel_index st' = sel_index st" using arg_cong [OF eq, of sel_index] by (simp add: dt_blank_def)
  show "register_selector st' = register_selector st"
    using arg_cong [OF eq, of register_selector] by (simp add: dt_blank_def)
  show "uninstalled_dtable st' = uninstalled_dtable st"
    using arg_cong [OF eq, of uninstalled_dtable] by (simp add: dt_blank_def)
  show "temporary_dtables st' = temporary_dtables st"
    using arg_cong [OF eq, of temporary_dtables] by (simp add: dt_blank_def)
  show "class_brk st' = class_brk st" using arg_cong [OF eq, of class_brk] by (simp add: dt_blank_def)
  show "dtable_depth st' = dtable_depth st"
    using arg_cong [OF eq, of dtable_depth] by (simp add: dt_blank_def)
  show "class_table st' = class_table st" using arg_cong [OF eq, of class_table] by (simp add: dt_blank_def)
qed

lemma strip_cxx_fields:
  "c_isa (strip_cxx r) = c_isa r" "c_super_class (strip_cxx r) = c_super_class r"
  "c_dtable (strip_cxx r) = c_dtable r" "c_subclass_list (strip_cxx r) = c_subclass_list r"
  "c_sibling_class (strip_cxx r) = c_sibling_class r" "c_methods (strip_cxx r) = c_methods r"
  "c_info (strip_cxx r) = c_info r"
  by (simp_all add: strip_cxx_def)

lemma dt_frame_class:
  assumes "dt_frame st st'" "classes st k = Some r"
  obtains r' where "classes st' k = Some r'" "c_subclass_list r' = c_subclass_list r"
    "c_sibling_class r' = c_sibling_class r" "c_dtable r' = c_dtable r" "c_methods r' = c_methods r"
    "c_super_class r' = c_super_class r" "c_isa r' = c_isa r"
proof -
  have "map_option strip_cxx (classes st' k) = Some (strip_cxx r)"
    using assms unfolding dt_frame_def by simp
  then obtain r' where r': "classes st' k = Some r'" "strip_cxx r' = strip_cxx r" by auto
  note eq = arg_cong [OF r'(2)]
  show ?thesis
    by (rule that [OF r'(1)])
      (use eq [of c_subclass_list] eq [of c_sibling_class] eq [of c_dtable] eq [of c_methods]
        eq [of c_super_class] eq [of c_isa] in \<open>simp_all add: strip_cxx_fields\<close>)
qed

lemma dt_frame_class_none: "dt_frame st st' \<Longrightarrow> classes st' k = None \<longleftrightarrow> classes st k = None"
  unfolding dt_frame_def by (metis option.map_disc_iff)

lemma dt_frame_dtable_for_class:
  assumes "dt_frame st st'"
  shows "dtable_for_class st' k = dtable_for_class st k"
proof (cases "classes st k")
  case None
  then show ?thesis using dt_frame_class_none [OF assms, of k] by (simp add: dtable_for_class_def)
next
  case (Some r)
  then obtain r' where "classes st' k = Some r'" "c_dtable r' = c_dtable r"
    using dt_frame_class [OF assms Some] by metis
  then show ?thesis using Some
    by (simp add: dtable_for_class_def classHasInstalledDtable_def dt_frame_fields(4,5) [OF assms]
        split: option.split)
qed

lemma dt_frame_classHasDtable: "dt_frame st st' \<Longrightarrow> classHasDtable st' k = classHasDtable st k"
  by (simp add: classHasDtable_def dt_frame_dtable_for_class dt_frame_fields)

lemma dt_frame_upd_cxx:
  assumes "\<And>r. strip_cxx (f r) = strip_cxx r" "upd_class c f s1 = Some s2"
  shows "dt_frame s1 s2 \<and> dtables s2 = dtables s1 \<and>
    objc_method_cache_version s2 = objc_method_cache_version s1"
  using assms by (auto simp: upd_class_def dt_frame_def dt_blank_def split: option.splits)

section \<open>Lists of subclasses\<close>

fun sib_list :: "rt_state \<Rightarrow> nat option \<Rightarrow> nat list \<Rightarrow> bool" where
  "sib_list st p [] \<longleftrightarrow> p = None"
| "sib_list st p (y # ys) \<longleftrightarrow>
     p = Some y \<and> (\<exists>r. classes st y = Some r \<and> sib_list st (c_sibling_class r) ys)"

definition subclass_of :: "rt_state \<Rightarrow> nat \<Rightarrow> nat \<Rightarrow> bool" where
  "subclass_of st c y \<longleftrightarrow>
     (\<exists>r ys. classes st c = Some r \<and> sib_list st (c_subclass_list r) ys \<and> y \<in> set ys)"

lemma sib_list_unique: "sib_list st p ys \<Longrightarrow> sib_list st p zs \<Longrightarrow> ys = zs"
proof (induction ys arbitrary: p zs)
  case Nil
  then show ?case by (cases zs) auto
next
  case (Cons y ys)
  then show ?case by (cases zs) auto
qed

lemma dt_frame_sib_list: "dt_frame st st' \<Longrightarrow> sib_list st p ys \<Longrightarrow> sib_list st' p ys"
proof (induction ys arbitrary: p)
  case (Cons y ys)
  then obtain r where r: "p = Some y" "classes st y = Some r" "sib_list st (c_sibling_class r) ys" by auto
  obtain r' where "classes st' y = Some r'" "c_sibling_class r' = c_sibling_class r"
    using dt_frame_class [OF Cons.prems(1) r(2)] by metis
  with Cons.IH [OF Cons.prems(1) r(3)] r(1) show ?case by simp
qed simp

lemma dt_frame_sym: "dt_frame st st' \<Longrightarrow> dt_frame st' st"
  by (simp add: dt_frame_def)

lemma dt_frame_subclass_of: "dt_frame st st' \<Longrightarrow> subclass_of st' c y \<longleftrightarrow> subclass_of st c y"
proof -
  have "subclass_of st' c y" if f: "dt_frame st st'" and sub: "subclass_of st c y" for st st'
  proof -
    from sub obtain r ys where r: "classes st c = Some r" "sib_list st (c_subclass_list r) ys" "y \<in> set ys"
      by (auto simp: subclass_of_def)
    obtain r' where "classes st' c = Some r'" "c_subclass_list r' = c_subclass_list r"
      using dt_frame_class [OF f r(1)] by metis
    with dt_frame_sib_list [OF f r(2)] r(3) show ?thesis by (auto simp: subclass_of_def)
  qed
  then show "dt_frame st st' \<Longrightarrow> subclass_of st' c y \<longleftrightarrow> subclass_of st c y"
    using dt_frame_sym by blast
qed

text \<open>A loop along a list of subclasses whose body keeps the frame is a fold.\<close>

lemma sibling_loop_foldM:
  assumes "sib_list st p ys" "length ys \<le> n" "dt_frame st s"
    and body: "\<And>s1 s2 y. dt_frame st s1 \<Longrightarrow> y \<in> set ys \<Longrightarrow> body s1 y = Some s2 \<Longrightarrow> dt_frame s1 s2"
  shows "sibling_loop n body s p = foldM body s ys"
  using assms
proof (induction ys arbitrary: n p s)
  case (Cons y ys)
  then obtain r m where r: "p = Some y" "classes st y = Some r" "sib_list st (c_sibling_class r) ys"
    and n: "n = Suc m" "length ys \<le> m" by (cases n) auto
  show ?case
  proof (cases "body s y")
    case (Some s1)
    have f: "dt_frame st s1" using dt_frame_trans Cons.prems(3) Cons.prems(4) [OF Cons.prems(3) _ Some]
      by (meson list.set_intros(1))
    obtain r' where "classes s1 y = Some r'" "c_sibling_class r' = c_sibling_class r"
      using dt_frame_class [OF f r(2)] by metis
    moreover have "sibling_loop m body s1 (c_sibling_class r) = foldM body s1 ys"
      using Cons.IH [OF r(3) n(2) f] Cons.prems(4) by (meson list.set_intros(2))
    ultimately show ?thesis using Some r(1) n(1) by simp
  qed (simp add: r n)
qed simp

section \<open>Insertion into a table\<close>

lemma rt_insert:
  assumes "sa_store (dtables st) own (Suc N)" "sa_reliable (dtables st)" "own a = Some d"
  obtains h' where "sparse_array_insert_or_abort st (Some (Node a)) i v = Some (st\<lparr>dtables := h'\<rparr>)"
    "sa_store h' own N" "sa_reliable h'"
    "\<And>b e j. own b = Some e \<Longrightarrow> sa_lookup h' b j =
       (if b = a \<and> same_slot d i j then Some v else sa_lookup (dtables st) b j)"
proof -
  from sarray.insert_law [OF assms(1,3), of i v] assms(2) obtain h' where
    h': "sa_insert (dtables st) a i v = Some (h', True)" "sa_store h' own N" "sa_reliable h'"
      "\<And>b e j. own b = Some e \<Longrightarrow> sa_lookup h' b j =
         (if b = a \<and> same_slot d i j then Some v else sa_lookup (dtables st) b j)" by auto
  then show ?thesis using that [of h']
    by (simp add: sparse_array_insert_or_abort_def sa_insert_def del: SparseArrayInsert.simps)
qed

lemma store_mono: "sa_store h own N \<Longrightarrow> M \<le> N \<Longrightarrow> sa_store h own M"
  by (rule store_cong) simp_all

section \<open>The parameters of an installation\<close>

text \<open>
  The classes with tables, the roots of the tables, the owners of the store's arrays, the depth
  of the tables, the index of the method's selector and of its untyped variant, the method.
\<close>

record install_env =
  ie_classes :: "nat set"
  ie_table :: "nat \<Rightarrow> nat"
  ie_own :: "nat \<rightharpoonup> nat"
  ie_depth :: nat
  ie_typed :: uint32
  ie_untyped :: uint32
  ie_method :: nat

definition entry_at :: "install_env \<Rightarrow> rt_state \<Rightarrow> nat \<Rightarrow> nat option option" where
  "entry_at E st k = sa_lookup (dtables st) (ie_table E k) (ie_typed E)"

definition pending :: "install_env \<Rightarrow> rt_state \<Rightarrow> nat set" where
  "pending E st = {k \<in> ie_classes E. entry_at E st k \<noteq> Some (Some (ie_method E))}"

text \<open>Every class with a table has a finite list of subclasses, each with its table or without one.\<close>

definition dt_world :: "install_env \<Rightarrow> rt_state \<Rightarrow> bool" where
  "dt_world E st \<longleftrightarrow>
     finite (ie_classes E) \<and> inj_on (ie_table E) (ie_classes E) \<and>
     (\<forall>k \<in> ie_classes E. ie_own E (ie_table E k) = Some (ie_depth E) \<and>
        Node (ie_table E k) \<noteq> uninstalled_dtable st \<and>
        (\<exists>r ys. classes st k = Some r \<and> sib_list st (c_subclass_list r) ys \<and> length ys \<le> class_brk st \<and>
           (\<forall>y \<in> set ys. dtable_for_class st y =
              Some (Some (if y \<in> ie_classes E then Node (ie_table E y) else uninstalled_dtable st)))))"

text \<open>The method and the selectors the code needs are registered.\<close>

definition method_ready :: "install_env \<Rightarrow> rt_state \<Rightarrow> objc_method \<Rightarrow> bool" where
  "method_ready E st m \<longleftrightarrow>
     meths st (ie_method E) = Some m \<and> sel_index st (m_selector m) = ie_typed E \<and>
     get_untyped_idx st (m_selector m) = Some (ie_untyped E) \<and>
     register_selector st ''.cxx_construct'' None \<noteq> None \<and>
     register_selector st ''.cxx_destruct'' None \<noteq> None \<and>
     (\<forall>k \<in> ie_classes E. \<forall>x. entry_at E st k = Some (Some x) \<longrightarrow> meths st x \<noteq> None)"

definition store_ready :: "install_env \<Rightarrow> rt_state \<Rightarrow> nat \<Rightarrow> bool" where
  "store_ready E st N \<longleftrightarrow> sa_store (dtables st) (ie_own E) (N + 2 * card (pending E st)) \<and>
     sa_reliable (dtables st)"

text \<open>\<open>st'\<close> is \<open>st\<close> with the method installed in the tables of the classes \<open>Y\<close>, where it replaced \<open>old\<close>.\<close>

definition installed :: "install_env \<Rightarrow> nat option \<Rightarrow> nat \<Rightarrow> rt_state \<Rightarrow> rt_state \<Rightarrow> nat set \<Rightarrow> bool" where
  "installed E old N st st' Y \<longleftrightarrow>
     dt_frame st st' \<and> store_ready E st' N \<and> Y \<subseteq> ie_classes E \<and>
     (\<forall>k \<in> Y. entry_at E st k = Some old) \<and>
     (\<forall>b e j. ie_own E b = Some e \<longrightarrow> sa_lookup (dtables st') b j =
        (if b \<in> ie_table E ` Y \<and> (same_slot (ie_depth E) (ie_typed E) j \<or> same_slot (ie_depth E) (ie_untyped E) j)
         then Some (Some (ie_method E)) else sa_lookup (dtables st) b j))"

text \<open>The version of the method caches counts the tables in which an entry was replaced.\<close>

definition caches_bumped :: "nat option \<Rightarrow> rt_state \<Rightarrow> rt_state \<Rightarrow> nat set \<Rightarrow> bool" where
  "caches_bumped old st st' Y \<longleftrightarrow> objc_method_cache_version st' =
     objc_method_cache_version st + (if old = None then 0 else of_nat (card Y))"

text \<open>One step down from a class to a subclass that inherits the entry being replaced.\<close>

definition inherits_old :: "install_env \<Rightarrow> nat option \<Rightarrow> rt_state \<Rightarrow> (nat \<times> nat) set" where
  "inherits_old E old st =
     {(a, b). subclass_of st a b \<and> b \<in> ie_classes E \<and> entry_at E st b = Some old}"

lemma world_class:
  assumes "dt_world E st" "k \<in> ie_classes E"
  obtains r ys where "classes st k = Some r" "sib_list st (c_subclass_list r) ys" "length ys \<le> class_brk st"
    "\<And>y. y \<in> set ys \<Longrightarrow> dtable_for_class st y =
       Some (Some (if y \<in> ie_classes E then Node (ie_table E y) else uninstalled_dtable st))"
  using assms unfolding dt_world_def by metis

lemma dt_world_frame:
  assumes f: "dt_frame st st'" and w: "dt_world E st"
  shows "dt_world E st'"
  unfolding dt_world_def
proof (intro conjI ballI)
  show "finite (ie_classes E)" "inj_on (ie_table E) (ie_classes E)" using w by (simp_all add: dt_world_def)
  fix k
  assume k: "k \<in> ie_classes E"
  show "ie_own E (ie_table E k) = Some (ie_depth E)" "Node (ie_table E k) \<noteq> uninstalled_dtable st'"
    using w k by (simp_all add: dt_world_def dt_frame_fields(4) [OF f])
  from world_class [OF w k] obtain r ys where
    r: "classes st k = Some r" "sib_list st (c_subclass_list r) ys" "length ys \<le> class_brk st"
      "\<And>y. y \<in> set ys \<Longrightarrow> dtable_for_class st y =
         Some (Some (if y \<in> ie_classes E then Node (ie_table E y) else uninstalled_dtable st))" by metis
  obtain r' where r': "classes st' k = Some r'" "c_subclass_list r' = c_subclass_list r"
    using dt_frame_class [OF f r(1)] by metis
  show "\<exists>r ys. classes st' k = Some r \<and> sib_list st' (c_subclass_list r) ys \<and> length ys \<le> class_brk st' \<and>
     (\<forall>y \<in> set ys. dtable_for_class st' y =
        Some (Some (if y \<in> ie_classes E then Node (ie_table E y) else uninstalled_dtable st')))"
    using r r' dt_frame_sib_list [OF f r(2)]
    by (intro exI [of _ r'] exI [of _ ys])
      (simp add: dt_frame_fields(4,6) [OF f] dt_frame_dtable_for_class [OF f])
qed

lemma installed_frame: "installed E old N st st' Y \<Longrightarrow> dt_frame st st'"
  by (simp add: installed_def)

lemma entry_installed:
  assumes w: "dt_world E st" and i: "installed E old N st st' Y" and k: "k \<in> ie_classes E"
  shows "entry_at E st' k = (if k \<in> Y then Some (Some (ie_method E)) else entry_at E st k)"
proof -
  have "Y \<subseteq> ie_classes E" "inj_on (ie_table E) (ie_classes E)" "ie_own E (ie_table E k) = Some (ie_depth E)"
    using w i k by (simp_all add: dt_world_def installed_def)
  moreover from this k have "ie_table E k \<in> ie_table E ` Y \<longleftrightarrow> k \<in> Y"
    by (meson inj_on_image_mem_iff)
  ultimately show ?thesis using i by (simp add: installed_def entry_at_def same_slot_def)
qed

lemma installed_none [simp]: "store_ready E st N \<Longrightarrow> installed E old N st st {}"
  by (simp add: installed_def)

lemma installed_trans:
  assumes w: "dt_world E st" and old: "old \<noteq> Some (ie_method E)"
    and i1: "installed E old N st s1 Y1" and i2: "installed E old N s1 s2 Y2"
  shows "Y1 \<inter> Y2 = {}" and "installed E old N st s2 (Y1 \<union> Y2)"
    and "caches_bumped old st s1 Y1 \<Longrightarrow> caches_bumped old s1 s2 Y2 \<Longrightarrow> caches_bumped old st s2 (Y1 \<union> Y2)"
proof -
  have sub: "Y1 \<subseteq> ie_classes E" "Y2 \<subseteq> ie_classes E" using i1 i2 by (simp_all add: installed_def)
  have fin: "finite Y1" "finite Y2" using sub w by (auto simp: dt_world_def intro: finite_subset)
  have e: "entry_at E s1 k = Some old" if "k \<in> Y2" for k using i2 that by (simp add: installed_def)
  have out: "k \<notin> Y1" if "k \<in> Y2" for k
    using e [OF that] entry_installed [OF w i1, of k] sub(2) that old by (auto split: if_splits)
  then show dis: "Y1 \<inter> Y2 = {}" by blast
  have st: "entry_at E st k = Some old" if "k \<in> Y2" for k
    using e [OF that] entry_installed [OF w i1, of k] sub(2) that out [OF that] by (auto split: if_splits)
  have c: "card (Y1 \<union> Y2) = card Y1 + card Y2" by (rule card_Un_disjoint [OF fin dis])
  show "caches_bumped old st s2 (Y1 \<union> Y2)" if "caches_bumped old st s1 Y1" "caches_bumped old s1 s2 Y2"
    using that c by (simp add: caches_bumped_def)
  show "installed E old N st s2 (Y1 \<union> Y2)"
    using i1 i2 sub st c unfolding installed_def
    by (auto intro: dt_frame_trans simp: image_Un)
qed

text \<open>Classes that inherit the old entry after some tables have changed inherited it before.\<close>

lemma inherits_old_shrinks:
  assumes w: "dt_world E st" and old: "old \<noteq> Some (ie_method E)" and i: "installed E old N st s1 Y"
  shows "inherits_old E old s1 \<subseteq> inherits_old E old st"
proof -
  have "entry_at E st k = Some old" if "k \<in> ie_classes E" "entry_at E s1 k = Some old" for k
    using entry_installed [OF w i that(1)] that(2) old by (auto split: if_splits)
  then show ?thesis unfolding inherits_old_def dt_frame_subclass_of [OF installed_frame [OF i]] by auto
qed

lemma inherits_old_keeps:
  assumes w: "dt_world E st" and i: "installed E old N st s1 Y" and e: "(a, b) \<in> inherits_old E old st"
  shows "b \<in> Y \<or> (a, b) \<in> inherits_old E old s1"
  using e entry_installed [OF w i, of b] dt_frame_subclass_of [OF installed_frame [OF i], of a b]
  by (auto simp: inherits_old_def)

lemma method_ready_installed:
  assumes w: "dt_world E st" and i: "installed E old N st st' Y" and m: "method_ready E st m"
  shows "method_ready E st' m"
proof -
  note f = dt_frame_fields [OF installed_frame [OF i]]
  have "meths st' x \<noteq> None" if "k \<in> ie_classes E" "entry_at E st' k = Some (Some x)" for k x
    using entry_installed [OF w i that(1)] that m by (auto simp: method_ready_def f split: if_splits)
  then show ?thesis using m by (simp add: method_ready_def f get_untyped_idx_def)
qed

lemma pending_finite: "dt_world E st \<Longrightarrow> finite (pending E st)"
  by (simp add: dt_world_def pending_def)

lemma pending_installed:
  assumes w: "dt_world E st" and i: "installed E old N st st' Y"
  shows "pending E st' \<subseteq> pending E st" and "card (pending E st') \<le> card (pending E st)"
proof -
  show "pending E st' \<subseteq> pending E st"
    using entry_installed [OF w i] by (auto simp: pending_def split: if_splits)
  then show "card (pending E st') \<le> card (pending E st)"
    by (rule card_mono [OF pending_finite [OF w]])
qed

section \<open>One class\<close>

lemma pending_split:
  assumes w: "dt_world E st" and c: "c \<in> ie_classes E"
    and e: "entry_at E st c = Some old" "old \<noteq> Some (ie_method E)"
    and e': "\<And>k. k \<in> ie_classes E \<Longrightarrow>
      entry_at E st' k = (if k = c then Some (Some (ie_method E)) else entry_at E st k)"
  shows "card (pending E st) = Suc (card (pending E st'))"
proof -
  have "pending E st = insert c (pending E st')" "c \<notin> pending E st'"
    using c e e' by (auto simp: pending_def split: if_splits)
  moreover have "finite (pending E st')" using w by (simp add: dt_world_def pending_def)
  ultimately show ?thesis by simp
qed

lemma insert_twice:
  assumes w: "dt_world E st" and c: "c \<in> ie_classes E" and s: "store_ready E st N"
    and e: "entry_at E st c = Some old" "old \<noteq> Some (ie_method E)"
  obtains h1 h2 where
    "sparse_array_insert_or_abort st (Some (Node (ie_table E c))) (ie_typed E) (Some (ie_method E))
       = Some (st\<lparr>dtables := h1\<rparr>)"
    "sparse_array_insert_or_abort (st\<lparr>dtables := h1\<rparr>) (Some (Node (ie_table E c))) (ie_untyped E)
       (Some (ie_method E)) = Some (st\<lparr>dtables := h2\<rparr>)"
    "installed E old N st (st\<lparr>dtables := h2\<rparr>) {c}"
proof -
  have own: "ie_own E (ie_table E c) = Some (ie_depth E)" using w c by (simp add: dt_world_def)
  have "0 < card (pending E st)"
    using c e pending_finite [OF w] by (auto simp: pending_def card_gt_0_iff)
  then have st: "sa_store (dtables st) (ie_own E) (Suc (Suc (N + 2 * (card (pending E st) - 1))))"
    using s by (auto simp: store_ready_def intro: store_mono)
  have rel: "sa_reliable (dtables st)" using s by (simp add: store_ready_def)
  from rt_insert [OF st rel own, of "ie_typed E" "Some (ie_method E)"] obtain h1 where
    h1: "sparse_array_insert_or_abort st (Some (Node (ie_table E c))) (ie_typed E) (Some (ie_method E))
       = Some (st\<lparr>dtables := h1\<rparr>)"
      "sa_store h1 (ie_own E) (Suc (N + 2 * (card (pending E st) - 1)))" "sa_reliable h1"
      "\<And>b e j. ie_own E b = Some e \<Longrightarrow> sa_lookup h1 b j =
         (if b = ie_table E c \<and> same_slot (ie_depth E) (ie_typed E) j then Some (Some (ie_method E))
          else sa_lookup (dtables st) b j)" by blast
  from h1(2,3) have "sa_store (dtables (st\<lparr>dtables := h1\<rparr>)) (ie_own E) (Suc (N + 2 * (card (pending E st) - 1)))"
    "sa_reliable (dtables (st\<lparr>dtables := h1\<rparr>))" by simp_all
  from rt_insert [OF this own, of "ie_untyped E" "Some (ie_method E)"] obtain h2 where
    h2: "sparse_array_insert_or_abort (st\<lparr>dtables := h1\<rparr>) (Some (Node (ie_table E c))) (ie_untyped E)
       (Some (ie_method E)) = Some (st\<lparr>dtables := h1, dtables := h2\<rparr>)"
      "sa_store h2 (ie_own E) (N + 2 * (card (pending E st) - 1))" "sa_reliable h2"
      "\<And>b e j. ie_own E b = Some e \<Longrightarrow> sa_lookup h2 b j =
         (if b = ie_table E c \<and> same_slot (ie_depth E) (ie_untyped E) j then Some (Some (ie_method E))
          else sa_lookup (dtables (st\<lparr>dtables := h1\<rparr>)) b j)" by blast
  have look: "sa_lookup h2 b j =
      (if b = ie_table E c \<and> (same_slot (ie_depth E) (ie_typed E) j \<or> same_slot (ie_depth E) (ie_untyped E) j)
       then Some (Some (ie_method E)) else sa_lookup (dtables st) b j)" if "ie_own E b = Some e" for b e j
    using h2(4) [OF that] h1(4) [OF that] by auto
  have "entry_at E (st\<lparr>dtables := h2\<rparr>) k =
      (if k = c then Some (Some (ie_method E)) else entry_at E st k)" if "k \<in> ie_classes E" for k
    using look [of "ie_table E k"] w that c by (auto simp: entry_at_def dt_world_def same_slot_def inj_on_def)
  from pending_split [OF w c e this] h2(2,3)
  have "store_ready E (st\<lparr>dtables := h2\<rparr>) N" by (simp add: store_ready_def)
  then have "installed E old N st (st\<lparr>dtables := h2\<rparr>) {c}"
    using look c e(1) by (simp add: installed_def)
  with h1(1) h2(1) that show ?thesis by simp
qed

lemma update_cxx_cache_frame:
  assumes "classes s c \<noteq> None" "get_untyped_idx s (m_selector m) = Some u"
    "register_selector s ''.cxx_construct'' None \<noteq> None" "register_selector s ''.cxx_destruct'' None \<noteq> None"
  obtains s' where "update_cxx_cache s c m upd = Some s'" "dt_frame s s'" "dtables s' = dtables s"
    "objc_method_cache_version s' = objc_method_cache_version s"
proof -
  have cxx: "\<exists>s'. upd_class c f s = Some s' \<and> dt_frame s s' \<and> dtables s' = dtables s \<and>
      objc_method_cache_version s' = objc_method_cache_version s" if "\<And>r. strip_cxx (f r) = strip_cxx r" for f
  proof -
    obtain s' where "upd_class c f s = Some s'" using assms(1) by (auto simp: upd_class_def)
    with dt_frame_upd_cxx [OF that this] show ?thesis by blast
  qed
  have "\<exists>s'. update_cxx_cache s c m upd = Some s' \<and> dt_frame s s' \<and> dtables s' = dtables s \<and>
      objc_method_cache_version s' = objc_method_cache_version s"
    using assms(2-4) cxx [of "\<lambda>x. x\<lparr>c_cxx_construct := m_imp m\<rparr>"] cxx [of "\<lambda>x. x\<lparr>c_cxx_destruct := m_imp m\<rparr>"]
    by (auto simp: update_cxx_cache_def objc2_get_or_register_selector_def selEqualUnTyped_def strip_cxx_def)
  then show ?thesis using that by blast
qed

section \<open>The subclasses\<close>

text \<open>What the loop of \<open>installMethodInDtable\<close> does for one subclass.\<close>

definition sub_install :: "nat \<Rightarrow> nat \<Rightarrow> nat option \<Rightarrow> rt_state \<Rightarrow> nat \<Rightarrow> rt_state option" where
  "sub_install fuel h old s subclass =
     do {
       has \<leftarrow> classHasDtable s subclass;
       if \<not> has then Some s
       else do {
         d \<leftarrow> dtable_for_class s subclass;
         (s', _) \<leftarrow> installMethodInDtable fuel s subclass d h old True False;
         Some s'
       }
     }"

lemma installMethodInDtable_Suc:
  "installMethodInDtable (Suc fuel) st cls dtable h method_to_replace replaceExisting updateCxxCache =
     (if dtable = Some (uninstalled_dtable st) then None
      else do {
        m \<leftarrow> meths st h;
        oldMethod \<leftarrow> dt_lookup st dtable (sel_index st (m_selector m));
        if replaceExisting \<and> method_to_replace \<noteq> oldMethod then Some (st, False)
        else if \<not> replaceExisting \<and> oldMethod \<noteq> None then Some (st, False)
        else do {
          same \<leftarrow> same_imp st oldMethod m;
          if same then Some (st, False)
          else do {
            s1 \<leftarrow> sparse_array_insert_or_abort st dtable (sel_index st (m_selector m)) (Some h);
            untyped_idx \<leftarrow> get_untyped_idx s1 (m_selector m);
            s2 \<leftarrow> sparse_array_insert_or_abort s1 dtable untyped_idx (Some h);
            s3 \<leftarrow> update_cxx_cache s2 cls m updateCxxCache;
            r \<leftarrow> classes s3 cls;
            s4 \<leftarrow> sibling_loop (class_brk s3) (sub_install fuel h oldMethod) s3 (c_subclass_list r);
            Some (if oldMethod \<noteq> None
                  then s4\<lparr>objc_method_cache_version := objc_method_cache_version s4 + 1\<rparr> else s4, True)
          }
        }
      })"
  unfolding installMethodInDtable.simps sub_install_def [abs_def] ..

lemma insert_frame: "sparse_array_insert_or_abort st d i v = Some st' \<Longrightarrow> dt_frame st st'"
  by (auto simp: sparse_array_insert_or_abort_def split: bind_splits if_splits)

lemma update_cxx_cache_keeps: "update_cxx_cache st c m upd = Some st' \<Longrightarrow> dt_frame st st'"
  using dt_frame_upd_cxx [of "\<lambda>x. x\<lparr>c_cxx_construct := m_imp m\<rparr>" c st st']
    dt_frame_upd_cxx [of "\<lambda>x. x\<lparr>c_cxx_destruct := m_imp m\<rparr>" c st st']
  by (auto simp: update_cxx_cache_def strip_cxx_def split: bind_splits if_splits)

lemma sibling_loop_frame:
  assumes "\<And>s y s'. body s y = Some s' \<Longrightarrow> dt_frame s s'"
  shows "sibling_loop n body s p = Some s' \<Longrightarrow> dt_frame s s'"
proof (induction n arbitrary: s p)
  case (Suc n)
  show ?case
  proof (cases p)
    case (Some c)
    with Suc.prems obtain s1 q where "body s c = Some s1" "sibling_loop n body s1 q = Some s'"
      by (auto split: bind_splits)
    then show ?thesis using Suc.IH assms by (blast intro: dt_frame_trans)
  qed (use Suc.prems in simp)
next
  case 0
  then show ?case by (cases p) auto
qed

lemma install_frame:
  "installMethodInDtable fuel st c d h mtr rep upd = Some (st', b) \<Longrightarrow> dt_frame st st'"
proof (induction fuel arbitrary: st c d mtr rep upd st' b)
  case (Suc fuel)
  have body: "dt_frame s s'" if "sub_install fuel h old s y = Some s'" for old s y s'
    using that Suc.IH by (auto simp: sub_install_def split: bind_splits if_splits)
  have loop: "dt_frame s s'" if "sibling_loop n (sub_install fuel h old) s p = Some s'" for n old s p s'
    using body that by (rule sibling_loop_frame)
  show ?case using Suc.prems unfolding installMethodInDtable_Suc
    by (auto split: bind_splits if_splits dest!: insert_frame update_cxx_cache_keeps loop)
      (meson dt_frame_trans)+
qed simp

lemma sub_install_frame: "sub_install fuel h old s y = Some s' \<Longrightarrow> dt_frame s s'"
  by (auto simp: sub_install_def install_frame split: bind_splits if_splits)

text \<open>The installation below a class: exactly the classes that inherit the old entry are reached.\<close>

definition installed_below :: "install_env \<Rightarrow> nat option \<Rightarrow> nat \<Rightarrow> rt_state \<Rightarrow> rt_state \<Rightarrow> nat set \<Rightarrow> nat set \<Rightarrow> bool" where
  "installed_below E old N st st' R Y \<longleftrightarrow>
     installed E old N st st' Y \<and> caches_bumped old st st' Y \<and>
     Y = {k. \<exists>y \<in> R. y \<in> ie_classes E \<and> entry_at E st y = Some old \<and> (y, k) \<in> (inherits_old E old st)\<^sup>*}"

lemma below_none:
  "store_ready E st N \<Longrightarrow> \<forall>y \<in> R. y \<in> ie_classes E \<longrightarrow> entry_at E st y \<noteq> Some old \<Longrightarrow>
   installed_below E old N st st R {}"
  by (auto simp: installed_below_def caches_bumped_def)

text \<open>Two installations one after the other reach what is reachable at the start.\<close>

lemma below_Un:
  assumes w: "dt_world E st" and old: "old \<noteq> Some (ie_method E)"
    and b1: "installed_below E old N st s1 R1 Y1" and b2: "installed_below E old N s1 s2 R2 Y2"
  shows "installed_below E old N st s2 (R1 \<union> R2) (Y1 \<union> Y2)"
proof -
  have i1: "installed E old N st s1 Y1" and i2: "installed E old N s1 s2 Y2"
    and bb: "caches_bumped old st s1 Y1" "caches_bumped old s1 s2 Y2"
    using b1 b2 unfolding installed_below_def by blast+
  note shrink = inherits_old_shrinks [OF w old i1]
  define reach where "reach R = {k. \<exists>y \<in> R. y \<in> ie_classes E \<and> entry_at E st y = Some old \<and>
      (y, k) \<in> (inherits_old E old st)\<^sup>*}" for R
  have Y1: "Y1 = reach R1" using b1 unfolding installed_below_def reach_def by blast
  have "Y2 \<subseteq> reach R2"
  proof
    fix k
    assume "k \<in> Y2"
    then obtain y where y: "y \<in> R2" "y \<in> ie_classes E" "entry_at E s1 y = Some old"
      "(y, k) \<in> (inherits_old E old s1)\<^sup>*" using b2 by (auto simp: installed_below_def)
    then have "entry_at E st y = Some old" using entry_installed [OF w i1 y(2)] old by (auto split: if_splits)
    then show "k \<in> reach R2" using y rtrancl_mono [OF shrink] by (auto simp: reach_def)
  qed
  moreover have "reach R2 \<subseteq> Y1 \<union> Y2"
  proof
    fix k
    assume "k \<in> reach R2"
    then obtain y where y: "y \<in> R2" "y \<in> ie_classes E" "entry_at E st y = Some old"
      "(y, k) \<in> (inherits_old E old st)\<^sup>*" by (auto simp: reach_def)
    from y(4) show "k \<in> Y1 \<union> Y2"
    proof induction
      case base
      show ?case
      proof (cases "y \<in> Y1")
        case False
        then have "entry_at E s1 y = Some old" using entry_installed [OF w i1 y(2)] y(3) by simp
        then show ?thesis using b2 y(1,2) by (auto simp: installed_below_def)
      qed simp
    next
      case (step a b)
      show ?case
      proof (cases "a \<in> Y1")
        case True
        then show ?thesis using step(2) unfolding Y1 reach_def by (auto intro: rtrancl_into_rtrancl)
      next
        case False
        then have "a \<in> Y2" using step.IH by simp
        with inherits_old_keeps [OF w i1 step(2)] show ?thesis
          using b2 by (auto simp: installed_below_def intro: rtrancl_into_rtrancl)
      qed
    qed
  qed
  ultimately have "Y1 \<union> Y2 = reach (R1 \<union> R2)" unfolding Y1 by (auto simp: reach_def)
  then show ?thesis using installed_trans [OF w old i1 i2] bb by (simp add: installed_below_def reach_def)
qed

lemma fold_subclasses:
  assumes "old \<noteq> Some (ie_method E)"
    and "dt_world E st" "store_ready E st N" "method_ready E st m" "card (pending E st) < fuel"
    and "\<And>y. y \<in> set ys \<Longrightarrow> dtable_for_class st y =
       Some (Some (if y \<in> ie_classes E then Node (ie_table E y) else uninstalled_dtable st))"
    and "meths st = ms"
    and sub: "\<And>s y. dt_world E s \<Longrightarrow> store_ready E s N \<Longrightarrow> method_ready E s m \<Longrightarrow>
       card (pending E s) < fuel \<Longrightarrow> meths s = ms \<Longrightarrow> y \<in> ie_classes E \<Longrightarrow>
       \<exists>s' b Y. installMethodInDtable fuel s y (Some (Node (ie_table E y))) (ie_method E) old True False = Some (s', b) \<and>
         installed_below E old N s s' {y} Y"
  shows "\<exists>st' Y. foldM (sub_install fuel (ie_method E) old) st ys = Some st' \<and>
     installed_below E old N st st' (set ys) Y"
  using assms(2-7)
proof (induction ys arbitrary: st)
  case Nil
  then have "installed_below E old N st st (set []) {}" by (intro below_none) simp_all
  then show ?case by auto
next
  case (Cons y ys)
  have d: "dtable_for_class st y =
      Some (Some (if y \<in> ie_classes E then Node (ie_table E y) else uninstalled_dtable st))"
    using Cons.prems(5) by simp
  have "\<exists>s1 Y1. sub_install fuel (ie_method E) old st y = Some s1 \<and> installed_below E old N st s1 {y} Y1"
  proof (cases "y \<in> ie_classes E")
    case True
    moreover have "Node (ie_table E y) \<noteq> uninstalled_dtable st"
      using Cons.prems(1) True by (simp add: dt_world_def)
    ultimately show ?thesis using sub [OF Cons.prems(1-4,6) True] d
      by (fastforce simp: sub_install_def classHasDtable_def)
  next
    case False
    with Cons.prems(2) have "installed_below E old N st st {y} {}" by (intro below_none) simp_all
    then show ?thesis using d False by (auto simp: sub_install_def classHasDtable_def)
  qed
  then obtain s1 Y1 where s1: "sub_install fuel (ie_method E) old st y = Some s1"
    "installed_below E old N st s1 {y} Y1" by blast
  then have i: "installed E old N st s1 Y1" unfolding installed_below_def by blast
  note f = installed_frame [OF i]
  have "\<exists>st' Y. foldM (sub_install fuel (ie_method E) old) s1 ys = Some st' \<and>
      installed_below E old N s1 st' (set ys) Y"
  proof (rule Cons.IH)
    show "dt_world E s1" by (rule dt_world_frame [OF f Cons.prems(1)])
    show "store_ready E s1 N" using i by (simp add: installed_def)
    show "method_ready E s1 m" by (rule method_ready_installed [OF Cons.prems(1) i Cons.prems(3)])
    show "card (pending E s1) < fuel" using pending_installed(2) [OF Cons.prems(1) i] Cons.prems(4) by simp
    show "dtable_for_class s1 z = Some (Some (if z \<in> ie_classes E then Node (ie_table E z)
        else uninstalled_dtable s1))" if "z \<in> set ys" for z
      using Cons.prems(5) [of z] that by (simp add: dt_frame_dtable_for_class [OF f] dt_frame_fields(4) [OF f])
    show "meths s1 = ms" using Cons.prems(6) by (simp add: dt_frame_fields(1) [OF f])
  qed
  then obtain s2 Y2 where s2: "foldM (sub_install fuel (ie_method E) old) s1 ys = Some s2"
    "installed_below E old N s1 s2 (set ys) Y2" by blast
  from below_Un [OF Cons.prems(1) assms(1) s1(2) s2(2)] s1(1) s2(1) show ?case by auto
qed

section \<open>The class and its subclasses\<close>

lemma below_root:
  assumes w: "dt_world E st" and old: "old \<noteq> Some (ie_method E)" and c: "c \<in> ie_classes E"
    and e: "entry_at E st c = Some old"
    and r: "classes st c = Some r" "sib_list st (c_subclass_list r) ys"
    and i1: "installed E old N st s1 {c}" and v1: "objc_method_cache_version s1 = objc_method_cache_version st"
    and b2: "installed_below E old N s1 s2 (set ys) Y"
  shows "installed E old N st s2 (insert c Y)"
    and "objc_method_cache_version s2 = objc_method_cache_version st + (if old = None then 0 else of_nat (card Y))"
    and "c \<notin> Y"
    and "insert c Y = {k. (c, k) \<in> (inherits_old E old st)\<^sup>*}"
proof -
  have i2: "installed E old N s1 s2 Y" and v2: "caches_bumped old s1 s2 Y"
    and Y: "Y = {k. \<exists>y \<in> set ys. y \<in> ie_classes E \<and> entry_at E s1 y = Some old \<and>
        (y, k) \<in> (inherits_old E old s1)\<^sup>*}"
    using b2 unfolding installed_below_def by blast+
  show "c \<notin> Y" using installed_trans(1) [OF w old i1 i2] by blast
  show "installed E old N st s2 (insert c Y)" using installed_trans(2) [OF w old i1 i2] by simp
  show "objc_method_cache_version s2 = objc_method_cache_version st + (if old = None then 0 else of_nat (card Y))"
    using v1 v2 by (simp add: caches_bumped_def)
  have sub: "subclass_of st c y \<longleftrightarrow> y \<in> set ys" for y
    unfolding subclass_of_def using r sib_list_unique [OF r(2)] by (metis option.inject)
  have ent: "entry_at E s1 k = Some old \<longleftrightarrow> k \<noteq> c \<and> entry_at E st k = Some old" if "k \<in> ie_classes E" for k
    using entry_installed [OF w i1 that] old by auto
  have "(c, k) \<in> (inherits_old E old st)\<^sup>*" if "k \<in> Y" for k
  proof -
    from that obtain y where y: "y \<in> set ys" "y \<in> ie_classes E" "entry_at E s1 y = Some old"
      "(y, k) \<in> (inherits_old E old s1)\<^sup>*" unfolding Y by blast
    have "(c, y) \<in> inherits_old E old st" using sub y(1-3) ent by (simp add: inherits_old_def)
    then show ?thesis using y(4) rtrancl_mono [OF inherits_old_shrinks [OF w old i1]]
      by (meson converse_rtrancl_into_rtrancl subsetD)
  qed
  moreover have "k \<in> insert c Y" if "(c, k) \<in> (inherits_old E old st)\<^sup>*" for k
    using that
  proof induction
    case (step a b)
    show ?case
    proof (cases "a = c")
      case True
      then have "b \<in> set ys" "b \<in> ie_classes E" "entry_at E st b = Some old"
        using step(2) sub by (auto simp: inherits_old_def)
      then show ?thesis using ent by (auto simp: Y)
    next
      case False
      then have "a \<in> Y" using step.IH by simp
      with inherits_old_keeps [OF w i1 step(2)] show ?thesis unfolding Y
        by (auto intro: rtrancl_into_rtrancl)
    qed
  qed simp
  ultimately show "insert c Y = {k. (c, k) \<in> (inherits_old E old st)\<^sup>*}" by blast
qed

definition install_refused :: "rt_state \<Rightarrow> objc_method \<Rightarrow> nat option \<Rightarrow> nat option \<Rightarrow> bool \<Rightarrow> bool" where
  "install_refused st m old method_to_replace replaceExisting \<longleftrightarrow>
     (if replaceExisting then method_to_replace \<noteq> old else old \<noteq> None) \<or> same_imp st old m = Some True"

lemma same_imp_total:
  assumes "method_ready E st m" "c \<in> ie_classes E" "entry_at E st c = Some old"
  obtains b where "same_imp st old m = Some b"
proof (cases old)
  case None
  then show ?thesis using that [of False] by (simp add: same_imp_def)
next
  case (Some x)
  then obtain om where "meths st x = Some om" using assms by (auto simp: method_ready_def)
  then show ?thesis using that Some by (simp add: same_imp_def)
qed

lemma same_imp_meths: "meths s = meths st \<Longrightarrow> same_imp s = same_imp st"
  by (intro ext) (simp add: same_imp_def split: option.split)

lemma lookup_entry:
  "sel_index st (m_selector m) = ie_typed E \<Longrightarrow>
   dt_lookup st (Some (Node (ie_table E c))) (sel_index st (m_selector m)) = entry_at E st c"
  by (simp add: dt_lookup_def entry_at_def sa_lookup_def)

lemma install_refuses:
  assumes w: "dt_world E st" and m: "method_ready E st m" and c: "c \<in> ie_classes E"
    and e: "entry_at E st c = Some old" and r: "install_refused st m old mtr rep"
  shows "installMethodInDtable (Suc fuel) st c (Some (Node (ie_table E c))) (ie_method E) mtr rep upd = Some (st, False)"
proof -
  have "Node (ie_table E c) \<noteq> uninstalled_dtable st" using w c by (simp add: dt_world_def)
  moreover obtain b where "same_imp st old m = Some b" by (rule same_imp_total [OF m c e])
  ultimately show ?thesis using m r e lookup_entry [of st m E c]
    by (auto simp: installMethodInDtable_Suc method_ready_def install_refused_def split: if_splits)
qed

lemma install_law:
  assumes "dt_world E st" "store_ready E st N" "method_ready E st m" "card (pending E st) < fuel"
    and "c \<in> ie_classes E" "entry_at E st c = Some old" "\<not> install_refused st m old mtr rep"
  shows "\<exists>st' Y. installMethodInDtable fuel st c (Some (Node (ie_table E c))) (ie_method E) mtr rep upd
      = Some (st', True) \<and> installed_below E old N st st' {c} Y"
  using assms
proof (induction fuel arbitrary: st c mtr rep upd)
  case (Suc fuel)
  note w = Suc.prems(1) and m = Suc.prems(3) and c = Suc.prems(5) and e = Suc.prems(6)
  have ns: "same_imp st old m \<noteq> Some True" using Suc.prems(7) by (simp add: install_refused_def)
  have old: "old \<noteq> Some (ie_method E)" using ns m by (auto simp: same_imp_def method_ready_def)
  from same_imp_total [OF m c e] ns have same: "same_imp st old m = Some False" by fastforce
  from insert_twice [OF w c Suc.prems(2) e old] obtain h1 h2 where ins:
    "sparse_array_insert_or_abort st (Some (Node (ie_table E c))) (ie_typed E) (Some (ie_method E))
       = Some (st\<lparr>dtables := h1\<rparr>)"
    "sparse_array_insert_or_abort (st\<lparr>dtables := h1\<rparr>) (Some (Node (ie_table E c))) (ie_untyped E)
       (Some (ie_method E)) = Some (st\<lparr>dtables := h2\<rparr>)"
    "installed E old N st (st\<lparr>dtables := h2\<rparr>) {c}" by metis
  from world_class [OF w c] obtain r ys where r: "classes st c = Some r" "sib_list st (c_subclass_list r) ys"
    "length ys \<le> class_brk st" "\<And>y. y \<in> set ys \<Longrightarrow> dtable_for_class st y =
       Some (Some (if y \<in> ie_classes E then Node (ie_table E y) else uninstalled_dtable st))" by metis
  obtain s3 where s3: "update_cxx_cache (st\<lparr>dtables := h2\<rparr>) c m upd = Some s3" "dt_frame (st\<lparr>dtables := h2\<rparr>) s3"
    "dtables s3 = h2" "objc_method_cache_version s3 = objc_method_cache_version st"
    using update_cxx_cache_frame [of "st\<lparr>dtables := h2\<rparr>" c m "ie_untyped E" upd] r(1) m
    by (auto simp: method_ready_def get_untyped_idx_def)
  have i3: "installed E old N st s3 {c}"
    using ins(3) s3(2,3) dt_frame_trans [of st "st\<lparr>dtables := h2\<rparr>" s3]
    by (simp add: installed_def store_ready_def pending_def entry_at_def)
  note f3 = installed_frame [OF i3]
  have w3: "dt_world E s3" by (rule dt_world_frame [OF f3 w])
  have m3: "method_ready E s3 m" by (rule method_ready_installed [OF w i3 m])
  have "card (pending E st) = Suc (card (pending E s3))"
    by (rule pending_split [OF w c e old]) (simp add: entry_installed [OF w i3])
  then have p3: "card (pending E s3) < fuel" using Suc.prems(4) by simp
  have body: "\<exists>s' b Y. installMethodInDtable fuel s y (Some (Node (ie_table E y))) (ie_method E) old True False
        = Some (s', b) \<and> installed_below E old N s s' {y} Y"
    if s: "dt_world E s" "store_ready E s N" "method_ready E s m" "card (pending E s) < fuel" "meths s = meths st"
      "y \<in> ie_classes E" for s y
  proof -
    have "ie_own E (ie_table E y) = Some (ie_depth E)" using s(1,6) by (simp add: dt_world_def)
    with s(2) obtain o' where o': "entry_at E s y = Some o'"
      unfolding store_ready_def entry_at_def by (meson sarray.lookup_total)
    show ?thesis
    proof (cases "install_refused s m o' old True")
      case True
      obtain f' where "fuel = Suc f'" using s(4) by (cases fuel) auto
      moreover have "installed_below E old N s s {y} {}"
        using True o' same same_imp_meths [OF s(5)]
        by (intro below_none [OF s(2)]) (auto simp: install_refused_def)
      ultimately show ?thesis using install_refuses [OF s(1,3,6) o' True] by blast
    next
      case False
      then have "o' = old" by (simp add: install_refused_def)
      with Suc.IH [OF s(1-4,6)] o' False show ?thesis by blast
    qed
  qed
  have sr3: "store_ready E s3 N" using i3 by (simp add: installed_def)
  have d3: "dtable_for_class s3 y =
      Some (Some (if y \<in> ie_classes E then Node (ie_table E y) else uninstalled_dtable s3))"
    if "y \<in> set ys" for y
    using r(4) [OF that] by (simp add: dt_frame_dtable_for_class [OF f3] dt_frame_fields(4) [OF f3])
  from fold_subclasses [OF old w3 sr3 m3 p3 d3 dt_frame_fields(1) [OF f3] body] obtain s4 Y where s4:
    "foldM (sub_install fuel (ie_method E) old) s3 ys = Some s4"
    "installed_below E old N s3 s4 (set ys) Y" by blast
  have loop: "sibling_loop (class_brk s3) (sub_install fuel (ie_method E) old) s3 (c_subclass_list r) =
      foldM (sub_install fuel (ie_method E) old) s3 ys"
    using dt_frame_sib_list [OF f3 r(2)] r(3)
    by (intro sibling_loop_foldM [of s3]) (auto simp: dt_frame_fields(6) [OF f3] dest: sub_install_frame)
  obtain r3 where r3: "classes s3 c = Some r3" "c_subclass_list r3 = c_subclass_list r"
    using dt_frame_class [OF f3 r(1)] by metis
  define s5 where "s5 = (if old \<noteq> None
    then s4\<lparr>objc_method_cache_version := objc_method_cache_version s4 + 1\<rparr> else s4)"
  have "Node (ie_table E c) \<noteq> uninstalled_dtable st" using w c by (simp add: dt_world_def)
  then have "installMethodInDtable (Suc fuel) st c (Some (Node (ie_table E c))) (ie_method E) mtr rep upd = Some (s5, True)"
    using Suc.prems(7) m e ins(1,2) s3(1) r3 loop s4(1) same lookup_entry [of st m E c]
    by (auto simp: installMethodInDtable_Suc install_refused_def method_ready_def get_untyped_idx_def s5_def
        split: if_splits)
  moreover have "installed_below E old N st s5 {c} (insert c Y)"
  proof -
    note root = below_root [OF w old c e r(1,2) i3 s3(4) s4(2)]
    have "finite Y" using root(1) w by (auto simp: installed_def dt_world_def intro: finite_subset)
    then have "caches_bumped old st s5 (insert c Y)" using root(2,3) by (simp add: caches_bumped_def s5_def)
    moreover have "installed E old N st s5 (insert c Y)"
      using root(1) by (simp add: s5_def installed_def store_ready_def pending_def entry_at_def)
    ultimately show ?thesis using root(4) c e by (simp add: installed_below_def)
  qed
  ultimately show ?case by blast
qed simp

end
