(* ===== verification/Objc_Dispatch_Create.thy ===== *)
theory Objc_Dispatch_Create
  imports Objc_Dispatch_Install
begin

text \<open>
  Creating the dispatch table of a class: \<open>create_dtable_for_class\<close> refines a fold over the methods
  of the class that overrides entries of the table of its superclass.
\<close>

section \<open>The abstract construction\<close>

text \<open>
  A table is a function from selector indices to methods. \<open>typed\<close> and \<open>untyped\<close> give the indices
  of a method's selector and of its untyped variant, \<open>same\<close> says that two methods have the same
  implementation. A method overrides an entry that is still the inherited one.
\<close>

definition override ::
  "(nat \<Rightarrow> uint32) \<Rightarrow> (nat \<Rightarrow> uint32) \<Rightarrow> (nat \<Rightarrow> nat \<Rightarrow> bool) \<Rightarrow> (uint32 \<Rightarrow> nat option) \<Rightarrow>
   nat \<Rightarrow> (uint32 \<Rightarrow> nat option) \<Rightarrow> uint32 \<Rightarrow> nat option" where
  "override typed untyped same inherited h e =
     (if e (typed h) \<noteq> inherited (typed h) \<or> (\<exists>x. e (typed h) = Some x \<and> same x h) then e
      else e(typed h := Some h, untyped h := Some h))"

definition own_or_inherited ::
  "(nat \<Rightarrow> uint32) \<Rightarrow> (nat \<Rightarrow> nat \<Rightarrow> bool) \<Rightarrow> (uint32 \<Rightarrow> nat option) \<Rightarrow> nat list \<Rightarrow> uint32 \<Rightarrow> nat option" where
  "own_or_inherited typed same inherited hs j =
     (case find (\<lambda>h. typed h = j \<and> \<not> (\<exists>x. inherited j = Some x \<and> same x h)) hs of
        Some h \<Rightarrow> Some h | None \<Rightarrow> inherited j)"

lemma find_append: "find P (xs @ ys) = (case find P xs of None \<Rightarrow> find P ys | Some x \<Rightarrow> Some x)"
  by (induction xs) auto

lemma find_SomeE: "find P xs = Some x \<Longrightarrow> x \<in> set xs \<and> P x"
  by (induction xs) (auto split: if_splits)

text \<open>The first method of the class for a selector wins, unless it repeats what is inherited.\<close>

lemma fold_override:
  assumes "\<And>h. h \<in> set hs \<Longrightarrow> untyped h = j \<Longrightarrow> typed h = j"
    and "\<And>h. h \<in> set hs \<Longrightarrow> inherited j \<noteq> Some h"
  shows "fold (override typed untyped same inherited) hs inherited j = own_or_inherited typed same inherited hs j"
  using assms
proof (induction hs rule: rev_induct)
  case Nil
  then show ?case by (simp add: own_or_inherited_def)
next
  case (snoc h hs)
  define e where "e = fold (override typed untyped same inherited) hs inherited"
  have e: "fold (override typed untyped same inherited) (hs @ [h]) inherited = override typed untyped same inherited h e"
    by (simp add: e_def)
  let ?P = "\<lambda>h. typed h = j \<and> \<not> (\<exists>x. inherited j = Some x \<and> same x h)"
  have IH: "e j = (case find ?P hs of Some h \<Rightarrow> Some h | None \<Rightarrow> inherited j)"
    using snoc by (simp add: own_or_inherited_def e_def)
  have "override typed untyped same inherited h e j = own_or_inherited typed same inherited (hs @ [h]) j"
  proof (cases "typed h = j")
    case False
    then have "untyped h \<noteq> j" using snoc.prems(1) [of h] by auto
    then show ?thesis using False IH by (auto simp: override_def own_or_inherited_def find_append split: option.splits)
  next
    case True
    show ?thesis
    proof (cases "find ?P hs")
      case (Some h0)
      then have "inherited j \<noteq> Some h0" using snoc.prems(2) find_SomeE [OF Some] by simp
      then show ?thesis using True IH Some by (simp add: override_def own_or_inherited_def find_append)
    next
      case None
      then have "e j = inherited j" using IH by simp
      then show ?thesis using True None by (auto simp: override_def own_or_inherited_def find_append)
    qed
  qed
  then show ?case by (simp only: e)
qed

section \<open>One step\<close>

text \<open>The table of class \<open>cls\<close> under construction, of root \<open>a\<close>, for the installation of method \<open>h\<close>.\<close>

definition create_env :: "(nat \<rightharpoonup> nat) \<Rightarrow> nat \<Rightarrow> nat \<Rightarrow> nat \<Rightarrow> uint32 \<Rightarrow> uint32 \<Rightarrow> nat \<Rightarrow> install_env" where
  "create_env own d cls a t u h =
     \<lparr>ie_classes = {cls}, ie_table = (\<lambda>_. a), ie_own = own, ie_depth = d, ie_typed = t, ie_untyped = u,
      ie_method = h\<rparr>"

lemma create_env_simps [simp]:
  "ie_classes (create_env own d cls a t u h) = {cls}" "ie_table (create_env own d cls a t u h) = (\<lambda>_. a)"
  "ie_own (create_env own d cls a t u h) = own" "ie_depth (create_env own d cls a t u h) = d"
  "ie_typed (create_env own d cls a t u h) = t" "ie_untyped (create_env own d cls a t u h) = u"
  "ie_method (create_env own d cls a t u h) = h"
  by (simp_all add: create_env_def)

text \<open>A class whose subclasses have no tables yet.\<close>

definition leaf_class :: "rt_state \<Rightarrow> nat \<Rightarrow> bool" where
  "leaf_class st cls \<longleftrightarrow>
     (\<exists>r ys. classes st cls = Some r \<and> sib_list st (c_subclass_list r) ys \<and> length ys \<le> class_brk st \<and>
        (\<forall>y \<in> set ys. y \<noteq> cls \<and> dtable_for_class st y = Some (Some (uninstalled_dtable st))))"

lemma leaf_world:
  assumes "leaf_class st cls" "own a = Some d" "Node a \<noteq> uninstalled_dtable st"
  shows "dt_world (create_env own d cls a t u h) st"
  using assms unfolding dt_world_def leaf_class_def by auto

text \<open>The selectors of the methods \<open>hs\<close> and those of the runtime are registered.\<close>

definition methods_ready :: "rt_state \<Rightarrow> nat \<Rightarrow> (nat \<Rightarrow> uint32) \<Rightarrow> (nat \<Rightarrow> uint32) \<Rightarrow> nat list \<Rightarrow> bool" where
  "methods_ready st d typed untyped hs \<longleftrightarrow>
     register_selector st ''.cxx_construct'' None \<noteq> None \<and>
     register_selector st ''.cxx_destruct'' None \<noteq> None \<and>
     (\<forall>h \<in> set hs. unat (typed h) < 2 ^ d \<and> unat (untyped h) < 2 ^ d \<and>
        (\<exists>m. meths st h = Some m \<and> sel_index st (m_selector m) = typed h \<and>
           get_untyped_idx st (m_selector m) = Some (untyped h)))"

definition same_imps :: "rt_state \<Rightarrow> nat \<Rightarrow> nat \<Rightarrow> bool" where
  "same_imps st x h \<longleftrightarrow> map_option m_imp (meths st x) = map_option m_imp (meths st h)"

definition table_is :: "rt_state \<Rightarrow> nat \<Rightarrow> nat \<Rightarrow> (uint32 \<Rightarrow> nat option) \<Rightarrow> bool" where
  "table_is st d a e \<longleftrightarrow> (\<forall>j. unat j < 2 ^ d \<longrightarrow> sa_lookup (dtables st) a j = Some (e j))"

definition valid_entries :: "rt_state \<Rightarrow> (uint32 \<Rightarrow> nat option) \<Rightarrow> bool" where
  "valid_entries st e \<longleftrightarrow> (\<forall>j x. e j = Some x \<longrightarrow> meths st x \<noteq> None)"

text \<open>What the table of the superclass holds, if there is one.\<close>

definition inherits_from :: "rt_state \<Rightarrow> (nat \<rightharpoonup> nat) \<Rightarrow> nat \<Rightarrow> nat \<Rightarrow> sa_ptr option \<Rightarrow> (uint32 \<Rightarrow> nat option) \<Rightarrow> bool" where
  "inherits_from st own d a super_dtable inherited \<longleftrightarrow>
     (case super_dtable of
        None \<Rightarrow> inherited = (\<lambda>_. None)
      | Some p \<Rightarrow> \<exists>b. p = Node b \<and> b \<noteq> a \<and> own b = Some d \<and> table_is st d b inherited)"

lemma same_slot_small: "unat i < 2 ^ d \<Longrightarrow> unat j < 2 ^ d \<Longrightarrow> same_slot d i j \<longleftrightarrow> i = j"
  by (auto simp: same_slot_def intro: word_unat_eq_iff [THEN iffD2])

lemma super_method_is:
  assumes "inherits_from st own d a super_dtable inherited" "unat i < 2 ^ d"
  shows "(case super_dtable of None \<Rightarrow> Some None | Some t \<Rightarrow> dt_lookup st (Some t) i) = Some (inherited i)"
  using assms by (auto simp: inherits_from_def table_is_def dt_lookup_def sa_lookup_def split: option.splits)

lemma bind_fst: "Option.bind x (\<lambda>(s, _). Some s) = map_option fst x"
  by (cases x) auto

lemma pending_create: "card (pending (create_env own d cls a t u h) st) \<le> 1"
proof -
  have "pending (create_env own d cls a t u h) st \<subseteq> {cls}" by (auto simp: pending_def)
  then show ?thesis using card_mono [of "{cls}"] by fastforce
qed

lemma install_own_step:
  assumes leaf: "leaf_class st cls" and a: "own a = Some d" "Node a \<noteq> uninstalled_dtable st"
    and brk: "cls < class_brk st"
    and st: "sa_store (dtables st) own (N + 2)" "sa_reliable (dtables st)"
    and hs: "methods_ready st d typed untyped hs" "h \<in> set hs"
    and tab: "table_is st d a e" "valid_entries st e"
    and sup: "inherits_from st own d a super_dtable inherited"
  shows "\<exists>st'. install_own_method cls super_dtable (Node a) st h = Some st' \<and> dt_frame st st' \<and>
     sa_store (dtables st') own N \<and> sa_reliable (dtables st') \<and>
     table_is st' d a (override typed untyped (same_imps st) inherited h e) \<and>
     (\<forall>b f j. own b = Some f \<longrightarrow> b \<noteq> a \<longrightarrow> sa_lookup (dtables st') b j = sa_lookup (dtables st) b j)"
proof -
  define E where "E = create_env own d cls a (typed h) (untyped h) h"
  have w: "dt_world E st" using leaf_world [of st cls own a d] leaf a by (simp add: E_def)
  obtain m where m: "meths st h = Some m" "sel_index st (m_selector m) = typed h"
    "get_untyped_idx st (m_selector m) = Some (untyped h)" "unat (typed h) < 2 ^ d" "unat (untyped h) < 2 ^ d"
    using hs by (auto simp: methods_ready_def)
  have e: "entry_at E st cls = Some (e (typed h))"
    using tab(1) m(4) by (simp add: E_def entry_at_def table_is_def)
  have mr: "method_ready E st m"
    using m hs(1) tab(2) e by (auto simp: method_ready_def E_def methods_ready_def valid_entries_def)
  have p: "card (pending E st) \<le> 1" unfolding E_def by (rule pending_create)
  then have "sa_store (dtables st) own (N + 2 * card (pending E st))" by (intro store_mono [OF st(1)]) simp
  then have sr: "store_ready E st N" using st(2) by (simp add: store_ready_def E_def)
  have c: "cls \<in> ie_classes E" by (simp add: E_def)
  have refused: "install_refused st m (e (typed h)) (inherited (typed h)) True \<longleftrightarrow>
      e (typed h) \<noteq> inherited (typed h) \<or> (\<exists>x. e (typed h) = Some x \<and> same_imps st x h)"
    using tab(2) m(1) by (cases "e (typed h)"; cases "inherited (typed h)")
      (auto simp: install_refused_def same_imp_def same_imps_def valid_entries_def)
  have run: "install_own_method cls super_dtable (Node a) st h =
      map_option fst (installMethodInDtable (Suc (class_brk st)) st cls (Some (Node a)) h (inherited (typed h)) True True)"
    using super_method_is [OF sup m(4)]
    by (simp only: install_own_method_def install_method_def bind_fst m(1,2) Option.bind.simps)
  show ?thesis
  proof (cases "install_refused st m (e (typed h)) (inherited (typed h)) True")
    case True
    with refused have "override typed untyped (same_imps st) inherited h e = e" by (simp add: override_def)
    moreover have "installMethodInDtable (Suc (class_brk st)) st cls (Some (Node a)) h (inherited (typed h)) True True
        = Some (st, False)"
      using install_refuses [OF w mr c e True] by (simp add: E_def)
    ultimately show ?thesis using run st tab(1) by (auto intro: store_mono)
  next
    case False
    have "card (pending E st) < Suc (class_brk st)" using p brk by simp
    from install_law [OF w sr mr this c e False, of True] obtain st' Y where
      st': "installMethodInDtable (Suc (class_brk st)) st cls (Some (Node a)) h (inherited (typed h)) True True
        = Some (st', True)" "installed_below E (e (typed h)) N st st' {cls} Y" by (auto simp: E_def)
    from st'(2) have i: "installed E (e (typed h)) N st st' Y" and "cls \<in> Y"
      using e c unfolding installed_below_def by auto
    then have Y: "Y = {cls}" by (auto simp: installed_def E_def)
    have look: "sa_lookup (dtables st') b j =
        (if b = a \<and> (same_slot d (typed h) j \<or> same_slot d (untyped h) j) then Some (Some h)
         else sa_lookup (dtables st) b j)" if "own b = Some f" for b f j
      using i that unfolding installed_def Y by (auto simp: E_def)
    have "override typed untyped (same_imps st) inherited h e = e(typed h := Some h, untyped h := Some h)"
      using False refused by (auto simp: override_def)
    then have "table_is st' d a (override typed untyped (same_imps st) inherited h e)"
      using tab(1) look [OF a(1)] m(4,5) by (auto simp: table_is_def same_slot_small)
    moreover have "sa_store (dtables st') own N" "sa_reliable (dtables st')" "dt_frame st st'"
      using i by (auto simp: installed_def store_ready_def E_def intro: store_mono)
    ultimately show ?thesis using run st'(1) look by auto
  qed
qed

section \<open>All methods of the class\<close>

lemma override_valid:
  assumes "valid_entries st e" "methods_ready st d typed untyped hs" "h \<in> set hs"
  shows "valid_entries st (override typed untyped same inherited h e)"
  using assms by (auto simp: valid_entries_def override_def methods_ready_def)

lemma frame_transfer:
  assumes f: "dt_frame st st'"
  shows "leaf_class st cls \<Longrightarrow> leaf_class st' cls"
    and "methods_ready st d typed untyped hs \<Longrightarrow> methods_ready st' d typed untyped hs"
    and "valid_entries st e \<Longrightarrow> valid_entries st' e" and "same_imps st' = same_imps st"
proof -
  note fs = dt_frame_fields [OF f]
  assume "leaf_class st cls"
  then obtain r ys where r: "classes st cls = Some r" "sib_list st (c_subclass_list r) ys" "length ys \<le> class_brk st"
    "\<forall>y \<in> set ys. y \<noteq> cls \<and> dtable_for_class st y = Some (Some (uninstalled_dtable st))"
    unfolding leaf_class_def by blast
  obtain r' where "classes st' cls = Some r'" "c_subclass_list r' = c_subclass_list r"
    using dt_frame_class [OF f r(1)] by metis
  then show "leaf_class st' cls" using r dt_frame_sib_list [OF f r(2)] unfolding leaf_class_def
    by (intro exI [of _ r'] exI [of _ ys]) (simp add: fs dt_frame_dtable_for_class [OF f])
next
  note fs = dt_frame_fields [OF f]
  show "methods_ready st d typed untyped hs \<Longrightarrow> methods_ready st' d typed untyped hs"
    by (simp add: methods_ready_def fs get_untyped_idx_def)
  show "valid_entries st e \<Longrightarrow> valid_entries st' e" by (simp add: valid_entries_def fs)
  show "same_imps st' = same_imps st" by (intro ext) (simp add: same_imps_def fs)
qed

lemma inherits_from_keeps:
  assumes "inherits_from st own d a super_dtable inherited"
    and "\<And>b f j. own b = Some f \<Longrightarrow> b \<noteq> a \<Longrightarrow> sa_lookup (dtables st') b j = sa_lookup (dtables st) b j"
  shows "inherits_from st' own d a super_dtable inherited"
  using assms by (cases super_dtable) (auto simp: inherits_from_def table_is_def)

lemma install_own_methods:
  assumes "leaf_class st cls" "own a = Some d" "Node a \<noteq> uninstalled_dtable st" "cls < class_brk st"
    and "sa_store (dtables st) own (N + 2 * length hs)" "sa_reliable (dtables st)"
    and "methods_ready st d typed untyped hs" "table_is st d a e" "valid_entries st e"
    and "inherits_from st own d a super_dtable inherited"
  shows "\<exists>st'. foldM (install_own_method cls super_dtable (Node a)) st hs = Some st' \<and> dt_frame st st' \<and>
     sa_store (dtables st') own N \<and> sa_reliable (dtables st') \<and>
     table_is st' d a (fold (override typed untyped (same_imps st) inherited) hs e) \<and>
     (\<forall>b f j. own b = Some f \<longrightarrow> b \<noteq> a \<longrightarrow> sa_lookup (dtables st') b j = sa_lookup (dtables st) b j)"
  using assms
proof (induction hs arbitrary: st e)
  case (Cons h hs)
  have "sa_store (dtables st) own (N + 2 * length hs + 2)" using Cons.prems(5) by (simp add: add.commute)
  from install_own_step [OF Cons.prems(1-4) this Cons.prems(6,7) _ Cons.prems(8-10), of h] obtain s1 where
    s1: "install_own_method cls super_dtable (Node a) st h = Some s1" "dt_frame st s1"
      "sa_store (dtables s1) own (N + 2 * length hs)" "sa_reliable (dtables s1)"
      "table_is s1 d a (override typed untyped (same_imps st) inherited h e)"
      "\<And>b f j. own b = Some f \<Longrightarrow> b \<noteq> a \<Longrightarrow> sa_lookup (dtables s1) b j = sa_lookup (dtables st) b j"
    by auto
  note tr = frame_transfer [OF s1(2)] and fs = dt_frame_fields [OF s1(2)]
  have "\<exists>st'. foldM (install_own_method cls super_dtable (Node a)) s1 hs = Some st' \<and> dt_frame s1 st' \<and>
     sa_store (dtables st') own N \<and> sa_reliable (dtables st') \<and>
     table_is st' d a (fold (override typed untyped (same_imps s1) inherited) hs
       (override typed untyped (same_imps st) inherited h e)) \<and>
     (\<forall>b f j. own b = Some f \<longrightarrow> b \<noteq> a \<longrightarrow> sa_lookup (dtables st') b j = sa_lookup (dtables s1) b j)"
  proof (rule Cons.IH [OF tr(1) [OF Cons.prems(1)] Cons.prems(2) _ _ s1(3,4) _ s1(5)])
    show "Node a \<noteq> uninstalled_dtable s1" "cls < class_brk s1" using Cons.prems(3,4) by (simp_all add: fs)
    show "methods_ready s1 d typed untyped hs"
      using tr(2) Cons.prems(7) by (auto simp: methods_ready_def)
    show "valid_entries s1 (override typed untyped (same_imps st) inherited h e)"
      by (intro tr(3) override_valid [OF Cons.prems(9,7)]) simp
    show "inherits_from s1 own d a super_dtable inherited"
      by (rule inherits_from_keeps [OF Cons.prems(10) s1(6)])
  qed
  then show ?case using s1(1,2,6) unfolding tr(4)
    by (fastforce intro: dt_frame_trans)
qed auto

section \<open>The table a class starts from\<close>

text \<open>
  The table of the superclass, or an empty one for a root class. The superclass of the root's
  metaclass is the root itself, whose table is not installed yet when that of the metaclass is
  created; it is passed in.
\<close>

definition starts_from ::
  "rt_state \<Rightarrow> nat \<Rightarrow> sa_ptr option \<Rightarrow> (nat \<rightharpoonup> nat) \<Rightarrow> nat \<Rightarrow> (uint32 \<Rightarrow> nat option) \<Rightarrow> bool" where
  "starts_from st cls root_dtable own d inherited \<longleftrightarrow>
     (\<exists>r. classes st cls = Some r \<and> resolved r \<and>
        (case c_super_class r of
           None \<Rightarrow> inherited = (\<lambda>_. None) \<and> d = dtable_depth st \<and> valid_depth d
         | Some (SuperName _) \<Rightarrow> False
         | Some (SuperClass s) \<Rightarrow> \<exists>rs p b. classes st s = Some rs \<and> dtable_for_class st s = Some (Some p) \<and>
             (if p = uninstalled_dtable st then c_isa rs = Some cls \<and> root_dtable = Some (Node b) else p = Node b) \<and>
             own b = Some d \<and> table_is st d b inherited))"

text \<open>The part of \<open>create_dtable_for_class\<close> before the methods are installed.\<close>

definition initial_dtable ::
  "rt_state \<Rightarrow> nat \<Rightarrow> sa_ptr option \<Rightarrow> super_ref option \<Rightarrow> (rt_state \<times> sa_ptr option \<times> sa_ptr) option" where
  "initial_dtable s1 cls root_dtable super =
     (case super of
        None \<Rightarrow> do { (t, d) \<leftarrow> new_sparse_array_or_abort s1 (dtable_depth s1); Some (t, None, d) }
      | Some (SuperName _) \<Rightarrow> None
      | Some (SuperClass parent) \<Rightarrow>
          do {
            sd0 \<leftarrow> dtable_for_class s1 parent;
            rs \<leftarrow> classes s1 parent;
            sd \<leftarrow> (if sd0 = Some (uninstalled_dtable s1)
                   then (if c_isa rs = Some cls then Some root_dtable else None)
                   else Some sd0);
            (t, d) \<leftarrow> copy_sparse_array_or_abort s1 sd;
            Some (t, sd, d)
          })"

lemma create_dtable_eq:
  assumes "classes st cls = Some r" "resolved r" "dtable_for_class st cls = Some (Some (uninstalled_dtable st))"
  shows "create_dtable_for_class st cls root_dtable =
    do { (s2, super_dtable, dtable) \<leftarrow> initial_dtable st cls root_dtable (c_super_class r);
         r2 \<leftarrow> classes s2 cls;
         s3 \<leftarrow> foldM (install_own_method cls super_dtable dtable) s2 (class_methods r2);
         Some (s3, Some dtable) }"
proof -
  have "class_getSuperclass (class_brk st + 3) st (Some cls) = Some (st, c_super_class r)"
    using assms(1,2) by (simp add: numeral_3_eq_3 getSuperclass_body_def)
  then show ?thesis using assms(3) unfolding create_dtable_for_class_def initial_dtable_def
    by (simp only: Option.bind.simps prod.case simp_thms if_False refl not_True_eq_False)
qed

lemma rt_copy:
  assumes "sa_store (dtables st) own (Suc N)" "sa_reliable (dtables st)" "own b = Some d"
  obtains h' c where "copy_sparse_array_or_abort st (Some (Node b)) = Some (st\<lparr>dtables := h'\<rparr>, Node c)"
    "own c = None" "sa_store h' (own(c \<mapsto> d)) N" "sa_reliable h'"
    "\<And>j. sa_lookup h' c j = sa_lookup (dtables st) b j"
    "\<And>a e j. own a = Some e \<Longrightarrow> sa_lookup h' a j = sa_lookup (dtables st) a j"
proof -
  from sarray.copy_law [OF assms(1,3)] assms(2) obtain h' c where
    h': "sa_copy (dtables st) b = Some (h', Some c)" "own c = None" "sa_store h' (own(c \<mapsto> d)) N" "sa_reliable h'"
      "\<And>j. sa_lookup h' c j = sa_lookup (dtables st) b j"
      "\<And>a e j. own a = Some e \<Longrightarrow> sa_lookup h' a j = sa_lookup (dtables st) a j"
    by (fastforce split: option.splits)
  from h'(1) obtain r where "SparseArrayCopy (dtables st) (Some (Node b)) = Some (h', r)"
    "(case r of Some (Node c) \<Rightarrow> Some c | _ \<Rightarrow> None) = Some c"
    by (auto simp: sa_copy_def simp del: SparseArrayCopy.simps)
  then have "SparseArrayCopy (dtables st) (Some (Node b)) = Some (h', Some (Node c))"
    by (auto simp del: SparseArrayCopy.simps split: option.splits sa_ptr.splits)
  then have "copy_sparse_array_or_abort st (Some (Node b)) = Some (st\<lparr>dtables := h'\<rparr>, Node c)"
    by (simp add: copy_sparse_array_or_abort_def del: SparseArrayCopy.simps)
  from that [OF this h'(2-6)] show ?thesis .
qed

lemma rt_new:
  assumes "sa_store (dtables st) own (Suc N)" "sa_reliable (dtables st)" "valid_depth d"
  obtains h' c where "new_sparse_array_or_abort st d = Some (st\<lparr>dtables := h'\<rparr>, Node c)"
    "own c = None" "sa_store h' (own(c \<mapsto> d)) N" "sa_reliable h'"
    "\<And>j. sa_lookup h' c j = Some None"
    "\<And>a e j. own a = Some e \<Longrightarrow> sa_lookup h' a j = sa_lookup (dtables st) a j"
  using assms(1,3)
proof (cases rule: sa_new_law)
  case (fail h')
  then show ?thesis using assms(2) by simp
next
  case (ok h' c)
  then have "new_sparse_array_or_abort st d = Some (st\<lparr>dtables := h'\<rparr>, Node c)" "sa_reliable h'"
    using assms(2) by (simp_all add: new_sparse_array_or_abort_def)
  with ok show ?thesis using that by blast
qed

lemma initial_dtable_law:
  assumes s: "starts_from st cls root_dtable own d inherited" "classes st cls = Some r"
    and st: "sa_store (dtables st) own (Suc N)" "sa_reliable (dtables st)"
  obtains h' sd a where "initial_dtable st cls root_dtable (c_super_class r) = Some (st\<lparr>dtables := h'\<rparr>, sd, Node a)"
    "own a = None" "sa_store h' (own(a \<mapsto> d)) N" "sa_reliable h'"
    "table_is (st\<lparr>dtables := h'\<rparr>) d a inherited"
    "\<And>b e j. own b = Some e \<Longrightarrow> sa_lookup h' b j = sa_lookup (dtables st) b j"
    "inherits_from (st\<lparr>dtables := h'\<rparr>) (own(a \<mapsto> d)) d a sd inherited"
proof (cases "c_super_class r")
  case None
  then have d: "inherited = (\<lambda>_. None)" "d = dtable_depth st" "valid_depth d"
    using s by (auto simp: starts_from_def)
  from rt_new [OF st d(3)] obtain h' c where n: "new_sparse_array_or_abort st d = Some (st\<lparr>dtables := h'\<rparr>, Node c)"
    "own c = None" "sa_store h' (own(c \<mapsto> d)) N" "sa_reliable h'" "\<And>j. sa_lookup h' c j = Some None"
    "\<And>a e j. own a = Some e \<Longrightarrow> sa_lookup h' a j = sa_lookup (dtables st) a j" by blast
  show ?thesis
    by (rule that [of h' None c]) (use None d n in \<open>auto simp: initial_dtable_def table_is_def inherits_from_def\<close>)
next
  case (Some sup)
  with s obtain s' rs p b where b: "sup = SuperClass s'" "classes st s' = Some rs" "dtable_for_class st s' = Some (Some p)"
    "if p = uninstalled_dtable st then c_isa rs = Some cls \<and> root_dtable = Some (Node b) else p = Node b"
    "own b = Some d" "table_is st d b inherited"
    by (auto simp: starts_from_def split: super_ref.splits)
  from rt_copy [OF st b(5)] obtain h' c where
    n: "copy_sparse_array_or_abort st (Some (Node b)) = Some (st\<lparr>dtables := h'\<rparr>, Node c)"
    "own c = None" "sa_store h' (own(c \<mapsto> d)) N" "sa_reliable h'"
    "\<And>j. sa_lookup h' c j = sa_lookup (dtables st) b j"
    "\<And>a e j. own a = Some e \<Longrightarrow> sa_lookup h' a j = sa_lookup (dtables st) a j" by blast
  have bc: "b \<noteq> c" using b(5) n(2) by auto
  show ?thesis
    by (rule that [of h' "Some (Node b)" c])
      (use Some b n bc in \<open>auto simp: initial_dtable_def table_is_def inherits_from_def split: if_splits\<close>)
qed

text \<open>The table that \<open>create_dtable_for_class\<close> makes is the abstract one.\<close>

lemma create_dtable_law:
  assumes s: "starts_from st cls root_dtable own d inherited" "classes st cls = Some r"
    and un: "dtable_for_class st cls = Some (Some (uninstalled_dtable st))"
      "uninstalled_dtable st = Node q" "own q \<noteq> None"
    and leaf: "leaf_class st cls" "cls < class_brk st"
    and st: "sa_store (dtables st) own (N + 1 + 2 * length (class_methods r))" "sa_reliable (dtables st)"
    and hs: "methods_ready st d typed untyped (class_methods r)" and v: "valid_entries st inherited"
  shows "\<exists>st' a. create_dtable_for_class st cls root_dtable = Some (st', Some (Node a)) \<and> own a = None \<and>
     dt_frame st st' \<and> sa_store (dtables st') (own(a \<mapsto> d)) N \<and> sa_reliable (dtables st') \<and>
     table_is st' d a (fold (override typed untyped (same_imps st) inherited) (class_methods r) inherited) \<and>
     (\<forall>b e j. own b = Some e \<longrightarrow> sa_lookup (dtables st') b j = sa_lookup (dtables st) b j)"
proof -
  have res: "resolved r" using s by (auto simp: starts_from_def)
  have "sa_store (dtables st) own (Suc (N + 2 * length (class_methods r)))" using st(1) by simp
  from initial_dtable_law [OF s this st(2)] obtain h1 sd a where
    n: "initial_dtable st cls root_dtable (c_super_class r) = Some (st\<lparr>dtables := h1\<rparr>, sd, Node a)"
    "own a = None" "sa_store h1 (own(a \<mapsto> d)) (N + 2 * length (class_methods r))" "sa_reliable h1"
    "table_is (st\<lparr>dtables := h1\<rparr>) d a inherited"
    "\<And>b e j. own b = Some e \<Longrightarrow> sa_lookup h1 b j = sa_lookup (dtables st) b j"
    "inherits_from (st\<lparr>dtables := h1\<rparr>) (own(a \<mapsto> d)) d a sd inherited" by blast
  let ?s = "st\<lparr>dtables := h1\<rparr>"
  have f: "dt_frame st ?s" by simp
  note tr = frame_transfer [OF f]
  have "Node a \<noteq> uninstalled_dtable ?s" using un n(2) by auto
  moreover have "sa_store (dtables ?s) (own(a \<mapsto> d)) (N + 2 * length (class_methods r))" "sa_reliable (dtables ?s)"
    "(own(a \<mapsto> d)) a = Some d" "cls < class_brk ?s" using n(3,4) leaf(2) by simp_all
  ultimately obtain st' where st': "foldM (install_own_method cls sd (Node a)) ?s (class_methods r) = Some st'"
    "dt_frame ?s st'" "sa_store (dtables st') (own(a \<mapsto> d)) N" "sa_reliable (dtables st')"
    "table_is st' d a (fold (override typed untyped (same_imps ?s) inherited) (class_methods r) inherited)"
    "\<And>b e j. (own(a \<mapsto> d)) b = Some e \<Longrightarrow> b \<noteq> a \<Longrightarrow> sa_lookup (dtables st') b j = sa_lookup (dtables ?s) b j"
    using install_own_methods [OF tr(1) [OF leaf(1)] _ _ _ _ _ tr(2) [OF hs] n(5) tr(3) [OF v] n(7)] by blast
  have "sa_lookup (dtables st') b j = sa_lookup (dtables st) b j" if "own b = Some e" for b e j
    using st'(6) [of b e j] n(2,6) that by (cases "b = a") auto
  then show ?thesis using create_dtable_eq [OF s(2) res un(1)] n(1,2) s(2) st'(1-5) dt_frame_trans [OF f st'(2)]
    unfolding tr(4) by auto
qed

end
