(* ===== verification/Objc_Dispatch_Thms.thy ===== *)
theory Objc_Dispatch_Thms
  imports Objc_Dispatch_Create
begin

text \<open>
  The properties of dispatch tables: creation refines method resolution along the superclass
  chain, installation reaches exactly the subclasses that inherit, and tables grow to the least
  sufficient depth.
\<close>

section \<open>An example\<close>

text \<open>
  A root class 0 with subclasses 1 and 2. Classes 0 and 1 have tables, with roots 1 and 2; class 2
  has none yet and implements one method.
\<close>

definition demo_reg :: "string \<Rightarrow> string option \<Rightarrow> selector option" where
  "demo_reg n t = Some \<lparr>sel_name = n, sel_type = t\<rparr>"

definition demo_index :: "selector \<Rightarrow> uint32" where
  "demo_index s = (if sel_name s = ''foo'' then (if sel_type s = None then 1 else 2) else 3)"

definition demo_class :: "nat option \<Rightarrow> super_ref option \<Rightarrow> nat \<Rightarrow> objc_class" where
  "demo_class sib super t =
     (plain_class \<lparr>cs_addr = 0, cs_text = ''A''\<rparr> None super)
       \<lparr>c_dtable := Some (Node t), c_sibling_class := sib, c_info := objc_class_flag_resolved\<rparr>"

definition demo_new :: "nat sa_heap \<Rightarrow> nat sa_heap" where
  "demo_new h = fst (the (SparseArrayNewWithDepth h 8))"

definition demo_heap :: "nat sa_heap" where
  "demo_heap = demo_new (demo_new (demo_new (sa_empty_heap (\<lambda>_. False))))"

definition demo_list :: objc_method_list where
  "demo_list = \<lparr>ml_count = 1, ml_size = sizeof_objc_method, ml_methods = [0]\<rparr>"

definition demo_state :: rt_state where
  "demo_state = (boot_state demo_reg demo_index)
     \<lparr>classes := [0 \<mapsto> (demo_class None None 1)\<lparr>c_subclass_list := Some 1\<rparr>,
                  1 \<mapsto> demo_class (Some 2) (Some (SuperClass 0)) 2,
                  2 \<mapsto> (demo_class None (Some (SuperClass 0)) 0)\<lparr>c_methods := [demo_list]\<rparr>],
      class_brk := 3, dtables := demo_heap,
      meths := [0 \<mapsto> \<lparr>m_imp = 77, m_selector = \<lparr>sel_name = ''foo'', sel_type = Some ''v''\<rparr>, m_types = None\<rparr>]\<rparr>"

abbreviation demo_own :: "nat \<rightharpoonup> nat" where
  "demo_own \<equiv> [0 \<mapsto> 8, 1 \<mapsto> 8, 2 \<mapsto> 8]"

lemma demo_new_law:
  assumes "sa_store h own (Suc N)" "sa_reliable h" "sa_brk h = c"
  shows "sa_store (demo_new h) (own(c \<mapsto> 8)) N" "sa_reliable (demo_new h)" "sa_brk (demo_new h) = Suc c"
    "\<And>j. sa_lookup (demo_new h) c j = Some None"
    "\<And>b e j. own b = Some e \<Longrightarrow> sa_lookup (demo_new h) b j = sa_lookup h b j"
proof -
  have v: "valid_depth 8" by (simp add: valid_depth_def base_shift_def)
  have brk: "SparseArrayNewWithDepth h 8 = Some (demo_new h, Some (Node c))" "sa_brk (demo_new h) = Suc c"
    using assms(2,3)
    by (simp_all add: demo_new_def SparseArrayNewWithDepth_def sa_reliable_def valid_depth_def base_shift_def
        sa_calloc_def sa_set_def init_pointers_def)
  from assms(1) v show "sa_store (demo_new h) (own(c \<mapsto> 8)) N" "sa_reliable (demo_new h)" "sa_brk (demo_new h) = Suc c"
    "\<And>j. sa_lookup (demo_new h) c j = Some None"
    "\<And>b e j. own b = Some e \<Longrightarrow> sa_lookup (demo_new h) b j = sa_lookup h b j"
    by (cases rule: sa_new_law; use brk assms(2) in \<open>simp\<close>)+
qed

lemma demo_heap_law:
  "sa_store demo_heap demo_own 20" "sa_reliable demo_heap"
  "sa_lookup demo_heap 0 j = Some None" "sa_lookup demo_heap 1 j = Some None" "sa_lookup demo_heap 2 j = Some None"
proof -
  let ?h0 = "sa_empty_heap (\<lambda>_. False) :: nat sa_heap"
  have h0: "sa_store ?h0 Map.empty (Suc 22)" "sa_reliable ?h0" "sa_brk ?h0 = 0"
    using sa_store_empty [of 23] by (simp_all add: sa_reliable_def) (simp_all add: sa_empty_heap_def)
  note h1 = demo_new_law [OF h0]
  from h1(1) have s1: "sa_store (demo_new ?h0) [0 \<mapsto> 8] (Suc 21)" by simp
  note h2 = demo_new_law [OF s1 h1(2,3)]
  from h2(1) have s2: "sa_store (demo_new (demo_new ?h0)) [0 \<mapsto> 8, Suc 0 \<mapsto> 8] (Suc 20)" by simp
  note h3 = demo_new_law [OF s2 h2(2,3)]
  show "sa_store demo_heap demo_own 20" "sa_reliable demo_heap"
    using h3(1,2) by (simp_all add: demo_heap_def numeral_2_eq_2)
  show "sa_lookup demo_heap 0 j = Some None" "sa_lookup demo_heap 1 j = Some None" "sa_lookup demo_heap 2 j = Some None"
    using h1(4) h2(4,5) h3(4,5) by (simp_all add: demo_heap_def numeral_2_eq_2)
qed

section \<open>Properties\<close>

text \<open>
  C28: installing a method in the table of a class either is refused, without any change, when the
  entry to replace is not the expected one or has the same implementation already; or returns and
  puts the method, under its selector and under the untyped variant of that selector, into the
  table of the class and of exactly those subclasses that inherit the replaced entry through
  classes with tables, changing no other entry of any table; the version of the method caches
  grows by the number of tables in which an entry was replaced.
\<close>

theorem method_install_propagates:
  assumes "dt_world E st" "store_ready E st N" "method_ready E st m"
    and "ie_classes E \<subseteq> {..<class_brk st}" "c \<in> ie_classes E" "entry_at E st c = Some old"
    and "unat (ie_typed E) < 2 ^ ie_depth E" "unat (ie_untyped E) < 2 ^ ie_depth E"
  shows "if install_refused st m old method_to_replace replaceExisting
     then install_method st c (Some (Node (ie_table E c))) (ie_method E) method_to_replace replaceExisting
       = Some (st, False)
     else \<exists>st'. install_method st c (Some (Node (ie_table E c))) (ie_method E) method_to_replace replaceExisting
         = Some (st', True) \<and> dt_frame st st' \<and>
       (\<forall>k j. k \<in> ie_classes E \<longrightarrow> unat j < 2 ^ ie_depth E \<longrightarrow>
          dt_lookup st' (Some (Node (ie_table E k))) j =
            (if (c, k) \<in> (inherits_old E old st)\<^sup>* \<and> (j = ie_typed E \<or> j = ie_untyped E)
             then Some (Some (ie_method E)) else dt_lookup st (Some (Node (ie_table E k))) j)) \<and>
       objc_method_cache_version st' = objc_method_cache_version st +
         (if old = None then 0 else of_nat (card {k. (c, k) \<in> (inherits_old E old st)\<^sup>*}))"
proof (cases "install_refused st m old method_to_replace replaceExisting")
  case True
  then show ?thesis using install_refuses [OF assms(1,3,5,6) True] by (simp add: install_method_def)
next
  case False
  have "card (pending E st) \<le> class_brk st"
    using card_mono [of "{..<class_brk st}" "pending E st"] assms(4) by (auto simp: pending_def)
  then have "card (pending E st) < Suc (class_brk st)" by simp
  from install_law [OF assms(1-3) this assms(5,6) False, of True] obtain st' Y where
    st': "install_method st c (Some (Node (ie_table E c))) (ie_method E) method_to_replace replaceExisting
      = Some (st', True)" "installed_below E old N st st' {c} Y" by (auto simp: install_method_def)
  from st'(2) have i: "installed E old N st st' Y" "caches_bumped old st st' Y"
    and Y: "Y = {k. (c, k) \<in> (inherits_old E old st)\<^sup>*}"
    using assms(5,6) unfolding installed_below_def by auto
  have sub: "Y \<subseteq> ie_classes E" using i(1) by (simp add: installed_def)
  have "dt_lookup st' (Some (Node (ie_table E k))) j =
      (if k \<in> Y \<and> (j = ie_typed E \<or> j = ie_untyped E) then Some (Some (ie_method E))
       else dt_lookup st (Some (Node (ie_table E k))) j)" if "k \<in> ie_classes E" "unat j < 2 ^ ie_depth E" for k j
  proof -
    have k: "ie_own E (ie_table E k) = Some (ie_depth E)" "inj_on (ie_table E) (ie_classes E)"
      using assms(1) that(1) by (simp_all add: dt_world_def)
    have "ie_table E k \<in> ie_table E ` Y \<longleftrightarrow> k \<in> Y" using inj_on_image_mem_iff [OF k(2) that(1) sub] .
    then show ?thesis using i(1) k(1) that(2) assms(7,8)
      by (auto simp: installed_def dt_lookup_def sa_lookup_def same_slot_small)
  qed
  then show ?thesis using False st'(1) i unfolding Y by (auto simp: installed_def caches_bumped_def)
qed

definition demo_env :: install_env where
  "demo_env = \<lparr>ie_classes = {0, 1}, ie_table = Suc, ie_own = demo_own, ie_depth = 8, ie_typed = 2,
               ie_untyped = 1, ie_method = 0\<rparr>"

lemma demo_dispatch_world: "dt_world demo_env demo_state" "store_ready demo_env demo_state 16"
  "method_ready demo_env demo_state (the (meths demo_state 0))" "entry_at demo_env demo_state 0 = Some None"
proof -
  note d = demo_state_def demo_class_def plain_class_def boot_state_def dtable_for_class_def
    classHasInstalledDtable_def
  have "\<exists>r. classes demo_state 0 = Some r \<and> sib_list demo_state (c_subclass_list r) [1, 2]"
    "\<exists>r. classes demo_state 1 = Some r \<and> sib_list demo_state (c_subclass_list r) []" by (simp_all add: d)
  moreover have "\<forall>y \<in> set [1, 2]. dtable_for_class demo_state y =
        Some (Some (if y \<in> {0, 1} then Node (Suc y) else uninstalled_dtable demo_state))"
    "length [1, 2] \<le> class_brk demo_state" by (simp_all add: d)
  ultimately have "\<exists>r ys. classes demo_state k = Some r \<and> sib_list demo_state (c_subclass_list r) ys \<and>
      length ys \<le> class_brk demo_state \<and> (\<forall>y \<in> set ys. dtable_for_class demo_state y =
        Some (Some (if y \<in> {0, 1} then Node (Suc y) else uninstalled_dtable demo_state)))" if "k \<in> {0, 1}" for k
    using that by (metis (no_types, lifting) empty_iff empty_set insert_iff le0 list.size(3))
  moreover have "Node (Suc k) \<noteq> uninstalled_dtable demo_state" for k by (simp add: d)
  moreover have "demo_own (Suc k) = Some 8" if "k \<in> {0, 1}" for k using that by (auto simp: numeral_2_eq_2)
  moreover have "ie_classes demo_env = {0, 1}" "ie_table demo_env = Suc" "ie_own demo_env = demo_own"
    "ie_depth demo_env = 8" by (simp_all add: demo_env_def)
  ultimately show "dt_world demo_env demo_state"
    by (simp only: dt_world_def finite.intros inj_Suc simp_thms ball_simps HOL.refl) (simp add: inj_on_def)
  show "entry_at demo_env demo_state 0 = Some None"
    using demo_heap_law(4) by (simp add: entry_at_def demo_env_def demo_state_def)
  have "pending demo_env demo_state = {0, 1}"
    using demo_heap_law(4,5) by (auto simp: pending_def entry_at_def demo_env_def demo_state_def numeral_2_eq_2)
  then show "store_ready demo_env demo_state 16"
    using demo_heap_law(1,2) by (simp add: store_ready_def demo_env_def demo_state_def)
  show "method_ready demo_env demo_state (the (meths demo_state 0))"
    using demo_heap_law(4,5) by (auto simp: method_ready_def demo_env_def demo_state_def boot_state_def demo_reg_def
        demo_index_def get_untyped_idx_def entry_at_def numeral_2_eq_2)
qed

theorem method_install_propagates_witness:
  "\<exists>st'. install_method demo_state 0 (Some (Node 1)) 0 None True = Some (st', True) \<and>
     dt_lookup st' (Some (Node 2)) 2 = Some (Some 0) \<and> dt_lookup st' (Some (Node 2)) 7 = Some None"
proof -
  have r: "\<not> install_refused demo_state (the (meths demo_state 0)) None None True"
    by (simp add: install_refused_def same_imp_def)
  have sub: "ie_classes demo_env \<subseteq> {..<class_brk demo_state}" "0 \<in> ie_classes demo_env"
    "unat (ie_typed demo_env) < 2 ^ ie_depth demo_env" "unat (ie_untyped demo_env) < 2 ^ ie_depth demo_env"
    by (simp_all add: demo_env_def demo_state_def)
  have "(0, 1) \<in> inherits_old demo_env None demo_state"
    using demo_heap_law(5) by (auto simp: inherits_old_def subclass_of_def demo_env_def demo_state_def demo_class_def
        plain_class_def entry_at_def numeral_2_eq_2 intro!: exI [of _ "[1, 2]"])
  then have "(0, 1) \<in> (inherits_old demo_env None demo_state)\<^sup>*" by blast
  moreover have "dt_lookup demo_state (Some (Node 2)) 7 = Some None"
    using demo_heap_law(5) by (simp add: dt_lookup_def demo_state_def sa_lookup_def)
  moreover have "ie_table demo_env 1 = 2" "ie_table demo_env 0 = 1" "ie_method demo_env = 0" "1 \<in> ie_classes demo_env"
    "ie_typed demo_env = 2" "ie_untyped demo_env = 1" "ie_depth demo_env = 8" by (simp_all add: demo_env_def)
  moreover from method_install_propagates [OF demo_dispatch_world(1-3) sub(1,2) demo_dispatch_world(4) sub(3,4), of None True] r
  obtain st' where "install_method demo_state 0 (Some (Node (ie_table demo_env 0))) (ie_method demo_env) None True
      = Some (st', True)" and l: "\<And>k j. k \<in> ie_classes demo_env \<Longrightarrow> unat j < 2 ^ ie_depth demo_env \<Longrightarrow>
      dt_lookup st' (Some (Node (ie_table demo_env k))) j =
        (if (0, k) \<in> (inherits_old demo_env None demo_state)\<^sup>* \<and> (j = ie_typed demo_env \<or> j = ie_untyped demo_env)
         then Some (Some (ie_method demo_env)) else dt_lookup demo_state (Some (Node (ie_table demo_env k))) j)"
    by auto
  ultimately show ?thesis using l [of 1 2] l [of 1 7] by simp
qed

text \<open>
  C29: \<open>create_dtable_for_class\<close> returns a new table that implements method resolution: it is the
  table of the superclass with the methods of the class installed in the order of its method
  lists, where a method overrides an entry that is still inherited and has another
  implementation. An index that is not the untyped variant of another selector of the class
  holds the first method of the class for it that does not repeat the inherited implementation,
  or else what the superclass has. No other table changes.
\<close>

theorem dtable_creation_refines:
  assumes "starts_from st cls root_dtable own d inherited" "classes st cls = Some r"
    and "dtable_for_class st cls = Some (Some (uninstalled_dtable st))"
      "uninstalled_dtable st = Node q" "own q \<noteq> None"
    and "leaf_class st cls" "cls < class_brk st"
    and "sa_store (dtables st) own (N + 1 + 2 * length (class_methods r))" "sa_reliable (dtables st)"
    and "methods_ready st d typed untyped (class_methods r)" "valid_entries st inherited"
  shows "\<exists>st' a. create_dtable_for_class st cls root_dtable = Some (st', Some (Node a)) \<and> own a = None \<and>
     dt_frame st st' \<and> sa_store (dtables st') (own(a \<mapsto> d)) N \<and>
     (\<forall>j. unat j < 2 ^ d \<longrightarrow> dt_lookup st' (Some (Node a)) j =
        Some (fold (override typed untyped (same_imps st) inherited) (class_methods r) inherited j)) \<and>
     (\<forall>j. unat j < 2 ^ d \<longrightarrow>
        (\<forall>h \<in> set (class_methods r). inherited j \<noteq> Some h \<and> (untyped h = j \<longrightarrow> typed h = j)) \<longrightarrow>
        dt_lookup st' (Some (Node a)) j =
          Some (own_or_inherited typed (same_imps st) inherited (class_methods r) j)) \<and>
     (\<forall>b e j. own b = Some e \<longrightarrow> dt_lookup st' (Some (Node b)) j = dt_lookup st (Some (Node b)) j)"
proof -
  from create_dtable_law [OF assms] obtain st' a where st':
    "create_dtable_for_class st cls root_dtable = Some (st', Some (Node a))" "own a = None" "dt_frame st st'"
    "sa_store (dtables st') (own(a \<mapsto> d)) N"
    "table_is st' d a (fold (override typed untyped (same_imps st) inherited) (class_methods r) inherited)"
    "\<And>b e j. own b = Some e \<Longrightarrow> sa_lookup (dtables st') b j = sa_lookup (dtables st) b j" by blast
  have "dt_lookup st' (Some (Node a)) j =
      Some (fold (override typed untyped (same_imps st) inherited) (class_methods r) inherited j)"
    if "unat j < 2 ^ d" for j
    using st'(5) that by (simp add: table_is_def dt_lookup_def sa_lookup_def)
  moreover from this have "dt_lookup st' (Some (Node a)) j =
      Some (own_or_inherited typed (same_imps st) inherited (class_methods r) j)"
    if "unat j < 2 ^ d"
      "\<forall>h \<in> set (class_methods r). inherited j \<noteq> Some h \<and> (untyped h = j \<longrightarrow> typed h = j)" for j
    using fold_override [of "class_methods r" untyped j typed inherited "same_imps st"] that by simp
  moreover have "dt_lookup st' (Some (Node b)) j = dt_lookup st (Some (Node b)) j" if "own b = Some e" for b e j
    using st'(6) [OF that] by (simp add: dt_lookup_def sa_lookup_def)
  ultimately show ?thesis using st'(1-4) by blast
qed

theorem dtable_creation_refines_witness:
  "\<exists>st' a. create_dtable_for_class demo_state 2 None = Some (st', Some (Node a)) \<and>
     dt_lookup st' (Some (Node a)) 2 = Some (Some 0)"
proof -
  note d = demo_state_def demo_class_def plain_class_def boot_state_def
  define r where "r = (demo_class None (Some (SuperClass 0)) 0)\<lparr>c_methods := [demo_list]\<rparr>"
  have r: "classes demo_state 2 = Some r" "class_methods r = [0]"
    by (simp_all add: d r_def class_methods_def ml_items_def demo_list_def)
  have "starts_from demo_state 2 None demo_own 8 (\<lambda>_. None)"
    using demo_heap_law(4) by (auto simp: starts_from_def d r_def dtable_for_class_def classHasInstalledDtable_def
        table_is_def resolved_def objc_test_class_flag_def)
  moreover have "dtable_for_class demo_state 2 = Some (Some (uninstalled_dtable demo_state))"
    "uninstalled_dtable demo_state = Node 0" "demo_own 0 \<noteq> None" "2 < class_brk demo_state"
    by (simp_all add: d dtable_for_class_def classHasInstalledDtable_def)
  moreover have "leaf_class demo_state 2"
    by (auto simp: leaf_class_def d intro!: exI [of _ "[]"])
  moreover have "sa_store (dtables demo_state) demo_own (17 + 1 + 2 * length (class_methods r))"
    "sa_reliable (dtables demo_state)"
    using demo_heap_law(1,2) by (simp_all add: d r)
  moreover have "methods_ready demo_state 8 (\<lambda>_. 2) (\<lambda>_. 1) (class_methods r)" "valid_entries demo_state (\<lambda>_. None)"
    by (simp_all add: methods_ready_def valid_entries_def r d demo_reg_def demo_index_def get_untyped_idx_def)
  ultimately have "\<exists>st' a. create_dtable_for_class demo_state 2 None = Some (st', Some (Node a)) \<and>
     (\<forall>j. unat j < 2 ^ 8 \<longrightarrow> dt_lookup st' (Some (Node a)) j =
        Some (fold (override (\<lambda>_. 2) (\<lambda>_. 1) (same_imps demo_state) (\<lambda>_. None)) (class_methods r) (\<lambda>_. None) j))"
    using dtable_creation_refines [of demo_state 2 None demo_own 8 "\<lambda>_. None" r 0 17 "\<lambda>_. 2" "\<lambda>_. 1"] r(1) by blast
  then obtain st' a where s: "create_dtable_for_class demo_state 2 None = Some (st', Some (Node a))"
    and l: "\<And>j. unat j < 2 ^ 8 \<Longrightarrow> dt_lookup st' (Some (Node a)) j =
        Some (fold (override (\<lambda>_. 2) (\<lambda>_. 1) (same_imps demo_state) (\<lambda>_. None)) (class_methods r) (\<lambda>_. None) j)"
    by blast
  have "dt_lookup st' (Some (Node a)) 2 = Some (Some 0)" using l [of 2] by (simp add: r override_def)
  with s show ?thesis by blast
qed

section \<open>Growth\<close>

lemma capacity_less: "d \<le> 32 \<Longrightarrow> dtable_capacity d < ucast (n :: uint32) \<longleftrightarrow> 2 ^ d < unat n"
proof -
  assume "d \<le> 32"
  then have "(2 :: nat) ^ d < 2 ^ 64" by (intro power_strict_increasing) auto
  then have "unat (dtable_capacity d) = 2 ^ d"
    unfolding dtable_capacity_def unsigned_push_bit_eq by (simp add: take_bit_eq_mod push_bit_eq_mult)
  moreover have "unat (ucast n :: uint64) = unat n" using unat_u32_lt [of n] by (simp add: unsigned_ucast_eq take_bit_eq_mod del: unat_u32_lt)
  ultimately show ?thesis by (simp add: word_less_nat_alt)
qed

lemma grow_depth_least:
  assumes "valid_depth d"
  shows "valid_depth (grow_depth d n) \<and> d \<le> grow_depth d n \<and> unat n \<le> 2 ^ grow_depth d n \<and>
    (\<forall>d'. valid_depth d' \<longrightarrow> d \<le> d' \<longrightarrow> unat n \<le> 2 ^ d' \<longrightarrow> grow_depth d n \<le> d')"
  using assms
proof (induction d n rule: grow_depth.induct)
  case (1 d n)
  have le: "d \<le> 32" using 1 by (simp add: valid_depth_def)
  show ?case
  proof (cases "d < 32 \<and> dtable_capacity d < ucast n")
    case True
    then have v: "valid_depth (d + 8)" using 1(2) by (auto simp: valid_depth_def base_shift_def)
    have "d + 8 \<le> d'" if "valid_depth d'" "d \<le> d'" "unat n \<le> 2 ^ d'" for d'
    proof -
      have "d \<noteq> d'" using True that(3) capacity_less [OF le, of n] by auto
      then show ?thesis using that(1,2) 1(2) by (auto simp: valid_depth_def base_shift_def) presburger
    qed
    then show ?thesis using 1(1) [OF True v] True by (auto simp: grow_depth.simps [of d n])
  next
    case False
    have "unat n \<le> 2 ^ d"
    proof (cases "d = 32")
      case True
      then show ?thesis using less_imp_le [OF unat_u32_lt [of n]] by (simp del: unat_u32_lt)
    next
      case ne: False
      then show ?thesis using False le capacity_less [OF le, of n] by auto
    qed
    then show ?thesis using False 1(2) by (auto simp: grow_depth.simps [of d n])
  qed
qed

text \<open>
  The depth chosen for a number of selectors is a depth the sparse arrays support, not below
  the current one, with room for all of them, and the least such.
\<close>

theorem dtable_depth_least:
  assumes "valid_depth (dtable_depth st)"
  shows "valid_depth (dtable_depth_for_size st n) \<and> dtable_depth st \<le> dtable_depth_for_size st n \<and>
    unat n \<le> 2 ^ dtable_depth_for_size st n \<and>
    (\<forall>d. valid_depth d \<longrightarrow> dtable_depth st \<le> d \<longrightarrow> unat n \<le> 2 ^ d \<longrightarrow> dtable_depth_for_size st n \<le> d)"
  unfolding dtable_depth_for_size_def by (rule grow_depth_least [OF assms])

theorem dtable_depth_least_witness:
  "unat (70000 :: uint32) \<le> 2 ^ dtable_depth_for_size demo_state 70000 \<and> dtable_depth_for_size demo_state 70000 \<le> 24"
proof -
  have "valid_depth (dtable_depth demo_state)" "dtable_depth demo_state \<le> 24"
    by (simp_all add: demo_state_def boot_state_def valid_depth_def base_shift_def)
  with dtable_depth_least [of demo_state 70000] show ?thesis by (auto simp: valid_depth_def base_shift_def)
qed

section \<open>An untyped entry replaced without a new version\<close>

text \<open>A second method of the same name and with other types.\<close>

definition demo_state2 :: rt_state where
  "demo_state2 = demo_state
     \<lparr>meths := (meths demo_state)(1 \<mapsto>
        \<lparr>m_imp = 78, m_selector = \<lparr>sel_name = ''foo'', sel_type = Some ''i''\<rparr>, m_types = None\<rparr>),
      sel_index := (\<lambda>s. if sel_type s = Some ''i'' then 4 else demo_index s)\<rparr>"

definition demo_step1 :: "(rt_state \<times> bool) option" where
  "demo_step1 = install_method demo_state2 1 (Some (Node 2)) 0 None True"

definition demo_step2 :: "(rt_state \<times> bool) option" where
  "demo_step2 = do { (s1, _) \<leftarrow> demo_step1; install_method s1 1 (Some (Node 2)) 1 None True }"

text \<open>
  An entry of an untyped selector can change without a new version of the method caches.
  Method 1 has the name of method 0 and other types. Installing it after method 0 replaces the
  entry of the untyped selector, which a client may have cached, but the entry of its own typed
  selector was empty, so the version stays what it was.
\<close>

theorem untyped_entry_goes_stale:
  "map_option (\<lambda>(s, _). (dt_lookup s (Some (Node 2)) 1, objc_method_cache_version s)) demo_step1
     = Some (Some (Some 0), 0) \<and>
   map_option (\<lambda>(s, _). (dt_lookup s (Some (Node 2)) 1, objc_method_cache_version s)) demo_step2
     = Some (Some (Some 1), 0)"
  by code_simp

end
