(* ===== verification/Objc_Initialize_Thms.thy ===== *)
theory Objc_Initialize_Thms
  imports Objc_Dispatch_Create
begin

text \<open>
  Initialisation of classes: \<open>+initialize\<close> is sent at most once to every class, whatever the
  \<open>+initialize\<close> methods do to the runtime in between.
\<close>

section \<open>The initialised flag only spreads\<close>

definition is_init :: "objc_class \<Rightarrow> bool" where
  "is_init r \<longleftrightarrow> objc_test_class_flag r objc_class_flag_initialized"

definition init_classes :: "rt_state \<Rightarrow> nat set" where
  "init_classes st = {c. \<exists>r. classes st c = Some r \<and> is_init r}"

text \<open>No \<open>+initialize\<close> is sent from \<open>st\<close> to \<open>st'\<close>, and initialised classes stay initialised.\<close>

definition init_mono :: "rt_state \<Rightarrow> rt_state \<Rightarrow> bool" where
  "init_mono st st' \<longleftrightarrow> initialize_calls st' = initialize_calls st \<and> init_classes st \<subseteq> init_classes st'"

definition keeps_init :: "(objc_class \<Rightarrow> objc_class) \<Rightarrow> bool" where
  "keeps_init f \<longleftrightarrow> (\<forall>r. is_init r \<longrightarrow> is_init (f r))"

lemma init_mono_refl [simp, intro]: "init_mono st st"
  by (simp add: init_mono_def)

lemma init_mono_trans [trans]: "init_mono st s1 \<Longrightarrow> init_mono s1 s2 \<Longrightarrow> init_mono st s2"
  by (auto simp: init_mono_def)

lemma keeps_init_info: "(\<And>r. c_info (f r) = c_info r) \<Longrightarrow> keeps_init f"
  by (simp add: keeps_init_def is_init_def objc_test_class_flag_def)

lemma keeps_init_set: "keeps_init (\<lambda>r. objc_set_class_flag r flag)"
  unfolding keeps_init_def is_init_def objc_test_class_flag_def objc_set_class_flag_def
  by (auto simp: bit_eq_iff bit_simps)

lemma keeps_init_clear:
  "flag AND objc_class_flag_initialized = 0 \<Longrightarrow> keeps_init (\<lambda>r. objc_clear_class_flag r flag)"
  unfolding keeps_init_def is_init_def objc_test_class_flag_def objc_clear_class_flag_def
  by (auto simp: bit_eq_iff bit_simps)

lemma keeps_init_if:
  "flag AND objc_class_flag_initialized = 0 \<Longrightarrow> keeps_init (set_flag_if b flag)"
  using keeps_init_set [of flag] keeps_init_clear [of flag] by (auto simp: set_flag_if_def keeps_init_def)

lemma upd_class_init: "upd_class c f st = Some st' \<Longrightarrow> keeps_init f \<Longrightarrow> init_mono st st'"
  by (auto simp: upd_class_def init_mono_def init_classes_def keeps_init_def split: option.splits)

lemma init_mono_frame: "dt_frame st st' \<Longrightarrow> init_mono st st'"
proof -
  assume f: "dt_frame st st'"
  have eq: "dt_blank st' = dt_blank st" using f by (simp add: dt_frame_def)
  have "initialize_calls st' = initialize_calls st"
    using arg_cong [OF eq, of initialize_calls] by (simp add: dt_blank_def)
  moreover have "c \<in> init_classes st'" if "c \<in> init_classes st" for c
  proof -
    from that obtain r where r: "classes st c = Some r" "is_init r" by (auto simp: init_classes_def)
    then have "map_option strip_cxx (classes st' c) = Some (strip_cxx r)" using f by (simp add: dt_frame_def)
    then obtain r' where "classes st' c = Some r'" "strip_cxx r' = strip_cxx r" by auto
    moreover from this(2) have "c_info r' = c_info r" using arg_cong [of _ _ c_info] by (metis strip_cxx_fields(7))
    ultimately show ?thesis using r(2)
      by (auto simp: init_classes_def is_init_def objc_test_class_flag_def)
  qed
  ultimately show ?thesis by (auto simp: init_mono_def)
qed

lemma init_mono_fields [simp]:
  "init_mono st (s\<lparr>dtables := h\<rparr>) = init_mono st s" "init_mono st (s\<lparr>uncacheable_imp := i\<rparr>) = init_mono st s"
  "init_mono st (s\<lparr>unresolved_class_list := u\<rparr>) = init_mono st s" "init_mono st (s\<lparr>ints := j\<rparr>) = init_mono st s"
  "init_mono st (s\<lparr>load_calls := l, load_table := t\<rparr>) = init_mono st s"
  "init_mono st (s\<lparr>load_callbacks := k\<rparr>) = init_mono st s"
  "init_mono st (s\<lparr>temporary_dtables := d\<rparr>) = init_mono st s"
  by (simp_all add: init_mono_def init_classes_def)

lemma init_mono_fields_left [simp]:
  "init_mono (s\<lparr>ints := j\<rparr>) st = init_mono s st" "init_mono (s\<lparr>dtables := h\<rparr>) st = init_mono s st"
  "init_mono (s\<lparr>unresolved_class_list := u\<rparr>) st = init_mono s st"
  "init_mono (s\<lparr>temporary_dtables := d\<rparr>) st = init_mono s st"
  by (simp_all add: init_mono_def init_classes_def)

lemmas init_keeps = keeps_init_info keeps_init_set keeps_init_if

section \<open>Resolution\<close>

lemma upd_class_opt_init: "upd_class_opt p f st = Some st' \<Longrightarrow> keeps_init f \<Longrightarrow> init_mono st st'"
  by (cases p) (auto simp: upd_class_opt_def intro: upd_class_init)

lemma unlink_init: "unlink_unresolved st c = Some st' \<Longrightarrow> init_mono st st'"
  unfolding unlink_unresolved_def
  by (auto split: bind_splits option.splits dest!: upd_class_init simp: init_keeps) (meson init_mono_trans)+

lemma link_init: "link_class st c sm mm = Some st' \<Longrightarrow> init_mono st st'"
  unfolding link_class_def
  by (auto split: bind_splits option.splits super_ref.splits dest!: upd_class_init upd_class_opt_init simp: init_keeps)
    (meson init_mono_trans)+

lemma layout_init: "layout_ivars st c n = Some st' \<Longrightarrow> init_mono st st'"
  unfolding layout_ivars_def
  by (auto split: bind_splits dest!: upd_class_init simp: init_keeps)

lemma foldM_init:
  assumes "\<And>s x s'. f s x = Some s' \<Longrightarrow> init_mono s s'"
  shows "foldM f st xs = Some st' \<Longrightarrow> init_mono st st'"
proof (induction xs arbitrary: st)
  case (Cons x xs)
  then obtain s1 where "f st x = Some s1" "foldM f s1 xs = Some st'" by (auto split: bind_splits)
  with Cons.IH assms show ?case by (blast intro: init_mono_trans)
qed simp

lemma announce_init: "announce_class st c = Some st' \<Longrightarrow> init_mono st st'"
proof -
  have "init_mono s s'" if "send_load c s h = Some s'" for s s' h
    using that by (auto simp: send_load_def split: bind_splits if_splits)
  then have "init_mono st s1" if "objc_send_load_message st c = Some s1" for s1
    using that foldM_init [of "send_load c"] by (auto simp: objc_send_load_message_def split: bind_splits)
  then show "announce_class st c = Some st' \<Longrightarrow> init_mono st st'"
    by (auto simp: announce_class_def split: bind_splits if_splits)
qed

lemma meta_links_init:
  assumes "\<And>s c s' b. resolve s c = Some (s', b) \<Longrightarrow> init_mono s s'" "meta_links resolve n st c = Some (st', x)"
  shows "init_mono st st'"
  using assms(2) unfolding meta_links_def
  by (auto split: bind_splits option.splits super_ref.splits if_splits dest!: assms(1))

lemma resolve_super_init:
  assumes "\<And>s c s' b. resolve s c = Some (s', b) \<Longrightarrow> init_mono s s'" "resolve_super resolve st r = Some (st', x)"
  shows "init_mono st st'"
  using assms(2) unfolding resolve_super_def
  by (auto split: bind_splits option.splits super_ref.splits if_splits dest!: assms(1))

lemma resolve_body_init:
  assumes "\<And>s c s' b. resolve s c = Some (s', b) \<Longrightarrow> init_mono s s'"
    and "\<And>s c s'. compute s c = Some s' \<Longrightarrow> init_mono s s'"
    and "resolve_body resolve compute n st c = Some (st', b)"
  shows "init_mono st st'"
proof -
  have rs: "init_mono s s'" if "resolve_super resolve s r = Some (s', x)" for s r s' x
    using assms(1) that by (rule resolve_super_init)
  have ml: "init_mono s s'" if "meta_links resolve n s c = Some (s', x)" for s s' x
    using assms(1) that by (rule meta_links_init)
  show ?thesis using assms(3) unfolding resolve_body_def
    by (auto split: bind_splits if_splits dest!: assms(2) rs ml unlink_init link_init announce_init)
      (meson init_mono_trans)+
qed

lemma compute_body_init:
  assumes "\<And>s c s' x. getSuper s c = Some (s', x) \<Longrightarrow> init_mono s s'"
    and "\<And>s c s'. compute s c = Some s' \<Longrightarrow> init_mono s s'"
    and "compute_body getSuper compute st c = Some st'"
  shows "init_mono st st'"
  using assms(3) unfolding compute_body_def
  by (auto split: bind_splits if_splits option.splits super_ref.splits dest!: assms(1,2) layout_init upd_class_init
      simp: init_keeps) (meson init_mono_trans)+

lemma resolve_init:
  "objc_resolve_class n st c = Some (st1, b) \<Longrightarrow> init_mono st st1"
  "objc_compute_ivar_offsets n st c = Some st2 \<Longrightarrow> init_mono st st2"
  "class_getSuperclass n st p = Some (st3, x) \<Longrightarrow> init_mono st st3"
proof (induction n arbitrary: st c p st1 st2 st3 b x)
  case (Suc n)
  { case 1 show ?case
      using resolve_body_init [of "objc_resolve_class n" "objc_compute_ivar_offsets n"] Suc.IH(1,2) 1 by simp
  next
    case 2 show ?case
      using compute_body_init [of "class_getSuperclass n" "objc_compute_ivar_offsets n"] Suc.IH(3,2) 2 by simp
  next
    case 3 show ?case using 3 Suc.IH(1)
      by (auto simp: getSuperclass_body_def split: option.splits bind_splits if_splits)
  }
qed simp_all

section \<open>Tables and class flags\<close>

lemma get_slot_init: "objc_get_slot2 st c s = Some (st', x) \<Longrightarrow> init_mono st st'"
  unfolding objc_get_slot2_def by (auto split: bind_splits option.splits)

lemma owner_init: "ownerForMethod n st c s = Some (st', x) \<Longrightarrow> init_mono st st'"
proof (induction n arbitrary: st c)
  case (Suc n)
  then show ?case
    by (auto split: bind_splits option.splits super_ref.splits if_splits dest!: get_slot_init)
      (meson init_mono_trans Suc.IH)+
qed simp

lemma owner_for_method_init: "owner_for_method st c s = Some (st', x) \<Longrightarrow> init_mono st st'"
  unfolding owner_for_method_def by (rule owner_init)

lemma owns_init: "ownsMethod st c s = Some (st', x) \<Longrightarrow> init_mono st st'"
  unfolding ownsMethod_def by (auto dest: owner_for_method_init)

lemma flags_apart:
  "objc_class_flag_fast_arc AND objc_class_flag_initialized = 0"
  "objc_class_flag_fast_alloc_init AND objc_class_flag_initialized = 0"
  by (simp_all add: class_flag_defs)

lemma fast_alloc_init: "checkFastAllocInit st c = Some st' \<Longrightarrow> init_mono st st'"
  unfolding checkFastAllocInit_def
  by (auto split: bind_splits if_splits option.splits dest!: owner_for_method_init upd_class_init
      simp: init_keeps flags_apart) (meson init_mono_trans)+

lemma compliant_init: "arc_compliant st c s m = Some (st', x) \<Longrightarrow> init_mono st st'"
  unfolding arc_compliant_def
  by (auto split: bind_splits option.splits dest!: owner_for_method_init owns_init) (meson init_mono_trans)+

lemma arc_init: "checkARCAccessors st c = Some st' \<Longrightarrow> init_mono st st'"
  unfolding checkARCAccessors_def
  by (auto split: bind_splits if_splits dest!: fast_alloc_init compliant_init upd_class_init
      simp: init_keeps flags_apart) (meson init_mono_trans)+

lemma new_init: "new_sparse_array_or_abort st d = Some (st', x) \<Longrightarrow> init_mono st st'"
  by (auto simp: new_sparse_array_or_abort_def split: bind_splits)

lemma copy_init: "copy_sparse_array_or_abort st p = Some (st', x) \<Longrightarrow> init_mono st st'"
  by (auto simp: copy_sparse_array_or_abort_def simp del: SparseArrayCopy.simps split: bind_splits)

lemma own_method_init: "install_own_method c sd d st h = Some st' \<Longrightarrow> init_mono st st'"
  unfolding install_own_method_def install_method_def
  by (auto split: bind_splits option.splits dest!: install_frame init_mono_frame)

lemma create_init: "create_dtable_for_class st c p = Some (st', x) \<Longrightarrow> init_mono st st'"
proof -
  have methods: "init_mono s s'" if "foldM (install_own_method c sd d) s hs = Some s'" for s s' sd d hs
    using own_method_init that by (rule foldM_init)
  show "create_dtable_for_class st c p = Some (st', x) \<Longrightarrow> init_mono st st'"
    unfolding create_dtable_for_class_def
    by (auto split: bind_splits if_splits option.splits super_ref.splits
        dest!: resolve_init(3) new_init copy_init methods) (meson init_mono_trans)+
qed

lemma remove_init: "remove_dtable st m = Some st' \<Longrightarrow> init_mono st st'"
  unfolding remove_dtable_def
  by (auto split: list.splits prod.splits bind_splits dest!: upd_class_init simp: init_keeps) (meson init_mono_trans)+

section \<open>Initialisation\<close>

text \<open>Every class that was sent \<open>+initialize\<close> was sent it once and has the flag.\<close>

definition once :: "rt_state \<Rightarrow> bool" where
  "once st \<longleftrightarrow> distinct (map fst (initialize_calls st)) \<and> fst ` set (initialize_calls st) \<subseteq> init_classes st"

text \<open>What is asked of a \<open>+initialize\<close> method: it may itself initialise classes.\<close>

definition respects_once :: "(rt_state \<Rightarrow> nat \<Rightarrow> uintptr_t \<Rightarrow> rt_state option) \<Rightarrow> bool" where
  "respects_once run \<longleftrightarrow> (\<forall>s c i s'. run s c i = Some s' \<longrightarrow> once s \<longrightarrow> once s' \<and> init_classes s \<subseteq> init_classes s')"

lemma once_mono: "once st \<Longrightarrow> init_mono st st' \<Longrightarrow> once st'"
  by (auto simp: once_def init_mono_def)

lemma upd_class_member: "upd_class c (\<lambda>x. objc_set_class_flag x objc_class_flag_initialized) st = Some st' \<Longrightarrow>
   c \<in> init_classes st'"
  by (auto simp: upd_class_def init_classes_def is_init_def objc_set_class_flag_def objc_test_class_flag_def
      bit_eq_iff bit_simps split: option.splits)

text \<open>The end of \<open>initialize_class\<close>: the tables are installed, after \<open>+initialize\<close> if there is one.\<close>

definition finish_initialize where
  "finish_initialize run skipMeta cls meta s5 class_dtable dtable initializeSlot =
     (case initializeSlot of
        None \<Rightarrow>
          do {
            s6 \<leftarrow> (if skipMeta then Some s5 else upd_class meta (\<lambda>x. x\<lparr>c_dtable := dtable\<rparr>) s5);
            s7 \<leftarrow> upd_class cls (\<lambda>x. x\<lparr>c_dtable := class_dtable\<rparr>) s6;
            checkARCAccessors s7 cls
          }
      | Some h \<Rightarrow>
          do {
            d \<leftarrow> class_dtable;
            dm \<leftarrow> dtable;
            let s6 = s5\<lparr>temporary_dtables := (meta, dm) # (cls, d) # temporary_dtables s5\<rparr>;
            s7 \<leftarrow> checkARCAccessors s6 cls;
            m \<leftarrow> meths s7 h;
            s8 \<leftarrow> run (s7\<lparr>initialize_calls := initialize_calls s7 @ [(cls, m_imp m)]\<rparr>) cls (m_imp m);
            remove_dtable s8 meta
          })"

lemma initialize_class_begin:
  assumes "initialize_class run st c m = Some st'"
  obtains skip s5 cd dm slot where "init_mono st s5" "c \<in> init_classes s5"
    "finish_initialize run skip c m s5 cd dm slot = Some st'"
proof -
  from assms obtain skip s1 s2 s3 s4 cd s5 dm slot where
    s: "(if skip then Some st else upd_class m (\<lambda>x. objc_set_class_flag x objc_class_flag_permanent_instances) st) = Some s1"
      "upd_class c (\<lambda>x. objc_set_class_flag x objc_class_flag_initialized) s1 = Some s2"
      "upd_class m (\<lambda>x. objc_set_class_flag x objc_class_flag_initialized) s2 = Some s3"
      "create_dtable_for_class s3 c (Some (uninstalled_dtable s3)) = Some (s4, cd)"
      "(if skip then Some (s4, None) else create_dtable_for_class s4 m cd) = Some (s5, dm)"
      "finish_initialize run skip c m s5 cd dm slot = Some st'"
    unfolding initialize_class_def finish_initialize_def [symmetric] Let_def [of "objc_test_class_flag _ _"]
    by (auto split: bind_splits)
  have "init_mono st s1" using s(1) by (auto dest!: upd_class_init simp: init_keeps split: if_splits)
  moreover have "init_mono s1 s2" "init_mono s2 s3"
    using s(2,3) by (auto dest!: upd_class_init simp: init_keeps)
  moreover have "init_mono s3 s4" "init_mono s4 s5" using s(4,5) by (auto dest!: create_init split: if_splits)
  moreover have "c \<in> init_classes s2" using s(2) by (rule upd_class_member)
  ultimately have "init_mono st s5" "c \<in> init_classes s5"
    by (meson init_mono_trans) (meson init_mono_def init_mono_trans \<open>init_mono s2 s3\<close> \<open>init_mono s3 s4\<close>
        \<open>init_mono s4 s5\<close> \<open>c \<in> init_classes s2\<close> subsetD)
  from that [OF this s(6)] show ?thesis .
qed

lemma finish_initialize_once:
  assumes run: "respects_once run" and o: "once s5" and c: "c \<in> init_classes s5" "c \<notin> fst ` set (initialize_calls s5)"
    and f: "finish_initialize run skip c m s5 cd dm slot = Some st'"
  shows "once st' \<and> init_classes s5 \<subseteq> init_classes st'"
proof (cases slot)
  case None
  with f have "init_mono s5 st'" unfolding finish_initialize_def
    by (auto split: bind_splits if_splits dest!: upd_class_init arc_init simp: init_keeps) (meson init_mono_trans)+
  then show ?thesis using once_mono [OF o] by (simp add: init_mono_def)
next
  case (Some h)
  with f obtain ts s7 i s8 where s: "checkARCAccessors (s5\<lparr>temporary_dtables := ts\<rparr>) c = Some s7"
    "run (s7\<lparr>initialize_calls := initialize_calls s7 @ [(c, i)]\<rparr>) c i = Some s8" "remove_dtable s8 m = Some st'"
    unfolding finish_initialize_def Let_def by (auto split: bind_splits)
  have i7: "init_mono s5 s7" using arc_init [OF s(1)] by simp
  let ?s = "s7\<lparr>initialize_calls := initialize_calls s7 @ [(c, i)]\<rparr>"
  have cl: "init_classes ?s = init_classes s7" by (simp add: init_classes_def)
  have "once ?s" using o c i7 unfolding once_def cl by (auto simp: init_mono_def)
  with run s(2) have "once s8" "init_classes ?s \<subseteq> init_classes s8" unfolding respects_once_def by blast+
  moreover have "init_mono s8 st'" by (rule remove_init [OF s(3)])
  ultimately show ?thesis using once_mono i7 unfolding cl init_mono_def by blast
qed

lemma initialize_class_once:
  assumes run: "respects_once run" and o: "once st" and c: "c \<notin> init_classes st"
    and i: "initialize_class run st c m = Some st'"
  shows "once st' \<and> init_classes st \<subseteq> init_classes st' \<and> c \<in> init_classes st'"
proof -
  from initialize_class_begin [OF i] obtain skip s5 cd dm slot where
    s: "init_mono st s5" "c \<in> init_classes s5" "finish_initialize run skip c m s5 cd dm slot = Some st'" by metis
  have "c \<notin> fst ` set (initialize_calls s5)" using o c s(1) by (auto simp: once_def init_mono_def)
  from finish_initialize_once [OF run once_mono [OF o s(1)] s(2) this s(3)] show ?thesis
    using s(1,2) by (auto simp: init_mono_def)
qed

text \<open>The class a message to \<open>object\<close> initialises.\<close>

definition target_class :: "rt_state \<Rightarrow> receiver \<Rightarrow> nat option" where
  "target_class st object =
     do {
       isa \<leftarrow> receiver_class st object;
       c0 \<leftarrow> isa;
       r0 \<leftarrow> classes st c0;
       (if objc_test_class_flag r0 objc_class_flag_meta
        then (case object of ClassObject c \<Rightarrow> Some c | Instance _ \<Rightarrow> None) else Some c0)
     }"

lemma send_initialize_once:
  assumes run: "respects_once run"
  shows "objc_send_initialize run n st object = Some st' \<Longrightarrow> once st \<Longrightarrow>
    once st' \<and> init_classes st \<subseteq> init_classes st' \<and> (\<exists>c. target_class st object = Some c \<and> c \<in> init_classes st')"
proof (induction n arbitrary: st object st')
  case (Suc n)
  from Suc.prems(1) obtain c r meta s1 b r1 s2 r2 where
    s: "target_class st object = Some c" "objc_resolve_class (class_brk st + 3) st c = Some (s1, b)"
      "classes s1 c = Some r1"
      "(case c_super_class r1 of None \<Rightarrow> Some s1 | Some (SuperName _) \<Rightarrow> None
        | Some (SuperClass s) \<Rightarrow> objc_send_initialize run n s1 (ClassObject s)) = Some s2"
      "classes s2 c = Some r2"
      "(if objc_test_class_flag r2 objc_class_flag_initialized then
         do { d \<leftarrow> dtable_for_class s2 c; if d = Some (uninstalled_dtable s2) then None else Some s2 }
       else initialize_class run s2 c meta) = Some st'"
    unfolding objc_send_initialize.simps target_class_def by (auto split: bind_splits)
  have m1: "init_mono st s1" using s(2) by (rule resolve_init(1))
  note o1 = once_mono [OF Suc.prems(2) m1]
  have s2: "once s2 \<and> init_classes s1 \<subseteq> init_classes s2"
    using s(4) o1 Suc.IH by (fastforce split: option.splits super_ref.splits)
  have "once st' \<and> init_classes s2 \<subseteq> init_classes st' \<and> c \<in> init_classes st'"
  proof (cases "is_init r2")
    case True
    then have "st' = s2" using s(6) by (auto simp: is_init_def split: bind_splits if_splits)
    then show ?thesis using s2 s(5) True by (auto simp: init_classes_def)
  next
    case False
    then have "initialize_class run s2 c meta = Some st'" "c \<notin> init_classes s2"
      using s(5,6) by (auto simp: is_init_def init_classes_def)
    then show ?thesis using initialize_class_once [OF run] s2 by blast
  qed
  then show ?case using s(1) s2 m1 by (auto simp: init_mono_def)
qed simp

end
