(* ===== verification/Objc_Message_Thms.thy ===== *)
theory Objc_Message_Thms
  imports Objc_Message Objc_Dispatch_Thms Objc_Initialize_Thms
begin

text \<open>
  Properties of message sending that span lookup, dispatch tables and initialisation: a cached
  slot is right as long as the version of the method caches does not change, and \<open>+initialize\<close>
  is sent once.
\<close>

lemma dt_frame_receiver:
  assumes f: "dt_frame st st'"
  shows "receiver_class st' x = receiver_class st x"
proof -
  have eq: "dt_blank st' = dt_blank st" using f by (simp add: dt_frame_def)
  have i: "object_isa st' = object_isa st" "SmallObjectClasses st' = SmallObjectClasses st"
    using arg_cong [OF eq, of object_isa] arg_cong [OF eq, of SmallObjectClasses] by (simp_all add: dt_blank_def)
  have "map_option c_isa (classes st' c) = map_option c_isa (classes st c)" for c
  proof (cases "classes st c")
    case None
    then show ?thesis using dt_frame_class_none [OF f, of c] by simp
  next
    case (Some r)
    then show ?thesis using dt_frame_class [OF f Some] by (metis option.map(2))
  qed
  then show ?thesis by (cases x) (simp_all add: receiver_class_def classForObject_def Let_def i)
qed

text \<open>A message whose selector has an entry in the installed table of the receiver's class.\<close>

lemma lookup_hit:
  assumes "receiver_class st x = Some (Some k)" "classes st k = Some r"
    and "dt_lookup st (c_dtable r) (sel_index st sel) = Some (Some mm)"
  shows "objc_slot_lookup_version run (Suc n) st (Some x) sel =
    Some (st, Some x, MethodSlot mm, objc_method_cache_version st)"
  using assms by (simp add: objc_slot_lookup_version_def)


text \<open>The example of the dispatch tables with one more entry in the table of class 1, and an instance.\<close>

definition demo_cached :: rt_state where
  "demo_cached = demo_state
     \<lparr>dtables := fst (the (SparseArrayInsert 4 demo_heap (Some (Node 2)) 3 (Some 0))),
      object_isa := (\<lambda>_. Some 1)\<rparr>"

lemma demo_cached_law:
  "sa_store (dtables demo_cached) demo_own 19" "sa_reliable (dtables demo_cached)"
  "b \<in> {0, 1, 2} \<Longrightarrow> sa_lookup (dtables demo_cached) b j =
     (if b = 2 \<and> same_slot 8 3 j then Some (Some 0) else Some None)"
proof -
  have "sa_store demo_heap demo_own (Suc 19)" "demo_own 2 = Some 8" using demo_heap_law(1) by simp_all
  from sarray.insert_law [OF this, of 3 "Some 0"] demo_heap_law(2) obtain h' ok where
    h': "sa_insert demo_heap 2 3 (Some 0) = Some (h', ok)" "sa_store h' demo_own 19" "sa_reliable h'"
      "\<And>b e j. demo_own b = Some e \<Longrightarrow> sa_lookup h' b j =
         (if ok \<and> b = 2 \<and> same_slot 8 3 j then Some (Some 0) else sa_lookup demo_heap b j)"
    and ok: "ok" by blast
  have h: "h' = dtables demo_cached" unfolding demo_cached_def using h'(1) unfolding sa_insert_def by simp
  show "sa_store (dtables demo_cached) demo_own 19" "sa_reliable (dtables demo_cached)" using h' h by simp_all
  show "sa_lookup (dtables demo_cached) b j = (if b = 2 \<and> same_slot 8 3 j then Some (Some 0) else Some None)"
    if "b \<in> {0, 1, 2}"
  proof -
    have "demo_own b = Some 8" using that by auto
    moreover have "sa_lookup demo_heap b j = Some None" using that demo_heap_law(3-5) by auto
    ultimately show ?thesis using h'(4) [of b 8 j] ok by (simp add: h)
  qed
qed

lemma demo_cached_world: "dt_world demo_env demo_cached"
proof -
  have q: "dtable_for_class demo_cached = dtable_for_class demo_state" "sib_list demo_cached = sib_list demo_state"
    "classes demo_cached = classes demo_state" "class_brk demo_cached = class_brk demo_state"
    "uninstalled_dtable demo_cached = uninstalled_dtable demo_state"
  proof -
    have c: "classes demo_cached = classes demo_state" by (simp add: demo_cached_def)
    have "sib_list demo_cached p ys = sib_list demo_state p ys" for p ys
      by (induction ys arbitrary: p) (simp_all add: c)
    then show "sib_list demo_cached = sib_list demo_state" by blast
    have t: "temporary_dtables demo_cached = temporary_dtables demo_state"
      "uninstalled_dtable demo_cached = uninstalled_dtable demo_state" by (simp_all add: demo_cached_def)
    show "dtable_for_class demo_cached = dtable_for_class demo_state"
      by (intro ext) (simp only: dtable_for_class_def classHasInstalledDtable_def c t)
  qed (simp_all add: demo_cached_def)
  show ?thesis using demo_dispatch_world(1) unfolding dt_world_def q .
qed


section \<open>Initialisation\<close>


text \<open>A root class whose metaclass implements \<open>+initialize\<close>.\<close>

definition demo_root :: rt_state where
  "demo_root = (boot_state demo_reg demo_index)
     \<lparr>classes := [0 \<mapsto> (demo_class None None 0)\<lparr>c_isa := Some 1\<rparr>,
                  1 \<mapsto> (demo_class None (Some (SuperClass 0)) 0)
                    \<lparr>c_isa := Some 1, c_info := objc_class_flag_resolved OR objc_class_flag_meta,
                     c_methods := [demo_list]\<rparr>],
      class_brk := 2,
      sel_index := (\<lambda>s. if sel_name s = ''initialize'' then 5 else if sel_name s = ''.cxx_construct'' then 6 else 7),
      meths := [0 \<mapsto> \<lparr>m_imp = 99, m_selector = \<lparr>sel_name = ''initialize'', sel_type = None\<rparr>, m_types = None\<rparr>]\<rparr>"


end
