(* ===== verification/Objc_Reload.thy ===== *)
theory Objc_Reload
  imports Objc_Dispatch
begin

text \<open>
  Loading and reloading of classes, the last third of \<open>src/runtime/class_table.c\<close>. A class whose
  name is new is entered into the class table. A second definition of a known class is refused
  in user mode, replaces or extends the old one in developer mode
  (\<open>permissive_reload_class\<close>), and in safe reload mode is checked against the layout of the class
  in use, turned into a plan of method changes, and only then applied (\<open>safe_reload_class\<close>).

  A reload plan holds the methods to add as values: their memory is private to the plan until
  the commit links it into the class, where they get their handles. Every attempt to allocate is
  a \<open>rt_alloc\<close>. The methods of a class that is reloaded hold selector names when they are
  registered by \<open>objc_register_selectors_from_class\<close>; a registration that fails is outside of
  the model (\<open>None\<close>).
\<close>

section \<open>Registering the selectors of a class\<close>

definition register_method_selector :: "rt_state \<Rightarrow> nat \<Rightarrow> rt_state option" where
  "register_method_selector st h =
     do {
       m \<leftarrow> meths st h;
       s \<leftarrow> register_selector st (sel_name (m_selector m)) (m_types m);
       Some (st\<lparr>meths := (meths st)(h \<mapsto> m\<lparr>m_selector := s\<rparr>)\<rparr>)
     }"

definition objc_register_selectors_from_list :: "rt_state \<Rightarrow> objc_method_list \<Rightarrow> rt_state option" where
  "objc_register_selectors_from_list st l = foldM register_method_selector st (ml_items l)"

definition objc_register_selectors_from_class :: "rt_state \<Rightarrow> nat option \<Rightarrow> rt_state option" where
  "objc_register_selectors_from_class st cls =
     do {
       r \<leftarrow> deref_class st cls;
       foldM objc_register_selectors_from_list st (c_methods r)
     }"

section \<open>Comparing layouts\<close>

text \<open>Null strings are equal to null strings only.\<close>

definition reload_string_equal :: "string option \<Rightarrow> string option \<Rightarrow> bool" where
  "reload_string_equal a b \<longleftrightarrow> a = b"

text \<open>
  A candidate whose superclass field holds another class object than the class in use is cast to
  a name; what the bytes of a class structure spell is not modelled.
\<close>

definition safe_reload_superclass_matches ::
  "nat \<Rightarrow> rt_state \<Rightarrow> objc_class \<Rightarrow> objc_class \<Rightarrow> (rt_state \<times> bool) option" where
  "safe_reload_superclass_matches thread st candidate canonical =
     (if c_super_class candidate = c_super_class canonical then Some (st, True)
      else case (c_super_class candidate, c_super_class canonical) of
        (Some (SuperName nm), Some canonicalSuper) \<Rightarrow>
          (let (s1, resolved) = class_table_get_safe thread st (Some nm) in
           Some (s1, map_option SuperClass resolved = Some canonicalSuper))
      | (Some (SuperClass _), Some _) \<Rightarrow> None
      | _ \<Rightarrow> Some (st, False))"

text \<open>The offsets are copied to fresh variables, starting at \<open>int_brk\<close>.\<close>

definition copy_ivar_offset ::
  "objc_ivar_list \<Rightarrow> rt_state \<Rightarrow> (objc_ivar list \<times> (nat \<Rightarrow> int option)) option \<Rightarrow> nat \<Rightarrow>
   (objc_ivar list \<times> (nat \<Rightarrow> int option)) option option" where
  "copy_ivar_offset source st acc i =
     (case acc of None \<Rightarrow> Some None
      | Some (items, offsets) \<Rightarrow>
          if \<not> i < length (il_ivars source) then None
          else (case iv_offset (il_ivars source ! i) of
                  None \<Rightarrow> Some None
                | Some off \<Rightarrow>
                    do { v \<leftarrow> ints st off;
                         Some (Some (items[i := (items ! i)\<lparr>iv_offset := Some (int_brk st + i)\<rparr>],
                                     offsets(int_brk st + i \<mapsto> v))) }))"

text \<open>The result is \<open>None\<close> when the metadata is malformed or memory runs out, otherwise the copy and
  the integers with the copied offsets.\<close>

definition copy_reload_ivars ::
  "rt_state \<Rightarrow> objc_ivar_list option \<Rightarrow>
   (rt_state \<times> (objc_ivar_list \<times> (nat \<Rightarrow> int option)) option) option" where
  "copy_reload_ivars st source =
     (case source of None \<Rightarrow> Some (st, None)
      | Some il \<Rightarrow>
          if il_count il < 0 \<or> il_size il < sizeof_objc_ivar then Some (st, None)
          else (case Option.bind (objc2_size_multiply True (of_int (il_count il)) (il_size il))
                       (objc2_size_add True sizeof_objc_ivar_list) of
            None \<Rightarrow> Some (st, None)
          | Some _ \<Rightarrow>
              (let (s1, ok) = rt_alloc st in
               if \<not> ok then Some (s1, None)
               else if il_count il = 0 then Some (s1, Some (il, ints s1))
               else (case objc2_size_multiply True (of_int (il_count il)) 4 of
                 None \<Rightarrow> Some (s1, None)
               | Some _ \<Rightarrow>
                   (let (s2, ok2) = rt_alloc s1 in
                    if \<not> ok2 then Some (s2, None)
                    else do {
                      res \<leftarrow> foldM (copy_ivar_offset il s2) (Some (il_ivars il, ints s2))
                               [0..<nat (il_count il)];
                      Some (s2, map_option (\<lambda>(items, js). (il\<lparr>il_ivars := items\<rparr>, js)) res)
                    })))))"

definition reload_ivar_matches :: "rt_state \<Rightarrow> objc_ivar \<Rightarrow> objc_ivar \<Rightarrow> bool option" where
  "reload_ivar_matches st fresh live =
     (if \<not> reload_string_equal (iv_name fresh) (iv_name live) \<or>
         \<not> reload_string_equal (iv_type fresh) (iv_type live) \<or>
         iv_size fresh \<noteq> iv_size live \<or> iv_flags fresh \<noteq> iv_flags live
      then Some False
      else case (iv_offset fresh, iv_offset live) of
        (Some a, Some b) \<Rightarrow> do { x \<leftarrow> ints st a; y \<leftarrow> ints st b; Some (x = y) }
      | _ \<Rightarrow> Some False)"

definition compare_reload_ivars ::
  "rt_state \<Rightarrow> objc_ivar_list \<Rightarrow> objc_ivar_list \<Rightarrow> bool option" where
  "compare_reload_ivars st fresh live =
     map_option Not
       (anyM (\<lambda>i. if i < length (il_ivars fresh) \<and> i < length (il_ivars live)
                  then map_option Not (reload_ivar_matches st (il_ivars fresh ! i) (il_ivars live ! i))
                  else None)
          [0..<nat (il_count fresh)])"

text \<open>The comparison of the normalised candidate with the class in use; the result is the reason for
  a mismatch.\<close>

definition compare_layouts :: "rt_state \<Rightarrow> objc_class \<Rightarrow> objc_class \<Rightarrow> string option option" where
  "compare_layouts st normalized canonical =
     (if c_instance_size normalized \<noteq> c_instance_size canonical then Some (Some ''instance-size'')
      else case (c_ivars normalized, c_ivars canonical) of
        (None, None) \<Rightarrow> Some None
      | (Some fresh, Some live) \<Rightarrow>
          if il_count fresh \<noteq> il_count live then Some (Some ''ivar-count'')
          else do { eq \<leftarrow> compare_reload_ivars st fresh live;
                    Some (if eq then None else Some ''ivar-layout'') }
      | _ \<Rightarrow> Some (Some ''ivar-presence''))"

text \<open>
  The local structure \<open>normalized\<close> is a class at the fresh handle \<open>class_brk\<close>, with its ivar offsets
  in fresh integers; both are gone afterwards.
\<close>

definition drop_locals :: "rt_state \<Rightarrow> rt_state \<Rightarrow> rt_state" where
  "drop_locals st s =
     s\<lparr>classes := (classes s)(class_brk st := None),
       ints := (\<lambda>a. if a < int_brk st then ints s a else None)\<rparr>"

definition safe_reload_layout_matches ::
  "nat \<Rightarrow> nat \<Rightarrow> rt_state \<Rightarrow> nat \<Rightarrow> nat \<Rightarrow> (rt_state \<times> string option) option" where
  "safe_reload_layout_matches fuel thread st candidate canonical =
     do {
       rc \<leftarrow> classes st candidate;
       rl \<leftarrow> classes st canonical;
       (s1, same_super) \<leftarrow> safe_reload_superclass_matches thread st rc rl;
       if \<not> same_super then Some (s1, Some ''superclass'')
       else do {
         (s2, ivars) \<leftarrow> copy_reload_ivars s1 (c_ivars rc);
         if c_ivars rc \<noteq> None \<and> ivars = None then Some (s2, Some ''ivar-metadata'')
         else do {
           let normalized = objc_set_class_flag
                 (rc\<lparr>c_super_class := c_super_class rl, c_ivars := map_option fst ivars\<rparr>)
                 objc_class_flag_resolved;
           let s3 = s2\<lparr>classes := (classes s2)(class_brk s2 \<mapsto> normalized),
                       ints := (case ivars of None \<Rightarrow> ints s2 | Some (_, js) \<Rightarrow> js)\<rparr>;
           s4 \<leftarrow> objc_compute_ivar_offsets fuel s3 (class_brk s2);
           rn \<leftarrow> classes s4 (class_brk s2);
           rl' \<leftarrow> classes s4 canonical;
           reason \<leftarrow> compare_layouts s4 rn rl';
           Some (drop_locals s2 s4, reason)
         }
       }
     }"

section \<open>The plan of method changes\<close>

record safe_reload_method_entry =
  re_target :: "nat option"
  re_selector :: selector
  re_implementation :: uintptr_t
  re_types :: "string option"

record safe_reload_method_plan =
  rp_target :: nat
  rp_entries :: "safe_reload_method_entry list"
  rp_additions :: "objc_method list option"

definition ml_malformed :: "objc_method_list \<Rightarrow> bool" where
  "ml_malformed l \<longleftrightarrow> ml_count l < 0 \<or> ml_size l < sizeof_objc_method"

fun safe_reload_find_method :: "rt_state \<Rightarrow> objc_method_list list \<Rightarrow> string \<Rightarrow> nat option option" where
  "safe_reload_find_method st [] name = Some None"
| "safe_reload_find_method st (l # ls) name =
     (if ml_malformed l then Some None
      else do {
        found \<leftarrow> scanM (\<lambda>h. map_option (\<lambda>m. if sel_name (m_selector m) = name then Some h else None)
                             (meths st h)) (ml_items l);
        (case found of Some h \<Rightarrow> Some (Some h) | None \<Rightarrow> safe_reload_find_method st ls name)
      })"

definition safe_reload_plan_contains_name :: "safe_reload_method_entry list \<Rightarrow> string \<Rightarrow> bool" where
  "safe_reload_plan_contains_name entries name \<longleftrightarrow>
     (\<exists>e\<in>set entries. sel_name (re_selector e) = name)"

text \<open>The loop of \<open>safe_reload_count_methods\<close>; \<open>None\<close> is its failure.\<close>

fun count_methods_from :: "size_t \<Rightarrow> objc_method_list list \<Rightarrow> size_t option" where
  "count_methods_from count [] = Some count"
| "count_methods_from count (l # ls) =
     (if ml_malformed l then None
      else if SIZE_MAX - count < of_int (ml_count l) then None
      else count_methods_from (count + of_int (ml_count l)) ls)"

definition safe_reload_count_methods :: "objc_method_list list \<Rightarrow> size_t option" where
  "safe_reload_count_methods ls = count_methods_from 0 ls"

text \<open>One step of the loop over the incoming methods: a reason to stop, or the entries so far.\<close>

definition plan_method ::
  "rt_state \<Rightarrow> objc_method_list list \<Rightarrow> string + safe_reload_method_entry list \<Rightarrow> nat \<Rightarrow>
   (string + safe_reload_method_entry list) option" where
  "plan_method st target_methods acc h =
     (case acc of Inl reason \<Rightarrow> Some (Inl reason)
      | Inr entries \<Rightarrow>
          do {
            incoming \<leftarrow> meths st h;
            let name = sel_name (m_selector incoming);
            if m_types incoming = None \<or> m_imp incoming = 0 then Some (Inl ''method-metadata'')
            else if safe_reload_plan_contains_name entries name then Some (Inr entries)
            else do {
              existing \<leftarrow> safe_reload_find_method st target_methods name;
              types_differ \<leftarrow>
                (case existing of None \<Rightarrow> Some False
                 | Some e \<Rightarrow> map_option (\<lambda>m. \<not> reload_string_equal (m_types m) (m_types incoming))
                               (meths st e));
              Some (if types_differ then Inl ''method-signature''
                    else Inr (entries @ [\<lparr>re_target = existing, re_selector = m_selector incoming,
                                          re_implementation = m_imp incoming,
                                          re_types = m_types incoming\<rparr>]))
            }
          })"

definition sizeof_reload_entry :: size_t where "sizeof_reload_entry = 32"

text \<open>One \<open>objc2_strdup\<close> for every addition; \<open>False\<close> when one of them fails.\<close>

fun dup_additions :: "nat \<Rightarrow> rt_state \<Rightarrow> rt_state \<times> bool" where
  "dup_additions 0 st = (st, True)"
| "dup_additions (Suc n) st =
     (let (s1, ok) = rt_alloc st in if ok then dup_additions n s1 else (s1, False))"

definition additions_of :: "safe_reload_method_entry list \<Rightarrow> objc_method list" where
  "additions_of entries =
     map (\<lambda>e. \<lparr>m_imp = re_implementation e, m_selector = re_selector e, m_types = re_types e\<rparr>)
       (filter (\<lambda>e. re_target e = None) entries)"

text \<open>The second half of \<open>safe_reload_prepare_plan\<close>, which builds the list of added methods.\<close>

definition build_additions ::
  "rt_state \<Rightarrow> nat \<Rightarrow> safe_reload_method_entry list \<Rightarrow> rt_state \<times> (string + safe_reload_method_plan)" where
  "build_additions st target entries =
     (let adds = additions_of entries;
          plan = \<lparr>rp_target = target, rp_entries = entries, rp_additions = None\<rparr> in
      if adds = [] then (st, Inr plan)
      else if (2 ^ 31 - 1 :: int) < int (length adds) then (st, Inl ''method-metadata'')
      else (case objc2_flexible_array_size True sizeof_objc_method_list (of_nat (length adds))
                   sizeof_objc_method of
              None \<Rightarrow> (st, Inl ''method-metadata'')
            | Some _ \<Rightarrow>
                (let (s1, ok) = rt_alloc st in
                 if \<not> ok then (s1, Inl ''allocation'')
                 else let (s2, dup_ok) = dup_additions (length adds) s1 in
                   if dup_ok then (s2, Inr (plan\<lparr>rp_additions := Some adds\<rparr>))
                   else (s2, Inl ''allocation''))))"

definition safe_reload_prepare_plan ::
  "rt_state \<Rightarrow> nat \<Rightarrow> nat \<Rightarrow> (rt_state \<times> (string + safe_reload_method_plan)) option" where
  "safe_reload_prepare_plan st target source =
     do {
       rt \<leftarrow> classes st target;
       rs \<leftarrow> classes st source;
       (case safe_reload_count_methods (c_methods rs) of
          None \<Rightarrow> Some (st, Inl ''method-metadata'')
        | Some count \<Rightarrow>
            if count = 0 then
              Some (st, Inr \<lparr>rp_target = target, rp_entries = [], rp_additions = None\<rparr>)
            else if objc2_size_multiply True count sizeof_reload_entry = None
              then Some (st, Inl ''method-metadata'')
            else (let (s1, ok) = rt_alloc st in
              if \<not> ok then Some (s1, Inl ''allocation'')
              else do {
                res \<leftarrow> foldM (plan_method s1 (c_methods rt)) (Inr [])
                         (concat (map ml_items (c_methods rs)));
                Some (case res of Inl reason \<Rightarrow> (s1, Inl reason)
                      | Inr entries \<Rightarrow> build_additions s1 target entries)
              }))
     }"

section \<open>Applying a plan\<close>

definition safe_reload_emit_method_event ::
  "event_kind \<Rightarrow> nat \<Rightarrow> nat \<Rightarrow> objc_method \<Rightarrow> uintptr_t \<Rightarrow> uintptr_t \<Rightarrow> rt_state \<Rightarrow> rt_state" where
  "safe_reload_emit_method_event kind cls h m oldImp newImp st =
     rt_emit ((blank_event kind)\<lparr>ev_cls := Some cls, ev_method := Some h,
                ev_selector := Some (sel_name (m_selector m)),
                ev_old_implementation := oldImp, ev_new_implementation := newImp,
                ev_name := sel_name (m_selector m)\<rparr>) st"

text \<open>The added methods get the handles from \<open>meth_brk\<close> on.\<close>

definition place_methods :: "objc_method list \<Rightarrow> rt_state \<Rightarrow> rt_state" where
  "place_methods ms st =
     st\<lparr>meths := (\<lambda>h. if meth_brk st \<le> h \<and> h < meth_brk st + length ms
                       then Some (ms ! (h - meth_brk st)) else meths st h),
        meth_brk := meth_brk st + length ms\<rparr>"

definition emit_added :: "nat \<Rightarrow> rt_state \<Rightarrow> nat \<Rightarrow> rt_state option" where
  "emit_added target st h =
     do { m \<leftarrow> meths st h;
          Some (safe_reload_emit_method_event EVENT_METHOD_ADDED target h m 0 (m_imp m) st) }"

definition commit_additions ::
  "nat \<Rightarrow> rt_state \<Rightarrow> nat \<Rightarrow> objc_method list \<Rightarrow> rt_state option" where
  "commit_additions fuel st target ms =
     do {
       let l = \<lparr>ml_count = int (length ms), ml_size = sizeof_objc_method,
                ml_methods = [meth_brk st..<meth_brk st + length ms]\<rparr>;
       s1 \<leftarrow> upd_class target (\<lambda>x. x\<lparr>c_methods := l # c_methods x\<rparr>) (place_methods ms st);
       has \<leftarrow> classHasDtable s1 target;
       s2 \<leftarrow> (if has then add_method_list_to_class fuel s1 target l else Some s1);
       foldM (emit_added target) s2 (ml_items l)
     }"

definition commit_entry :: "nat \<Rightarrow> rt_state \<Rightarrow> safe_reload_method_entry \<Rightarrow> rt_state option" where
  "commit_entry target st e =
     (case re_target e of None \<Rightarrow> Some st
      | Some h \<Rightarrow>
          do {
            m \<leftarrow> meths st h;
            let m' = m\<lparr>m_imp := re_implementation e\<rparr>;
            Some (safe_reload_emit_method_event EVENT_METHOD_REPLACED target h m' (m_imp m)
                    (re_implementation e) (st\<lparr>meths := (meths st)(h \<mapsto> m')\<rparr>))
          })"

definition safe_reload_commit_plan ::
  "nat \<Rightarrow> rt_state \<Rightarrow> safe_reload_method_plan \<Rightarrow> rt_state option" where
  "safe_reload_commit_plan fuel st plan =
     do {
       s1 \<leftarrow> (case rp_additions plan of None \<Rightarrow> Some st
              | Some ms \<Rightarrow> commit_additions fuel st (rp_target plan) ms);
       foldM (commit_entry (rp_target plan)) s1 (rp_entries plan)
     }"

definition refresh_cxx_method :: "nat \<Rightarrow> rt_state \<Rightarrow> nat \<Rightarrow> rt_state option" where
  "refresh_cxx_method target st h =
     do {
       m \<leftarrow> meths st h;
       let name = sel_name (m_selector m);
       upd_class target (\<lambda>x.
         if c_cxx_construct x = 0 \<and> name = ''.cxx_construct'' then x\<lparr>c_cxx_construct := m_imp m\<rparr>
         else if c_cxx_destruct x = 0 \<and> name = ''.cxx_destruct'' then x\<lparr>c_cxx_destruct := m_imp m\<rparr>
         else x) st
     }"

definition refresh_reload_cxx_cache :: "rt_state \<Rightarrow> nat \<Rightarrow> rt_state option" where
  "refresh_reload_cxx_cache st target =
     do {
       s1 \<leftarrow> upd_class target (\<lambda>x. x\<lparr>c_cxx_construct := 0, c_cxx_destruct := 0\<rparr>) st;
       r \<leftarrow> classes s1 target;
       foldM (refresh_cxx_method target) s1 (class_methods r)
     }"

section \<open>Safe reloading\<close>

definition reload_event :: "event_kind \<Rightarrow> nat \<Rightarrow> cstring option \<Rightarrow> string \<Rightarrow> rt_state \<Rightarrow> rt_state" where
  "reload_event kind canonical name detail st =
     rt_emit ((blank_event kind)\<lparr>ev_cls := Some canonical,
                ev_name := (case name of None \<Rightarrow> [] | Some nm \<Rightarrow> cs_text nm),
                ev_detail := detail\<rparr>) st"

text \<open>The target of the code's \<open>goto reject\<close>.\<close>

definition reload_reject :: "rt_state \<Rightarrow> nat \<Rightarrow> string \<Rightarrow> (rt_state \<times> bool) option" where
  "reload_reject st canonical reason =
     do { r \<leftarrow> classes st canonical;
          Some (reload_event EVENT_CLASS_RELOAD_REJECTED canonical (c_name r) reason st, False) }"

text \<open>Both plans are prepared before either is applied; the second only when the first is possible.\<close>

definition prepare_plans ::
  "rt_state \<Rightarrow> nat \<Rightarrow> nat \<Rightarrow> nat \<Rightarrow> nat \<Rightarrow>
   (rt_state \<times> (string + safe_reload_method_plan \<times> safe_reload_method_plan)) option" where
  "prepare_plans st canonical candidate canonical_isa candidate_isa =
     do {
       (s1, p1) \<leftarrow> safe_reload_prepare_plan st canonical candidate;
       (case p1 of Inl reason \<Rightarrow> Some (s1, Inl reason)
        | Inr instancePlan \<Rightarrow>
            do {
              (s2, p2) \<leftarrow> safe_reload_prepare_plan s1 canonical_isa candidate_isa;
              Some (s2, (case p2 of Inl reason \<Rightarrow> Inl reason
                         | Inr classPlan \<Rightarrow> Inr (instancePlan, classPlan)))
            })
     }"

definition commit_plans ::
  "nat \<Rightarrow> rt_state \<Rightarrow> nat \<Rightarrow> nat \<Rightarrow> safe_reload_method_plan \<Rightarrow> safe_reload_method_plan \<Rightarrow> rt_state option" where
  "commit_plans fuel st canonical canonical_isa instancePlan classPlan =
     do {
       s1 \<leftarrow> safe_reload_commit_plan fuel st instancePlan;
       s2 \<leftarrow> safe_reload_commit_plan fuel s1 classPlan;
       s3 \<leftarrow> refresh_reload_cxx_cache s2 canonical;
       refresh_reload_cxx_cache s3 canonical_isa
     }"

definition safe_reload_class ::
  "nat \<Rightarrow> nat \<Rightarrow> rt_state \<Rightarrow> nat \<Rightarrow> nat \<Rightarrow> (rt_state \<times> bool) option" where
  "safe_reload_class fuel thread st candidate canonical =
     do {
       rc \<leftarrow> classes st candidate;
       rl \<leftarrow> classes st canonical;
       (case (c_isa rc, c_isa rl) of
          (Some candidate_isa, Some canonical_isa) \<Rightarrow>
            do {
              (s1, mismatch) \<leftarrow> safe_reload_layout_matches fuel thread st candidate canonical;
              (case mismatch of Some reason \<Rightarrow> reload_reject s1 canonical reason
               | None \<Rightarrow>
                   do {
                     s2 \<leftarrow> objc_register_selectors_from_class s1 (Some candidate);
                     s3 \<leftarrow> objc_register_selectors_from_class s2 (Some candidate_isa);
                     (s4, plans) \<leftarrow> prepare_plans s3 canonical candidate canonical_isa candidate_isa;
                     (case plans of Inl reason \<Rightarrow> reload_reject s4 canonical reason
                      | Inr (instancePlan, classPlan) \<Rightarrow>
                          do {
                            s5 \<leftarrow> commit_plans fuel s4 canonical canonical_isa instancePlan classPlan;
                            r5 \<leftarrow> classes s5 canonical;
                            Some (reload_event EVENT_CLASS_RELOADED canonical (c_name r5)
                                    ''layout-compatible'' s5, True)
                          })
                   })
            }
        | _ \<Rightarrow> reload_reject st canonical ''metaclass'')
     }"

section \<open>Permissive reloading\<close>

text \<open>
  The superclass field is read as a name without a check; for a class object in that field the
  result of the cast is not modelled.
\<close>

definition permissive_superclass ::
  "nat \<Rightarrow> rt_state \<Rightarrow> objc_class \<Rightarrow> (rt_state \<times> super_ref option) option" where
  "permissive_superclass thread st rc =
     (case c_super_class rc of
        Some (SuperClass _) \<Rightarrow> None
      | Some (SuperName nm) \<Rightarrow>
          (let (s1, s) = class_table_get_safe thread st (Some nm) in Some (s1, map_option SuperClass s))
      | None \<Rightarrow> Some (st, None))"

text \<open>The loop runs over the instance variables of the old class only, and \<open>strcmp\<close> needs both
  strings.\<close>

fun permissive_ivars_equal :: "objc_ivar list \<Rightarrow> objc_ivar list \<Rightarrow> nat \<Rightarrow> nat \<Rightarrow> bool option" where
  "permissive_ivars_equal old new i 0 = Some True"
| "permissive_ivars_equal old new i (Suc n) =
     (if \<not> (i < length old \<and> i < length new) then None
      else do {
        oldName \<leftarrow> iv_name (old ! i);
        newName \<leftarrow> iv_name (new ! i);
        oldType \<leftarrow> iv_type (old ! i);
        newType \<leftarrow> iv_type (new ! i);
        if oldName = newName \<and> oldType = newType \<and> iv_offset (old ! i) = iv_offset (new ! i)
        then permissive_ivars_equal old new (Suc i) n else Some False
      })"

definition permissive_layout_equal :: "objc_class \<Rightarrow> objc_class \<Rightarrow> bool option" where
  "permissive_layout_equal class old =
     (let same = c_super_class class = c_super_class old \<and> c_instance_size class = c_instance_size old in
      case (c_ivars class, c_ivars old) of
        (Some new, Some il) \<Rightarrow>
          if same then permissive_ivars_equal (il_ivars il) (il_ivars new) 0 (nat (il_count il))
          else Some False
      | (None, None) \<Rightarrow> Some same
      | _ \<Rightarrow> Some False)"

text \<open>Linking the first method list of the new class in front of the old ones drops its other
  lists.\<close>

definition permissive_overlay :: "nat \<Rightarrow> rt_state \<Rightarrow> nat \<Rightarrow> nat \<Rightarrow> rt_state option" where
  "permissive_overlay fuel st cls old =
     do {
       rc \<leftarrow> classes st cls;
       ro \<leftarrow> classes st old;
       (case c_methods rc of [] \<Rightarrow> None
        | l # _ \<Rightarrow>
            do {
              s1 \<leftarrow> upd_class cls (\<lambda>x. x\<lparr>c_methods := l # c_methods ro\<rparr>) st;
              s2 \<leftarrow> upd_class old (\<lambda>x. x\<lparr>c_methods := l # c_methods ro\<rparr>) s1;
              objc_update_dtable_for_class fuel s2 old
            })
     }"

text \<open>\<open>class_table_internal_table_set\<close>: the entry found under the name is replaced, or one is added.\<close>

definition class_table_internal_table_set :: "rt_state \<Rightarrow> string \<Rightarrow> nat \<Rightarrow> rt_state" where
  "class_table_internal_table_set st name cls =
     (case class_table_internal_table_get st name of
        None \<Rightarrow> st\<lparr>class_table := class_table st @ [cls]\<rparr>
      | Some c \<Rightarrow> st\<lparr>class_table := map (\<lambda>x. if x = c then cls else x) (class_table st)\<rparr>)"

text \<open>The steps that a replaced and a new class share at the end.\<close>

definition finish_loading :: "rt_state \<Rightarrow> nat \<Rightarrow> bool \<Rightarrow> rt_state option" where
  "finish_loading st cls root =
     do {
       r \<leftarrow> classes st cls;
       s1 \<leftarrow> (if root then upd_class_opt (c_isa r) (\<lambda>x. x\<lparr>c_super_class := Some (SuperClass cls)\<rparr>) st
              else Some st);
       (case c_protocols r of None \<Rightarrow> Some s1
        | Some p \<Rightarrow> do { ps \<leftarrow> objc_init_protocols (rt_protocols s1) p;
                          Some (s1\<lparr>rt_protocols := ps\<rparr>) })
     }"

definition uninstall_dtables :: "rt_state \<Rightarrow> nat \<Rightarrow> rt_state option" where
  "uninstall_dtables st cls =
     do {
       s1 \<leftarrow> upd_class cls (\<lambda>x. x\<lparr>c_dtable := Some (uninstalled_dtable st)\<rparr>) st;
       r \<leftarrow> classes s1 cls;
       upd_class_opt (c_isa r) (\<lambda>x. x\<lparr>c_dtable := Some (uninstalled_dtable st)\<rparr>) s1
     }"

definition permissive_reload_class ::
  "nat \<Rightarrow> nat \<Rightarrow> rt_state \<Rightarrow> nat \<Rightarrow> nat \<Rightarrow> rt_state option" where
  "permissive_reload_class fuel thread st cls old =
     do {
       r \<leftarrow> classes st cls;
       (s0, super) \<leftarrow> permissive_superclass thread st r;
       s1 \<leftarrow> upd_class cls (\<lambda>x. x\<lparr>c_super_class := super\<rparr>) s0;
       rc \<leftarrow> classes s1 cls;
       ro \<leftarrow> classes s1 old;
       equalLayouts \<leftarrow> permissive_layout_equal rc ro;
       if equalLayouts then permissive_overlay fuel s1 cls old
       else do {
         s2 \<leftarrow> upd_class cls (\<lambda>x. x\<lparr>c_subclass_list := None\<rparr>) s1;
         nm \<leftarrow> c_name rc;
         s3 \<leftarrow> uninstall_dtables
                 (class_table_invalidate_cache (class_table_internal_table_set s2 (cs_text nm) cls)) cls;
         finish_loading s3 cls (c_super_class r = None)
       }
     }"

section \<open>Loading a class\<close>

text \<open>\<open>insert_ok\<close>: the class table had room.\<close>

definition load_new_class :: "bool \<Rightarrow> rt_state \<Rightarrow> nat \<Rightarrow> rt_state option" where
  "load_new_class insert_ok st cls =
     do {
       s1 \<leftarrow> upd_class cls (\<lambda>x. x\<lparr>c_subclass_list := None\<rparr>) st;
       s2 \<leftarrow> class_table_insert insert_ok s1 cls;
       s3 \<leftarrow> uninstall_dtables s2 cls;
       r \<leftarrow> classes s3 cls;
       nm \<leftarrow> c_name r;
       s4 \<leftarrow> (if cs_text nm = ''NSConstantString''
              then upd_class cls (\<lambda>x. objc_set_class_flag x objc_class_flag_permanent_instances) s3
              else Some s3);
       finish_loading s4 cls (c_super_class r = None)
     }"

definition objc_load_class :: "nat \<Rightarrow> nat \<Rightarrow> bool \<Rightarrow> rt_state \<Rightarrow> nat \<Rightarrow> rt_state option" where
  "objc_load_class fuel thread insert_ok st cls =
     do {
       r \<leftarrow> classes st cls;
       let (s0, existing) = class_table_get_safe thread st (c_name r);
       (case existing of
          None \<Rightarrow> load_new_class insert_ok s0 cls
        | Some existingClass \<Rightarrow>
            (case dev_mode s0 of
               mode_safe_reload \<Rightarrow> map_option fst (safe_reload_class fuel thread s0 cls existingClass)
             | mode_developer \<Rightarrow> permissive_reload_class fuel thread s0 cls existingClass
             | mode_user \<Rightarrow> Some s0))
     }"

end
