(* ===== verification/Objc_Reload_Thms.thy ===== *)
theory Objc_Reload_Thms
  imports Objc_Reload Objc_Dispatch_Install
begin

text \<open>
  Reloading a class in safe mode is all or nothing: a refused definition changes neither a class
  nor a method nor a table; an accepted one overlays the methods of the class in use with the
  incoming ones, name by name, and keeps every layout.
\<close>

section \<open>What the dispatch tables do not touch\<close>

definition class_core ::
  "objc_class \<Rightarrow> nat option \<times> super_ref option \<times> cstring option \<times> int \<times> objc_ivar_list option \<times>
   objc_method_list list" where
  "class_core r = (c_isa r, c_super_class r, c_name r, c_instance_size r, c_ivars r, c_methods r)"

text \<open>Methods, integers and the core of every class are the same in both states.\<close>

definition keeps_core :: "rt_state \<Rightarrow> rt_state \<Rightarrow> bool" where
  "keeps_core st st' \<longleftrightarrow>
     meths st' = meths st \<and> meth_brk st' = meth_brk st \<and> ints st' = ints st \<and>
     class_table st' = class_table st \<and>
     (\<forall>k. map_option class_core (classes st' k) = map_option class_core (classes st k))"

lemma keeps_core_refl [simp, intro]: "keeps_core st st"
  by (simp add: keeps_core_def)

lemma keeps_core_trans [trans]: "keeps_core st s1 \<Longrightarrow> keeps_core s1 s2 \<Longrightarrow> keeps_core st s2"
  by (simp add: keeps_core_def)

lemma keeps_core_fields [simp]:
  "keeps_core st (s\<lparr>dtables := h\<rparr>) = keeps_core st s"
  "keeps_core st (s\<lparr>uncacheable_imp := i\<rparr>) = keeps_core st s"
  "keeps_core st (s\<lparr>rt_protocols := p\<rparr>) = keeps_core st s"
  "keeps_core st (s\<lparr>class_lookup_cache := lc\<rparr>) = keeps_core st s"
  by (simp_all add: keeps_core_def)

lemma keeps_core_upd:
  "upd_class c f st = Some st' \<Longrightarrow> (\<And>r. class_core (f r) = class_core r) \<Longrightarrow> keeps_core st st'"
  by (auto simp: upd_class_def keeps_core_def split: option.splits)

lemma class_core_flag [simp]: "class_core (set_flag_if b flag r) = class_core r"
  by (simp add: class_core_def set_flag_if_def objc_set_class_flag_def objc_clear_class_flag_def)

lemma class_core_strip: "strip_cxx r' = strip_cxx r \<Longrightarrow> class_core r' = class_core r"
proof -
  assume eq: "strip_cxx r' = strip_cxx r"
  have "class_core (strip_cxx x) = class_core x" for x by (simp add: class_core_def strip_cxx_def)
  then show ?thesis using eq by metis
qed

lemma keeps_core_frame: "dt_frame st st' \<Longrightarrow> keeps_core st st'"
proof -
  assume f: "dt_frame st st'"
  have eq: "dt_blank st' = dt_blank st" using f by (simp add: dt_frame_def)
  have "map_option class_core (classes st' k) = map_option class_core (classes st k)" for k
  proof -
    have "map_option strip_cxx (classes st' k) = map_option strip_cxx (classes st k)"
      using f by (simp add: dt_frame_def)
    then show ?thesis by (cases "classes st' k"; cases "classes st k") (auto dest: class_core_strip)
  qed
  then show ?thesis
    using arg_cong [OF eq, of meths] arg_cong [OF eq, of meth_brk] arg_cong [OF eq, of ints]
      arg_cong [OF eq, of class_table] by (simp add: keeps_core_def dt_blank_def)
qed

lemma get_slot_core: "objc_get_slot2 st c s = Some (st', x) \<Longrightarrow> keeps_core st st'"
  unfolding objc_get_slot2_def by (auto split: bind_splits option.splits)

lemma owner_core: "ownerForMethod n st c s = Some (st', x) \<Longrightarrow> keeps_core st st'"
proof (induction n arbitrary: st c)
  case (Suc n)
  then show ?case
    by (auto split: bind_splits option.splits super_ref.splits if_splits dest!: get_slot_core)
      (meson keeps_core_trans Suc.IH)+
qed simp

lemma owner_for_method_core: "owner_for_method st c s = Some (st', x) \<Longrightarrow> keeps_core st st'"
  unfolding owner_for_method_def by (rule owner_core)

lemma owns_core: "ownsMethod st c s = Some (st', x) \<Longrightarrow> keeps_core st st'"
  unfolding ownsMethod_def by (auto dest: owner_for_method_core)

lemma fast_alloc_core: "checkFastAllocInit st c = Some st' \<Longrightarrow> keeps_core st st'"
  unfolding checkFastAllocInit_def
  by (auto split: bind_splits if_splits option.splits dest!: owner_for_method_core keeps_core_upd)
    (meson keeps_core_trans)+

lemma compliant_core: "arc_compliant st c s m = Some (st', x) \<Longrightarrow> keeps_core st st'"
  unfolding arc_compliant_def
  by (auto split: bind_splits option.splits dest!: owner_for_method_core owns_core)
    (meson keeps_core_trans)+

lemma arc_core: "checkARCAccessors st c = Some st' \<Longrightarrow> keeps_core st st'"
  unfolding checkARCAccessors_def
  by (auto split: bind_splits if_splits dest!: fast_alloc_core compliant_core keeps_core_upd)
    (meson keeps_core_trans)+

lemma new_core: "new_sparse_array_or_abort st d = Some (st', x) \<Longrightarrow> keeps_core st st'"
  by (auto simp: new_sparse_array_or_abort_def split: bind_splits)

lemma insert_core: "sparse_array_insert_or_abort st d i v = Some st' \<Longrightarrow> keeps_core st st'"
  using insert_frame keeps_core_frame by blast

lemma free_core: "free_dtable st d = Some st' \<Longrightarrow> keeps_core st st'"
  by (auto simp: free_dtable_def)

lemma foldM_core:
  assumes "\<And>s x s'. f s x = Some s' \<Longrightarrow> keeps_core s s'"
  shows "foldM f st xs = Some st' \<Longrightarrow> keeps_core st st'"
proof (induction xs arbitrary: st)
  case (Cons x xs)
  then obtain s1 where "f st x = Some s1" "foldM f s1 xs = Some st'" by (auto split: bind_splits)
  with Cons.IH assms show ?case by (blast intro: keeps_core_trans)
qed simp

lemma collect_core:
  "collectMethodsForMethodListToSparseArray [l] st d False = Some st' \<Longrightarrow> keeps_core st st'"
proof -
  let ?f = "\<lambda>s h. do { m \<leftarrow> meths s h;
     sparse_array_insert_or_abort s (Some d) (sel_index s (m_selector m)) (Some h) }"
  have step: "keeps_core s s'" if "?f s h = Some s'" for s h s'
    using that by (auto split: bind_splits dest!: insert_core)
  assume "collectMethodsForMethodListToSparseArray [l] st d False = Some st'"
  then have "foldM ?f st (ml_items l) = Some st'" by simp
  with step show ?thesis by (rule foldM_core)
qed

lemma dtable_loop_core:
  assumes "\<And>s i h s'. body s i h = Some s' \<Longrightarrow> keeps_core s s'"
  shows "dtable_loop n body d st i = Some st' \<Longrightarrow> keeps_core st st'"
proof (induction n arbitrary: st i)
  case (Suc n)
  then obtain m j where nx: "SparseArrayNext (dtables st) d (Some i) = Some (m, j)"
    by (auto split: bind_splits)
  show ?case
  proof (cases "m = None \<or> j = None")
    case True
    then have "st' = st" using Suc.prems nx by (auto split: option.splits)
    then show ?thesis by simp
  next
    case False
    then obtain h k where mk: "m = Some h" "j = Some k" by auto
    with Suc.prems nx obtain s1 where "body st k h = Some s1" "dtable_loop n body d s1 k = Some st'"
      by (auto split: bind_splits)
    with Suc.IH assms show ?thesis by (blast intro: keeps_core_trans)
  qed
qed simp

lemma install_methods_core:
  "installMethodsInClass n st c mtr ms rep = Some st' \<Longrightarrow> keeps_core st st'"
  unfolding installMethodsInClass_def
  by (auto split: bind_splits if_splits option.splits elim!: dtable_loop_core [rotated]
      simp: install_method_def dest!: install_frame keeps_core_frame insert_core)
    (meson keeps_core_trans)+

lemma add_method_list_core: "add_method_list_to_class n st c l = Some st' \<Longrightarrow> keeps_core st st'"
  unfolding add_method_list_to_class_def
  by (auto split: bind_splits if_splits simp del: collectMethodsForMethodListToSparseArray.simps
      dest!: new_core collect_core install_methods_core free_core arc_core)
    (meson keeps_core_trans)+

lemma emit_core [simp]: "keeps_core st (rt_emit ev s) = keeps_core st s"
  by (simp add: rt_emit_def)

lemma alloc_core: "rt_alloc st = (st', ok) \<Longrightarrow> keeps_core st st'"
  by (auto simp: rt_alloc_def split: prod.splits)

lemma refresh_cxx_core: "refresh_reload_cxx_cache st c = Some st' \<Longrightarrow> keeps_core st st'"
proof -
  have step: "keeps_core s s'" if "refresh_cxx_method c s h = Some s'" for s s' h
    using that unfolding refresh_cxx_method_def Let_def
    by (auto split: bind_splits dest!: keeps_core_upd simp: class_core_def)
  have loop: "keeps_core s s'" if "foldM (refresh_cxx_method c) s hs = Some s'" for s s' hs
    using step that by (rule foldM_core)
  show "refresh_reload_cxx_cache st c = Some st' \<Longrightarrow> keeps_core st st'"
    unfolding refresh_reload_cxx_cache_def
    by (auto split: bind_splits dest!: keeps_core_upd loop simp: class_core_def)
      (meson keeps_core_trans)+
qed

section \<open>Methods by name\<close>

text \<open>The implementation and the types of the method that a name selects in method lists, and in the
  lists of a class.\<close>

definition impl_in :: "rt_state \<Rightarrow> objc_method_list list \<Rightarrow> string \<Rightarrow> (uintptr_t \<times> string option) option" where
  "impl_in st ls n =
     do { f \<leftarrow> safe_reload_find_method st ls n; h \<leftarrow> f; m \<leftarrow> meths st h; Some (m_imp m, m_types m) }"

definition own_impl :: "rt_state \<Rightarrow> nat \<Rightarrow> string \<Rightarrow> (uintptr_t \<times> string option) option" where
  "own_impl st c n = do { r \<leftarrow> classes st c; impl_in st (c_methods r) n }"

lemma keeps_core_own_impl: "keeps_core st st' \<Longrightarrow> own_impl st' c = own_impl st c"
proof (rule ext)
  fix n
  assume k: "keeps_core st st'"
  then have m: "meths st' = meths st" and c: "map_option class_core (classes st' c) = map_option class_core (classes st c)"
    by (simp_all add: keeps_core_def)
  have f: "safe_reload_find_method st' ls n = safe_reload_find_method st ls n" for ls
    by (induction ls) (auto simp: m)
  show "own_impl st' c n = own_impl st c n"
    using c by (cases "classes st' c"; cases "classes st c") (auto simp: own_impl_def impl_in_def f m class_core_def)
qed

definition handles :: "objc_method_list list \<Rightarrow> nat set" where
  "handles ls = set (concat (map ml_items ls))"

text \<open>The names at given handles are the same in both states.\<close>

definition same_names :: "nat set \<Rightarrow> rt_state \<Rightarrow> rt_state \<Rightarrow> bool" where
  "same_names H st st' \<longleftrightarrow>
     (\<forall>h\<in>H. map_option (\<lambda>m. sel_name (m_selector m)) (meths st' h) =
             map_option (\<lambda>m. sel_name (m_selector m)) (meths st h))"

lemma scanM_cong: "(\<And>x. x \<in> set xs \<Longrightarrow> f x = g x) \<Longrightarrow> scanM f xs = scanM g xs"
  by (induction xs) (simp_all cong: option.case_cong)

lemma find_same_names:
  "same_names (handles ls) st st' \<Longrightarrow> safe_reload_find_method st' ls n = safe_reload_find_method st ls n"
proof (induction ls)
  case (Cons l ls)
  let ?f = "\<lambda>st h. map_option (\<lambda>m. if sel_name (m_selector m) = n then Some h else None) (meths st h)"
  have eq: "?f st' h = ?f st h" if "h \<in> set (ml_items l)" for h
  proof -
    have "map_option (\<lambda>m. sel_name (m_selector m)) (meths st' h) =
          map_option (\<lambda>m. sel_name (m_selector m)) (meths st h)"
      using Cons.prems that by (simp add: same_names_def handles_def)
    then show ?thesis by (cases "meths st' h"; cases "meths st h") auto
  qed
  have "scanM (?f st') (ml_items l) = scanM (?f st) (ml_items l)" by (rule scanM_cong) (rule eq)
  moreover have "same_names (handles ls) st st'" using Cons.prems by (auto simp: same_names_def handles_def)
  ultimately show ?case using Cons.IH by simp
qed simp

lemma scanM_Some:
  "scanM f xs = Some (Some y) \<Longrightarrow> \<exists>x\<in>set xs. f x = Some (Some y)"
  by (induction xs) (auto split: bind_splits option.splits)

lemma find_method_Some:
  "safe_reload_find_method st ls n = Some (Some h) \<Longrightarrow>
   h \<in> handles ls \<and> (\<exists>m. meths st h = Some m \<and> sel_name (m_selector m) = n)"
proof (induction ls)
  case (Cons l ls)
  then show ?case
    by (auto simp: handles_def split: if_splits bind_splits option.splits dest!: scanM_Some)
qed simp

section \<open>The plan\<close>

text \<open>The first of the given methods that has a name.\<close>

definition first_named :: "rt_state \<Rightarrow> nat list \<Rightarrow> string \<Rightarrow> objc_method option" where
  "first_named st hs n =
     find (\<lambda>m. sel_name (m_selector m) = n) (map (\<lambda>h. the (meths st h)) hs)"

definition entry_for :: "safe_reload_method_entry list \<Rightarrow> string \<Rightarrow> safe_reload_method_entry option" where
  "entry_for es n = find (\<lambda>e. sel_name (re_selector e) = n) es"

text \<open>The entries planned for the methods \<open>hs\<close> against the lists \<open>ls\<close>.\<close>

definition planned ::
  "rt_state \<Rightarrow> objc_method_list list \<Rightarrow> nat list \<Rightarrow> safe_reload_method_entry list \<Rightarrow> bool" where
  "planned st ls hs es \<longleftrightarrow>
     (\<forall>h\<in>set hs. meths st h \<noteq> None) \<and> distinct (map (\<lambda>e. sel_name (re_selector e)) es) \<and>
     (\<forall>n. map_option (\<lambda>e. (re_implementation e, re_types e)) (entry_for es n) =
          map_option (\<lambda>m. (m_imp m, m_types m)) (first_named st hs n)) \<and>
     (\<forall>e\<in>set es. safe_reload_find_method st ls (sel_name (re_selector e)) = Some (re_target e) \<and>
        (\<forall>h. re_target e = Some h \<longrightarrow> (\<exists>m. meths st h = Some m \<and> m_types m = re_types e)))"

lemma find_snoc: "find P (xs @ [x]) = (case find P xs of Some y \<Rightarrow> Some y | None \<Rightarrow> if P x then Some x else None)"
  by (induction xs) auto

lemma plan_contains_entry: "safe_reload_plan_contains_name es n \<longleftrightarrow> entry_for es n \<noteq> None"
  by (auto simp: safe_reload_plan_contains_name_def entry_for_def find_None_iff)

lemma plan_method_step:
  assumes p: "planned st ls hs es" and s: "plan_method st ls (Inr es) h = Some (Inr es')"
  shows "planned st ls (hs @ [h]) es'"
proof -
  from s obtain m where m: "meths st h = Some m" by (auto simp: plan_method_def split: bind_splits)
  let ?n = "sel_name (m_selector m)"
  have fn: "first_named st (hs @ [h]) n =
      (case first_named st hs n of Some y \<Rightarrow> Some y | None \<Rightarrow> if ?n = n then Some m else None)" for n
    by (simp add: first_named_def find_snoc m)
  have ent: "map_option (\<lambda>e. (re_implementation e, re_types e)) (entry_for es ?n) =
      map_option (\<lambda>m. (m_imp m, m_types m)) (first_named st hs ?n)"
    using p unfolding planned_def by blast
  show ?thesis
  proof (cases "safe_reload_plan_contains_name es ?n")
    case True
    then have es': "es' = es" using s m by (auto simp: plan_method_def Let_def split: if_splits)
    have "first_named st hs ?n \<noteq> None"
      using True ent unfolding plan_contains_entry by (cases "first_named st hs ?n") auto
    then have "first_named st (hs @ [h]) n = first_named st hs n" for n
      unfolding fn by (cases "n = ?n") (auto split: option.splits)
    then show ?thesis using p m unfolding planned_def es' by auto
  next
    case False
    with s m obtain ex where ex: "safe_reload_find_method st ls ?n = Some ex"
      and es': "es' = es @ [\<lparr>re_target = ex, re_selector = m_selector m, re_implementation = m_imp m,
                             re_types = m_types m\<rparr>]"
      and ty: "\<And>g. ex = Some g \<Longrightarrow> \<exists>m'. meths st g = Some m' \<and> m_types m' = m_types m"
      by (auto simp: plan_method_def Let_def reload_string_equal_def split: if_splits bind_splits option.splits)
    have none: "entry_for es ?n = None" using False by (simp add: plan_contains_entry)
    then have "first_named st hs ?n = None" using ent by simp
    then have "map_option (\<lambda>e. (re_implementation e, re_types e)) (entry_for es' n) =
        map_option (\<lambda>m. (m_imp m, m_types m)) (first_named st (hs @ [h]) n)" for n
    proof (cases "n = ?n")
      case True
      then show ?thesis using none \<open>first_named st hs ?n = None\<close> unfolding fn
        by (auto simp: es' entry_for_def find_snoc)
    next
      case other: False
      then have "entry_for es' n = entry_for es n" by (auto simp: es' entry_for_def find_snoc split: option.splits)
      moreover have "first_named st (hs @ [h]) n = first_named st hs n"
        unfolding fn using other by (auto split: option.splits)
      ultimately show ?thesis using p by (simp add: planned_def)
    qed
    moreover have "?n \<notin> (\<lambda>e. sel_name (re_selector e)) ` set es"
      using False by (auto simp: safe_reload_plan_contains_name_def)
    ultimately show ?thesis using p m ex ty unfolding planned_def es' by auto
  qed
qed

lemma plan_loop:
  assumes "foldM (plan_method st ls) (Inr es0) hs = Some (Inr es)" "planned st ls hs0 es0"
  shows "planned st ls (hs0 @ hs) es"
  using assms
proof (induction hs arbitrary: es0 hs0)
  case (Cons h hs)
  have stuck: "foldM (plan_method st ls) (Inl r) xs = Some (Inl r)" for r xs
    by (induction xs) (simp_all add: plan_method_def)
  from Cons.prems(1) obtain a where a: "plan_method st ls (Inr es0) h = Some a"
      "foldM (plan_method st ls) a hs = Some (Inr es)" by (auto split: bind_splits)
  show ?case
  proof (cases a)
    case (Inl r)
    then show ?thesis using a(2) by (simp add: stuck)
  next
    case (Inr es1)
    have "planned st ls ((hs0 @ [h]) @ hs) es"
      by (rule Cons.IH [OF _ plan_method_step [OF Cons.prems(2)]]) (use a Inr in auto)
    then show ?thesis by simp
  qed
qed simp

lemma planned_Nil: "planned st ls [] []"
  by (simp add: planned_def entry_for_def first_named_def)

lemma scanM_total:
  "(\<And>h. h \<in> set hs \<Longrightarrow> f h = Some (if P h then Some h else None)) \<Longrightarrow> scanM f hs = Some (find P hs)"
  by (induction hs) auto

lemma find_SomeD: "find P xs = Some x \<Longrightarrow> x \<in> set xs \<and> P x"
  by (auto simp: find_Some_iff)

lemma find_map_handles: "find P (map f xs) = map_option f (find (\<lambda>x. P (f x)) xs)"
  by (induction xs) auto

text \<open>In well-formed lists of live methods the search finds the first method of that name.\<close>

lemma find_method_wellformed:
  assumes "\<forall>l\<in>set ls. \<not> ml_malformed l" "\<forall>h\<in>handles ls. meths st h \<noteq> None"
  shows "safe_reload_find_method st ls n =
    Some (find (\<lambda>h. sel_name (m_selector (the (meths st h))) = n) (concat (map ml_items ls)))"
  using assms
proof (induction ls)
  case (Cons l ls)
  let ?P = "\<lambda>h. sel_name (m_selector (the (meths st h))) = n"
  have "scanM (\<lambda>h. map_option (\<lambda>m. if sel_name (m_selector m) = n then Some h else None) (meths st h)) (ml_items l)
      = Some (find ?P (ml_items l))"
  proof (rule scanM_total)
    fix h
    assume "h \<in> set (ml_items l)"
    then obtain m where "meths st h = Some m" using Cons.prems(2) by (auto simp: handles_def)
    then show "map_option (\<lambda>m. if sel_name (m_selector m) = n then Some h else None) (meths st h) =
        Some (if ?P h then Some h else None)" by simp
  qed
  moreover have "find ?P (xs @ ys) = (case find ?P xs of None \<Rightarrow> find ?P ys | Some y \<Rightarrow> Some y)" for xs ys
    by (induction xs) auto
  ultimately show ?case using Cons by (auto simp: handles_def split: option.splits)
qed simp

lemma impl_in_wellformed:
  assumes "\<forall>l\<in>set ls. \<not> ml_malformed l" "\<forall>h\<in>handles ls. meths st h \<noteq> None"
  shows "impl_in st ls n = map_option (\<lambda>m. (m_imp m, m_types m)) (first_named st (concat (map ml_items ls)) n)"
proof -
  let ?f = "find (\<lambda>h. sel_name (m_selector (the (meths st h))) = n) (concat (map ml_items ls))"
  have "meths st h \<noteq> None" if "?f = Some h" for h
    using find_SomeD [OF that] assms(2) unfolding handles_def by blast
  then show ?thesis unfolding impl_in_def find_method_wellformed [OF assms] first_named_def find_map_handles
    by (cases ?f) auto
qed

section \<open>Applying entries\<close>

definition apply_entries :: "safe_reload_method_entry list \<Rightarrow> nat \<Rightarrow> objc_method \<Rightarrow> objc_method" where
  "apply_entries es h m =
     fold (\<lambda>e m. if re_target e = Some h then m\<lparr>m_imp := re_implementation e\<rparr> else m) es m"

lemma apply_entries_other: "\<forall>e\<in>set es. re_target e \<noteq> Some h \<Longrightarrow> apply_entries es h m = m"
  unfolding apply_entries_def by (induction es) auto

lemma apply_entries_target:
  "\<forall>e'\<in>set es. re_target e' = Some h \<longrightarrow> re_implementation e' = i \<Longrightarrow>
   (\<exists>e\<in>set es. re_target e = Some h) \<or> m_imp m = i \<Longrightarrow> apply_entries es h m = m\<lparr>m_imp := i\<rparr>"
proof (induction es arbitrary: m)
  case Nil
  then show ?case by (simp add: apply_entries_def)
next
  case (Cons e es)
  let ?m = "if re_target e = Some h then m\<lparr>m_imp := re_implementation e\<rparr> else m"
  have "apply_entries es h ?m = ?m\<lparr>m_imp := i\<rparr>" by (rule Cons.IH) (use Cons.prems in auto)
  then show ?case using Cons.prems(1) by (simp add: apply_entries_def)
qed

lemma apply_entries_fields [simp]:
  "m_selector (apply_entries es h m) = m_selector m" "m_types (apply_entries es h m) = m_types m"
  unfolding apply_entries_def by (induction es arbitrary: m; simp)+

lemma commit_entries:
  "foldM (commit_entry t) s es = Some s' \<Longrightarrow>
   (\<forall>h. meths s' h = map_option (apply_entries es h) (meths s h)) \<and> classes s' = classes s \<and>
   meth_brk s' = meth_brk s \<and> ints s' = ints s \<and> class_table s' = class_table s"
proof (induction es arbitrary: s)
  case Nil
  have "map_option (apply_entries [] h) (meths s h) = meths s h" for h
    by (cases "meths s h") (simp_all add: apply_entries_def)
  with Nil show ?case by simp
next
  case (Cons e es)
  from Cons.prems obtain s1 where s1: "commit_entry t s e = Some s1" "foldM (commit_entry t) s1 es = Some s'"
    by (auto split: bind_splits)
  have m1: "meths s1 h = map_option (apply_entries [e] h) (meths s h)" for h
    using s1(1) by (cases "meths s h")
      (auto simp: commit_entry_def Let_def safe_reload_emit_method_event_def rt_emit_def apply_entries_def
        split: option.splits bind_splits)
  have "classes s1 = classes s" "meth_brk s1 = meth_brk s" "ints s1 = ints s" "class_table s1 = class_table s"
    using s1(1) by (auto simp: commit_entry_def Let_def safe_reload_emit_method_event_def rt_emit_def
        split: option.splits bind_splits)
  moreover have "apply_entries (e # es) h m = apply_entries es h (apply_entries [e] h m)" for h m
    by (simp add: apply_entries_def)
  ultimately show ?case using Cons.IH [OF s1(2)] m1 by (auto simp: option.map_comp comp_def)
qed

lemma commit_additions_steps:
  assumes "commit_additions fuel s t ms = Some s'"
  obtains s1 where
    "upd_class t (\<lambda>x. x\<lparr>c_methods := \<lparr>ml_count = int (length ms), ml_size = sizeof_objc_method,
        ml_methods = [meth_brk s..<meth_brk s + length ms]\<rparr> # c_methods x\<rparr>) (place_methods ms s) = Some s1"
    "keeps_core s1 s'"
proof -
  have step: "keeps_core a b" if "emit_added t a h = Some b" for a b h
    using that by (auto simp: emit_added_def safe_reload_emit_method_event_def split: bind_splits)
  have loop: "keeps_core a b" if "foldM (emit_added t) a hs = Some b" for a b hs
    using step that by (rule foldM_core)
  show ?thesis using assms that unfolding commit_additions_def Let_def
    by (auto split: bind_splits if_splits dest!: loop add_method_list_core intro: keeps_core_trans)
qed

text \<open>The state after the added methods are linked in front of the lists of a class.\<close>

definition added_list :: "rt_state \<Rightarrow> objc_method list \<Rightarrow> objc_method_list" where
  "added_list s ms = \<lparr>ml_count = int (length ms), ml_size = sizeof_objc_method,
                      ml_methods = [meth_brk s..<meth_brk s + length ms]\<rparr>"

definition lists_after :: "rt_state \<Rightarrow> objc_method list \<Rightarrow> objc_method_list list \<Rightarrow> objc_method_list list" where
  "lists_after s ms ls = (if ms = [] then ls else added_list s ms # ls)"

lemma added_list_items [simp]: "ml_items (added_list s ms) = [meth_brk s..<meth_brk s + length ms]"
  by (simp add: added_list_def ml_items_def)

lemma added_list_ok [simp]: "\<not> ml_malformed (added_list s ms)"
  by (simp add: added_list_def ml_malformed_def)

lemma place_methods_new: "i < length ms \<Longrightarrow> meths (place_methods ms s) (meth_brk s + i) = Some (ms ! i)"
  by (simp add: place_methods_def)

lemma place_methods_old: "h < meth_brk s \<Longrightarrow> meths (place_methods ms s) h = meths s h"
  by (simp add: place_methods_def)

lemma place_methods_Nil: "meths (place_methods [] s) = meths s" "meth_brk (place_methods [] s) = meth_brk s"
  by (auto simp: place_methods_def fun_eq_iff)

definition make_plan :: "nat \<Rightarrow> safe_reload_method_entry list \<Rightarrow> safe_reload_method_plan" where
  "make_plan t es = \<lparr>rp_target = t, rp_entries = es,
     rp_additions = (if additions_of es = [] then None else Some (additions_of es))\<rparr>"

lemma commit_plan_state:
  assumes c: "safe_reload_commit_plan fuel s (make_plan t es) = Some s'" and r: "classes s t = Some r"
  shows "\<exists>r'. classes s' t = Some r' \<and> c_methods r' = lists_after s (additions_of es) (c_methods r) \<and>
      class_core (r'\<lparr>c_methods := []\<rparr>) = class_core (r\<lparr>c_methods := []\<rparr>)"
    and "\<And>k. k \<noteq> t \<Longrightarrow> map_option class_core (classes s' k) = map_option class_core (classes s k)"
    and "\<And>h. meths s' h = map_option (apply_entries es h) (meths (place_methods (additions_of es) s) h)"
    and "meth_brk s' = meth_brk s + length (additions_of es)" "ints s' = ints s" "class_table s' = class_table s"
proof -
  let ?ms = "additions_of es"
  from c obtain s1 where s1: "(if ?ms = [] then Some s else commit_additions fuel s t ?ms) = Some s1"
      "foldM (commit_entry t) s1 es = Some s'"
    by (auto simp: safe_reload_commit_plan_def make_plan_def split: bind_splits if_splits)
  note fold = commit_entries [OF s1(2)]
  have "\<exists>s2 r2. keeps_core s2 s1 \<and> meths s2 = meths (place_methods ?ms s) \<and>
      meth_brk s2 = meth_brk s + length ?ms \<and> ints s2 = ints s \<and> class_table s2 = class_table s \<and>
      classes s2 = (classes s)(t \<mapsto> r2) \<and> r2 = r\<lparr>c_methods := lists_after s ?ms (c_methods r)\<rparr>"
  proof (cases "?ms = []")
    case True
    then have "s1 = s" using s1(1) by simp
    then show ?thesis using True r
      by (intro exI [of _ s] exI [of _ r]) (auto simp: lists_after_def place_methods_Nil)
  next
    case False
    then obtain s2 where s2: "upd_class t (\<lambda>x. x\<lparr>c_methods := added_list s ?ms # c_methods x\<rparr>)
        (place_methods ?ms s) = Some s2" "keeps_core s2 s1"
      using s1(1) by (auto elim!: commit_additions_steps simp: added_list_def)
    from s2(1) have "s2 = (place_methods ?ms s)\<lparr>classes := (classes s)(t \<mapsto>
        r\<lparr>c_methods := lists_after s ?ms (c_methods r)\<rparr>)\<rparr>"
      using r False by (simp add: upd_class_def place_methods_def lists_after_def)
    with s2(2) show ?thesis by (intro exI [of _ s2]) (simp add: place_methods_def)
  qed
  then obtain s2 r2 where s2: "keeps_core s2 s1" "meths s2 = meths (place_methods ?ms s)"
      "meth_brk s2 = meth_brk s + length ?ms" "ints s2 = ints s" "class_table s2 = class_table s"
      "classes s2 = (classes s)(t \<mapsto> r2)" "r2 = r\<lparr>c_methods := lists_after s ?ms (c_methods r)\<rparr>" by blast
  have core: "map_option class_core (classes s' k) = map_option class_core (classes s2 k)" for k
    using s2(1) fold by (simp add: keeps_core_def)
  from core [of t] s2(6) obtain r' where r': "classes s' t = Some r'" "class_core r' = class_core r2" by auto
  then show "\<exists>r'. classes s' t = Some r' \<and> c_methods r' = lists_after s ?ms (c_methods r) \<and>
      class_core (r'\<lparr>c_methods := []\<rparr>) = class_core (r\<lparr>c_methods := []\<rparr>)"
    using s2(7) by (auto simp: class_core_def)
  show "map_option class_core (classes s' k) = map_option class_core (classes s k)" if "k \<noteq> t" for k
    using core [of k] that s2(6) by simp
  show "meths s' h = map_option (apply_entries es h) (meths (place_methods ?ms s) h)" for h
    using s2(1,2) fold by (simp add: keeps_core_def)
  show "meth_brk s' = meth_brk s + length ?ms" "ints s' = ints s" "class_table s' = class_table s"
    using s2 fold by (simp_all add: keeps_core_def)
qed

lemma planned_entry:
  assumes "planned s0 ls hs es"
  shows "e \<in> set es \<Longrightarrow> entry_for es (sel_name (re_selector e)) = Some e"
    and "entry_for es n = Some e \<Longrightarrow> e \<in> set es \<and> sel_name (re_selector e) = n"
    and "e \<in> set es \<Longrightarrow> re_target e = Some h \<Longrightarrow>
      h \<in> handles ls \<and> (\<exists>m. meths s0 h = Some m \<and> sel_name (m_selector m) = sel_name (re_selector e) \<and>
        m_types m = re_types e)"
    and "e \<in> set es \<Longrightarrow> safe_reload_find_method s0 ls (sel_name (re_selector e)) = Some (re_target e)"
proof -
  show "e \<in> set es \<Longrightarrow> safe_reload_find_method s0 ls (sel_name (re_selector e)) = Some (re_target e)"
    using assms by (simp add: planned_def)
  show "entry_for es (sel_name (re_selector e)) = Some e" if e: "e \<in> set es"
  proof -
    have "entry_for es (sel_name (re_selector e)) \<noteq> None" using e by (auto simp: entry_for_def find_None_iff)
    then obtain e' where e': "entry_for es (sel_name (re_selector e)) = Some e'" by auto
    then have "e' \<in> set es" "sel_name (re_selector e') = sel_name (re_selector e)"
      unfolding entry_for_def by (auto dest: find_SomeD)
    then have "e' = e" using assms e unfolding planned_def distinct_map inj_on_def by blast
    with e' show ?thesis by simp
  qed
  show "entry_for es n = Some e \<Longrightarrow> e \<in> set es \<and> sel_name (re_selector e) = n"
    unfolding entry_for_def by (auto dest: find_SomeD)
  show "h \<in> handles ls \<and> (\<exists>m. meths s0 h = Some m \<and> sel_name (m_selector m) = sel_name (re_selector e) \<and>
      m_types m = re_types e)" if "e \<in> set es" "re_target e = Some h"
  proof -
    have "safe_reload_find_method s0 ls (sel_name (re_selector e)) = Some (Some h)"
      "\<exists>m. meths s0 h = Some m \<and> m_types m = re_types e" using assms that by (auto simp: planned_def)
    then show ?thesis using find_method_Some by fastforce
  qed
qed

lemma additions_entry:
  assumes "m \<in> set (additions_of es)"
  obtains e where "e \<in> set es" "re_target e = None"
    "m = \<lparr>m_imp = re_implementation e, m_selector = re_selector e, m_types = re_types e\<rparr>"
  using assms by (auto simp: additions_of_def)

text \<open>The first of the added methods with a name, by the plan.\<close>

definition added_named :: "rt_state \<Rightarrow> safe_reload_method_entry list \<Rightarrow> string \<Rightarrow> nat option" where
  "added_named s es n =
     find (\<lambda>h. sel_name (m_selector (the (meths (place_methods (additions_of es) s) h))) = n)
       [meth_brk s..<meth_brk s + length (additions_of es)]"

lemma find_added:
  assumes p: "planned s0 ls hs es"
  shows "added_named s es n = Some h \<Longrightarrow>
      meth_brk s \<le> h \<and> (\<exists>e. entry_for es n = Some e \<and> re_target e = None \<and>
        meths (place_methods (additions_of es) s) h =
          Some \<lparr>m_imp = re_implementation e, m_selector = re_selector e, m_types = re_types e\<rparr>)"
    and "added_named s es n = None \<Longrightarrow> \<forall>e. entry_for es n = Some e \<longrightarrow> re_target e \<noteq> None"
proof -
  let ?ms = "additions_of es"
  let ?P = "\<lambda>h. sel_name (m_selector (the (meths (place_methods ?ms s) h))) = n"
  show "meth_brk s \<le> h \<and> (\<exists>e. entry_for es n = Some e \<and> re_target e = None \<and>
      meths (place_methods ?ms s) h =
        Some \<lparr>m_imp = re_implementation e, m_selector = re_selector e, m_types = re_types e\<rparr>)"
    if f: "added_named s es n = Some h"
  proof -
    have "h \<in> set [meth_brk s..<meth_brk s + length ?ms]" "?P h"
      using find_SomeD [OF f [unfolded added_named_def]] by blast+
    then obtain i where i: "h = meth_brk s + i" "i < length ?ms" by (auto simp: le_iff_add)
    then have m: "meths (place_methods ?ms s) h = Some (?ms ! i)" by (simp add: place_methods_new)
    obtain e where e: "e \<in> set es" "re_target e = None"
      "?ms ! i = \<lparr>m_imp = re_implementation e, m_selector = re_selector e, m_types = re_types e\<rparr>"
      using additions_entry [OF nth_mem [OF i(2)]] by blast
    have "sel_name (re_selector e) = n" using \<open>?P h\<close> m e(3) by simp
    then show ?thesis using planned_entry(1) [OF p e(1)] e m i by auto
  qed
  show "\<forall>e. entry_for es n = Some e \<longrightarrow> re_target e \<noteq> None" if f: "added_named s es n = None"
  proof (intro allI impI notI)
    fix e
    assume e: "entry_for es n = Some e" "re_target e = None"
    then have "e \<in> set es" "sel_name (re_selector e) = n" using planned_entry(2) [OF p e(1)] by auto
    then have "\<lparr>m_imp = re_implementation e, m_selector = re_selector e, m_types = re_types e\<rparr> \<in> set ?ms"
      using e(2) by (auto simp: additions_of_def)
    then obtain i where i: "i < length ?ms"
      "?ms ! i = \<lparr>m_imp = re_implementation e, m_selector = re_selector e, m_types = re_types e\<rparr>"
      by (metis in_set_conv_nth)
    have "?P (meth_brk s + i)" using i \<open>sel_name (re_selector e) = n\<close> by (simp add: place_methods_new)
    moreover have "meth_brk s + i \<in> set [meth_brk s..<meth_brk s + length ?ms]" using i(1) by simp
    ultimately show False using f unfolding added_named_def find_None_iff by blast
  qed
qed

text \<open>The search for a name after a commit.\<close>

lemma find_after_commit:
  assumes c: "\<And>h. meths s' h = map_option (apply_entries es h) (meths (place_methods (additions_of es) s) h)"
    and brk: "\<forall>h\<in>handles ls. h < meth_brk s"
  shows "safe_reload_find_method s' (lists_after s (additions_of es) ls) n =
    (case added_named s es n of Some h \<Rightarrow> Some (Some h) | None \<Rightarrow> safe_reload_find_method s ls n)"
proof -
  let ?ms = "additions_of es"
  let ?P = "place_methods ?ms s"
  have names: "same_names H ?P s'" for H
    unfolding same_names_def c by (auto simp: option.map_comp comp_def)
  have "same_names (handles ls) s ?P" unfolding same_names_def using brk by (auto simp: place_methods_old)
  then have old: "safe_reload_find_method ?P ls n = safe_reload_find_method s ls n" by (rule find_same_names)
  have "scanM (\<lambda>h. map_option (\<lambda>m. if sel_name (m_selector m) = n then Some h else None) (meths ?P h))
      [meth_brk s..<meth_brk s + length ?ms] = Some (added_named s es n)"
    unfolding added_named_def
  proof (rule scanM_total)
    fix h
    assume "h \<in> set [meth_brk s..<meth_brk s + length ?ms]"
    then obtain i where "h = meth_brk s + i" "i < length ?ms" by (auto simp: le_iff_add)
    then show "map_option (\<lambda>m. if sel_name (m_selector m) = n then Some h else None) (meths ?P h) =
        Some (if sel_name (m_selector (the (meths ?P h))) = n then Some h else None)"
      by (simp add: place_methods_new)
  qed
  then have "safe_reload_find_method ?P (lists_after s ?ms ls) n =
      (case added_named s es n of Some h \<Rightarrow> Some (Some h) | None \<Rightarrow> safe_reload_find_method s ls n)"
    by (cases "?ms = []") (use old in \<open>simp_all add: lists_after_def added_named_def split: option.splits\<close>)
  with find_same_names [OF names] show ?thesis by metis
qed

text \<open>A committed plan overlays the methods of its target with the planned ones.\<close>

lemma commit_plan_overlay:
  assumes p: "planned s0 ls hs es" and c: "safe_reload_commit_plan fuel s (make_plan t es) = Some s'"
    and r: "classes s t = Some r" "c_methods r = ls"
    and same: "\<forall>h\<in>handles ls. h < meth_brk s \<and> meths s h = meths s0 h"
  shows "own_impl s' t n =
    (case first_named s0 hs n of Some m \<Rightarrow> Some (m_imp m, m_types m) | None \<Rightarrow> own_impl s t n)"
proof -
  let ?ms = "additions_of es"
  note state = commit_plan_state [OF c r(1)]
  from state(1) obtain r' where r': "classes s' t = Some r'" "c_methods r' = lists_after s ?ms ls"
    using r(2) by auto
  have found: "safe_reload_find_method s' (c_methods r') n =
    (case added_named s es n of Some h \<Rightarrow> Some (Some h) | None \<Rightarrow> safe_reload_find_method s ls n)"
    unfolding r'(2) by (rule find_after_commit) (use state(3) same in auto)
  have names: "safe_reload_find_method s0 ls n = safe_reload_find_method s ls n" for n
    by (rule find_same_names) (use same in \<open>auto simp: same_names_def\<close>)
  have target: "h < meth_brk s \<and> (\<exists>m. meths s h = Some m \<and> sel_name (m_selector m) = sel_name (re_selector e) \<and>
      m_types m = re_types e)" if "e \<in> set es" "re_target e = Some h" for e h
    using planned_entry(3) [OF p that] same by auto
  have ent: "map_option (\<lambda>e. (re_implementation e, re_types e)) (entry_for es n) =
      map_option (\<lambda>m. (m_imp m, m_types m)) (first_named s0 hs n)" using p unfolding planned_def by blast
  show ?thesis
  proof (cases "added_named s es n")
    case (Some h)
    from find_added(1) [OF p this] obtain e where e: "meth_brk s \<le> h" "entry_for es n = Some e"
      "meths (place_methods ?ms s) h =
        Some \<lparr>m_imp = re_implementation e, m_selector = re_selector e, m_types = re_types e\<rparr>" by blast
    have "\<forall>e\<in>set es. re_target e \<noteq> Some h" using target e(1) by fastforce
    then have "meths s' h = meths (place_methods ?ms s) h"
      unfolding state(3) by (simp add: e(3) apply_entries_other)
    moreover have "safe_reload_find_method s' (c_methods r') n = Some (Some h)" using found Some by simp
    ultimately have "own_impl s' t n = Some (re_implementation e, re_types e)"
      using r'(1) e(3) by (simp add: own_impl_def impl_in_def)
    then show ?thesis using ent e(2) by (auto split: option.splits)
  next
    case None
    have f: "safe_reload_find_method s' (c_methods r') n = safe_reload_find_method s ls n"
      using found None by simp
    have old: "meths s' h = map_option (apply_entries es h) (meths s h)" if "h < meth_brk s" for h
      using that unfolding state(3) by (simp add: place_methods_old)
    show ?thesis
    proof (cases "entry_for es n")
      case noentry: None
      have "meths s' h = meths s h" if h: "safe_reload_find_method s ls n = Some (Some h)" for h
      proof -
        from find_method_Some [OF h] obtain m where m: "meths s h = Some m" "sel_name (m_selector m) = n" "h \<in> handles ls"
          by blast
        have "\<forall>e\<in>set es. re_target e \<noteq> Some h"
          using target m planned_entry(1) [OF p] noentry by fastforce
        then show ?thesis using old [of h] m same by (simp add: apply_entries_other)
      qed
      then have "own_impl s' t n = own_impl s t n"
        using r r' f by (auto simp: own_impl_def impl_in_def split: bind_splits)
      then show ?thesis using ent noentry by (auto split: option.splits)
    next
      case (Some e)
      then have e: "e \<in> set es" "sel_name (re_selector e) = n" using planned_entry(2) [OF p] by blast+
      from find_added(2) [OF p None] Some obtain h where h: "re_target e = Some h" by auto
      from target [OF e(1) h] obtain m where m: "h < meth_brk s" "meths s h = Some m"
        "sel_name (m_selector m) = n" "m_types m = re_types e" using e(2) by auto
      have "\<forall>e'\<in>set es. re_target e' = Some h \<longrightarrow> re_implementation e' = re_implementation e"
        using target m planned_entry(1) [OF p] Some by fastforce
      then have "apply_entries es h m = m\<lparr>m_imp := re_implementation e\<rparr>"
        by (rule apply_entries_target) (use e(1) h in blast)
      then have "meths s' h = Some (m\<lparr>m_imp := re_implementation e\<rparr>)" using old [OF m(1)] m(2) by simp
      moreover have "safe_reload_find_method s ls n = Some (Some h)"
        using planned_entry(4) [OF p e(1)] e(2) h names by simp
      ultimately have "own_impl s' t n = Some (re_implementation e, re_types e)"
        using r'(1) f m(4) by (simp add: own_impl_def impl_in_def)
      then show ?thesis using ent Some by (auto split: option.splits)
    qed
  qed
qed

section \<open>The comparison of layouts leaves no trace\<close>

lemma place_ivar_ints:
  assumes "place_ivar ly off v ivar_size align = Some ly'"
  shows "ly_ivars ly' = ly_ivars ly \<and> (\<forall>a. a \<noteq> off \<longrightarrow> ly_ints ly' a = ly_ints ly a)"
proof -
  have guard: "y = x" if "(if b then None else Some x) = Some y" for b and x y :: layout_state
    using that by (cases b) simp_all
  show ?thesis using guard [OF assms [unfolded place_ivar_def Let_def]] by simp
qed

lemma layout_ivar_ints:
  assumes "layout_ivar ly i = Some ly'"
  shows "map iv_offset (ly_ivars ly') = map iv_offset (ly_ivars ly)"
    and "i < length (ly_ivars ly) \<and> (\<forall>a. iv_offset (ly_ivars ly ! i) \<noteq> Some a \<longrightarrow> ly_ints ly' a = ly_ints ly a)"
proof -
  from assms obtain iv off v where iv: "i < length (ly_ivars ly)" "fix_bool_size (ly_ivars ly ! i) = Some iv"
      "iv_offset iv = Some off"
    and cases: "ly' = ly\<lparr>ly_ivars := (ly_ivars ly)[i := iv], ly_ints := (ly_ints ly)(off \<mapsto> to_int (ly_last_computed_offset ly))\<rparr> \<or>
      place_ivar (ly\<lparr>ly_ivars := (ly_ivars ly)[i := iv]\<rparr>) off v (uint (iv_size iv)) (uint (ivarGetAlign iv)) = Some ly'"
    by (auto simp: layout_ivar_def Let_def split: if_splits bind_splits)
  have off: "iv_offset (ly_ivars ly ! i) = Some off"
    using iv(2,3) by (auto simp: fix_bool_size_def split: if_splits option.splits)
  from cases have "ly_ivars ly' = (ly_ivars ly)[i := iv] \<and> (\<forall>a. a \<noteq> off \<longrightarrow> ly_ints ly' a = ly_ints ly a)"
    by (auto dest: place_ivar_ints)
  then show "map iv_offset (ly_ivars ly') = map iv_offset (ly_ivars ly)"
      "i < length (ly_ivars ly) \<and> (\<forall>a. iv_offset (ly_ivars ly ! i) \<noteq> Some a \<longrightarrow> ly_ints ly' a = ly_ints ly a)"
    using iv(1,3) by (auto simp: off map_update list_update_same_conv)
qed

lemma layout_loop_ints:
  "foldM layout_ivar ly is = Some ly' \<Longrightarrow>
   map iv_offset (ly_ivars ly') = map iv_offset (ly_ivars ly) \<and>
   (\<forall>a. (\<forall>i\<in>set is. i < length (ly_ivars ly) \<longrightarrow> iv_offset (ly_ivars ly ! i) \<noteq> Some a) \<longrightarrow> ly_ints ly' a = ly_ints ly a)"
proof (induction "is" arbitrary: ly)
  case (Cons i "is")
  then obtain ly1 where ly1: "layout_ivar ly i = Some ly1" "foldM layout_ivar ly1 is = Some ly'"
    by (auto split: bind_splits)
  note step = layout_ivar_ints [OF ly1(1)]
  from step(1) have len: "length (ly_ivars ly1) = length (ly_ivars ly)" by (rule map_eq_imp_length_eq)
  have nth: "iv_offset (ly_ivars ly1 ! j) = iv_offset (ly_ivars ly ! j)" if "j < length (ly_ivars ly)" for j
    using arg_cong [OF step(1), of "\<lambda>xs. xs ! j"] that len by simp
  show ?case using Cons.IH [OF ly1(2)] step len nth by auto
qed simp

definition offsets_in :: "objc_ivar_list \<Rightarrow> nat set" where
  "offsets_in il = {a. \<exists>iv\<in>set (il_items il). iv_offset iv = Some a}"

lemma layout_ivars_local:
  assumes "layout_ivars s c n = Some s'" "classes s c = Some r" "c_ivars r = Some il"
  shows "\<exists>js r'. s' = s\<lparr>classes := (classes s)(c \<mapsto> r'), ints := js\<rparr> \<and>
    (\<forall>a. a \<notin> offsets_in il \<longrightarrow> js a = ints s a)"
proof -
  let ?ly = "\<lparr>ly_next_ivar = n, ly_last_offset = LONG_MIN, ly_last_computed_offset = -1,
               ly_instance_size = n, ly_ivars = il_ivars il, ly_ints = ints s\<rparr>"
  from assms obtain ly where ly: "foldM layout_ivar ?ly [0..<nat (il_count il)] = Some ly"
    and s': "upd_class c (\<lambda>x. x\<lparr>c_instance_size := ly_instance_size ly,
                c_ivars := Some (il\<lparr>il_ivars := ly_ivars ly\<rparr>)\<rparr>) (s\<lparr>ints := ly_ints ly\<rparr>) = Some s'"
    by (auto simp: layout_ivars_def split: bind_splits)
  have "ly_ints ly a = ints s a" if a: "a \<notin> offsets_in il" for a
  proof -
    have "iv_offset (il_ivars il ! i) \<noteq> Some a" if "i < nat (il_count il)" "i < length (il_ivars il)" for i
    proof -
      have "il_ivars il ! i \<in> set (il_items il)" using that by (auto simp: il_items_def in_set_conv_nth)
      then show ?thesis using a by (auto simp: offsets_in_def)
    qed
    then show ?thesis using layout_loop_ints [OF ly] by auto
  qed
  moreover have "s' = s\<lparr>classes := (classes s)(c \<mapsto> r\<lparr>c_instance_size := ly_instance_size ly,
      c_ivars := Some (il\<lparr>il_ivars := ly_ivars ly\<rparr>)\<rparr>), ints := ly_ints ly\<rparr>"
    using s' assms(2) by (auto simp: upd_class_def)
  ultimately show ?thesis by blast
qed

text \<open>The instance size of the superclass is known.\<close>

definition settled_super :: "rt_state \<Rightarrow> objc_class \<Rightarrow> bool" where
  "settled_super st r \<longleftrightarrow>
     (case c_super_class r of
        Some (SuperClass s) \<Rightarrow> (case classes st s of Some rs \<Rightarrow> 0 < c_instance_size rs | None \<Rightarrow> False)
      | _ \<Rightarrow> True)"

lemma compute_local:
  assumes c: "objc_compute_ivar_offsets fuel s c = Some s'" and r: "classes s c = Some r" "resolved r"
    and settled: "settled_super s r"
  shows "\<exists>js r'. s' = s\<lparr>classes := (classes s)(c \<mapsto> r'), ints := js\<rparr> \<and>
    (\<forall>a. (\<forall>il. c_ivars r = Some il \<longrightarrow> a \<notin> offsets_in il) \<longrightarrow> js a = ints s a)"
proof -
  from c obtain n where c': "compute_body (class_getSuperclass n) (objc_compute_ivar_offsets n) s c = Some s'"
    by (cases fuel) auto
  have super: "class_getSuperclass n s (Some c) = Some (s, c_super_class r)" if "class_getSuperclass n s (Some c) \<noteq> None"
    using that r by (cases n) (auto simp: getSuperclass_body_def)
  have same: "s = s\<lparr>classes := (classes s)(c \<mapsto> r), ints := ints s\<rparr>" using r by (simp add: fun_upd_idem)
  show ?thesis
  proof (cases "c_ivars r")
    case None
    then have "s' = s \<or> (\<exists>f. upd_class c f s = Some s')" using c' r super
      by (auto simp: compute_body_def split: bind_splits option.splits super_ref.splits)
    then have "s' = s \<or> (\<exists>r'. s' = s\<lparr>classes := (classes s)(c \<mapsto> r'), ints := ints s\<rparr>)"
      using r(1) by (auto simp: upd_class_def)
    then show ?thesis using same by blast
  next
    case (Some il)
    show ?thesis
    proof (cases "c_instance_size r > 0")
      case True
      then have "s' = s" using c' r Some by (auto simp: compute_body_def split: if_splits)
      then show ?thesis using same by blast
    next
      case False
      then obtain m where "layout_ivars s c m = Some s'"
        using c' r Some super settled
        by (auto simp: compute_body_def settled_super_def split: if_splits bind_splits option.splits super_ref.splits)
      from layout_ivars_local [OF this r(1) Some] show ?thesis using Some by auto
    qed
  qed
qed

text \<open>Only a lookup cache and the state of the protocols and hooks differ.\<close>

definition quiet :: "rt_state \<Rightarrow> rt_state \<Rightarrow> bool" where
  "quiet st s \<longleftrightarrow> (\<exists>lc p. s = st\<lparr>class_lookup_cache := lc, rt_protocols := p\<rparr>)"

lemma quiet_refl [simp, intro]: "quiet st st"
  unfolding quiet_def by (rule exI [of _ "class_lookup_cache st"], rule exI [of _ "rt_protocols st"]) simp

lemma quiet_trans: "quiet st s1 \<Longrightarrow> quiet s1 s2 \<Longrightarrow> quiet st s2"
proof -
  assume "quiet st s1" "quiet s1 s2"
  then obtain lc p lc' p' where "s1 = st\<lparr>class_lookup_cache := lc, rt_protocols := p\<rparr>"
    "s2 = s1\<lparr>class_lookup_cache := lc', rt_protocols := p'\<rparr>" unfolding quiet_def by blast
  then have "s2 = st\<lparr>class_lookup_cache := lc', rt_protocols := p'\<rparr>" by simp
  then show ?thesis unfolding quiet_def by blast
qed

lemma quiet_fields:
  assumes "quiet st s"
  shows "classes s = classes st" "meths s = meths st" "meth_brk s = meth_brk st" "ints s = ints st"
    "int_brk s = int_brk st" "class_brk s = class_brk st" "class_table s = class_table st"
    "dtables s = dtables st" "register_selector s = register_selector st"
  using assms by (auto simp: quiet_def)

lemma quiet_core: "quiet st s \<Longrightarrow> keeps_core st s"
  by (auto simp: keeps_core_def quiet_fields)

lemma alloc_quiet: "rt_alloc st = (s, ok) \<Longrightarrow> quiet st s"
proof -
  assume "rt_alloc st = (s, ok)"
  then obtain p where "s = st\<lparr>rt_protocols := p\<rparr>" by (auto simp: rt_alloc_def split: prod.splits)
  then show ?thesis unfolding quiet_def
    by (intro exI [of _ "class_lookup_cache st"] exI [of _ p]) simp
qed

lemma emit_quiet: "quiet st (rt_emit ev st)"
  unfolding quiet_def rt_emit_def by (rule exI [of _ "class_lookup_cache st"]) auto

lemma get_safe_quiet: "class_table_get_safe thread st nm = (s, c) \<Longrightarrow> quiet st s"
proof -
  assume "class_table_get_safe thread st nm = (s, c)"
  then have "s = st \<or> (\<exists>lc. s = st\<lparr>class_lookup_cache := lc\<rparr>)"
    by (auto simp: class_table_get_safe_def Let_def split: option.splits if_splits)
  then show ?thesis
  proof
    assume "\<exists>lc. s = st\<lparr>class_lookup_cache := lc\<rparr>"
    then obtain lc where "s = st\<lparr>class_lookup_cache := lc\<rparr>" by blast
    then show ?thesis unfolding quiet_def
      by (intro exI [of _ lc] exI [of _ "rt_protocols st"]) simp
  qed simp
qed

lemma superclass_quiet: "safe_reload_superclass_matches thread st a b = Some (s, ok) \<Longrightarrow> quiet st s"
  unfolding safe_reload_superclass_matches_def
  by (auto split: if_splits option.splits super_ref.splits prod.splits dest: get_safe_quiet)

text \<open>A copied list has its offsets in fresh integers.\<close>

lemma copy_offsets_loop:
  assumes "foldM (copy_ivar_offset il s) (Some (items0, js0)) is = Some (Some (items, js))"
    and "length items0 = length (il_ivars il)" "distinct is"
  shows "length items = length (il_ivars il) \<and>
    (\<forall>i\<in>set is. i < length items \<and> iv_offset (items ! i) = Some (int_brk s + i)) \<and>
    (\<forall>i. i \<notin> set is \<longrightarrow> items ! i = items0 ! i) \<and> (\<forall>a<int_brk s. js a = js0 a)"
  using assms
proof (induction "is" arbitrary: items0 js0)
  case (Cons i "is")
  have stuck: "foldM (copy_ivar_offset il s) None xs = Some None" for xs
    by (induction xs) (simp_all add: copy_ivar_offset_def)
  from Cons.prems(1) obtain acc where acc: "copy_ivar_offset il s (Some (items0, js0)) i = Some acc"
    "foldM (copy_ivar_offset il s) acc is = Some (Some (items, js))" by (auto split: bind_splits)
  have "acc \<noteq> None" using acc(2) stuck by (cases acc) simp_all
  with acc(1) obtain v where i: "i < length (il_ivars il)"
    and v: "acc = Some (items0[i := (items0 ! i)\<lparr>iv_offset := Some (int_brk s + i)\<rparr>], js0(int_brk s + i \<mapsto> v))"
    by (auto simp: copy_ivar_offset_def split: if_splits bind_splits option.splits)
  have rest: "foldM (copy_ivar_offset il s)
      (Some (items0[i := (items0 ! i)\<lparr>iv_offset := Some (int_brk s + i)\<rparr>], js0(int_brk s + i \<mapsto> v))) is
      = Some (Some (items, js))" using acc(2) v by simp
  from Cons.IH [OF rest] Cons.prems i show ?case by auto
qed simp

lemma copy_reload_ivars_ok:
  assumes "copy_reload_ivars st src = Some (s, res)"
  shows "quiet st s"
    and "res = Some (il, js) \<Longrightarrow> (\<forall>a<int_brk st. js a = ints st a) \<and> (\<forall>a\<in>offsets_in il. int_brk st \<le> a)"
proof -
  show q: "quiet st s" using assms unfolding copy_reload_ivars_def
    by (auto split: option.splits if_splits prod.splits bind_splits dest!: alloc_quiet intro: quiet_trans)
  assume res: "res = Some (il, js)"
  with assms obtain il0 where il0: "src = Some il0" "0 \<le> il_count il0"
    and cases: "il_count il0 = 0 \<and> il = il0 \<and> js = ints s \<or>
      (\<exists>items. foldM (copy_ivar_offset il0 s) (Some (il_ivars il0, ints s)) [0..<nat (il_count il0)] = Some (Some (items, js)) \<and>
        il = il0\<lparr>il_ivars := items\<rparr>)"
    unfolding copy_reload_ivars_def
    by (auto split: option.splits if_splits prod.splits bind_splits)
  from cases show "(\<forall>a<int_brk st. js a = ints st a) \<and> (\<forall>a\<in>offsets_in il. int_brk st \<le> a)"
  proof
    assume "il_count il0 = 0 \<and> il = il0 \<and> js = ints s"
    then show ?thesis by (auto simp: quiet_fields [OF q] offsets_in_def il_items_def)
  next
    assume "\<exists>items. foldM (copy_ivar_offset il0 s) (Some (il_ivars il0, ints s)) [0..<nat (il_count il0)] = Some (Some (items, js)) \<and>
        il = il0\<lparr>il_ivars := items\<rparr>"
    then obtain items where items: "il = il0\<lparr>il_ivars := items\<rparr>"
        "foldM (copy_ivar_offset il0 s) (Some (il_ivars il0, ints s)) [0..<nat (il_count il0)] = Some (Some (items, js))"
      by blast
    from copy_offsets_loop [OF items(2)] have
      "\<forall>i<nat (il_count il0). i < length items \<and> iv_offset (items ! i) = Some (int_brk st + i)"
      "\<forall>a<int_brk st. js a = ints st a" by (auto simp: quiet_fields [OF q])
    then show ?thesis by (auto simp: offsets_in_def il_items_def items(1) in_set_conv_nth)
  qed
qed

lemma layout_matches_quiet:
  assumes l: "safe_reload_layout_matches fuel thread st cand canon = Some (s, res)"
    and fresh: "classes st (class_brk st) = None" "\<forall>a\<ge>int_brk st. ints st a = None"
    and canon: "classes st canon = Some rl" "settled_super st rl"
  shows "quiet st s"
proof -
  from l canon obtain rc s1 same where rc: "classes st cand = Some rc"
      "safe_reload_superclass_matches thread st rc rl = Some (s1, same)"
    by (auto simp: safe_reload_layout_matches_def split: bind_splits)
  note q1 = superclass_quiet [OF rc(2)]
  show ?thesis
  proof (cases same)
    case False
    then show ?thesis using l canon rc q1 by (auto simp: safe_reload_layout_matches_def)
  next
    case True
    with l canon rc obtain s2 ivars where s2: "copy_reload_ivars s1 (c_ivars rc) = Some (s2, ivars)"
      by (auto simp: safe_reload_layout_matches_def split: bind_splits)
    have q2: "quiet st s2" using q1 copy_reload_ivars_ok(1) [OF s2] by (rule quiet_trans)
    show ?thesis
    proof (cases "c_ivars rc \<noteq> None \<and> ivars = None")
      case bad: True
      then have "s = s2" using l canon rc True s2 by (auto simp: safe_reload_layout_matches_def)
      then show ?thesis using q2 by simp
    next
      case ok: False
      let ?n = "objc_set_class_flag (rc\<lparr>c_super_class := c_super_class rl, c_ivars := map_option fst ivars\<rparr>)
                 objc_class_flag_resolved"
      let ?s3 = "s2\<lparr>classes := (classes s2)(class_brk s2 \<mapsto> ?n),
                     ints := (case ivars of None \<Rightarrow> ints s2 | Some (_, js) \<Rightarrow> js)\<rparr>"
      from l canon rc True s2 ok obtain s4 where s4: "objc_compute_ivar_offsets fuel ?s3 (class_brk s2) = Some s4"
        and s: "s = drop_locals s2 s4"
        by (auto simp: safe_reload_layout_matches_def Let_def split: bind_splits)
      have res: "resolved ?n"
        by (auto simp: resolved_def objc_test_class_flag_def objc_set_class_flag_def bit_eq_iff bit_simps)
      have settled: "settled_super ?s3 ?n"
        using canon(2) fresh(1) by (auto simp: settled_super_def objc_set_class_flag_def quiet_fields [OF q2]
            split: option.splits super_ref.splits)
      from compute_local [OF s4 _ res settled] obtain js r' where
        c: "s4 = ?s3\<lparr>classes := (classes ?s3)(class_brk s2 \<mapsto> r'), ints := js\<rparr>"
        "\<forall>a. (\<forall>il. c_ivars ?n = Some il \<longrightarrow> a \<notin> offsets_in il) \<longrightarrow> js a = ints ?s3 a" by auto
      have i3: "ints ?s3 a = ints st a" if "a < int_brk st" for a
      proof (cases ivars)
        case None
        then show ?thesis by (simp add: quiet_fields [OF q2])
      next
        case (Some p)
        obtain il k where k: "p = (il, k)" by fastforce
        show ?thesis using copy_reload_ivars_ok(2) [OF s2 Some [unfolded k]] that Some k
          by (simp add: quiet_fields [OF q1])
      qed
      have "js a = ints st a" if "a < int_brk st" for a
      proof -
        have "a \<notin> offsets_in il" if il: "c_ivars ?n = Some il" for il
        proof -
          from il obtain k where k: "ivars = Some (il, k)" by (auto simp: objc_set_class_flag_def)
          show ?thesis using copy_reload_ivars_ok(2) [OF s2 k] \<open>a < int_brk st\<close> quiet_fields(5) [OF q1] by force
        qed
        then have off: "\<forall>il. c_ivars ?n = Some il \<longrightarrow> a \<notin> offsets_in il" by simp
        have "js a = ints ?s3 a" by (rule c(2) [THEN spec, THEN mp, OF off])
        then show ?thesis using i3 [OF that] by (rule trans)
      qed
      then have "(\<lambda>a. if a < int_brk s2 then js a else None) = ints s2"
        using fresh(2) by (auto simp: fun_eq_iff quiet_fields [OF q2])
      moreover have "((classes s2)(class_brk s2 := None)) = classes s2"
        using fresh(1) by (auto simp: fun_eq_iff quiet_fields [OF q2])
      ultimately have "s = s2" unfolding s drop_locals_def c(1) by (simp cong: if_cong)
      then show ?thesis using q2 by simp
    qed
  qed
qed

section \<open>Registration and preparation\<close>

text \<open>Only selectors change, and they keep their names.\<close>

definition same_bodies :: "rt_state \<Rightarrow> rt_state \<Rightarrow> bool" where
  "same_bodies st s \<longleftrightarrow> (\<exists>f. s = st\<lparr>meths := f\<rparr>) \<and>
     (\<forall>h. map_option (\<lambda>m. (m_imp m, m_types m, sel_name (m_selector m))) (meths s h) =
          map_option (\<lambda>m. (m_imp m, m_types m, sel_name (m_selector m))) (meths st h))"

definition registers_names :: "rt_state \<Rightarrow> bool" where
  "registers_names st \<longleftrightarrow> (\<forall>n ty s. register_selector st n ty = Some s \<longrightarrow> sel_name s = n)"

lemma same_bodies_refl [simp, intro]: "same_bodies st st"
  unfolding same_bodies_def by (auto intro: exI [of _ "meths st"])

lemma same_bodies_trans: "same_bodies st s1 \<Longrightarrow> same_bodies s1 s2 \<Longrightarrow> same_bodies st s2"
  unfolding same_bodies_def by auto

lemma same_bodies_fields:
  assumes "same_bodies st s"
  shows "classes s = classes st" "meth_brk s = meth_brk st" "ints s = ints st" "class_table s = class_table st"
    "dtables s = dtables st" "register_selector s = register_selector st" "class_brk s = class_brk st"
  using assms by (auto simp: same_bodies_def)

lemma foldM_same_bodies:
  assumes "\<And>s x s'. registers_names s \<Longrightarrow> f s x = Some s' \<Longrightarrow> same_bodies s s'"
  shows "foldM f st xs = Some st' \<Longrightarrow> registers_names st \<Longrightarrow> same_bodies st st'"
proof (induction xs arbitrary: st)
  case (Cons x xs)
  then obtain s1 where s1: "f st x = Some s1" "foldM f s1 xs = Some st'" by (auto split: bind_splits)
  note b = assms [OF Cons.prems(2) s1(1)]
  then have "registers_names s1" using Cons.prems(2) by (simp add: registers_names_def same_bodies_fields)
  from Cons.IH [OF s1(2) this] b show ?case by (blast intro: same_bodies_trans)
qed simp

lemma register_class_bodies:
  assumes "objc_register_selectors_from_class st c = Some s" "registers_names st"
  shows "same_bodies st s"
proof -
  have step: "same_bodies a b" if "registers_names a" "register_method_selector a h = Some b" for a b h
    using that by (auto simp: register_method_selector_def same_bodies_def registers_names_def split: bind_splits)
  have list: "same_bodies a b" if "registers_names a" "objc_register_selectors_from_list a l = Some b" for a b l
    using step that(2) [unfolded objc_register_selectors_from_list_def] that(1) by (rule foldM_same_bodies)
  have all: "same_bodies a b" if "foldM objc_register_selectors_from_list a ls = Some b" "registers_names a" for a b ls
    using list that by (rule foldM_same_bodies)
  show ?thesis using assms all by (auto simp: objc_register_selectors_from_class_def split: bind_splits)
qed

lemma same_bodies_impl_in:
  assumes "same_bodies st s"
  shows "impl_in s ls n = impl_in st ls n"
proof -
  have b: "map_option (\<lambda>m. (m_imp m, m_types m, sel_name (m_selector m))) (meths s h) =
      map_option (\<lambda>m. (m_imp m, m_types m, sel_name (m_selector m))) (meths st h)" for h
    using assms by (simp add: same_bodies_def)
  have names: "same_names (handles ls) st s" unfolding same_names_def
  proof
    fix h
    show "map_option (\<lambda>m. sel_name (m_selector m)) (meths s h) = map_option (\<lambda>m. sel_name (m_selector m)) (meths st h)"
      using b [of h] by (cases "meths s h"; cases "meths st h") auto
  qed
  have "Option.bind (meths s h) (\<lambda>m. Some (m_imp m, m_types m)) = Option.bind (meths st h) (\<lambda>m. Some (m_imp m, m_types m))" for h
    using b [of h] by (cases "meths s h"; cases "meths st h") auto
  then show ?thesis by (simp add: impl_in_def find_same_names [OF names])
qed

lemma same_bodies_own_impl: "same_bodies st s \<Longrightarrow> own_impl s c = own_impl st c"
  by (rule ext) (simp add: own_impl_def same_bodies_impl_in same_bodies_fields)

definition counts_fit :: "objc_method_list list \<Rightarrow> bool" where
  "counts_fit ls \<longleftrightarrow> (\<forall>l\<in>set ls. ml_count l \<le> int INT_MAX)"

lemma count_methods_ok:
  "count_methods_from c ls = Some n \<Longrightarrow> \<forall>l\<in>set ls. \<not> ml_malformed l"
  by (induction ls arbitrary: c) (auto split: if_splits)

lemma count_methods_zero:
  "count_methods_from c ls = Some 0 \<Longrightarrow> counts_fit ls \<Longrightarrow> c = 0 \<and> concat (map ml_items ls) = []"
proof (induction ls arbitrary: c)
  case (Cons l ls)
  let ?k = "of_int (ml_count l) :: size_t"
  from Cons.prems have l: "0 \<le> ml_count l" "ml_count l \<le> int INT_MAX"
    and g: "\<not> SIZE_MAX - c < ?k" and rest: "count_methods_from (c + ?k) ls = Some 0"
    by (auto simp: counts_fit_def ml_malformed_def split: if_splits)
  from Cons.IH [OF rest] Cons.prems(2) have ih: "c + ?k = 0" "concat (map ml_items ls) = []"
    by (auto simp: counts_fit_def)
  have "unat ?k + unat c < 2 ^ 64" using size_add_guard [of c ?k] g by simp
  then have "unat ?k + unat c = 0" using ih(1) unat_add_size [of ?k c] by (simp add: add.commute)
  then have z: "c = 0" "?k = 0" by (simp_all add: unat_eq_zero)
  have "uint ?k = ml_count l mod 2 ^ 64" by (simp add: uint_word_of_int)
  also have "\<dots> = ml_count l" using l by (simp add: INT_MAX_def)
  finally have "ml_count l = 0" using z(2) by simp
  then show ?case using z ih by (simp add: ml_items_def)
qed simp

lemma planned_cong: "meths s = meths st \<Longrightarrow> planned s ls hs es = planned st ls hs es"
proof -
  assume m: "meths s = meths st"
  have "safe_reload_find_method s xs n = safe_reload_find_method st xs n" for xs n
    by (rule find_same_names) (simp add: same_names_def m)
  then show ?thesis by (simp add: planned_def first_named_def m)
qed

lemma build_additions_ok:
  assumes "build_additions st t es = (s, res)"
  shows "quiet st s" and "res = Inr plan \<Longrightarrow> plan = make_plan t es"
proof -
  have dup: "quiet a b" if "dup_additions n a = (b, ok)" for n a b ok
    using that
  proof (induction n arbitrary: a)
    case (Suc n)
    then show ?case by (auto split: prod.splits if_splits dest!: alloc_quiet intro: quiet_trans)
  qed simp
  show "quiet st s" using assms unfolding build_additions_def Let_def
    by (auto split: if_splits option.splits prod.splits dest!: alloc_quiet dup intro: quiet_trans)
  show "plan = make_plan t es" if "res = Inr plan"
    using assms that unfolding build_additions_def Let_def make_plan_def
    by (auto split: if_splits option.splits prod.splits)
qed

lemma prepare_plan_ok:
  assumes p: "safe_reload_prepare_plan st t src = Some (s, res)"
    and c: "classes st t = Some rt" "classes st src = Some rs"
  shows "quiet st s"
    and "res = Inr plan \<Longrightarrow> counts_fit (c_methods rs) \<Longrightarrow> (\<forall>l\<in>set (c_methods rs). \<not> ml_malformed l) \<and>
      (\<exists>es. plan = make_plan t es \<and> planned st (c_methods rt) (concat (map ml_items (c_methods rs))) es)"
proof -
  show "quiet st s" using p c unfolding safe_reload_prepare_plan_def
    by (auto split: option.splits if_splits prod.splits bind_splits sum.splits
        dest!: alloc_quiet build_additions_ok(1) intro: quiet_trans)
  assume res: "res = Inr plan" and fit: "counts_fit (c_methods rs)"
  let ?hs = "concat (map ml_items (c_methods rs))"
  from p c res obtain n where n: "count_methods_from 0 (c_methods rs) = Some n"
    by (auto simp: safe_reload_prepare_plan_def safe_reload_count_methods_def split: option.splits)
  note wf = count_methods_ok [OF n]
  show "(\<forall>l\<in>set (c_methods rs). \<not> ml_malformed l) \<and>
      (\<exists>es. plan = make_plan t es \<and> planned st (c_methods rt) ?hs es)"
  proof (cases "n = 0")
    case True
    then have "?hs = []" using count_methods_zero n fit by blast
    moreover have "plan = make_plan t []" using p c res n True
      by (auto simp: safe_reload_prepare_plan_def safe_reload_count_methods_def make_plan_def additions_of_def)
    ultimately show ?thesis using wf planned_Nil by metis
  next
    case False
    with p c res n obtain s1 es where s1: "rt_alloc st = (s1, True)"
      and es: "foldM (plan_method s1 (c_methods rt)) (Inr []) ?hs = Some (Inr es)"
      and b: "build_additions s1 t es = (s, Inr plan)"
      by (auto simp: safe_reload_prepare_plan_def safe_reload_count_methods_def
          split: if_splits prod.splits bind_splits sum.splits)
    have "planned s1 (c_methods rt) ?hs es" using plan_loop [OF es planned_Nil] by simp
    then have "planned st (c_methods rt) ?hs es"
      using planned_cong quiet_fields(2) [OF alloc_quiet [OF s1]] by blast
    then show ?thesis using wf build_additions_ok(2) [OF b] by blast
  qed
qed

section \<open>Other classes\<close>

text \<open>Every method belongs to one class and was allocated.\<close>

definition methods_owned :: "rt_state \<Rightarrow> bool" where
  "methods_owned st \<longleftrightarrow>
     (\<forall>k r. classes st k = Some r \<longrightarrow> (\<forall>h\<in>handles (c_methods r). h < meth_brk st)) \<and>
     (\<forall>k k' r r'. k \<noteq> k' \<longrightarrow> classes st k = Some r \<longrightarrow> classes st k' = Some r' \<longrightarrow>
        handles (c_methods r) \<inter> handles (c_methods r') = {})"

lemma impl_in_cong:
  assumes "\<forall>h\<in>handles ls. meths s h = meths st h"
  shows "impl_in s ls n = impl_in st ls n"
proof -
  have f: "safe_reload_find_method s ls n = safe_reload_find_method st ls n"
    by (rule find_same_names) (use assms in \<open>simp add: same_names_def\<close>)
  show ?thesis
  proof (cases "safe_reload_find_method st ls n")
    case (Some x)
    then show ?thesis using f assms find_method_Some [of st ls n] by (cases x) (auto simp: impl_in_def)
  qed (simp add: impl_in_def f)
qed

lemma handles_after:
  "handles (lists_after s ms ls) = handles ls \<union> {meth_brk s..<meth_brk s + length ms}"
  by (auto simp: lists_after_def handles_def)

lemma methods_owned_view:
  assumes "methods_owned st" "meth_brk s = meth_brk st"
    and "\<And>k. map_option c_methods (classes s k) = map_option c_methods (classes st k)"
  shows "methods_owned s"
proof -
  have before: "\<exists>r'. classes st k = Some r' \<and> c_methods r' = c_methods r" if "classes s k = Some r" for k r
    using assms(3) [of k] that by (cases "classes st k") auto
  have "handles (c_methods r) \<inter> handles (c_methods r') = {}"
    if "k \<noteq> k'" "classes s k = Some r" "classes s k' = Some r'" for k k' r r'
    using before [OF that(2)] before [OF that(3)] that(1) assms(1) unfolding methods_owned_def by metis
  moreover have "h < meth_brk s" if "classes s k = Some r" "h \<in> handles (c_methods r)" for k r h
    using before [OF that(1)] that(2) assms(1,2) unfolding methods_owned_def by metis
  ultimately show ?thesis unfolding methods_owned_def by blast
qed

lemma core_methods: "map_option class_core x = map_option class_core y \<Longrightarrow> map_option c_methods x = map_option c_methods y"
  by (cases x; cases y) (auto simp: class_core_def)

lemma commit_plan_others:
  assumes p: "planned s0 ls hs es" and c: "safe_reload_commit_plan fuel s (make_plan t es) = Some s'"
    and r: "classes s t = Some r" "c_methods r = ls" and own: "methods_owned s"
  shows "\<And>h. h < meth_brk s \<Longrightarrow> h \<notin> handles ls \<Longrightarrow> meths s' h = meths s h"
    and "methods_owned s'"
    and "\<And>k. k \<noteq> t \<Longrightarrow> own_impl s' k = own_impl s k"
proof -
  let ?ms = "additions_of es"
  note state = commit_plan_state [OF c r(1)]
  from state(1) obtain r' where r': "classes s' t = Some r'" "c_methods r' = lists_after s ?ms ls"
    using r(2) by auto
  have before: "\<exists>ro. classes s k = Some ro \<and> c_methods ro = c_methods rk" if "k \<noteq> t" "classes s' k = Some rk" for k rk
    using core_methods [OF state(2) [OF that(1)]] that(2) by (cases "classes s k") auto
  show old: "meths s' h = meths s h" if "h < meth_brk s" "h \<notin> handles ls" for h
  proof -
    have "\<forall>e\<in>set es. re_target e \<noteq> Some h" using planned_entry(3) [OF p] that(2) by blast
    then have "apply_entries es h m = m" for m by (rule apply_entries_other)
    then show ?thesis using that(1) unfolding state(3) by (cases "meths s h") (simp_all add: place_methods_old)
  qed
  have brk: "h < meth_brk s" if "classes s k = Some rk" "h \<in> handles (c_methods rk)" for k rk h
    using own that unfolding methods_owned_def by blast
  have apart: "handles (c_methods a) \<inter> handles (c_methods b) = {}"
    if "k \<noteq> k'" "classes s k = Some a" "classes s k' = Some b" for k k' a b
    using own that unfolding methods_owned_def by blast
  have apart_t: "handles (lists_after s ?ms ls) \<inter> handles (c_methods b) = {}"
    if "k \<noteq> t" "classes s' k = Some b" for k b
    using before [OF that] apart [OF that(1)] r brk unfolding handles_after by fastforce
  have brk': "h < meth_brk s'" if "classes s' k = Some rk" "h \<in> handles (c_methods rk)" for k rk h
  proof (cases "k = t")
    case True
    then have "h \<in> handles ls \<union> {meth_brk s..<meth_brk s + length ?ms}"
      using that r' by (simp add: handles_after)
    then show ?thesis using brk [OF r(1)] r(2) state(4) by (auto intro: trans_less_add1)
  next
    case False
    then show ?thesis using before [OF False that(1)] brk that(2) state(4) by fastforce
  qed
  have "handles (c_methods a) \<inter> handles (c_methods b) = {}"
    if "k \<noteq> k'" "classes s' k = Some a" "classes s' k' = Some b" for k k' a b
  proof (cases "k = t \<or> k' = t")
    case True
    then show ?thesis using apart_t r' that by (metis inf_commute option.inject)
  next
    case False
    then show ?thesis using before that apart by metis
  qed
  with brk' show "methods_owned s'" unfolding methods_owned_def by blast
  show "own_impl s' k = own_impl s k" if "k \<noteq> t" for k
  proof (rule ext)
    fix n
    show "own_impl s' k n = own_impl s k n"
    proof (cases "classes s' k")
      case None
      then have "classes s k = None" using state(2) [OF that] by (cases "classes s k") auto
      with None show ?thesis by (simp add: own_impl_def)
    next
      case (Some rk)
      then obtain ro where ro: "classes s k = Some ro" "c_methods ro = c_methods rk" using before [OF \<open>k \<noteq> t\<close> Some] by blast
      have "\<forall>h\<in>handles (c_methods rk). meths s' h = meths s h"
        using old brk [OF ro(1)] apart [OF that ro(1) r(1)] ro(2) r(2) by auto
      from impl_in_cong [OF this] show ?thesis using Some ro by (simp add: own_impl_def)
    qed
  qed
qed

section \<open>Reloading is all or nothing\<close>

definition class_layout ::
  "objc_class \<Rightarrow> nat option \<times> super_ref option \<times> cstring option \<times> int \<times> objc_ivar_list option" where
  "class_layout r = (c_isa r, c_super_class r, c_name r, c_instance_size r, c_ivars r)"

text \<open>
  What a reload relies on: unused handles are unused, methods belong to one class, registration
  of a selector keeps its name, counts are those of C, and the class in use is resolved.
\<close>

definition reload_ready :: "rt_state \<Rightarrow> nat \<Rightarrow> nat \<Rightarrow> nat \<Rightarrow> nat \<Rightarrow> bool" where
  "reload_ready st cand cand_meta canon meta \<longleftrightarrow>
     classes st (class_brk st) = None \<and> (\<forall>a\<ge>int_brk st. ints st a = None) \<and>
     methods_owned st \<and> registers_names st \<and>
     (\<forall>k r. classes st k = Some r \<longrightarrow> counts_fit (c_methods r)) \<and> canon \<noteq> meta \<and>
     (\<exists>rc rcm rl rm. classes st cand = Some rc \<and> c_isa rc = Some cand_meta \<and> classes st cand_meta = Some rcm \<and>
        classes st canon = Some rl \<and> c_isa rl = Some meta \<and> classes st meta = Some rm \<and> settled_super st rl)"

lemma core_layout: "map_option class_core x = map_option class_core y \<Longrightarrow> map_option class_layout x = map_option class_layout y"
  by (cases x; cases y) (auto simp: class_core_def class_layout_def)

lemma commit_plan_layout:
  assumes "safe_reload_commit_plan fuel s (make_plan t es) = Some s'" "classes s t = Some r"
  shows "map_option class_layout (classes s' k) = map_option class_layout (classes s k)"
proof (cases "k = t")
  case True
  with commit_plan_state(1) [OF assms] assms(2) show ?thesis by (auto simp: class_core_def class_layout_def)
next
  case False
  then show ?thesis by (rule core_layout [OF commit_plan_state(2) [OF assms]])
qed

text \<open>Both plans were made in \<open>s0\<close>; the second is applied after the first.\<close>

lemma commit_both:
  assumes p: "planned s0 (c_methods rl) hs1 es1" "planned s0 (c_methods rm) hs2 es2"
    and c: "commit_plans fuel s canon meta (make_plan canon es1) (make_plan meta es2) = Some s'"
    and r: "classes s canon = Some rl" "classes s meta = Some rm" "canon \<noteq> meta"
    and own: "methods_owned s" and m: "meths s = meths s0"
  shows "own_impl s' canon n =
      (case first_named s0 hs1 n of Some m \<Rightarrow> Some (m_imp m, m_types m) | None \<Rightarrow> own_impl s canon n)"
    and "own_impl s' meta n =
      (case first_named s0 hs2 n of Some m \<Rightarrow> Some (m_imp m, m_types m) | None \<Rightarrow> own_impl s meta n)"
    and "\<And>k. k \<noteq> canon \<Longrightarrow> k \<noteq> meta \<Longrightarrow> own_impl s' k = own_impl s k"
    and "\<And>k. map_option class_layout (classes s' k) = map_option class_layout (classes s k)"
    and "ints s' = ints s" "class_table s' = class_table s"
proof -
  from c obtain s1 s2 s3 where s1: "safe_reload_commit_plan fuel s (make_plan canon es1) = Some s1"
    and s2: "safe_reload_commit_plan fuel s1 (make_plan meta es2) = Some s2"
    and s3: "refresh_reload_cxx_cache s2 canon = Some s3" "refresh_reload_cxx_cache s3 meta = Some s'"
    by (auto simp: commit_plans_def split: bind_splits)
  have k: "keeps_core s2 s'" using refresh_cxx_core [OF s3(1)] refresh_cxx_core [OF s3(2)] by (rule keeps_core_trans)
  have brk: "h < meth_brk s" if "classes s k = Some rk" "h \<in> handles (c_methods rk)" for k rk h
    using own that unfolding methods_owned_def by blast
  note st1 = commit_plan_state [OF s1 r(1)]
  note o1 = commit_plan_others [OF p(1) s1 r(1) refl own]
  have i1: "own_impl s1 canon n =
      (case first_named s0 hs1 n of Some m \<Rightarrow> Some (m_imp m, m_types m) | None \<Rightarrow> own_impl s canon n)" for n
    by (rule commit_plan_overlay [OF p(1) s1 r(1) refl]) (use brk [OF r(1)] m in auto)
  from st1(2) [of meta] r obtain rm1 where rm1: "classes s1 meta = Some rm1" "c_methods rm1 = c_methods rm"
    by (auto simp: class_core_def)
  have meta1: "\<forall>h\<in>handles (c_methods rm). h < meth_brk s1 \<and> meths s1 h = meths s0 h"
  proof
    fix h
    assume h: "h \<in> handles (c_methods rm)"
    then have "h < meth_brk s" by (rule brk [OF r(2)])
    moreover have "h \<notin> handles (c_methods rl)"
      using own r h unfolding methods_owned_def by (metis disjoint_iff)
    ultimately show "h < meth_brk s1 \<and> meths s1 h = meths s0 h" using o1(1) st1(4) m by simp
  qed
  note st2 = commit_plan_state [OF s2 rm1(1)]
  note o2 = commit_plan_others [OF p(2) s2 rm1 o1(2)]
  have i2: "own_impl s2 meta n =
      (case first_named s0 hs2 n of Some m \<Rightarrow> Some (m_imp m, m_types m) | None \<Rightarrow> own_impl s1 meta n)" for n
    by (rule commit_plan_overlay [OF p(2) s2 rm1 meta1])
  have e: "own_impl s' = own_impl s2" using keeps_core_own_impl [OF k] by (rule ext)
  show "own_impl s' canon n =
      (case first_named s0 hs1 n of Some m \<Rightarrow> Some (m_imp m, m_types m) | None \<Rightarrow> own_impl s canon n)"
    using i1 o2(3) [OF r(3)] by (simp add: e)
  show "own_impl s' meta n =
      (case first_named s0 hs2 n of Some m \<Rightarrow> Some (m_imp m, m_types m) | None \<Rightarrow> own_impl s meta n)"
    using i2 [of n] unfolding o1(3) [OF r(3) [symmetric]] e .
  show "own_impl s' k = own_impl s k" if "k \<noteq> canon" "k \<noteq> meta" for k
    using o1(3) [OF that(1)] o2(3) [OF that(2)] by (simp add: e)
  show "map_option class_layout (classes s' j) = map_option class_layout (classes s j)" for j
  proof -
    have "map_option class_layout (classes s' j) = map_option class_layout (classes s2 j)"
      by (rule core_layout) (use k in \<open>simp add: keeps_core_def\<close>)
    also have "\<dots> = map_option class_layout (classes s1 j)" by (rule commit_plan_layout [OF s2 rm1(1)])
    also have "\<dots> = map_option class_layout (classes s j)" by (rule commit_plan_layout [OF s1 r(1)])
    finally show ?thesis .
  qed
  show "ints s' = ints s" "class_table s' = class_table s"
    using st1(5,6) st2(5,6) k by (simp_all add: keeps_core_def)
qed

lemma overlay_add:
  assumes "\<And>n. f' n = (case first_named s hs n of Some m \<Rightarrow> Some (m_imp m, m_types m) | None \<Rightarrow> f n)"
    and "\<And>n. g n = map_option (\<lambda>m. (m_imp m, m_types m)) (first_named s hs n)"
  shows "f' = f ++ g"
  by (rule ext) (simp add: assms map_add_def split: option.splits)

text \<open>A refused definition.\<close>

definition reload_nothing :: "rt_state \<Rightarrow> rt_state \<Rightarrow> bool" where
  "reload_nothing st st' \<longleftrightarrow>
     classes st' = classes st \<and> ints st' = ints st \<and> class_table st' = class_table st \<and>
     dtables st' = dtables st \<and> (\<forall>k. own_impl st' k = own_impl st k)"

text \<open>An accepted definition.\<close>

definition reload_all :: "rt_state \<Rightarrow> rt_state \<Rightarrow> nat \<Rightarrow> nat \<Rightarrow> nat \<Rightarrow> nat \<Rightarrow> bool" where
  "reload_all st st' cand cand_meta canon meta \<longleftrightarrow>
     own_impl st' canon = own_impl st canon ++ own_impl st cand \<and>
     own_impl st' meta = own_impl st meta ++ own_impl st cand_meta \<and>
     (\<forall>k. k \<noteq> canon \<longrightarrow> k \<noteq> meta \<longrightarrow> own_impl st' k = own_impl st k) \<and>
     (\<forall>k. map_option class_layout (classes st' k) = map_option class_layout (classes st k)) \<and>
     ints st' = ints st \<and> class_table st' = class_table st"

lemma reject_nothing:
  assumes b: "same_bodies s0 s1" and q: "quiet st s0" "quiet s1 s"
    and r: "reload_reject s canon reason = Some (st', ok)"
  shows "\<not> ok \<and> reload_nothing st st'"
proof -
  from r have ok: "\<not> ok" and "quiet s st'"
    by (auto simp: reload_reject_def reload_event_def emit_quiet split: bind_splits)
  then have q2: "quiet s1 st'" using q(2) quiet_trans by blast
  have "own_impl st' k = own_impl st k" for k
    using keeps_core_own_impl [OF quiet_core [OF q2]] same_bodies_own_impl [OF b]
      keeps_core_own_impl [OF quiet_core [OF q(1)]] by simp
  then show ?thesis using ok
    by (simp add: reload_nothing_def quiet_fields [OF q2] quiet_fields [OF q(1)] same_bodies_fields [OF b])
qed

lemma commit_all:
  assumes b: "same_bodies s0 s1" and q: "quiet st s0" "quiet s1 s4"
    and p: "prepare_plans s1 canon cand meta cand_meta = Some (s4, Inr (ip, cp))"
    and c: "commit_plans fuel s4 canon meta ip cp = Some s5" "quiet s5 st'"
    and ready: "reload_ready st cand cand_meta canon meta"
  shows "reload_all st st' cand cand_meta canon meta"
proof -
  have f1: "classes s1 = classes st" "meth_brk s1 = meth_brk st" "ints s1 = ints st" "class_table s1 = class_table st"
    by (simp_all add: same_bodies_fields [OF b] quiet_fields [OF q(1)])
  have impl1: "own_impl s1 k = own_impl st k" for k
    using same_bodies_own_impl [OF b] keeps_core_own_impl [OF quiet_core [OF q(1)]] by simp
  from ready obtain rc rcm rl rm where r: "classes s1 cand = Some rc" "classes s1 cand_meta = Some rcm"
      "classes s1 canon = Some rl" "classes s1 meta = Some rm" "canon \<noteq> meta"
    and fit: "counts_fit (c_methods rc)" "counts_fit (c_methods rcm)" and own: "methods_owned st"
    by (auto simp: reload_ready_def f1)
  from p obtain s2 where p1: "safe_reload_prepare_plan s1 canon cand = Some (s2, Inr ip)"
    and p2: "safe_reload_prepare_plan s2 meta cand_meta = Some (s4, Inr cp)"
    by (auto simp: prepare_plans_def split: bind_splits sum.splits)
  let ?hs1 = "concat (map ml_items (c_methods rc))" and ?hs2 = "concat (map ml_items (c_methods rcm))"
  note a1 = prepare_plan_ok [OF p1 r(3,1)]
  note q2 = quiet_fields [OF a1(1)]
  from a1(2) [OF refl fit(1)] obtain es1 where es1: "ip = make_plan canon es1" "planned s1 (c_methods rl) ?hs1 es1"
    and wf1: "\<forall>l\<in>set (c_methods rc). \<not> ml_malformed l" by blast
  have r2: "classes s2 meta = Some rm" "classes s2 cand_meta = Some rcm" using r by (simp_all add: q2)
  note a2 = prepare_plan_ok [OF p2 r2]
  from a2(2) [OF refl fit(2)] obtain es2 where es2: "cp = make_plan meta es2" "planned s2 (c_methods rm) ?hs2 es2"
    and wf2: "\<forall>l\<in>set (c_methods rcm). \<not> ml_malformed l" by blast
  have es2': "planned s1 (c_methods rm) ?hs2 es2" using es2(2) planned_cong q2(2) by blast
  note q4 = quiet_fields [OF q(2)]
  have own4: "methods_owned s4" using own by (rule methods_owned_view) (simp_all add: q4 f1)
  have r4: "classes s4 canon = Some rl" "classes s4 meta = Some rm" using r by (simp_all add: q4)
  note both = commit_both [OF es1(2) es2' c(1) [unfolded es1(1) es2(1)] r4 r(5) own4 q4(2)]
  have impl4: "own_impl s4 k = own_impl st k" for k
    using keeps_core_own_impl [OF quiet_core [OF q(2)]] impl1 by simp
  have impl': "own_impl st' k = own_impl s5 k" for k by (rule keeps_core_own_impl [OF quiet_core [OF c(2)]])
  have incoming: "own_impl st x n = map_option (\<lambda>m. (m_imp m, m_types m)) (first_named s1 (concat (map ml_items (c_methods rx))) n)"
    if "planned s1 ls (concat (map ml_items (c_methods rx))) es" "\<forall>l\<in>set (c_methods rx). \<not> ml_malformed l"
      "classes s1 x = Some rx" for x rx ls es n
  proof -
    have "\<forall>h\<in>handles (c_methods rx). meths s1 h \<noteq> None" using that(1) by (simp add: planned_def handles_def)
    note w = impl_in_wellformed [OF that(2) this, of n]
    have "own_impl s1 x n = impl_in s1 (c_methods rx) n" using that(3) by (simp add: own_impl_def)
    then show ?thesis using w impl1 [of x] by simp
  qed
  note cand = incoming [OF es1(2) wf1 r(1)] and cand_meta = incoming [OF es2' wf2 r(2)]
  have "own_impl st' canon = own_impl st canon ++ own_impl st cand"
    using both(1) [folded impl', unfolded impl4] cand by (rule overlay_add)
  moreover have "own_impl st' meta = own_impl st meta ++ own_impl st cand_meta"
    using both(2) [folded impl', unfolded impl4] cand_meta by (rule overlay_add)
  moreover have "own_impl st' k = own_impl st k" if "k \<noteq> canon" "k \<noteq> meta" for k
    using both(3) [OF that] by (simp add: impl' impl4)
  moreover have "map_option class_layout (classes st' k) = map_option class_layout (classes st k)" for k
    using both(4) [of k] by (simp add: quiet_fields [OF c(2)] q4 f1)
  moreover have "ints st' = ints st" "class_table st' = class_table st"
    using both(5,6) by (simp_all add: quiet_fields [OF c(2)] q4 f1)
  ultimately show ?thesis unfolding reload_all_def by blast
qed


text \<open>
  A class 0 with metaclass 1, an instance variable and a method, and a new definition 2 with
  metaclass 3 that changes the method and adds another.
\<close>

definition reload_demo_class :: "nat \<Rightarrow> int \<Rightarrow> nat \<Rightarrow> nat list \<Rightarrow> objc_class" where
  "reload_demo_class isa sz off hs =
     (plain_class \<lparr>cs_addr = 1, cs_text = ''A''\<rparr> (Some isa) None)
       \<lparr>c_info := objc_class_flag_resolved, c_instance_size := sz, c_dtable := Some (Node 0),
        c_ivars := Some \<lparr>il_count = 1, il_size = sizeof_objc_ivar,
          il_ivars = [\<lparr>iv_name = Some ''x'', iv_type = Some ''i'', iv_offset = Some off,
                       iv_size = 4, iv_flags = 16\<rparr>]\<rparr>,
        c_methods := [\<lparr>ml_count = int (length hs), ml_size = sizeof_objc_method, ml_methods = hs\<rparr>]\<rparr>"

definition reload_demo_meta :: objc_class where
  "reload_demo_meta = (plain_class \<lparr>cs_addr = 1, cs_text = ''A''\<rparr> None None)\<lparr>c_dtable := Some (Node 0)\<rparr>"

definition reload_demo_method :: "string \<Rightarrow> uintptr_t \<Rightarrow> objc_method" where
  "reload_demo_method n i = \<lparr>m_imp = i, m_selector = \<lparr>sel_name = n, sel_type = None\<rparr>, m_types = Some ''v''\<rparr>"

definition reload_demo :: rt_state where
  "reload_demo = (boot_state (\<lambda>n t. Some \<lparr>sel_name = n, sel_type = t\<rparr>) (\<lambda>_. 0))
     \<lparr>classes := [0 \<mapsto> reload_demo_class 1 4 0 [0], 1 \<mapsto> reload_demo_meta,
                  2 \<mapsto> reload_demo_class 3 (- 4) 1 [1, 2], 3 \<mapsto> reload_demo_meta],
      class_brk := 4, ints := [0 \<mapsto> 0, 1 \<mapsto> 0], int_brk := 2, meth_brk := 3, class_table := [0],
      meths := [0 \<mapsto> reload_demo_method ''foo'' 10, 1 \<mapsto> reload_demo_method ''foo'' 20,
                2 \<mapsto> reload_demo_method ''bar'' 30]\<rparr>"

lemma reload_demo_ready: "reload_ready reload_demo 2 3 0 1"
  by (auto simp: reload_ready_def reload_demo_def boot_state_def methods_owned_def registers_names_def
      handles_def ml_items_def reload_demo_class_def reload_demo_meta_def plain_class_def counts_fit_def
      INT_MAX_def settled_super_def split: if_splits)

lemma reload_demo_runs: "map_option snd (safe_reload_class 5 0 reload_demo 2 0) = Some True"
  by code_simp

lemma reload_demo_impls:
  "own_impl reload_demo 0 ''foo'' = Some (10, Some ''v'')" "own_impl reload_demo 0 ''bar'' = None"
  "own_impl reload_demo 2 ''foo'' = Some (20, Some ''v'')" "own_impl reload_demo 2 ''bar'' = Some (30, Some ''v'')"
  by code_simp+


end
