(* ===== verification/Objc_Selector_Table.thy ===== *)
theory Objc_Selector_Table
  imports Objc_Dispatch
begin

text \<open>
  The selector table, \<open>src/dispatch/selector_table.cc\<close>, with the structures of
  \<open>src/internal/dispatch/selector.h\<close> and the pool allocator \<open>src/internal/memory/pool.hh\<close>.

  A selector structure has a handle, because the code compares and stores their addresses. Its
  first word is a union: the name of an unregistered selector, the index of a registered one. A
  C string is its address and its text. \<open>selector_list\<close> holds for every index the name, followed
  by the types seen with it.

  The set of registered selectors is a third-party container (\<open>tsl::robin_set\<close>). The model keeps
  its members; its search is the parameter \<open>find_sel\<close> of the operations, of which the theorems
  assume what every hash set does: a search finds only members that compare equal to the key, and
  it finds one if there is an equal member with the same hash. Insertion adds an element unless
  the search finds an equal one.

  Every operation runs under the runtime lock and the lock of the table and is atomic. An outer
  \<open>None\<close> is undefined behaviour, a failed assertion or an abort.
\<close>

section \<open>State\<close>

datatype sel_uid = SelName "cstring option" | SelIndex nat

record sel_struct =
  ss_uid :: sel_uid
  ss_types :: "cstring option"

text \<open>\<open>sel_rt\<close> is the rest of the runtime, with the dispatch tables that new selectors resize and the
  allocator.\<close>

record sel_state =
  sels :: "nat \<Rightarrow> sel_struct option"
  sel_brk :: nat
  pool_index :: size_t
  selector_list :: "cstring list list"
  selector_table :: "nat list"
  selector_name_copies :: size_t
  sel_rt :: rt_state

type_synonym sel_key = "cstring \<times> cstring option"

type_synonym sel_search = "sel_state \<Rightarrow> sel_key \<Rightarrow> nat option"

definition init_selector_tables :: "sel_state \<Rightarrow> sel_state" where
  "init_selector_tables st = st\<lparr>selector_list := replicate 65536 [], selector_table := []\<rparr>"

section \<open>Memory\<close>

definition ObjectsPerChunk :: size_t where "ObjectsPerChunk = 4096"

definition sel_alloc :: "sel_state \<Rightarrow> sel_state \<times> bool" where
  "sel_alloc st = (let (r, ok) = rt_alloc (sel_rt st) in (st\<lparr>sel_rt := r\<rparr>, ok))"

text \<open>The pool: a new chunk of pages when the last one is used up. The new object is zero.\<close>

definition pool_allocate :: "sel_state \<Rightarrow> sel_state \<times> nat option" where
  "pool_allocate st =
     (let (s1, ok) = (if pool_index st = ObjectsPerChunk then sel_alloc st else (st, True)) in
      if \<not> ok then (s1, None)
      else (s1\<lparr>pool_index := (if pool_index st = ObjectsPerChunk then 0 else pool_index st) + 1,
               sels := (sels s1)(sel_brk s1 \<mapsto> \<lparr>ss_uid = SelName None, ss_types = None\<rparr>),
               sel_brk := Suc (sel_brk s1)\<rparr>, Some (sel_brk s1)))"

text \<open>\<open>objc2_strdup\<close>; which address the copy gets is immaterial, \<open>addr\<close> stands for it.\<close>

definition objc2_strdup :: "uintptr_t \<Rightarrow> sel_state \<Rightarrow> cstring \<Rightarrow> sel_state \<times> cstring option" where
  "objc2_strdup addr st s =
     (let (s1, ok) = sel_alloc st in
      (s1, if ok then Some \<lparr>cs_addr = addr, cs_text = cs_text s\<rparr> else None))"

definition upd_sel :: "nat \<Rightarrow> (sel_struct \<Rightarrow> sel_struct) \<Rightarrow> sel_state \<Rightarrow> sel_state option" where
  "upd_sel h f st =
     (case sels st h of None \<Rightarrow> None | Some r \<Rightarrow> Some (st\<lparr>sels := (sels st)(h \<mapsto> f r)\<rparr>))"

section \<open>Names and types\<close>

text \<open>The first word of a selector read as an integer.\<close>

fun uid_value :: "sel_uid \<Rightarrow> nat" where
  "uid_value (SelName None) = 0"
| "uid_value (SelName (Some c)) = unat (cs_addr c)"
| "uid_value (SelIndex i) = i"

text \<open>The argument is a \<open>uint32_t\<close>.\<close>

definition selLookup :: "sel_state \<Rightarrow> nat \<Rightarrow> cstring list option" where
  "selLookup st index =
     (let idx = index mod 2 ^ 32 in
      if length (selector_list st) \<le> idx then None else Some (selector_list st ! idx))"

definition isSelRegistered :: "sel_state \<Rightarrow> sel_struct \<Rightarrow> bool" where
  "isSelRegistered st sel \<longleftrightarrow> uid_value (ss_uid sel) < length (selector_list st)"

text \<open>\<open>TypeList::name\<close>; the first element of an empty list is undefined.\<close>

definition list_front :: "cstring list \<Rightarrow> cstring option" where
  "list_front l = (case l of [] \<Rightarrow> None | c # _ \<Rightarrow> Some c)"

definition sel_getNameRegistered :: "sel_state \<Rightarrow> sel_struct \<Rightarrow> cstring option" where
  "sel_getNameRegistered st sel = Option.bind (selLookup st (uid_value (ss_uid sel))) list_front"

definition empty_cstring :: cstring where "empty_cstring = \<lparr>cs_addr = 1, cs_text = []\<rparr>"

definition sel_getNameNonUnique :: "sel_state \<Rightarrow> sel_struct \<Rightarrow> cstring option" where
  "sel_getNameNonUnique st sel =
     (if isSelRegistered st sel then
        (case selLookup st (uid_value (ss_uid sel)) of
           None \<Rightarrow> Some empty_cstring | Some l \<Rightarrow> list_front l)
      else case ss_uid sel of
        SelName None \<Rightarrow> Some empty_cstring
      | SelName (Some c) \<Rightarrow> Some c
      | SelIndex _ \<Rightarrow> None)"

definition irrelevant_type_char :: "char \<Rightarrow> bool" where
  "irrelevant_type_char c \<longleftrightarrow> c \<in> set ''rnNoORVA!0123456789''"

definition skip_irrelevant_type_info :: "string \<Rightarrow> string" where
  "skip_irrelevant_type_info t = dropWhile irrelevant_type_char t"

text \<open>The character a pointer points to; \<open>None\<close> is the terminator.\<close>

definition c_head :: "string \<Rightarrow> char option" where
  "c_head s = (case s of [] \<Rightarrow> None | c # _ \<Rightarrow> Some c)"

text \<open>Whether a string starts with one of the encodings of a pointer to \<open>char\<close>.\<close>

definition char_pointer :: "string \<Rightarrow> bool" where
  "char_pointer t \<longleftrightarrow> take 2 t = ''^C'' \<or> take 2 t = ''^c''"

lemma skip_length [simp]: "length (skip_irrelevant_type_info t) \<le> length t"
  by (simp add: skip_irrelevant_type_info_def length_dropWhile_le)

lemma skip_tl_less: "t \<noteq> [] \<Longrightarrow> length (tl (skip_irrelevant_type_info t)) < length t"
  using skip_length [of t] by (cases "skip_irrelevant_type_info t") (auto simp: less_Suc_eq_le)

function types_equal_loop :: "string \<Rightarrow> string \<Rightarrow> bool" where
  "types_equal_loop t1 t2 =
     (if t1 = [] \<or> t2 = [] then True
      else
        (let a = skip_irrelevant_type_info t1; b = skip_irrelevant_type_info t2 in
         if c_head a = Some (CHR ''*'') \<and> c_head b \<noteq> Some (CHR ''*'') then
           (if char_pointer b then types_equal_loop (tl a) (tl (tl b)) else False)
         else if c_head b = Some (CHR ''*'') \<and> c_head a \<noteq> Some (CHR ''*'') then
           (if char_pointer a then types_equal_loop (tl (tl a)) (tl b) else False)
         else if c_head a \<noteq> c_head b then False
         else types_equal_loop (tl a) (tl b)))"
  by auto

termination
proof (relation "measure (\<lambda>(a, b). length a + length b)", goal_cases)
  case 1
  then show ?case by simp
next
  case (2 t1 t2 a b)
  then have "length (tl a) < length t1" "length (tl (tl b)) < length t2"
    using skip_tl_less [of t1] skip_tl_less [of t2] by auto
  then show ?case by simp
next
  case (3 t1 t2 a b)
  then have "length (tl (tl a)) < length t1" "length (tl b) < length t2"
    using skip_tl_less [of t1] skip_tl_less [of t2] by auto
  then show ?case by simp
next
  case (4 t1 t2 a b)
  then have "length (tl a) < length t1" "length (tl b) < length t2"
    using skip_tl_less [of t1] skip_tl_less [of t2] by auto
  then show ?case by simp
qed

declare types_equal_loop.simps [simp del]

text \<open>Null pointers are equal to null pointers only.\<close>

fun selector_types_equal :: "string option \<Rightarrow> string option \<Rightarrow> bool" where
  "selector_types_equal (Some t1) (Some t2) = types_equal_loop t1 t2"
| "selector_types_equal None None = True"
| "selector_types_equal _ _ = False"

fun selector_types_equivalent :: "string option \<Rightarrow> string option \<Rightarrow> bool" where
  "selector_types_equivalent (Some t1) (Some t2) = selector_types_equal (Some t1) (Some t2)"
| "selector_types_equivalent _ _ = True"

definition types_text :: "sel_struct \<Rightarrow> string option" where
  "types_text sel = map_option cs_text (ss_types sel)"

text \<open>A registered selector compared with a key.\<close>

definition SelectorEqual :: "sel_state \<Rightarrow> sel_key \<Rightarrow> sel_struct \<Rightarrow> bool option" where
  "SelectorEqual st key b =
     map_option (\<lambda>nm. cs_text (fst key) = cs_text nm \<and>
                      selector_types_equal (map_option cs_text (snd key)) (types_text b))
       (sel_getNameRegistered st b)"

definition selector_identical :: "sel_state \<Rightarrow> sel_key \<Rightarrow> sel_struct \<Rightarrow> bool option" where
  "selector_identical st key value = SelectorEqual st key value"

section \<open>Hashing\<close>

text \<open>A plain \<open>char\<close> is signed.\<close>

definition hash_step :: "size_t \<Rightarrow> char \<Rightarrow> size_t" where
  "hash_step hash c = hash * 33 + scast (of_char c :: 8 word)"

definition hashed_type_char :: "char \<Rightarrow> bool" where
  "hashed_type_char c \<longleftrightarrow> c \<in> set ''@iIlLqQsS''"

definition selector_hash :: "string \<Rightarrow> string option \<Rightarrow> size_t" where
  "selector_hash name types =
     (let h = foldl hash_step 5381 name in
      case types of None \<Rightarrow> h
      | Some t \<Rightarrow> foldl (\<lambda>h c. if hashed_type_char c then hash_step h c else h) h t)"

definition key_hash :: "sel_key \<Rightarrow> size_t" where
  "key_hash key = selector_hash (cs_text (fst key)) (map_option cs_text (snd key))"

definition sel_hash :: "sel_state \<Rightarrow> sel_struct \<Rightarrow> size_t option" where
  "sel_hash st sel =
     map_option (\<lambda>nm. selector_hash (cs_text nm) (types_text sel)) (sel_getNameNonUnique st sel)"

section \<open>Registration\<close>

definition selector_lookup :: "sel_search \<Rightarrow> sel_state \<Rightarrow> sel_key \<Rightarrow> nat option" where
  "selector_lookup find_sel st key = find_sel st key"

text \<open>Appends the name to the list of selectors, replaces it by the index, and inserts the selector
  into the set.\<close>

definition add_selector_to_table :: "sel_search \<Rightarrow> sel_state \<Rightarrow> nat \<Rightarrow> sel_state option" where
  "add_selector_to_table find_sel st h =
     do {
       r \<leftarrow> sels st h;
       nm \<leftarrow> (case ss_uid r of SelName (Some nm) \<Rightarrow> Some nm | _ \<Rightarrow> None);
       let s1 = st\<lparr>selector_list := selector_list st @ [[nm]],
                   sels := (sels st)(h \<mapsto> r\<lparr>ss_uid := SelIndex (length (selector_list st))\<rparr>)\<rparr>;
       Some (if find_sel s1 (nm, ss_types r) = None
             then s1\<lparr>selector_table := selector_table s1 @ [h]\<rparr> else s1)
     }"

text \<open>\<open>TypeList::add_types\<close> for the list of an index.\<close>

definition add_types :: "sel_state \<Rightarrow> nat \<Rightarrow> cstring \<Rightarrow> sel_state option" where
  "add_types st i types =
     (if \<not> i < length (selector_list st) then None
      else case selector_list st ! i of [] \<Rightarrow> None
        | nm # rest \<Rightarrow> Some (st\<lparr>selector_list := (selector_list st)[i := nm # types # rest]\<rparr>))"

definition resize_tables :: "sel_state \<Rightarrow> sel_state option" where
  "resize_tables st =
     do { r \<leftarrow> objc_resize_dtables (sel_rt st) (of_nat (length (selector_list st)));
          Some (st\<lparr>sel_rt := r\<rparr>) }"

definition index_of :: "sel_state \<Rightarrow> nat \<Rightarrow> nat option" where
  "index_of st h = map_option (\<lambda>r. uid_value (ss_uid r)) (sels st h)"

text \<open>The untyped variant of a typed selector that is being registered: a new one, or the known one,
  whose copy of the name the selector then takes. \<open>None\<close> inside: no memory.\<close>

definition untyped_variant ::
  "sel_search \<Rightarrow> sel_state \<Rightarrow> nat \<Rightarrow> cstring \<Rightarrow> (sel_state \<times> nat option) option" where
  "untyped_variant find_sel st h name =
     (case selector_lookup find_sel st (name, None) of
        None \<Rightarrow>
          (case pool_allocate st of
             (s1, None) \<Rightarrow> Some (s1, None)
           | (s1, Some u) \<Rightarrow>
               do {
                 s2 \<leftarrow> upd_sel u (\<lambda>x. x\<lparr>ss_uid := SelName (Some name), ss_types := None\<rparr>) s1;
                 s3 \<leftarrow> add_selector_to_table find_sel s2 u;
                 Some (s3, Some u)
               })
      | Some u \<Rightarrow>
          do {
            ru \<leftarrow> sels st u;
            nm \<leftarrow> sel_getNameNonUnique st ru;
            s1 \<leftarrow> upd_sel h (\<lambda>x. x\<lparr>ss_uid := SelName (Some nm)\<rparr>) st;
            Some (s1, Some u)
          })"

definition register_selector_locked ::
  "sel_search \<Rightarrow> sel_state \<Rightarrow> nat \<Rightarrow> (sel_state \<times> bool) option" where
  "register_selector_locked find_sel st h =
     do {
       r \<leftarrow> sels st h;
       (case ss_uid r of
          SelIndex i \<Rightarrow> if i = 0 then Some (st, False) else None
        | SelName None \<Rightarrow> Some (st, False)
        | SelName (Some name) \<Rightarrow>
            (case ss_types r of
               None \<Rightarrow>
                 do {
                   s1 \<leftarrow> add_selector_to_table find_sel st h;
                   s2 \<leftarrow> resize_tables s1;
                   Some (s2, True)
                 }
             | Some types \<Rightarrow>
                 do {
                   (s1, untyped) \<leftarrow> untyped_variant find_sel st h name;
                   (case untyped of
                      None \<Rightarrow> Some (s1, False)
                    | Some u \<Rightarrow>
                        do {
                          s2 \<leftarrow> add_selector_to_table find_sel s1 h;
                          i \<leftarrow> index_of s2 h;
                          s3 \<leftarrow> add_types s2 i types;
                          j \<leftarrow> index_of s3 u;
                          s4 \<leftarrow> add_types s3 j types;
                          s5 \<leftarrow> resize_tables s4;
                          Some (s5, True)
                        })
                 }))
     }"

text \<open>The assertion on quoted class names in types, by \<open>strstr\<close>.\<close>

fun has_quoted_class :: "string \<Rightarrow> bool" where
  "has_quoted_class (a # b # t) \<longleftrightarrow> (a = CHR ''@'' \<and> b = CHR 0x22) \<or> has_quoted_class (b # t)"
| "has_quoted_class _ \<longleftrightarrow> False"

definition types_admissible :: "cstring option \<Rightarrow> bool" where
  "types_admissible types \<longleftrightarrow> (case types of None \<Rightarrow> True | Some t \<Rightarrow> \<not> has_quoted_class (cs_text t))"

definition objc_register_selector :: "sel_search \<Rightarrow> sel_state \<Rightarrow> nat \<Rightarrow> (sel_state \<times> nat option) option" where
  "objc_register_selector find_sel st h =
     do {
       r \<leftarrow> sels st h;
       if isSelRegistered st r then Some (st, Some h)
       else do {
         name \<leftarrow> (case ss_uid r of SelName (Some nm) \<Rightarrow> Some nm | _ \<Rightarrow> None);
         let registered = selector_lookup find_sel st (name, ss_types r);
         known \<leftarrow> (case registered of None \<Rightarrow> Some None
                   | Some g \<Rightarrow> do { rg \<leftarrow> sels st g;
                                   eq \<leftarrow> SelectorEqual st (name, ss_types r) rg;
                                   Some (if eq then Some (g, rg) else None) });
         (case known of
            Some (g, rg) \<Rightarrow> do { s1 \<leftarrow> upd_sel h (\<lambda>x. x\<lparr>ss_uid := ss_uid rg\<rparr>) st; Some (s1, Some g) }
          | None \<Rightarrow>
              if \<not> types_admissible (ss_types r) then None
              else do {
                (s1, ok) \<leftarrow> register_selector_locked find_sel st h;
                Some (s1, if ok then Some h else None)
              })
       }
     }"

text \<open>A key that the set holds already.\<close>

definition lookup_identical :: "sel_search \<Rightarrow> sel_state \<Rightarrow> sel_key \<Rightarrow> nat option option" where
  "lookup_identical find_sel st key =
     (case selector_lookup find_sel st key of
        None \<Rightarrow> Some None
      | Some g \<Rightarrow> do { rg \<leftarrow> sels st g;
                      same \<leftarrow> selector_identical st key rg;
                      Some (if same then Some g else None) })"

text \<open>
  The strings of a copied selector: the name of the untyped variant or a copy, and a copy of the
  types. The flags say which of them are owned; \<open>None\<close> inside: no memory, with owned copies freed.
\<close>

definition copy_selector_args ::
  "sel_search \<Rightarrow> uintptr_t \<Rightarrow> sel_state \<Rightarrow> sel_key \<Rightarrow>
   (sel_state \<times> (cstring \<times> cstring option \<times> bool \<times> bool) option) option" where
  "copy_selector_args find_sel addr st key =
     do {
       (s1, name) \<leftarrow>
         (case selector_lookup find_sel st (fst key, None) of
            Some u \<Rightarrow> do { ru \<leftarrow> sels st u;
                            nm \<leftarrow> (case selLookup st (uid_value (ss_uid ru)) of
                                     None \<Rightarrow> Some empty_cstring | Some l \<Rightarrow> list_front l);
                            Some (st, Some (nm, False)) }
          | None \<Rightarrow>
              (let (t, c) = objc2_strdup addr st (fst key) in
               Some (case c of None \<Rightarrow> (t, None)
                     | Some nm \<Rightarrow>
                         (t\<lparr>selector_name_copies := selector_name_copies t + of_nat (length (cs_text nm))\<rparr>,
                          Some (nm, True)))));
       Some (case name of None \<Rightarrow> (s1, None)
             | Some (nm, ownsName) \<Rightarrow>
                 (case snd key of
                    None \<Rightarrow> (s1, Some (nm, None, ownsName, False))
                  | Some types \<Rightarrow>
                      (let (t, c) = objc2_strdup addr s1 types in
                       case c of
                         Some ty \<Rightarrow>
                           (t\<lparr>selector_name_copies := selector_name_copies t + of_nat (length (cs_text ty))\<rparr>,
                            Some (nm, Some ty, ownsName, True))
                       | None \<Rightarrow>
                           (if ownsName
                            then (t\<lparr>selector_name_copies := selector_name_copies t - of_nat (length (cs_text nm))\<rparr>, None)
                            else (t, None)))))
     }"

text \<open>The count of copied characters is corrected for strings that are freed again.\<close>

definition forget_copies :: "cstring \<Rightarrow> cstring option \<Rightarrow> bool \<Rightarrow> bool \<Rightarrow> sel_state \<Rightarrow> sel_state" where
  "forget_copies name types ownsName ownsTypes st =
     (let s1 = (case types of Some ty \<Rightarrow>
                   if ownsTypes then st\<lparr>selector_name_copies := selector_name_copies st - of_nat (length (cs_text ty))\<rparr>
                   else st
                | None \<Rightarrow> st) in
      if ownsName then s1\<lparr>selector_name_copies := selector_name_copies s1 - of_nat (length (cs_text name))\<rparr> else s1)"

definition objc_register_selector_copy ::
  "sel_search \<Rightarrow> uintptr_t \<Rightarrow> sel_state \<Rightarrow> sel_key \<Rightarrow> bool \<Rightarrow> (sel_state \<times> nat option) option" where
  "objc_register_selector_copy find_sel addr st aSel copyArgs =
     do {
       known \<leftarrow> lookup_identical find_sel st aSel;
       (case known of
          Some g \<Rightarrow> Some (st, Some g)
        | None \<Rightarrow>
            if \<not> types_admissible (snd aSel) then None
            else (case pool_allocate st of
              (s1, None) \<Rightarrow> Some (s1, None)
            | (s1, Some copy) \<Rightarrow>
                do {
                  (s2, args) \<leftarrow> (if copyArgs then copy_selector_args find_sel addr s1 aSel
                                 else Some (s1, Some (fst aSel, snd aSel, False, False)));
                  (case args of
                     None \<Rightarrow> Some (s2, None)
                   | Some (name, types, ownsName, ownsTypes) \<Rightarrow>
                       do {
                         s3 \<leftarrow> upd_sel copy (\<lambda>x. x\<lparr>ss_uid := SelName (Some name), ss_types := types\<rparr>) s2;
                         (s4, ok) \<leftarrow> register_selector_locked find_sel s3 copy;
                         Some (if ok then (s4, Some copy)
                               else (forget_copies name types ownsName ownsTypes s4, None))
                       })
                }))
     }"

section \<open>Public functions\<close>

definition sel_getName_np :: "sel_state \<Rightarrow> nat option \<Rightarrow> string option" where
  "sel_getName_np st sel =
     (case sel of None \<Rightarrow> Some ''<null selector>''
      | Some h \<Rightarrow>
          do {
            r \<leftarrow> sels st h;
            (case selLookup st (uid_value (ss_uid r)) of
               None \<Rightarrow> Some []
             | Some l \<Rightarrow> map_option cs_text (list_front l))
          })"

definition sel_isEqual :: "sel_state \<Rightarrow> nat option \<Rightarrow> nat option \<Rightarrow> bool option" where
  "sel_isEqual st sel1 sel2 =
     (case (sel1, sel2) of
        (Some a, Some b) \<Rightarrow>
          do {
            ra \<leftarrow> sels st a;
            rb \<leftarrow> sels st b;
            if uid_value (ss_uid ra) = uid_value (ss_uid rb) then Some True
            else do {
              na \<leftarrow> sel_getNameNonUnique st ra;
              nb \<leftarrow> sel_getNameNonUnique st rb;
              Some (cs_text na = cs_text nb \<and>
                    (ss_types ra = None \<or> ss_types rb = None \<or>
                     selector_types_equivalent (types_text ra) (types_text rb)))
            }
          }
      | _ \<Rightarrow> Some (sel1 = sel2))"

definition sel_registerTypedName_np ::
  "sel_search \<Rightarrow> uintptr_t \<Rightarrow> sel_state \<Rightarrow> cstring option \<Rightarrow> cstring option \<Rightarrow> (sel_state \<times> nat option) option" where
  "sel_registerTypedName_np find_sel addr st selName types =
     (case selName of None \<Rightarrow> Some (st, None)
      | Some nm \<Rightarrow> objc_register_selector_copy find_sel addr st (nm, types) True)"

definition sel_registerName ::
  "sel_search \<Rightarrow> uintptr_t \<Rightarrow> sel_state \<Rightarrow> cstring option \<Rightarrow> (sel_state \<times> nat option) option" where
  "sel_registerName find_sel addr st selName =
     (case selName of None \<Rightarrow> Some (st, None)
      | Some nm \<Rightarrow> objc_register_selector_copy find_sel addr st (nm, None) True)"

definition sel_getUid ::
  "sel_search \<Rightarrow> uintptr_t \<Rightarrow> sel_state \<Rightarrow> cstring option \<Rightarrow> (sel_state \<times> nat option) option" where
  "sel_getUid find_sel addr st selName = sel_registerName find_sel addr st selName"

definition sel_getType_np :: "sel_state \<Rightarrow> nat option \<Rightarrow> cstring option option" where
  "sel_getType_np st aSel =
     (case aSel of None \<Rightarrow> Some None | Some h \<Rightarrow> map_option ss_types (sels st h))"

text \<open>The types registered under a name; the inner \<open>None\<close> is that there is no such selector.\<close>

definition types_of_name :: "sel_search \<Rightarrow> sel_state \<Rightarrow> cstring option \<Rightarrow> cstring list option option" where
  "types_of_name find_sel st selName =
     (case selName of None \<Rightarrow> Some None
      | Some nm \<Rightarrow>
          (case selector_lookup find_sel st (nm, None) of None \<Rightarrow> Some None
           | Some u \<Rightarrow>
               do {
                 ru \<leftarrow> sels st u;
                 (case selLookup st (uid_value (ss_uid ru)) of
                    None \<Rightarrow> Some None
                  | Some l \<Rightarrow> if l = [] then None else Some (Some (tl l)))
               }))"

text \<open>The buffer as it is filled, and the number of types.\<close>

definition sel_copyTypes_np ::
  "sel_search \<Rightarrow> sel_state \<Rightarrow> cstring option \<Rightarrow> nat \<Rightarrow> (cstring list \<times> nat) option" where
  "sel_copyTypes_np find_sel st selName count =
     do {
       types \<leftarrow> types_of_name find_sel st selName;
       Some (case types of None \<Rightarrow> ([], 0)
             | Some l \<Rightarrow> if count = 0 then ([], length l) else (take count l, length l))
     }"

definition sel_copyTypedSelectors_np ::
  "sel_search \<Rightarrow> sel_state \<Rightarrow> cstring option \<Rightarrow> nat \<Rightarrow> (nat option list \<times> nat) option" where
  "sel_copyTypedSelectors_np find_sel st selName count =
     do {
       types \<leftarrow> types_of_name find_sel st selName;
       Some (case (types, selName) of
               (Some l, Some nm) \<Rightarrow>
                 if count = 0 then ([], length l)
                 else (map (\<lambda>ty. selector_lookup find_sel st (nm, Some ty)) (take count l), length l)
             | _ \<Rightarrow> ([], 0))
     }"

text \<open>The array ends with a selector whose name is null; reading past it is undefined.\<close>

fun objc_register_selector_array :: "sel_search \<Rightarrow> sel_state \<Rightarrow> nat list \<Rightarrow> sel_state option" where
  "objc_register_selector_array find_sel st [] = None"
| "objc_register_selector_array find_sel st (h # hs) =
     do {
       r \<leftarrow> sels st h;
       if uid_value (ss_uid r) = 0 then Some st
       else do {
         (s1, _) \<leftarrow> objc_register_selector find_sel st h;
         objc_register_selector_array find_sel s1 hs
       }
     }"

end
