(* ===== verification/Objc_Selector_Thms.thy ===== *)
theory Objc_Selector_Thms
  imports Objc_Selector_Table
begin

text \<open>
  The selector table interns pairs of a name and types: it implements a map from such pairs to
  selectors, in which a pair that was registered keeps its selector, its name, its types and its
  index for ever. This holds for types as compilers write them, with an offset at the end; the
  comparison of types is not an equivalence relation in general.
\<close>

section \<open>The comparison of types\<close>

definition relevant_types :: "string \<Rightarrow> string" where
  "relevant_types t = filter (\<lambda>c. \<not> irrelevant_type_char c) t"

text \<open>Types that end in an offset and do not use the shorthand for strings.\<close>

definition exact_types :: "string \<Rightarrow> bool" where
  "exact_types t \<longleftrightarrow> t \<noteq> [] \<and> irrelevant_type_char (last t) \<and> CHR ''*'' \<notin> set t"

lemma relevant_skip: "relevant_types (skip_irrelevant_type_info t) = relevant_types t"
  by (induction t) (auto simp: relevant_types_def skip_irrelevant_type_info_def)

lemma skip_exact:
  assumes "exact_types t"
  shows "skip_irrelevant_type_info t = [] \<and> relevant_types t = [] \<or>
    (\<exists>c t'. skip_irrelevant_type_info t = c # t' \<and> c \<noteq> CHR ''*'' \<and> exact_types t' \<and>
       relevant_types t = c # relevant_types t')"
proof (cases "skip_irrelevant_type_info t")
  case Nil
  then show ?thesis using relevant_skip [of t] by (simp add: relevant_types_def)
next
  case (Cons c t')
  have sub: "\<exists>xs. t = xs @ c # t'" "\<not> irrelevant_type_char c"
    using Cons unfolding skip_irrelevant_type_info_def
    by (metis takeWhile_dropWhile_id, simp add: dropWhile_eq_Cons_conv)
  then obtain xs where xs: "t = xs @ c # t'" by blast
  have "t' \<noteq> []" using assms sub(2) xs by (auto simp: exact_types_def)
  then have "exact_types t'" using assms xs by (auto simp: exact_types_def)
  moreover have "relevant_types t = c # relevant_types t'"
    using relevant_skip [of t] Cons sub(2) by (simp add: relevant_types_def)
  ultimately show ?thesis using Cons xs assms by (auto simp: exact_types_def)
qed

lemma types_equal_exact:
  "exact_types a \<Longrightarrow> exact_types b \<Longrightarrow> types_equal_loop a b \<longleftrightarrow> relevant_types a = relevant_types b"
proof (induction a b rule: types_equal_loop.induct)
  case (1 a b)
  have ne: "a \<noteq> []" "b \<noteq> []" using 1 by (auto simp: exact_types_def)
  from skip_exact [OF "1.prems"(1)] show ?case
  proof
    assume a: "skip_irrelevant_type_info a = [] \<and> relevant_types a = []"
    from skip_exact [OF "1.prems"(2)] show ?thesis
      using a ne by (subst types_equal_loop.simps) (auto simp: c_head_def types_equal_loop.simps)
  next
    assume "\<exists>c a'. skip_irrelevant_type_info a = c # a' \<and> c \<noteq> CHR ''*'' \<and> exact_types a' \<and>
      relevant_types a = c # relevant_types a'"
    then obtain c a' where a: "skip_irrelevant_type_info a = c # a'" "c \<noteq> CHR ''*''" "exact_types a'"
      "relevant_types a = c # relevant_types a'" by blast
    from skip_exact [OF "1.prems"(2)] show ?thesis
    proof
      assume "skip_irrelevant_type_info b = [] \<and> relevant_types b = []"
      then show ?thesis using a ne by (subst types_equal_loop.simps) (auto simp: c_head_def)
    next
      assume "\<exists>c b'. skip_irrelevant_type_info b = c # b' \<and> c \<noteq> CHR ''*'' \<and> exact_types b' \<and>
        relevant_types b = c # relevant_types b'"
      then obtain d b' where b: "skip_irrelevant_type_info b = d # b'" "d \<noteq> CHR ''*''" "exact_types b'"
        "relevant_types b = d # relevant_types b'" by blast
      have "types_equal_loop a b \<longleftrightarrow> c = d \<and> types_equal_loop a' b'"
        using a b ne by (subst types_equal_loop.simps) (simp add: c_head_def)
      moreover have "types_equal_loop a' b' \<longleftrightarrow> relevant_types a' = relevant_types b'" if "c = d"
        using "1.IH"(3) [of "c # a'" "d # b'"] a b ne that by (simp add: c_head_def)
      ultimately show ?thesis using a(4) b(4) by auto
    qed
  qed
qed

lemma hash_types_relevant:
  "foldl (\<lambda>h c. if hashed_type_char c then hash_step h c else h) h t =
   foldl hash_step h (filter hashed_type_char (relevant_types t))"
proof -
  have "filter hashed_type_char (relevant_types t) = filter hashed_type_char t"
    unfolding relevant_types_def filter_filter
    by (rule filter_cong) (auto simp: hashed_type_char_def irrelevant_type_char_def)
  moreover have "foldl (\<lambda>h c. if hashed_type_char c then hash_step h c else h) h t =
      foldl hash_step h (filter hashed_type_char t)" by (induction t arbitrary: h) auto
  ultimately show ?thesis by simp
qed

section \<open>Keys\<close>

text \<open>The text of a key, and its normal form.\<close>

type_synonym sel_text = "string \<times> string option"

definition key_text :: "sel_key \<Rightarrow> sel_text" where
  "key_text k = (cs_text (fst k), map_option cs_text (snd k))"

definition normal :: "sel_text \<Rightarrow> sel_text" where
  "normal k = (fst k, map_option relevant_types (snd k))"

definition exact_key :: "sel_text \<Rightarrow> bool" where
  "exact_key k \<longleftrightarrow> (case snd k of None \<Rightarrow> True | Some t \<Rightarrow> exact_types t)"

lemma normal_equal:
  assumes "exact_key k" "exact_key k'"
  shows "fst k = fst k' \<and> selector_types_equal (snd k) (snd k') \<longleftrightarrow> normal k = normal k'"
  using assms by (cases "snd k"; cases "snd k'")
    (auto simp: exact_key_def normal_def types_equal_exact)

lemma normal_hash: "normal k = normal k' \<Longrightarrow> selector_hash (fst k) (snd k) = selector_hash (fst k') (snd k')"
  by (cases "snd k"; cases "snd k'") (auto simp: normal_def selector_hash_def hash_types_relevant Let_def)

section \<open>Registered selectors\<close>

text \<open>Index, name and types of a selector in the set.\<close>

definition sel_view :: "sel_state \<Rightarrow> nat \<Rightarrow> (nat \<times> sel_text) option" where
  "sel_view st h =
     do {
       r \<leftarrow> sels st h;
       i \<leftarrow> (case ss_uid r of SelIndex i \<Rightarrow> Some i | _ \<Rightarrow> None);
       l \<leftarrow> (if i < length (selector_list st) then Some (selector_list st ! i) else None);
       nm \<leftarrow> list_front l;
       Some (i, cs_text nm, types_text r)
     }"

definition sel_inv :: "sel_state \<Rightarrow> bool" where
  "sel_inv st \<longleftrightarrow>
     (\<forall>h\<in>set (selector_table st). h < sel_brk st \<and> (\<exists>i k. sel_view st h = Some (i, k) \<and> exact_key k)) \<and>
     distinct (selector_table st) \<and>
     (\<forall>h\<in>set (selector_table st). \<forall>g\<in>set (selector_table st). \<forall>i k j m.
        sel_view st h = Some (i, k) \<longrightarrow> sel_view st g = Some (j, m) \<longrightarrow>
          (i = j \<longrightarrow> h = g) \<and> (normal k = normal m \<longrightarrow> h = g))"

text \<open>
  There is room for two more selectors in the index space, and resizing the dispatch tables does not
  abort, whatever happens to the protocols, the hooks and the allocator in between.
\<close>

definition rt_part :: "rt_state \<Rightarrow> rt_state" where
  "rt_part r = r\<lparr>rt_protocols := empty_proto_state\<rparr>"

definition sel_room :: "sel_state \<Rightarrow> bool" where
  "sel_room st \<longleftrightarrow> length (selector_list st) + 2 < 2 ^ 32 \<and>
     (\<forall>r n. rt_part r = rt_part (sel_rt st) \<longrightarrow> objc_resize_dtables r n \<noteq> None)"

text \<open>What every hash set does.\<close>

definition hash_set_search :: "sel_search \<Rightarrow> bool" where
  "hash_set_search find_sel \<longleftrightarrow>
     (\<forall>st key g. find_sel st key = Some g \<longrightarrow> g \<in> set (selector_table st) \<and>
        (\<exists>r. sels st g = Some r \<and> SelectorEqual st key r = Some True)) \<and>
     (\<forall>st key g r. g \<in> set (selector_table st) \<longrightarrow> sels st g = Some r \<longrightarrow>
        SelectorEqual st key r = Some True \<longrightarrow> sel_hash st r = Some (key_hash key) \<longrightarrow>
        find_sel st key \<noteq> None)"

text \<open>The map the table implements.\<close>

definition interned :: "sel_state \<Rightarrow> sel_text \<Rightarrow> nat option" where
  "interned st k =
     find (\<lambda>h. case sel_view st h of Some (_, m) \<Rightarrow> normal m = normal k | None \<Rightarrow> False) (selector_table st)"

lemma sel_view_Some:
  assumes "sel_view st h = Some (i, n, t)"
  obtains r c rest where "sels st h = Some r" "ss_uid r = SelIndex i" "types_text r = t"
    "i < length (selector_list st)" "selector_list st ! i = c # rest" "cs_text c = n"
proof -
  from assms obtain r where r: "sels st h = Some r" "ss_uid r = SelIndex i" "types_text r = t"
    "i < length (selector_list st)" "map_option cs_text (list_front (selector_list st ! i)) = Some n"
    by (auto simp: sel_view_def split: bind_splits sel_uid.splits if_splits)
  then obtain c rest where "selector_list st ! i = c # rest" "cs_text c = n"
    by (auto simp: list_front_def split: list.splits)
  with r that show ?thesis by blast
qed

lemma view_lookup:
  assumes "sel_view st h = Some (i, n, t)" "length (selector_list st) < 2 ^ 32" "sels st h = Some r"
  shows "\<exists>c. sel_getNameRegistered st r = Some c \<and> sel_getNameNonUnique st r = Some c \<and> cs_text c = n"
    and "SelectorEqual st key r = Some (fst (key_text key) = n \<and> selector_types_equal (snd (key_text key)) t)"
    and "sel_hash st r = Some (selector_hash n t)"
proof -
  from assms(1) obtain c rest where c: "ss_uid r = SelIndex i" "types_text r = t"
    "i < length (selector_list st)" "selector_list st ! i = c # rest" "cs_text c = n"
    using assms(3) by (auto elim: sel_view_Some)
  have "selLookup st i = Some (c # rest)" using c assms(2) by (simp add: selLookup_def Let_def)
  then have names: "sel_getNameRegistered st r = Some c" "sel_getNameNonUnique st r = Some c"
    using c by (simp_all add: sel_getNameRegistered_def sel_getNameNonUnique_def isSelRegistered_def list_front_def)
  then show "\<exists>c. sel_getNameRegistered st r = Some c \<and> sel_getNameNonUnique st r = Some c \<and> cs_text c = n"
    using c(5) by blast
  show "SelectorEqual st key r = Some (fst (key_text key) = n \<and> selector_types_equal (snd (key_text key)) t)"
    using names c by (simp add: SelectorEqual_def key_text_def)
  show "sel_hash st r = Some (selector_hash n t)" using names c by (simp add: sel_hash_def)
qed

lemma interned_iff:
  assumes "sel_inv st"
  shows "interned st k = Some g \<longleftrightarrow> g \<in> set (selector_table st) \<and> (\<exists>i m. sel_view st g = Some (i, m) \<and> normal m = normal k)"
    (is "_ = ?R g")
proof
  show "?R g" if "interned st k = Some g"
    using that by (auto simp: interned_def find_Some_iff split: option.splits)
  assume g: "?R g"
  have "interned st k \<noteq> None"
  proof
    assume "interned st k = None"
    then have "\<forall>h\<in>set (selector_table st). \<not> (case sel_view st h of Some (_, m) \<Rightarrow> normal m = normal k | None \<Rightarrow> False)"
      by (simp add: interned_def find_None_iff)
    with g show False by fastforce
  qed
  then obtain h where h: "interned st k = Some h" by auto
  then have "?R h" by (auto simp: interned_def find_Some_iff split: option.splits)
  with g assms have "h = g" unfolding sel_inv_def by metis
  with h show "interned st k = Some g" by simp
qed

lemma inv_member:
  assumes "sel_inv st" "h \<in> set (selector_table st)"
  obtains r i k where "sels st h = Some r" "sel_view st h = Some (i, k)" "exact_key k" "h < sel_brk st"
    "ss_uid r = SelIndex i" "i < length (selector_list st)"
proof -
  from assms obtain i k where v: "sel_view st h = Some (i, k)" "exact_key k" "h < sel_brk st"
    by (auto simp: sel_inv_def)
  obtain n t where "k = (n, t)" by fastforce
  with v(1) obtain r where "sels st h = Some r" "ss_uid r = SelIndex i" "i < length (selector_list st)"
    by (auto elim: sel_view_Some)
  with v that show ?thesis by blast
qed

text \<open>A search under an exact key is the map.\<close>

lemma search_interned:
  assumes F: "hash_set_search F" and inv: "sel_inv st" and len: "length (selector_list st) < 2 ^ 32"
    and k: "exact_key (key_text key)"
  shows "F st key = interned st (key_text key)"
proof -
  have equal: "SelectorEqual st key r = Some (normal m = normal (key_text key)) \<and> (normal m = normal (key_text key) \<longrightarrow>
      sel_hash st r = Some (key_hash key))"
    if "h \<in> set (selector_table st)" "sels st h = Some r" "sel_view st h = Some (i, m)" for h r i m
  proof -
    obtain n t where m: "m = (n, t)" by fastforce
    have em: "exact_key m" using inv that by (auto simp: sel_inv_def)
    note v = view_lookup [OF that(3) [unfolded m] len that(2)]
    have "normal m = normal (key_text key) \<longrightarrow> selector_hash n t = key_hash key"
      using normal_hash [of m "key_text key"] m by (simp add: key_hash_def key_text_def)
    then show ?thesis using v(2) [of key] v(3) normal_equal [OF k em] m by (auto simp: eq_commute)
  qed
  show ?thesis
  proof (cases "F st key")
    case (Some g)
    with F obtain r where g: "g \<in> set (selector_table st)" "sels st g = Some r" "SelectorEqual st key r = Some True"
      unfolding hash_set_search_def by blast
    obtain i m where "sel_view st g = Some (i, m)" using inv_member [OF inv g(1)] by metis
    with equal [OF g(1,2)] g(3) have "normal m = normal (key_text key)" by simp
    then have "interned st (key_text key) = Some g" using interned_iff [OF inv] g(1) \<open>sel_view st g = Some (i, m)\<close> by blast
    with Some show ?thesis by simp
  next
    case None
    have "interned st (key_text key) \<noteq> Some g" for g
    proof
      assume "interned st (key_text key) = Some g"
      then obtain i m where g: "g \<in> set (selector_table st)" "sel_view st g = Some (i, m)" "normal m = normal (key_text key)"
        using interned_iff [OF inv] by blast
      obtain r where "sels st g = Some r" using inv_member [OF inv g(1)] by metis
      with equal [OF g(1) _ g(2)] g F None show False unfolding hash_set_search_def by (metis (full_types))
    qed
    with None show ?thesis by (cases "interned st (key_text key)") auto
  qed
qed

section \<open>Steps that keep the registered selectors\<close>

definition sel_kept :: "sel_state \<Rightarrow> sel_state \<Rightarrow> bool" where
  "sel_kept st st' \<longleftrightarrow>
     (\<forall>h\<in>set (selector_table st). h \<in> set (selector_table st') \<and> sel_view st' h = sel_view st h)"

lemma sel_kept_refl [simp, intro]: "sel_kept st st"
  by (simp add: sel_kept_def)

lemma sel_kept_trans: "sel_kept st s1 \<Longrightarrow> sel_kept s1 s2 \<Longrightarrow> sel_kept st s2"
  by (simp add: sel_kept_def)

lemma interned_mono: "sel_inv st \<Longrightarrow> sel_inv st' \<Longrightarrow> sel_kept st st' \<Longrightarrow> interned st k = Some g \<Longrightarrow> interned st' k = Some g"
  by (auto simp: interned_iff sel_kept_def)

text \<open>The same members with the same views.\<close>

lemma sel_inv_same:
  assumes "sel_inv st" "selector_table st' = selector_table st" "sel_brk st \<le> sel_brk st'"
    and "\<And>h. h \<in> set (selector_table st) \<Longrightarrow> sel_view st' h = sel_view st h"
  shows "sel_inv st'" "sel_kept st st'" "interned st' = interned st"
proof -
  show i: "sel_inv st'" using assms(1) unfolding sel_inv_def assms(2)
    by (simp add: assms(4)) (use assms(3) in \<open>meson less_le_trans\<close>)
  show kept: "sel_kept st st'" using assms(2,4) by (simp add: sel_kept_def)
  have "interned st' k = Some g \<longleftrightarrow> interned st k = Some g" for k g
    unfolding interned_iff [OF assms(1)] interned_iff [OF i] assms(2) using assms(4) by auto
  then show "interned st' = interned st" by (metis option.exhaust ext)
qed

lemma view_cong:
  "sels st' h = sels st h \<Longrightarrow> selector_list st' = selector_list st \<Longrightarrow> sel_view st' h = sel_view st h"
  by (simp add: sel_view_def cong: if_cong)

lemma sel_alloc_fields:
  "sel_alloc st = (s, ok) \<Longrightarrow> s = st\<lparr>sel_rt := sel_rt s\<rparr> \<and> rt_part (sel_rt s) = rt_part (sel_rt st)"
  by (auto simp: sel_alloc_def rt_alloc_def rt_part_def split: prod.splits)

text \<open>Allocation of a selector structure.\<close>

lemma pool_allocate_ok:
  assumes p: "pool_allocate st = (s, res)" and inv: "sel_inv st"
  shows "sel_inv s \<and> sel_kept st s \<and> interned s = interned st \<and> selector_table s = selector_table st \<and>
      selector_list s = selector_list st \<and> (sel_room st \<longrightarrow> sel_room s)"
    and "res = Some u \<Longrightarrow> u \<notin> set (selector_table s) \<and> u < sel_brk s \<and> sels s u \<noteq> None \<and>
      u = sel_brk st \<and> (\<forall>h. h \<noteq> u \<longrightarrow> sels s h = sels st h)"
    and "res = None \<Longrightarrow> sels s = sels st"
    and "sel_brk st \<le> sel_brk s \<and> rt_part (sel_rt s) = rt_part (sel_rt st)"
proof -
  obtain s1 ok where s1: "(if pool_index st = ObjectsPerChunk then sel_alloc st else (st, True)) = (s1, ok)"
    by fastforce
  have f: "sels s1 = sels st" "selector_table s1 = selector_table st" "selector_list s1 = selector_list st"
      "sel_brk s1 = sel_brk st" "rt_part (sel_rt s1) = rt_part (sel_rt st)"
    using s1 sel_alloc_fields [of st s1 ok] by (auto split: if_splits) (metis sel_state.select_convs sel_state.surjective sel_state.update_convs(7))+
  have cases: "\<not> ok \<and> s = s1 \<and> res = None \<or>
      ok \<and> res = Some (sel_brk st) \<and> sels s = (sels st)(sel_brk st \<mapsto> \<lparr>ss_uid = SelName None, ss_types = None\<rparr>) \<and>
      selector_table s = selector_table st \<and> selector_list s = selector_list st \<and> sel_brk s = Suc (sel_brk st) \<and> sel_rt s = sel_rt s1"
    using p unfolding pool_allocate_def s1 by (auto simp: f split: if_splits)
  have lt: "h < sel_brk st" if "h \<in> set (selector_table st)" for h using inv that by (auto simp: sel_inv_def)
  have same: "sels s h = sels st h" if "h \<in> set (selector_table st)" for h using cases f lt [OF that] by auto
  have tab: "selector_table s = selector_table st" "selector_list s = selector_list st" "sel_brk st \<le> sel_brk s"
    "rt_part (sel_rt s) = rt_part (sel_rt st)"
    using cases f by auto
  note k = sel_inv_same [OF inv tab(1,3) view_cong [OF same tab(2)]]
  show "sel_inv s \<and> sel_kept st s \<and> interned s = interned st \<and> selector_table s = selector_table st \<and>
      selector_list s = selector_list st \<and> (sel_room st \<longrightarrow> sel_room s)"
    using k tab by (simp add: sel_room_def)
  show "u \<notin> set (selector_table s) \<and> u < sel_brk s \<and> sels s u \<noteq> None \<and> u = sel_brk st \<and>
      (\<forall>h. h \<noteq> u \<longrightarrow> sels s h = sels st h)" if "res = Some u"
    using that cases lt by auto
  show "res = None \<Longrightarrow> sels s = sels st" using cases f by auto
  show "sel_brk st \<le> sel_brk s \<and> rt_part (sel_rt s) = rt_part (sel_rt st)" using tab by simp
qed

section \<open>Adding a selector\<close>

text \<open>A selector structure that is not registered, with the key it is to be registered under.\<close>

definition pending :: "sel_state \<Rightarrow> nat \<Rightarrow> cstring \<Rightarrow> cstring option \<Rightarrow> bool" where
  "pending st h nm ty \<longleftrightarrow> h \<notin> set (selector_table st) \<and> h < sel_brk st \<and>
     sels st h = Some \<lparr>ss_uid = SelName (Some nm), ss_types = ty\<rparr>"

lemma upd_sel_pending:
  assumes "sel_inv st" "h \<notin> set (selector_table st)" "h < sel_brk st" "sels st h = Some r"
    and f: "f r = \<lparr>ss_uid = SelName (Some nm), ss_types = ty\<rparr>"
  shows "\<exists>st'. upd_sel h f st = Some st' \<and> sel_inv st' \<and> sel_kept st st' \<and> interned st' = interned st \<and>
    selector_table st' = selector_table st \<and> selector_list st' = selector_list st \<and> sel_rt st' = sel_rt st \<and>
    sel_brk st' = sel_brk st \<and> pending st' h nm ty \<and> (\<forall>g. g \<noteq> h \<longrightarrow> sels st' g = sels st g)"
proof -
  let ?st = "st\<lparr>sels := (sels st)(h \<mapsto> f r)\<rparr>"
  have v: "sel_view ?st g = sel_view st g" if "g \<in> set (selector_table st)" for g
    by (rule view_cong) (use assms(2) that in auto)
  note k = sel_inv_same [OF assms(1) _ _ v]
  have "sel_inv ?st" "sel_kept st ?st" "interned ?st = interned st" using k by simp_all
  then show ?thesis using assms by (auto simp: upd_sel_def pending_def)
qed

lemma view_append:
  "sel_view st h = Some (i, k) \<Longrightarrow> sels st' h = sels st h \<Longrightarrow> selector_list st' = selector_list st @ xs \<Longrightarrow>
   sel_view st' h = Some (i, k)"
proof -
  assume v: "sel_view st h = Some (i, k)" "sels st' h = sels st h" "selector_list st' = selector_list st @ xs"
  obtain n t where k: "k = (n, t)" by fastforce
  from v(1) [unfolded k] show "sel_view st' h = Some (i, k)"
    by (rule sel_view_Some) (use v k in \<open>simp add: sel_view_def nth_append list_front_def\<close>)
qed

lemma add_selector_ok:
  assumes F: "hash_set_search F" and inv: "sel_inv st" and len: "length (selector_list st) + 1 < 2 ^ 32"
    and h: "pending st h nm ty" and k: "exact_key (key_text (nm, ty))" "interned st (key_text (nm, ty)) = None"
  obtains st' where "add_selector_to_table F st h = Some st'" "sel_inv st'" "sel_kept st st'"
    "selector_table st' = selector_table st @ [h]" "selector_list st' = selector_list st @ [[nm]]"
    "sel_view st' h = Some (length (selector_list st), key_text (nm, ty))" "sel_rt st' = sel_rt st"
    "sel_brk st' = sel_brk st" "\<forall>g. g \<noteq> h \<longrightarrow> sels st' g = sels st g"
proof -
  let ?n = "length (selector_list st)"
  let ?s1 = "st\<lparr>selector_list := selector_list st @ [[nm]],
               sels := (sels st)(h \<mapsto> \<lparr>ss_uid = SelIndex ?n, ss_types = ty\<rparr>)\<rparr>"
  let ?st = "?s1\<lparr>selector_table := selector_table st @ [h]\<rparr>"
  have hn: "h \<notin> set (selector_table st)" "h < sel_brk st"
    "sels st h = Some \<lparr>ss_uid = SelName (Some nm), ss_types = ty\<rparr>" using h by (auto simp: pending_def)
  have v: "sel_view ?s1 g = sel_view st g" if gm: "g \<in> set (selector_table st)" for g
  proof -
    obtain i m where "sel_view st g = Some (i, m)" using inv_member [OF inv gm] by metis
    moreover have "g \<noteq> h" using gm hn(1) by blast
    ultimately show ?thesis using view_append [of st g i m ?s1 "[[nm]]"] by simp
  qed
  have inv1: "sel_inv ?s1" and int1: "interned ?s1 = interned st"
    using sel_inv_same [OF inv, of ?s1] v by simp_all
  have none: "F ?s1 (nm, ty) = None"
    using search_interned [OF F inv1 _ k(1)] int1 k(2) len by simp
  have views: "sel_view ?st g = sel_view ?s1 g" for g by (rule view_cong) simp_all
  have vh: "sel_view ?st h = Some (?n, key_text (nm, ty))"
    by (simp add: sel_view_def list_front_def key_text_def types_text_def nth_append)
  have old: "\<exists>i m. sel_view ?st g = Some (i, m) \<and> exact_key m \<and> i < ?n \<and> g < sel_brk st \<and> normal m \<noteq> normal (key_text (nm, ty))"
    if g: "g \<in> set (selector_table st)" for g
  proof -
    obtain i m where m: "sel_view st g = Some (i, m)" "exact_key m" "i < ?n" "g < sel_brk st"
      using inv_member [OF inv g] by metis
    moreover have "normal m \<noteq> normal (key_text (nm, ty))" using interned_iff [OF inv] k(2) g m(1) by (metis option.distinct(1))
    ultimately show ?thesis using v [OF g] views by simp
  qed
  have "sel_inv ?st" unfolding sel_inv_def
  proof (intro conjI ballI allI impI)
    fix g
    assume g: "g \<in> set (selector_table ?st)"
    then show "g < sel_brk ?st" using old hn(2) by (cases "g = h") auto
    show "\<exists>i kk. sel_view ?st g = Some (i, kk) \<and> exact_key kk"
    proof (cases "g = h")
      case True
      then show ?thesis using vh k(1) by blast
    next
      case False
      then show ?thesis using g old [of g] by auto
    qed
  next
    show "distinct (selector_table ?st)" using inv hn(1) by (simp add: sel_inv_def)
  next
    fix g g' i kk j m
    assume a: "g \<in> set (selector_table ?st)" "g' \<in> set (selector_table ?st)"
      "sel_view ?st g = Some (i, kk)" "sel_view ?st g' = Some (j, m)"
    have both: "(i = j \<longrightarrow> g = g') \<and> (normal kk = normal m \<longrightarrow> g = g')"
    proof (cases "g = h \<or> g' = h")
      case True
      then show ?thesis using a old vh by fastforce
    next
      case False
      then have m: "g \<in> set (selector_table st)" "g' \<in> set (selector_table st)" using a by auto
      then have "sel_view st g = Some (i, kk)" "sel_view st g' = Some (j, m)" using a(3,4) v views by simp_all
      then show ?thesis using inv m unfolding sel_inv_def by blast
    qed
    then show "i = j \<Longrightarrow> g = g'" "normal kk = normal m \<Longrightarrow> g = g'" by blast+
  qed
  moreover have "sel_kept st ?st" using v views by (simp add: sel_kept_def)
  moreover have "add_selector_to_table F st h = Some ?st"
    using none hn by (simp add: add_selector_to_table_def Let_def)
  ultimately show ?thesis using vh that by simp
qed

text \<open>Adding types to a list leaves every view alone.\<close>

lemma add_types_ok:
  assumes inv: "sel_inv st" and h: "sel_view st h = Some (i, k)"
  obtains st' where "add_types st i ty = Some st'" "sel_inv st'" "sel_kept st st'" "interned st' = interned st"
    "selector_table st' = selector_table st" "length (selector_list st') = length (selector_list st)"
    "sel_rt st' = sel_rt st" "sels st' = sels st" "ty \<in> set (tl (selector_list st' ! i))"
    "\<forall>g. sel_view st' g = sel_view st g" "\<forall>j. set (tl (selector_list st ! j)) \<subseteq> set (tl (selector_list st' ! j))"
proof -
  obtain n t where k: "k = (n, t)" by fastforce
  from h [unfolded k] obtain c rest where c: "i < length (selector_list st)" "selector_list st ! i = c # rest"
    by (auto elim: sel_view_Some)
  let ?st = "st\<lparr>selector_list := (selector_list st)[i := c # ty # rest]\<rparr>"
  have front: "list_front ((selector_list st)[i := c # ty # rest] ! j) = list_front (selector_list st ! j)" for j
    using c by (cases "j = i") (auto simp: list_front_def)
  have v: "sel_view ?st g = sel_view st g" for g unfolding sel_view_def
    by (simp add: option.case_eq_if front split: bind_splits sel_uid.splits cong: if_cong)
  note s = sel_inv_same [OF inv, of ?st]
  have "sel_inv ?st" "sel_kept st ?st" "interned ?st = interned st" using s v by simp_all
  moreover have "set (tl (selector_list st ! j)) \<subseteq> set (tl (selector_list ?st ! j))" for j
    using c by (cases "j = i") auto
  ultimately show ?thesis using c v that by (simp add: add_types_def)
qed

text \<open>Resizing the dispatch tables does not touch the selectors.\<close>

lemma resize_tables_ok:
  assumes "sel_room st" "rt_part (sel_rt s) = rt_part (sel_rt st)" "sel_inv s"
  obtains s' where "resize_tables s = Some s'" "sel_inv s'" "sel_kept s s'" "interned s' = interned s"
    "selector_table s' = selector_table s" "selector_list s' = selector_list s" "\<forall>g. sel_view s' g = sel_view s g"
proof -
  from assms(1,2) obtain r where r: "objc_resize_dtables (sel_rt s) (of_nat (length (selector_list s))) = Some r"
    unfolding sel_room_def by blast
  let ?s = "s\<lparr>sel_rt := r\<rparr>"
  have v: "sel_view ?s g = sel_view s g" for g by (rule view_cong) simp_all
  have "sel_inv ?s" "sel_kept s ?s" "interned ?s = interned s" using sel_inv_same [OF assms(3), of ?s] v by simp_all
  then show ?thesis using that [of ?s] r v by (simp add: resize_tables_def)
qed

text \<open>
  The untyped variant: it is in the table afterwards, or there was no memory. The selector that is
  being registered stays pending, under the same text.
\<close>

lemma untyped_variant_ok:
  assumes F: "hash_set_search F" and inv: "sel_inv st" and room: "sel_room st"
    and h: "pending st h nm (Some ty)" and k: "exact_key (key_text (nm, Some ty))"
      "interned st (key_text (nm, Some ty)) = None"
  obtains st' u nm' where "untyped_variant F st h nm = Some (st', u)" "sel_inv st'" "sel_kept st st'"
    "pending st' h nm' (Some ty)" "cs_text nm' = cs_text nm" "interned st' (key_text (nm, Some ty)) = None"
    "u \<noteq> None \<longrightarrow> interned st' (cs_text nm, None) = u"
    "\<forall>kk. interned st' kk \<noteq> None \<longrightarrow> interned st kk \<noteq> None \<or> normal kk = (cs_text nm, None)"
    "length (selector_list st') \<le> length (selector_list st) + 1" "rt_part (sel_rt st') = rt_part (sel_rt st)"
    "u = None \<longrightarrow> selector_table st' = selector_table st"
proof -
  have len: "length (selector_list st) < 2 ^ 32" using room by (simp add: sel_room_def)
  have ut: "key_text (nm, None) = (cs_text nm, None)" "exact_key (cs_text nm, None)" "normal (cs_text nm, None) = (cs_text nm, None)"
    by (simp_all add: key_text_def exact_key_def normal_def)
  have lookup: "selector_lookup F st (nm, None) = interned st (cs_text nm, None)"
    unfolding selector_lookup_def using search_interned [OF F inv len, of "(nm, None)"] by (simp add: ut)
  have hp: "h \<notin> set (selector_table st)" "h < sel_brk st" "sels st h = Some \<lparr>ss_uid = SelName (Some nm), ss_types = Some ty\<rparr>"
    using h by (auto simp: pending_def)
  show ?thesis
  proof (cases "interned st (cs_text nm, None)")
    case (Some u)
    then obtain i m where u: "u \<in> set (selector_table st)" "sel_view st u = Some (i, m)" "normal m = (cs_text nm, None)"
      using interned_iff [OF inv] ut(3) by auto
    obtain ru where ru: "sels st u = Some ru" using inv_member [OF inv u(1)] by metis
    obtain n t where m: "m = (n, t)" by fastforce
    then have n: "n = cs_text nm" using u(3) by (simp add: normal_def)
    from view_lookup(1) [OF u(2) [unfolded m] len ru] obtain c where c: "sel_getNameNonUnique st ru = Some c" "cs_text c = n"
      by blast
    from upd_sel_pending [OF inv hp, of "\<lambda>x. x\<lparr>ss_uid := SelName (Some c)\<rparr>" c "Some ty"]
    obtain s1 where s1: "upd_sel h (\<lambda>x. x\<lparr>ss_uid := SelName (Some c)\<rparr>) st = Some s1" "sel_inv s1" "sel_kept st s1"
      "interned s1 = interned st" "selector_list s1 = selector_list st" "sel_rt s1 = sel_rt st"
      "pending s1 h c (Some ty)" by auto
    have "untyped_variant F st h nm = Some (s1, Some u)"
      using lookup Some ru c(1) s1(1) by (simp add: untyped_variant_def)
    then show ?thesis by (rule that [where nm' = c]) (use s1 c n Some k in simp_all)
  next
    case None
    obtain s1 res where p: "pool_allocate st = (s1, res)" by fastforce
    note a = pool_allocate_ok [OF p inv]
    show ?thesis
    proof (cases res)
      case nomem: None
      have "untyped_variant F st h nm = Some (s1, None)"
        using lookup None p nomem by (simp add: untyped_variant_def)
      moreover have "pending s1 h nm (Some ty)"
        using a(3) [OF nomem] a(1) a(4) hp by (auto simp: pending_def)
      ultimately show ?thesis using a k by (intro that [of s1 None nm]) auto
    next
      case (Some u)
      note u = a(2) [OF Some]
      obtain x where x: "sels s1 u = Some x" using u by blast
      from upd_sel_pending [of s1 u x "\<lambda>x. x\<lparr>ss_uid := SelName (Some nm), ss_types := None\<rparr>" nm None] a(1) u x
      obtain s2 where s2: "upd_sel u (\<lambda>x. x\<lparr>ss_uid := SelName (Some nm), ss_types := None\<rparr>) s1 = Some s2" "sel_inv s2"
        "sel_kept s1 s2" "interned s2 = interned st" "selector_table s2 = selector_table st"
        "selector_list s2 = selector_list st" "sel_rt s2 = sel_rt s1" "sel_brk s2 = sel_brk s1" "pending s2 u nm None"
        "\<forall>g. g \<noteq> u \<longrightarrow> sels s2 g = sels s1 g" by auto
      have len2: "length (selector_list s2) + 1 < 2 ^ 32" using room s2(6) by (simp add: sel_room_def)
      have none2: "interned s2 (key_text (nm, None)) = None" using None s2(4) ut by simp
      obtain s3 where s3: "add_selector_to_table F s2 u = Some s3" "sel_inv s3" "sel_kept s2 s3"
        "selector_table s3 = selector_table s2 @ [u]" "selector_list s3 = selector_list s2 @ [[nm]]"
        "sel_view s3 u = Some (length (selector_list s2), key_text (nm, None))" "sel_rt s3 = sel_rt s2"
        "sel_brk s3 = sel_brk s2" "\<forall>g. g \<noteq> u \<longrightarrow> sels s3 g = sels s2 g"
        using add_selector_ok [OF F s2(2) len2 s2(9) _ none2] ut by metis
      have "untyped_variant F st h nm = Some (s3, Some u)"
        using lookup None p Some s2(1) s3(1) by (simp add: untyped_variant_def)
      moreover have hu: "h \<noteq> u" using hp(2) u by simp
      moreover have "sel_kept st s3" using a(1) s2(3) s3(3) sel_kept_trans by blast
      moreover have "pending s3 h nm (Some ty)"
        using hp hu u s2 s3 a(4) by (simp add: pending_def)
      moreover have only: "interned st kk \<noteq> None \<or> normal kk = (cs_text nm, None)" if kk: "interned s3 kk \<noteq> None" for kk
      proof -
        from kk obtain g i m where g: "g \<in> set (selector_table s3)" "sel_view s3 g = Some (i, m)" "normal m = normal kk"
          using interned_iff [OF s3(2)] by blast
        show ?thesis
        proof (cases "g = u")
          case True
          then show ?thesis using g s3(6) ut by simp
        next
          case False
          then have "g \<in> set (selector_table s2)" "sel_view s2 g = Some (i, m)" using g s3(3,4) by (auto simp: sel_kept_def)
          then have "interned s2 kk = Some g" using interned_iff [OF s2(2)] g(3) by blast
          then show ?thesis using s2(4) by simp
        qed
      qed
      moreover have "interned s3 (key_text (nm, Some ty)) = None"
        using only [of "key_text (nm, Some ty)"] k(2)
        by (cases "interned s3 (key_text (nm, Some ty))") (auto simp: key_text_def normal_def)
      moreover have "interned s3 (cs_text nm, None) = Some u"
        using interned_iff [OF s3(2)] s3(4,6) ut by auto
      ultimately show ?thesis using s3(2) s3(5) s2 s3(7) a(1) a(4) by (intro that [of s3 "Some u" nm]) auto
    qed
  qed
qed

section \<open>Registration\<close>

text \<open>
  What registration of a key does: nothing that was registered changes, and at most the key and its
  untyped variant are new. When it succeeds with \<open>g\<close>, the key is interned as \<open>g\<close>, and typed keys are
  listed with their untyped variant.
\<close>

definition registered_as :: "sel_state \<Rightarrow> sel_state \<Rightarrow> sel_text \<Rightarrow> nat \<Rightarrow> bool" where
  "registered_as st st' k g \<longleftrightarrow>
     interned st' k = Some g \<and>
     (case snd k of None \<Rightarrow> True
      | Some t \<Rightarrow> interned st k = None \<longrightarrow>
          (\<exists>u i m ty. interned st' (fst k, None) = Some u \<and> sel_view st' u = Some (i, m) \<and>
             ty \<in> set (tl (selector_list st' ! i)) \<and> cs_text ty = t))"

definition registers :: "sel_state \<Rightarrow> sel_state \<Rightarrow> sel_text \<Rightarrow> bool" where
  "registers st st' k \<longleftrightarrow> sel_inv st' \<and> sel_kept st st' \<and>
     length (selector_list st') \<le> length (selector_list st) + 2 \<and>
     (\<forall>kk. interned st' kk \<noteq> None \<longrightarrow> interned st kk \<noteq> None \<or> normal kk = normal k \<or> normal kk = (fst k, None))"

lemma add_selector_interned:
  assumes "sel_inv st" "sel_inv st'" "sel_kept st st'" "selector_table st' = selector_table st @ [h]"
    "sel_view st' h = Some (i, m)"
  shows "interned st' m = Some h" and "interned st' kk \<noteq> None \<Longrightarrow> interned st kk \<noteq> None \<or> normal kk = normal m"
proof -
  have "h \<in> set (selector_table st')" using assms(4) by simp
  then show "interned st' m = Some h" using interned_iff [OF assms(2)] assms(5) by blast
  assume "interned st' kk \<noteq> None"
  then obtain g j n where g: "g \<in> set (selector_table st')" "sel_view st' g = Some (j, n)" "normal n = normal kk"
    using interned_iff [OF assms(2)] by blast
  show "interned st kk \<noteq> None \<or> normal kk = normal m"
  proof (cases "g = h")
    case True
    then show ?thesis using g assms(5) by simp
  next
    case False
    then have "g \<in> set (selector_table st)" "sel_view st g = Some (j, n)" using g assms(3,4) by (auto simp: sel_kept_def)
    then have "interned st kk = Some g" using interned_iff [OF assms(1)] g(3) by blast
    then show ?thesis by simp
  qed
qed

lemma register_untyped_ok:
  assumes F: "hash_set_search F" and inv: "sel_inv st" and room: "sel_room st"
    and h: "pending st h nm None" and none: "interned st (key_text (nm, None)) = None"
  shows "\<exists>st'. register_selector_locked F st h = Some (st', True) \<and> registers st st' (key_text (nm, None)) \<and>
    registered_as st st' (key_text (nm, None)) h"
proof -
  have len: "length (selector_list st) + 1 < 2 ^ 32" using room by (simp add: sel_room_def)
  have ex: "exact_key (key_text (nm, None))" by (simp add: exact_key_def key_text_def)
  obtain s1 where s1: "add_selector_to_table F st h = Some s1" "sel_inv s1" "sel_kept st s1"
    "selector_table s1 = selector_table st @ [h]" "selector_list s1 = selector_list st @ [[nm]]"
    "sel_view s1 h = Some (length (selector_list st), key_text (nm, None))" "sel_rt s1 = sel_rt st"
    using add_selector_ok [OF F inv len h ex none] by metis
  have rt1: "rt_part (sel_rt s1) = rt_part (sel_rt st)" using s1(7) by simp
  obtain s2 where s2: "resize_tables s1 = Some s2" "sel_inv s2" "sel_kept s1 s2" "interned s2 = interned s1"
    "selector_list s2 = selector_list s1" by (rule resize_tables_ok [OF room rt1 s1(2)])
  have "register_selector_locked F st h = Some (s2, True)"
    using h s1(1) s2(1) by (simp add: register_selector_locked_def pending_def)
  moreover note add_selector_interned [OF inv s1(2,3,4,6)]
  moreover have "sel_kept st s2" using s1(3) s2(3) by (rule sel_kept_trans)
  ultimately show ?thesis using s1(5) s2(2,4,5) unfolding registers_def registered_as_def by (auto simp: key_text_def)
qed

lemma register_typed_ok:
  assumes F: "hash_set_search F" and inv: "sel_inv st" and room: "sel_room st"
    and h: "pending st h nm (Some ty)" and k: "exact_key (key_text (nm, Some ty))"
    and none: "interned st (key_text (nm, Some ty)) = None"
  shows "\<exists>st' ok. register_selector_locked F st h = Some (st', ok) \<and> registers st st' (key_text (nm, Some ty)) \<and>
    (if ok then registered_as st st' (key_text (nm, Some ty)) h else selector_table st' = selector_table st)"
proof -
  let ?k = "key_text (nm, Some ty)"
  obtain s1 u nm' where s1: "untyped_variant F st h nm = Some (s1, u)" "sel_inv s1" "sel_kept st s1"
    "pending s1 h nm' (Some ty)" "cs_text nm' = cs_text nm" "interned s1 ?k = None"
    "u \<noteq> None \<longrightarrow> interned s1 (cs_text nm, None) = u"
    "\<forall>kk. interned s1 kk \<noteq> None \<longrightarrow> interned st kk \<noteq> None \<or> normal kk = (cs_text nm, None)"
    "length (selector_list s1) \<le> length (selector_list st) + 1" "rt_part (sel_rt s1) = rt_part (sel_rt st)"
    "u = None \<longrightarrow> selector_table s1 = selector_table st"
    by (rule untyped_variant_ok [OF F inv room h k none])
  have hr: "sels st h = Some \<lparr>ss_uid = SelName (Some nm), ss_types = Some ty\<rparr>" using h by (simp add: pending_def)
  have fk: "fst ?k = cs_text nm" "snd ?k = Some (cs_text ty)" by (simp_all add: key_text_def)
  show ?thesis
  proof (cases u)
    case None
    then have "register_selector_locked F st h = Some (s1, False)" using hr s1(1) by (simp add: register_selector_locked_def)
    moreover have "registers st s1 ?k" using s1(2,3,8,9) fk by (auto simp: registers_def)
    ultimately show ?thesis using s1(11) None by auto
  next
    case (Some v)
    have kt: "key_text (nm', Some ty) = ?k" using s1(5) by (simp add: key_text_def)
    have len1: "length (selector_list s1) + 1 < 2 ^ 32" using room s1(9) by (simp add: sel_room_def)
    obtain s2 where s2: "add_selector_to_table F s1 h = Some s2" "sel_inv s2" "sel_kept s1 s2"
      "selector_table s2 = selector_table s1 @ [h]" "selector_list s2 = selector_list s1 @ [[nm']]"
      "sel_view s2 h = Some (length (selector_list s1), ?k)" "sel_rt s2 = sel_rt s1"
      using add_selector_ok [OF F s1(2) len1 s1(4)] k s1(6) kt by metis
    let ?i = "length (selector_list s1)"
    have i: "index_of s2 h = Some ?i" using s2(6) fk by (cases ?k) (auto elim!: sel_view_Some simp: index_of_def)
    obtain s3 where s3: "add_types s2 ?i ty = Some s3" "sel_inv s3" "sel_kept s2 s3" "interned s3 = interned s2"
      "selector_table s3 = selector_table s2" "length (selector_list s3) = length (selector_list s2)"
      "sel_rt s3 = sel_rt s2" "sels s3 = sels s2" "\<forall>g. sel_view s3 g = sel_view s2 g"
      using add_types_ok [OF s2(2,6)] by metis
    have v1: "interned s1 (cs_text nm, None) = Some v" using s1(7) Some by simp
    then have v2: "interned s2 (cs_text nm, None) = Some v" by (rule interned_mono [OF s1(2) s2(2,3)])
    then obtain j m where vm: "v \<in> set (selector_table s2)" "sel_view s2 v = Some (j, m)"
      using interned_iff [OF s2(2)] by blast
    then have vv: "sel_view s3 v = Some (j, m)" using s3(9) by simp
    have j: "index_of s3 v = Some j" using vv by (cases m) (auto elim!: sel_view_Some simp: index_of_def)
    obtain s4 where s4: "add_types s3 j ty = Some s4" "sel_inv s4" "sel_kept s3 s4" "interned s4 = interned s3"
      "selector_table s4 = selector_table s3" "length (selector_list s4) = length (selector_list s3)"
      "sel_rt s4 = sel_rt s3" "ty \<in> set (tl (selector_list s4 ! j))" "\<forall>g. sel_view s4 g = sel_view s3 g"
      using add_types_ok [OF s3(2) vv] by metis
    have rt4: "rt_part (sel_rt s4) = rt_part (sel_rt st)" using s1(10) s2(7) s3(7) s4(7) by simp
    obtain s5 where s5: "resize_tables s4 = Some s5" "sel_inv s5" "sel_kept s4 s5" "interned s5 = interned s4"
      "selector_list s5 = selector_list s4" "\<forall>g. sel_view s5 g = sel_view s4 g"
      by (rule resize_tables_ok [OF room rt4 s4(2)])
    have run: "register_selector_locked F st h = Some (s5, True)"
      using hr s1(1) Some s2(1) i s3(1) j s4(1) s5(1) by (simp add: register_selector_locked_def)
    have int5: "interned s5 = interned s2" using s3(4) s4(4) s5(4) by simp
    note new = add_selector_interned [OF s1(2) s2(2,3,4,6)]
    have "registers st s5 ?k" unfolding registers_def
    proof (intro conjI allI impI)
      show "sel_inv s5" by fact
      show "length (selector_list s5) \<le> length (selector_list st) + 2" using s1(9) s2(5) s3(6) s4(6) s5(5) by simp
      show "sel_kept st s5" using s1(3) s2(3) s3(3) s4(3) s5(3) sel_kept_trans by blast
      show "interned st kk \<noteq> None \<or> normal kk = normal ?k \<or> normal kk = (fst ?k, None)" if "interned s5 kk \<noteq> None" for kk
        using new(2) [of kk] s1(8) that int5 fk by metis
    qed
    moreover have "registered_as st s5 ?k h"
      using new(1) v2 vv s4(8,9) s5(5,6) int5 fk unfolding registered_as_def by auto
    ultimately show ?thesis using run by auto
  qed
qed

text \<open>The strings that a copied selector gets have the text of the key.\<close>

lemma copy_selector_args_ok:
  assumes F: "hash_set_search F" and inv: "sel_inv st" and len: "length (selector_list st) < 2 ^ 32"
  obtains s args where "copy_selector_args F addr st key = Some (s, args)" "sel_inv s" "sel_kept st s"
    "interned s = interned st" "selector_table s = selector_table st" "selector_list s = selector_list st"
    "sels s = sels st" "sel_brk s = sel_brk st" "rt_part (sel_rt s) = rt_part (sel_rt st)"
    "\<forall>nm ty a b. args = Some (nm, ty, a, b) \<longrightarrow> key_text (nm, ty) = key_text key"
proof -
  have frame: "sel_inv s \<and> sel_kept st s \<and> interned s = interned st"
    if "selector_table s = selector_table st" "selector_list s = selector_list st" "sels s = sels st" "sel_brk s = sel_brk st" for s
  proof -
    have "sel_view s h = sel_view st h" for h by (rule view_cong) (simp_all add: that)
    with sel_inv_same [OF inv that(1)] that(4) show ?thesis by simp
  qed
  have dup: "selector_table s = selector_table a \<and> selector_list s = selector_list a \<and> sels s = sels a \<and>
      sel_brk s = sel_brk a \<and> rt_part (sel_rt s) = rt_part (sel_rt a) \<and> (\<forall>d. c = Some d \<longrightarrow> cs_text d = cs_text x)"
    if "objc2_strdup addr a x = (s, c)" for a x s c
    using that by (auto simp: objc2_strdup_def sel_alloc_def rt_alloc_def rt_part_def split: prod.splits if_splits)
  have lookup: "selector_lookup F st (fst key, None) = interned st (cs_text (fst key), None)"
    unfolding selector_lookup_def using search_interned [OF F inv len, of "(fst key, None)"]
    by (simp add: key_text_def exact_key_def)
  have name: "\<exists>ru c. sels st u = Some ru \<and> (case selLookup st (uid_value (ss_uid ru)) of
        None \<Rightarrow> Some empty_cstring | Some l \<Rightarrow> list_front l) = Some c \<and> cs_text c = cs_text (fst key)"
    if u: "interned st (cs_text (fst key), None) = Some u" for u
  proof -
    from u obtain i m where m: "u \<in> set (selector_table st)" "sel_view st u = Some (i, m)"
        "normal m = normal (cs_text (fst key), None)" using interned_iff [OF inv] by blast
    obtain n t where nt: "m = (n, t)" by fastforce
    then have n: "n = cs_text (fst key)" using m(3) by (simp add: normal_def)
    from m(2) [unfolded nt] obtain ru c rest where "sels st u = Some ru" "ss_uid ru = SelIndex i"
      "i < length (selector_list st)" "selector_list st ! i = c # rest" "cs_text c = n" by (rule sel_view_Some)
    then show ?thesis using n len by (intro exI [of _ ru] exI [of _ c]) (simp add: selLookup_def Let_def list_front_def)
  qed
  have "\<exists>s args. copy_selector_args F addr st key = Some (s, args) \<and> selector_table s = selector_table st \<and>
      selector_list s = selector_list st \<and> sels s = sels st \<and> sel_brk s = sel_brk st \<and>
      rt_part (sel_rt s) = rt_part (sel_rt st) \<and>
      (\<forall>nm ty a b. args = Some (nm, ty, a, b) \<longrightarrow> key_text (nm, ty) = key_text key)"
  proof (cases "interned st (cs_text (fst key), None)")
    case (Some u)
    from name [OF Some] obtain ru c where c: "sels st u = Some ru" "cs_text c = cs_text (fst key)"
      "(case selLookup st (uid_value (ss_uid ru)) of None \<Rightarrow> Some empty_cstring | Some l \<Rightarrow> list_front l) = Some c" by blast
    then show ?thesis unfolding copy_selector_args_def
      by (simp add: lookup Some) (auto simp: key_text_def split: option.splits prod.splits dest!: dup)
  next
    case None
    then show ?thesis unfolding copy_selector_args_def
      by (simp add: lookup) (auto simp: key_text_def split: option.splits prod.splits dest!: dup)
  qed
  then show ?thesis using frame that by metis
qed

lemma selector_args_ok:
  assumes F: "hash_set_search F" and inv: "sel_inv st" and len: "length (selector_list st) < 2 ^ 32"
  obtains s args where "(if copyArgs then copy_selector_args F addr st key
      else Some (st, Some (fst key, snd key, False, False))) = Some (s, args)" "sel_inv s" "sel_kept st s"
    "interned s = interned st" "selector_table s = selector_table st" "selector_list s = selector_list st"
    "sels s = sels st" "sel_brk s = sel_brk st" "rt_part (sel_rt s) = rt_part (sel_rt st)"
    "\<forall>nm ty a b. args = Some (nm, ty, a, b) \<longrightarrow> key_text (nm, ty) = key_text key"
proof (cases copyArgs)
  case True
  obtain s args where o: "copy_selector_args F addr st key = Some (s, args)" "sel_inv s" "sel_kept st s"
    "interned s = interned st" "selector_table s = selector_table st" "selector_list s = selector_list st"
    "sels s = sels st" "sel_brk s = sel_brk st" "rt_part (sel_rt s) = rt_part (sel_rt st)"
    "\<forall>nm ty a b. args = Some (nm, ty, a, b) \<longrightarrow> key_text (nm, ty) = key_text key"
    by (rule copy_selector_args_ok [OF F inv len, of addr key])
  have "(if copyArgs then copy_selector_args F addr st key
      else Some (st, Some (fst key, snd key, False, False))) = Some (s, args)" using o(1) True by simp
  then show ?thesis by (rule that [OF _ o(2-10)])
next
  case False
  then show ?thesis using inv by (intro that [of st "Some (fst key, snd key, False, False)"]) auto
qed

lemma register_locked_ok:
  assumes F: "hash_set_search F" and inv: "sel_inv st" and room: "sel_room st"
    and h: "pending st h nm ty" and k: "exact_key (key_text (nm, ty))" "interned st (key_text (nm, ty)) = None"
  shows "\<exists>st' ok. register_selector_locked F st h = Some (st', ok) \<and> registers st st' (key_text (nm, ty)) \<and>
    (if ok then registered_as st st' (key_text (nm, ty)) h else selector_table st' = selector_table st)"
proof (cases ty)
  case None
  from register_untyped_ok [OF F inv room h [unfolded None] k(2) [unfolded None]] obtain st' where
    "register_selector_locked F st h = Some (st', True)" "registers st st' (key_text (nm, ty))"
    "registered_as st st' (key_text (nm, ty)) h" unfolding None by blast
  then show ?thesis by (intro exI [of _ st'] exI [of _ True]) simp
next
  case (Some t)
  then show ?thesis using register_typed_ok [OF F inv room] h k by blast
qed

text \<open>Steps before the registration that change no member of the table.\<close>

lemma registers_after:
  assumes "sel_kept st s" "interned s = interned st" "selector_list s = selector_list st" "registers s st' k"
  shows "registers st st' k"
  using assms unfolding registers_def by (auto intro: sel_kept_trans)

lemma registered_as_after:
  "interned s = interned st \<Longrightarrow> registered_as s st' k g \<Longrightarrow> registered_as st st' k g"
  unfolding registered_as_def by (simp split: option.splits)

lemma lookup_identical_interned:
  assumes F: "hash_set_search F" and inv: "sel_inv st" and len: "length (selector_list st) < 2 ^ 32"
    and k: "exact_key (key_text key)"
  shows "lookup_identical F st key = Some (interned st (key_text key))"
proof -
  note s = search_interned [OF F inv len k]
  show ?thesis
  proof (cases "interned st (key_text key)")
    case (Some g)
    then obtain r where r: "sels st g = Some r" "SelectorEqual st key r = Some True"
      using F s unfolding hash_set_search_def by metis
    then show ?thesis using s Some by (simp add: lookup_identical_def selector_lookup_def selector_identical_def)
  qed (use s in \<open>simp add: lookup_identical_def selector_lookup_def\<close>)
qed

text \<open>A registered key: the selector has its name and equal types, and is found again.\<close>

lemma registered_reads:
  assumes F: "hash_set_search F" and inv: "sel_inv st'" and len: "length (selector_list st') < 2 ^ 32"
    and k: "exact_key (key_text key)" and g: "interned st' (key_text key) = Some g"
  shows "sel_getName_np st' (Some g) = Some (cs_text (fst key))"
    and "\<exists>ty. sel_getType_np st' (Some g) = Some ty \<and> selector_types_equal (map_option cs_text (snd key)) (map_option cs_text ty)"
    and "objc_register_selector_copy F addr st' key copyArgs = Some (st', Some g)"
proof -
  from g obtain i m where m: "g \<in> set (selector_table st')" "sel_view st' g = Some (i, m)" "normal m = normal (key_text key)"
    using interned_iff [OF inv] by blast
  obtain n t where nt: "m = (n, t)" by fastforce
  have em: "exact_key m" using inv_member [OF inv m(1)] m(2) by (metis option.inject prod.inject)
  from m(2) [unfolded nt] obtain r c rest where r: "sels st' g = Some r" "ss_uid r = SelIndex i" "types_text r = t"
    "i < length (selector_list st')" "selector_list st' ! i = c # rest" "cs_text c = n" by (rule sel_view_Some)
  have eq: "cs_text (fst key) = n" "selector_types_equal (map_option cs_text (snd key)) t"
    using normal_equal [OF k em] m(3) nt by (simp_all add: key_text_def)
  show "sel_getName_np st' (Some g) = Some (cs_text (fst key))"
    using r eq(1) len by (simp add: sel_getName_np_def selLookup_def Let_def list_front_def)
  show "\<exists>ty. sel_getType_np st' (Some g) = Some ty \<and> selector_types_equal (map_option cs_text (snd key)) (map_option cs_text ty)"
    using r(1,3) eq(2) by (simp add: sel_getType_np_def types_text_def)
  show "objc_register_selector_copy F addr st' key copyArgs = Some (st', Some g)"
    using lookup_identical_interned [OF F inv len k] g by (simp add: objc_register_selector_copy_def)
qed

lemma forget_copies_ok:
  assumes "registers st s k"
  shows "registers st (forget_copies nm ty oN oT s) k \<and> selector_table (forget_copies nm ty oN oT s) = selector_table s"
proof -
  let ?st = "forget_copies nm ty oN oT s"
  have fields: "selector_table ?st = selector_table s" "selector_list ?st = selector_list s"
      "sels ?st = sels s" "sel_brk ?st = sel_brk s"
    by (auto simp: forget_copies_def Let_def split: option.splits)
  have "sel_view ?st g = sel_view s g" for g by (rule view_cong) (simp_all add: fields)
  moreover have "sel_inv s" using assms by (simp add: registers_def)
  ultimately have "sel_inv ?st" "sel_kept s ?st" "interned ?st = interned s"
    using sel_inv_same [of s ?st] fields by simp_all
  then show ?thesis using assms fields sel_kept_trans unfolding registers_def by simp blast
qed

text \<open>The outcome of a registration.\<close>

definition interning ::
  "sel_search \<Rightarrow> sel_state \<Rightarrow> sel_state \<Rightarrow> sel_key \<Rightarrow> nat option \<Rightarrow> bool" where
  "interning F st st' key res \<longleftrightarrow>
     registers st st' (key_text key) \<and>
     (case res of
        None \<Rightarrow> selector_table st' = selector_table st
      | Some g \<Rightarrow>
          registered_as st st' (key_text key) g \<and> sel_getName_np st' (Some g) = Some (cs_text (fst key)) \<and>
          (\<exists>ty. sel_getType_np st' (Some g) = Some ty \<and>
             selector_types_equal (map_option cs_text (snd key)) (map_option cs_text ty)) \<and>
          (\<forall>addr copyArgs. objc_register_selector_copy F addr st' key copyArgs = Some (st', Some g)))"

lemma interning_intro:
  assumes F: "hash_set_search F" and room: "sel_room st" and k: "exact_key (key_text key)"
    and r: "registers st st' (key_text key)"
    and g: "case res of None \<Rightarrow> selector_table st' = selector_table st | Some g \<Rightarrow> registered_as st st' (key_text key) g"
  shows "interning F st st' key res"
proof (cases res)
  case None
  then show ?thesis using r g by (simp add: interning_def)
next
  case (Some h)
  have "sel_inv st'" "length (selector_list st') < 2 ^ 32" using r room by (auto simp: registers_def sel_room_def)
  moreover have "interned st' (key_text key) = Some h" using g Some by (simp add: registered_as_def)
  ultimately show ?thesis using registered_reads [OF F _ _ k] r g Some by (simp add: interning_def)
qed

text \<open>
  The copy is filled in and linked: the step of \<open>objc_register_selector_copy\<close> after the strings
  have been copied, on the state \<open>s2\<close> that agrees with the initial one on the table.
\<close>

lemma link_copy:
  assumes F: "hash_set_search F" and room: "sel_room st" and k: "exact_key (key_text key)"
    and none: "interned st (key_text key) = None" and kt: "key_text (nm, ty) = key_text key"
    and s2: "sel_inv s2" "sel_kept st s2" "interned s2 = interned st" "selector_list s2 = selector_list st"
      "selector_table s2 = selector_table st" "rt_part (sel_rt s2) = rt_part (sel_rt st)"
    and h: "h \<notin> set (selector_table s2)" "h < sel_brk s2" "sels s2 h \<noteq> None"
  shows "\<exists>s3 s4 ok. upd_sel h (\<lambda>x. x\<lparr>ss_uid := SelName (Some nm), ss_types := ty\<rparr>) s2 = Some s3 \<and>
    register_selector_locked F s3 h = Some (s4, ok) \<and>
    (if ok then interning F st s4 key (Some h) else interning F st (forget_copies nm ty oN oT s4) key None)"
proof -
  obtain x where x: "sels s2 h = Some x" using h(3) by auto
  from upd_sel_pending [OF s2(1) h(1,2) x, of "\<lambda>x. x\<lparr>ss_uid := SelName (Some nm), ss_types := ty\<rparr>" nm ty]
  obtain s3 where s3: "upd_sel h (\<lambda>x. x\<lparr>ss_uid := SelName (Some nm), ss_types := ty\<rparr>) s2 = Some s3" "sel_inv s3"
    "sel_kept s2 s3" "interned s3 = interned s2" "selector_table s3 = selector_table s2"
    "selector_list s3 = selector_list s2" "sel_rt s3 = sel_rt s2" "pending s3 h nm ty" by auto
  have room3: "sel_room s3" using room s2(4,6) s3(6,7) by (simp add: sel_room_def)
  have none3: "interned s3 (key_text key) = None" using none s2(3) s3(4) by simp
  obtain s4 ok where s4: "register_selector_locked F s3 h = Some (s4, ok)" "registers s3 s4 (key_text key)"
    "if ok then registered_as s3 s4 (key_text key) h else selector_table s4 = selector_table s3"
    using register_locked_ok [OF F s3(2) room3 s3(8), unfolded kt, OF k none3] by blast
  have r4: "registers st s4 (key_text key)"
    using registers_after [OF sel_kept_trans [OF s2(2) s3(3)] _ _ s4(2)] s2 s3(4,6) by simp
  have "if ok then interning F st s4 key (Some h) else interning F st (forget_copies nm ty oN oT s4) key None"
  proof (cases ok)
    case True
    have "registered_as st s4 (key_text key) h"
      using registered_as_after [of s3 st] s2(3) s3(4) s4(3) True by simp
    then show ?thesis using interning_intro [OF F room k r4, of "Some h"] True by simp
  next
    case False
    then show ?thesis using forget_copies_ok [OF r4] s4(3) s3(5) s2(5) by (simp add: interning_def)
  qed
  with s3(1) s4(1) show ?thesis by blast
qed


section \<open>A concrete search and table\<close>

text \<open>The first member that compares equal.\<close>

definition linear_search :: sel_search where
  "linear_search st key =
     find (\<lambda>h. case sels st h of Some r \<Rightarrow> SelectorEqual st key r = Some True | None \<Rightarrow> False) (selector_table st)"

lemma linear_search_ok: "hash_set_search linear_search"
proof -
  have "linear_search st key \<noteq> None" if "g \<in> set (selector_table st)" "sels st g = Some r" "SelectorEqual st key r = Some True"
    for st key g r
  proof
    assume "linear_search st key = None"
    then have "\<forall>h\<in>set (selector_table st).
        \<not> (case sels st h of Some r \<Rightarrow> SelectorEqual st key r = Some True | None \<Rightarrow> False)"
      by (simp add: linear_search_def find_None_iff)
    with that show False by fastforce
  qed
  then show ?thesis
    by (auto simp: hash_set_search_def linear_search_def find_Some_iff split: option.splits)
qed

text \<open>The state at start-up.\<close>

definition boot_rt :: rt_state where
  "boot_rt = boot_state (\<lambda>n t. Some \<lparr>sel_name = n, sel_type = t\<rparr>) (\<lambda>_. 0)"

definition boot_selectors :: sel_state where
  "boot_selectors = init_selector_tables
     \<lparr>sels = (\<lambda>_. None), sel_brk = 0, pool_index = ObjectsPerChunk, selector_list = [], selector_table = [],
      selector_name_copies = 0,
      sel_rt = boot_rt\<rparr>"

definition boot_key :: sel_key where
  "boot_key = (\<lparr>cs_addr = 70000, cs_text = ''foo''\<rparr>, Some \<lparr>cs_addr = 70100, cs_text = ''v16@0:8''\<rparr>)"

lemma boot_expand:
  "\<forall>d\<in>{16, 24, 32}. (case SparseArrayExpandingArray (dtables boot_rt) (Some (Node 0)) d of
     Some (_, Some _) \<Rightarrow> True | _ \<Rightarrow> False)"
  by code_simp

lemma boot_deref: "sa_deref (dtables boot_rt) (Node 0) \<noteq> None"
  by code_simp

lemma boot_resize:
  assumes "rt_part r = rt_part boot_rt"
  shows "objc_resize_dtables r n \<noteq> None"
proof (cases "ucast n \<le> dtable_capacity 8")
  note eq = arg_cong [OF assms]
  have f: "dtables r = dtables boot_rt" "dtable_depth r = 8" "uninstalled_dtable r = Node 0"
    "temporary_dtables r = []" "class_table r = []"
    using eq [of dtables] eq [of dtable_depth] eq [of uninstalled_dtable] eq [of temporary_dtables] eq [of class_table]
    by (simp_all add: rt_part_def boot_rt_def boot_state_def)
  {
    case True
    then show ?thesis using f(2) by (simp add: objc_resize_dtables_def)
  next
    case False
    have "grow_depth 8 n \<in> {16, 24, 32}" using False
      by (simp add: grow_depth.simps [of 8 n] grow_depth.simps [of 16 n] grow_depth.simps [of 24 n]
          grow_depth.simps [of 32 n] not_le)
    with boot_expand have "case SparseArrayExpandingArray (dtables boot_rt) (Some (Node 0)) (grow_depth 8 n) of
        Some (_, Some _) \<Rightarrow> True | _ \<Rightarrow> False" by (rule bspec)
    then obtain h p where "SparseArrayExpandingArray (dtables boot_rt) (Some (Node 0)) (grow_depth 8 n) = Some (h, Some p)"
      by (auto split: option.splits simp del: SparseArrayExpandingArray.simps)
    moreover obtain u where "sa_deref (dtables boot_rt) (Node 0) = Some u" using boot_deref by blast
    ultimately show ?thesis using False f
      by (simp add: objc_resize_dtables_def dtable_depth_for_size_def expand_dtable_or_abort_def Let_def
          del: SparseArrayExpandingArray.simps sa_deref.simps)
  }
qed

lemma boot_selectors_ok: "sel_inv boot_selectors" "sel_room boot_selectors"
  using boot_resize by (auto simp: sel_inv_def sel_room_def boot_selectors_def init_selector_tables_def)

lemma boot_key_ok: "exact_key (key_text boot_key)" "types_admissible (snd boot_key)"
  by code_simp+


section \<open>Types that are not compared exactly\<close>

text \<open>
  C34: on types that end in an offset and do not use the shorthand for strings, the comparison of
  selector types is equality of the characters that are neither qualifiers nor offsets, and equal
  types have equal hashes. In general it is neither transitive nor consistent with the hash: types
  without offsets are compared only up to the end of the shorter string, and the shorthand for
  strings is equal to both encodings of a pointer to characters, which differ from each other.
\<close>

theorem selector_types_comparison:
  "(\<forall>a b n. exact_types a \<and> exact_types b \<longrightarrow>
      selector_types_equal (Some a) (Some b) = (relevant_types a = relevant_types b) \<and>
      (selector_types_equal (Some a) (Some b) \<longrightarrow> selector_hash n (Some a) = selector_hash n (Some b))) \<and>
   selector_types_equal (Some ''v'') (Some ''vi'') \<and> selector_types_equal (Some ''v'') (Some ''v@'') \<and>
   \<not> selector_types_equal (Some ''vi'') (Some ''v@'') \<and>
   selector_hash ''f'' (Some ''v'') \<noteq> selector_hash ''f'' (Some ''vi'') \<and>
   selector_types_equal (Some ''*8'') (Some ''^C8'') \<and> selector_types_equal (Some ''*8'') (Some ''^c8'') \<and>
   \<not> selector_types_equal (Some ''^C8'') (Some ''^c8'')"
proof (intro conjI allI impI)
  fix a b n
  assume e: "exact_types a \<and> exact_types b"
  then show eq: "selector_types_equal (Some a) (Some b) = (relevant_types a = relevant_types b)"
    by (simp add: types_equal_exact)
  assume "selector_types_equal (Some a) (Some b)"
  then have "normal (n, Some a) = normal (n, Some b)" using eq by (simp add: normal_def)
  from normal_hash [OF this] show "selector_hash n (Some a) = selector_hash n (Some b)" by simp
next
  show "selector_types_equal (Some ''v'') (Some ''vi'')" "selector_types_equal (Some ''v'') (Some ''v@'')"
    "\<not> selector_types_equal (Some ''vi'') (Some ''v@'')" "selector_hash ''f'' (Some ''v'') \<noteq> selector_hash ''f'' (Some ''vi'')"
    "selector_types_equal (Some ''*8'') (Some ''^C8'')" "selector_types_equal (Some ''*8'') (Some ''^c8'')"
    "\<not> selector_types_equal (Some ''^C8'') (Some ''^c8'')"
    by code_simp+
qed

theorem selector_types_comparison_witness:
  "selector_types_equal (Some ''v16@0:8'') (Some ''v24@0:8'') \<and>
   selector_hash ''f'' (Some ''v16@0:8'') = selector_hash ''f'' (Some ''v24@0:8'')"
proof -
  have "exact_types ''v16@0:8''" "exact_types ''v24@0:8''" "relevant_types ''v16@0:8'' = relevant_types ''v24@0:8''"
    by code_simp+
  with selector_types_comparison show ?thesis by blast
qed

end
