(* ===== verification/Objc_Hash_Table.thy ===== *)
theory Objc_Hash_Table
  imports Objc_Allocation
begin

text \<open>
  The hopscotch hash table of \<open>src/internal/support/hash_table.h\<close> and the string hash of
  \<open>src/internal/support/string_hash.h\<close>. The header is a template: the comparison of a key with a
  value and the hashes of keys and values are the macros of the including file (here the record
  \<open>table_ops\<close>), the value type is a type variable and a cell that holds the placeholder holds
  \<open>None\<close>. Handing a placeholder to the comparison or to the hash of values, which the class and the
  protocol table would dereference, is the result \<open>None\<close> of an operation; so is every access to
  freed or missing memory.

  The table carries the outcome of every allocation attempt and counts the messages that a failing
  insertion writes to \<open>stderr\<close>. An old table is kept, during a resize, as its size and array; the
  chain of old tables is a list. A position is an index into the array; \<open>hash % table_size\<close> is
  \<open>table_slot\<close>. The lock of a table is recursive and held by each operation.
\<close>

unbundle bit_operations_syntax

section \<open>Data\<close>

record ('k, 'v) table_ops =
  COMPARE_FUNCTION :: "'k \<Rightarrow> 'v \<Rightarrow> bool"
  HASH_KEY :: "'k \<Rightarrow> uint32"
  HASH_VALUE :: "'v \<Rightarrow> uint32"

record 'v table_cell =
  secondMaps :: uint32
  cell_value :: "'v option"

record 'v hash_table =
  table_size :: uint32
  table_used :: uint32
  enumerator_count :: uint32
  old_tables :: "(uint32 \<times> 'v table_cell list) list"
  table_cells :: "'v table_cell list"
  ht_calloc_fails :: "nat \<Rightarrow> bool"
  ht_attempts :: nat
  ht_messages :: nat

definition null_cell :: "'v table_cell" where
  "null_cell = \<lparr>secondMaps = 0, cell_value = None\<rparr>"

text \<open>\<open>__builtin_ffs\<close>: one plus the index of the least significant set bit, zero without one.\<close>

definition ffs :: "uint32 \<Rightarrow> nat" where
  "ffs w = (case find (bit w) [0..<32] of None \<Rightarrow> 0 | Some n \<Rightarrow> Suc n)"

text \<open>The bit of a displacement.\<close>

abbreviation hop_bit :: "nat \<Rightarrow> uint32" where
  "hop_bit hop \<equiv> push_bit (hop - 1) 1"

section \<open>Strings\<close>

primrec string_hash_from :: "uint32 \<Rightarrow> string \<Rightarrow> uint32" where
  "string_hash_from hash [] = hash"
| "string_hash_from hash (c # str) =
     string_hash_from (signed (of_char c :: 8 word) + push_bit 6 hash + push_bit 16 hash - hash) str"

definition string_hash :: "string \<Rightarrow> uint32" where
  "string_hash str = string_hash_from 0 str"

text \<open>Equal pointers are equal strings, so only the nullness of a pointer matters besides the text.\<close>

definition string_compare :: "string option \<Rightarrow> string option \<Rightarrow> bool" where
  "string_compare str1 str2 =
     (case (str1, str2) of (None, None) \<Rightarrow> True | (Some a, Some b) \<Rightarrow> a = b | _ \<Rightarrow> False)"

section \<open>The tables of the runtime\<close>

text \<open>
  The parameters of the including files. An implementation pointer is an address; the name of a
  class or a protocol is read from its structure by \<open>name\<close>; a remapping and an alias are the pairs the
  tables store by value.
\<close>

definition imp_hash :: "uintptr_t \<Rightarrow> uint32" where
  "imp_hash imp = ucast (drop_bit 4 imp)"

definition load_messages_ops :: "(uintptr_t, uintptr_t) table_ops" where
  "load_messages_ops = \<lparr>COMPARE_FUNCTION = (=), HASH_KEY = imp_hash, HASH_VALUE = imp_hash\<rparr>"

definition class_table_ops :: "('c \<Rightarrow> string) \<Rightarrow> (string, 'c) table_ops" where
  "class_table_ops name =
     \<lparr>COMPARE_FUNCTION = (\<lambda>n cls. string_compare (Some n) (Some (name cls))), HASH_KEY = string_hash,
      HASH_VALUE = (\<lambda>cls. string_hash (name cls))\<rparr>"

definition protocol_table_ops :: "('p \<Rightarrow> string) \<Rightarrow> (string, 'p) table_ops" where
  "protocol_table_ops name =
     \<lparr>COMPARE_FUNCTION = (\<lambda>n protocol. string_compare (Some n) (Some (name protocol))), HASH_KEY = string_hash,
      HASH_VALUE = (\<lambda>protocol. string_hash (name protocol))\<rparr>"

definition remap_pointer_hash :: "uintptr_t \<Rightarrow> uint32" where
  "remap_pointer_hash value =
     (let x = value XOR drop_bit 17 value; y = x * 0xed5ad4bb; z = y XOR drop_bit 11 y in ucast z)"

definition remapped_class_ops :: "(uintptr_t, uintptr_t \<times> uintptr_t) table_ops" where
  "remapped_class_ops =
     \<lparr>COMPARE_FUNCTION = (\<lambda>key value. key = fst value), HASH_KEY = remap_pointer_hash,
      HASH_VALUE = (\<lambda>value. remap_pointer_hash (fst value))\<rparr>"

definition alias_table_ops :: "(string, string \<times> 'c) table_ops" where
  "alias_table_ops =
     \<lparr>COMPARE_FUNCTION = (\<lambda>n alias. string_compare (Some n) (Some (fst alias))), HASH_KEY = string_hash,
      HASH_VALUE = (\<lambda>alias. string_hash (fst alias))\<rparr>"

section \<open>Creation\<close>

definition ht_calloc :: "'v hash_table \<Rightarrow> 'v hash_table \<times> bool" where
  "ht_calloc t = (t\<lparr>ht_attempts := Suc (ht_attempts t)\<rparr>, \<not> ht_calloc_fails t (ht_attempts t))"

definition alloc_cells :: "size_t \<Rightarrow> 'v hash_table \<Rightarrow> uint32 \<Rightarrow> 'v hash_table \<times> 'v table_cell list option" where
  "alloc_cells cell_bytes t count =
     (if objc2_size_multiply True (ucast count) cell_bytes = None then (t, None)
      else let (t1, ok) = ht_calloc t in
        (t1, if ok then Some (replicate (unat count) null_cell) else None))"

text \<open>The zeroed structure \<open>CALLOC\<close> returns, with the memory it is allocated from.\<close>

definition zero_table :: "(nat \<Rightarrow> bool) \<Rightarrow> nat \<Rightarrow> 'v hash_table" where
  "zero_table fails attempts =
     \<lparr>table_size = 0, table_used = 0, enumerator_count = 0, old_tables = [], table_cells = [],
      ht_calloc_fails = fails, ht_attempts = attempts, ht_messages = 0\<rparr>"

definition table_create :: "size_t \<Rightarrow> (nat \<Rightarrow> bool) \<Rightarrow> nat \<Rightarrow> uint32 \<Rightarrow> 'v hash_table option" where
  "table_create cell_bytes fails attempts capacity =
     (if capacity = 0 then None
      else let (t, ok) = ht_calloc (zero_table fails attempts) in
        if \<not> ok then None
        else let (t1, cells) = alloc_cells cell_bytes t capacity in
          case cells of
            None \<Rightarrow> None
          | Some a \<Rightarrow> Some (t1\<lparr>table_cells := a, table_size := capacity\<rparr>))"

section \<open>Resizing\<close>

text \<open>The insertion is the argument: the two functions are mutually recursive.\<close>

definition table_resize ::
  "('v hash_table \<Rightarrow> 'v \<Rightarrow> ('v hash_table \<times> bool) option) \<Rightarrow> size_t \<Rightarrow> 'v hash_table \<Rightarrow> ('v hash_table \<times> bool) option" where
  "table_resize ins cell_bytes t =
     (if table_size t = 0 \<or> UINT32_MAX div 2 < table_size t then Some (t, False)
      else
        (let newSize = table_size t * 2; (t1, newArray) = alloc_cells cell_bytes t newSize in
         case newArray of
           None \<Rightarrow> Some (t1, False)
         | Some a \<Rightarrow>
             (let (t2, ok) = ht_calloc t1 in
              if \<not> ok then Some (t2, False)
              else
                (let copy = table_cells t2;
                     t3 = t2\<lparr>old_tables := (table_size t2, copy) # old_tables t2, table_cells := a,
                             table_size := newSize, table_used := 0\<rparr> in
                 do {
                   t4 \<leftarrow> foldM (\<lambda>s c. case cell_value c of
                            None \<Rightarrow> Some s
                          | Some value \<Rightarrow> map_option fst (ins s value)) t3 copy;
                   Some (t4\<lparr>old_tables := []\<rparr>, True)
                 }))))"

section \<open>Insertion\<close>

definition slot_of :: "uint32 \<Rightarrow> uint32 \<Rightarrow> nat" where
  "slot_of n hash = unat (hash mod n)"

abbreviation table_lookup :: "'v hash_table \<Rightarrow> uint32 \<Rightarrow> nat" where
  "table_lookup t hash \<equiv> slot_of (table_size t) hash"

abbreviation value_at :: "'v hash_table \<Rightarrow> nat \<Rightarrow> 'v option" where
  "value_at t p \<equiv> cell_value (table_cells t ! p)"

abbreviation maps_at :: "'v hash_table \<Rightarrow> nat \<Rightarrow> uint32" where
  "maps_at t p \<equiv> secondMaps (table_cells t ! p)"

definition set_value :: "nat \<Rightarrow> 'v option \<Rightarrow> 'v hash_table \<Rightarrow> 'v hash_table" where
  "set_value p v t = t\<lparr>table_cells := (table_cells t)[p := (table_cells t ! p)\<lparr>cell_value := v\<rparr>]\<rparr>"

definition set_maps :: "nat \<Rightarrow> uint32 \<Rightarrow> 'v hash_table \<Rightarrow> 'v hash_table" where
  "set_maps p w t = t\<lparr>table_cells := (table_cells t)[p := (table_cells t ! p)\<lparr>secondMaps := w\<rparr>]\<rparr>"

text \<open>The window of \<open>_table_move_gap\<close>, empty when \<open>fromHash - 32\<close> wraps around.\<close>

definition gap_window :: "uint32 \<Rightarrow> uint32 list" where
  "gap_window fromHash =
     (if fromHash - 32 < fromHash then map (\<lambda>i. fromHash - 32 + of_nat i) [0..<32] else [])"

text \<open>
  What one iteration of its loop finds: nothing (\<open>None\<close>), a primary entry (hop 0) or an entry
  displaced by a hop that lies before the gap.
\<close>

definition gap_move :: "('k, 'v) table_ops \<Rightarrow> 'v hash_table \<Rightarrow> uint32 \<Rightarrow> uint32 \<Rightarrow> (uint32 \<times> nat) option option" where
  "gap_move ops t fromHash hash =
     (case value_at t (table_lookup t hash) of
        None \<Rightarrow> None
      | Some v \<Rightarrow> Some
          (if HASH_VALUE ops v = hash then Some (hash, 0)
           else let hop = ffs (maps_at t (table_lookup t hash)) in
             if 0 < hop \<and> hash + of_nat hop < fromHash then Some (hash, hop) else None))"

text \<open>The entry moves into the gap and leaves a gap behind; the hop bits follow.\<close>

definition move_entry :: "'v hash_table \<Rightarrow> uint32 \<Rightarrow> uint32 \<Rightarrow> nat \<Rightarrow> nat \<Rightarrow> 'v hash_table" where
  "move_entry t fromHash hash hop emptyCell =
     (let cell = table_lookup t hash; hopCell = table_lookup t (hash + of_nat hop);
          t1 = set_value emptyCell (value_at t hopCell) t;
          t2 = set_maps cell (maps_at t1 cell OR hop_bit (unat (fromHash - hash))) t1;
          t3 = (if hop = 0 then t2 else set_maps cell (maps_at t2 cell AND NOT (hop_bit hop)) t2) in
      set_value hopCell None t3)"

lemma scanM_SomeD: "scanM f xs = Some (Some y) \<Longrightarrow> \<exists>x \<in> set xs. f x = Some (Some y)"
  by (induction xs) (auto split: bind_splits option.splits)

lemma gap_window_less: "hash \<in> set (gap_window fromHash) \<Longrightarrow> hash < fromHash"
proof (cases "fromHash - 32 < fromHash")
  case True
  then have ge: "32 \<le> unat fromHash"
    by (simp add: word_less_nat_alt unat_sub_if' word_le_nat_alt split: if_splits)
  assume "hash \<in> set (gap_window fromHash)"
  then obtain i where i: "hash = fromHash - 32 + of_nat i" "i < 32" using True by (auto simp: gap_window_def)
  have "unat (fromHash - 32) = unat fromHash - 32" using ge by (simp add: unat_sub word_le_nat_alt)
  moreover have "unat (of_nat i :: uint32) = i" using i(2) by (simp add: unat_of_nat)
  moreover have "unat fromHash - 32 + i < 4294967296" using ge i(2) unat_u32_lt [of fromHash] by linarith
  ultimately have "unat hash = unat fromHash - 32 + i" using i(1) by (simp add: unat_word_ariths)
  then show "hash < fromHash" using ge i(2) by (simp add: word_less_nat_alt)
qed (simp add: gap_window_def)

lemma gap_move_less:
  assumes "scanM (gap_move ops t fromHash) (gap_window fromHash) = Some (Some (hash, hop))"
  shows "hash + of_nat hop < fromHash" "hash \<in> set (gap_window fromHash)"
  using scanM_SomeD [OF assms] gap_window_less
  by (auto simp: gap_move_def Let_def split: option.splits if_splits)

function table_move_gap ::
  "('k, 'v) table_ops \<Rightarrow> 'v hash_table \<Rightarrow> uint32 \<Rightarrow> uint32 \<Rightarrow> nat \<Rightarrow> ('v hash_table \<times> bool) option" where
  "table_move_gap ops t fromHash toHash emptyCell =
     (case scanM (gap_move ops t fromHash) (gap_window fromHash) of
        None \<Rightarrow> None
      | Some None \<Rightarrow> Some (t, False)
      | Some (Some (hash, hop)) \<Rightarrow>
          (let t1 = move_entry t fromHash hash hop emptyCell in
           if hash - toHash < 32 then Some (t1, True)
           else table_move_gap ops t1 (hash + of_nat hop) toHash (table_lookup t (hash + of_nat hop))))"
  by pat_completeness auto
termination
  by (relation "measure (\<lambda>(ops, t, fromHash, _). unat fromHash)") (auto simp: gap_move_less word_less_nat_alt [symmetric])

declare table_move_gap.simps [simp del]

definition table_rebalance :: "('k, 'v) table_ops \<Rightarrow> 'v hash_table \<Rightarrow> uint32 \<Rightarrow> ('v hash_table \<times> bool) option" where
  "table_rebalance ops t hash =
     (case find (\<lambda>i. value_at t (table_lookup t (hash + of_nat i)) = None) [32..<unat (table_size t)] of
        None \<Rightarrow> Some (t, False)
      | Some i \<Rightarrow> table_move_gap ops t (hash + of_nat i) hash (table_lookup t (hash + of_nat i)))"

text \<open>The table is more than 80\% full.\<close>

definition nearly_full :: "'v hash_table \<Rightarrow> bool" where
  "nearly_full t \<longleftrightarrow> (ucast (table_size t) :: uint64) * 4 < ucast (table_used t) * 5"

primrec table_insert ::
  "nat \<Rightarrow> ('k, 'v) table_ops \<Rightarrow> size_t \<Rightarrow> 'v hash_table \<Rightarrow> 'v \<Rightarrow> ('v hash_table \<times> bool) option" where
  "table_insert 0 ops cell_bytes t value = None"
| "table_insert (Suc fuel) ops cell_bytes t value =
     (let hash = HASH_VALUE ops value; cell = table_lookup t hash in
      if value_at t cell = None then
        Some ((set_value cell (Some value) (set_maps cell 0 t))\<lparr>table_used := table_used t + 1\<rparr>, True)
      else case find (\<lambda>i. value_at t (table_lookup t (hash + of_nat i)) = None) [1..<33] of
        Some i \<Rightarrow>
          Some ((set_value (table_lookup t (hash + of_nat i)) (Some value)
                  (set_maps cell (maps_at t cell OR hop_bit i) t))\<lparr>table_used := table_used t + 1\<rparr>, True)
      | None \<Rightarrow>
          do {
            (t1, resized) \<leftarrow> (if nearly_full t then table_resize (table_insert fuel ops cell_bytes) cell_bytes t
                             else Some (t, False));
            if resized then table_insert fuel ops cell_bytes t1 value
            else do {
              (t2, moved) \<leftarrow> table_rebalance ops t1 hash;
              if moved then table_insert fuel ops cell_bytes t2 value
              else do {
                (t3, grown) \<leftarrow> table_resize (table_insert fuel ops cell_bytes) cell_bytes t2;
                if grown then table_insert fuel ops cell_bytes t3 value
                else Some (t3\<lparr>ht_messages := Suc (ht_messages t3)\<rparr>, False)
              }
            }
          })"

section \<open>Lookup and removal\<close>

lemma ffs_zero_iff [simp]: "ffs w = 0 \<longleftrightarrow> w = 0"
proof -
  have "ffs w = 0 \<longleftrightarrow> (\<forall>n < 32. \<not> bit w n)" by (auto simp: ffs_def find_None_iff find_Some_iff split: option.splits)
  also have "\<dots> \<longleftrightarrow> w = 0" by (auto intro!: bit_word_eqI)
  finally show ?thesis .
qed

lemma ffs_Suc: "ffs w = Suc n \<Longrightarrow> bit w n \<and> n < 32"
  by (auto simp: ffs_def find_Some_iff split: option.splits)

lemma ffs_bit: "w \<noteq> 0 \<Longrightarrow> bit w (ffs w - 1) \<and> ffs w - 1 < 32"
  using ffs_Suc [of w "ffs w - 1"] by (cases "ffs w") (auto simp flip: ffs_zero_iff)

lemma unat_clear_bit: "bit (w :: uint32) n \<Longrightarrow> unat (w AND NOT (push_bit n 1)) < unat w"
proof -
  assume b: "bit w n"
  have "w AND NOT (push_bit n 1) \<le> w" by (rule word_and_le2)
  moreover have "w AND NOT (push_bit n 1) \<noteq> w"
  proof
    assume "w AND NOT (push_bit n 1) = w"
    with b have "bit (w AND NOT (push_bit n 1)) n" by simp
    then show False using bit_imp_le_length [OF b] by (simp add: bit_simps)
  qed
  ultimately show ?thesis by (simp add: word_less_nat_alt [symmetric])
qed

text \<open>The loop of \<open>_table_get_cell\<close> over the displaced entries of a cell, on the array \<open>a\<close> of size \<open>n\<close>.\<close>

function hop_search ::
  "('k, 'v) table_ops \<Rightarrow> uint32 \<Rightarrow> 'v table_cell list \<Rightarrow> 'k \<Rightarrow> uint32 \<Rightarrow> nat option option" where
  "hop_search ops n a key jump =
     (if jump = 0 then Some None
      else let hop = ffs jump; hopCell = slot_of n (HASH_KEY ops key + of_nat hop) in
        case cell_value (a ! hopCell) of
          None \<Rightarrow> None
        | Some v \<Rightarrow>
            if COMPARE_FUNCTION ops key v then Some (Some hopCell)
            else hop_search ops n a key (jump AND NOT (hop_bit hop)))"
  by auto
termination
  by (relation "measure (\<lambda>(_, _, _, _, jump). unat jump)") (use unat_clear_bit ffs_bit in \<open>auto simp flip: push_bit_eq_mult\<close>)

declare hop_search.simps [simp del]

definition get_cell_in ::
  "('k, 'v) table_ops \<Rightarrow> uint32 \<Rightarrow> 'v table_cell list \<Rightarrow> 'k \<Rightarrow> nat option option" where
  "get_cell_in ops n a key =
     (let cell = slot_of n (HASH_KEY ops key) in
      case cell_value (a ! cell) of
        None \<Rightarrow> Some None
      | Some v \<Rightarrow>
          if COMPARE_FUNCTION ops key v then Some (Some cell)
          else hop_search ops n a key (secondMaps (a ! cell)))"

text \<open>The recursion into the old tables. The result is the number of the table in the chain and the cell.\<close>

primrec get_cell_chain ::
  "('k, 'v) table_ops \<Rightarrow> 'k \<Rightarrow> (uint32 \<times> 'v table_cell list) list \<Rightarrow> (nat \<times> nat) option option" where
  "get_cell_chain ops key [] = Some None"
| "get_cell_chain ops key (x # chain) =
     (case x of (n, a) \<Rightarrow> do {
        r \<leftarrow> get_cell_in ops n a key;
        case r of
          Some cell \<Rightarrow> Some (Some (0, cell))
        | None \<Rightarrow> map_option (map_option (\<lambda>(i, cell). (Suc i, cell))) (get_cell_chain ops key chain)
      })"

definition table_get_cell :: "('k, 'v) table_ops \<Rightarrow> 'v hash_table \<Rightarrow> 'k \<Rightarrow> (nat \<times> nat) option option" where
  "table_get_cell ops t key = get_cell_chain ops key ((table_size t, table_cells t) # old_tables t)"

function table_move_second :: "'v hash_table \<Rightarrow> nat \<Rightarrow> 'v hash_table option" where
  "table_move_second t emptyCell =
     (let jump = maps_at t emptyCell in
      if jump = 0 \<or> length (table_cells t) \<le> emptyCell then None
      else
        (let hop = ffs jump; hopCell = table_lookup t (of_nat emptyCell + of_nat hop);
             t1 = set_maps emptyCell (jump AND NOT (hop_bit hop)) (set_value emptyCell (value_at t hopCell) t) in
         if maps_at t1 hopCell = 0 then Some (set_value hopCell None t1)
         else table_move_second t1 hopCell))"
  by pat_completeness auto
termination
proof (relation "measure (\<lambda>(t, _). sum_list (map (\<lambda>c. unat (secondMaps c)) (table_cells t)))", goal_cases)
  case 1
  then show ?case by simp
next
  case (2 t emptyCell jump hop hopCell t1)
  let ?a = "table_cells t" and ?w = "\<lambda>c. unat (secondMaps c)"
  have e: "emptyCell < length ?a" "jump \<noteq> 0" using 2 by auto
  have "unat (jump AND NOT (hop_bit hop)) < unat jump" using e 2 unat_clear_bit [of jump] ffs_bit [of jump] by simp
  moreover have "map ?w (table_cells t1) = (map ?w ?a)[emptyCell := unat (jump AND NOT (hop_bit hop))]"
    using 2 e by (auto simp: set_maps_def set_value_def map_update intro!: nth_equalityI)
  moreover have "unat jump \<le> sum_list (map ?w ?a)"
    using 2 e by (auto intro!: member_le_sum_list)
  ultimately show ?case using 2 e by (simp add: sum_list_update)
qed

declare table_move_second.simps [simp del]

definition table_remove :: "('k, 'v) table_ops \<Rightarrow> 'v hash_table \<Rightarrow> 'k \<Rightarrow> 'v hash_table option" where
  "table_remove ops t key = do {
     r \<leftarrow> table_get_cell ops t key;
     case r of
       None \<Rightarrow> Some t
     | Some (Suc _, _) \<Rightarrow> None
     | Some (0, cell) \<Rightarrow>
         (let baseCell = table_lookup t (HASH_KEY ops key);
              displacement = nat ((int cell - int baseCell + uint (table_size t)) mod uint (table_size t));
              jump = hop_bit displacement;
              t1 = (if baseCell \<noteq> cell \<and> maps_at t baseCell AND jump \<noteq> 0
                    then set_maps baseCell (maps_at t baseCell AND NOT jump) t else t) in
          do {
            t2 \<leftarrow> (if maps_at t1 cell = 0 then Some (set_value cell None t1) else table_move_second t1 cell);
            Some (t2\<lparr>table_used := table_used t2 - 1\<rparr>)
          })
   }"

definition chain_value :: "'v hash_table \<Rightarrow> nat \<times> nat \<Rightarrow> 'v option" where
  "chain_value t c = (case c of (0, cell) \<Rightarrow> value_at t cell | (Suc i, cell) \<Rightarrow> cell_value (snd (old_tables t ! i) ! cell))"

definition table_get :: "('k, 'v) table_ops \<Rightarrow> 'v hash_table \<Rightarrow> 'k \<Rightarrow> 'v option option" where
  "table_get ops t key = do {
     r \<leftarrow> table_get_cell ops t key;
     case r of None \<Rightarrow> Some None | Some c \<Rightarrow> Some (chain_value t c)
   }"

definition table_set ::
  "nat \<Rightarrow> ('k, 'v) table_ops \<Rightarrow> size_t \<Rightarrow> 'v hash_table \<Rightarrow> 'k \<Rightarrow> 'v \<Rightarrow> 'v hash_table option" where
  "table_set fuel ops cell_bytes t key value = do {
     r \<leftarrow> table_get_cell ops t key;
     case r of
       None \<Rightarrow> map_option fst (table_insert fuel ops cell_bytes t value)
     | Some (0, cell) \<Rightarrow> Some (set_value cell (Some value) t)
     | Some (Suc i, cell) \<Rightarrow>
         (let (n, a) = old_tables t ! i in
          Some (t\<lparr>old_tables := (old_tables t)[i := (n, a[cell := (a ! cell)\<lparr>cell_value := Some value\<rparr>])]\<rparr>))
   }"

section \<open>Enumeration\<close>

record table_enumerator =
  seen :: uint32
  en_index :: uint32

text \<open>
  The body of \<open>_next\<close> after the enumerator exists. The while loop looks for the next cell with a
  value; the enumerator is freed (\<open>None\<close>) when there is none.
\<close>

definition next_index :: "'v hash_table \<Rightarrow> uint32 \<Rightarrow> nat option" where
  "next_index t i = find (\<lambda>j. value_at t j \<noteq> None) [unat (i + 1)..<unat (table_size t)]"

definition table_next ::
  "'v hash_table \<Rightarrow> table_enumerator option \<Rightarrow> ('v hash_table \<times> table_enumerator option \<times> 'v option) option" where
  "table_next t state =
     (case (case state of
              Some e \<Rightarrow> Some (t, e)
            | None \<Rightarrow>
                (let (t1, ok) = ht_calloc t in
                 if \<not> ok then None
                 else Some (t1\<lparr>enumerator_count := enumerator_count t1 + 1\<rparr>, \<lparr>seen = 0, en_index = - 1\<rparr>))) of
        None \<Rightarrow> None
      | Some (t1, e) \<Rightarrow>
          let finished = Some (t1\<lparr>enumerator_count := enumerator_count t1 - 1\<rparr>, None, None) in
          if table_used t1 \<le> seen e then finished
          else case next_index t1 (en_index e) of
            Some j \<Rightarrow> Some (t1, Some (e\<lparr>seen := seen e + 1, en_index := of_nat j\<rparr>), value_at t1 j)
          | None \<Rightarrow> finished)"

definition table_current :: "'v hash_table \<Rightarrow> table_enumerator \<Rightarrow> 'v option" where
  "table_current t e = value_at t (unat (en_index e))"

end
