(* ===== verification/Objc_Hash_Inv.thy ===== *)
theory Objc_Hash_Inv
  imports Objc_Hash_Table
begin

text \<open>
  The invariant of the hopscotch table, on the values \<open>V\<close> and the hop bits \<open>W\<close> of the cells of an
  array of \<open>S\<close> cells, and how each elementary step of the operations keeps it:

  \<^item> \<open>hops_sound\<close>: a hop bit leads to an entry whose home is the cell that has the bit;
  \<^item> \<open>hops_placed\<close>: an entry lies in its home cell or is reached by a hop bit of it;
  \<^item> \<open>hops_tidy\<close>: only one cell, the gap, may be empty and have hop bits;
  \<^item> \<open>hops_once\<close>: no entry is stored twice.

  Soundness alone makes every operation safe and terminate; the others make lookups complete.
\<close>

unbundle bit_operations_syntax

section \<open>Positions\<close>

lemma slot_of_eq:
  assumes "unat n = 2 ^ k" "k \<le> 32"
  shows "slot_of n (h + of_nat i) = (slot_of n h + i) mod unat n"
proof -
  have d: "(2 :: nat) ^ k dvd 2 ^ 32" using assms(2) by (rule le_imp_power_dvd)
  have "unat (h + of_nat i) = (unat h + i) mod 2 ^ 32"
    by (simp add: unat_word_ariths unat_of_nat mod_simps)
  then have "slot_of n (h + of_nat i) = (unat h + i) mod 2 ^ 32 mod 2 ^ k"
    by (simp add: slot_of_def unat_mod assms(1))
  also have "\<dots> = (unat h + i) mod 2 ^ k" by (rule mod_mod_cancel [OF d])
  also have "\<dots> = (unat h mod 2 ^ k + i) mod 2 ^ k" by (simp add: mod_simps)
  finally show ?thesis by (simp add: slot_of_def unat_mod assms(1))
qed

lemma slot_of_less: "n \<noteq> 0 \<Longrightarrow> slot_of n h < unat n"
  by (simp add: slot_of_def unat_mod unat_gt_0)

lemma ring_inj:
  fixes b :: nat
  assumes "(b + i) mod S = (b + j) mod S" "i < S" "j < S"
  shows "i = j"
proof -
  have "i = j" if le: "i \<le> j" and eq: "(b + i) mod S = (b + j) mod S" and j: "j < S" for i j
  proof -
    from eq have "S dvd (b + j) - (b + i)" using le by (metis add_le_cancel_left mod_eq_dvd_iff_nat)
    then have "S dvd j - i" by simp
    moreover have "j - i < S" using j by simp
    ultimately have "j - i = 0" by (metis dvd_imp_le gr0I leD)
    with le show "i = j" by simp
  qed
  from this [of i j] this [of j i] assms show ?thesis by (metis linear)
qed

lemma ring_zero:
  fixes b :: nat
  shows "(b + i) mod S = b \<Longrightarrow> b < S \<Longrightarrow> i < S \<Longrightarrow> i = 0"
  using ring_inj [of b i S 0] by simp

lemma ring_cover:
  fixes b :: nat
  assumes "p < S" "b < S"
  obtains j where "j < S" "p = (b + j) mod S"
proof
  show "(p + S - b) mod S < S" using assms by simp
  have "(b + (p + S - b) mod S) mod S = (b + (p + S - b)) mod S" by (simp add: mod_simps)
  then show "p = (b + (p + S - b) mod S) mod S" using assms by simp
qed

section \<open>Invariant\<close>

definition hops_sound :: "nat \<Rightarrow> ('v \<Rightarrow> nat) \<Rightarrow> (nat \<Rightarrow> 'v option) \<Rightarrow> (nat \<Rightarrow> uint32) \<Rightarrow> bool" where
  "hops_sound S home V W \<longleftrightarrow>
     (\<forall>b < S. \<forall>n. bit (W b) n \<longrightarrow> Suc n < S \<and> (\<exists>v. V ((b + Suc n) mod S) = Some v \<and> home v = b))"

definition hops_placed :: "nat \<Rightarrow> ('v \<Rightarrow> nat) \<Rightarrow> (nat \<Rightarrow> 'v option) \<Rightarrow> (nat \<Rightarrow> uint32) \<Rightarrow> bool" where
  "hops_placed S home V W \<longleftrightarrow>
     (\<forall>p < S. \<forall>v. V p = Some v \<longrightarrow> home v = p \<or> (\<exists>n. bit (W (home v)) n \<and> p = (home v + Suc n) mod S))"

definition hops_tidy :: "nat \<Rightarrow> nat option \<Rightarrow> (nat \<Rightarrow> 'v option) \<Rightarrow> (nat \<Rightarrow> uint32) \<Rightarrow> bool" where
  "hops_tidy S gap V W \<longleftrightarrow> (\<forall>p < S. V p = None \<and> Some p \<noteq> gap \<longrightarrow> W p = 0)"

definition hops_once :: "nat \<Rightarrow> (nat \<Rightarrow> 'v option) \<Rightarrow> bool" where
  "hops_once S V \<longleftrightarrow> (\<forall>p < S. \<forall>q < S. \<forall>v. V p = Some v \<and> V q = Some v \<longrightarrow> p = q)"

text \<open>All of it, with a gap.\<close>

definition hops_full :: "nat \<Rightarrow> ('v \<Rightarrow> nat) \<Rightarrow> nat option \<Rightarrow> (nat \<Rightarrow> 'v option) \<Rightarrow> (nat \<Rightarrow> uint32) \<Rightarrow> bool" where
  "hops_full S home gap V W \<longleftrightarrow> hops_placed S home V W \<and> hops_tidy S gap V W \<and> hops_once S V"

definition stored :: "nat \<Rightarrow> (nat \<Rightarrow> 'v option) \<Rightarrow> 'v set" where
  "stored S V = {v. \<exists>p < S. V p = Some v}"

definition filled :: "nat \<Rightarrow> (nat \<Rightarrow> 'v option) \<Rightarrow> nat set" where
  "filled S V = {p. p < S \<and> V p \<noteq> None}"

lemma finite_filled [simp]: "finite (filled S V)" by (simp add: filled_def)

lemma hops_soundD:
  assumes "hops_sound S home V W" "b < S" "bit (W b) n"
  shows "Suc n < S" "\<exists>v. V ((b + Suc n) mod S) = Some v \<and> home v = b"
  using assms by (auto simp: hops_sound_def)

lemma hops_tidy_weaken: "hops_tidy S None V W \<Longrightarrow> hops_tidy S gap V W"
  by (simp add: hops_tidy_def)

lemma bit_or_hop: "bit (w OR 2 ^ m :: uint32) n \<longleftrightarrow> bit w n \<or> (n = m \<and> m < 32)"
  by (auto simp: bit_simps)

lemma bit_clear_hop: "bit (w AND NOT (2 ^ m) :: uint32) n \<longleftrightarrow> bit w n \<and> n \<noteq> m"
  by (auto simp: bit_simps dest: bit_imp_le_length)

section \<open>Storing an entry\<close>

text \<open>In its empty home cell, whose hop bits the code resets.\<close>

lemma sound_store_home:
  assumes "hops_sound S home V W" "V b = None" "b < S"
  shows "hops_sound S home (V(b \<mapsto> v)) (W(b := 0))"
  unfolding hops_sound_def
proof (intro allI impI)
  fix c n
  assume c: "c < S" and n: "bit ((W(b := 0)) c) n"
  then have "bit (W c) n" by (auto split: if_splits)
  from hops_soundD [OF assms(1) c this] obtain u where "Suc n < S" "V ((c + Suc n) mod S) = Some u" "home u = c" by blast
  with assms(2) show "Suc n < S \<and> (\<exists>u. (V(b \<mapsto> v)) ((c + Suc n) mod S) = Some u \<and> home u = c)" by auto
qed

lemma full_store_home:
  assumes "hops_full S home None V W" "V b = None" "b < S" "home v = b" "v \<notin> stored S V"
  shows "hops_full S home None (V(b \<mapsto> v)) (W(b := 0))"
proof -
  have w: "W(b := 0) = W" using assms(1-3) by (auto simp: hops_full_def hops_tidy_def)
  show ?thesis
    unfolding w using assms by (auto simp: hops_full_def hops_placed_def hops_tidy_def hops_once_def stored_def)
qed

text \<open>In an empty cell reached by a new hop bit of the home cell.\<close>

lemma sound_store_hop:
  assumes s: "hops_sound S home V W" and b: "b < S" "home v = b"
    and q: "q = (b + Suc m) mod S" "V q = None" "Suc m < S" and m: "m < 32"
  shows "hops_sound S home (V(q \<mapsto> v)) (W(b := W b OR push_bit m 1))"
  unfolding hops_sound_def
proof (intro allI impI)
  fix c n
  assume c: "c < S" and n: "bit ((W(b := W b OR push_bit m 1)) c) n"
  show "Suc n < S \<and> (\<exists>u. (V(q \<mapsto> v)) ((c + Suc n) mod S) = Some u \<and> home u = c)"
  proof (cases "c = b \<and> n = m")
    case False
    then have "bit (W c) n" using n by (auto simp: bit_or_hop split: if_splits)
    from hops_soundD [OF s c this] q(2) show ?thesis by (metis fun_upd_apply option.distinct(1))
  qed (use b q in auto)
qed

lemma full_store_hop:
  assumes f: "hops_full S home gap V W" and b: "b < S" "home v = b" "V b \<noteq> None" and v: "v \<notin> stored S V"
    and q: "q = (b + Suc m) mod S" "V q = None" "Suc m < S" and m: "m < 32" and gap: "gap = None \<or> gap = Some q"
  shows "hops_full S home None (V(q \<mapsto> v)) (W(b := W b OR push_bit m 1))"
proof -
  have "hops_placed S home (V(q \<mapsto> v)) (W(b := W b OR push_bit m 1))"
    unfolding hops_placed_def
  proof (intro allI impI)
    fix p u
    assume p: "p < S" "(V(q \<mapsto> v)) p = Some u"
    show "home u = p \<or> (\<exists>n. bit ((W(b := W b OR push_bit m 1)) (home u)) n \<and> p = (home u + Suc n) mod S)"
    proof (cases "p = q")
      case True
      then show ?thesis using p b q m by (auto simp: bit_or_hop)
    next
      case False
      then have "V p = Some u" using p by simp
      then consider "home u = p" | n where "bit (W (home u)) n" "p = (home u + Suc n) mod S"
        using f p(1) by (auto simp: hops_full_def hops_placed_def)
      then show ?thesis by cases (auto simp: bit_or_hop)
    qed
  qed
  moreover have "hops_tidy S None (V(q \<mapsto> v)) (W(b := W b OR push_bit m 1))"
    using f gap b by (auto simp: hops_full_def hops_tidy_def)
  moreover have "hops_once S (V(q \<mapsto> v))"
    using f v by (auto simp: hops_full_def hops_once_def stored_def)
  ultimately show ?thesis by (simp add: hops_full_def)
qed

lemma stored_upd:
  assumes "q < S" "V q = None"
  shows "stored S (V(q \<mapsto> v)) = insert v (stored S V)"
proof (rule set_eqI)
  fix x
  show "x \<in> stored S (V(q \<mapsto> v)) \<longleftrightarrow> x \<in> insert v (stored S V)"
    using assms unfolding stored_def by (cases "x = v") (auto, metis option.distinct(1))
qed

lemma filled_upd: "q < S \<Longrightarrow> filled S (V(q \<mapsto> v)) = insert q (filled S V)"
  by (auto simp: filled_def)

section \<open>Moving an entry\<close>

text \<open>
  The entry \<open>v\<close> of home \<open>b\<close> moves from \<open>q\<close>, \<open>hop\<close> cells after its home, into the gap \<open>e\<close>, \<open>Suc m\<close>
  cells after it.
\<close>

definition moved_maps :: "(nat \<Rightarrow> uint32) \<Rightarrow> nat \<Rightarrow> nat \<Rightarrow> nat \<Rightarrow> nat \<Rightarrow> uint32" where
  "moved_maps W b hop m =
     W(b := if hop = 0 then W b OR push_bit m 1 else (W b OR push_bit m 1) AND NOT (hop_bit hop))"

lemma bit_moved_maps:
  assumes "m < 32"
  shows "bit (moved_maps W b hop m c) n \<longleftrightarrow> (bit (W c) n \<or> c = b \<and> n = m) \<and> \<not> (c = b \<and> hop = Suc n)"
  using assms by (auto simp: moved_maps_def bit_or_hop bit_clear_hop)

lemma moved_maps_other: "c \<noteq> b \<Longrightarrow> moved_maps W b hop m c = W c"
  by (simp add: moved_maps_def)

lemma sound_move:
  assumes s: "hops_sound S home V W" and b: "b < S" "home v = b"
    and q: "q = (b + hop) mod S" "V q = Some v" "hop < S"
    and e: "e = (b + Suc m) mod S" "V e = None" "Suc m < S" and m: "m < 32"
  shows "hops_sound S home (V(e \<mapsto> v, q := None)) (moved_maps W b hop m)"
  unfolding hops_sound_def
proof (intro allI impI)
  fix c n
  assume c: "c < S" and n: "bit (moved_maps W b hop m c) n"
  have qe: "q \<noteq> e" using q e by auto
  show "Suc n < S \<and> (\<exists>u. (V(e \<mapsto> v, q := None)) ((c + Suc n) mod S) = Some u \<and> home u = c)"
  proof (cases "c = b \<and> n = m")
    case True
    then show ?thesis using b e qe by auto
  next
    case False
    then have old: "bit (W c) n" and nh: "\<not> (c = b \<and> hop = Suc n)" using n m by (auto simp: bit_moved_maps)
    from hops_soundD [OF s c old] obtain u where u: "Suc n < S" "V ((c + Suc n) mod S) = Some u" "home u = c" by blast
    have "(c + Suc n) mod S \<noteq> q"
    proof
      assume eq: "(c + Suc n) mod S = q"
      then have "c = b" using u q(2) b(2) by simp
      then show False using eq q(1,3) u(1) nh ring_inj [of b "Suc n" S hop] by simp
    qed
    moreover have "(c + Suc n) mod S \<noteq> e" using u e(2) by auto
    ultimately show ?thesis using u by auto
  qed
qed

lemma once_move:
  assumes "hops_once S V" "V q = Some v" "V e = None" "q < S"
  shows "hops_once S (V(e \<mapsto> v, q := None))"
  unfolding hops_once_def
proof (intro allI impI)
  fix a b u
  assume a: "a < S" "b < S" "(V(e \<mapsto> v, q := None)) a = Some u \<and> (V(e \<mapsto> v, q := None)) b = Some u"
  have orig: "x = e \<and> u = v \<or> x \<noteq> q \<and> V x = Some u" if "(V(e \<mapsto> v, q := None)) x = Some u" for x
    using that by (auto split: if_splits)
  have once: "x = y" if "x < S" "y < S" "V x = Some u" "V y = Some u" for x y using assms(1) that by (auto simp: hops_once_def)
  from orig [of a] orig [of b] a(3) show "a = b" using once a(1,2) assms(2,4) by auto
qed

lemma full_move:
  assumes f: "hops_full S home (Some e) V W" and b: "b < S" "home v = b"
    and q: "q = (b + hop) mod S" "V q = Some v" "hop < S" and nz: "hop \<noteq> 0 \<Longrightarrow> V b \<noteq> None"
    and e: "e = (b + Suc m) mod S" "V e = None" "Suc m < S" and m: "m < 32"
  shows "hops_full S home (Some q) (V(e \<mapsto> v, q := None)) (moved_maps W b hop m)"
proof -
  have qe: "q \<noteq> e" using q e by auto
  have "hops_placed S home (V(e \<mapsto> v, q := None)) (moved_maps W b hop m)"
    unfolding hops_placed_def
  proof (intro allI impI)
    fix p u
    assume p: "p < S" "(V(e \<mapsto> v, q := None)) p = Some u"
    show "home u = p \<or> (\<exists>n. bit (moved_maps W b hop m (home u)) n \<and> p = (home u + Suc n) mod S)"
    proof (cases "p = e")
      case True
      then have "u = v" using p qe by simp
      then show ?thesis using True b e q qe m by (auto simp: bit_moved_maps)
    next
      case False
      then have u: "V p = Some u" "p \<noteq> q" using p by (auto split: if_splits)
      then consider "home u = p" | n where "bit (W (home u)) n" "p = (home u + Suc n) mod S"
        using f p(1) by (auto simp: hops_full_def hops_placed_def)
      then show ?thesis
      proof cases
        case (2 n)
        then have "bit (moved_maps W b hop m (home u)) n" using u(2) q(1) m by (auto simp: bit_moved_maps)
        with 2 show ?thesis by blast
      qed simp
    qed
  qed
  moreover have "hops_tidy S (Some q) (V(e \<mapsto> v, q := None)) (moved_maps W b hop m)"
    unfolding hops_tidy_def
  proof (intro allI impI)
    fix p
    assume p: "p < S" and n: "(V(e \<mapsto> v, q := None)) p = None \<and> Some p \<noteq> Some q"
    then have n': "V p = None" "p \<noteq> e" "p \<noteq> q" by (auto split: if_splits)
    have "p \<noteq> b"
    proof (cases "hop = 0")
      case True
      then show ?thesis using q(1) b n'(3) by simp
    qed (use nz n'(1) in auto)
    then show "moved_maps W b hop m p = 0" using f p n' by (simp add: moved_maps_other hops_full_def hops_tidy_def)
  qed
  moreover have "hops_once S (V(e \<mapsto> v, q := None))"
    using f q e b by (intro once_move) (auto simp: hops_full_def)
  ultimately show ?thesis by (simp add: hops_full_def)
qed

lemma stored_move:
  assumes "q < S" "e < S" "V q = Some v" "V e = None"
  shows "stored S (V(e \<mapsto> v, q := None)) = stored S V"
proof -
  have qe: "q \<noteq> e" using assms by auto
  have "\<exists>p < S. V p = Some x" if "p < S" "(V(e \<mapsto> v, q := None)) p = Some x" for p x
    using that assms by (cases "p = e") (auto split: if_splits)
  moreover have "\<exists>p < S. (V(e \<mapsto> v, q := None)) p = Some x" if "p < S" "V p = Some x" for p x
  proof (cases "p = q")
    case True
    then show ?thesis using that assms qe by (intro exI [of _ e]) simp
  next
    case False
    then show ?thesis using that assms by (intro exI [of _ p]) auto
  qed
  ultimately show ?thesis unfolding stored_def by blast
qed

lemma card_filled_move:
  assumes "q < S" "e < S" "V q = Some v" "V e = None"
  shows "card (filled S (V(e \<mapsto> v, q := None))) = card (filled S V)"
proof -
  have qe: "q \<noteq> e" using assms by auto
  have eq: "filled S (V(e \<mapsto> v, q := None)) = insert e (filled S V - {q})"
  proof (rule set_eqI)
    show "x \<in> filled S (V(e \<mapsto> v, q := None)) \<longleftrightarrow> x \<in> insert e (filled S V - {q})" for x
      using assms qe by (cases "x = e"; cases "x = q") (simp_all add: filled_def)
  qed
  have "q \<in> filled S V" "e \<notin> filled S V - {q}" using assms by (auto simp: filled_def)
  then have "card (insert e (filled S V - {q})) = Suc (card (filled S V - {q}))" by (intro card_insert_disjoint) simp_all
  also have "\<dots> = card (filled S V)" using \<open>q \<in> filled S V\<close> by (rule card_Suc_Diff1 [OF finite_filled])
  finally show ?thesis by (simp only: eq)
qed

section \<open>Vacating a cell\<close>

text \<open>An entry goes away from \<open>p\<close>; if it is displaced, its hop bit \<open>n\<close> goes too.\<close>

lemma vacate_home:
  assumes s: "hops_sound S home V W" and f: "hops_full S home None V W" and p: "p < S" "V p = Some v" "home v = p"
  shows "hops_sound S home (V(p := None)) W" "hops_full S home (Some p) (V(p := None)) W"
proof -
  have "(b + Suc n) mod S \<noteq> p" if "b < S" "bit (W b) n" for b n
  proof
    assume eq: "(b + Suc n) mod S = p"
    from hops_soundD [OF s that] p eq have "b = p" "Suc n < S" by auto
    then show False using ring_zero [of p "Suc n" S] eq p(1) by simp
  qed
  then show "hops_sound S home (V(p := None)) W" using s by (simp add: hops_sound_def)
  show "hops_full S home (Some p) (V(p := None)) W"
    using f by (auto simp: hops_full_def hops_placed_def hops_tidy_def hops_once_def)
qed

lemma vacate_hop:
  assumes s: "hops_sound S home V W" and f: "hops_full S home None V W" and p: "V p = Some v" "home v = b" "b < S"
    and n: "p = (b + Suc n) mod S" "bit (W b) n"
  shows "hops_sound S home (V(p := None)) (W(b := W b AND NOT (push_bit n 1)))"
    and "hops_full S home (Some p) (V(p := None)) (W(b := W b AND NOT (push_bit n 1)))"
proof -
  let ?W = "W(b := W b AND NOT (push_bit n 1))"
  have bits: "bit (?W c) m \<longleftrightarrow> bit (W c) m \<and> \<not> (c = b \<and> m = n)" for c m by (auto simp: bit_clear_hop)
  have nS: "Suc n < S" using hops_soundD(1) [OF s p(3) n(2)] .
  then have pS: "p < S" using n(1) by simp
  have vb: "V b \<noteq> None"
  proof
    assume "V b = None"
    then have "W b = 0" using f p(3) by (simp add: hops_full_def hops_tidy_def)
    then show False using n(2) by simp
  qed
  have "\<exists>u. (V(p := None)) ((c + Suc m) mod S) = Some u \<and> home u = c" "Suc m < S" if c: "c < S" "bit (?W c) m" for c m
  proof -
    from c(2) have old: "bit (W c) m" "\<not> (c = b \<and> m = n)" unfolding bits by auto
    from hops_soundD [OF s c(1) old(1)] obtain u where u: "Suc m < S" "V ((c + Suc m) mod S) = Some u" "home u = c" by blast
    have "(c + Suc m) mod S \<noteq> p"
    proof
      assume eq: "(c + Suc m) mod S = p"
      then have "c = b" using u p by simp
      then show False using eq n(1) u(1) nS old(2) ring_inj [of b "Suc m" S "Suc n"] by simp
    qed
    with u show "\<exists>u. (V(p := None)) ((c + Suc m) mod S) = Some u \<and> home u = c" "Suc m < S" by auto
  qed
  then show "hops_sound S home (V(p := None)) ?W" by (simp add: hops_sound_def)
  have "hops_placed S home (V(p := None)) ?W"
    unfolding hops_placed_def
  proof (intro allI impI)
    fix q u
    assume q: "q < S" "(V(p := None)) q = Some u"
    then have "V q = Some u" "q \<noteq> p" by (auto split: if_splits)
    with f q(1) consider "home u = q" | m where "bit (W (home u)) m" "q = (home u + Suc m) mod S" "q \<noteq> p"
      by (auto simp: hops_full_def hops_placed_def)
    then show "home u = q \<or> (\<exists>m. bit (?W (home u)) m \<and> q = (home u + Suc m) mod S)"
      by cases (use n(1) bits in auto)
  qed
  moreover have "hops_tidy S (Some p) (V(p := None)) ?W" using f vb by (auto simp: hops_full_def hops_tidy_def)
  moreover have "hops_once S (V(p := None))" using f by (auto simp: hops_full_def hops_once_def)
  ultimately show "hops_full S home (Some p) (V(p := None)) ?W" by (simp add: hops_full_def)
qed

text \<open>A displaced entry returns to its empty home cell \<open>p\<close>.\<close>

lemma return_home:
  assumes s: "hops_sound S home V W" and f: "hops_full S home (Some p) V W" and p: "p < S" "V p = None" and n: "bit (W p) n"
  defines "q \<equiv> (p + Suc n) mod S"
  obtains u where "V q = Some u" "q < S" "q \<noteq> p"
    "hops_sound S home (V(p \<mapsto> u, q := None)) (W(p := W p AND NOT (push_bit n 1)))"
    "hops_full S home (Some q) (V(p \<mapsto> u, q := None)) (W(p := W p AND NOT (push_bit n 1)))"
proof -
  let ?W = "W(p := W p AND NOT (push_bit n 1))"
  have bits: "bit (?W c) m \<longleftrightarrow> bit (W c) m \<and> \<not> (c = p \<and> m = n)" for c m by (auto simp: bit_clear_hop)
  from hops_soundD [OF s p(1) n] obtain u where u: "Suc n < S" "V q = Some u" "home u = p" by (auto simp: q_def)
  have qp: "q \<noteq> p" "q < S" using u p by (auto simp: q_def)
  let ?V = "V(p \<mapsto> u, q := None)"
  have "\<exists>w. ?V ((c + Suc m) mod S) = Some w \<and> home w = c" "Suc m < S" if c: "c < S" "bit (?W c) m" for c m
  proof -
    from c(2) have old: "bit (W c) m" "\<not> (c = p \<and> m = n)" unfolding bits by auto
    from hops_soundD [OF s c(1) old(1)] obtain w where w: "Suc m < S" "V ((c + Suc m) mod S) = Some w" "home w = c" by blast
    have "(c + Suc m) mod S \<noteq> q"
    proof
      assume eq: "(c + Suc m) mod S = q"
      then have "c = p" using w u by simp
      then show False using eq w(1) u(1) old(2) ring_inj [of p "Suc m" S "Suc n"] by (simp add: q_def)
    qed
    moreover have "(c + Suc m) mod S \<noteq> p" using w p by auto
    ultimately show "\<exists>w. ?V ((c + Suc m) mod S) = Some w \<and> home w = c" "Suc m < S" using w by auto
  qed
  then have 1: "hops_sound S home ?V ?W" by (simp add: hops_sound_def)
  have "hops_placed S home ?V ?W"
    unfolding hops_placed_def
  proof (intro allI impI)
    fix x w
    assume x: "x < S" "?V x = Some w"
    show "home w = x \<or> (\<exists>m. bit (?W (home w)) m \<and> x = (home w + Suc m) mod S)"
    proof (cases "x = p")
      case False
      then have "V x = Some w" "x \<noteq> q" using x by (auto split: if_splits)
      with f x(1) consider "home w = x" | m where "bit (W (home w)) m" "x = (home w + Suc m) mod S" "x \<noteq> q"
        by (auto simp: hops_full_def hops_placed_def)
      then show ?thesis by cases (use q_def bits in auto)
    qed (use x qp u in auto)
  qed
  moreover have "hops_tidy S (Some q) ?V ?W" using f by (auto simp: hops_full_def hops_tidy_def)
  moreover have "hops_once S ?V" using f u p qp by (intro once_move) (auto simp: hops_full_def)
  ultimately have "hops_full S home (Some q) ?V ?W" by (simp add: hops_full_def)
  with that u(2) qp 1 show thesis by blast
qed

lemma full_no_gap: "hops_full S home (Some p) V W \<Longrightarrow> W p = 0 \<Longrightarrow> hops_full S home None V W"
  by (auto simp: hops_full_def hops_tidy_def)

lemma stored_vacate:
  assumes "hops_once S V" "V p = Some v" "p < S"
  shows "stored S (V(p := None)) = stored S V - {v}"
proof (rule set_eqI)
  fix x
  have "x \<in> stored S (V(p := None)) \<longleftrightarrow> (\<exists>q < S. q \<noteq> p \<and> V q = Some x)"
    unfolding stored_def by (auto split: if_splits)
  also have "\<dots> \<longleftrightarrow> (\<exists>q < S. V q = Some x) \<and> x \<noteq> v"
  proof (cases "x = v")
    case True
    then show ?thesis using assms unfolding hops_once_def by blast
  next
    case False
    then have "q \<noteq> p" if "V q = Some x" for q using assms(2) that by auto
    then show ?thesis using False by blast
  qed
  finally show "x \<in> stored S (V(p := None)) \<longleftrightarrow> x \<in> stored S V - {v}" by (simp add: stored_def)
qed

lemma card_filled_vacate:
  assumes "V p = Some v" "p < S"
  shows "card (filled S V) = Suc (card (filled S (V(p := None))))"
proof -
  have "filled S (V(p := None)) = filled S V - {p}" by (auto simp: filled_def)
  moreover have "p \<in> filled S V" using assms by (simp add: filled_def)
  ultimately show ?thesis using card_Suc_Diff1 [OF finite_filled, of p S V] by simp
qed

end
