(* ===== verification/Objc_Hash_Gap.thy ===== *)
theory Objc_Hash_Gap
  imports Objc_Hash_Inv
begin

text \<open>
  The rebalancing of the hopscotch table: moving the gap towards the home of a new value keeps the
  entries and the invariant, and every successful move brings the gap closer.
\<close>

unbundle bit_operations_syntax

section \<open>Tables\<close>

abbreviation t_size :: "'v hash_table \<Rightarrow> nat" where
  "t_size t \<equiv> unat (table_size t)"

abbreviation home :: "('k, 'v) table_ops \<Rightarrow> 'v hash_table \<Rightarrow> 'v \<Rightarrow> nat" where
  "home ops t v \<equiv> table_lookup t (HASH_VALUE ops v)"

definition table_sound :: "('k, 'v) table_ops \<Rightarrow> 'v hash_table \<Rightarrow> bool" where
  "table_sound ops t \<longleftrightarrow>
     (\<exists>k \<le> 31. t_size t = 2 ^ k) \<and> length (table_cells t) = t_size t \<and>
     unat (table_used t) = card (filled (t_size t) (value_at t)) \<and>
     hops_sound (t_size t) (home ops t) (value_at t) (maps_at t)"

definition table_full :: "('k, 'v) table_ops \<Rightarrow> nat option \<Rightarrow> 'v hash_table \<Rightarrow> bool" where
  "table_full ops gap t \<longleftrightarrow> hops_full (t_size t) (home ops t) gap (value_at t) (maps_at t)"

definition entries :: "'v hash_table \<Rightarrow> 'v set" where
  "entries t = stored (t_size t) (value_at t)"

lemma soundD:
  assumes "table_sound ops t"
  shows "\<exists>k \<le> 31. t_size t = 2 ^ k" "length (table_cells t) = t_size t" "0 < t_size t" "t_size t \<le> 2 ^ 31"
    "table_size t \<noteq> 0" "hops_sound (t_size t) (home ops t) (value_at t) (maps_at t)"
proof -
  from assms obtain k where k: "k \<le> 31" "t_size t = 2 ^ k" by (auto simp: table_sound_def)
  then show "\<exists>k \<le> 31. t_size t = 2 ^ k" "0 < t_size t" by auto
  show "t_size t \<le> 2 ^ 31" unfolding k(2) by (rule power_increasing [OF k(1)]) simp
  show "table_size t \<noteq> 0" using k(2) by auto
qed (use assms in \<open>simp_all add: table_sound_def\<close>)

lemma slot_less: "table_sound ops t \<Longrightarrow> table_lookup t h < t_size t"
  by (simp add: slot_of_less soundD(5))

lemma slot_add: "table_sound ops t \<Longrightarrow> table_lookup t (h + of_nat i) = (table_lookup t h + i) mod t_size t"
  using soundD(1) [of ops t] slot_of_eq by fastforce

lemma set_value_fields [simp]:
  "table_size (set_value p v t) = table_size t" "table_used (set_value p v t) = table_used t"
  "old_tables (set_value p v t) = old_tables t" "ht_calloc_fails (set_value p v t) = ht_calloc_fails t"
  "ht_attempts (set_value p v t) = ht_attempts t" "ht_messages (set_value p v t) = ht_messages t"
  "length (table_cells (set_value p v t)) = length (table_cells t)" "enumerator_count (set_value p v t) = enumerator_count t"
  by (simp_all add: set_value_def)

lemma set_maps_fields [simp]:
  "table_size (set_maps p w t) = table_size t" "table_used (set_maps p w t) = table_used t"
  "old_tables (set_maps p w t) = old_tables t" "ht_calloc_fails (set_maps p w t) = ht_calloc_fails t"
  "ht_attempts (set_maps p w t) = ht_attempts t" "ht_messages (set_maps p w t) = ht_messages t"
  "length (table_cells (set_maps p w t)) = length (table_cells t)" "enumerator_count (set_maps p w t) = enumerator_count t"
  by (simp_all add: set_maps_def)

lemma value_set_value: "p < length (table_cells t) \<Longrightarrow> value_at (set_value p v t) q = (if q = p then v else value_at t q)"
  by (simp add: set_value_def nth_list_update_if)

lemma maps_set_value [simp]: "maps_at (set_value p v t) q = maps_at t q"
  by (cases "p < length (table_cells t)") (simp_all add: set_value_def nth_list_update_if list_update_beyond)

lemma value_set_maps [simp]: "value_at (set_maps p w t) q = value_at t q"
  by (cases "p < length (table_cells t)") (simp_all add: set_maps_def nth_list_update_if list_update_beyond)

lemma maps_set_maps: "p < length (table_cells t) \<Longrightarrow> maps_at (set_maps p w t) q = (if q = p then w else maps_at t q)"
  by (simp add: set_maps_def nth_list_update_if)

section \<open>Moving the gap\<close>

text \<open>
  Position \<open>j\<close> counted from the home of the value that is inserted, whose hash is \<open>h\<close>.
\<close>

abbreviation pos :: "'v hash_table \<Rightarrow> uint32 \<Rightarrow> nat \<Rightarrow> nat" where
  "pos t h j \<equiv> table_lookup t (h + of_nat j)"

lemma pos_inj:
  assumes "table_sound ops t" "pos t h i = pos t h j" "i < t_size t" "j < t_size t"
  shows "i = j"
  using assms slot_add [OF assms(1)] ring_inj by metis

lemma pos_cover:
  assumes "table_sound ops t" "p < t_size t"
  obtains j where "j < t_size t" "p = pos t h j"
  using ring_cover [OF assms(2) slot_less [OF assms(1)]] slot_add [OF assms(1)] by metis

text \<open>What a move keeps.\<close>

definition same_table :: "'v hash_table \<Rightarrow> 'v hash_table \<Rightarrow> bool" where
  "same_table t t' \<longleftrightarrow> table_size t' = table_size t \<and> table_used t' = table_used t \<and>
     old_tables t' = old_tables t \<and> ht_messages t' = ht_messages t \<and> entries t' = entries t \<and>
     (hops_once (t_size t) (value_at t) \<longrightarrow> hops_once (t_size t) (value_at t'))"

text \<open>The gap at distance \<open>i\<close> from the home has moved to distance \<open>j\<close>.\<close>

definition gap_moved :: "uint32 \<Rightarrow> nat \<Rightarrow> nat \<Rightarrow> 'v hash_table \<Rightarrow> 'v hash_table \<Rightarrow> bool" where
  "gap_moved h i j t t' \<longleftrightarrow> j < t_size t \<and> j \<noteq> i \<and> value_at t (pos t h j) \<noteq> None \<and>
     (\<forall>x < t_size t. value_at t' (pos t h x) = None \<longleftrightarrow> x = j \<or> (x \<noteq> i \<and> value_at t (pos t h x) = None))"

lemma move_entry_eq:
  assumes s: "table_sound ops t" and e: "e < t_size t"
    and d: "unat (fromHash - hash) = Suc m"
  shows "value_at (move_entry t fromHash hash hop e) = (value_at t)(e := value_at t (pos t hash hop), pos t hash hop := None)"
    and "maps_at (move_entry t fromHash hash hop e) = moved_maps (maps_at t) (table_lookup t hash) hop m"
    and "table_size (move_entry t fromHash hash hop e) = table_size t"
    and "table_used (move_entry t fromHash hash hop e) = table_used t"
    and "old_tables (move_entry t fromHash hash hop e) = old_tables t"
    and "ht_messages (move_entry t fromHash hash hop e) = ht_messages t"
    and "length (table_cells (move_entry t fromHash hash hop e)) = length (table_cells t)"
  using e slot_less [OF s, of hash] slot_less [OF s, of "hash + of_nat hop"] soundD(2) [OF s] d
  by (auto simp: move_entry_def Let_def fun_eq_iff value_set_value maps_set_maps moved_maps_def)

lemma entry_at_hop:
  assumes s: "table_sound ops t"
    and mv: "gap_move ops t fromHash hash = Some (Some (hash', hop))"
  obtains v where "hash' = hash" "value_at t (pos t hash hop) = Some v" "home ops t v = table_lookup t hash"
    "value_at t (table_lookup t hash) \<noteq> None" "hop < t_size t" "hop \<le> 32" "hash + of_nat hop < fromHash \<or> hop = 0"
    "hop = 0 \<Longrightarrow> HASH_VALUE ops v = hash"
proof -
  from mv obtain u where u: "value_at t (table_lookup t hash) = Some u" and eq: "hash' = hash"
    and c: "hop = 0 \<and> HASH_VALUE ops u = hash \<or>
        (0 < hop \<and> hop = ffs (maps_at t (table_lookup t hash)) \<and> hash + of_nat hop < fromHash)"
    by (auto simp: gap_move_def Let_def split: option.splits if_splits)
  show thesis
  proof (cases "hop = 0")
    case True
    then show thesis using that [of u] u eq c soundD(3) [OF s] by simp
  next
    case False
    then obtain n where n: "hop = Suc n" by (cases hop) auto
    have f: "ffs (maps_at t (table_lookup t hash)) = Suc n" "hash + of_nat hop < fromHash" using c False n by metis+
    from ffs_Suc [OF f(1)] have b: "bit (maps_at t (table_lookup t hash)) n" "n < 32" by auto
    from hops_soundD [OF soundD(6) [OF s] slot_less [OF s] b(1)]
    obtain v where v: "Suc n < t_size t" "value_at t ((table_lookup t hash + Suc n) mod t_size t) = Some v"
      "home ops t v = table_lookup t hash" by blast
    have q: "pos t hash hop = (table_lookup t hash + Suc n) mod t_size t" unfolding n by (rule slot_add [OF s])
    show thesis by (rule that [of v]) (use eq v u f(2) b(2) n q in simp_all)
  qed
qed

text \<open>One move.\<close>

lemma move_entry_ok:
  assumes s: "table_sound ops t" and big: "64 \<le> t_size t"
    and e: "e = table_lookup t fromHash" "value_at t e = None"
    and d: "unat (fromHash - hash) = Suc m" "m < 32"
    and v: "value_at t (pos t hash hop) = Some v" "home ops t v = table_lookup t hash" "hop < t_size t"
      "value_at t (table_lookup t hash) \<noteq> None"
  defines "t' \<equiv> move_entry t fromHash hash hop e"
  shows "table_sound ops t'" "same_table t t'" "value_at t' (pos t hash hop) = None"
    "table_full ops (Some e) t \<Longrightarrow> table_full ops (Some (pos t hash hop)) t'"
proof -
  let ?b = "table_lookup t hash" and ?q = "pos t hash hop" and ?S = "t_size t"
  have el: "e < ?S" and ql: "?q < ?S" and bl: "?b < ?S" using slot_less [OF s] e(1) by auto
  note eqs = move_entry_eq [OF s el d(1), of hop, folded t'_def]
  have f: "fromHash = hash + of_nat (Suc m)" by (simp flip: d(1))
  have em: "e = (?b + Suc m) mod ?S" unfolding e(1) f by (rule slot_add [OF s])
  have qm: "?q = (?b + hop) mod ?S" by (rule slot_add [OF s])
  have V: "value_at t' = (value_at t)(e \<mapsto> v, ?q := None)" using eqs(1) v(1) by simp
  have S: "t_size t' = ?S" using eqs(3) by simp
  have m: "Suc m < ?S" using d(2) big by simp
  have "hops_sound ?S (home ops t) (value_at t') (maps_at t')"
    unfolding V eqs(2) by (rule sound_move [OF soundD(6) [OF s] bl v(2) qm v(1,3) em e(2) m d(2)])
  moreover have "card (filled ?S (value_at t')) = card (filled ?S (value_at t))"
    unfolding V by (rule card_filled_move [OF ql el v(1) e(2)])
  ultimately show "table_sound ops t'" using s eqs by (simp add: table_sound_def)
  have "entries t' = entries t" unfolding entries_def S V by (rule stored_move [OF ql el v(1) e(2)])
  moreover have "hops_once ?S (value_at t) \<longrightarrow> hops_once ?S (value_at t')"
    unfolding V using once_move [of ?S "value_at t" ?q v e] v(1) e(2) ql by blast
  ultimately show "same_table t t'" using eqs(3-6) S by (simp add: same_table_def)
  show "value_at t' ?q = None" using fun_cong [OF V, of ?q] by simp
  assume "table_full ops (Some e) t"
  then have "hops_full ?S (home ops t) (Some e) (value_at t) (maps_at t)" by (simp add: table_full_def)
  from full_move [OF this bl v(2) qm v(1,3) _ em e(2) m d(2)] v(4)
  have "hops_full ?S (home ops t) (Some ?q) (value_at t') (maps_at t')" unfolding V eqs(2) by blast
  then show "table_full ops (Some ?q) t'" using eqs(3) by (simp add: table_full_def)
qed

text \<open>The window before a gap at least 32 cells after the home.\<close>

lemma gap_window_elem:
  assumes x: "hash \<in> set (gap_window fromHash)" and f: "fromHash = h + of_nat i" and i: "32 \<le> i" "i < 2 ^ 32"
  obtains m where "m < 32" "hash = h + of_nat (i - Suc m)" "unat (fromHash - hash) = Suc m"
proof -
  from x obtain j where j: "j < 32" "hash = fromHash - 32 + of_nat j"
    by (auto simp: gap_window_def split: if_splits)
  let ?m = "31 - j"
  have jm: "of_nat j = (31 :: uint32) - of_nat ?m" using j(1) by (simp add: of_nat_diff)
  have im: "of_nat (i - Suc ?m) = (of_nat i :: uint32) - of_nat (Suc ?m)" using i(1) j(1) by (simp add: of_nat_diff)
  have eq: "hash = h + of_nat (i - Suc ?m)" unfolding j(2) f im jm by (simp add: algebra_simps)
  have "fromHash - hash = of_nat (Suc ?m)" unfolding eq f im by simp
  moreover have "unat (of_nat (Suc ?m) :: uint32) = Suc ?m" using j(1) by (simp only: unat_of_nat) simp
  ultimately show thesis using that [of ?m] eq j(1) by simp
qed

lemma gap_window_short: "unat fromHash < 32 \<Longrightarrow> gap_window fromHash = []"
  by (auto simp: gap_window_def word_less_nat_alt unat_sub_if' word_le_nat_alt)

lemma scanM_not_fault: "(\<And>x. x \<in> set xs \<Longrightarrow> f x \<noteq> None) \<Longrightarrow> scanM f xs \<noteq> None"
  by (induction xs) (force split: bind_splits option.splits)+

text \<open>
  The situation in which the gap is moved: it is at distance \<open>i\<close> from the home and all cells
  before it are occupied.
\<close>

definition gap_ahead :: "uint32 \<Rightarrow> nat \<Rightarrow> 'v hash_table \<Rightarrow> bool" where
  "gap_ahead h i t \<longleftrightarrow> i < t_size t \<and> value_at t (pos t h i) = None \<and> (\<forall>j < i. value_at t (pos t h j) \<noteq> None)"

text \<open>No hash of the probe sequence comes close to the end of the 32-bit range.\<close>

definition no_wrap :: "nat \<Rightarrow> uint32 \<Rightarrow> bool" where
  "no_wrap S h \<longleftrightarrow> unat h + S + 32 \<le> 2 ^ 32"

lemma unat_pos: "unat h + j < 2 ^ 32 \<Longrightarrow> unat (h + of_nat j :: uint32) = unat h + j"
  by (simp add: unat_word_ariths unat_of_nat)

lemma mod_once: "\<not> a + b < m \<Longrightarrow> b \<le> c \<Longrightarrow> a < m \<Longrightarrow> c \<le> m \<Longrightarrow> 0 < c \<Longrightarrow> (a + b) mod m < (c :: nat)"
  by (cases "a + b - m < m") (simp_all add: mod_if)

lemma wrap_small:
  assumes "\<not> unat (hash :: uint32) + hop < 2 ^ 32" "hop \<le> 32"
  shows "unat (hash + of_nat hop) < 32"
proof -
  have "unat (hash + of_nat hop) = (unat hash + hop) mod 2 ^ 32" by (simp add: unat_word_ariths unat_of_nat mod_simps)
  moreover have "(unat hash + hop) mod 2 ^ 32 < 32" using assms by (intro mod_once) simp_all
  ultimately show ?thesis by simp
qed

lemma same_table_trans: "same_table t u \<Longrightarrow> same_table u w \<Longrightarrow> same_table t w"
  by (simp add: same_table_def)

lemma gap_moved_trans:
  assumes "gap_moved h i j t u" "gap_moved h j k u w" "table_size u = table_size t" "value_at t (pos t h i) = None" "k \<noteq> i"
  shows "gap_moved h i k t w"
proof -
  define F where "F x \<longleftrightarrow> value_at t (pos t h x) = None" for x
  define G where "G x \<longleftrightarrow> value_at u (pos t h x) = None" for x
  define H where "H x \<longleftrightarrow> value_at w (pos t h x) = None" for x
  have 1: "j < t_size t" "\<not> F j" "\<And>x. x < t_size t \<Longrightarrow> G x = (x = j \<or> (x \<noteq> i \<and> F x))"
    and 2: "k < t_size t" "k \<noteq> j" "\<not> G k" "\<And>x. x < t_size t \<Longrightarrow> H x = (x = k \<or> (x \<noteq> j \<and> G x))"
    using assms(1,2) by (auto simp: gap_moved_def assms(3) F_def G_def H_def simp del: not_None_eq)
  have "H x = (x = k \<or> (x \<noteq> i \<and> F x))" if "x < t_size t" for x using 1 2 that by metis
  moreover have "\<not> F k" using 1(3) 2(1,3) assms(5) by metis
  ultimately show ?thesis using 2(1) assms(5) by (simp add: gap_moved_def F_def H_def del: not_None_eq)
qed

text \<open>What the recursion promises.\<close>

definition move_post ::
  "('k, 'v) table_ops \<Rightarrow> uint32 \<Rightarrow> nat \<Rightarrow> 'v hash_table \<Rightarrow> 'v hash_table \<Rightarrow> bool \<Rightarrow> bool" where
  "move_post ops h i t t' r \<longleftrightarrow> table_sound ops t' \<and> same_table t t' \<and>
     (r \<longrightarrow> (\<exists>j. gap_moved h i j t t' \<and> unat (h + of_nat j) < unat (h + of_nat i) \<and>
              (no_wrap (t_size t) h \<longrightarrow> j < i) \<and>
              ((\<forall>v \<in> entries t. HASH_VALUE ops v \<noteq> h) \<longrightarrow> j \<noteq> 0) \<and>
              (table_full ops (Some (pos t h i)) t \<longrightarrow> table_full ops (Some (pos t h j)) t')))"

lemma entry_entries: "table_sound ops t \<Longrightarrow> value_at t (table_lookup t x) = Some v \<Longrightarrow> v \<in> entries t"
  using slot_less [of ops t x] by (auto simp: entries_def stored_def)

text \<open>One step of the recursion, at distance \<open>j\<close>.\<close>

lemma move_step:
  assumes s: "table_sound ops t" and big: "64 \<le> t_size t" and g: "gap_ahead h i t" "32 \<le> i"
    and sc: "scanM (gap_move ops t (h + of_nat i)) (gap_window (h + of_nat i)) = Some (Some (hash, hop))"
  obtains m j where "m < 32" "hash = h + of_nat (i - Suc m)" "unat (h + of_nat i - hash) = Suc m" "j = i - Suc m + hop" "hop \<le> 32"
    "hash + of_nat hop = h + of_nat j" "unat (h + of_nat j) < unat (h + of_nat i)"
    "table_sound ops (move_entry t (h + of_nat i) hash hop (pos t h i))"
    "same_table t (move_entry t (h + of_nat i) hash hop (pos t h i))"
    "j < t_size t \<Longrightarrow> gap_moved h i j t (move_entry t (h + of_nat i) hash hop (pos t h i))"
    "no_wrap (t_size t) h \<Longrightarrow> j < i"
    "(\<forall>v \<in> entries t. HASH_VALUE ops v \<noteq> h) \<Longrightarrow> j \<noteq> 0"
    "table_full ops (Some (pos t h i)) t \<Longrightarrow> table_full ops (Some (pos t h j)) (move_entry t (h + of_nat i) hash hop (pos t h i))"
proof -
  let ?from = "h + of_nat i" and ?e = "pos t h i"
  let ?t = "move_entry t ?from hash hop ?e"
  from scanM_SomeD [OF sc] obtain x where x: "x \<in> set (gap_window ?from)" "gap_move ops t ?from x = Some (Some (hash, hop))" by blast
  from entry_at_hop [OF s x(2)] obtain v where v: "hash = x" "value_at t (pos t x hop) = Some v"
    "home ops t v = table_lookup t x" "value_at t (table_lookup t x) \<noteq> None" "hop < t_size t" "hop \<le> 32"
    "hop = 0 \<Longrightarrow> HASH_VALUE ops v = x" by metis
  have i: "i < t_size t" "i < 2 ^ 32" "value_at t ?e = None" using g(1) soundD(4) [OF s] by (auto simp: gap_ahead_def)
  from gap_window_elem [OF x(1) refl g(2) i(2)] obtain m where m: "m < 32" "x = h + of_nat (i - Suc m)" "unat (?from - x) = Suc m" by blast
  define j where "j = i - Suc m + hop"
  have hj: "hash + of_nat hop = h + of_nat j" by (simp add: v(1) m(2) j_def)
  note mv = move_entry_ok [OF s big refl i(3) m(3,1) v(2,3,5,4), folded v(1), unfolded hj]
  note eqs = move_entry_eq [OF s slot_less [OF s] m(3), of hop, folded v(1), unfolded hj]
  have less: "unat (h + of_nat j) < unat ?from" using gap_move_less(1) [OF sc] by (simp only: hj word_less_nat_alt)
  have ji: "j \<noteq> i" using less by auto
  have gm: "gap_moved h i j t ?t" if jS: "j < t_size t"
  proof -
    have ne: "pos t h x = pos t h y \<longleftrightarrow> x = y" if "x < t_size t" "y < t_size t" for x y
      using pos_inj [OF s _ that] by auto
    have "value_at t (pos t h j) \<noteq> None" using v(2) by (simp only: hj flip: v(1)) simp
    then show ?thesis unfolding gap_moved_def using jS ji i(1) ne eqs(1) by (simp add: fun_eq_iff)
  qed
  have jlt: "j < i" if "no_wrap (t_size t) h"
  proof -
    have "unat h + j < 2 ^ 32" "unat h + i < 2 ^ 32" using that i(1) v(6) g(2) m(1) by (auto simp: no_wrap_def j_def)
    then show ?thesis using less by (simp only: unat_pos)
  qed
  have nz: "j \<noteq> 0" if fresh: "\<forall>v \<in> entries t. HASH_VALUE ops v \<noteq> h"
  proof
    assume "j = 0"
    then have "hop = 0" "x = h" using m(2) by (auto simp: j_def)
    then show False using fresh entry_entries [OF s v(2)] v(7) by simp
  qed
  show thesis
    by (rule that [OF m(1) _ _ j_def v(6) hj less mv(1,2) gm jlt nz]) (use m v(1) mv(4) in auto)
qed

lemma move_gap_ok:
  assumes "table_sound ops t" "64 \<le> t_size t" "gap_ahead h i t" "32 \<le> i"
  shows "\<exists>t' r. table_move_gap ops t (h + of_nat i) h (pos t h i) = Some (t', r) \<and> move_post ops h i t t' r"
  using assms
proof (induction "unat (h + of_nat i)" arbitrary: t i rule: less_induct)
  case less
  note s = less.prems(1) and big = less.prems(2) and g = less.prems(3,4)
  let ?from = "h + of_nat i" and ?e = "pos t h i"
  have i32: "i < 2 ^ 32" using g(1) soundD(4) [OF s] by (auto simp: gap_ahead_def)
  have "gap_move ops t ?from x \<noteq> None" if x: "x \<in> set (gap_window ?from)" for x
  proof -
    from gap_window_elem [OF x refl g(2) i32] obtain m where "x = h + of_nat (i - Suc m)" by blast
    then have "value_at t (table_lookup t x) \<noteq> None" using g by (simp add: gap_ahead_def)
    then show ?thesis by (auto simp: gap_move_def)
  qed
  then obtain sc where sc: "scanM (gap_move ops t ?from) (gap_window ?from) = Some sc" using scanM_not_fault by blast
  show ?case
  proof (cases sc)
    case None
    then have "table_move_gap ops t ?from h ?e = Some (t, False)" using sc by (subst table_move_gap.simps) simp
    then show ?thesis using s by (auto simp: move_post_def same_table_def)
  next
    case (Some y)
    obtain hash hop where y: "y = (hash, hop)" by (cases y)
    let ?t = "move_entry t ?from hash hop ?e"
    from sc Some y have sc': "scanM (gap_move ops t ?from) (gap_window ?from) = Some (Some (hash, hop))" by simp
    from move_step [OF s big g sc'] obtain m j where m: "m < 32" "hash = h + of_nat (i - Suc m)" "unat (?from - hash) = Suc m"
      and j: "j = i - Suc m + hop" "hop \<le> 32" "hash + of_nat hop = h + of_nat j" "unat (h + of_nat j) < unat ?from"
      and t: "table_sound ops ?t" "same_table t ?t" "j < t_size t \<Longrightarrow> gap_moved h i j t ?t"
      and nw: "no_wrap (t_size t) h \<Longrightarrow> j < i" and nz: "(\<forall>v \<in> entries t. HASH_VALUE ops v \<noteq> h) \<Longrightarrow> j \<noteq> 0"
      and full: "table_full ops (Some ?e) t \<Longrightarrow> table_full ops (Some (pos t h j)) ?t"
      by metis
    have size: "table_size ?t = table_size t" using t(2) by (simp add: same_table_def)
    have dist: "hash - h = of_nat (i - Suc m)" "unat (of_nat (i - Suc m) :: uint32) = i - Suc m"
      using m(2) i32 by (simp_all add: unat_of_nat)
    have run: "table_move_gap ops t ?from h ?e =
        (if i - Suc m < 32 then Some (?t, True) else table_move_gap ops ?t (h + of_nat j) h (pos ?t h j))"
      using sc' dist by (subst table_move_gap.simps) (simp add: Let_def j(3) size word_less_nat_alt)
    show ?thesis
    proof (cases "i - Suc m < 32")
      case True
      then have "j < t_size t" using j big by simp
      then show ?thesis using run True t j(4) nw nz full by (auto simp: move_post_def)
    next
      case far: False
      show ?thesis
      proof (cases "unat (h + of_nat j) < 32")
        case True
        then have "table_move_gap ops ?t (h + of_nat j) h (pos ?t h j) = Some (?t, False)"
          by (subst table_move_gap.simps) (simp add: gap_window_short)
        then show ?thesis using run far t by (auto simp: move_post_def)
      next
        case False
        then have "unat hash + hop < 2 ^ 32" using wrap_small [of hash hop] j(2,3) by auto
        then have "unat (h + of_nat j) = unat hash + hop" using unat_pos [of hash hop] j(3) by simp
        moreover have "unat ?from = unat hash + Suc m"
        proof -
          have "hash < ?from" using gap_move_less [OF sc'] gap_window_less by blast
          then have "unat (?from - hash) = unat ?from - unat hash" by (simp add: unat_sub order_less_imp_le)
          then show ?thesis using m(3) \<open>hash < ?from\<close> by (simp add: word_less_nat_alt)
        qed
        ultimately have jl: "j < i" using j(1,4) m(1) g(2) far by simp
        have j32: "32 \<le> j" using j(1) far by simp
        have jS: "j < t_size t" using jl g(1) by (simp add: gap_ahead_def)
        note gm = t(3) [OF jS]
        have ga: "gap_ahead h j ?t" using gm jl jS g(1) by (auto simp: gap_moved_def gap_ahead_def size)
        from less.hyps [OF j(4) t(1) _ ga j32] big size obtain t' r where
          t': "table_move_gap ops ?t (h + of_nat j) h (pos ?t h j) = Some (t', r)" "move_post ops h j ?t t' r" by auto
        have ent: "entries ?t = entries t" using t(2) by (simp add: same_table_def)
        have "move_post ops h i t t' r"
          unfolding move_post_def
        proof (intro conjI impI)
          show "table_sound ops t'" "same_table t t'" using t' t(2) same_table_trans by (auto simp: move_post_def)
          assume r
          with t'(2) obtain k where k: "gap_moved h j k ?t t'" "unat (h + of_nat k) < unat (h + of_nat j)"
            "no_wrap (t_size t) h \<longrightarrow> k < j" "(\<forall>v \<in> entries t. HASH_VALUE ops v \<noteq> h) \<longrightarrow> k \<noteq> 0"
            "table_full ops (Some (pos t h j)) ?t \<longrightarrow> table_full ops (Some (pos t h k)) t'"
            by (auto simp: move_post_def size ent)
          have "k \<noteq> i" using k(2) j(4) by auto
          then have "gap_moved h i k t t'" using gap_moved_trans [OF gm k(1) size] g(1) by (simp add: gap_ahead_def)
          then show "\<exists>j. gap_moved h i j t t' \<and> unat (h + of_nat j) < unat ?from \<and> (no_wrap (t_size t) h \<longrightarrow> j < i) \<and>
              ((\<forall>v \<in> entries t. HASH_VALUE ops v \<noteq> h) \<longrightarrow> j \<noteq> 0) \<and>
              (table_full ops (Some ?e) t \<longrightarrow> table_full ops (Some (pos t h j)) t')"
            using k full j(4) jl by (intro exI [of _ k]) auto
        qed
        then show ?thesis using run far t'(1) by simp
      qed
    qed
  qed
qed

section \<open>Rebalancing\<close>

text \<open>The sum of the hashes of the free positions, which every successful rebalancing decreases.\<close>

definition free_sum :: "'v hash_table \<Rightarrow> uint32 \<Rightarrow> nat" where
  "free_sum t h = (\<Sum>j < t_size t. if value_at t (pos t h j) = None then unat (h + of_nat j) else 0)"

lemma free_sum_less:
  assumes g: "gap_moved h i j t t'" and i: "i < t_size t" "value_at t (pos t h i) = None"
    and less: "unat (h + of_nat j) < unat (h + of_nat i)" and size: "table_size t' = table_size t"
  shows "free_sum t' h < free_sum t h"
proof -
  let ?S = "t_size t"
  let ?f = "\<lambda>x. if value_at t (pos t h x) = None then unat (h + of_nat x) else 0"
  let ?f' = "\<lambda>x. if value_at t' (pos t h x) = None then unat (h + of_nat x) else 0"
  let ?R = "{..<?S} - {i} - {j}"
  have j: "j < ?S" "j \<noteq> i" "value_at t (pos t h j) \<noteq> None" using g by (auto simp: gap_moved_def)
  have split: "(\<Sum>x < ?S. F x) = F i + (F j + sum F ?R)" for F :: "nat \<Rightarrow> nat"
    using i(1) j(1,2) by (simp add: sum.remove [of "{..<?S}" i] sum.remove [of "{..<?S} - {i}" j])
  have "sum ?f' ?R = sum ?f ?R" using g by (intro sum.cong) (auto simp: gap_moved_def)
  moreover have "?f' i = 0" "?f' j = unat (h + of_nat j)" using g i(1) j by (auto simp: gap_moved_def)
  moreover have "?f i = unat (h + of_nat i)" "?f j = 0" using i j by auto
  ultimately show ?thesis using less by (simp only: free_sum_def size split)
qed

lemma free_sum_bound: "free_sum t h \<le> t_size t * 2 ^ 32"
proof -
  have "free_sum t h \<le> of_nat (card {..<t_size t}) * (2 ^ 32)"
    unfolding free_sum_def by (rule sum_bounded_above) (use unat_u32_lt in \<open>auto intro: less_imp_le\<close>)
  then show ?thesis by simp
qed

lemma find_upt_least:
  "find P [a..<b] = Some i \<Longrightarrow> P i \<and> a \<le> i \<and> i < b \<and> (\<forall>j. a \<le> j \<and> j < i \<longrightarrow> \<not> P j)"
proof -
  assume "find P [a..<b] = Some i"
  then obtain n where n: "n < b - a" "P (a + n)" "i = a + n" "\<forall>j < n. \<not> P (a + j)"
    by (auto simp: find_Some_iff)
  have "\<not> P j" if "a \<le> j" "j < i" for j using n(4) [rule_format, of "j - a"] that n(3) by auto
  with n show ?thesis by auto
qed

lemma power_of_two_64: "k \<le> 31 \<Longrightarrow> 32 < (2 :: nat) ^ k \<Longrightarrow> 64 \<le> (2 :: nat) ^ k"
proof -
  assume "32 < (2 :: nat) ^ k"
  then have "\<not> k \<le> 5" using power_increasing [of k 5 "2 :: nat"] by auto
  then have "6 \<le> k" by simp
  then have "(2 :: nat) ^ 6 \<le> 2 ^ k" by (rule power_increasing) simp
  then show ?thesis by simp
qed

lemma rebalance_ok:
  assumes s: "table_sound ops t" and near: "\<forall>j \<le> 32. value_at t (pos t h j) \<noteq> None"
  shows "\<exists>t' r. table_rebalance ops t h = Some (t', r) \<and> table_sound ops t' \<and> same_table t t' \<and>
    (r \<longrightarrow> (\<exists>i. gap_ahead h i t \<and> move_post ops h i t t' r))"
proof (cases "find (\<lambda>i. value_at t (pos t h i) = None) [32..<t_size t]")
  case None
  then show ?thesis using s by (intro exI [of _ t] exI [of _ False]) (simp add: table_rebalance_def same_table_def)
next
  case (Some i)
  from find_upt_least [OF this] have i: "value_at t (pos t h i) = None" "32 \<le> i" "i < t_size t"
    "\<forall>j. 32 \<le> j \<and> j < i \<longrightarrow> value_at t (pos t h j) \<noteq> None" by auto
  have "value_at t (pos t h j) \<noteq> None" if "j < i" for j
    using near i(4) that by (cases "j \<le> 32") auto
  then have g: "gap_ahead h i t" using i by (simp add: gap_ahead_def)
  have "64 \<le> t_size t" using soundD(1) [OF s] i(2,3) near i(1) power_of_two_64 by force
  from move_gap_ok [OF s this g i(2)] obtain t' r where
    "table_move_gap ops t (h + of_nat i) h (pos t h i) = Some (t', r)" "move_post ops h i t t' r" by blast
  then show ?thesis using Some g by (auto simp: table_rebalance_def move_post_def)
qed

end
