(* ===== verification/Objc_Hash_Insert.thy ===== *)
theory Objc_Hash_Insert
  imports Objc_Hash_Gap
begin

text \<open>
  Insertion into the hopscotch table and its growth: the insertion terminates, is safe, and either
  reports a failure on \<open>stderr\<close> or stores the value and keeps every other entry.
\<close>

unbundle bit_operations_syntax

section \<open>Resizing\<close>

text \<open>The depth of the recursion through resizes and the retries after a rebalancing.\<close>

definition depth_bound :: "nat \<Rightarrow> nat" where
  "depth_bound S = (2 ^ 32 - S) * 2 ^ 34"

definition insert_depth :: "'v hash_table \<Rightarrow> uint32 \<Rightarrow> nat" where
  "insert_depth t h = depth_bound (t_size t) + free_sum t h + 1"

lemma depth_step:
  assumes "0 < S" "2 * S \<le> S'" "S' \<le> 2 ^ 31"
  shows "depth_bound S' + S' * 2 ^ 32 + 1 \<le> depth_bound S"
  using assms by (simp add: depth_bound_def diff_mult_distrib)

lemma insert_depth_grown:
  assumes "table_sound ops s" "0 < S" "2 * S \<le> t_size s"
  shows "insert_depth s h \<le> depth_bound S"
  using depth_step [OF assms(2,3) soundD(4) [OF assms(1)]] free_sum_bound [of s h] by (simp add: insert_depth_def)

text \<open>The table in which \<open>value\<close> can be stored: complete, or with a gap the rebalancing has made.\<close>

definition table_ready :: "('k, 'v) table_ops \<Rightarrow> 'v \<Rightarrow> 'v hash_table \<Rightarrow> bool" where
  "table_ready ops v t \<longleftrightarrow> table_full ops None t \<or>
     (\<exists>i > 0. gap_ahead (HASH_VALUE ops v) i t \<and> table_full ops (Some (pos t (HASH_VALUE ops v) i)) t)"

text \<open>No two values have the same hash and no probe sequence wraps around the 32-bit range.\<close>

definition good_hashes :: "('k, 'v) table_ops \<Rightarrow> nat \<Rightarrow> 'v set \<Rightarrow> bool" where
  "good_hashes ops S X \<longleftrightarrow> inj_on (HASH_VALUE ops) X \<and> (\<forall>v \<in> X. no_wrap S (HASH_VALUE ops v))"

definition insert_post :: "('k, 'v) table_ops \<Rightarrow> 'v hash_table \<Rightarrow> 'v \<Rightarrow> 'v hash_table \<Rightarrow> bool \<Rightarrow> bool" where
  "insert_post ops t v t' r \<longleftrightarrow>
     table_sound ops t' \<and> t_size t \<le> t_size t' \<and> entries t' \<subseteq> insert v (entries t) \<and> ht_messages t \<le> ht_messages t' \<and>
     (old_tables t = [] \<longrightarrow> old_tables t' = []) \<and> (ht_messages t' = ht_messages t \<longrightarrow> r) \<and>
     (ht_messages t' = ht_messages t \<and> v \<notin> entries t \<and> good_hashes ops (t_size t') (insert v (entries t)) \<and> table_ready ops v t \<longrightarrow>
        entries t' = insert v (entries t) \<and> table_full ops None t')"

lemma good_hashes_mono: "good_hashes ops S X \<Longrightarrow> S' \<le> S \<Longrightarrow> Y \<subseteq> X \<Longrightarrow> good_hashes ops S' Y"
  by (force simp: good_hashes_def no_wrap_def intro: inj_on_subset)

text \<open>The values of an array.\<close>

definition cell_values :: "'v table_cell list \<Rightarrow> 'v list" where
  "cell_values cs = List.map_filter cell_value cs"

lemma cell_values_simps [simp]:
  "cell_values [] = []"
  "cell_values (c # cs) = (case cell_value c of None \<Rightarrow> cell_values cs | Some v \<Rightarrow> v # cell_values cs)"
  by (simp_all add: cell_values_def map_filter_simps split: option.splits)

lemma set_cell_values: "set (cell_values cs) = stored (length cs) (\<lambda>p. cell_value (cs ! p))"
proof -
  have "set (cell_values cs) = {v. \<exists>c \<in> set cs. cell_value c = Some v}"
    by (induction cs) (auto split: option.splits)
  moreover have "(\<exists>c \<in> set cs. cell_value c = Some v) \<longleftrightarrow> (\<exists>p < length cs. cell_value (cs ! p) = Some v)" for v
    by (metis in_set_conv_nth)
  ultimately show ?thesis by (simp add: stored_def)
qed

lemma distinct_cell_values: "hops_once (length cs) (\<lambda>p. cell_value (cs ! p)) \<Longrightarrow> distinct (cell_values cs)"
proof (induction cs)
  case (Cons c cs)
  have "hops_once (length cs) (\<lambda>p. cell_value (cs ! p))"
    unfolding hops_once_def
  proof (intro allI impI)
    fix p q v
    assume "p < length cs" "q < length cs" "cell_value (cs ! p) = Some v \<and> cell_value (cs ! q) = Some v"
    then have "Suc p = Suc q" using Cons.prems unfolding hops_once_def by (metis Suc_less_eq length_Cons nth_Cons_Suc)
    then show "p = q" by simp
  qed
  then have IH: "distinct (cell_values cs)" by (rule Cons.IH)
  have "v \<notin> set (cell_values cs)" if "cell_value c = Some v" for v
  proof
    assume "v \<in> set (cell_values cs)"
    then obtain p where "p < length cs" "cell_value (cs ! p) = Some v" by (auto simp: set_cell_values stored_def)
    then have "Suc p = 0" using Cons.prems that unfolding hops_once_def
      by (metis Suc_less_eq length_Cons nth_Cons_0 nth_Cons_Suc zero_less_Suc)
    then show False by simp
  qed
  with IH show ?case by (auto split: option.splits)
qed simp

text \<open>Reinserting a list of values.\<close>

lemma reinsert_ok:
  assumes ins: "\<And>s v. table_sound ops s \<Longrightarrow> N \<le> t_size s \<Longrightarrow> \<exists>s' r. ins s v = Some (s', r) \<and> insert_post ops s v s' r"
    and s: "table_sound ops s" "N \<le> t_size s"
  shows "\<exists>s'. foldM (\<lambda>s c. case cell_value c of None \<Rightarrow> Some s | Some v \<Rightarrow> map_option fst (ins s v)) s cs = Some s' \<and>
    table_sound ops s' \<and> t_size s \<le> t_size s' \<and> entries s' \<subseteq> entries s \<union> set (cell_values cs) \<and> ht_messages s \<le> ht_messages s' \<and>
    (ht_messages s' = ht_messages s \<and> distinct (cell_values cs) \<and> set (cell_values cs) \<inter> entries s = {} \<and>
       good_hashes ops (t_size s') (entries s \<union> set (cell_values cs)) \<and> table_full ops None s \<longrightarrow>
     entries s' = entries s \<union> set (cell_values cs) \<and> table_full ops None s')"
  using s
proof (induction cs arbitrary: s)
  case (Cons c cs)
  show ?case
  proof (cases "cell_value c")
    case None
    then show ?thesis using Cons.IH [OF Cons.prems] by simp
  next
    case (Some v)
    from ins [OF Cons.prems, of v] obtain s1 r where s1: "ins s v = Some (s1, r)" and p: "insert_post ops s v s1 r" by blast
    have "table_sound ops s1" "N \<le> t_size s1" using p Cons.prems(2) by (auto simp: insert_post_def)
    from Cons.IH [OF this] obtain s' where
      run: "foldM (\<lambda>s c. case cell_value c of None \<Rightarrow> Some s | Some v \<Rightarrow> map_option fst (ins s v)) s1 cs = Some s'"
      and q: "table_sound ops s'" "t_size s1 \<le> t_size s'" "entries s' \<subseteq> entries s1 \<union> set (cell_values cs)" "ht_messages s1 \<le> ht_messages s'"
      and full: "ht_messages s' = ht_messages s1 \<and> distinct (cell_values cs) \<and> set (cell_values cs) \<inter> entries s1 = {} \<and>
         good_hashes ops (t_size s') (entries s1 \<union> set (cell_values cs)) \<and> table_full ops None s1 \<longrightarrow>
         entries s' = entries s1 \<union> set (cell_values cs) \<and> table_full ops None s'" by blast
    have p': "t_size s \<le> t_size s1" "entries s1 \<subseteq> insert v (entries s)" "ht_messages s \<le> ht_messages s1"
      "ht_messages s1 = ht_messages s \<and> v \<notin> entries s \<and> good_hashes ops (t_size s1) (insert v (entries s)) \<and> table_full ops None s \<longrightarrow>
        entries s1 = insert v (entries s) \<and> table_full ops None s1"
      using p by (auto simp: insert_post_def table_ready_def)
    have "entries s' = entries s \<union> set (cell_values (c # cs)) \<and> table_full ops None s'"
      if a: "ht_messages s' = ht_messages s" "distinct (cell_values (c # cs))" "set (cell_values (c # cs)) \<inter> entries s = {}"
        "good_hashes ops (t_size s') (entries s \<union> set (cell_values (c # cs)))" "table_full ops None s"
    proof -
      have m: "ht_messages s1 = ht_messages s" using a(1) p'(3) q(4) by simp
      have "good_hashes ops (t_size s1) (insert v (entries s))"
        by (rule good_hashes_mono [OF a(4) q(2)]) (use Some in auto)
      then have e1: "entries s1 = insert v (entries s)" "table_full ops None s1" using p'(4) m a Some by auto
      have "good_hashes ops (t_size s') (entries s1 \<union> set (cell_values cs))"
        by (rule good_hashes_mono [OF a(4) order_refl]) (use Some e1 in auto)
      then have "entries s' = entries s1 \<union> set (cell_values cs) \<and> table_full ops None s'" using full m a e1 Some by auto
      then show ?thesis using e1 Some by auto
    qed
    then show ?thesis using run s1 Some q p' by auto
  qed
qed simp

text \<open>An empty table.\<close>

lemma blank_table:
  assumes "t_size t = 2 ^ k" "k \<le> 31" "table_cells t = replicate (t_size t) null_cell" "table_used t = 0"
  shows "table_sound ops t" "table_full ops None t" "entries t = {}"
  using assms
  by (auto simp: table_sound_def table_full_def hops_full_def hops_sound_def hops_placed_def hops_tidy_def hops_once_def
      entries_def stored_def filled_def null_cell_def)

definition resize_post :: "('k, 'v) table_ops \<Rightarrow> 'v hash_table \<Rightarrow> 'v hash_table \<Rightarrow> bool \<Rightarrow> bool" where
  "resize_post ops t t' r \<longleftrightarrow>
    (\<not> r \<longrightarrow> (\<exists>n. t' = t\<lparr>ht_attempts := n\<rparr>)) \<and>
    (r \<longrightarrow> table_sound ops t' \<and> 2 * t_size t \<le> t_size t' \<and> entries t' \<subseteq> entries t \<and> ht_messages t \<le> ht_messages t' \<and>
      old_tables t' = [] \<and>
      (ht_messages t' = ht_messages t \<and> good_hashes ops (t_size t') (entries t) \<and> hops_once (t_size t) (value_at t) \<longrightarrow>
        entries t' = entries t \<and> table_full ops None t'))"

lemma resize_post_refused: "resize_post ops t t False"
proof -
  have "t = t\<lparr>ht_attempts := ht_attempts t\<rparr>" by simp
  then show ?thesis unfolding resize_post_def by blast
qed

lemma resize_ok:
  assumes ins: "\<And>s v. table_sound ops s \<Longrightarrow> 2 * t_size t \<le> t_size s \<Longrightarrow> \<exists>s' r. ins s v = Some (s', r) \<and> insert_post ops s v s' r"
    and s: "table_sound ops t"
  shows "\<exists>t' r. table_resize ins cell_bytes t = Some (t', r) \<and> resize_post ops t t' r"
proof -
  obtain k where k: "k \<le> 31" "t_size t = 2 ^ k" using soundD(1) [OF s] by blast
  show ?thesis
  proof (cases "UINT32_MAX div 2 < table_size t")
    case True
    then show ?thesis using resize_post_refused by (intro exI [of _ t] exI [of _ False]) (simp add: table_resize_def)
  next
    case small: False
    have nz: "table_size t \<noteq> 0" using soundD(5) [OF s] .
    obtain t1 arr where a: "alloc_cells cell_bytes t (table_size t * 2) = (t1, arr)" by fastforce
    obtain n1 where t1: "t1 = t\<lparr>ht_attempts := n1\<rparr>"
      using a by (auto simp: alloc_cells_def ht_calloc_def split: if_splits) (metis hash_table.surjective hash_table.update_convs(7))
    show ?thesis
    proof (cases arr)
      case None
      then show ?thesis using a t1 small nz by (intro exI [of _ t1] exI [of _ False]) (auto simp: table_resize_def resize_post_def)
    next
      case (Some cells)
      have cells: "cells = replicate (unat (table_size t * 2)) null_cell"
        using a Some by (auto simp: alloc_cells_def ht_calloc_def split: if_splits)
      obtain t2 ok where t2: "ht_calloc t1 = (t2, ok)" by fastforce
      then obtain n2 where n2: "t2 = t\<lparr>ht_attempts := n2\<rparr>" using t1 by (auto simp: ht_calloc_def)
      show ?thesis
      proof (cases ok)
        case False
        then show ?thesis using a Some t2 n2 small nz
          by (intro exI [of _ t2] exI [of _ False]) (auto simp: table_resize_def resize_post_def)
      next
        case True
        define t3 where "t3 = t2\<lparr>old_tables := (table_size t2, table_cells t2) # old_tables t2, table_cells := cells,
                             table_size := table_size t * 2, table_used := 0\<rparr>"
        have k30: "k \<le> 30" using small k by (cases "k = 31") (auto simp: word_less_nat_alt UINT32_MAX_def not_less)
        have size: "t_size t3 = 2 * t_size t"
        proof -
          have "(2 :: nat) ^ k \<le> 2 ^ 30" using k30 by (rule power_increasing) simp
          then show ?thesis using k by (simp add: t3_def unat_word_ariths)
        qed
        have "table_sound ops t3" "table_full ops None t3" "entries t3 = {}"
          using blank_table [of t3 "Suc k"] size k k30 cells by (auto simp: t3_def)
        note t3 = this
        have v: "set (cell_values (table_cells t)) = entries t"
          by (simp add: set_cell_values entries_def soundD(2) [OF s])
        have d: "hops_once (t_size t) (value_at t) \<Longrightarrow> distinct (cell_values (table_cells t))"
          using distinct_cell_values [of "table_cells t"] soundD(2) [OF s] by simp
        from reinsert_ok [of ops "2 * t_size t" ins t3 "table_cells t", OF ins t3(1)] size t3(2,3)
        obtain t4 where t4: "foldM (\<lambda>s c. case cell_value c of None \<Rightarrow> Some s | Some v \<Rightarrow> map_option fst (ins s v)) t3 (table_cells t) = Some t4"
          "table_sound ops t4" "t_size t3 \<le> t_size t4" "entries t4 \<subseteq> entries t" "ht_messages t3 \<le> ht_messages t4"
          "ht_messages t4 = ht_messages t3 \<and> distinct (cell_values (table_cells t)) \<and> good_hashes ops (t_size t4) (entries t) \<longrightarrow>
           entries t4 = entries t \<and> table_full ops None t4" by (auto simp: v)
        have run: "table_resize ins cell_bytes t = Some (t4\<lparr>old_tables := []\<rparr>, True)"
          using a Some t2 True small nz t4(1) n2 by (simp add: table_resize_def Let_def t3_def)
        have same: "table_sound ops (t4\<lparr>old_tables := []\<rparr>) = table_sound ops t4" "entries (t4\<lparr>old_tables := []\<rparr>) = entries t4"
          "table_full ops None (t4\<lparr>old_tables := []\<rparr>) = table_full ops None t4"
          by (simp_all add: table_sound_def entries_def table_full_def)
        have "ht_messages t3 = ht_messages t" by (simp add: t3_def n2)
        then show ?thesis using run t4 size d same by (intro exI [of _ "t4\<lparr>old_tables := []\<rparr>"] exI [of _ True]) (auto simp: resize_post_def)
      qed
    qed
  qed
qed

section \<open>Insertion\<close>

text \<open>Storing the value in the home cell or in the cell of a hop.\<close>

lemma used_Suc: "unat (u :: uint32) = n \<Longrightarrow> n < 2 ^ 31 \<Longrightarrow> unat (u + 1) = Suc n"
  by (simp add: unat_word_ariths)

lemma filled_card_less:
  assumes "p < S" "V p = None"
  shows "card (filled S V) < S"
proof -
  have "filled S V \<subseteq> {..<S} - {p}" using assms by (auto simp: filled_def)
  then have "card (filled S V) \<le> card ({..<S} - {p})" by (intro card_mono) simp_all
  then show ?thesis using assms by (simp add: card_Diff_singleton)
qed

lemma post_store:
  assumes s: "table_sound ops t" and q: "q < t_size t" "value_at t q = None"
    and V: "value_at t' = (value_at t)(q \<mapsto> v)" and f: "table_size t' = table_size t" "table_used t' = table_used t + 1"
      "old_tables t' = old_tables t" "ht_messages t' = ht_messages t" "length (table_cells t') = length (table_cells t)"
    and h: "hops_sound (t_size t) (home ops t) (value_at t') (maps_at t')"
    and full: "v \<notin> entries t \<Longrightarrow> table_ready ops v t \<Longrightarrow> hops_full (t_size t) (home ops t) None (value_at t') (maps_at t')"
  shows "insert_post ops t v t' True"
proof -
  have c: "card (filled (t_size t) (value_at t)) < t_size t" using q by (rule filled_card_less)
  have "unat (table_used t') = Suc (card (filled (t_size t) (value_at t)))"
    unfolding f(2) by (rule used_Suc) (use s c soundD(4) [OF s] in \<open>auto simp: table_sound_def\<close>)
  also have "\<dots> = card (filled (t_size t) (value_at t'))"
    unfolding V filled_upd [OF q(1)] using q(2) by (subst card_insert_disjoint) (auto simp: filled_def)
  finally have "table_sound ops t'" using s f h by (simp add: table_sound_def)
  moreover have "entries t' = insert v (entries t)" unfolding entries_def f(1) V by (rule stored_upd [where V = "value_at t", OF q])
  ultimately show ?thesis using f full by (auto simp: insert_post_def table_full_def)
qed

lemma ready_placed:
  assumes "table_ready ops v t"
  obtains gap where "table_full ops gap t" "gap = None \<or> (\<exists>i > 0. gap = Some (pos t (HASH_VALUE ops v) i) \<and> gap_ahead (HASH_VALUE ops v) i t)"
  using assms by (auto simp: table_ready_def)

lemma store_home_ok:
  assumes s: "table_sound ops t" and c: "cell = home ops t v" "value_at t cell = None"
  shows "insert_post ops t v ((set_value cell (Some v) (set_maps cell 0 t))\<lparr>table_used := table_used t + 1\<rparr>) True"
proof -
  have l: "cell < t_size t" "cell < length (table_cells t)" using slot_less [OF s] soundD(2) [OF s] c(1) by auto
  let ?t = "(set_value cell (Some v) (set_maps cell 0 t))\<lparr>table_used := table_used t + 1\<rparr>"
  have V: "value_at ?t = (value_at t)(cell \<mapsto> v)" and W: "maps_at ?t = (maps_at t)(cell := 0)"
    using l by (auto simp: value_set_value maps_set_maps)
  show ?thesis
  proof (rule post_store [OF s l(1) c(2) V])
    show "hops_sound (t_size t) (home ops t) (value_at ?t) (maps_at ?t)"
      unfolding V W by (rule sound_store_home [OF soundD(6) [OF s] c(2) l(1)])
    assume v: "v \<notin> entries t" and "table_ready ops v t"
    then have "table_full ops None t"
      using c by (auto simp: table_ready_def gap_ahead_def dest: spec [of _ 0])
    then have f: "hops_full (t_size t) (home ops t) None (value_at t) (maps_at t)" by (simp only: table_full_def)
    have "v \<notin> stored (t_size t) (value_at t)" using v by (simp only: entries_def) simp
    from full_store_home [where V = "value_at t", OF f c(2) l(1) c(1) [symmetric] this]
    show "hops_full (t_size t) (home ops t) None (value_at ?t) (maps_at ?t)" unfolding V W .
  qed simp_all
qed

lemma store_hop_ok:
  assumes s: "table_sound ops t" and c: "cell = home ops t v" "value_at t cell \<noteq> None"
    and i: "value_at t (pos t (HASH_VALUE ops v) i) = None" "1 \<le> i" "i < 33"
      "\<forall>j. 1 \<le> j \<and> j < i \<longrightarrow> value_at t (pos t (HASH_VALUE ops v) j) \<noteq> None"
  shows "insert_post ops t v ((set_value (pos t (HASH_VALUE ops v) i) (Some v)
    (set_maps cell (maps_at t cell OR hop_bit i) t))\<lparr>table_used := table_used t + 1\<rparr>) True"
proof -
  let ?h = "HASH_VALUE ops v" and ?S = "t_size t"
  let ?q = "pos t ?h i"
  let ?t = "(set_value ?q (Some v) (set_maps cell (maps_at t cell OR hop_bit i) t))\<lparr>table_used := table_used t + 1\<rparr>"
  obtain m where m: "i = Suc m" "m < 32" using i(2,3) by (cases i) auto
  have l: "?q < ?S" "cell < ?S" "length (table_cells t) = ?S" using slot_less [OF s] soundD(2) [OF s] c(1) by auto
  have before: "value_at t (pos t ?h j) \<noteq> None" if "j < i" for j using i(4) c that by (cases "j = 0") auto
  have iS: "i < ?S"
  proof (rule ccontr)
    assume "\<not> i < ?S"
    then have "i mod ?S < i" using l(1) soundD(3) [OF s] by (metis leI mod_less_divisor order_less_le_trans)
    moreover have "pos t ?h (i mod ?S) = ?q" by (simp add: slot_add [OF s] mod_simps)
    ultimately show False using before i(1) by metis
  qed
  have V: "value_at ?t = (value_at t)(?q \<mapsto> v)" and W: "maps_at ?t = (maps_at t)(cell := maps_at t cell OR push_bit m 1)"
    using l m by (auto simp: value_set_value maps_set_maps)
  have q: "?q = (cell + Suc m) mod ?S" unfolding c(1) m(1) by (rule slot_add [OF s])
  show ?thesis
  proof (rule post_store [OF s l(1) i(1) V])
    show "hops_sound ?S (home ops t) (value_at ?t) (maps_at ?t)"
      unfolding V W by (rule sound_store_hop [OF soundD(6) [OF s] l(2) c(1) [symmetric] q i(1) _ m(2)]) (use iS m in simp)
    assume v: "v \<notin> entries t" and rd: "table_ready ops v t"
    from rd obtain gap where g: "table_full ops gap t" "gap = None \<or> (\<exists>k > 0. gap = Some (pos t ?h k) \<and> gap_ahead ?h k t)"
      by (rule ready_placed)
    have gap: "gap = None \<or> gap = Some ?q"
    proof -
      have "k = i" if "gap_ahead ?h k t" for k
        using that before i(1) by (metis gap_ahead_def linorder_neqE_nat)
      then show ?thesis using g(2) by blast
    qed
    have f: "hops_full ?S (home ops t) gap (value_at t) (maps_at t)" using g(1) by (simp only: table_full_def)
    have new: "v \<notin> stored ?S (value_at t)" using v by (simp only: entries_def) simp
    have "Suc m < ?S" using iS m by simp
    from full_store_hop [where V = "value_at t", OF f l(2) c(1) [symmetric] c(2) new q i(1) this m(2) gap]
    show "hops_full ?S (home ops t) None (value_at ?t) (maps_at ?t)" unfolding V W .
  qed simp_all
qed

lemma attempts_irrelevant [simp]:
  "table_sound ops (t\<lparr>ht_attempts := n\<rparr>) = table_sound ops t" "entries (t\<lparr>ht_attempts := n\<rparr>) = entries t"
  "table_full ops gap (t\<lparr>ht_attempts := n\<rparr>) = table_full ops gap t" "gap_ahead h i (t\<lparr>ht_attempts := n\<rparr>) = gap_ahead h i t"
  "table_ready ops v (t\<lparr>ht_attempts := n\<rparr>) = table_ready ops v t" "insert_depth (t\<lparr>ht_attempts := n\<rparr>) h = insert_depth t h"
  by (simp_all add: table_sound_def entries_def table_full_def gap_ahead_def table_ready_def insert_depth_def free_sum_def)

lemma messages_irrelevant [simp]:
  "table_sound ops (t\<lparr>ht_messages := n\<rparr>) = table_sound ops t" "entries (t\<lparr>ht_messages := n\<rparr>) = entries t"
  by (simp_all add: table_sound_def entries_def)

lemma ready_once: "table_ready ops v t \<Longrightarrow> hops_once (t_size t) (value_at t)"
  by (auto simp: table_ready_def table_full_def hops_full_def)

text \<open>Retrying the insertion in a table with the same entries, or with the entries a resize kept.\<close>

lemma post_retry:
  assumes p: "insert_post ops u v t' r" and s: "t_size t \<le> t_size u" "entries u \<subseteq> entries t" "ht_messages t \<le> ht_messages u"
    and o: "old_tables t = [] \<longrightarrow> old_tables u = []"
    and rd: "ht_messages u = ht_messages t \<Longrightarrow> v \<notin> entries t \<Longrightarrow> good_hashes ops (t_size u) (insert v (entries t)) \<Longrightarrow>
        table_ready ops v t \<Longrightarrow> entries u = entries t \<and> table_ready ops v u"
  shows "insert_post ops t v t' r"
proof -
  have q: "table_sound ops t'" "t_size u \<le> t_size t'" "entries t' \<subseteq> insert v (entries u)" "ht_messages u \<le> ht_messages t'"
    "old_tables u = [] \<longrightarrow> old_tables t' = []" "ht_messages t' = ht_messages u \<longrightarrow> r"
    using p by (auto simp: insert_post_def)
  have "entries t' = insert v (entries t) \<and> table_full ops None t'"
    if a: "ht_messages t' = ht_messages t" "v \<notin> entries t" "good_hashes ops (t_size t') (insert v (entries t))" "table_ready ops v t"
  proof -
    have m: "ht_messages u = ht_messages t" using a(1) s(3) q(4) by simp
    from rd [OF m a(2) good_hashes_mono [OF a(3) q(2)] a(4)] have e: "entries u = entries t" "table_ready ops v u" by auto
    then show ?thesis using p a m by (auto simp: insert_post_def)
  qed
  then show ?thesis using q s o unfolding insert_post_def by auto
qed

lemma post_failed: "table_sound ops t \<Longrightarrow> insert_post ops t v (t\<lparr>ht_messages := Suc (ht_messages t)\<rparr>) False"
  by (auto simp: insert_post_def)

text \<open>A gap the rebalancing has made is where the retry stores the value.\<close>

lemma moved_ready:
  assumes g: "gap_ahead h i t" and m: "move_post ops h i t t' True" and h: "h = HASH_VALUE ops v"
    and hashes: "good_hashes ops (t_size t) (insert v (entries t))" and v: "v \<notin> entries t" and rd: "table_ready ops v t"
  shows "table_ready ops v t'"
proof -
  from rd obtain gap where gap: "table_full ops gap t"
    "gap = None \<or> (\<exists>k > 0. gap = Some (pos t h k) \<and> gap_ahead h k t)" unfolding h by (rule ready_placed)
  have "k = i" if "gap_ahead h k t" for k using that g by (metis gap_ahead_def linorder_neqE_nat)
  then have "table_full ops (Some (pos t h i)) t"
    using gap by (auto simp: table_full_def hops_full_def intro: hops_tidy_weaken)
  moreover from hashes v have "no_wrap (t_size t) h" "\<forall>u \<in> entries t. HASH_VALUE ops u \<noteq> h"
    by (auto simp: good_hashes_def h inj_on_def)
  ultimately obtain j where j: "gap_moved h i j t t'" "j < i" "j \<noteq> 0" "table_full ops (Some (pos t h j)) t'"
    using m by (auto simp: move_post_def)
  have size: "table_size t' = table_size t" using m by (simp add: move_post_def same_table_def)
  have "gap_ahead h j t'" using j g by (auto simp: gap_moved_def gap_ahead_def size)
  with j size show ?thesis unfolding table_ready_def h by auto
qed

lemma same_table_refl [simp]: "same_table t t" by (simp add: same_table_def)

text \<open>Retrying after a resize, after a rebalancing, and giving up.\<close>

lemma resize_retry:
  assumes same: "same_table t u0" and p: "resize_post ops u0 u True" and q: "insert_post ops u v t' r"
  shows "insert_post ops t v t' r"
proof (rule post_retry [OF q])
  assume a: "ht_messages u = ht_messages t" "good_hashes ops (t_size u) (insert v (entries t))" "table_ready ops v t"
  have "hops_once (t_size u0) (value_at u0)" using same ready_once [OF a(3)] by (simp add: same_table_def)
  moreover have "good_hashes ops (t_size u) (entries u0)"
    by (rule good_hashes_mono [OF a(2) order_refl]) (use same in \<open>auto simp: same_table_def\<close>)
  ultimately show "entries u = entries t \<and> table_ready ops v u"
    using p a(1) same by (simp add: resize_post_def same_table_def table_ready_def)
qed (use p same in \<open>auto simp: resize_post_def same_table_def\<close>)

lemma moved_retry:
  assumes g: "gap_ahead (HASH_VALUE ops v) i t" and m: "move_post ops (HASH_VALUE ops v) i t u True" and q: "insert_post ops u v t' r"
  shows "insert_post ops t v t' r"
proof (rule post_retry [OF q])
  have same: "same_table t u" using m by (simp add: move_post_def)
  then show "t_size t \<le> t_size u" "entries u \<subseteq> entries t" "ht_messages t \<le> ht_messages u" "old_tables t = [] \<longrightarrow> old_tables u = []"
    by (simp_all add: same_table_def)
  assume "v \<notin> entries t" "good_hashes ops (t_size u) (insert v (entries t))" "table_ready ops v t"
  with moved_ready [OF g m refl] same show "entries u = entries t \<and> table_ready ops v u" by (simp add: same_table_def)
qed

lemma give_up:
  "same_table t u \<Longrightarrow> table_sound ops u \<Longrightarrow> insert_post ops t v (u\<lparr>ht_attempts := n, ht_messages := Suc (ht_messages u)\<rparr>) False"
  by (auto simp: insert_post_def same_table_def)

lemma depth_moved:
  assumes "gap_ahead h i t" "move_post ops h i t u True"
  shows "insert_depth u h < insert_depth t h"
proof -
  from assms(2) obtain j where "gap_moved h i j t u" "unat (h + of_nat j) < unat (h + of_nat i)" "table_size u = table_size t"
    by (auto simp: move_post_def same_table_def)
  with free_sum_less [of h i j t u] assms(1) show ?thesis by (simp add: insert_depth_def gap_ahead_def)
qed

text \<open>The part of the insertion that finds no free cell near the home.\<close>

lemma crowded_ok:
  assumes s: "table_sound ops t" and near: "\<forall>j \<le> 32. value_at t (pos t (HASH_VALUE ops v) j) \<noteq> None"
    and grown: "\<And>s v. table_sound ops s \<Longrightarrow> 2 * t_size t \<le> t_size s \<Longrightarrow> \<exists>s' r. ins s v = Some (s', r) \<and> insert_post ops s v s' r"
    and again: "\<And>u. table_sound ops u \<Longrightarrow> insert_depth u (HASH_VALUE ops v) < insert_depth t (HASH_VALUE ops v) \<Longrightarrow>
      \<exists>s' r. ins u v = Some (s', r) \<and> insert_post ops u v s' r"
  shows "\<exists>t' r. do {
        (t1, resized) \<leftarrow> (if nearly_full t then table_resize ins cell_bytes t else Some (t, False));
        if resized then ins t1 v
        else do {
          (t2, moved) \<leftarrow> table_rebalance ops t1 (HASH_VALUE ops v);
          if moved then ins t2 v
          else do {
            (t3, grown) \<leftarrow> table_resize ins cell_bytes t2;
            if grown then ins t3 v else Some (t3\<lparr>ht_messages := Suc (ht_messages t3)\<rparr>, False)
          }
        }
      } = Some (t', r) \<and> insert_post ops t v t' r"
proof -
  let ?h = "HASH_VALUE ops v"
  obtain t1 r1 where t1: "(if nearly_full t then table_resize ins cell_bytes t else Some (t, False)) = Some (t1, r1)" "resize_post ops t t1 r1"
  proof (cases "nearly_full t")
    case True
    then show thesis using resize_ok [OF grown s] that by auto
  next
    case False
    show thesis by (rule that [of t False]) (use False resize_post_refused in simp_all)
  qed
  show ?thesis
  proof (cases r1)
    case True
    then have p: "resize_post ops t t1 True" using t1(2) by simp
    then obtain t' r where "ins t1 v = Some (t', r)" "insert_post ops t1 v t' r" using grown [of t1 v] by (auto simp: resize_post_def)
    then show ?thesis using t1(1) True resize_retry [OF same_table_refl p] by auto
  next
    case False
    then obtain n where n: "t1 = t\<lparr>ht_attempts := n\<rparr>" using t1(2) by (auto simp: resize_post_def)
    from rebalance_ok [of ops t1 ?h] s near n obtain t2 r2 where
      t2: "table_rebalance ops t1 ?h = Some (t2, r2)" "table_sound ops t2" "same_table t1 t2"
      "r2 \<longrightarrow> (\<exists>i. gap_ahead ?h i t1 \<and> move_post ops ?h i t1 t2 r2)" by auto
    have attempt: "insert_post ops t v t' r" if "insert_post ops t1 v t' r" for t' r
      using that n by (simp add: insert_post_def)
    show ?thesis
    proof (cases r2)
      case True
      with t2(4) obtain i where i: "gap_ahead ?h i t1" "move_post ops ?h i t1 t2 True" by auto
      have "insert_depth t2 ?h < insert_depth t ?h" using depth_moved [OF i] n by simp
      from again [OF t2(2) this] obtain t' r where "ins t2 v = Some (t', r)" "insert_post ops t2 v t' r" by blast
      then show ?thesis using t1(1) \<open>\<not> r1\<close> t2(1) True attempt [OF moved_retry [OF i]] by auto
    next
      case stuck: False
      have grown2: "\<exists>s' r. ins s w = Some (s', r) \<and> insert_post ops s w s' r" if "table_sound ops s" "2 * t_size t2 \<le> t_size s" for s w
        using grown [of s w] that t2(3) n by (simp add: same_table_def)
      from resize_ok [OF grown2 t2(2), where cell_bytes = cell_bytes] obtain t3 r3 where
        t3: "table_resize ins cell_bytes t2 = Some (t3, r3)" "resize_post ops t2 t3 r3" by blast
      show ?thesis
      proof (cases r3)
        case True
        then have p: "resize_post ops t2 t3 True" using t3(2) by simp
        then obtain t' r where t': "ins t3 v = Some (t', r)" "insert_post ops t3 v t' r" using grown2 [of t3 v] by (auto simp: resize_post_def)
        have "insert_post ops t v t' r" by (rule attempt [OF resize_retry [OF t2(3) p t'(2)]])
        then show ?thesis using t1(1) \<open>\<not> r1\<close> t2(1) stuck t3(1) True t'(1) by auto
      next
        case False
        then obtain n3 where "t3 = t2\<lparr>ht_attempts := n3\<rparr>" using t3(2) by (auto simp: resize_post_def)
        with attempt [OF give_up [OF t2(3,2), of v n3]] show ?thesis using t1(1) \<open>\<not> r1\<close> t2(1) stuck t3(1) False by auto
      qed
    qed
  qed
qed

lemma insert_ok:
  assumes "table_sound ops t" "insert_depth t (HASH_VALUE ops v) \<le> fuel"
  shows "\<exists>t' r. table_insert fuel ops cell_bytes t v = Some (t', r) \<and> insert_post ops t v t' r"
  using assms
proof (induction fuel arbitrary: t v)
  case 0
  then show ?case by (simp add: insert_depth_def)
next
  case (Suc fuel)
  note s = Suc.prems(1)
  let ?h = "HASH_VALUE ops v" and ?ins = "table_insert fuel ops cell_bytes"
  have depth: "depth_bound (t_size t) \<le> fuel" using Suc.prems(2) by (simp add: insert_depth_def)
  have grown: "\<exists>s' r. ?ins s v = Some (s', r) \<and> insert_post ops s v s' r" if "table_sound ops s" "2 * t_size t \<le> t_size s" for s v
    using Suc.IH [OF that(1), of v] insert_depth_grown [OF that(1) soundD(3) [OF s] that(2)] depth by (meson le_trans)
  show ?case
  proof (cases "value_at t (table_lookup t ?h) = None")
    case True
    then show ?thesis using store_home_ok [OF s refl True] by (simp add: Let_def) metis
  next
    case full: False
    show ?thesis
    proof (cases "find (\<lambda>i. value_at t (pos t ?h i) = None) [1..<33]")
      case (Some i)
      note least = find_upt_least [OF this]
      let ?t = "(set_value (pos t ?h i) (Some v)
          (set_maps (home ops t v) (maps_at t (home ops t v) OR hop_bit i) t))\<lparr>table_used := table_used t + 1\<rparr>"
      have "table_insert (Suc fuel) ops cell_bytes t v = Some (?t, True)" using Some full by (auto simp: Let_def)
      moreover have "insert_post ops t v ?t True" by (rule store_hop_ok [OF s refl full]) (use least in auto)
      ultimately show ?thesis by (intro exI conjI)
    next
      case None
      have near: "value_at t (pos t ?h j) \<noteq> None" if "j \<le> 32" for j
        using None full that by (cases "j = 0") (auto simp: find_None_iff)
      have "\<exists>s' r. ?ins u v = Some (s', r) \<and> insert_post ops u v s' r"
        if "table_sound ops u" "insert_depth u ?h < insert_depth t ?h" for u
        using Suc.IH [OF that(1), of v] that(2) Suc.prems(2) by simp
      note crowded = crowded_ok [OF s _ grown this, where cell_bytes = cell_bytes]
      obtain y where "value_at t (home ops t v) = Some y" using full by blast
      with crowded near None show ?thesis by (simp add: Let_def)
    qed
  qed
qed

end
