(* ===== verification/Objc_Hash_Thms.thy ===== *)
theory Objc_Hash_Thms
  imports Objc_Hash_Insert
begin

text \<open>
  The hopscotch table implements a set of values that is searched by key: lookup, removal,
  insertion, and what the enumeration visits.
\<close>

unbundle bit_operations_syntax

section \<open>Lookup\<close>

text \<open>
  The contract of the template's parameters: a key has the hash of every value it is equal to. The
  including files promise it.
\<close>

locale hash_keys =
  fixes ops :: "('k, 'v) table_ops"
  assumes hash_agrees: "COMPARE_FUNCTION ops k v \<Longrightarrow> HASH_KEY ops k = HASH_VALUE ops v"
begin

text \<open>The loop over the hop bits visits every entry that is displaced from the cell.\<close>

lemma hop_search_ok:
  assumes s: "table_sound ops t" and sub: "\<And>n. bit jump n \<Longrightarrow> bit (maps_at t (table_lookup t (HASH_KEY ops k))) n"
  shows "\<exists>r. hop_search ops (table_size t) (table_cells t) k jump = Some r \<and>
    (\<forall>p. r = Some p \<longrightarrow> p < t_size t \<and> (\<exists>v. value_at t p = Some v \<and> COMPARE_FUNCTION ops k v)) \<and>
    (r = None \<longrightarrow> (\<forall>n v. bit jump n \<and> value_at t (pos t (HASH_KEY ops k) (Suc n)) = Some v \<longrightarrow> \<not> COMPARE_FUNCTION ops k v))"
  using sub
proof (induction "unat jump" arbitrary: jump rule: less_induct)
  case less
  let ?h = "HASH_KEY ops k"
  show ?case
  proof (cases "jump = 0")
    case True
    then show ?thesis by (subst hop_search.simps) simp
  next
    case False
    then obtain m where m: "ffs jump = Suc m" by (cases "ffs jump") auto
    have b: "bit jump m" using ffs_Suc [OF m] by simp
    let ?q = "pos t ?h (Suc m)"
    from hops_soundD(2) [OF soundD(6) [OF s] slot_less [OF s] less.prems [OF b]] slot_add [OF s, of ?h "Suc m"]
    obtain v where v: "value_at t ?q = Some v" by auto
    let ?j = "jump AND NOT (push_bit m 1)"
    have run: "hop_search ops (table_size t) (table_cells t) k jump =
        (if COMPARE_FUNCTION ops k v then Some (Some ?q) else hop_search ops (table_size t) (table_cells t) k ?j)"
      using False m v by (subst hop_search.simps) (simp add: Let_def)
    have bits: "bit ?j n \<longleftrightarrow> bit jump n \<and> n \<noteq> m" for n by (simp add: bit_clear_hop)
    show ?thesis
    proof (cases "COMPARE_FUNCTION ops k v")
      case True
      then show ?thesis using run v slot_less [OF s] by auto
    next
      case no: False
      from less.hyps [of ?j] unat_clear_bit [OF b] less.prems bits obtain r where
        "hop_search ops (table_size t) (table_cells t) k ?j = Some r"
        "\<forall>p. r = Some p \<longrightarrow> p < t_size t \<and> (\<exists>v. value_at t p = Some v \<and> COMPARE_FUNCTION ops k v)"
        "r = None \<longrightarrow> (\<forall>n v. bit ?j n \<and> value_at t (pos t ?h (Suc n)) = Some v \<longrightarrow> \<not> COMPARE_FUNCTION ops k v)" by metis
      then show ?thesis using run no v bits by (metis option.inject)
    qed
  qed
qed

lemma get_cell_ok:
  assumes s: "table_sound ops t" and f: "table_full ops None t"
  shows "\<exists>r. get_cell_in ops (table_size t) (table_cells t) k = Some r \<and>
    (\<forall>p. r = Some p \<longrightarrow> p < t_size t \<and> (\<exists>v. value_at t p = Some v \<and> COMPARE_FUNCTION ops k v)) \<and>
    (r = None \<longrightarrow> (\<forall>v \<in> entries t. \<not> COMPARE_FUNCTION ops k v))"
proof -
  let ?b = "table_lookup t (HASH_KEY ops k)"
  have b: "?b < t_size t" by (rule slot_less [OF s])
  have where_is: "value_at t ?b \<noteq> None \<and> (value_at t ?b = Some v \<or>
      (\<exists>n. bit (maps_at t ?b) n \<and> value_at t (pos t (HASH_KEY ops k) (Suc n)) = Some v))"
    if v: "v \<in> entries t" "COMPARE_FUNCTION ops k v" for v
  proof -
    from v(1) obtain p where p: "p < t_size t" "value_at t p = Some v" by (auto simp: entries_def stored_def)
    have h: "home ops t v = ?b" using hash_agrees [OF v(2)] by simp
    with f p consider "p = ?b" | n where "bit (maps_at t ?b) n" "p = (?b + Suc n) mod t_size t"
      by (force simp: table_full_def hops_full_def hops_placed_def)
    then show ?thesis
    proof cases
      case 2
      then have "maps_at t ?b \<noteq> 0" by auto
      then have "value_at t ?b \<noteq> None" using f b by (auto simp: table_full_def hops_full_def hops_tidy_def)
      with 2 p show ?thesis using slot_add [OF s, of "HASH_KEY ops k"] by metis
    qed (use p in simp)
  qed
  show ?thesis
  proof (cases "value_at t ?b")
    case None
    then show ?thesis using where_is by (auto simp: get_cell_in_def Let_def)
  next
    case (Some u)
    show ?thesis
    proof (cases "COMPARE_FUNCTION ops k u")
      case True
      then show ?thesis using Some b by (auto simp: get_cell_in_def Let_def)
    next
      case False
      with Some have "get_cell_in ops (table_size t) (table_cells t) k =
          hop_search ops (table_size t) (table_cells t) k (maps_at t ?b)" by (simp add: get_cell_in_def Let_def)
      with hop_search_ok [OF s, of "maps_at t ?b" k] obtain r where
        r: "get_cell_in ops (table_size t) (table_cells t) k = Some r"
        "\<forall>p. r = Some p \<longrightarrow> p < t_size t \<and> (\<exists>v. value_at t p = Some v \<and> COMPARE_FUNCTION ops k v)"
        "r = None \<longrightarrow> (\<forall>n v. bit (maps_at t ?b) n \<and> value_at t (pos t (HASH_KEY ops k) (Suc n)) = Some v \<longrightarrow> \<not> COMPARE_FUNCTION ops k v)"
        by auto
      have "\<not> COMPARE_FUNCTION ops k v" if none: "r = None" and v: "v \<in> entries t" for v
      proof
        assume c: "COMPARE_FUNCTION ops k v"
        from where_is [OF v c] Some False c none r(3) show False by auto
      qed
      with r(1,2) show ?thesis by blast
    qed
  qed
qed

end

section \<open>Removal\<close>

lemma slot_of_nat:
  assumes "unat n = 2 ^ k" "k \<le> 32" "p < unat n"
  shows "slot_of n (of_nat p + of_nat hop) = (p + hop) mod unat n"
proof -
  have "p < 4294967296" using assms(3) unat_u32_lt [of n] by linarith
  then have "slot_of n (of_nat p) = p" using assms(3) by (simp add: slot_of_def unat_mod unat_of_nat)
  then show ?thesis using slot_of_eq [OF assms(1,2), of "of_nat p" hop] by simp
qed

text \<open>
  \<open>_table_move_second\<close> on a cell whose value is obsolete: the invariant is that of the table
  without the value.
\<close>

definition vacant :: "('k, 'v) table_ops \<Rightarrow> 'v hash_table \<Rightarrow> nat \<Rightarrow> bool" where
  "vacant ops t p \<longleftrightarrow> p < t_size t \<and>
     hops_sound (t_size t) (home ops t) ((value_at t)(p := None)) (maps_at t) \<and>
     hops_full (t_size t) (home ops t) (Some p) ((value_at t)(p := None)) (maps_at t)"

definition vacated :: "('k, 'v) table_ops \<Rightarrow> 'v hash_table \<Rightarrow> nat \<Rightarrow> 'v hash_table \<Rightarrow> bool" where
  "vacated ops t p t' \<longleftrightarrow> table_size t' = table_size t \<and> table_used t' = table_used t \<and> old_tables t' = old_tables t \<and>
     length (table_cells t') = length (table_cells t) \<and>
     hops_sound (t_size t) (home ops t) (value_at t') (maps_at t') \<and>
     hops_full (t_size t) (home ops t) None (value_at t') (maps_at t') \<and>
     stored (t_size t) (value_at t') = stored (t_size t) ((value_at t)(p := None)) \<and>
     card (filled (t_size t) (value_at t')) = card (filled (t_size t) ((value_at t)(p := None)))"

lemma vacate_end:
  assumes v: "vacant ops t p" and l: "length (table_cells t) = t_size t" and z: "maps_at t p = 0"
  shows "vacated ops t p (set_value p None t)"
proof -
  have "value_at (set_value p None t) = (value_at t)(p := None)"
    using v l by (auto simp: value_set_value vacant_def)
  then show ?thesis using v z full_no_gap by (auto simp: vacated_def vacant_def)
qed

lemma move_second_ok:
  assumes "vacant ops t p" "length (table_cells t) = t_size t" "maps_at t p \<noteq> 0" "\<exists>k \<le> 31. t_size t = 2 ^ k"
  shows "\<exists>t'. table_move_second t p = Some t' \<and> vacated ops t p t'"
  using assms
proof (induction t p rule: table_move_second.induct)
  case (1 t p)
  note v = 1(2) and l = 1(3) and nz = 1(4)
  let ?S = "t_size t" and ?V = "(value_at t)(p := None)"
  obtain m where m: "ffs (maps_at t p) = Suc m" using nz by (cases "ffs (maps_at t p)") auto
  have b: "bit (maps_at t p) m" using ffs_Suc [OF m] by simp
  let ?q = "(p + Suc m) mod ?S"
  have pS: "p < ?S" and so: "hops_sound ?S (home ops t) ?V (maps_at t)" and fu: "hops_full ?S (home ops t) (Some p) ?V (maps_at t)"
    using v by (auto simp: vacant_def)
  from return_home [OF so fu pS _ b] obtain u where u: "?V ?q = Some u" "?q < ?S" "?q \<noteq> p"
    "hops_sound ?S (home ops t) (?V(p \<mapsto> u, ?q := None)) ((maps_at t)(p := maps_at t p AND NOT (push_bit m 1)))"
    "hops_full ?S (home ops t) (Some ?q) (?V(p \<mapsto> u, ?q := None)) ((maps_at t)(p := maps_at t p AND NOT (push_bit m 1)))" by auto
  have q: "table_lookup t (of_nat p + of_nat (Suc m)) = ?q"
  proof -
    from 1(5) obtain k where k: "k \<le> 31" "?S = 2 ^ k" by blast
    then have "k \<le> 32" by simp
    from slot_of_nat [OF k(2) this pS] show ?thesis .
  qed
  define t1 where "t1 = set_maps p (maps_at t p AND NOT (hop_bit (Suc m))) (set_value p (value_at t ?q) t)"
  have V1: "value_at t1 = (value_at t)(p \<mapsto> u)" and W1: "maps_at t1 = (maps_at t)(p := maps_at t p AND NOT (push_bit m 1))"
    using pS l u by (auto simp: t1_def value_set_value maps_set_maps)
  have f1: "table_size t1 = table_size t" "table_used t1 = table_used t" "old_tables t1 = old_tables t" "length (table_cells t1) = length (table_cells t)"
    by (simp_all add: t1_def)
  have V1q: "(value_at t1)(?q := None) = ?V(p \<mapsto> u, ?q := None)" unfolding V1 by simp
  have vac: "vacant ops t1 ?q" unfolding vacant_def f1(1) V1q W1 using u by simp
  have run: "table_move_second t p = (if maps_at t1 ?q = 0 then Some (set_value ?q None t1) else table_move_second t1 ?q)"
    using nz l pS q m by (subst table_move_second.simps) (simp add: Let_def t1_def)
  have lift: "vacated ops t p t'" if "vacated ops t1 ?q t'" for t'
  proof -
    have "stored ?S ((value_at t1)(?q := None)) = stored ?S ?V" "card (filled ?S ((value_at t1)(?q := None))) = card (filled ?S ?V)"
      unfolding V1q using stored_move [of ?q ?S p ?V u] card_filled_move [of ?q ?S p ?V u] u pS by simp_all
    then show ?thesis using that f1 by (simp add: vacated_def)
  qed
  show ?case
  proof (cases "maps_at t1 ?q = 0")
    case True
    then show ?thesis using run lift vacate_end [OF vac _ True] l f1 by simp
  next
    case False
    have "\<exists>t'. table_move_second t1 ?q = Some t' \<and> vacated ops t1 ?q t'"
      using 1(1) [of "maps_at t p" "Suc m" ?q t1] nz l pS m q vac False f1 1(5) by (simp add: t1_def)
    then show ?thesis using run lift False by auto
  qed
qed

section \<open>The table as a set searched by key\<close>

definition table_wf :: "('k, 'v) table_ops \<Rightarrow> 'v hash_table \<Rightarrow> bool" where
  "table_wf ops t \<longleftrightarrow> table_sound ops t \<and> table_full ops None t \<and> old_tables t = []"

text \<open>The abstract search: a value equal to the key, or none.\<close>

definition found :: "('k, 'v) table_ops \<Rightarrow> 'v set \<Rightarrow> 'k \<Rightarrow> 'v option \<Rightarrow> bool" where
  "found ops X k r \<longleftrightarrow>
     (case r of None \<Rightarrow> \<forall>v \<in> X. \<not> COMPARE_FUNCTION ops k v | Some v \<Rightarrow> v \<in> X \<and> COMPARE_FUNCTION ops k v)"

definition keyed :: "('k, 'v) table_ops \<Rightarrow> 'v set \<Rightarrow> bool" where
  "keyed ops X \<longleftrightarrow> (\<forall>k. \<forall>u \<in> X. \<forall>v \<in> X. COMPARE_FUNCTION ops k u \<and> COMPARE_FUNCTION ops k v \<longrightarrow> u = v)"

lemma found_unique: "keyed ops X \<Longrightarrow> found ops X k r \<Longrightarrow> found ops X k r' \<Longrightarrow> r = r'"
  by (auto simp: found_def keyed_def split: option.splits)

context hash_keys
begin

lemma get_cell_chain_ok:
  assumes w: "table_wf ops t"
  obtains p where "table_get_cell ops t k = Some (map_option (Pair 0) p)" "p = None \<Longrightarrow> \<forall>v \<in> entries t. \<not> COMPARE_FUNCTION ops k v"
    "\<And>c. p = Some c \<Longrightarrow> c < t_size t \<and> (\<exists>v. value_at t c = Some v \<and> COMPARE_FUNCTION ops k v)"
proof -
  have o: "old_tables t = []" using w by (simp add: table_wf_def)
  from w get_cell_ok [of t k] obtain r where r: "get_cell_in ops (table_size t) (table_cells t) k = Some r"
    "\<forall>p. r = Some p \<longrightarrow> p < t_size t \<and> (\<exists>v. value_at t p = Some v \<and> COMPARE_FUNCTION ops k v)"
    "r = None \<longrightarrow> (\<forall>v \<in> entries t. \<not> COMPARE_FUNCTION ops k v)" by (auto simp: table_wf_def)
  have "table_get_cell ops t k = Some (map_option (Pair 0) r)"
    using r(1) o by (cases r) (simp_all add: table_get_cell_def)
  then show thesis using that [of r] r(2,3) by blast
qed

lemma get_ok: "table_wf ops t \<Longrightarrow> \<exists>r. table_get ops t k = Some r \<and> found ops (entries t) k r"
proof -
  assume w: "table_wf ops t"
  from get_cell_chain_ok [OF w, of k] obtain p where p: "table_get_cell ops t k = Some (map_option (Pair 0) p)"
    "p = None \<Longrightarrow> \<forall>v \<in> entries t. \<not> COMPARE_FUNCTION ops k v"
    "\<And>c. p = Some c \<Longrightarrow> c < t_size t \<and> (\<exists>v. value_at t c = Some v \<and> COMPARE_FUNCTION ops k v)" by metis
  show ?thesis
  proof (cases p)
    case None
    then show ?thesis using p(1,2) by (auto simp: table_get_def found_def)
  next
    case (Some c)
    with p(3) obtain v where v: "c < t_size t" "value_at t c = Some v" "COMPARE_FUNCTION ops k v" by blast
    have "table_get ops t k = Some (Some v)" using p(1) Some v(2) by (simp add: table_get_def chain_value_def)
    moreover have "v \<in> entries t" using v by (auto simp: entries_def stored_def)
    ultimately show ?thesis using v(3) by (auto simp: found_def)
  qed
qed

lemma keyed_hashes: "good_hashes ops S X \<Longrightarrow> keyed ops X"
  unfolding keyed_def good_hashes_def inj_on_def by (metis hash_agrees)

lemma get_exact: "table_wf ops t \<Longrightarrow> keyed ops (entries t) \<Longrightarrow> table_get ops t k = Some r \<longleftrightarrow> found ops (entries t) k r"
  using get_ok [of t k] found_unique by (metis option.inject)

text \<open>Lookups in tables whose entries differ by one value or by the values of a key.\<close>

lemma get_inserted:
  assumes "table_wf ops t" "table_wf ops t'" "entries t' = insert v (entries t)" "keyed ops (entries t')"
  shows "table_get ops t' k = (if COMPARE_FUNCTION ops k v then Some (Some v) else table_get ops t k)"
proof -
  have ku: "keyed ops (entries t)" using assms(3,4) by (auto simp: keyed_def)
  obtain r where r: "table_get ops t k = Some r" "found ops (entries t) k r" using get_ok [OF assms(1)] by blast
  have "found ops (entries t') k (if COMPARE_FUNCTION ops k v then Some v else r)"
    using r(2) assms(3) by (auto simp: found_def split: option.splits)
  then show ?thesis using get_exact [OF assms(2,4)] r(1) by auto
qed

lemma get_removed:
  assumes "table_wf ops t" "table_wf ops t'" "entries t' = {v \<in> entries t. \<not> COMPARE_FUNCTION ops key v}" "keyed ops (entries t)"
  shows "table_get ops t' k =
    (if \<exists>v \<in> entries t. COMPARE_FUNCTION ops k v \<and> COMPARE_FUNCTION ops key v then Some None else table_get ops t k)"
proof -
  have ku: "keyed ops (entries t')" using assms(3,4) by (auto simp: keyed_def)
  obtain r where r: "table_get ops t k = Some r" "found ops (entries t) k r" using get_ok [OF assms(1)] by blast
  have "found ops (entries t') k
      (if \<exists>v \<in> entries t. COMPARE_FUNCTION ops k v \<and> COMPARE_FUNCTION ops key v then None else r)"
    using r(2) assms(3,4) by (auto simp: found_def keyed_def split: option.splits)
  then have "table_get ops t' k = Some (if \<exists>v \<in> entries t. COMPARE_FUNCTION ops k v \<and> COMPARE_FUNCTION ops key v then None else r)"
    using get_exact [OF assms(2) ku] by blast
  then show ?thesis
    using r(1) by (cases "\<exists>v \<in> entries t. COMPARE_FUNCTION ops k v \<and> COMPARE_FUNCTION ops key v") auto
qed

text \<open>The cell that is removed, with its hop bit if it has one, is vacant.\<close>

lemma remove_vacant:
  assumes w: "table_wf ops t" and c: "c < t_size t" "value_at t c = Some v" "COMPARE_FUNCTION ops key v"
  defines "b \<equiv> table_lookup t (HASH_KEY ops key)"
  defines "jump \<equiv> hop_bit (nat ((int c - int b + uint (table_size t)) mod uint (table_size t)))"
  defines "t1 \<equiv> (if b \<noteq> c \<and> maps_at t b AND jump \<noteq> 0 then set_maps b (maps_at t b AND NOT jump) t else t)"
  shows "vacant ops t1 c \<and> value_at t1 = value_at t \<and> table_size t1 = table_size t \<and> table_used t1 = table_used t \<and>
    old_tables t1 = old_tables t \<and> length (table_cells t1) = length (table_cells t)"
proof -
  let ?S = "t_size t"
  have s: "table_sound ops t" and f: "hops_full ?S (home ops t) None (value_at t) (maps_at t)"
    using w by (auto simp: table_wf_def table_full_def)
  note so = soundD(6) [OF s]
  have hb: "home ops t v = b" and bS: "b < ?S" using hash_agrees [OF c(3)] slot_less [OF s] by (simp_all add: b_def)
  show ?thesis
  proof (cases "b = c")
    case True
    then show ?thesis using vacate_home [where V = "value_at t", OF so f c(1,2)] hb c(1) by (simp add: t1_def vacant_def)
  next
    case False
    with f c hb obtain n where n: "bit (maps_at t b) n" "c = (b + Suc n) mod ?S"
      by (force simp: hops_full_def hops_placed_def)
    have nS: "Suc n < ?S" using hops_soundD(1) [OF so bS n(1)] .
    have "(int c - int b + int ?S) mod int ?S = int (Suc n)"
    proof -
      have "(int c - int b + int ?S) mod int ?S = (int ((b + Suc n) mod ?S) - int b) mod int ?S" by (simp add: n(2))
      also have "\<dots> = (int (b + Suc n) - int b) mod int ?S" by (simp only: zmod_int mod_diff_left_eq)
      also have "\<dots> = int (Suc n) mod int ?S" by (simp only: of_nat_add add_diff_cancel_left')
      also have "\<dots> = int (Suc n)" using nS by (intro mod_pos_pos_trivial) (simp_all only: of_nat_less_iff of_nat_0_le_iff)
      finally show ?thesis .
    qed
    then have "nat ((int c - int b + uint (table_size t)) mod uint (table_size t)) = Suc n" by (simp only: uint_nat nat_int)
    then have j: "jump = push_bit n 1" by (simp add: jump_def)
    have nz: "maps_at t b AND jump \<noteq> 0"
    proof
      assume "maps_at t b AND jump = 0"
      then have "\<not> bit (maps_at t b AND jump) n" by simp
      then show False using n(1) bit_imp_le_length [OF n(1)] by (simp add: j bit_simps)
    qed
    have t1: "t1 = set_maps b (maps_at t b AND NOT (push_bit n 1)) t" using False nz by (simp add: t1_def j)
    have W: "maps_at t1 = (maps_at t)(b := maps_at t b AND NOT (push_bit n 1))"
      using bS soundD(2) [OF s] by (auto simp: t1 maps_set_maps)
    have V: "value_at t1 = value_at t" by (simp add: t1)
    note vac = vacate_hop [where V = "value_at t", OF so f c(2) hb bS n(2,1)]
    have "table_size t1 = table_size t" by (simp add: t1)
    with vac c(1) have "vacant ops t1 c" unfolding vacant_def W V by simp
    then show ?thesis using V by (simp add: t1)
  qed
qed

lemma remove_ok:
  assumes w: "table_wf ops t" and k: "keyed ops (entries t)"
  shows "\<exists>t'. table_remove ops t key = Some t' \<and> table_wf ops t' \<and> entries t' = {v \<in> entries t. \<not> COMPARE_FUNCTION ops key v}"
proof -
  have s: "table_sound ops t" using w by (simp add: table_wf_def)
  let ?S = "t_size t"
  from get_cell_chain_ok [OF w, of key] obtain p where p: "table_get_cell ops t key = Some (map_option (Pair 0) p)"
    "p = None \<Longrightarrow> \<forall>v \<in> entries t. \<not> COMPARE_FUNCTION ops key v"
    "\<And>c. p = Some c \<Longrightarrow> c < ?S \<and> (\<exists>v. value_at t c = Some v \<and> COMPARE_FUNCTION ops key v)" by metis
  show ?thesis
  proof (cases p)
    case None
    then show ?thesis using p w by (auto simp: table_remove_def)
  next
    case (Some c)
    with p(3) obtain v where v: "c < ?S" "value_at t c = Some v" "COMPARE_FUNCTION ops key v" by blast
    define b where "b = table_lookup t (HASH_KEY ops key)"
    define jump where "jump = hop_bit (nat ((int c - int b + uint (table_size t)) mod uint (table_size t)))"
    define t1 where "t1 = (if b \<noteq> c \<and> maps_at t b AND jump \<noteq> 0 then set_maps b (maps_at t b AND NOT jump) t else t)"
    from remove_vacant [OF w v, folded b_def, folded jump_def, folded t1_def]
    have t1: "vacant ops t1 c" "value_at t1 = value_at t" "table_size t1 = table_size t" "table_used t1 = table_used t"
      "old_tables t1 = old_tables t" "length (table_cells t1) = ?S" using soundD(2) [OF s] by auto
    obtain t2 where t2: "(if maps_at t1 c = 0 then Some (set_value c None t1) else table_move_second t1 c) = Some t2" "vacated ops t1 c t2"
    proof (cases "maps_at t1 c = 0")
      case True
      then show thesis using that vacate_end [OF t1(1)] t1(3,6) by simp
    next
      case False
      then show thesis using that move_second_ok [OF t1(1)] t1(3,6) soundD(1) [OF s] by auto
    qed
    let ?t = "t2\<lparr>table_used := table_used t2 - 1\<rparr>"
    have "table_remove ops t key =
        Option.bind (if maps_at t1 c = 0 then Some (set_value c None t1) else table_move_second t1 c)
          (\<lambda>t2. Some (t2\<lparr>table_used := table_used t2 - 1\<rparr>))"
      unfolding table_remove_def p(1) Some t1_def jump_def b_def Let_def option.map bind.bind_lunit option.case prod.case nat.case
      by (rule refl)
    then have run: "table_remove ops t key = Some ?t" by (simp only: t2(1) bind.bind_lunit)
    have st: "stored ?S (value_at t2) = stored ?S ((value_at t)(c := None))"
      and cd: "card (filled ?S (value_at t2)) = card (filled ?S ((value_at t)(c := None)))" using t2(2) t1(2,3) by (simp_all add: vacated_def)
    have once: "hops_once ?S (value_at t)" using w by (simp add: table_wf_def table_full_def hops_full_def)
    have "entries ?t = entries t - {v}"
      using st stored_vacate [where V = "value_at t", OF once v(2,1)] t2(2) t1(3) by (simp add: entries_def vacated_def)
    also have "\<dots> = {u \<in> entries t. \<not> COMPARE_FUNCTION ops key u}"
      using k v by (auto simp: keyed_def entries_def stored_def)
    finally have e: "entries ?t = {u \<in> entries t. \<not> COMPARE_FUNCTION ops key u}" .
    have "unat (table_used t2) = Suc (card (filled ?S (value_at t2)))"
      using s t2(2) t1(4) cd card_filled_vacate [where V = "value_at t", OF v(2,1)] by (simp add: table_sound_def vacated_def)
    then have "unat (table_used t2 - 1) = card (filled ?S (value_at t2))"
      by (subst unat_minus_one) auto
    then have "table_wf ops ?t"
      using t2(2) t1(3,5,6) s w by (simp add: table_wf_def table_sound_def table_full_def vacated_def)
    with run e show ?thesis by blast
  qed
qed

end

text \<open>The tables of the runtime keep the contract.\<close>

interpretation load_messages: hash_keys load_messages_ops
  by unfold_locales (simp add: load_messages_ops_def)

interpretation class_names: hash_keys "class_table_ops name"
  by unfold_locales (simp add: class_table_ops_def string_compare_def)

interpretation protocol_names: hash_keys "protocol_table_ops name"
  by unfold_locales (simp add: protocol_table_ops_def string_compare_def)

interpretation remapped_classes: hash_keys remapped_class_ops
  by unfold_locales (simp add: remapped_class_ops_def)

interpretation alias_names: hash_keys alias_table_ops
  by unfold_locales (simp add: alias_table_ops_def string_compare_def)

section \<open>Insertion and lookup, removal and lookup\<close>

lemma depth_enough: "table_sound ops t \<Longrightarrow> insert_depth t h \<le> 2 ^ 67"
  using free_sum_bound [of t h] soundD(4) [of ops t] by (simp add: insert_depth_def depth_bound_def)

text \<open>
  C7: an insertion into a well-formed table terminates without a fault and never invents an entry.
  If it writes no failure to \<open>stderr\<close>, no two values have the same hash and no probe wraps around
  the 32-bit range, it succeeds, the table stays well-formed and from then on a lookup finds the new
  value for exactly the keys equal to it and what it found before for every other key, however often
  the insertion rebalanced or resized the table.
\<close>

theorem hash_table_insert_lookup:
  assumes "hash_keys ops" "table_wf ops t" "v \<notin> entries t" "2 ^ 67 \<le> fuel"
  shows "\<exists>t' r. table_insert fuel ops cell_bytes t v = Some (t', r) \<and>
    table_sound ops t' \<and> entries t' \<subseteq> insert v (entries t) \<and>
    (ht_messages t' = ht_messages t \<and> good_hashes ops (unat (table_size t')) (insert v (entries t)) \<longrightarrow>
      r \<and> table_wf ops t' \<and> entries t' = insert v (entries t) \<and>
      (\<forall>k. table_get ops t' k = (if COMPARE_FUNCTION ops k v then Some (Some v) else table_get ops t k)))"
proof -
  have s: "table_sound ops t" "table_full ops None t" "old_tables t = []" using assms(2) by (simp_all add: table_wf_def)
  from insert_ok [OF s(1) order_trans [OF depth_enough [OF s(1)] assms(4)]]
  obtain t' r where t': "table_insert fuel ops cell_bytes t v = Some (t', r)" "insert_post ops t v t' r" by blast
  have "r \<and> table_wf ops t' \<and> entries t' = insert v (entries t) \<and>
      (\<forall>k. table_get ops t' k = (if COMPARE_FUNCTION ops k v then Some (Some v) else table_get ops t k))"
    if a: "ht_messages t' = ht_messages t" "good_hashes ops (t_size t') (insert v (entries t))"
  proof -
    have e: "r" "table_wf ops t'" "entries t' = insert v (entries t)"
      using t'(2) a s assms(3) by (auto simp: insert_post_def table_wf_def table_ready_def)
    then show ?thesis
      using hash_keys.get_inserted [OF assms(1,2) e(2,3)] hash_keys.keyed_hashes [OF assms(1) a(2)] by simp
  qed
  then show ?thesis using t' by (auto simp: insert_post_def)
qed

text \<open>
  C8: removing a key from a well-formed table, in which no key is equal to two values, never faults,
  keeps the table well-formed and removes exactly the value equal to the key: afterwards a lookup of
  a key of that value finds nothing and every other lookup finds what it found before, although the
  displaced entries have been moved.
\<close>

theorem hash_table_remove_lookup:
  assumes "hash_keys ops" "table_wf ops t" "keyed ops (entries t)"
  shows "\<exists>t'. table_remove ops t key = Some t' \<and> table_wf ops t' \<and>
    entries t' = {v \<in> entries t. \<not> COMPARE_FUNCTION ops key v} \<and>
    (\<forall>k. table_get ops t' k =
      (if \<exists>v \<in> entries t. COMPARE_FUNCTION ops k v \<and> COMPARE_FUNCTION ops key v then Some None else table_get ops t k))"
proof -
  from hash_keys.remove_ok [OF assms] obtain t' where t': "table_remove ops t key = Some t'" "table_wf ops t'"
    "entries t' = {v \<in> entries t. \<not> COMPARE_FUNCTION ops key v}" by blast
  with hash_keys.get_removed [OF assms(1,2) t'(2,3) assms(3)] show ?thesis by blast
qed

section \<open>A concrete table\<close>

text \<open>The load message table as the runtime creates it, with fewer cells.\<close>

definition demo_table :: "uintptr_t hash_table" where
  "demo_table = \<lparr>table_size = 32, table_used = 0, enumerator_count = 0, old_tables = [],
     table_cells = replicate 32 null_cell, ht_calloc_fails = (\<lambda>_. False), ht_attempts = 2, ht_messages = 0\<rparr>"

lemma demo_table_wf: "table_wf load_messages_ops demo_table" "entries demo_table = {}"
  using blank_table(1,2) [of demo_table 5 load_messages_ops] blank_table(3) [of demo_table 5]
  by (simp_all add: table_wf_def demo_table_def)

text \<open>The table with one implementation.\<close>

definition demo_loaded :: "uintptr_t hash_table" where
  "demo_loaded = (set_value 0 (Some 0x4000) (set_maps 0 0 demo_table))\<lparr>table_used := 1\<rparr>"

lemma demo_insert: "table_insert (Suc n) load_messages_ops 16 demo_table 0x4000 = Some (demo_loaded, True)"
  by (simp add: Let_def demo_loaded_def demo_table_def load_messages_ops_def imp_hash_def slot_of_def null_cell_def)

lemma demo_loaded_wf: "table_wf load_messages_ops demo_loaded" "entries demo_loaded = {0x4000}"
proof -
  have s: "table_sound load_messages_ops demo_table" "table_full load_messages_ops None demo_table"
    using demo_table_wf(1) by (simp_all add: table_wf_def)
  have "insert_post load_messages_ops demo_table 0x4000 demo_loaded True"
    using store_home_ok [OF s(1), of 0 "0x4000"]
    by (simp add: demo_loaded_def demo_table_def load_messages_ops_def imp_hash_def slot_of_def null_cell_def)
  moreover have "good_hashes load_messages_ops (t_size demo_loaded) {0x4000}"
    by (simp add: good_hashes_def no_wrap_def load_messages_ops_def imp_hash_def demo_loaded_def demo_table_def)
  ultimately show "table_wf load_messages_ops demo_loaded" "entries demo_loaded = {0x4000}"
    using s(2) demo_table_wf(2)
    by (auto simp: insert_post_def table_ready_def table_wf_def demo_loaded_def demo_table_def)
qed

lemma demo_hash_keys: "hash_keys load_messages_ops"
  by unfold_locales

theorem hash_table_insert_lookup_witness:
  "\<exists>t'. table_insert (2 ^ 67) load_messages_ops 16 demo_table 0x4000 = Some (t', True) \<and>
     table_get load_messages_ops t' 0x4000 = Some (Some 0x4000)"
proof -
  obtain n where n: "(2 :: nat) ^ 67 = Suc n" by (metis Suc_pred zero_less_numeral zero_less_power)
  have h: "good_hashes load_messages_ops (t_size demo_loaded) (insert 0x4000 (entries demo_table))"
    by (simp add: demo_table_wf(2)) (simp add: good_hashes_def no_wrap_def load_messages_ops_def imp_hash_def demo_loaded_def demo_table_def)
  have m: "ht_messages demo_loaded = ht_messages demo_table" by (simp add: demo_loaded_def)
  have c: "COMPARE_FUNCTION load_messages_ops 0x4000 0x4000" by (simp add: load_messages_ops_def)
  have le: "2 ^ 67 \<le> Suc n" by (simp only: n)
  have new: "0x4000 \<notin> entries demo_table" by (simp add: demo_table_wf(2))
  from hash_table_insert_lookup [OF demo_hash_keys demo_table_wf(1) new le, of 16]
  have "\<forall>k. table_get load_messages_ops demo_loaded k =
      (if COMPARE_FUNCTION load_messages_ops k 0x4000 then Some (Some 0x4000) else table_get load_messages_ops demo_table k)"
    unfolding demo_insert using m h by auto
  with c have "table_get load_messages_ops demo_loaded 0x4000 = Some (Some 0x4000)" by simp
  then show ?thesis unfolding n demo_insert by blast
qed

theorem hash_table_remove_lookup_witness:
  "\<exists>t'. table_remove load_messages_ops demo_loaded 0x4000 = Some t' \<and> table_get load_messages_ops t' 0x4000 = Some None"
proof -
  have "keyed load_messages_ops (entries demo_loaded)" by (simp add: demo_loaded_wf(2) keyed_def)
  from hash_table_remove_lookup [OF demo_hash_keys demo_loaded_wf(1) this, of "0x4000"]
  obtain t' where "table_remove load_messages_ops demo_loaded 0x4000 = Some t'"
    "table_get load_messages_ops t' 0x4000 = (if \<exists>v \<in> {0x4000}. COMPARE_FUNCTION load_messages_ops 0x4000 v \<and>
       COMPARE_FUNCTION load_messages_ops 0x4000 v then Some None else table_get load_messages_ops demo_loaded 0x4000)"
    by (simp only: demo_loaded_wf(2)) blast
  then show ?thesis by (auto simp: load_messages_ops_def)
qed

end
