(* ===== verification/Objc_Runtime.thy ===== *)
theory Objc_Runtime
  imports Objc_Reload Objc_Selector_Table
begin

text \<open>
  The public API for classes, methods, instance variables and objects,
  \<open>src/runtime/runtime.c\<close>, with the object allocator of \<open>src/memory/gc_none.c\<close>.

  A method pointer is its handle, an instance variable pointer the class whose list holds it and
  its position there. Freeing a class, a method or an array of offsets removes it from its store,
  so that a later access through the pointer is \<open>None\<close>, and freeing it twice is \<open>None\<close> as well.
  Strings are values; copying one is an allocation that may fail. Every allocation attempt is a
  \<open>rt_alloc\<close>; the address of a new object and whether the class table could store a class are
  arguments. A client's C++ constructor or destructor is the argument \<open>call\<close>: what calling an
  implementation with an object does to the state. \<open>fuel\<close> bounds walks along superclasses.
\<close>

unbundle bit_operations_syntax

section \<open>Helpers\<close>

definition rt_sel_isEqual :: "selector \<Rightarrow> selector \<Rightarrow> bool" where
  "rt_sel_isEqual sel1 sel2 \<longleftrightarrow>
     sel_name sel1 = sel_name sel2 \<and> selector_types_equivalent (sel_type sel1) (sel_type sel2)"

definition rt_begin_mutation :: "rt_state \<Rightarrow> rt_state option" where
  "rt_begin_mutation st =
     map_option (\<lambda>h. st\<lparr>rt_protocols := (rt_protocols st)\<lparr>pr_hooks := h\<rparr>\<rparr>)
       (mosaic_objc_beginRuntimeMutation (rt_hooks st))"

definition rt_end_mutation :: "rt_state \<Rightarrow> rt_state" where
  "rt_end_mutation st =
     st\<lparr>rt_protocols := (rt_protocols st)\<lparr>pr_hooks := mosaic_objc_endRuntimeMutation (rt_hooks st)\<rparr>\<rparr>"

text \<open>The superclass of a resolved class; a name in the field is not a pointer to a class.\<close>

definition super_handle :: "objc_class \<Rightarrow> nat option option" where
  "super_handle r =
     (case c_super_class r of None \<Rightarrow> Some None | Some (SuperClass s) \<Rightarrow> Some (Some s) | Some (SuperName _) \<Rightarrow> None)"

type_synonym cxx_call = "rt_state \<Rightarrow> uintptr_t \<Rightarrow> receiver \<Rightarrow> rt_state option"

fun cxx_destruct_loop :: "nat \<Rightarrow> cxx_call \<Rightarrow> rt_state \<Rightarrow> nat option \<Rightarrow> receiver \<Rightarrow> rt_state option" where
  "cxx_destruct_loop fuel call st None obj = Some st"
| "cxx_destruct_loop 0 call st (Some c) obj = None"
| "cxx_destruct_loop (Suc fuel) call st (Some c) obj =
     do {
       r \<leftarrow> classes st c;
       super \<leftarrow> super_handle r;
       s1 \<leftarrow> (if c_cxx_destruct r \<noteq> 0 then call st (c_cxx_destruct r) obj else Some st);
       cxx_destruct_loop fuel call s1 super obj
     }"

definition call_cxx_destruct :: "nat \<Rightarrow> cxx_call \<Rightarrow> rt_state \<Rightarrow> receiver \<Rightarrow> rt_state option" where
  "call_cxx_destruct fuel call st obj =
     do { cls \<leftarrow> receiver_class st obj; cxx_destruct_loop fuel call st cls obj }"

fun call_cxx_construct_for_class :: "nat \<Rightarrow> cxx_call \<Rightarrow> rt_state \<Rightarrow> nat \<Rightarrow> receiver \<Rightarrow> rt_state option" where
  "call_cxx_construct_for_class 0 call st cls obj = None"
| "call_cxx_construct_for_class (Suc fuel) call st cls obj =
     do {
       r \<leftarrow> classes st cls;
       super \<leftarrow> super_handle r;
       s1 \<leftarrow> (case super of None \<Rightarrow> Some st | Some s \<Rightarrow> call_cxx_construct_for_class fuel call st s obj);
       r1 \<leftarrow> classes s1 cls;
       if c_cxx_construct r1 \<noteq> 0 then call s1 (c_cxx_construct r1) obj else Some s1
     }"

definition call_cxx_construct :: "nat \<Rightarrow> cxx_call \<Rightarrow> rt_state \<Rightarrow> receiver \<Rightarrow> rt_state option" where
  "call_cxx_construct fuel call st obj =
     do { isa \<leftarrow> receiver_class st obj; cls \<leftarrow> isa; call_cxx_construct_for_class fuel call st cls obj }"

definition class_getInstanceMethodNonrecursive :: "rt_state \<Rightarrow> nat \<Rightarrow> selector \<Rightarrow> nat option option" where
  "class_getInstanceMethodNonrecursive st aClass aSelector =
     do {
       r \<leftarrow> classes st aClass;
       scanM (\<lambda>h. do { m \<leftarrow> meths st h;
                        Some (if rt_sel_isEqual (m_selector m) aSelector then Some h else None) }) (class_methods r)
     }"

section \<open>Instance variables\<close>

text \<open>The position of a variable of this name in the list of a class.\<close>

fun find_ivar :: "objc_ivar list \<Rightarrow> string \<Rightarrow> nat \<Rightarrow> nat option option" where
  "find_ivar [] name i = Some None"
| "find_ivar (iv # ivs) name i =
     do { n \<leftarrow> iv_name iv; if n = name then Some (Some i) else find_ivar ivs name (Suc i) }"

fun instance_variable_loop ::
  "nat \<Rightarrow> rt_state \<Rightarrow> nat option \<Rightarrow> string \<Rightarrow> (rt_state \<times> (nat \<times> nat) option) option" where
  "instance_variable_loop fuel st None name = Some (st, None)"
| "instance_variable_loop 0 st (Some c) name = None"
| "instance_variable_loop (Suc fuel) st (Some c) name =
     do {
       r \<leftarrow> classes st c;
       here \<leftarrow> (case c_ivars r of None \<Rightarrow> Some None | Some il \<Rightarrow> find_ivar (il_items il) name 0);
       (case here of
          Some i \<Rightarrow> Some (st, Some (c, i))
        | None \<Rightarrow>
            do {
              (s1, super) \<leftarrow> class_getSuperclass (class_brk st + 3) st (Some c);
              (case super of
                 None \<Rightarrow> Some (s1, None)
               | Some (SuperName _) \<Rightarrow> None
               | Some (SuperClass s) \<Rightarrow> instance_variable_loop fuel s1 (Some s) name)
            })
     }"

definition class_getInstanceVariable ::
  "nat \<Rightarrow> rt_state \<Rightarrow> nat option \<Rightarrow> string option \<Rightarrow> (rt_state \<times> (nat \<times> nat) option) option" where
  "class_getInstanceVariable fuel st cls name =
     (case name of None \<Rightarrow> Some (st, None) | Some n \<Rightarrow> instance_variable_loop fuel st cls n)"

definition LONG_MAX :: size_t where "LONG_MAX = 2 ^ 63 - 1"

text \<open>A pointer that holds a number, as the offset field does until the class is registered.\<close>

definition pointer_of :: "size_t \<Rightarrow> nat option" where
  "pointer_of w = (if w = 0 then None else Some (unat w))"

definition number_of :: "nat option \<Rightarrow> int" where
  "number_of p = (case p of None \<Rightarrow> 0 | Some n \<Rightarrow> int n)"

text \<open>The part of \<open>class_addIvar\<close> that copies the strings and grows the list.\<close>

definition append_ivar ::
  "rt_state \<Rightarrow> nat \<Rightarrow> objc_class \<Rightarrow> string \<Rightarrow> string \<Rightarrow> size_t \<Rightarrow> size_t \<Rightarrow> size_t \<Rightarrow> (rt_state \<times> bool) option" where
  "append_ivar st c r name types sz byteAlignment offset =
     (let (s1, name_ok) = rt_alloc st; (s2, type_ok) = rt_alloc s1 in
      if \<not> name_ok \<or> \<not> type_ok then Some (s2, False)
      else
        (let oldList = c_ivars r;
             bad = (case oldList of None \<Rightarrow> False | Some il \<Rightarrow> il_count il < 0 \<or> il_size il < sizeof_objc_ivar);
             oldCount = (case oldList of None \<Rightarrow> 0 | Some il \<Rightarrow> nat (il_count il));
             stride = (case oldList of None \<Rightarrow> sizeof_objc_ivar | Some il \<Rightarrow> il_size il) in
         if bad \<or> INT_MAX \<le> oldCount then Some (s2, False)
         else if objc2_flexible_array_size True sizeof_objc_ivar_list (of_nat (oldCount + 1)) stride = None
         then Some (s2, False)
         else
           (let (s3, ok) = rt_alloc s2 in
            if \<not> ok then Some (s3, False)
            else
              (let old = (case oldList of None \<Rightarrow> [] | Some il \<Rightarrow> il_ivars il);
                   ivar = ivarSetAlign \<lparr>iv_name = Some name, iv_type = Some types, iv_offset = pointer_of offset,
                                        iv_size = ucast sz, iv_flags = 0\<rparr> byteAlignment;
                   updated = \<lparr>il_count = int (oldCount + 1),
                              il_size = (if oldCount = 0 then sizeof_objc_ivar else stride),
                              il_ivars = take oldCount old @ [ivar]\<rparr> in
               if length old < oldCount then None
               else map_option (\<lambda>s. (s, True))
                 (upd_class c (\<lambda>x. x\<lparr>c_ivars := Some updated, c_instance_size := int (unat (offset + sz))\<rparr>) s3)))))"

definition class_addIvar ::
  "nat \<Rightarrow> rt_state \<Rightarrow> nat option \<Rightarrow> string option \<Rightarrow> size_t \<Rightarrow> 8 word \<Rightarrow> string option \<Rightarrow> (rt_state \<times> bool) option" where
  "class_addIvar fuel st cls name sz alignment types =
     (case (cls, name, types) of
        (Some c, Some nm, Some ty) \<Rightarrow>
          do {
            r \<leftarrow> classes st c;
            if objc_test_class_flag r objc_class_flag_initialized then Some (st, False)
            else do {
              (s1, existing) \<leftarrow> class_getInstanceVariable fuel st cls name;
              r1 \<leftarrow> classes s1 c;
              if existing \<noteq> None then Some (s1, False)
              else if ucast UINT32_MAX < sz \<or> c_instance_size r1 < 0 then Some (s1, False)
              else if 64 \<le> alignment then Some (s1, False)
              else
                (let byteAlignment = push_bit (unat alignment) 1; currentSize = of_int (c_instance_size r1) in
                 if SIZE_MAX - (byteAlignment - 1) < currentSize then Some (s1, False)
                 else
                   (let offset = (currentSize + byteAlignment - 1) AND NOT (byteAlignment - 1) in
                    if SIZE_MAX - offset < sz \<or> LONG_MAX < offset + sz then Some (s1, False)
                    else append_ivar s1 c r1 nm ty sz byteAlignment offset))
            }
          }
      | _ \<Rightarrow> Some (st, False))"

section \<open>Methods\<close>

definition update_cxx_method_cache :: "rt_state \<Rightarrow> nat \<Rightarrow> string \<Rightarrow> uintptr_t \<Rightarrow> rt_state option" where
  "update_cxx_method_cache st cls name imp =
     upd_class cls (\<lambda>x. if name = ''.cxx_construct'' then x\<lparr>c_cxx_construct := imp\<rparr>
                        else if name = ''.cxx_destruct'' then x\<lparr>c_cxx_destruct := imp\<rparr> else x) st"

definition rebuild_cxx_method_caches :: "rt_state \<Rightarrow> nat option \<Rightarrow> rt_state option" where
  "rebuild_cxx_method_caches st cls =
     (case cls of None \<Rightarrow> Some st | Some c \<Rightarrow> refresh_reload_cxx_cache st c)"

text \<open>The event of a change of one method.\<close>

definition method_event ::
  "event_kind \<Rightarrow> nat option \<Rightarrow> nat option \<Rightarrow> selector \<Rightarrow> uintptr_t \<Rightarrow> uintptr_t \<Rightarrow> rt_state \<Rightarrow> rt_state" where
  "method_event kind cls method sel old new st =
     rt_emit ((blank_event kind)\<lparr>ev_cls := cls, ev_method := method, ev_selector := Some (sel_name sel),
                ev_old_implementation := old, ev_new_implementation := new, ev_name := sel_name sel\<rparr>) st"

text \<open>The part of \<open>class_addMethod\<close> after the allocations.\<close>

definition link_method ::
  "nat \<Rightarrow> rt_state \<Rightarrow> nat \<Rightarrow> selector \<Rightarrow> uintptr_t \<Rightarrow> string \<Rightarrow> rt_state option" where
  "link_method fuel st c typedSelector imp types =
     do {
       let h = meth_brk st;
       let l = \<lparr>ml_count = 1, ml_size = sizeof_objc_method, ml_methods = [h]\<rparr>;
       s1 \<leftarrow> rt_begin_mutation
              (place_methods [\<lparr>m_imp = imp, m_selector = typedSelector, m_types = Some types\<rparr>] st);
       s2 \<leftarrow> upd_class c (\<lambda>x. x\<lparr>c_methods := l # c_methods x\<rparr>) s1;
       s3 \<leftarrow> update_cxx_method_cache s2 c (sel_name typedSelector) imp;
       has \<leftarrow> classHasDtable s3 c;
       s4 \<leftarrow> (if has then add_method_list_to_class fuel s3 c l else Some s3);
       Some (method_event EVENT_METHOD_ADDED (Some c) None typedSelector 0 imp (rt_end_mutation s4))
     }"

definition class_addMethod ::
  "nat \<Rightarrow> rt_state \<Rightarrow> nat option \<Rightarrow> selector option \<Rightarrow> uintptr_t \<Rightarrow> string option \<Rightarrow> (rt_state \<times> bool) option" where
  "class_addMethod fuel st cls name imp types =
     (case (cls, name, types) of
        (Some c, Some sel, Some ty) \<Rightarrow>
          if imp = 0 then Some (st, False)
          else do {
            r \<leftarrow> classes st c;
            exists \<leftarrow> anyM (\<lambda>h. do { m \<leftarrow> meths st h; Some (sel_name (m_selector m) = sel_name sel) }) (class_methods r);
            if exists then Some (st, False)
            else
              (let (s1, copied) = rt_alloc st in
               case register_selector st (sel_name sel) (Some ty) of
                 None \<Rightarrow> Some (s1, False)
               | Some typedSelector \<Rightarrow>
                   if \<not> copied then Some (s1, False)
                   else
                     (let (s2, ok) = rt_alloc s1 in
                      if \<not> ok then Some (s2, False)
                      else map_option (\<lambda>s. (s, True)) (link_method fuel s2 c typedSelector imp ty)))
          }
      | _ \<Rightarrow> Some (st, False))"

text \<open>Storing an implementation in a method.\<close>

definition set_imp :: "rt_state \<Rightarrow> nat \<Rightarrow> uintptr_t \<Rightarrow> rt_state option" where
  "set_imp st h imp = do { m \<leftarrow> meths st h; Some (st\<lparr>meths := (meths st)(h \<mapsto> m\<lparr>m_imp := imp\<rparr>)\<rparr>) }"

text \<open>The result is the old implementation, zero for none.\<close>

definition class_replaceMethod ::
  "nat \<Rightarrow> rt_state \<Rightarrow> nat option \<Rightarrow> selector option \<Rightarrow> uintptr_t \<Rightarrow> string option \<Rightarrow> (rt_state \<times> uintptr_t) option" where
  "class_replaceMethod fuel st cls name imp types =
     (case cls of
        None \<Rightarrow> Some (st, 0)
      | Some c \<Rightarrow>
          do {
            sel \<leftarrow> register_selector st (sel_getName name) types;
            method \<leftarrow> class_getInstanceMethodNonrecursive st c sel;
            (case method of
               None \<Rightarrow> map_option (\<lambda>(s, _). (s, 0)) (class_addMethod fuel st cls (Some sel) imp types)
             | Some h \<Rightarrow>
                 do {
                   m \<leftarrow> meths st h;
                   s1 \<leftarrow> rt_begin_mutation st;
                   s2 \<leftarrow> set_imp s1 h imp;
                   s3 \<leftarrow> update_cxx_method_cache s2 c (sel_name sel) imp;
                   Some (method_event EVENT_METHOD_REPLACED (Some c) (Some h) sel (m_imp m) imp (rt_end_mutation s3), m_imp m)
                 })
          })"

definition method_setImplementation :: "rt_state \<Rightarrow> nat option \<Rightarrow> uintptr_t \<Rightarrow> (rt_state \<times> uintptr_t) option" where
  "method_setImplementation st method imp =
     (case method of
        None \<Rightarrow> Some (st, 0)
      | Some h \<Rightarrow>
          do {
            m \<leftarrow> meths st h;
            s1 \<leftarrow> rt_begin_mutation st;
            s2 \<leftarrow> set_imp s1 h imp;
            s3 \<leftarrow> objc_refresh_cxx_method_caches s2 (Some h);
            Some (method_event EVENT_METHOD_IMPLEMENTATION_CHANGED None (Some h) (m_selector m) (m_imp m) imp
                    (rt_end_mutation s3), m_imp m)
          })"

definition method_exchangeImplementations :: "rt_state \<Rightarrow> nat option \<Rightarrow> nat option \<Rightarrow> rt_state option" where
  "method_exchangeImplementations st m1 m2 =
     (case (m1, m2) of
        (Some h1, Some h2) \<Rightarrow>
          do {
            a \<leftarrow> meths st h1;
            b \<leftarrow> meths st h2;
            s1 \<leftarrow> rt_begin_mutation st;
            s2 \<leftarrow> set_imp s1 h1 (m_imp b);
            s3 \<leftarrow> set_imp s2 h2 (m_imp a);
            s4 \<leftarrow> objc_refresh_cxx_method_caches s3 (Some h1);
            s5 \<leftarrow> objc_refresh_cxx_method_caches s4 (Some h2);
            Some (rt_emit ((blank_event EVENT_METHOD_IMPLEMENTATIONS_EXCHANGED)
                    \<lparr>ev_method := Some h1, ev_other_method := Some h2, ev_selector := Some (sel_name (m_selector a)),
                     ev_old_implementation := m_imp a, ev_new_implementation := m_imp b,
                     ev_name := sel_name (m_selector a)\<rparr>) (rt_end_mutation s5))
          }
      | _ \<Rightarrow> Some st)"

definition method_getImplementation :: "rt_state \<Rightarrow> nat option \<Rightarrow> uintptr_t option" where
  "method_getImplementation st method = (case method of None \<Rightarrow> Some 0 | Some h \<Rightarrow> map_option m_imp (meths st h))"

definition method_getName :: "rt_state \<Rightarrow> nat option \<Rightarrow> selector option option" where
  "method_getName st method =
     (case method of None \<Rightarrow> Some None | Some h \<Rightarrow> map_option (\<lambda>m. Some (m_selector m)) (meths st h))"

text \<open>Slots are methods, except for the uncacheable slot of the thread.\<close>

fun class_getInstanceMethod ::
  "nat \<Rightarrow> rt_state \<Rightarrow> nat option \<Rightarrow> selector option \<Rightarrow> (rt_state \<times> slot option) option" where
  "class_getInstanceMethod fuel st None sel = Some (st, None)"
| "class_getInstanceMethod fuel st (Some c) None = Some (st, None)"
| "class_getInstanceMethod 0 st (Some c) (Some sel) = None"
| "class_getInstanceMethod (Suc fuel) st (Some c) (Some sel) =
     do {
       r \<leftarrow> classes st c;
       if classHasInstalledDtable st r then
         do {
           (s1, slot, _) \<leftarrow> objc_get_slot2 st c sel;
           if slot \<noteq> None then Some (s1, slot)
           else do {
             untyped \<leftarrow> register_selector s1 (sel_name sel) None;
             (s2, slot2, _) \<leftarrow> objc_get_slot2 s1 c untyped;
             Some (s2, slot2)
           }
         }
       else do {
         m \<leftarrow> class_getInstanceMethodNonrecursive st c sel;
         (case m of
            Some h \<Rightarrow> Some (st, Some (MethodSlot h))
          | None \<Rightarrow>
              do {
                (s1, super) \<leftarrow> class_getSuperclass (class_brk st + 3) st (Some c);
                (case super of
                   None \<Rightarrow> Some (s1, None)
                 | Some (SuperName _) \<Rightarrow> None
                 | Some (SuperClass s) \<Rightarrow> class_getInstanceMethod fuel s1 (Some s) (Some sel))
              })
       }
     }"

text \<open>\<open>object_getClass\<close> skips hidden classes; the class of a class object is its metaclass.\<close>

fun skip_hidden :: "nat \<Rightarrow> rt_state \<Rightarrow> nat option \<Rightarrow> nat option option" where
  "skip_hidden fuel st None = Some None"
| "skip_hidden 0 st (Some c) = None"
| "skip_hidden (Suc fuel) st (Some c) =
     do {
       r \<leftarrow> classes st c;
       if objc_test_class_flag r objc_class_flag_hidden_class
       then do { super \<leftarrow> super_handle r; skip_hidden fuel st super }
       else Some (Some c)
     }"

definition object_getClass :: "nat \<Rightarrow> rt_state \<Rightarrow> receiver option \<Rightarrow> nat option option" where
  "object_getClass fuel st obj =
     (case obj of None \<Rightarrow> Some None | Some x \<Rightarrow> do { isa \<leftarrow> receiver_class st x; skip_hidden fuel st isa })"

definition class_getClassMethod ::
  "nat \<Rightarrow> rt_state \<Rightarrow> nat option \<Rightarrow> selector option \<Rightarrow> (rt_state \<times> slot option) option" where
  "class_getClassMethod fuel st aClass aSelector =
     do { meta \<leftarrow> object_getClass fuel st (map_option ClassObject aClass); class_getInstanceMethod fuel st meta aSelector }"

definition class_getClassVariable ::
  "nat \<Rightarrow> rt_state \<Rightarrow> nat option \<Rightarrow> string option \<Rightarrow> (rt_state \<times> (nat \<times> nat) option) option" where
  "class_getClassVariable fuel st cls name =
     do { meta \<leftarrow> object_getClass fuel st (map_option ClassObject cls); class_getInstanceVariable fuel st meta name }"

definition class_getInstanceSize :: "rt_state \<Rightarrow> nat option \<Rightarrow> size_t option" where
  "class_getInstanceSize st cls =
     (case cls of None \<Rightarrow> Some 0 | Some c \<Rightarrow> map_option (\<lambda>r. of_int (c_instance_size r)) (classes st c))"

definition class_getIvarLayout :: "rt_state \<Rightarrow> nat option \<Rightarrow> objc_ivar_list option option" where
  "class_getIvarLayout st cls = (case cls of None \<Rightarrow> Some None | Some c \<Rightarrow> map_option c_ivars (classes st c))"

text \<open>The allocation is not checked: the copy goes through a null pointer.\<close>

definition class_setIvarLayout :: "rt_state \<Rightarrow> nat option \<Rightarrow> objc_ivar_list option \<Rightarrow> rt_state option" where
  "class_setIvarLayout st cls layout =
     (case (cls, layout) of
        (Some c, Some l) \<Rightarrow>
          (let (s1, ok) = rt_alloc st in
           if \<not> ok then None else upd_class c (\<lambda>x. x\<lparr>c_ivars := Some (l\<lparr>il_ivars := il_items l\<rparr>)\<rparr>) s1)
      | _ \<Rightarrow> Some st)"

definition class_getName :: "rt_state \<Rightarrow> nat option \<Rightarrow> string option option" where
  "class_getName st cls =
     (case cls of None \<Rightarrow> Some (Some ''nil'') | Some c \<Rightarrow> map_option (\<lambda>r. map_option cs_text (c_name r)) (classes st c))"

definition class_getVersion :: "rt_state \<Rightarrow> nat option \<Rightarrow> int option" where
  "class_getVersion st cls = (case cls of None \<Rightarrow> Some 0 | Some c \<Rightarrow> map_option c_version (classes st c))"

definition class_setVersion :: "rt_state \<Rightarrow> nat option \<Rightarrow> int \<Rightarrow> rt_state option" where
  "class_setVersion st cls version =
     (case cls of None \<Rightarrow> Some st | Some c \<Rightarrow> upd_class c (\<lambda>x. x\<lparr>c_version := version\<rparr>) st)"

definition ivar_getName :: "objc_ivar option \<Rightarrow> string option" where
  "ivar_getName ivar = Option.bind ivar iv_name"

definition ivar_getTypeEncoding :: "objc_ivar option \<Rightarrow> string option" where
  "ivar_getTypeEncoding ivar = Option.bind ivar iv_type"

definition ivar_getOffset :: "rt_state \<Rightarrow> objc_ivar option \<Rightarrow> int option" where
  "ivar_getOffset st ivar =
     (case ivar of None \<Rightarrow> Some 0 | Some iv \<Rightarrow> do { p \<leftarrow> iv_offset iv; ints st p })"

definition objc_getRequiredClass ::
  "(string option \<Rightarrow> nat option) \<Rightarrow> nat \<Rightarrow> rt_state \<Rightarrow> cstring option \<Rightarrow> (rt_state \<times> nat option) option" where
  "objc_getRequiredClass hook thread st name =
     (if name = None then Some (st, None)
      else let (s1, cls) = objc_getClass hook thread st name in if cls = None then None else Some (s1, cls))"

definition sizeof_objc_class :: size_t where "sizeof_objc_class = 136"

section \<open>Copies of lists\<close>

definition sizeof_id :: size_t where "sizeof_id = 8"

text \<open>The pointers to the variables, in order, and the count stored through \<open>outCount\<close>.\<close>

definition class_copyIvarList :: "rt_state \<Rightarrow> nat option \<Rightarrow> (rt_state \<times> (nat \<times> nat) list option \<times> nat) option" where
  "class_copyIvarList st cls =
     (case cls of
        None \<Rightarrow> Some (st, None, 0)
      | Some c \<Rightarrow>
          do {
            r \<leftarrow> classes st c;
            (case c_ivars r of
               None \<Rightarrow> Some (st, None, 0)
             | Some il \<Rightarrow>
                 if il_count il \<le> 0 then Some (st, None, 0)
                 else
                   (let count = nat (il_count il) in
                    if UINT_MAX < count then Some (st, None, 0)
                    else if objc2_flexible_array_size True 0 (of_nat (count + 1)) sizeof_id = None then Some (st, None, 0)
                    else let (s1, ok) = rt_alloc st in
                      if \<not> ok then Some (s1, None, 0)
                      else Some (s1, Some (map (Pair c) [0..<count]), count)))
          })"

text \<open>Counting the methods; \<open>None\<close> is a list with a negative count or more than \<open>UINT_MAX\<close>.\<close>

fun count_method_lists :: "objc_method_list list \<Rightarrow> nat \<Rightarrow> nat option" where
  "count_method_lists [] count = Some count"
| "count_method_lists (l # ls) count =
     (if ml_count l < 0 \<or> UINT_MAX - count < nat (ml_count l) then None
      else count_method_lists ls (count + nat (ml_count l)))"

definition class_copyMethodList :: "rt_state \<Rightarrow> nat option \<Rightarrow> (rt_state \<times> nat list option \<times> nat) option" where
  "class_copyMethodList st cls =
     (case cls of
        None \<Rightarrow> Some (st, None, 0)
      | Some c \<Rightarrow>
          do {
            r \<leftarrow> classes st c;
            (case count_method_lists (c_methods r) 0 of
               None \<Rightarrow> Some (st, None, 0)
             | Some count \<Rightarrow>
                 if count = 0 then Some (st, None, 0)
                 else if objc2_flexible_array_size True 0 (of_nat (count + 1)) sizeof_id = None then Some (st, None, 0)
                 else let (s1, ok) = rt_alloc st in
                   if \<not> ok then Some (s1, None, 0)
                   else Some (s1, Some (class_methods r), length (class_methods r)))
          })"

definition class_copyProtocolList :: "rt_state \<Rightarrow> nat option \<Rightarrow> (rt_state \<times> nat option list option \<times> nat) option" where
  "class_copyProtocolList st cls =
     (case cls of
        None \<Rightarrow> Some (st, None, 0)
      | Some c \<Rightarrow>
          do {
            r \<leftarrow> classes st c;
            items \<leftarrow> plist_items (rt_protocols st) (c_protocols r);
            let count = length items;
            if UINT_MAX < count \<or> count = 0 then Some (st, None, 0)
            else if objc2_flexible_array_size True 0 (of_nat (count + 1)) sizeof_id = None then Some (st, None, 0)
            else let (s1, ok) = rt_alloc st in
              if \<not> ok then Some (s1, None, 0) else Some (s1, Some items, count)
          })"

text \<open>The protocol lists of a class and its superclasses.\<close>

fun adopted_lists :: "nat \<Rightarrow> rt_state \<Rightarrow> nat option \<Rightarrow> (rt_state \<times> nat option list) option" where
  "adopted_lists fuel st None = Some (st, [])"
| "adopted_lists 0 st (Some c) = None"
| "adopted_lists (Suc fuel) st (Some c) =
     do {
       r \<leftarrow> classes st c;
       (s1, super) \<leftarrow> class_getSuperclass (class_brk st + 3) st (Some c);
       parent \<leftarrow> (case super of None \<Rightarrow> Some None | Some (SuperClass s) \<Rightarrow> Some (Some s) | Some (SuperName _) \<Rightarrow> None);
       (s2, ls) \<leftarrow> adopted_lists fuel s1 parent;
       Some (s2, c_protocols r # ls)
     }"

definition class_addProtocol :: "nat \<Rightarrow> rt_state \<Rightarrow> nat option \<Rightarrow> nat option \<Rightarrow> (rt_state \<times> bool) option" where
  "class_addProtocol fuel st cls protocol =
     (case (cls, protocol) of
        (Some c, Some p) \<Rightarrow>
          do {
            (s1, adopted) \<leftarrow> adopted_lists fuel st cls;
            conforms \<leftarrow> class_conformsToProtocol fuel (rt_protocols s1) (Some adopted) protocol;
            if conforms then Some (s1, False)
            else
              (let (s2, ok) = rt_alloc s1 in
               if \<not> ok then Some (s2, False)
               else do {
                 r \<leftarrow> classes s2 c;
                 let q = rt_protocols s2;
                 let l = plist_brk q;
                 let s3 = s2\<lparr>rt_protocols := (set_plist q l \<lparr>pl_next = c_protocols r, pl_list = [Some p]\<rparr>)
                               \<lparr>plist_brk := Suc l\<rparr>\<rparr>;
                 s4 \<leftarrow> upd_class c (\<lambda>x. x\<lparr>c_protocols := Some l\<rparr>) s3;
                 Some (s4, True)
               })
          }
      | _ \<Rightarrow> Some (st, False))"

section \<open>Objects\<close>

text \<open>The allocator of \<open>gc_none.c\<close>: \<open>mem\<close> is the address the platform returns, if any.\<close>

definition allocate_class :: "objc_class \<Rightarrow> size_t \<Rightarrow> uintptr_t option \<Rightarrow> uintptr_t option" where
  "allocate_class r extraBytes mem =
     (let sz = of_int (c_instance_size r) in
      if SIZE_MAX - sz < extraBytes then None
      else if SIZE_MAX - (sz + extraBytes) < 8 then None
      else map_option (\<lambda>a. a + 8) mem)"

definition set_isa :: "uintptr_t \<Rightarrow> nat option \<Rightarrow> rt_state \<Rightarrow> rt_state" where
  "set_isa obj cls st = st\<lparr>object_isa := (object_isa st)(obj := cls)\<rparr>"

definition class_createInstance ::
  "nat \<Rightarrow> cxx_call \<Rightarrow> uintptr_t option \<Rightarrow> rt_state \<Rightarrow> nat option \<Rightarrow> size_t \<Rightarrow> (rt_state \<times> uintptr_t option) option" where
  "class_createInstance fuel call mem st cls extraBytes =
     (case cls of
        None \<Rightarrow> Some (st, None)
      | Some c \<Rightarrow>
          (case find (\<lambda>i. SmallObjectClasses st ! i = Some c) [0..<4] of
             Some i \<Rightarrow> Some (st, Some (push_bit 1 (of_nat i) + 1))
           | None \<Rightarrow>
               do {
                 r \<leftarrow> classes st c;
                 if (of_int (c_instance_size r) :: size_t) < sizeof_id then Some (st, None)
                 else case allocate_class r extraBytes mem of
                   None \<Rightarrow> Some (st, None)
                 | Some obj \<Rightarrow>
                     do {
                       s1 \<leftarrow> checkARCAccessorsSlow fuel (set_isa obj (Some c) st) c;
                       s2 \<leftarrow> call_cxx_construct fuel call s1 (Instance obj);
                       Some (s2, Some obj)
                     }
               }))"

definition objc_constructInstance ::
  "nat \<Rightarrow> cxx_call \<Rightarrow> rt_state \<Rightarrow> nat option \<Rightarrow> uintptr_t option \<Rightarrow> (rt_state \<times> uintptr_t option) option" where
  "objc_constructInstance fuel call st cls bytes =
     (case (cls, bytes) of
        (Some c, Some obj) \<Rightarrow>
          do {
            r \<leftarrow> classes st c;
            if (of_int (c_instance_size r) :: size_t) < sizeof_id then Some (st, None)
            else do {
              s1 \<leftarrow> call_cxx_construct fuel call (set_isa obj cls st) (Instance obj);
              Some (s1, Some obj)
            }
          }
      | _ \<Rightarrow> Some (st, None))"

definition objc_destructInstance :: "nat \<Rightarrow> cxx_call \<Rightarrow> rt_state \<Rightarrow> uintptr_t option \<Rightarrow> rt_state option" where
  "objc_destructInstance fuel call st obj =
     (case obj of None \<Rightarrow> Some st | Some x \<Rightarrow> call_cxx_destruct fuel call st (Instance x))"

definition object_dispose :: "nat \<Rightarrow> cxx_call \<Rightarrow> rt_state \<Rightarrow> uintptr_t option \<Rightarrow> rt_state option" where
  "object_dispose fuel call st obj =
     do {
       s1 \<leftarrow> objc_destructInstance fuel call st obj;
       Some (case obj of None \<Rightarrow> s1 | Some x \<Rightarrow> set_isa x None s1)
     }"

text \<open>The bytes of objects after the first word; \<open>object_copy\<close> copies them.\<close>

type_synonym object_bytes = "uintptr_t \<Rightarrow> 8 word"

definition copy_bytes :: "uintptr_t \<Rightarrow> uintptr_t \<Rightarrow> size_t \<Rightarrow> object_bytes \<Rightarrow> object_bytes" where
  "copy_bytes dst src n bytes = (\<lambda>a. if a - dst < n then bytes (src + (a - dst)) else bytes a)"

definition object_copy ::
  "nat \<Rightarrow> cxx_call \<Rightarrow> uintptr_t option \<Rightarrow> rt_state \<Rightarrow> object_bytes \<Rightarrow> uintptr_t option \<Rightarrow> size_t \<Rightarrow>
   (rt_state \<times> object_bytes \<times> uintptr_t option) option" where
  "object_copy fuel call mem st bytes obj sz =
     (case obj of
        None \<Rightarrow> Some (st, bytes, None)
      | Some x \<Rightarrow>
          do {
            cls \<leftarrow> object_getClass fuel st (Some (Instance x));
            if cls = None then Some (st, bytes, None)
            else do {
              instanceSize \<leftarrow> class_getInstanceSize st cls;
              if sz < instanceSize \<or> sz < sizeof_id then Some (st, bytes, None)
              else do {
                (s1, cpy) \<leftarrow> class_createInstance fuel call mem st cls (sz - instanceSize);
                (case cpy of
                   None \<Rightarrow> Some (s1, bytes, None)
                 | Some y \<Rightarrow>
                     if \<not> sizeof_id < sz then Some (s1, bytes, Some y)
                     else if isSmallObject x \<or> isSmallObject y then None
                     else Some (s1, copy_bytes (y + sizeof_id) (x + sizeof_id) (sz - sizeof_id) bytes, Some y))
              }
            }
          })"

definition object_getIndexedIvars :: "rt_state \<Rightarrow> receiver option \<Rightarrow> size_t option" where
  "object_getIndexedIvars st obj =
     (case obj of
        None \<Rightarrow> Some 0
      | Some x \<Rightarrow>
          do {
            isa \<leftarrow> receiver_class st x;
            c \<leftarrow> isa;
            r \<leftarrow> classes st c;
            let sz = of_int (c_instance_size r);
            Some (if sz = 0 \<and> objc_test_class_flag r objc_class_flag_meta then sizeof_objc_class else sz)
          })"

definition object_setClass :: "rt_state \<Rightarrow> uintptr_t option \<Rightarrow> nat option \<Rightarrow> (rt_state \<times> nat option) option" where
  "object_setClass st obj cls =
     (case obj of
        None \<Rightarrow> Some (st, None)
      | Some x \<Rightarrow>
          if isSmallObject x then map_option (Pair st) (classForObject (object_isa st) st x)
          else Some (set_isa x cls st, object_isa st x))"

definition object_getClassName :: "nat \<Rightarrow> rt_state \<Rightarrow> receiver option \<Rightarrow> string option option" where
  "object_getClassName fuel st obj =
     (if obj = None then Some None
      else do { cls \<leftarrow> object_getClass fuel st obj; class_getName st cls })"

section \<open>Freeing and copying the parts of a class\<close>

definition free_method :: "rt_state \<Rightarrow> nat \<Rightarrow> rt_state option" where
  "free_method st h = (if meths st h = None then None else Some (st\<lparr>meths := (meths st)(h := None)\<rparr>))"

definition free_int :: "rt_state \<Rightarrow> nat \<Rightarrow> rt_state option" where
  "free_int st p = (if ints st p = None then None else Some (st\<lparr>ints := (ints st)(p := None)\<rparr>))"

definition free_class :: "rt_state \<Rightarrow> nat \<Rightarrow> rt_state option" where
  "free_class st c = (if classes st c = None then None else Some (st\<lparr>classes := (classes st)(c := None)\<rparr>))"

text \<open>Freeing a list frees the methods that are stored in it.\<close>

definition freeMethodLists :: "rt_state \<Rightarrow> objc_method_list list \<Rightarrow> rt_state option" where
  "freeMethodLists st methods =
     foldM (\<lambda>s l. if int (length (ml_methods l)) < ml_count l then None else foldM free_method s (ml_methods l)) st methods"

definition freeIvarLists :: "rt_state \<Rightarrow> objc_class \<Rightarrow> rt_state option" where
  "freeIvarLists st r =
     (case c_ivars r of
        None \<Rightarrow> Some st
      | Some il \<Rightarrow>
          if int (length (il_ivars il)) < il_count il then None
          else if 0 < il_count il \<and> objc_test_class_flag r objc_class_flag_owned_ivar_offsets then
            (case iv_offset (il_ivars il ! 0) of
               None \<Rightarrow> Some st
             | Some p \<Rightarrow> foldM free_int st [p..<p + nat (il_count il)])
          else Some st)"

text \<open>Copying the types of the methods of one list.\<close>

fun dup_types :: "rt_state \<Rightarrow> objc_method list \<Rightarrow> rt_state \<times> bool" where
  "dup_types st [] = (st, True)"
| "dup_types st (m # ms) =
     (if m_types m = None then dup_types st ms
      else let (s1, ok) = rt_alloc st in if ok then dup_types s1 ms else (s1, False))"

primrec deref_methods :: "rt_state \<Rightarrow> nat list \<Rightarrow> objc_method list option" where
  "deref_methods st [] = Some []"
| "deref_methods st (h # hs) = do { m \<leftarrow> meths st h; ms \<leftarrow> deref_methods st hs; Some (m # ms) }"

text \<open>
  The copies are private until all of them exist, so they are values here: for every list its
  size and its methods. A failure frees what has been copied; \<open>Inl ()\<close> is the null result.
\<close>

fun dup_method_lists ::
  "rt_state \<Rightarrow> objc_method_list list \<Rightarrow> (rt_state \<times> (unit + (size_t \<times> objc_method list) list)) option" where
  "dup_method_lists st [] = Some (st, Inr [])"
| "dup_method_lists st (l # ls) =
     (if ml_malformed l then Some (st, Inl ())
      else if objc2_flexible_array_size True sizeof_objc_method_list (of_int (ml_count l)) (ml_size l) = None
      then Some (st, Inl ())
      else let (s1, ok) = rt_alloc st in
        if \<not> ok then Some (s1, Inl ())
        else if int (length (ml_methods l)) < ml_count l then None
        else do {
          ms \<leftarrow> deref_methods s1 (ml_items l);
          let (s2, copied) = dup_types s1 ms;
          if \<not> copied then Some (s2, Inl ())
          else do {
            (s3, rest) \<leftarrow> dup_method_lists s2 ls;
            Some (s3, case rest of Inl u \<Rightarrow> Inl u | Inr copies \<Rightarrow> Inr ((ml_size l, ms) # copies))
          }
        })"

text \<open>The copies get handles.\<close>

fun place_lists :: "rt_state \<Rightarrow> (size_t \<times> objc_method list) list \<Rightarrow> rt_state \<times> objc_method_list list" where
  "place_lists st [] = (st, [])"
| "place_lists st ((sz, ms) # ls) =
     (let l = \<lparr>ml_count = int (length ms), ml_size = sz, ml_methods = [meth_brk st..<meth_brk st + length ms]\<rparr>;
          (s1, rest) = place_lists (place_methods ms st) ls in
      (s1, l # rest))"

definition duplicateMethodLists ::
  "rt_state \<Rightarrow> objc_method_list list \<Rightarrow> (rt_state \<times> objc_method_list list option) option" where
  "duplicateMethodLists st source =
     do {
       (s1, copies) \<leftarrow> dup_method_lists st source;
       Some (case copies of
               Inl _ \<Rightarrow> (s1, None)
             | Inr cs \<Rightarrow> (let (s2, ls) = place_lists s1 cs in (s2, Some ls)))
     }"

text \<open>Copying the strings of a variable: both copies are attempted before either is checked.\<close>

definition dup_ivar_strings :: "rt_state \<Rightarrow> objc_ivar \<Rightarrow> rt_state \<times> bool" where
  "dup_ivar_strings st iv =
     (let (s1, ok1) = (if iv_name iv = None then (st, True) else rt_alloc st);
          (s2, ok2) = (if iv_type iv = None then (s1, True) else rt_alloc s1) in
      (s2, ok1 \<and> ok2))"

fun dup_ivars :: "rt_state \<Rightarrow> objc_ivar list \<Rightarrow> (rt_state \<times> (unit + int list)) option" where
  "dup_ivars st [] = Some (st, Inr [])"
| "dup_ivars st (iv # ivs) =
     (let (s1, ok) = dup_ivar_strings st iv in
      if \<not> ok then Some (s1, Inl ())
      else case iv_offset iv of
        None \<Rightarrow> Some (s1, Inl ())
      | Some p \<Rightarrow>
          do {
            v \<leftarrow> ints s1 p;
            (s2, rest) \<leftarrow> dup_ivars s1 ivs;
            Some (s2, case rest of Inl u \<Rightarrow> Inl u | Inr vs \<Rightarrow> Inr (v # vs))
          })"

text \<open>New offset variables with the given values.\<close>

definition place_ints :: "int list \<Rightarrow> rt_state \<Rightarrow> rt_state" where
  "place_ints vs st =
     st\<lparr>ints := (\<lambda>p. if int_brk st \<le> p \<and> p < int_brk st + length vs then Some (vs ! (p - int_brk st)) else ints st p),
        int_brk := int_brk st + length vs\<rparr>"

text \<open>The variables of a list with offsets stored at consecutive addresses.\<close>

definition point_offsets :: "nat \<Rightarrow> objc_ivar list \<Rightarrow> objc_ivar list" where
  "point_offsets p ivs = map (\<lambda>i. (ivs ! i)\<lparr>iv_offset := Some (p + i)\<rparr>) [0..<length ivs]"

definition duplicateIvarList :: "rt_state \<Rightarrow> objc_class \<Rightarrow> (rt_state \<times> objc_ivar_list option \<times> bool) option" where
  "duplicateIvarList st original =
     (case c_ivars original of
        None \<Rightarrow> Some (st, None, False)
      | Some source \<Rightarrow>
          if il_count source < 0 \<or> il_size source < sizeof_objc_ivar then Some (st, None, False)
          else if objc2_flexible_array_size True sizeof_objc_ivar_list (of_int (il_count source)) (il_size source) = None
          then Some (st, None, False)
          else
            (let (s1, ok) = rt_alloc st in
             if \<not> ok then Some (s1, None, False)
             else if int (length (il_ivars source)) < il_count source then None
             else
               (let (s2, ok2) = (if 0 < il_count source then rt_alloc s1 else (s1, True)) in
                if \<not> ok2 then Some (s2, None, False)
                else do {
                  (s3, vals) \<leftarrow> dup_ivars s2 (il_items source);
                  Some (case vals of
                          Inl _ \<Rightarrow> (s3, None, False)
                        | Inr vs \<Rightarrow>
                            (place_ints vs s3, Some (source\<lparr>il_ivars := point_offsets (int_brk s3) (il_items source)\<rparr>),
                             0 < il_count source))
                })))"

section \<open>The class hierarchy\<close>

text \<open>The class before \<open>cls\<close> on a list of subclasses is linked to the one after it.\<close>

fun unlink_sibling :: "nat \<Rightarrow> rt_state \<Rightarrow> nat option \<Rightarrow> nat \<Rightarrow> nat option \<Rightarrow> rt_state option" where
  "unlink_sibling fuel st None cls rest = Some st"
| "unlink_sibling 0 st (Some s) cls rest = None"
| "unlink_sibling (Suc fuel) st (Some s) cls rest =
     do {
       r \<leftarrow> classes st s;
       if c_sibling_class r = Some cls then upd_class s (\<lambda>x. x\<lparr>c_sibling_class := rest\<rparr>) st
       else unlink_sibling fuel st (c_sibling_class r) cls rest
     }"

definition safe_remove_from_subclass_list :: "rt_state \<Rightarrow> nat \<Rightarrow> rt_state option" where
  "safe_remove_from_subclass_list st cls =
     do {
       r \<leftarrow> classes st cls;
       if \<not> resolved r then Some st
       else case c_super_class r of
         None \<Rightarrow> Some st
       | Some (SuperName _) \<Rightarrow> None
       | Some (SuperClass s) \<Rightarrow>
           do {
             rs \<leftarrow> classes st s;
             if c_subclass_list rs = Some cls
             then upd_class s (\<lambda>x. x\<lparr>c_subclass_list := c_sibling_class r\<rparr>) st
             else unlink_sibling (class_brk st) st (c_subclass_list rs) cls (c_sibling_class r)
           }
     }"

text \<open>Putting a class in front of the list of subclasses of its new superclass.\<close>

definition push_subclass :: "rt_state \<Rightarrow> nat \<Rightarrow> nat \<Rightarrow> rt_state option" where
  "push_subclass st cls super =
     do {
       rs \<leftarrow> classes st super;
       s1 \<leftarrow> upd_class cls (\<lambda>x. x\<lparr>c_sibling_class := c_subclass_list rs\<rparr>) st;
       upd_class super (\<lambda>x. x\<lparr>c_subclass_list := Some cls\<rparr>) s1
     }"

text \<open>The part of \<open>class_setSuperclass\<close> that relinks the class and its metaclass.\<close>

definition relink_superclass :: "rt_state \<Rightarrow> nat \<Rightarrow> nat \<Rightarrow> rt_state option" where
  "relink_superclass st cls newSuper =
     do {
       s1 \<leftarrow> safe_remove_from_subclass_list st cls;
       (s2, _) \<leftarrow> objc_resolve_class (class_brk s1 + 3) s1 newSuper;
       s3 \<leftarrow> upd_class cls (\<lambda>x. x\<lparr>c_super_class := Some (SuperClass newSuper)\<rparr>) s2;
       s4 \<leftarrow> push_subclass s3 cls newSuper;
       r \<leftarrow> classes s4 cls;
       rn \<leftarrow> classes s4 newSuper;
       if objc_test_class_flag r objc_class_flag_meta then upd_class cls (\<lambda>x. x\<lparr>c_isa := c_isa rn\<rparr>) s4
       else do {
         meta \<leftarrow> c_isa r;
         newSuperMeta \<leftarrow> c_isa rn;
         s5 \<leftarrow> safe_remove_from_subclass_list s4 meta;
         (s6, _) \<leftarrow> objc_resolve_class (class_brk s5 + 3) s5 newSuperMeta;
         rm \<leftarrow> classes s6 newSuperMeta;
         s7 \<leftarrow> upd_class meta (\<lambda>x. x\<lparr>c_super_class := Some (SuperClass newSuperMeta), c_isa := c_isa rm\<rparr>) s6;
         push_subclass s7 meta newSuperMeta
       }
     }"

definition class_setSuperclass ::
  "(rt_state \<Rightarrow> nat \<Rightarrow> uintptr_t \<Rightarrow> rt_state option) \<Rightarrow> nat \<Rightarrow> nat \<Rightarrow> rt_state \<Rightarrow> nat option \<Rightarrow> nat option \<Rightarrow>
   (rt_state \<times> super_ref option) option" where
  "class_setSuperclass run fuel entries st cls newSuper =
     (case (cls, newSuper) of
        (Some c, Some n) \<Rightarrow>
          do {
            r \<leftarrow> classes st c;
            let oldSuper = c_super_class r;
            if oldSuper = Some (SuperClass n) then Some (st, oldSuper)
            else do {
              s1 \<leftarrow> relink_superclass st c n;
              r1 \<leftarrow> classes s1 c;
              if \<not> objc_test_class_flag r1 objc_class_flag_initialized then Some (s1, oldSuper)
              else do {
                s2 \<leftarrow> objc_send_initialize run fuel s1 (ClassObject n);
                r2 \<leftarrow> classes s2 c;
                rn \<leftarrow> classes s2 n;
                meta \<leftarrow> c_isa r2;
                newMeta \<leftarrow> c_isa rn;
                s3 \<leftarrow> objc_update_dtable_for_new_superclass entries s2 meta newMeta;
                s4 \<leftarrow> objc_update_dtable_for_new_superclass entries s3 c n;
                Some (s4, oldSuper)
              }
            }
          }
      | _ \<Rightarrow> Some (st, None))"

section \<open>Creating and destroying classes\<close>

definition PTRDIFF_MAX :: size_t where "PTRDIFF_MAX = 2 ^ 63 - 1"

definition class_size_ok :: "size_t \<Rightarrow> bool" where
  "class_size_ok extraBytes \<longleftrightarrow>
     (case objc2_size_add True sizeof_objc_class extraBytes of None \<Rightarrow> False | Some n \<Rightarrow> n \<le> PTRDIFF_MAX)"

text \<open>A class as \<open>gc->malloc\<close> returns it.\<close>

definition zero_class :: objc_class where
  "zero_class =
     \<lparr>c_isa = None, c_super_class = None, c_name = None, c_version = 0, c_info = 0, c_instance_size = 0,
      c_ivars = None, c_methods = [], c_dtable = None, c_subclass_list = None, c_cxx_construct = 0,
      c_cxx_destruct = 0, c_sibling_class = None, c_protocols = None, c_abi_version = 0, c_properties = []\<rparr>"

definition new_class :: "objc_class \<Rightarrow> rt_state \<Rightarrow> rt_state" where
  "new_class r st = st\<lparr>classes := (classes st)(class_brk st \<mapsto> r), class_brk := Suc (class_brk st)\<rparr>"

definition free_dtable_of :: "rt_state \<Rightarrow> objc_class \<Rightarrow> rt_state option" where
  "free_dtable_of st r = (if classHasInstalledDtable st r then free_dtable st (c_dtable r) else Some st)"

definition objc_disposeClassPair :: "nat \<Rightarrow> rt_state \<Rightarrow> nat option \<Rightarrow> rt_state option" where
  "objc_disposeClassPair thread st cls =
     (case cls of
        None \<Rightarrow> Some st
      | Some c \<Rightarrow>
          do {
            r0 \<leftarrow> classes st c;
            let duplicated = objc_test_class_flag r0 objc_class_flag_duplicate;
            meta \<leftarrow> c_isa r0;
            s1 \<leftarrow> (if duplicated then Some st else safe_remove_from_subclass_list st meta);
            s2 \<leftarrow> safe_remove_from_subclass_list s1 c;
            let (s3, known) = objc_lookUpClass thread s2 (c_name r0);
            s4 \<leftarrow> (if known = Some c then class_table_remove s3 c else Some s3);
            r \<leftarrow> classes s4 c;
            rm \<leftarrow> classes s4 meta;
            s5 \<leftarrow> freeMethodLists s4 (c_methods r);
            s6 \<leftarrow> (if duplicated then Some s5 else freeMethodLists s5 (c_methods rm));
            s7 \<leftarrow> freeIvarLists s6 r;
            s8 \<leftarrow> free_dtable_of s7 r;
            s9 \<leftarrow> (if duplicated then Some s8 else free_dtable_of s8 rm);
            s10 \<leftarrow> (if duplicated then Some s9 else free_class s9 meta);
            free_class s10 c
          })"

text \<open>\<open>addr\<close> is the address of the copy of the name.\<close>

definition duplicate_of :: "rt_state \<Rightarrow> objc_class \<Rightarrow> cstring \<Rightarrow> objc_method_list list \<Rightarrow> objc_ivar_list option \<Rightarrow> bool \<Rightarrow> objc_class" where
  "duplicate_of st original nameCopy methods ivars ownsOffsets =
     (let r = original\<lparr>c_name := Some nameCopy,
                c_info := (c_info original AND NOT (objc_class_flag_meta OR objc_class_flag_hidden_class OR
                             objc_class_flag_assoc_class OR objc_class_flag_initialized OR
                             objc_class_flag_owned_ivar_offsets))
                          OR objc_class_flag_user_created OR objc_class_flag_resolved OR objc_class_flag_duplicate,
                c_ivars := ivars, c_methods := methods, c_dtable := Some (uninstalled_dtable st),
                c_subclass_list := None, c_sibling_class := None\<rparr> in
      if ownsOffsets then objc_set_class_flag r objc_class_flag_owned_ivar_offsets else r)"

text \<open>The end of \<open>objc_duplicateClass\<close>, after every allocation has succeeded.\<close>

definition publish_duplicate :: "bool \<Rightarrow> rt_state \<Rightarrow> objc_class \<Rightarrow> (rt_state \<times> nat option) option" where
  "publish_duplicate insert_ok st r =
     do {
       let c = class_brk st;
       let s1 = new_class r st;
       super \<leftarrow> super_handle r;
       s2 \<leftarrow> (case super of None \<Rightarrow> Some s1 | Some s \<Rightarrow> push_subclass s1 c s);
       s3 \<leftarrow> class_table_insert insert_ok s2 c;
       Some (rt_emit ((blank_event EVENT_CLASS_REGISTERED)\<lparr>ev_cls := Some c,
               ev_name := (case c_name r of None \<Rightarrow> [] | Some nm \<Rightarrow> cs_text nm), ev_detail := ''duplicate''\<rparr>) s3, Some c)
     }"

text \<open>Undoing the copies when the class cannot be allocated.\<close>

definition drop_copies :: "rt_state \<Rightarrow> objc_method_list list \<Rightarrow> objc_ivar_list option \<Rightarrow> bool \<Rightarrow> rt_state option" where
  "drop_copies st methods ivars ownsOffsets =
     do {
       s1 \<leftarrow> freeMethodLists st methods;
       let temporary = zero_class\<lparr>c_ivars := ivars\<rparr>;
       freeIvarLists s1 (if ownsOffsets then objc_set_class_flag temporary objc_class_flag_owned_ivar_offsets else temporary)
     }"

definition duplicate_parts ::
  "bool \<Rightarrow> uintptr_t \<Rightarrow> rt_state \<Rightarrow> nat \<Rightarrow> cstring \<Rightarrow> (rt_state \<times> nat option) option" where
  "duplicate_parts insert_ok addr st original name =
     (let (s1, ok) = rt_alloc st in
      if \<not> ok then Some (s1, None)
      else do {
        r \<leftarrow> classes s1 original;
        (s2, methods) \<leftarrow> duplicateMethodLists s1 (c_methods r);
        (case methods of
           None \<Rightarrow> Some (s2, None)
         | Some ms \<Rightarrow>
             do {
               (s3, ivars, ownsOffsets) \<leftarrow> duplicateIvarList s2 r;
               if c_ivars r \<noteq> None \<and> ivars = None
               then do { s4 \<leftarrow> freeMethodLists s3 ms; Some (s4, None) }
               else
                 (let (s4, ok4) = rt_alloc s3 in
                  if \<not> ok4 then do { s5 \<leftarrow> drop_copies s4 ms ivars ownsOffsets; Some (s5, None) }
                  else publish_duplicate insert_ok s4
                         (duplicate_of s4 r \<lparr>cs_addr = addr, cs_text = cs_text name\<rparr> ms ivars ownsOffsets))
             })
      })"

definition objc_duplicateClass ::
  "nat \<Rightarrow> bool \<Rightarrow> uintptr_t \<Rightarrow> rt_state \<Rightarrow> nat option \<Rightarrow> cstring option \<Rightarrow> size_t \<Rightarrow> (rt_state \<times> nat option) option" where
  "objc_duplicateClass thread insert_ok addr st original name extraBytes =
     (case (original, name) of
        (Some c, Some nm) \<Rightarrow>
          do {
            r \<leftarrow> classes st c;
            if objc_test_class_flag r objc_class_flag_meta \<or> objc_test_class_flag r objc_class_flag_hidden_class \<or>
               \<not> class_size_ok extraBytes then Some (st, None)
            else
              (let (s1, known) = objc_lookUpClass thread st (c_name r) in
               if known \<noteq> Some c then Some (s1, None)
               else
                 (let (s2, taken) = objc_lookUpClass thread s1 name in
                  if taken \<noteq> None then Some (s2, None)
                  else do {
                    (s3, ready) \<leftarrow> (if resolved r then Some (s2, True) else objc_resolve_class (class_brk s2 + 3) s2 c);
                    if \<not> ready then Some (s3, None) else duplicate_parts insert_ok addr s3 c nm
                  }))
          }
      | _ \<Rightarrow> Some (st, None))"

definition objc_allocateClassPair ::
  "nat \<Rightarrow> uintptr_t \<Rightarrow> rt_state \<Rightarrow> nat option \<Rightarrow> cstring option \<Rightarrow> size_t \<Rightarrow> (rt_state \<times> nat option) option" where
  "objc_allocateClassPair thread addr st superclass name extraBytes =
     (case name of
        None \<Rightarrow> Some (st, None)
      | Some nm \<Rightarrow>
          (let (s0, taken) = objc_lookUpClass thread st name in
           if taken \<noteq> None then Some (s0, None)
           else if \<not> class_size_ok extraBytes then Some (s0, None)
           else
             (let (s1, ok1) = rt_alloc s0 in
              if \<not> ok1 then Some (s1, None)
              else let (s2, ok2) = rt_alloc s1 in
                if \<not> ok2 then Some (s2, None)
                else let (s3, ok3) = rt_alloc s2 in
                  if \<not> ok3 then Some (s3, None)
                  else do {
                    let newClass = class_brk s3;
                    let metaClass = Suc newClass;
                    let nameCopy = \<lparr>cs_addr = addr, cs_text = cs_text nm\<rparr>;
                    (isa, super, sz) \<leftarrow>
                      (case superclass of
                         None \<Rightarrow> Some (Some metaClass, Some (SuperClass newClass), 8)
                       | Some s \<Rightarrow>
                           do { r \<leftarrow> classes s3 s; Some (c_isa r, map_option SuperClass (c_isa r), c_instance_size r) });
                    let meta = zero_class\<lparr>c_isa := isa, c_super_class := super, c_name := Some nameCopy,
                                 c_info := objc_class_flag_meta OR objc_class_flag_user_created,
                                 c_dtable := Some (uninstalled_dtable s3), c_instance_size := int (unat sizeof_objc_class),
                                 c_abi_version := 2\<rparr>;
                    let cls = zero_class\<lparr>c_isa := Some metaClass, c_super_class := map_option SuperClass superclass,
                                c_name := Some nameCopy, c_info := objc_class_flag_user_created,
                                c_dtable := Some (uninstalled_dtable s3), c_abi_version := 2, c_instance_size := sz\<rparr>;
                    Some (new_class meta (new_class cls s3), Some newClass)
                  })))"

text \<open>
  The part of \<open>objc_registerClassPair\<close> that moves the offsets, numbers in pointer fields until
  now, into an array. The result says whether the registration goes on.
\<close>

definition own_offsets :: "rt_state \<Rightarrow> nat \<Rightarrow> (rt_state \<times> bool) option" where
  "own_offsets st c =
     do {
       r \<leftarrow> classes st c;
       (case c_ivars r of
          None \<Rightarrow> Some (st, True)
        | Some il \<Rightarrow>
            if objc_test_class_flag r objc_class_flag_owned_ivar_offsets then Some (st, True)
            else if il_count il < 0 then Some (st, False)
            else if objc2_size_multiply True (of_int (il_count il)) 4 = None then Some (st, False)
            else
              (let (s1, ok) = (if il_count il = 0 then (st, True) else rt_alloc st) in
               if \<not> ok then Some (s1, False)
               else if int (length (il_ivars il)) < il_count il then None
               else
                 (let items = il_items il;
                      ivars = point_offsets (int_brk s1) items @ drop (length items) (il_ivars il);
                      s2 = place_ints (map (\<lambda>iv. to_int (number_of (iv_offset iv))) items) s1 in
                  map_option (\<lambda>s. (s, True))
                    (upd_class c (\<lambda>x. objc_set_class_flag (x\<lparr>c_ivars := Some (il\<lparr>il_ivars := ivars\<rparr>)\<rparr>)
                                        objc_class_flag_owned_ivar_offsets) s2))))
     }"

definition objc_registerClassPair :: "bool \<Rightarrow> rt_state \<Rightarrow> nat option \<Rightarrow> rt_state option" where
  "objc_registerClassPair insert_ok st cls =
     (case cls of
        None \<Rightarrow> Some st
      | Some c \<Rightarrow>
          do {
            (s1, goes_on) \<leftarrow> own_offsets st c;
            if \<not> goes_on then Some s1
            else do {
              s2 \<leftarrow> rebuild_cxx_method_caches s1 cls;
              r2 \<leftarrow> classes s2 c;
              s3 \<leftarrow> rebuild_cxx_method_caches s2 (c_isa r2);
              s4 \<leftarrow> class_table_insert insert_ok s3 c;
              (s5, _) \<leftarrow> objc_resolve_class (class_brk s4 + 3) s4 c;
              r \<leftarrow> classes s5 c;
              Some (rt_emit ((blank_event EVENT_CLASS_REGISTERED)\<lparr>ev_cls := cls,
                      ev_name := (case c_name r of None \<Rightarrow> [] | Some nm \<Rightarrow> cs_text nm), ev_detail := ''dynamic''\<rparr>) s5)
            }
          })"

end
