(* ===== verification/Objc_Hierarchy_Thms.thy ===== *)
theory Objc_Hierarchy_Thms
  imports Objc_Runtime Objc_Dispatch_Install Objc_Class_Lookup_Thms
begin

text \<open>
  The lists of subclasses under the operations of \<open>src/runtime/runtime.c\<close> that change the class
  hierarchy: moving a class below another superclass and destroying a class pair.

  \<open>tree_links X st\<close>: the list of subclasses of every resolved class holds, once each, the resolved
  classes below it, except those in \<open>X\<close>, which are taken off their list while the operation runs.
\<close>

section \<open>Invariant\<close>

definition child :: "rt_state \<Rightarrow> nat \<Rightarrow> nat \<Rightarrow> bool" where
  "child st k y \<longleftrightarrow> (\<exists>q. classes st y = Some q \<and> resolved q \<and> c_super_class q = Some (SuperClass k))"

definition tree_links :: "nat set \<Rightarrow> rt_state \<Rightarrow> bool" where
  "tree_links X st \<longleftrightarrow>
     (\<forall>k. class_brk st \<le> k \<longrightarrow> classes st k = None) \<and>
     (\<forall>k r. classes st k = Some r \<and> resolved r \<longrightarrow>
        (\<exists>ys. sib_list st (c_subclass_list r) ys \<and> distinct ys \<and> set ys = {y. child st k y} - X)) \<and>
     (\<forall>k r. classes st k = Some r \<and> resolved r \<and> k \<notin> X \<longrightarrow>
        c_super_class r = None \<or> (\<exists>s rs. c_super_class r = Some (SuperClass s) \<and> classes st s = Some rs \<and> resolved rs))"

text \<open>A record without its two link fields.\<close>

definition unlinked_view :: "objc_class \<Rightarrow> objc_class" where
  "unlinked_view r = r\<lparr>c_subclass_list := None, c_sibling_class := None\<rparr>"

text \<open>Only link fields differ.\<close>

definition relinked :: "rt_state \<Rightarrow> rt_state \<Rightarrow> bool" where
  "relinked st st' \<longleftrightarrow> (\<exists>f. st' = st\<lparr>classes := f\<rparr> \<and> (\<forall>k. map_option unlinked_view (f k) = map_option unlinked_view (classes st k)))"

lemma view_fields:
  assumes "unlinked_view r = unlinked_view q"
  shows "c_isa r = c_isa q" "c_super_class r = c_super_class q" "c_name r = c_name q" "c_info r = c_info q"
    "c_methods r = c_methods q" "c_ivars r = c_ivars q" "c_dtable r = c_dtable q" "resolved r = resolved q"
    "objc_test_class_flag r f = objc_test_class_flag q f"
  using assms by (auto simp: unlinked_view_def resolved_def objc_test_class_flag_def dest: arg_cong [where f = c_isa]
      arg_cong [where f = c_super_class] arg_cong [where f = c_name] arg_cong [where f = c_info]
      arg_cong [where f = c_methods] arg_cong [where f = c_ivars] arg_cong [where f = c_dtable])

lemma relinked_refl [simp]: "relinked st st"
  by (auto simp: relinked_def intro: exI [of _ "classes st"])

lemma relinked_trans: "relinked st t \<Longrightarrow> relinked t u \<Longrightarrow> relinked st u"
  by (auto simp: relinked_def)

lemma relinked_class:
  assumes "relinked st st'" "classes st k = Some r"
  obtains r' where "classes st' k = Some r'" "unlinked_view r' = unlinked_view r"
  using assms by (auto simp: relinked_def) (metis (no_types, lifting) map_option_eq_Some option.simps(9))

lemma relinked_sym: "relinked st st' \<Longrightarrow> relinked st' st"
  by (auto simp: relinked_def intro!: exI [of _ "classes st"])

lemma relinked_child: "relinked st st' \<Longrightarrow> child st' k y \<longleftrightarrow> child st k y"
proof -
  have "child st' k y" if "relinked st st'" "child st k y" for st st'
  proof -
    from that(2) obtain q where q: "classes st y = Some q" "resolved q" "c_super_class q = Some (SuperClass k)"
      by (auto simp: child_def)
    from relinked_class [OF that(1) q(1)] obtain q' where "classes st' y = Some q'" "unlinked_view q' = unlinked_view q" .
    with q show ?thesis unfolding child_def by (metis view_fields(2,8))
  qed
  then show "relinked st st' \<Longrightarrow> child st' k y \<longleftrightarrow> child st k y" using relinked_sym by blast
qed

text \<open>The total form of an update.\<close>

definition upd_at :: "nat \<Rightarrow> (objc_class \<Rightarrow> objc_class) \<Rightarrow> rt_state \<Rightarrow> rt_state" where
  "upd_at c f st = st\<lparr>classes := (classes st)(c := map_option f (classes st c))\<rparr>"

lemma upd_class_at: "classes st c = Some r \<Longrightarrow> upd_class c f st = Some (upd_at c f st)"
  by (simp add: upd_class_def upd_at_def)

lemma classes_upd_at: "classes (upd_at c f st) k = (if k = c then map_option f (classes st c) else classes st k)"
  by (simp add: upd_at_def)

lemma class_brk_upd_at [simp]: "class_brk (upd_at c f st) = class_brk st"
  by (simp add: upd_at_def)

lemma relinked_upd_at: "(\<And>r. unlinked_view (f r) = unlinked_view r) \<Longrightarrow> relinked st (upd_at c f st)"
  by (auto simp: upd_at_def relinked_def option.map_comp comp_def)

lemma view_links [simp]:
  "unlinked_view (r\<lparr>c_sibling_class := p\<rparr>) = unlinked_view r" "unlinked_view (r\<lparr>c_subclass_list := p\<rparr>) = unlinked_view r"
  by (simp_all add: unlinked_view_def)

text \<open>Lists depend only on the sibling fields of their members.\<close>

lemma sib_list_cong:
  assumes "sib_list st p ys" "\<And>y. y \<in> set ys \<Longrightarrow> map_option c_sibling_class (classes st' y) = map_option c_sibling_class (classes st y)"
  shows "sib_list st' p ys"
  using assms
proof (induction ys arbitrary: p)
  case (Cons y ys)
  then obtain r where r: "p = Some y" "classes st y = Some r" "sib_list st (c_sibling_class r) ys" by auto
  with Cons.prems(2) [of y] obtain r' where "classes st' y = Some r'" "c_sibling_class r' = c_sibling_class r"
    by (auto simp: map_option_eq_Some)
  with Cons r show ?case by auto
qed simp

text \<open>Taking a member, not the first, off a list.\<close>

lemma unlink_sibling_ok:
  assumes "sib_list st p ys" "distinct ys" "c \<in> set ys" "p \<noteq> Some c" "classes st c = Some rc" "length ys \<le> fuel"
  shows "\<exists>st'. unlink_sibling fuel st p c (c_sibling_class rc) = Some st' \<and> sib_list st' p (remove1 c ys) \<and>
    (\<exists>y \<in> set ys. y \<noteq> c \<and> st' = upd_at y (\<lambda>x. x\<lparr>c_sibling_class := c_sibling_class rc\<rparr>) st)"
  using assms
proof (induction ys arbitrary: p fuel)
  case (Cons y ys)
  then obtain r n where r: "p = Some y" "classes st y = Some r" "sib_list st (c_sibling_class r) ys" and n: "fuel = Suc n" "length ys \<le> n"
    by (cases fuel) auto
  have yc: "y \<noteq> c" "c \<in> set ys" using Cons.prems r(1) by auto
  show ?case
  proof (cases "c_sibling_class r = Some c")
    case True
    then obtain zs where ys: "ys = c # zs" "sib_list st (c_sibling_class rc) zs" using r(3) Cons.prems(5) yc(2) by (cases ys) auto
    let ?st = "upd_at y (\<lambda>x. x\<lparr>c_sibling_class := c_sibling_class rc\<rparr>) st"
    have "sib_list ?st (c_sibling_class rc) zs"
      by (rule sib_list_cong [OF ys(2)]) (use Cons.prems(2) ys(1) in \<open>auto simp: classes_upd_at\<close>)
    then have "sib_list ?st p (remove1 c (y # ys))" using r yc(1) ys(1) by (simp add: classes_upd_at)
    moreover have "unlink_sibling fuel st p c (c_sibling_class rc) = Some ?st" using n r True upd_class_at [OF r(2)] by simp
    ultimately show ?thesis using yc(1) by auto
  next
    case False
    from Cons.IH [OF r(3) _ yc(2) False Cons.prems(5) n(2)] Cons.prems(2) obtain st' y' where
      s: "unlink_sibling n st (c_sibling_class r) c (c_sibling_class rc) = Some st'" "sib_list st' (c_sibling_class r) (remove1 c ys)"
      "y' \<in> set ys" "y' \<noteq> c" "st' = upd_at y' (\<lambda>x. x\<lparr>c_sibling_class := c_sibling_class rc\<rparr>) st" by auto
    have "y \<noteq> y'" using Cons.prems(2) s(3) by auto
    then have "sib_list st' p (remove1 c (y # ys))" using s(2,5) r yc(1) by (simp add: classes_upd_at)
    moreover have "unlink_sibling fuel st p c (c_sibling_class rc) = Some st'" using n r False s(1) by simp
    ultimately show ?thesis using s by auto
  qed
qed simp

lemma tree_links_list:
  assumes "tree_links X st" "classes st k = Some r" "resolved r"
  obtains ys where "sib_list st (c_subclass_list r) ys" "distinct ys" "set ys = {y. child st k y} - X" "length ys \<le> class_brk st"
proof -
  from assms obtain ys where ys: "sib_list st (c_subclass_list r) ys" "distinct ys" "set ys = {y. child st k y} - X"
    unfolding tree_links_def by blast
  have "y < class_brk st" if "y \<in> set ys" for y
  proof -
    have "classes st y \<noteq> None" using that ys(3) by (auto simp: child_def)
    then show ?thesis using assms(1) unfolding tree_links_def by (metis not_le)
  qed
  then have "set ys \<subseteq> {..<class_brk st}" by auto
  then have "card (set ys) \<le> class_brk st" using card_mono [of "{..<class_brk st}"] by simp
  with ys distinct_card [OF ys(2)] that show thesis by auto
qed

section \<open>Elementary steps\<close>

lemma tree_links_bound: "tree_links X st \<Longrightarrow> class_brk st \<le> k \<Longrightarrow> classes st k = None"
  unfolding tree_links_def by blast

lemma tree_links_super:
  assumes "tree_links X st" "classes st k = Some r" "resolved r" "k \<notin> X" "c_super_class r = Some p"
  obtains s rs where "p = SuperClass s" "classes st s = Some rs" "resolved rs"
  using assms unfolding tree_links_def by (metis option.distinct(1) option.inject)

text \<open>
  A change of link fields keeps the invariant if every list is as the new set of exceptions
  demands.
\<close>

lemma tree_links_relinked:
  assumes l: "tree_links X st" and f: "relinked st st'"
    and sup: "\<And>k r. classes st k = Some r \<Longrightarrow> resolved r \<Longrightarrow> k \<in> X - Y \<Longrightarrow>
      \<exists>s rs. c_super_class r = Some (SuperClass s) \<and> classes st s = Some rs \<and> resolved rs"
    and lists: "\<And>k r'. classes st' k = Some r' \<Longrightarrow> resolved r' \<Longrightarrow>
      \<exists>ys. sib_list st' (c_subclass_list r') ys \<and> distinct ys \<and> set ys = {y. child st k y} - Y"
  shows "tree_links Y st'"
  unfolding tree_links_def
proof (intro conjI allI impI)
  fix k
  assume "class_brk st' \<le> k"
  then have "classes st k = None" using tree_links_bound [OF l] f by (auto simp: relinked_def)
  then show "classes st' k = None" using relinked_class [OF relinked_sym [OF f]] by (metis not_None_eq option.distinct(1))
next
  fix k r'
  assume "classes st' k = Some r' \<and> resolved r'"
  then show "\<exists>ys. sib_list st' (c_subclass_list r') ys \<and> distinct ys \<and> set ys = {y. child st' k y} - Y"
    using lists relinked_child [OF f] by simp
next
  fix k r'
  assume k: "classes st' k = Some r' \<and> resolved r' \<and> k \<notin> Y"
  then obtain r where r: "classes st k = Some r" "unlinked_view r = unlinked_view r'"
    using relinked_class [OF relinked_sym [OF f]] by metis
  have res: "resolved r" and eq: "c_super_class r = c_super_class r'" using k view_fields [OF r(2)] by auto
  show "c_super_class r' = None \<or> (\<exists>s rs. c_super_class r' = Some (SuperClass s) \<and> classes st' s = Some rs \<and> resolved rs)"
  proof (cases "c_super_class r")
    case (Some p)
    have "\<exists>s rs. p = SuperClass s \<and> classes st s = Some rs \<and> resolved rs"
    proof (cases "k \<in> X")
      case True
      with sup [OF r(1) res] k Some show ?thesis by auto
    next
      case False
      from tree_links_super [OF l r(1) res this Some] show ?thesis by blast
    qed
    then obtain s rs where s: "p = SuperClass s" "classes st s = Some rs" "resolved rs" by blast
    from relinked_class [OF f s(2)] obtain rs' where "classes st' s = Some rs'" "unlinked_view rs' = unlinked_view rs" .
    moreover from view_fields(8) [OF this(2)] s(3) have "resolved rs'" by simp
    ultimately show ?thesis unfolding eq [symmetric] using s(1) Some by simp
  qed (use eq in simp)
qed

text \<open>A class is taken off the list it is on.\<close>

lemma unlist_ok:
  assumes l: "tree_links X st" and c: "classes st c = Some r" "resolved r" "c \<notin> X"
  shows "\<exists>st'. safe_remove_from_subclass_list st c = Some st' \<and> tree_links (insert c X) st' \<and> relinked st st'"
proof (cases "c_super_class r")
  case None
  have "tree_links (insert c X) st"
  proof (rule tree_links_relinked [OF l relinked_refl])
    fix k q
    assume q: "classes st k = Some q" "resolved q"
    from tree_links_list [OF l q] obtain ys where ys: "sib_list st (c_subclass_list q) ys" "distinct ys" "set ys = {y. child st k y} - X" by metis
    have "\<not> child st k c" using c None by (simp add: child_def)
    with ys show "\<exists>ys. sib_list st (c_subclass_list q) ys \<and> distinct ys \<and> set ys = {y. child st k y} - insert c X" by blast
  qed auto
  then show ?thesis using c None by (simp add: safe_remove_from_subclass_list_def)
next
  case (Some p)
  from tree_links_super [OF l c(1,2,3) Some] obtain s rs where s: "p = SuperClass s" "classes st s = Some rs" "resolved rs" by metis
  from tree_links_list [OF l s(2,3)] obtain ys where ys: "sib_list st (c_subclass_list rs) ys" "distinct ys"
    "set ys = {y. child st s y} - X" "length ys \<le> class_brk st" by metis
  have cin: "c \<in> set ys" using ys(3) c Some s(1) by (auto simp: child_def)
  obtain st' where st': "safe_remove_from_subclass_list st c = Some st'" "relinked st st'"
    and own: "\<And>r'. classes st' s = Some r' \<Longrightarrow> sib_list st' (c_subclass_list r') (remove1 c ys)"
    and heads: "\<And>k. k \<noteq> s \<Longrightarrow> map_option c_subclass_list (classes st' k) = map_option c_subclass_list (classes st k)"
    and siblings: "\<And>y. y \<notin> set ys \<Longrightarrow> map_option c_sibling_class (classes st' y) = map_option c_sibling_class (classes st y)"
  proof (cases "c_subclass_list rs = Some c")
    case True
    then obtain zs where zs: "ys = c # zs" "sib_list st (c_sibling_class r) zs" using ys(1) cin c(1) by (cases ys) auto
    let ?st = "upd_at s (\<lambda>x. x\<lparr>c_subclass_list := c_sibling_class r\<rparr>) st"
    have "sib_list ?st (c_sibling_class r) zs" by (rule sib_list_cong [OF zs(2)]) (auto simp: classes_upd_at option.map_comp comp_def)
    then show thesis
      by (intro that [of ?st]) (use c(1,2) Some s True zs upd_class_at [OF s(2)] in
        \<open>auto simp: safe_remove_from_subclass_list_def classes_upd_at option.map_comp comp_def intro!: relinked_upd_at\<close>)
  next
    case False
    from unlink_sibling_ok [OF ys(1,2) cin False c(1) ys(4)] obtain st' y where
      u: "unlink_sibling (class_brk st) st (c_subclass_list rs) c (c_sibling_class r) = Some st'"
      "sib_list st' (c_subclass_list rs) (remove1 c ys)" "y \<in> set ys" "st' = upd_at y (\<lambda>x. x\<lparr>c_sibling_class := c_sibling_class r\<rparr>) st" by blast
    show thesis
      by (intro that [of st']) (use c(1,2) Some s False u in
        \<open>auto simp: safe_remove_from_subclass_list_def classes_upd_at option.map_comp comp_def split: if_splits intro!: relinked_upd_at\<close>)
  qed
  have "tree_links (insert c X) st'"
  proof (rule tree_links_relinked [OF l st'(2)])
    fix k q'
    assume q': "classes st' k = Some q'" "resolved q'"
    show "\<exists>ys. sib_list st' (c_subclass_list q') ys \<and> distinct ys \<and> set ys = {y. child st k y} - insert c X"
    proof (cases "k = s")
      case True
      then show ?thesis using own q'(1) ys(2,3) by (intro exI [of _ "remove1 c ys"]) auto
    next
      case False
      obtain q where q: "classes st k = Some q" "c_subclass_list q' = c_subclass_list q"
        using heads [OF False] q'(1) by (cases "classes st k") auto
      obtain q2 where q2: "classes st k = Some q2" "unlinked_view q2 = unlinked_view q'"
        using relinked_class [OF relinked_sym [OF st'(2)] q'(1)] by metis
      have "resolved q" using view_fields(8) [OF q2(2)] q2(1) q(1) q'(2) by simp
      from tree_links_list [OF l q(1) this] obtain zs where zs: "sib_list st (c_subclass_list q) zs" "distinct zs" "set zs = {y. child st k y} - X" by metis
      have disj: "y \<notin> set ys" if "y \<in> set zs" for y using that zs(3) ys(3) False by (auto simp: child_def)
      have "sib_list st' (c_subclass_list q') zs" unfolding q(2) by (rule sib_list_cong [OF zs(1)]) (use siblings disj in auto)
      moreover have "set zs = {y. child st k y} - insert c X" using zs(3) disj cin by auto
      ultimately show ?thesis using zs(2) by blast
    qed
  qed auto
  with st' show ?thesis by blast
qed

text \<open>A class that is off its list gets another superclass, or other fields that are not links.\<close>

lemma detached_update:
  assumes l: "tree_links X st" and c: "c \<in> X" "classes st c = Some r" and res: "resolved (f r) = resolved r"
    and same: "c_subclass_list (f r) = c_subclass_list r" "c_sibling_class (f r) = c_sibling_class r"
  shows "tree_links X (upd_at c f st)"
proof -
  let ?st = "upd_at c f st"
  have ch: "child ?st k y = child st k y" if "y \<notin> X" for k y
    using that c(1) by (auto simp: child_def classes_upd_at)
  have lst: "sib_list ?st p ys" if "sib_list st p ys" for p ys
    by (rule sib_list_cong [OF that]) (use c(2) same(2) in \<open>simp add: classes_upd_at\<close>)
  have ex: "\<exists>q. classes st k = Some q \<and> resolved q \<and> c_subclass_list q = c_subclass_list q' \<and> (k \<notin> X \<longrightarrow> q = q')"
    if "classes ?st k = Some q'" "resolved q'" for k q'
    using that c res same(1) by (auto simp: classes_upd_at split: if_splits)
  have keep: "\<exists>rs. classes ?st s = Some rs \<and> resolved rs" if "classes st s = Some q" "resolved q" for s q
    using that c(2) res by (auto simp: classes_upd_at)
  show ?thesis
    unfolding tree_links_def
  proof (intro conjI allI impI)
    show "classes ?st k = None" if "class_brk ?st \<le> k" for k
      using that tree_links_bound [OF l, of k] c(2) by (auto simp: classes_upd_at)
  next
    fix k q'
    assume "classes ?st k = Some q' \<and> resolved q'"
    with ex obtain q where q: "classes st k = Some q" "resolved q" "c_subclass_list q = c_subclass_list q'" by blast
    from tree_links_list [OF l q(1,2)] obtain ys where ys: "sib_list st (c_subclass_list q) ys" "distinct ys" "set ys = {y. child st k y} - X" by metis
    moreover have "{y. child st k y} - X = {y. child ?st k y} - X" using ch by blast
    ultimately show "\<exists>ys. sib_list ?st (c_subclass_list q') ys \<and> distinct ys \<and> set ys = {y. child ?st k y} - X"
      using lst q(3) by (intro exI [of _ ys]) auto
  next
    fix k q'
    assume k: "classes ?st k = Some q' \<and> resolved q' \<and> k \<notin> X"
    with ex have q: "classes st k = Some q'" "resolved q'" "k \<notin> X" by blast+
    then show "c_super_class q' = None \<or> (\<exists>s rs. c_super_class q' = Some (SuperClass s) \<and> classes ?st s = Some rs \<and> resolved rs)"
      using tree_links_super [OF l q] keep by (metis not_None_eq)
  qed
qed

text \<open>Putting a class in front of the list of its superclass.\<close>

lemma push_ok:
  assumes l: "tree_links X st" and c: "c \<in> X" "classes st c = Some r" "resolved r" "c_super_class r = Some (SuperClass n)"
    and n: "classes st n = Some rn" "resolved rn" "n \<noteq> c"
  shows "\<exists>st'. push_subclass st c n = Some st' \<and> tree_links (X - {c}) st' \<and> relinked st st'"
proof -
  let ?s = "upd_at c (\<lambda>x. x\<lparr>c_sibling_class := c_subclass_list rn\<rparr>) st"
  let ?st = "upd_at n (\<lambda>x. x\<lparr>c_subclass_list := Some c\<rparr>) ?s"
  have run: "push_subclass st c n = Some ?st"
    using c(2) n upd_class_at [of st c r] upd_class_at [of ?s n rn] by (simp add: push_subclass_def classes_upd_at)
  have rel: "relinked st ?st" by (rule relinked_trans; rule relinked_upd_at; simp)
  have lst: "sib_list ?st p ys" if "sib_list st p ys" "c \<notin> set ys" for p ys
    by (rule sib_list_cong [OF that(1)]) (use that(2) n(1,3) in \<open>auto simp: classes_upd_at option.map_comp comp_def\<close>)
  have "tree_links (X - {c}) ?st"
  proof (rule tree_links_relinked [OF l rel])
    show "\<exists>s rs. c_super_class q = Some (SuperClass s) \<and> classes st s = Some rs \<and> resolved rs"
      if "classes st k = Some q" "k \<in> X - (X - {c})" for k q using that c n by auto
  next
    fix k q'
    assume q': "classes ?st k = Some q'" "resolved q'"
    obtain q where q: "classes st k = Some q" "unlinked_view q = unlinked_view q'"
      using relinked_class [OF relinked_sym [OF rel] q'(1)] by metis
    have "resolved q" using view_fields(8) [OF q(2)] q'(2) by simp
    from tree_links_list [OF l q(1) this] obtain ys where ys: "sib_list st (c_subclass_list q) ys" "distinct ys" "set ys = {y. child st k y} - X" by metis
    have cn: "c \<notin> set ys" using ys(3) c(1) by auto
    have par: "child st k c \<longleftrightarrow> k = n" using c by (auto simp: child_def)
    show "\<exists>ys. sib_list ?st (c_subclass_list q') ys \<and> distinct ys \<and> set ys = {y. child st k y} - (X - {c})"
    proof (cases "k = n")
      case True
      then have "c_subclass_list q' = Some c" "q = rn" using q'(1) q(1) n c(2) by (auto simp: classes_upd_at)
      then have "sib_list ?st (c_subclass_list q') (c # ys)" using lst [OF ys(1) cn] c(2) n by (simp add: classes_upd_at)
      moreover have "set (c # ys) = {y. child st k y} - (X - {c})" using ys(3) par True by auto
      ultimately show ?thesis using ys(2) cn by (intro exI [of _ "c # ys"]) simp
    next
      case False
      then have "c_subclass_list q' = c_subclass_list q" using q'(1) q(1) by (auto simp: classes_upd_at split: if_splits)
      moreover have "set ys = {y. child st k y} - (X - {c})" using ys(3) par False by auto
      ultimately show ?thesis using lst [OF ys(1) cn] ys(2) by auto
    qed
  qed
  with run rel show ?thesis by blast
qed

section \<open>Moving a class\<close>

lemma resolve_resolved: "classes st c = Some r \<Longrightarrow> resolved r \<Longrightarrow> objc_resolve_class (f + 3) st c = Some (st, True)"
  by (simp add: resolve_body_def numeral_3_eq_3)

lemma relinked_upd:
  assumes "relinked s t" "\<And>x. unlinked_view (f x) = f (unlinked_view x)"
  shows "relinked (upd_at c f s) (upd_at c f t)"
proof -
  from assms(1) obtain g where g: "t = s\<lparr>classes := g\<rparr>" "\<And>k. map_option unlinked_view (g k) = map_option unlinked_view (classes s k)"
    by (auto simp: relinked_def)
  have "map_option unlinked_view (map_option f (g c)) = map_option f (map_option unlinked_view (g c))" for g :: "nat \<Rightarrow> objc_class option"
    by (simp add: option.map_comp comp_def assms(2))
  with g show ?thesis
    by (auto simp: relinked_def upd_at_def intro!: exI [of _ "g(c := map_option f (g c))"])
qed

lemma view_super [simp]:
  "unlinked_view (x\<lparr>c_super_class := p\<rparr>) = (unlinked_view x)\<lparr>c_super_class := p\<rparr>"
  "unlinked_view (x\<lparr>c_super_class := p, c_isa := i\<rparr>) = (unlinked_view x)\<lparr>c_super_class := p, c_isa := i\<rparr>"
  by (simp_all add: unlinked_view_def)

lemma flag_super [simp]:
  "resolved (x\<lparr>c_super_class := p\<rparr>) = resolved x" "resolved (x\<lparr>c_super_class := p, c_isa := i\<rparr>) = resolved x"
  "objc_test_class_flag (x\<lparr>c_super_class := p\<rparr>) f = objc_test_class_flag x f"
  "objc_test_class_flag (x\<lparr>c_super_class := p, c_isa := i\<rparr>) f = objc_test_class_flag x f"
  by (simp_all add: resolved_def objc_test_class_flag_def)

text \<open>One class is moved: off its list, a new superclass, onto the new list.\<close>

lemma move_one:
  assumes l: "tree_links {} st" and c: "classes st c = Some r" "resolved r"
    and n: "classes st n = Some rn" "resolved rn" "n \<noteq> c"
    and f: "\<And>x. unlinked_view (f x) = f (unlinked_view x)" "\<And>x. resolved (f x) = resolved x"
      "\<And>x. c_subclass_list (f x) = c_subclass_list x" "\<And>x. c_sibling_class (f x) = c_sibling_class x"
      "\<And>x. c_super_class (f x) = Some (SuperClass n)"
  shows "\<exists>s1 s2. safe_remove_from_subclass_list st c = Some s1 \<and> relinked st s1 \<and>
    upd_class c f s1 = Some (upd_at c f s1) \<and> push_subclass (upd_at c f s1) c n = Some s2 \<and>
    tree_links {} s2 \<and> relinked (upd_at c f st) s2"
proof -
  from unlist_ok [OF l c] obtain s1 where s1: "safe_remove_from_subclass_list st c = Some s1" "tree_links {c} s1" "relinked st s1"
    by auto
  from relinked_class [OF s1(3) c(1)] obtain r1 where r1: "classes s1 c = Some r1" "unlinked_view r1 = unlinked_view r" .
  from relinked_class [OF s1(3) n(1)] obtain rn1 where rn1: "classes s1 n = Some rn1" "unlinked_view rn1 = unlinked_view rn" .
  let ?u = "upd_at c f s1"
  have "tree_links {c} ?u" by (rule detached_update [OF s1(2) _ r1(1)]) (simp_all add: f)
  from push_ok [OF this, of c "f r1" n rn1] r1 rn1 n(2,3) c(2) view_fields(8) [OF r1(2)] view_fields(8) [OF rn1(2)] f(2,5)
  obtain s2 where s2: "push_subclass ?u c n = Some s2" "tree_links {} s2" "relinked ?u s2"
    by (auto simp: classes_upd_at)
  have "relinked (upd_at c f st) s2" by (rule relinked_trans [OF relinked_upd [OF s1(3), of f] s2(3)]) (rule f(1))
  with s1 s2 upd_class_at [OF r1(1)] show ?thesis by blast
qed

lemma relink_ok:
  assumes l: "tree_links {} st" and c: "classes st c = Some r" "resolved r" "c_isa r = Some m" "\<not> objc_test_class_flag r objc_class_flag_meta"
    and m: "classes st m = Some rm" "resolved rm" "m \<noteq> c"
    and n: "classes st n = Some rn" "resolved rn" "n \<noteq> c" "c_isa rn = Some nm"
    and nm: "classes st nm = Some rnm" "resolved rnm" "nm \<noteq> m"
  shows "\<exists>st'. relink_superclass st c n = Some st' \<and> tree_links {} st' \<and>
    relinked (upd_at m (\<lambda>x. x\<lparr>c_super_class := Some (SuperClass nm), c_isa := c_isa rnm\<rparr>)
      (upd_at c (\<lambda>x. x\<lparr>c_super_class := Some (SuperClass n)\<rparr>) st)) st'"
proof -
  let ?F = "\<lambda>x. x\<lparr>c_super_class := Some (SuperClass n)\<rparr>"
  let ?G = "\<lambda>x. x\<lparr>c_super_class := Some (SuperClass nm), c_isa := c_isa rnm\<rparr>"
  from move_one [OF l c(1,2) n(1,2,3), of ?F] obtain s1 s4 where
    s1: "safe_remove_from_subclass_list st c = Some s1" "relinked st s1" "upd_class c ?F s1 = Some (upd_at c ?F s1)"
    and s4: "push_subclass (upd_at c ?F s1) c n = Some s4" "tree_links {} s4" "relinked (upd_at c ?F st) s4" by auto
  have at4: "\<exists>q'. classes s4 k = Some q' \<and> c_isa q' = c_isa q \<and> resolved q' = resolved q \<and>
    objc_test_class_flag q' objc_class_flag_meta = objc_test_class_flag q objc_class_flag_meta" if "classes st k = Some q" for k q
  proof -
    have "\<exists>q0. classes (upd_at c ?F st) k = Some q0 \<and> c_isa q0 = c_isa q \<and> resolved q0 = resolved q \<and>
      objc_test_class_flag q0 objc_class_flag_meta = objc_test_class_flag q objc_class_flag_meta"
      using that by (auto simp: classes_upd_at)
    then obtain q0 where q0: "classes (upd_at c ?F st) k = Some q0" "c_isa q0 = c_isa q" "resolved q0 = resolved q"
      "objc_test_class_flag q0 objc_class_flag_meta = objc_test_class_flag q objc_class_flag_meta" by blast
    from relinked_class [OF s4(3) q0(1)] obtain q' where q': "classes s4 k = Some q'" "unlinked_view q' = unlinked_view q0" .
    show ?thesis using q' q0 view_fields(1,8,9) [OF q'(2)] by simp
  qed
  obtain r4 rm4 rn4 rnm4 where at: "classes s4 c = Some r4" "c_isa r4 = Some m" "\<not> objc_test_class_flag r4 objc_class_flag_meta"
    "classes s4 m = Some rm4" "resolved rm4" "classes s4 n = Some rn4" "c_isa rn4 = Some nm"
    "classes s4 nm = Some rnm4" "resolved rnm4" "c_isa rnm4 = c_isa rnm"
    using at4 [OF c(1)] at4 [OF m(1)] at4 [OF n(1)] at4 [OF nm(1)] c m n nm by auto
  from move_one [OF s4(2) at(4,5,8,9) nm(3), of ?G] obtain s5 s8 where
    s5: "safe_remove_from_subclass_list s4 m = Some s5" "relinked s4 s5" "upd_class m ?G s5 = Some (upd_at m ?G s5)"
    and s8: "push_subclass (upd_at m ?G s5) m nm = Some s8" "tree_links {} s8" "relinked (upd_at m ?G s4) s8" by auto
  from relinked_class [OF s1(2) n(1)] obtain rn1 where rn1: "classes s1 n = Some rn1" "unlinked_view rn1 = unlinked_view rn" .
  from relinked_class [OF s5(2) at(8)] obtain rnm5 where rnm5: "classes s5 nm = Some rnm5" "unlinked_view rnm5 = unlinked_view rnm4" .
  have v: "resolved rn1" "resolved rnm5" "c_isa rnm5 = c_isa rnm"
    using view_fields(8) [OF rn1(2)] view_fields(1,8) [OF rnm5(2)] n(2) at(9,10) by simp_all
  have "objc_resolve_class (class_brk s1 + 3) s1 n = Some (s1, True)"
    by (rule resolve_resolved [OF rn1(1) v(1)])
  moreover have "objc_resolve_class (class_brk s5 + 3) s5 nm = Some (s5, True)"
    by (rule resolve_resolved [OF rnm5(1) v(2)])
  ultimately have "relink_superclass st c n = Some s8"
    unfolding relink_superclass_def using s1 s4(1) s5 s8(1) at rnm5(1) v(3) by (simp del: objc_resolve_class.simps)
  moreover have "relinked (upd_at m ?G (upd_at c ?F st)) s8"
    by (rule relinked_trans [OF relinked_upd [OF s4(3)] s8(3)]) simp
  ultimately show ?thesis using s8(2) by blast
qed

section \<open>Destroying a class pair\<close>

lemma tree_links_cong: "classes st' = classes st \<Longrightarrow> class_brk st' = class_brk st \<Longrightarrow> tree_links X st' = tree_links X st"
proof -
  assume a: "classes st' = classes st" "class_brk st' = class_brk st"
  have "sib_list st' p ys = sib_list st p ys" for p ys
    by (rule iffI; erule sib_list_cong; simp add: a(1))
  then show ?thesis by (simp add: tree_links_def child_def a)
qed

text \<open>Freeing a class that is off its list and has no subclass on a list.\<close>

lemma free_ok:
  assumes l: "tree_links X st" and c: "c \<in> X" "classes st c = Some r" and no: "\<And>y. child st c y \<Longrightarrow> y \<in> X"
  shows "tree_links (X - {c}) (st\<lparr>classes := (classes st)(c := None)\<rparr>)"
proof -
  let ?st = "st\<lparr>classes := (classes st)(c := None)\<rparr>"
  have ch: "{y. child ?st k y} - (X - {c}) = {y. child st k y} - X" for k
    using c(1) by (auto simp: child_def)
  have lst: "sib_list ?st p ys" if "sib_list st p ys" "c \<notin> set ys" for p ys
    by (rule sib_list_cong [OF that(1)]) (use that(2) in auto)
  show ?thesis
    unfolding tree_links_def
  proof (intro conjI allI impI)
    show "classes ?st k = None" if "class_brk ?st \<le> k" for k using that tree_links_bound [OF l, of k] by simp
  next
    fix k q
    assume "classes ?st k = Some q \<and> resolved q"
    then have q: "classes st k = Some q" "resolved q" by (auto split: if_splits)
    from tree_links_list [OF l q] obtain ys where ys: "sib_list st (c_subclass_list q) ys" "distinct ys" "set ys = {y. child st k y} - X" by metis
    moreover have "c \<notin> set ys" using ys(3) c(1) by auto
    ultimately show "\<exists>ys. sib_list ?st (c_subclass_list q) ys \<and> distinct ys \<and> set ys = {y. child ?st k y} - (X - {c})"
      unfolding ch using lst by blast
  next
    fix k q
    assume k: "classes ?st k = Some q \<and> resolved q \<and> k \<notin> X - {c}"
    then have q: "classes st k = Some q" "resolved q" "k \<notin> X" by (auto split: if_splits)
    show "c_super_class q = None \<or> (\<exists>s rs. c_super_class q = Some (SuperClass s) \<and> classes ?st s = Some rs \<and> resolved rs)"
    proof (cases "c_super_class q")
      case (Some p)
      from tree_links_super [OF l q this] obtain s rs where s: "p = SuperClass s" "classes st s = Some rs" "resolved rs" by metis
      have "s \<noteq> c" using no [of k] q s(1) Some by (auto simp: child_def)
      with s Some show ?thesis by simp
    qed simp
  qed
qed

text \<open>The methods and the offsets that go with a class.\<close>

definition owned_methods :: "objc_class \<Rightarrow> nat list" where
  "owned_methods r = concat (map ml_methods (c_methods r))"

definition owned_offsets :: "objc_class \<Rightarrow> nat list" where
  "owned_offsets r =
     (case c_ivars r of
        None \<Rightarrow> []
      | Some il \<Rightarrow>
          if 0 < il_count il \<and> objc_test_class_flag r objc_class_flag_owned_ivar_offsets then
            (case iv_offset (il_ivars il ! 0) of None \<Rightarrow> [] | Some p \<Rightarrow> [p..<p + nat (il_count il)])
          else [])"

definition lists_fit :: "objc_class \<Rightarrow> bool" where
  "lists_fit r \<longleftrightarrow> (\<forall>l \<in> set (c_methods r). ml_count l \<le> int (length (ml_methods l))) \<and>
     (case c_ivars r of None \<Rightarrow> True | Some il \<Rightarrow> il_count il \<le> int (length (il_ivars il)))"

lemma free_methods_of:
  assumes "distinct hs" "\<forall>h \<in> set hs. meths st h \<noteq> None"
  shows "foldM free_method st hs = Some (st\<lparr>meths := (\<lambda>h. if h \<in> set hs then None else meths st h)\<rparr>)"
  using assms
proof (induction hs arbitrary: st)
  case (Cons h hs)
  let ?s = "st\<lparr>meths := (meths st)(h := None)\<rparr>"
  have "foldM free_method st (h # hs) = foldM free_method ?s hs" using Cons.prems(2) by (auto simp: free_method_def)
  also have "\<dots> = Some (?s\<lparr>meths := (\<lambda>k. if k \<in> set hs then None else meths ?s k)\<rparr>)"
    by (rule Cons.IH) (use Cons.prems in auto)
  also have "\<dots> = Some (st\<lparr>meths := (\<lambda>k. if k \<in> set (h # hs) then None else meths st k)\<rparr>)" by (auto simp: fun_eq_iff)
  finally show ?case .
qed simp

lemma free_lists_of:
  assumes "distinct (concat (map ml_methods ls))" "\<forall>h \<in> set (concat (map ml_methods ls)). meths st h \<noteq> None"
    "\<forall>l \<in> set ls. ml_count l \<le> int (length (ml_methods l))"
  shows "freeMethodLists st ls = Some (st\<lparr>meths := (\<lambda>h. if h \<in> set (concat (map ml_methods ls)) then None else meths st h)\<rparr>)"
  using assms
proof (induction ls arbitrary: st)
  case (Cons l ls)
  let ?s = "st\<lparr>meths := (\<lambda>h. if h \<in> set (ml_methods l) then None else meths st h)\<rparr>"
  have "foldM free_method st (ml_methods l) = Some ?s" by (rule free_methods_of) (use Cons.prems in auto)
  then have "freeMethodLists st (l # ls) = freeMethodLists ?s ls" using Cons.prems(3) by (simp add: freeMethodLists_def)
  also have "\<dots> = Some (?s\<lparr>meths := (\<lambda>h. if h \<in> set (concat (map ml_methods ls)) then None else meths ?s h)\<rparr>)"
    by (rule Cons.IH) (use Cons.prems in auto)
  also have "\<dots> = Some (st\<lparr>meths := (\<lambda>h. if h \<in> set (concat (map ml_methods (l # ls))) then None else meths st h)\<rparr>)"
    by (auto simp: fun_eq_iff)
  finally show ?case .
qed (simp add: freeMethodLists_def)

lemma free_methods_owned:
  assumes "lists_fit r" "distinct (owned_methods r)" "\<forall>h \<in> set (owned_methods r). meths st h \<noteq> None"
  shows "freeMethodLists st (c_methods r) = Some (st\<lparr>meths := (\<lambda>h. if h \<in> set (owned_methods r) then None else meths st h)\<rparr>)"
  unfolding owned_methods_def by (rule free_lists_of) (use assms in \<open>auto simp: owned_methods_def lists_fit_def\<close>)

lemma free_ints_of:
  assumes "distinct ps" "\<forall>p \<in> set ps. ints st p \<noteq> None"
  shows "foldM free_int st ps = Some (st\<lparr>ints := (\<lambda>p. if p \<in> set ps then None else ints st p)\<rparr>)"
  using assms
proof (induction ps arbitrary: st)
  case (Cons p ps)
  let ?s = "st\<lparr>ints := (ints st)(p := None)\<rparr>"
  have "foldM free_int st (p # ps) = foldM free_int ?s ps" using Cons.prems(2) by (auto simp: free_int_def)
  also have "\<dots> = Some (?s\<lparr>ints := (\<lambda>k. if k \<in> set ps then None else ints ?s k)\<rparr>)"
    by (rule Cons.IH) (use Cons.prems in auto)
  also have "\<dots> = Some (st\<lparr>ints := (\<lambda>k. if k \<in> set (p # ps) then None else ints st k)\<rparr>)" by (auto simp: fun_eq_iff)
  finally show ?case .
qed simp

lemma free_offsets_of:
  assumes "lists_fit r" "\<forall>p \<in> set (owned_offsets r). ints st p \<noteq> None"
  shows "freeIvarLists st r = Some (st\<lparr>ints := (\<lambda>p. if p \<in> set (owned_offsets r) then None else ints st p)\<rparr>)"
proof (cases "c_ivars r")
  case (Some il)
  then have fit: "il_count il \<le> int (length (il_ivars il))" using assms(1) by (simp add: lists_fit_def)
  show ?thesis
  proof (cases "0 < il_count il \<and> objc_test_class_flag r objc_class_flag_owned_ivar_offsets \<and> iv_offset (il_ivars il ! 0) \<noteq> None")
    case True
    then obtain p where p: "iv_offset (il_ivars il ! 0) = Some p" by auto
    have o: "owned_offsets r = [p..<p + nat (il_count il)]" using True p Some by (simp add: owned_offsets_def)
    have "freeIvarLists st r = foldM free_int st (owned_offsets r)" unfolding o using True p Some fit by (simp add: freeIvarLists_def)
    also have "\<dots> = Some (st\<lparr>ints := (\<lambda>p. if p \<in> set (owned_offsets r) then None else ints st p)\<rparr>)"
      by (rule free_ints_of [OF _ assms(2)]) (simp add: o)
    finally show ?thesis .
  next
    case False
    then have "owned_offsets r = []" "freeIvarLists st r = Some st" using Some fit by (auto simp: owned_offsets_def freeIvarLists_def)
    then show ?thesis by simp
  qed
qed (simp add: freeIvarLists_def owned_offsets_def)

lemma free_dtable_frame:
  assumes t: "free_dtable_of s r = Some t"
    and s: "dtables s' = dtables s" "uninstalled_dtable s' = uninstalled_dtable s" "c_dtable r' = c_dtable r"
  shows "free_dtable_of s' r' = Some (s'\<lparr>dtables := dtables t\<rparr>)" "uninstalled_dtable t = uninstalled_dtable s"
proof -
  have i: "classHasInstalledDtable s' r' = classHasInstalledDtable s r" by (simp add: classHasInstalledDtable_def s)
  show "free_dtable_of s' r' = Some (s'\<lparr>dtables := dtables t\<rparr>)"
  proof (cases "classHasInstalledDtable s r")
    case True
    with t obtain h where "SparseArrayDestroy 4 (dtables s) (c_dtable r) = Some h" "t = s\<lparr>dtables := h\<rparr>"
      by (auto simp: free_dtable_of_def free_dtable_def)
    with True show ?thesis unfolding free_dtable_of_def i free_dtable_def by (simp add: s)
  next
    case False
    then have "dtables t = dtables s'" using t by (simp add: free_dtable_of_def s)
    with False show ?thesis unfolding free_dtable_of_def i by simp
  qed
  show "uninstalled_dtable t = uninstalled_dtable s"
    using t by (cases "classHasInstalledDtable s r") (auto simp: free_dtable_of_def free_dtable_def)
qed

lemma relinked_view: "relinked st st' \<Longrightarrow> map_option unlinked_view (classes st' k) = map_option unlinked_view (classes st k)"
  by (auto simp: relinked_def)

lemma relinked_text: "relinked st st' \<Longrightarrow> class_text st' k = class_text st k"
proof -
  assume rel: "relinked st st'"
  show ?thesis
  proof (cases "classes st k")
    case None
    then have "classes st' k = None" using relinked_view [OF rel, of k] by simp
    with None show ?thesis by (simp add: class_text_def)
  next
    case (Some q)
    from relinked_class [OF rel Some] obtain q' where q': "classes st' k = Some q'" "unlinked_view q' = unlinked_view q" .
    with Some view_fields(3) [OF q'(2)] show ?thesis by (simp add: class_text_def)
  qed
qed

text \<open>
  A pair that can be destroyed: created at run time, not a duplicate, without subclasses, the only
  owner of its methods and offsets, with dispatch tables that can be released.
\<close>

definition disposable :: "rt_state \<Rightarrow> nat \<Rightarrow> objc_class \<Rightarrow> nat \<Rightarrow> objc_class \<Rightarrow> bool" where
  "disposable st c r m rm \<longleftrightarrow>
     classes st c = Some r \<and> classes st m = Some rm \<and> c_isa r = Some m \<and> m \<noteq> c \<and> resolved r \<and> resolved rm \<and>
     objc_test_class_flag r objc_class_flag_user_created \<and> \<not> objc_test_class_flag r objc_class_flag_duplicate \<and>
     (\<forall>y. child st c y \<or> child st m y \<longrightarrow> y = c \<or> y = m) \<and> lists_fit r \<and> lists_fit rm \<and>
     distinct (owned_methods r @ owned_methods rm) \<and> (\<forall>h \<in> set (owned_methods r @ owned_methods rm). meths st h \<noteq> None) \<and>
     (\<forall>p \<in> set (owned_offsets r). ints st p \<noteq> None) \<and>
     (\<exists>t u. free_dtable_of st r = Some t \<and> free_dtable_of t rm = Some u)"

text \<open>Taking the pair off the lists and out of the class table.\<close>

lemma dispose_unlink:
  assumes l: "tree_links {} st" and d: "disposable st c r m rm"
    and v: "cache_inv v st" "Suc v < 2 ^ 64" and nm: "c_name r = Some nm" "class_table_internal_table_get st (cs_text nm) = Some c"
  shows "\<exists>s1 s2 lc s4. safe_remove_from_subclass_list st m = Some s1 \<and> safe_remove_from_subclass_list s1 c = Some s2 \<and>
    objc_lookUpClass thread s2 (c_name r) = (s2\<lparr>class_lookup_cache := lc\<rparr>, Some c) \<and>
    class_table_remove (s2\<lparr>class_lookup_cache := lc\<rparr>) c = Some s4 \<and>
    tree_links {c, m} s2 \<and> relinked st s2 \<and> cache_inv v (s2\<lparr>class_lookup_cache := lc\<rparr>) \<and>
    s4 = s2\<lparr>class_lookup_cache := lc, class_table := remove1 c (class_table st), class_table_generation := class_table_generation s2 + 1\<rparr>"
proof -
  note d = d [unfolded disposable_def]
  from unlist_ok [OF l, of m rm] d obtain s1 where s1: "safe_remove_from_subclass_list st m = Some s1" "tree_links {m} s1" "relinked st s1" by auto
  from relinked_class [OF s1(3), of c r] d obtain r1 where r1: "classes s1 c = Some r1" "unlinked_view r1 = unlinked_view r" by auto
  from unlist_ok [OF s1(2) r1(1)] d view_fields(8) [OF r1(2)] obtain s2 where
    s2: "safe_remove_from_subclass_list s1 c = Some s2" "tree_links {c, m} s2" "relinked s1 s2" by (auto simp: insert_commute)
  have rel: "relinked st s2" by (rule relinked_trans [OF s1(3) s2(3)])
  from relinked_class [OF rel, of c r] d obtain r2 where r2: "classes s2 c = Some r2" "unlinked_view r2 = unlinked_view r" by auto
  have same: "class_table s2 = class_table st" "class_table_generation s2 = class_table_generation st" "class_lookup_cache s2 = class_lookup_cache st"
    using rel by (auto simp: relinked_def)
  have inv: "cache_inv v s2" by (rule cache_inv_frame [OF v(1)]) (simp_all add: same relinked_text [OF rel])
  have got: "class_table_internal_table_get s2 (cs_text nm) = Some c"
    using nm(2) table_get_cong [of s2 st] same(1) relinked_text [OF rel] by simp
  from get_safe_inv [OF inv v(2), of thread nm] obtain lc where
    lc: "class_table_get_safe thread s2 (Some nm) = (s2\<lparr>class_lookup_cache := lc\<rparr>, Some c)"
    and inv3: "cache_inv v (s2\<lparr>class_lookup_cache := lc\<rparr>)" using got by auto
  let ?s3 = "s2\<lparr>class_lookup_cache := lc\<rparr>"
  let ?s4 = "class_table_invalidate_cache (?s3\<lparr>class_table := remove1 c (class_table st)\<rparr>)"
  have "class_table_internal_table_get ?s3 (cs_text nm) = Some c"
    using got table_get_cong [of ?s3 s2] by (simp add: class_text_def)
  then have "class_table_remove ?s3 c = Some ?s4"
    using r2(1) view_fields(3,9) [OF r2(2)] nm(1) d same(1) by (simp add: class_table_remove_def)
  with s1(1) s2(1,2) rel inv3 lc nm(1) show ?thesis
    by (intro exI [of _ s1] exI [of _ s2] exI [of _ lc] exI [of _ ?s4])
      (simp add: objc_lookUpClass_def class_table_invalidate_cache_def)
qed

text \<open>Freeing the parts and the two classes.\<close>

lemma dispose_free:
  assumes l: "tree_links {c, m} s" and d: "disposable st c r m rm" and rel: "relinked st s"
    and s4: "classes s4 = classes s" "class_brk s4 = class_brk s" "meths s4 = meths st" "ints s4 = ints st" "dtables s4 = dtables st"
      "uninstalled_dtable s4 = uninstalled_dtable st"
    and r: "classes s4 c = Some r'" "classes s4 m = Some rm'"
  shows "\<exists>s5 s6 s7 s8 s9 s10 st'. freeMethodLists s4 (c_methods r') = Some s5 \<and> freeMethodLists s5 (c_methods rm') = Some s6 \<and>
    freeIvarLists s6 r' = Some s7 \<and> free_dtable_of s7 r' = Some s8 \<and> free_dtable_of s8 rm' = Some s9 \<and>
    free_class s9 m = Some s10 \<and> free_class s10 c = Some st' \<and> tree_links {} st' \<and>
    st' = s4\<lparr>classes := (classes s)(m := None, c := None),
      meths := (\<lambda>h. if h \<in> set (owned_methods r @ owned_methods rm) then None else meths st h),
      ints := (\<lambda>p. if p \<in> set (owned_offsets r) then None else ints st p), dtables := dtables st'\<rparr>"
proof -
  note d = d [unfolded disposable_def]
  obtain r2 where r2: "classes s c = Some r2" "unlinked_view r2 = unlinked_view r" using relinked_class [OF rel, of c r] d by auto
  obtain rm2 where rm2: "classes s m = Some rm2" "unlinked_view rm2 = unlinked_view rm" using relinked_class [OF rel, of m rm] d by auto
  have eq: "c_methods r' = c_methods r" "c_ivars r' = c_ivars r" "c_dtable r' = c_dtable r" "c_methods rm' = c_methods rm" "c_dtable rm' = c_dtable rm"
    "objc_test_class_flag r' f = objc_test_class_flag r f" for f
    using r2(1) rm2(1) r s4(1) view_fields [OF r2(2)] view_fields [OF rm2(2)] by auto
  have own: "owned_methods r' = owned_methods r" "owned_methods rm' = owned_methods rm" "owned_offsets r' = owned_offsets r"
    "lists_fit r' = lists_fit r"
    by (simp_all add: owned_methods_def owned_offsets_def lists_fit_def eq split: option.split)
  obtain t u where tu: "free_dtable_of st r = Some t" "free_dtable_of t rm = Some u" using d by auto
  let ?s5 = "s4\<lparr>meths := (\<lambda>h. if h \<in> set (owned_methods r) then None else meths st h)\<rparr>"
  let ?s6 = "s4\<lparr>meths := (\<lambda>h. if h \<in> set (owned_methods r @ owned_methods rm) then None else meths st h)\<rparr>"
  let ?s7 = "?s6\<lparr>ints := (\<lambda>p. if p \<in> set (owned_offsets r) then None else ints st p)\<rparr>"
  let ?s9 = "?s7\<lparr>dtables := dtables u\<rparr>"
  have f5: "freeMethodLists s4 (c_methods r') = Some ?s5"
    using free_methods_owned [of r s4] d by (simp add: eq s4 cong: if_cong)
  have f6: "freeMethodLists ?s5 (c_methods rm') = Some ?s6"
  proof -
    have "freeMethodLists ?s5 (c_methods rm') = Some (?s5\<lparr>meths := (\<lambda>h. if h \<in> set (owned_methods rm) then None else meths ?s5 h)\<rparr>)"
      unfolding eq by (rule free_methods_owned) (use d in auto)
    also have "\<dots> = Some ?s6" by (auto simp: fun_eq_iff)
    finally show ?thesis .
  qed
  have f7: "freeIvarLists ?s6 r' = Some ?s7" using free_offsets_of [of r' ?s6] d by (simp add: own s4 cong: if_cong)
  have f8: "free_dtable_of ?s7 r' = Some (?s7\<lparr>dtables := dtables t\<rparr>)"
    by (rule free_dtable_frame(1) [OF tu(1)]) (simp_all add: s4 eq)
  have f9: "free_dtable_of (?s7\<lparr>dtables := dtables t\<rparr>) rm' = Some ?s9"
    using free_dtable_frame(1) [OF tu(2), of "?s7\<lparr>dtables := dtables t\<rparr>" rm'] free_dtable_frame(2) [OF tu(1), of st r] s4(6) eq(5) by simp
  let ?s10 = "?s9\<lparr>classes := (classes ?s9)(m := None)\<rparr>"
  let ?st = "?s10\<lparr>classes := (classes ?s10)(c := None)\<rparr>"
  have mc: "m \<noteq> c" using d by simp
  have ch: "child s c y \<or> child s m y \<Longrightarrow> y \<in> {c, m}" for y using d relinked_child [OF rel] by auto
  have "tree_links {c, m} ?s9" using l tree_links_cong [of ?s9 s] s4 by simp
  from free_ok [OF this, of m rm'] have "tree_links ({c, m} - {m}) ?s10" using r(2) ch s4(1) by (simp add: child_def)
  then have "tree_links {c} ?s10" using mc by (simp add: insert_Diff_if)
  moreover have "y \<in> {c}" if "child ?s10 c y" for y
    using that ch [of y] s4(1) by (auto simp: child_def split: if_splits)
  ultimately have gone: "tree_links {} ?st" using free_ok [of "{c}" ?s10 c r'] r(1) mc by simp
  have f10: "free_class ?s9 m = Some ?s10" "free_class ?s10 c = Some ?st" using r mc by (simp_all add: free_class_def)
  have st: "?st = s4\<lparr>classes := (classes s)(m := None, c := None),
      meths := (\<lambda>h. if h \<in> set (owned_methods r @ owned_methods rm) then None else meths st h),
      ints := (\<lambda>p. if p \<in> set (owned_offsets r) then None else ints st p), dtables := dtables ?st\<rparr>" using s4(1) by simp
  show ?thesis by (intro exI conjI, rule f5, rule f6, rule f7, rule f8, rule f9, rule f10(1), rule f10(2), rule gone, rule st)
qed

section \<open>Properties\<close>


text \<open>
  C35: Destroying a class pair. For a registered pair without subclasses,
  \<open>objc_disposeClassPair\<close> returns: no access goes through a freed or null pointer and nothing is
  freed twice. Afterwards the class and its metaclass are gone, from memory, from the class table
  and from every list of subclasses; exactly their methods and offsets are freed; every other
  class keeps all its fields but the links, and no stale entry of a lookup cache can be used.
\<close>

theorem dispose_class_pair_safe:
  assumes "tree_links {} st" "disposable st c r m rm" "cache_inv v st" "Suc v < 2 ^ 64"
    and "c_name r = Some nm" "class_table_internal_table_get st (cs_text nm) = Some c"
  shows "\<exists>st'. objc_disposeClassPair thread st (Some c) = Some st' \<and> tree_links {} st' \<and> cache_inv (Suc v) st' \<and>
    classes st' c = None \<and> classes st' m = None \<and>
    (\<forall>k. k \<noteq> c \<and> k \<noteq> m \<longrightarrow> map_option unlinked_view (classes st' k) = map_option unlinked_view (classes st k)) \<and>
    class_table st' = remove1 c (class_table st) \<and>
    meths st' = (\<lambda>h. if h \<in> set (owned_methods r @ owned_methods rm) then None else meths st h) \<and>
    ints st' = (\<lambda>p. if p \<in> set (owned_offsets r) then None else ints st p)"
proof -
  from dispose_unlink [OF assms, of thread] obtain s1 s2 lc s4 where
    a: "safe_remove_from_subclass_list st m = Some s1" "safe_remove_from_subclass_list s1 c = Some s2"
    "objc_lookUpClass thread s2 (c_name r) = (s2\<lparr>class_lookup_cache := lc\<rparr>, Some c)"
    "class_table_remove (s2\<lparr>class_lookup_cache := lc\<rparr>) c = Some s4"
    and b: "tree_links {c, m} s2" "relinked st s2" "cache_inv v (s2\<lparr>class_lookup_cache := lc\<rparr>)"
    and s4: "s4 = s2\<lparr>class_lookup_cache := lc, class_table := remove1 c (class_table st), class_table_generation := class_table_generation s2 + 1\<rparr>"
    by blast
  have d: "classes st c = Some r" "classes st m = Some rm" "c_isa r = Some m" "m \<noteq> c" "\<not> objc_test_class_flag r objc_class_flag_duplicate"
    using assms(2) by (auto simp: disposable_def)
  obtain r' where r': "classes s2 c = Some r'" using relinked_class [OF b(2) d(1)] by metis
  obtain rm' where rm': "classes s2 m = Some rm'" using relinked_class [OF b(2) d(2)] by metis
  have fr: "classes s4 = classes s2" "class_brk s4 = class_brk s2" "class_table s4 = remove1 c (class_table st)" "meths s4 = meths s2"
    "ints s4 = ints s2" "dtables s4 = dtables s2" "uninstalled_dtable s4 = uninstalled_dtable s2" by (subst s4, simp)+
  have "meths s2 = meths st" "ints s2 = ints st" "dtables s2 = dtables st" "uninstalled_dtable s2 = uninstalled_dtable st"
    using b(2) by (auto simp: relinked_def)
  note fr = fr [unfolded this]
  from dispose_free [OF b(1) assms(2) b(2) fr(1,2,4,5,6,7), of r' rm'] r' rm' fr(1) obtain s5 s6 s7 s8 s9 s10 st' where
    f: "freeMethodLists s4 (c_methods r') = Some s5" "freeMethodLists s5 (c_methods rm') = Some s6"
    "freeIvarLists s6 r' = Some s7" "free_dtable_of s7 r' = Some s8" "free_dtable_of s8 rm' = Some s9"
    "free_class s9 m = Some s10" "free_class s10 c = Some st'" and st': "tree_links {} st'"
    "st' = s4\<lparr>classes := (classes s2)(m := None, c := None),
      meths := (\<lambda>h. if h \<in> set (owned_methods r @ owned_methods rm) then None else meths st h),
      ints := (\<lambda>p. if p \<in> set (owned_offsets r) then None else ints st p), dtables := dtables st'\<rparr>" by auto
  have "objc_disposeClassPair thread st (Some c) = Some st'"
    using a f d r' rm' fr(1) by (simp add: objc_disposeClassPair_def)
  moreover have p: "classes st' = (classes s2)(m := None, c := None)" "class_table st' = class_table s4"
    "class_table_generation st' = class_table_generation s4" "class_lookup_cache st' = class_lookup_cache s4"
    "meths st' = (\<lambda>h. if h \<in> set (owned_methods r @ owned_methods rm) then None else meths st h)"
    "ints st' = (\<lambda>p. if p \<in> set (owned_offsets r) then None else ints st p)" by (subst st'(2), simp)+
  moreover have "cache_inv (Suc v) st'" by (rule cache_inv_bump [OF b(3)]) (simp_all add: p s4)
  ultimately show ?thesis using st'(1) relinked_view [OF b(2)] fr(3) by simp
qed

section \<open>An example hierarchy\<close>

text \<open>Two root classes 0 and 2 with metaclasses 1 and 3, and a class 4 below 0 with metaclass 5.\<close>

definition tree_class :: "uintptr_t \<Rightarrow> string \<Rightarrow> nat \<Rightarrow> nat option \<Rightarrow> nat option \<Rightarrow> nat option \<Rightarrow> objc_class" where
  "tree_class addr name isa super sub sib =
     zero_class\<lparr>c_isa := Some isa, c_super_class := map_option SuperClass super, c_name := Some \<lparr>cs_addr = addr, cs_text = name\<rparr>,
       c_info := objc_class_flag_user_created OR objc_class_flag_resolved, c_subclass_list := sub, c_sibling_class := sib,
       c_dtable := Some (Node 0)\<rparr>"

definition demo_tree :: rt_state where
  "demo_tree =
     (boot_state (\<lambda>n t. None) (\<lambda>_. 0))
       \<lparr>classes := [0 \<mapsto> tree_class 16 ''A'' 1 None (Some 4) None, 1 \<mapsto> tree_class 16 ''A'' 1 (Some 0) (Some 5) None,
                   2 \<mapsto> tree_class 32 ''C'' 3 None (Some 3) None, 3 \<mapsto> tree_class 32 ''C'' 3 (Some 2) None None,
                   4 \<mapsto> tree_class 48 ''B'' 5 (Some 0) None (Some 1), 5 \<mapsto> tree_class 48 ''B'' 1 (Some 1) None None],
        class_brk := 6, class_table := [0, 2, 4]\<rparr>"

lemma tree_class_fields [simp]:
  "resolved (tree_class a s i p u b)" "c_isa (tree_class a s i p u b) = Some i"
  "c_super_class (tree_class a s i p u b) = map_option SuperClass p" "c_subclass_list (tree_class a s i p u b) = u"
  "c_sibling_class (tree_class a s i p u b) = b" "c_name (tree_class a s i p u b) = Some \<lparr>cs_addr = a, cs_text = s\<rparr>"
  "c_dtable (tree_class a s i p u b) = Some (Node 0)" "c_methods (tree_class a s i p u b) = []" "c_ivars (tree_class a s i p u b) = None"
  "objc_test_class_flag (tree_class a s i p u b) objc_class_flag_user_created"
  "\<not> objc_test_class_flag (tree_class a s i p u b) objc_class_flag_meta"
  "\<not> objc_test_class_flag (tree_class a s i p u b) objc_class_flag_initialized"
  "\<not> objc_test_class_flag (tree_class a s i p u b) objc_class_flag_duplicate"
  by (simp_all add: tree_class_def zero_class_def resolved_def objc_test_class_flag_def objc_class_flag_user_created_def
      objc_class_flag_resolved_def objc_class_flag_meta_def objc_class_flag_initialized_def objc_class_flag_duplicate_def)

lemma demo_tree_classes [simp]:
  "classes demo_tree 0 = Some (tree_class 16 ''A'' 1 None (Some 4) None)"
  "classes demo_tree 1 = Some (tree_class 16 ''A'' 1 (Some 0) (Some 5) None)"
  "classes demo_tree (Suc 0) = Some (tree_class 16 ''A'' 1 (Some 0) (Some 5) None)"
  "classes demo_tree 2 = Some (tree_class 32 ''C'' 3 None (Some 3) None)"
  "classes demo_tree 3 = Some (tree_class 32 ''C'' 3 (Some 2) None None)"
  "classes demo_tree 4 = Some (tree_class 48 ''B'' 5 (Some 0) None (Some 1))"
  "classes demo_tree 5 = Some (tree_class 48 ''B'' 1 (Some 1) None None)"
  by (simp_all add: demo_tree_def)

lemma demo_tree_child: "child demo_tree k y \<longleftrightarrow> (k, y) \<in> {(0, 4), (0, 1), (1, 5), (2, 3)}"
  by (auto simp: child_def demo_tree_def split: if_splits)

lemma demo_tree_links: "tree_links {} demo_tree"
  unfolding tree_links_def
proof (intro conjI allI impI)
  show "classes demo_tree k = None" if "class_brk demo_tree \<le> k" for k using that by (simp add: demo_tree_def)
next
  fix k r
  assume "classes demo_tree k = Some r \<and> resolved r"
  then consider "k = 0" "r = tree_class 16 ''A'' 1 None (Some 4) None" | "k = 1" "r = tree_class 16 ''A'' 1 (Some 0) (Some 5) None"
    | "k = 2" "r = tree_class 32 ''C'' 3 None (Some 3) None" | "k \<in> {3, 4, 5}" "c_subclass_list r = None"
    by (auto simp: demo_tree_def split: if_splits)
  then show "\<exists>ys. sib_list demo_tree (c_subclass_list r) ys \<and> distinct ys \<and> set ys = {y. child demo_tree k y} - {}"
  proof cases
    case 1
    then show ?thesis by (intro exI [of _ "[4, 1]"]) (auto simp: demo_tree_child)
  next
    case 2
    then show ?thesis by (intro exI [of _ "[5]"]) (auto simp: demo_tree_child)
  next
    case 3
    then show ?thesis by (intro exI [of _ "[3]"]) (auto simp: demo_tree_child)
  next
    case 4
    then show ?thesis by (intro exI [of _ "[]"]) (auto simp: demo_tree_child)
  qed
next
  fix k r
  assume "classes demo_tree k = Some r \<and> resolved r \<and> k \<notin> {}"
  then have "c_super_class r \<in> {None, Some (SuperClass 0), Some (SuperClass 1), Some (SuperClass 2)}"
    by (auto simp: demo_tree_def split: if_splits)
  then show "c_super_class r = None \<or> (\<exists>s rs. c_super_class r = Some (SuperClass s) \<and> classes demo_tree s = Some rs \<and> resolved rs)"
    by auto
qed


theorem dispose_class_pair_safe_witness:
  "\<exists>st'. objc_disposeClassPair 7 demo_tree (Some 4) = Some st' \<and> tree_links {} st' \<and> classes st' 4 = None \<and> classes st' 5 = None \<and>
     class_table st' = [0, 2]"
proof -
  let ?B = "tree_class 48 ''B'' 5 (Some 0) None (Some 1)" and ?M = "tree_class 48 ''B'' 1 (Some 1) None None"
  have "disposable demo_tree 4 ?B 5 ?M"
    unfolding disposable_def demo_tree_child
    by (auto simp: demo_tree_def lists_fit_def owned_methods_def owned_offsets_def free_dtable_of_def classHasInstalledDtable_def boot_state_def)
  moreover have "cache_inv 0 demo_tree" by (auto simp: cache_inv_def demo_tree_def boot_state_def empty_cache_def)
  moreover have "class_table_internal_table_get demo_tree ''B'' = Some 4"
    by (simp add: class_table_internal_table_get_def class_text_def demo_tree_def)
  ultimately show ?thesis
    using dispose_class_pair_safe [OF demo_tree_links, of 4 ?B 5 ?M 0 "\<lparr>cs_addr = 48, cs_text = ''B''\<rparr>" 7]
    by (auto simp: demo_tree_def)
qed

text \<open>A root class made through the API.\<close>

definition new_root :: "uintptr_t \<Rightarrow> string \<Rightarrow> rt_state \<Rightarrow> rt_state option" where
  "new_root addr name st =
     do {
       (s, c) \<leftarrow> objc_allocateClassPair 0 addr st None (Some \<lparr>cs_addr = addr, cs_text = name\<rparr>) 0;
       objc_registerClassPair True s c
     }"

text \<open>A class is allocated below A, moved below C, and only then registered.\<close>

definition moved_then_registered :: "rt_state option" where
  "moved_then_registered =
     do {
       s1 \<leftarrow> new_root 16 ''A'' (boot_state (\<lambda>n t. None) (\<lambda>_. 0));
       s2 \<leftarrow> new_root 32 ''C'' s1;
       (s3, b) \<leftarrow> objc_allocateClassPair 0 48 s2 (Some 0) (Some \<lparr>cs_addr = 48, cs_text = ''B''\<rparr>) 0;
       (s4, _) \<leftarrow> class_setSuperclass (\<lambda>s _ _. Some s) 5 5 s3 b (Some 2);
       objc_registerClassPair True s4 b
     }"

lemma no_list_through_loop: "classes st y = Some r \<Longrightarrow> c_sibling_class r = Some y \<Longrightarrow> \<not> sib_list st (Some y) ys"
  by (induction ys) auto

lemma moved_then_registered_links:
  "map_option (\<lambda>s. (map_option c_subclass_list (classes s 2), map_option c_sibling_class (classes s 4))) moved_then_registered =
     Some (Some (Some 4), Some (Some 4))"
  by code_simp


end
