(* ===== verification/Objc_Category.thy ===== *)
theory Objc_Category
  imports Objc_Runtime
begin

text \<open>
  Categories and static instances, \<open>src/runtime/category_loader.c\<close> and
  \<open>src/runtime/statics_loader.c\<close>, with the buffer for what waits for its class,
  \<open>src/internal/support/buffer.h\<close>.

  An entry of the buffer is a pointer, null after the object has been loaded. The part of the
  buffer that overflows its fixed array is a map from indices to entries; an index that has not
  been written is not in the map. \<open>bf_fails\<close> says which allocation attempts fail.
\<close>

section \<open>The buffer\<close>

record 'a object_buffer =
  buffered_object_buffer :: "'a option list"
  buffered_object_overflow :: "nat \<Rightarrow> 'a option option"
  buffered_objects :: uint32
  buffered_object_overflow_space :: size_t
  bf_fails :: "nat \<Rightarrow> bool"
  bf_attempts :: nat

definition BUFFER_SIZE :: nat where "BUFFER_SIZE = 128"

definition empty_buffer :: "(nat \<Rightarrow> bool) \<Rightarrow> 'a object_buffer" where
  "empty_buffer fails =
     \<lparr>buffered_object_buffer = replicate BUFFER_SIZE None, buffered_object_overflow = (\<lambda>_. None),
      buffered_objects = 0, buffered_object_overflow_space = 0, bf_fails = fails, bf_attempts = 0\<rparr>"

text \<open>
  The loop that doubles the space. The outer \<open>None\<close> is fuel that ran out, the inner one the
  guard against overflow; from 128 on, 58 doublings reach it.
\<close>

fun grow_space :: "nat \<Rightarrow> size_t \<Rightarrow> size_t \<Rightarrow> size_t option option" where
  "grow_space 0 overflowIndex newSpace = None"
| "grow_space (Suc fuel) overflowIndex newSpace =
     (if overflowIndex < newSpace then Some (Some newSpace)
      else if SIZE_MAX div 2 < newSpace then Some None
      else grow_space fuel overflowIndex (newSpace * 2))"

definition store_overflow :: "'a object_buffer \<Rightarrow> 'a option \<Rightarrow> size_t \<Rightarrow> 'a object_buffer" where
  "store_overflow b value overflowIndex =
     b\<lparr>buffered_object_overflow := (buffered_object_overflow b)(unat overflowIndex := Some value)\<rparr>"

text \<open>The result says whether the value was stored.\<close>

definition set_buffered_object_at_index ::
  "'a object_buffer \<Rightarrow> 'a option \<Rightarrow> uint32 \<Rightarrow> ('a object_buffer \<times> bool) option" where
  "set_buffered_object_at_index b value index =
     (if unat index < BUFFER_SIZE
      then Some (b\<lparr>buffered_object_buffer := (buffered_object_buffer b)[unat index := value]\<rparr>, True)
      else
        (let overflowIndex = ucast index - of_nat BUFFER_SIZE;
             space = buffered_object_overflow_space b in
         do {
           grown \<leftarrow> grow_space 64 overflowIndex (if space = 0 then of_nat BUFFER_SIZE else space);
           (case grown of
              None \<Rightarrow> Some (b, False)
            | Some newSpace \<Rightarrow>
                if newSpace \<noteq> space then
                  (if objc2_size_multiply True newSpace sizeof_id = None then Some (b, False)
                   else
                     (let b1 = b\<lparr>bf_attempts := Suc (bf_attempts b)\<rparr> in
                      if bf_fails b (bf_attempts b) then Some (b1, False)
                      else Some (store_overflow (b1\<lparr>buffered_object_overflow_space := newSpace\<rparr>) value overflowIndex, True)))
                else Some (store_overflow b value overflowIndex, True))
         }))"

definition append_buffered_object :: "'a object_buffer \<Rightarrow> 'a option \<Rightarrow> ('a object_buffer \<times> bool) option" where
  "append_buffered_object b value =
     (if unat (buffered_objects b) = UINT_MAX then Some (b, False)
      else do {
        (b1, stored) \<leftarrow> set_buffered_object_at_index b value (buffered_objects b);
        Some (if stored then (b1\<lparr>buffered_objects := buffered_objects b1 + 1\<rparr>, True) else (b1, False))
      })"

definition buffered_object_at_index :: "'a object_buffer \<Rightarrow> uint32 \<Rightarrow> 'a option option" where
  "buffered_object_at_index b i =
     (if unat i < BUFFER_SIZE
      then (if unat i < length (buffered_object_buffer b) then Some (buffered_object_buffer b ! unat i) else None)
      else if unat i - BUFFER_SIZE < unat (buffered_object_overflow_space b)
      then buffered_object_overflow b (unat i - BUFFER_SIZE)
      else None)"

definition compact_step :: "'a object_buffer \<times> uint32 \<Rightarrow> nat \<Rightarrow> ('a object_buffer \<times> uint32) option" where
  "compact_step bi i =
     (case bi of
        (b, ins) \<Rightarrow>
          do {
            value \<leftarrow> buffered_object_at_index b (of_nat i);
            if value \<noteq> None then
              do {
                (b1, stored) \<leftarrow> set_buffered_object_at_index b value ins;
                if \<not> stored then None else Some (b1, ins + 1)
              }
            else Some (b, ins)
          })"

definition compact_buffer :: "'a object_buffer \<Rightarrow> 'a object_buffer option" where
  "compact_buffer b =
     do {
       (b1, ins) \<leftarrow> foldM compact_step (b, 0) [0..<unat (buffered_objects b)];
       Some (b1\<lparr>buffered_objects := ins\<rparr>)
     }"

text \<open>
  The loop both loaders have: try every object that waits, drop the ones that succeed, and
  compact the buffer if there was one.
\<close>

definition pending_step ::
  "('s \<Rightarrow> 'a \<Rightarrow> ('s \<times> bool) option) \<Rightarrow> 's \<times> 'a object_buffer \<times> bool \<Rightarrow> nat \<Rightarrow> ('s \<times> 'a object_buffer \<times> bool) option" where
  "pending_step try_load sbr i =
     (case sbr of
        (st, b, shouldReshuffle) \<Rightarrow>
          do {
            c \<leftarrow> buffered_object_at_index b (of_nat i);
            (case c of
               None \<Rightarrow> Some (st, b, shouldReshuffle)
             | Some x \<Rightarrow>
                 do {
                   (s1, loaded) \<leftarrow> try_load st x;
                   if loaded then do { (b1, _) \<leftarrow> set_buffered_object_at_index b None (of_nat i); Some (s1, b1, True) }
                   else Some (s1, b, shouldReshuffle)
                 })
          })"

definition load_pending ::
  "('s \<Rightarrow> 'a \<Rightarrow> ('s \<times> bool) option) \<Rightarrow> 's \<Rightarrow> 'a object_buffer \<Rightarrow> ('s \<times> 'a object_buffer) option" where
  "load_pending try_load st b =
     do {
       (s1, b1, shouldReshuffle) \<leftarrow> foldM (pending_step try_load) (st, b, False) [0..<unat (buffered_objects b)];
       b2 \<leftarrow> (if shouldReshuffle then compact_buffer b1 else Some b1);
       Some (s1, b2)
     }"

definition try_or_buffer ::
  "('s \<Rightarrow> 'a \<Rightarrow> ('s \<times> bool) option) \<Rightarrow> 's \<Rightarrow> 'a object_buffer \<Rightarrow> 'a \<Rightarrow> ('s \<times> 'a object_buffer) option" where
  "try_or_buffer try_load st b x =
     do {
       (s1, loaded) \<leftarrow> try_load st x;
       if loaded then Some (s1, b)
       else do { (b1, stored) \<leftarrow> append_buffered_object b (Some x); if stored then Some (s1, b1) else None }
     }"

section \<open>Categories\<close>

record objc_category =
  cat_name :: string
  cat_class_name :: cstring
  cat_instance_methods :: "objc_method_list option"
  cat_class_methods :: "objc_method_list option"
  cat_protocols :: "nat option"
  cat_properties :: "property_block option"
  cat_class_properties :: "property_block option"

definition register_methods :: "nat \<Rightarrow> rt_state \<Rightarrow> nat \<Rightarrow> objc_method_list option \<Rightarrow> rt_state option" where
  "register_methods fuel st cls l =
     (case l of
        None \<Rightarrow> Some st
      | Some ml \<Rightarrow>
          do {
            s1 \<leftarrow> upd_class cls (\<lambda>x. x\<lparr>c_methods := ml # c_methods x\<rparr>) st;
            has \<leftarrow> classHasDtable s1 cls;
            if has then add_method_list_to_class fuel s1 cls ml else Some s1
          })"

text \<open>The list of protocols of a category, put in front of the list of the class.\<close>

definition adopt_protocols :: "rt_state \<Rightarrow> nat \<Rightarrow> nat option \<Rightarrow> rt_state option" where
  "adopt_protocols st cls protocols =
     (case protocols of
        None \<Rightarrow> Some st
      | Some l \<Rightarrow>
          do {
            p1 \<leftarrow> objc_init_protocols (rt_protocols st) l;
            r \<leftarrow> classes st cls;
            pl \<leftarrow> plists p1 l;
            upd_class cls (\<lambda>x. x\<lparr>c_protocols := Some l\<rparr>)
              (st\<lparr>rt_protocols := set_plist p1 l (pl\<lparr>pl_next := c_protocols r\<rparr>)\<rparr>)
          })"

definition add_properties :: "rt_state \<Rightarrow> nat \<Rightarrow> property_block option \<Rightarrow> rt_state option" where
  "add_properties st cls properties =
     (case properties of
        None \<Rightarrow> Some st
      | Some pb \<Rightarrow> upd_class cls (\<lambda>x. x\<lparr>c_properties := pb # c_properties x\<rparr>) st)"

definition load_category :: "nat \<Rightarrow> rt_state \<Rightarrow> objc_category \<Rightarrow> nat \<Rightarrow> rt_state option" where
  "load_category fuel st cat cls =
     do {
       s1 \<leftarrow> register_methods fuel st cls (cat_instance_methods cat);
       r \<leftarrow> classes s1 cls;
       meta \<leftarrow> c_isa r;
       s2 \<leftarrow> register_methods fuel s1 meta (cat_class_methods cat);
       s3 \<leftarrow> adopt_protocols s2 cls (cat_protocols cat);
       s4 \<leftarrow> add_properties s3 cls (cat_properties cat);
       s5 \<leftarrow> add_properties s4 meta (cat_class_properties cat);
       Some (rt_emit ((blank_event EVENT_CATEGORY_ATTACHED)\<lparr>ev_cls := Some cls, ev_name := cat_name cat,
               ev_detail := cs_text (cat_class_name cat)\<rparr>) s5)
     }"

definition try_load_category ::
  "(string option \<Rightarrow> nat option) \<Rightarrow> nat \<Rightarrow> nat \<Rightarrow> rt_state \<Rightarrow> objc_category \<Rightarrow> (rt_state \<times> bool) option" where
  "try_load_category hook thread fuel st cat =
     (let (s1, cls) = objc_getClass hook thread st (Some (cat_class_name cat)) in
      case cls of
        None \<Rightarrow> Some (s1, False)
      | Some c \<Rightarrow> map_option (\<lambda>s. (s, True)) (load_category fuel s1 cat c))"

definition objc_try_load_category ::
  "(string option \<Rightarrow> nat option) \<Rightarrow> nat \<Rightarrow> nat \<Rightarrow> rt_state \<Rightarrow> objc_category object_buffer \<Rightarrow> objc_category \<Rightarrow>
   (rt_state \<times> objc_category object_buffer) option" where
  "objc_try_load_category hook thread fuel st b cat = try_or_buffer (try_load_category hook thread fuel) st b cat"

definition objc_load_buffered_categories ::
  "(string option \<Rightarrow> nat option) \<Rightarrow> nat \<Rightarrow> nat \<Rightarrow> rt_state \<Rightarrow> objc_category object_buffer \<Rightarrow>
   (rt_state \<times> objc_category object_buffer) option" where
  "objc_load_buffered_categories hook thread fuel st b = load_pending (try_load_category hook thread fuel) st b"

section \<open>Static instances\<close>

text \<open>The instances of a list up to the null pointer; \<open>constant\<close> is \<open>CONSTANT_STRING_CLASS\<close>.\<close>

record objc_static_instance_list =
  si_class_name :: cstring
  si_instances :: "uintptr_t list"

definition statics_class_name :: "cstring \<Rightarrow> objc_static_instance_list \<Rightarrow> cstring" where
  "statics_class_name constant statics =
     (if cs_text (si_class_name statics) = ''NXConstantString'' then constant else si_class_name statics)"

definition try_init_statics ::
  "(string option \<Rightarrow> nat option) \<Rightarrow> nat \<Rightarrow> cstring \<Rightarrow> rt_state \<Rightarrow> objc_static_instance_list \<Rightarrow> (rt_state \<times> bool) option" where
  "try_init_statics hook thread constant st statics =
     (let (s1, cls) = objc_getClass hook thread st (Some (statics_class_name constant statics)) in
      case cls of
        None \<Rightarrow> Some (s1, False)
      | Some c \<Rightarrow> Some (fold (\<lambda>x. set_isa x (Some c)) (si_instances statics) s1, True))"

definition objc_init_statics ::
  "(string option \<Rightarrow> nat option) \<Rightarrow> nat \<Rightarrow> cstring \<Rightarrow> rt_state \<Rightarrow> objc_static_instance_list object_buffer \<Rightarrow>
   objc_static_instance_list \<Rightarrow> (rt_state \<times> objc_static_instance_list object_buffer) option" where
  "objc_init_statics hook thread constant st b statics = try_or_buffer (try_init_statics hook thread constant) st b statics"

definition objc_init_buffered_statics ::
  "(string option \<Rightarrow> nat option) \<Rightarrow> nat \<Rightarrow> cstring \<Rightarrow> rt_state \<Rightarrow> objc_static_instance_list object_buffer \<Rightarrow>
   (rt_state \<times> objc_static_instance_list object_buffer) option" where
  "objc_init_buffered_statics hook thread constant st b = load_pending (try_init_statics hook thread constant) st b"

end
