(* ===== verification/Objc_Category_Thms.thy ===== *)
theory Objc_Category_Thms
  imports Objc_Category Objc_Class_Lookup_Thms
begin

text \<open>
  The buffer of waiting objects implements a list, and the loaders load exactly what has a class.

  \<open>buf_rep b xs\<close>: the buffer holds the entries \<open>xs\<close>, null where an object has been loaded. The
  locale \<open>pending_loader\<close> states what both loaders rely on, that one attempt succeeds exactly if
  the class is known and leaves the other classes known or unknown as they were; the loop over
  the buffer is verified once, in it, and interpreted for categories and for static instances.
\<close>

section \<open>The buffer implements a list\<close>

definition buf_ok :: "'a object_buffer \<Rightarrow> bool" where
  "buf_ok b \<longleftrightarrow> length (buffered_object_buffer b) = BUFFER_SIZE \<and>
     (buffered_object_overflow_space b = 0 \<or>
      128 \<le> unat (buffered_object_overflow_space b) \<and> unat (buffered_object_overflow_space b) \<le> 2 ^ 33)"

definition buf_at :: "'a object_buffer \<Rightarrow> nat \<Rightarrow> 'a option option" where
  "buf_at b i = buffered_object_at_index b (of_nat i)"

definition buf_rep :: "'a object_buffer \<Rightarrow> 'a option list \<Rightarrow> bool" where
  "buf_rep b xs \<longleftrightarrow> buf_ok b \<and> unat (buffered_objects b) = length xs \<and> (\<forall>i < length xs. buf_at b i = Some (xs ! i))"

lemma buf_count [simp]:
  "buf_at (b\<lparr>buffered_objects := n\<rparr>) j = buf_at b j" "buf_ok (b\<lparr>buffered_objects := n\<rparr>) = buf_ok b"
  by (simp_all add: buf_at_def buffered_object_at_index_def buf_ok_def)

lemma unat_of_nat_32: "i < 2 ^ 32 \<Longrightarrow> unat (of_nat i :: uint32) = i"
  by (simp add: unat_of_nat take_bit_nat_eq_self)

lemma grow_space_ok:
  assumes "128 \<le> unat s" "unat s \<le> 2 ^ 33" "unat i < 2 ^ 32" "2 ^ 32 \<le> 2 ^ fuel * unat s"
  shows "\<exists>t. grow_space (Suc fuel) i s = Some (Some t) \<and> unat i < unat t \<and> 128 \<le> unat t \<and> unat t \<le> 2 ^ 33 \<and>
    (unat i < unat s \<longrightarrow> t = s) \<and> unat s \<le> unat t"
  using assms
proof (induction fuel arbitrary: s)
  case 0
  then show ?case by (simp add: word_less_nat_alt)
next
  case (Suc fuel)
  show ?case
  proof (cases "unat i < unat s")
    case True
    then show ?thesis using Suc.prems by (simp add: word_less_nat_alt)
  next
    case False
    have "unat (s * 2) = unat s * 2"
      using False Suc.prems(3) by (simp add: unat_word_ariths)
    moreover have "\<not> SIZE_MAX div 2 < s" using False Suc.prems(3) by (simp add: SIZE_MAX_def word_less_nat_alt unat_div)
    moreover have "\<exists>t. grow_space (Suc fuel) i (s * 2) = Some (Some t) \<and> unat i < unat t \<and> 128 \<le> unat t \<and> unat t \<le> 2 ^ 33 \<and>
      (unat i < unat (s * 2) \<longrightarrow> t = s * 2) \<and> unat (s * 2) \<le> unat t"
      by (rule Suc.IH) (use calculation(1) Suc.prems False in auto)
    ultimately show ?thesis using False by (auto simp: word_less_nat_alt)
  qed
qed

definition fits :: "'a object_buffer \<Rightarrow> nat \<Rightarrow> bool" where
  "fits b i \<longleftrightarrow> i < 128 \<or> i - 128 < unat (buffered_object_overflow_space b)"

lemma overflow_index:
  assumes "i < 2 ^ 32" "128 \<le> i"
  shows "unat (ucast (of_nat i :: uint32) - of_nat BUFFER_SIZE :: size_t) = i - 128"
proof -
  have "unat (ucast (of_nat i :: uint32) :: size_t) = i"
    using assms(1) by (simp add: unsigned_ucast_eq take_bit_nat_eq_self unat_of_nat_32)
  moreover have "unat (of_nat BUFFER_SIZE :: size_t) = 128" by (simp add: BUFFER_SIZE_def)
  ultimately show ?thesis using assms(2) by (simp add: unat_sub word_le_nat_alt)
qed

lemma space_for_index:
  assumes "buf_ok b" "i < 2 ^ 32" "128 \<le> i"
  shows "\<exists>t. grow_space 64 (ucast (of_nat i :: uint32) - of_nat BUFFER_SIZE)
      (if buffered_object_overflow_space b = 0 then of_nat BUFFER_SIZE else buffered_object_overflow_space b) = Some (Some t) \<and>
    i - 128 < unat t \<and> 128 \<le> unat t \<and> unat t \<le> 2 ^ 33 \<and> (fits b i \<longleftrightarrow> t = buffered_object_overflow_space b) \<and>
    unat (buffered_object_overflow_space b) \<le> unat t"
proof -
  let ?s = "if buffered_object_overflow_space b = 0 then of_nat BUFFER_SIZE else buffered_object_overflow_space b"
  have s: "128 \<le> unat ?s" "unat ?s \<le> 2 ^ 33" using assms(1) by (auto simp: buf_ok_def BUFFER_SIZE_def)
  have fuel: "(64 :: nat) = Suc 63" by simp
  have "(2 :: nat) ^ 32 \<le> 2 ^ 63 * unat ?s" using s(1) by simp
  moreover have "unat (ucast (of_nat i :: uint32) - of_nat BUFFER_SIZE :: size_t) < 2 ^ 32"
    unfolding overflow_index [OF assms(2,3)] using assms(2) by linarith
  ultimately obtain t where t: "grow_space 64 (ucast (of_nat i :: uint32) - of_nat BUFFER_SIZE) ?s = Some (Some t)" "i - 128 < unat t"
    "128 \<le> unat t" "unat t \<le> 2 ^ 33" "i - 128 < unat ?s \<longrightarrow> t = ?s" "unat ?s \<le> unat t"
    unfolding fuel using grow_space_ok [OF s, of "ucast (of_nat i :: uint32) - of_nat BUFFER_SIZE" 63] overflow_index [OF assms(2,3)] by auto
  have "fits b i \<longleftrightarrow> t = buffered_object_overflow_space b"
    using t(2,3,5) assms(3) by (auto simp: fits_def split: if_splits)
  with t show ?thesis by (auto split: if_splits)
qed

text \<open>Storing an entry: only a growing overflow area can fail, and other entries stay.\<close>

lemma set_ok:
  assumes "buf_ok b" "i < 2 ^ 32" "fits b i \<or> \<not> bf_fails b (bf_attempts b)"
  shows "\<exists>b'. set_buffered_object_at_index b v (of_nat i) = Some (b', True) \<and> buf_ok b' \<and> buffered_objects b' = buffered_objects b \<and>
    buf_at b' i = Some v \<and> (\<forall>j < 2 ^ 32. j \<noteq> i \<and> buf_at b j \<noteq> None \<longrightarrow> buf_at b' j = buf_at b j)"
proof (cases "i < 128")
  case True
  then show ?thesis using assms(1,2)
    by (auto simp: set_buffered_object_at_index_def buf_ok_def buf_at_def buffered_object_at_index_def BUFFER_SIZE_def unat_of_nat_32)
next
  case False
  then have i: "128 \<le> i" by simp
  from space_for_index [OF assms(1,2) i] obtain t where t:
    "grow_space 64 (ucast (of_nat i :: uint32) - of_nat BUFFER_SIZE)
      (if buffered_object_overflow_space b = 0 then of_nat BUFFER_SIZE else buffered_object_overflow_space b) = Some (Some t)"
    "i - 128 < unat t" "128 \<le> unat t" "unat t \<le> 2 ^ 33" "fits b i \<longleftrightarrow> t = buffered_object_overflow_space b"
    "unat (buffered_object_overflow_space b) \<le> unat t" by blast
  obtain y where big: "objc2_size_multiply True t sizeof_id = Some y"
    using t(4) by (cases "objc2_size_multiply True t sizeof_id") (auto simp: objc2_size_multiply_None sizeof_id_def)
  let ?b = "(if t = buffered_object_overflow_space b then b
    else b\<lparr>bf_attempts := Suc (bf_attempts b), buffered_object_overflow_space := t\<rparr>)
      \<lparr>buffered_object_overflow := (buffered_object_overflow b)(i - 128 := Some v)\<rparr>"
  have run: "set_buffered_object_at_index b v (of_nat i) = Some (?b, True)"
    using assms(2,3) i t(1,5) big overflow_index [OF assms(2) i]
    by (simp add: set_buffered_object_at_index_def unat_of_nat_32 BUFFER_SIZE_def [symmetric] store_overflow_def Let_def)
      (auto simp: BUFFER_SIZE_def)
  have "buf_ok ?b" using assms(1) t(3,4) by (auto simp: buf_ok_def)
  moreover have "buf_at ?b i = Some v" using i assms(2) t(2)
    by (auto simp: buf_at_def buffered_object_at_index_def unat_of_nat_32 BUFFER_SIZE_def)
  moreover have "buf_at ?b j = buf_at b j" if "j < 2 ^ 32" "j \<noteq> i" "buf_at b j \<noteq> None" for j
    using that i t(6) by (auto simp: buf_at_def buffered_object_at_index_def unat_of_nat_32 BUFFER_SIZE_def split: if_splits)
  ultimately show ?thesis using run by auto
qed

lemma set_fails:
  assumes "buf_ok b" "i < 2 ^ 32" "\<not> fits b i" "bf_fails b (bf_attempts b)"
  shows "set_buffered_object_at_index b v (of_nat i) = Some (b\<lparr>bf_attempts := Suc (bf_attempts b)\<rparr>, False)"
proof -
  have i: "128 \<le> i" using assms(3) by (auto simp: fits_def)
  from space_for_index [OF assms(1,2) i] assms(3) obtain t where t:
    "grow_space 64 (ucast (of_nat i :: uint32) - of_nat BUFFER_SIZE)
      (if buffered_object_overflow_space b = 0 then of_nat BUFFER_SIZE else buffered_object_overflow_space b) = Some (Some t)"
    "unat t \<le> 2 ^ 33" "t \<noteq> buffered_object_overflow_space b" by blast
  obtain y where "objc2_size_multiply True t sizeof_id = Some y"
    using t(2) by (cases "objc2_size_multiply True t sizeof_id") (auto simp: objc2_size_multiply_None sizeof_id_def)
  with assms(2,4) i t show ?thesis
    by (simp add: set_buffered_object_at_index_def unat_of_nat_32 Let_def) (simp add: BUFFER_SIZE_def)
qed

lemma at_fits: "i < 2 ^ 32 \<Longrightarrow> buf_at b i \<noteq> None \<Longrightarrow> fits b i"
  by (auto simp: buf_at_def buffered_object_at_index_def fits_def unat_of_nat_32 BUFFER_SIZE_def split: if_splits)

lemma rep_length: "buf_rep b xs \<Longrightarrow> length xs < 2 ^ 32"
proof -
  have "unat (buffered_objects b) < 2 ^ LENGTH(32)" by (rule unsigned_less)
  then show "buf_rep b xs \<Longrightarrow> length xs < 2 ^ 32" by (simp add: buf_rep_def)
qed

lemma rep_at: "buf_rep b xs \<Longrightarrow> i < length xs \<Longrightarrow> buffered_object_at_index b (of_nat i) = Some (xs ! i)"
  by (simp add: buf_rep_def buf_at_def)

lemma rep_set:
  assumes "buf_rep b xs" "i < length xs"
  shows "\<exists>b'. set_buffered_object_at_index b v (of_nat i) = Some (b', True) \<and> buf_rep b' (xs[i := v])"
proof -
  have n: "length xs < 2 ^ 32" by (rule rep_length [OF assms(1)])
  have "fits b i" using at_fits [of i b] assms n by (auto simp: buf_rep_def)
  with set_ok [of b i v] assms n obtain b' where "set_buffered_object_at_index b v (of_nat i) = Some (b', True)" "buf_ok b'"
    "buffered_objects b' = buffered_objects b" "buf_at b' i = Some v"
    "\<forall>j < 2 ^ 32. j \<noteq> i \<and> buf_at b j \<noteq> None \<longrightarrow> buf_at b' j = buf_at b j" by (auto simp: buf_rep_def)
  with assms n show ?thesis by (auto simp: buf_rep_def nth_list_update)
qed

lemma rep_append:
  assumes "buf_rep b xs" "length xs < UINT_MAX" "fits b (length xs) \<or> \<not> bf_fails b (bf_attempts b)"
  shows "\<exists>b'. append_buffered_object b v = Some (b', True) \<and> buf_rep b' (xs @ [v])"
proof -
  have n: "length xs < 2 ^ 32" by (rule rep_length [OF assms(1)])
  have o: "buffered_objects b = of_nat (length xs)" "unat (buffered_objects b) = length xs"
    using assms(1) unat_of_nat_32 [OF n] by (auto simp: buf_rep_def word_unat_eq_iff)
  from set_ok [of b "length xs" v] assms n obtain b' where b': "set_buffered_object_at_index b v (of_nat (length xs)) = Some (b', True)" "buf_ok b'"
    "buffered_objects b' = buffered_objects b" "buf_at b' (length xs) = Some v"
    "\<forall>j < 2 ^ 32. j \<noteq> length xs \<and> buf_at b j \<noteq> None \<longrightarrow> buf_at b' j = buf_at b j" by (auto simp: buf_rep_def)
  let ?b = "b'\<lparr>buffered_objects := buffered_objects b' + 1\<rparr>"
  have "unat (buffered_objects b + 1) = Suc (length xs)" using o(2) assms(2) n by (simp add: UINT_MAX_def unat_word_ariths)
  then have "buf_rep ?b (xs @ [v])" using b' assms(1) n
    by (auto simp: buf_rep_def nth_append less_Suc_eq)
  then show ?thesis using b'(1) o assms(2) by (auto simp: append_buffered_object_def)
qed

text \<open>Compaction keeps the entries that are not null, in order, and cannot fail.\<close>

lemma compact_prefix:
  assumes "buf_rep b xs" "k \<le> length xs"
  shows "\<exists>b' ys. foldM compact_step (b, 0) [0..<k] = Some (b', of_nat (length ys)) \<and> ys = filter (\<lambda>x. x \<noteq> None) (take k xs) \<and>
    buf_rep b' (ys @ drop (length ys) xs) \<and> (\<forall>i. k \<le> i \<and> i < length xs \<longrightarrow> buf_at b' i = Some (xs ! i))"
  using assms(2)
proof (induction k)
  case 0
  then show ?case using assms(1) by (auto simp: buf_rep_def)
next
  case (Suc k)
  then obtain b1 ys where b1: "foldM compact_step (b, 0) [0..<k] = Some (b1, of_nat (length ys))" "ys = filter (\<lambda>x. x \<noteq> None) (take k xs)"
    "buf_rep b1 (ys @ drop (length ys) xs)" "\<forall>i. k \<le> i \<and> i < length xs \<longrightarrow> buf_at b1 i = Some (xs ! i)" by auto
  have k: "k < length xs" "length ys \<le> k" using Suc.prems length_filter_le [of "\<lambda>x. x \<noteq> None" "take k xs"] b1(2) by auto
  have n: "length (ys @ drop (length ys) xs) = length xs" using k by simp
  have len: "length xs < 2 ^ 32" using rep_length [OF assms(1)] .
  have at: "buffered_object_at_index b1 (of_nat k) = Some (xs ! k)" using b1(4) k(1) by (simp add: buf_at_def)
  have tk: "take (Suc k) xs = take k xs @ [xs ! k]" using k(1) by (rule take_Suc_conv_app_nth)
  show ?case
  proof (cases "xs ! k")
    case None
    then have "foldM compact_step (b, 0) [0..<Suc k] = Some (b1, of_nat (length ys))"
      using b1(1) at by (simp add: foldM_append compact_step_def)
    then show ?thesis using b1 None tk by (intro exI [of _ b1] exI [of _ ys]) auto
  next
    case (Some v)
    have bnd: "length ys < length (ys @ drop (length ys) xs)" using n k by simp
    have fit: "buf_ok b1" "length ys < 2 ^ 32" "fits b1 (length ys)"
      using b1(3) at_fits [of "length ys" b1] bnd k len by (auto simp: buf_rep_def)
    from set_ok [OF fit(1,2), of "xs ! k"] fit(3) obtain b2 where b2: "set_buffered_object_at_index b1 (xs ! k) (of_nat (length ys)) = Some (b2, True)"
      "buf_ok b2" "buffered_objects b2 = buffered_objects b1" "buf_at b2 (length ys) = Some (xs ! k)"
      "\<forall>j < 2 ^ 32. j \<noteq> length ys \<and> buf_at b1 j \<noteq> None \<longrightarrow> buf_at b2 j = buf_at b1 j" by auto
    have keep: "buf_at b2 i = buf_at b1 i" if "i < length xs" "i \<noteq> length ys" for i
      using that b2(5) b1(3) n len by (auto simp: buf_rep_def)
    let ?ys = "ys @ [xs ! k]"
    have "foldM compact_step (b, 0) [0..<Suc k] = Some (b2, of_nat (length ?ys))"
      using b1(1) at b2(1) Some by (simp add: foldM_append compact_step_def)
    moreover have "?ys = filter (\<lambda>x. x \<noteq> None) (take (Suc k) xs)" using tk b1(2) Some by simp
    moreover have "?ys @ drop (length ?ys) xs = (ys @ drop (length ys) xs)[length ys := xs ! k]"
      using k by (simp add: list_update_append Cons_nth_drop_Suc [symmetric])
    then have "buf_rep b2 (?ys @ drop (length ?ys) xs)"
      using b1(3) b2(2,3,4) keep n k bnd by (auto simp: buf_rep_def nth_list_update simp del: append_assoc)
    moreover have "buf_at b2 i = Some (xs ! i)" if "Suc k \<le> i" "i < length xs" for i using keep [of i] that b1(4) k by auto
    ultimately show ?thesis by blast
  qed
qed

lemma rep_compact:
  assumes "buf_rep b xs"
  shows "\<exists>b'. compact_buffer b = Some b' \<and> buf_rep b' (filter (\<lambda>x. x \<noteq> None) xs)"
proof -
  from compact_prefix [OF assms, of "length xs"] obtain b' ys where b': "foldM compact_step (b, 0) [0..<length xs] = Some (b', of_nat (length ys))"
    "ys = filter (\<lambda>x. x \<noteq> None) xs" "buf_rep b' (ys @ drop (length ys) xs)" by auto
  have "length ys < 2 ^ 32" using rep_length [OF b'(3)] by simp
  then have "buf_rep (b'\<lparr>buffered_objects := of_nat (length ys)\<rparr>) ys"
    using b'(3) unat_of_nat_32 [of "length ys"] by (auto simp: buf_rep_def nth_append)
  then show ?thesis using b'(1,2) assms by (auto simp: compact_buffer_def buf_rep_def)
qed

section \<open>Loading what waits\<close>

locale pending_loader =
  fixes try_load :: "'s \<Rightarrow> 'a \<Rightarrow> ('s \<times> bool) option"
    and valid :: "'s \<Rightarrow> bool"
    and object :: "'a \<Rightarrow> bool"
    and known :: "'s \<Rightarrow> 'a \<Rightarrow> bool"
  assumes attempt: "valid s \<Longrightarrow> object x \<Longrightarrow> \<exists>s'. try_load s x = Some (s', known s x) \<and> valid s' \<and> (\<forall>y. known s' y = known s y)"
begin

lemma step_prefix:
  assumes "buf_rep b (map Some xs)" "valid s" "\<forall>x \<in> set xs. object x" "k \<le> length xs"
  shows "\<exists>s' b' r. foldM (pending_step try_load) (s, b, False) [0..<k] = Some (s', b', r) \<and> valid s' \<and> (\<forall>y. known s' y = known s y) \<and>
    foldM (\<lambda>s x. map_option fst (try_load s x)) s (take k xs) = Some s' \<and>
    buf_rep b' (map (\<lambda>x. if known s x then None else Some x) (take k xs) @ map Some (drop k xs)) \<and>
    (r \<longleftrightarrow> (\<exists>x \<in> set (take k xs). known s x))"
  using assms(4)
proof (induction k)
  case 0
  then show ?case using assms(1,2) by (auto intro: exI [of _ False])
next
  case (Suc k)
  let ?f = "\<lambda>x. if known s x then None else Some x"
  from Suc obtain s1 b1 r where h: "foldM (pending_step try_load) (s, b, False) [0..<k] = Some (s1, b1, r)" "valid s1" "\<forall>y. known s1 y = known s y"
    "foldM (\<lambda>s x. map_option fst (try_load s x)) s (take k xs) = Some s1" "buf_rep b1 (map ?f (take k xs) @ map Some (drop k xs))"
    "r \<longleftrightarrow> (\<exists>x \<in> set (take k xs). known s x)" by auto
  have k: "k < length xs" using Suc.prems by simp
  have split: "take (Suc k) xs = take k xs @ [xs ! k]" "drop k xs = xs ! k # drop (Suc k) xs"
    using k by (simp_all add: take_Suc_conv_app_nth Cons_nth_drop_Suc)
  have at: "buffered_object_at_index b1 (of_nat k) = Some (Some (xs ! k))"
    using rep_at [OF h(5), of k] k by (simp add: nth_append)
  from attempt [OF h(2), of "xs ! k"] assms(3) k obtain s2 where
    s2: "try_load s1 (xs ! k) = Some (s2, known s (xs ! k))" "valid s2" "\<forall>y. known s2 y = known s y" using h(3) by auto
  have fold: "foldM (\<lambda>s x. map_option fst (try_load s x)) s (take (Suc k) xs) = Some s2"
    using h(4) s2(1) by (simp add: split(1) foldM_append)
  show ?case
  proof (cases "known s (xs ! k)")
    case True
    from rep_set [OF h(5), of k None] k obtain b2 where
      b2: "set_buffered_object_at_index b1 None (of_nat k) = Some (b2, True)" "buf_rep b2 ((map ?f (take k xs) @ map Some (drop k xs))[k := None])" by auto
    have "(map ?f (take k xs) @ map Some (drop k xs))[k := None] = map ?f (take (Suc k) xs) @ map Some (drop (Suc k) xs)"
      using k True unfolding split by (simp add: list_update_append)
    moreover have "pending_step try_load (s1, b1, r) k = Some (s2, b2, True)" using at s2(1) True b2(1) by (simp add: pending_step_def)
    then have "foldM (pending_step try_load) (s, b, False) [0..<Suc k] = Some (s2, b2, True)" using h(1) by (simp add: foldM_append)
    moreover have "\<exists>x \<in> set (take (Suc k) xs). known s x" using True by (simp add: split(1))
    ultimately show ?thesis using b2(2) s2(2,3) fold by (intro exI [of _ s2] exI [of _ b2] exI [of _ True]) simp
  next
    case False
    have "map ?f (take k xs) @ map Some (drop k xs) = map ?f (take (Suc k) xs) @ map Some (drop (Suc k) xs)"
      using False unfolding split by simp
    moreover have "pending_step try_load (s1, b1, r) k = Some (s2, b1, r)" using at s2(1) False by (simp add: pending_step_def)
    then have "foldM (pending_step try_load) (s, b, False) [0..<Suc k] = Some (s2, b1, r)" using h(1) by (simp add: foldM_append)
    moreover have "r \<longleftrightarrow> (\<exists>x \<in> set (take (Suc k) xs). known s x)" using False h(6) by (simp add: split(1))
    ultimately show ?thesis using h(5) s2(2,3) fold by (intro exI [of _ s2] exI [of _ b1] exI [of _ r]) simp
  qed
qed

lemma pending_loaded:
  assumes "buf_rep b (map Some xs)" "valid s" "\<forall>x \<in> set xs. object x"
  shows "\<exists>s' b'. load_pending try_load s b = Some (s', b') \<and> valid s' \<and> (\<forall>y. known s' y = known s y) \<and>
    foldM (\<lambda>s x. map_option fst (try_load s x)) s xs = Some s' \<and> buf_rep b' (map Some (filter (\<lambda>x. \<not> known s x) xs))"
proof -
  let ?f = "\<lambda>x. if known s x then None else Some x"
  from step_prefix [OF assms, of "length xs"] obtain s' b1 r where h: "foldM (pending_step try_load) (s, b, False) [0..<length xs] = Some (s', b1, r)"
    "valid s'" "\<forall>y. known s' y = known s y" "foldM (\<lambda>s x. map_option fst (try_load s x)) s xs = Some s'"
    "buf_rep b1 (map ?f xs)" "r \<longleftrightarrow> (\<exists>x \<in> set xs. known s x)" by auto
  have flt: "filter (\<lambda>x. x \<noteq> None) (map ?f xs) = map Some (filter (\<lambda>x. \<not> known s x) xs)" by (induction xs) auto
  have n: "unat (buffered_objects b) = length xs" using assms(1) by (simp add: buf_rep_def)
  show ?thesis
  proof (cases r)
    case True
    from rep_compact [OF h(5)] obtain b2 where "compact_buffer b1 = Some b2" "buf_rep b2 (map Some (filter (\<lambda>x. \<not> known s x) xs))"
      unfolding flt by blast
    with h True n show ?thesis by (auto simp: load_pending_def)
  next
    case False
    then have "map ?f xs = map Some (filter (\<lambda>x. \<not> known s x) xs)" using h(6) by (induction xs) auto
    with h False n show ?thesis by (auto simp: load_pending_def)
  qed
qed

lemma tried_or_buffered:
  assumes "buf_rep b (map Some xs)" "valid s" "object x"
    and "known s x \<or> length xs < UINT_MAX \<and> (fits b (length xs) \<or> \<not> bf_fails b (bf_attempts b))"
  shows "\<exists>s' b'. try_or_buffer try_load s b x = Some (s', b') \<and> valid s' \<and> (\<forall>y. known s' y = known s y) \<and>
    try_load s x = Some (s', known s x) \<and> buf_rep b' (map Some (xs @ (if known s x then [] else [x])))"
proof -
  from attempt [OF assms(2,3)] obtain s' where s': "try_load s x = Some (s', known s x)" "valid s'" "\<forall>y. known s' y = known s y" by blast
  show ?thesis
  proof (cases "known s x")
    case True
    with s' assms(1) show ?thesis by (auto simp: try_or_buffer_def)
  next
    case False
    with rep_append [OF assms(1), of "Some x"] assms(4) obtain b' where "append_buffered_object b (Some x) = Some (b', True)" "buf_rep b' (map Some xs @ [Some x])"
      by auto
    with s' False show ?thesis by (auto simp: try_or_buffer_def)
  qed
qed

end

section \<open>Classes that are known\<close>

text \<open>What \<open>objc_getClass\<close> answers: the class table, then the aliases, then the client's hook.\<close>

definition class_known :: "(string option \<Rightarrow> nat option) \<Rightarrow> rt_state \<Rightarrow> cstring \<Rightarrow> nat option" where
  "class_known hook st nm =
     (case class_table_internal_table_get st (cs_text nm) of
        Some c \<Rightarrow> Some c
      | None \<Rightarrow>
          (case alias_getClass st (Some nm) of
             Some c \<Rightarrow> Some c
           | None \<Rightarrow> if objc_lookup_class_hook (hook_vars (rt_hooks st)) \<noteq> 0 then hook (Some (cs_text nm)) else None))"

lemma getClass_known:
  assumes "cache_inv v st" "Suc v < 2 ^ 64"
  shows "\<exists>lcs. objc_getClass hook thread st (Some nm) = (st\<lparr>class_lookup_cache := lcs\<rparr>, class_known hook st nm) \<and>
    cache_inv v (st\<lparr>class_lookup_cache := lcs\<rparr>)"
proof -
  from get_safe_inv [OF assms, of thread nm] obtain lcs where
    l: "class_table_get_safe thread st (Some nm) = (st\<lparr>class_lookup_cache := lcs\<rparr>, class_table_internal_table_get st (cs_text nm))"
    "cache_inv v (st\<lparr>class_lookup_cache := lcs\<rparr>)" by blast
  have "alias_getClass (st\<lparr>class_lookup_cache := lcs\<rparr>) (Some nm) = alias_getClass st (Some nm)" by (simp add: alias_getClass_def)
  with l show ?thesis
    by (intro exI [of _ lcs]) (auto simp: objc_getClass_def class_known_def rt_hooks_def split: option.split)
qed

text \<open>What attaching categories and setting instances leave alone.\<close>

definition class_key :: "objc_class \<Rightarrow> nat option \<times> cstring option \<times> sa_ptr option" where
  "class_key r = (c_isa r, c_name r, c_dtable r)"

definition loads_frame :: "rt_state \<Rightarrow> rt_state \<Rightarrow> bool" where
  "loads_frame st st' \<longleftrightarrow>
     (\<forall>k. map_option class_key (classes st' k) = map_option class_key (classes st k)) \<and>
     class_table st' = class_table st \<and> alias_table st' = alias_table st \<and>
     class_table_generation st' = class_table_generation st \<and>
     temporary_dtables st' = temporary_dtables st \<and> uninstalled_dtable st' = uninstalled_dtable st \<and>
     hook_vars (rt_hooks st') = hook_vars (rt_hooks st) \<and> protos (rt_protocols st') = protos (rt_protocols st) \<and>
     (\<forall>l. map_option pl_list (plists (rt_protocols st') l) = map_option pl_list (plists (rt_protocols st) l))"

lemma loads_frame_refl [simp]: "loads_frame st st"
  by (simp add: loads_frame_def)

lemma loads_frame_trans: "loads_frame st t \<Longrightarrow> loads_frame t u \<Longrightarrow> loads_frame st u"
  by (simp add: loads_frame_def)

lemma loads_frame_text: "loads_frame st st' \<Longrightarrow> class_text st' k = class_text st k"
proof -
  assume "loads_frame st st'"
  then have "map_option class_key (classes st' k) = map_option class_key (classes st k)" by (simp add: loads_frame_def)
  then show ?thesis by (cases "classes st k"; cases "classes st' k") (simp_all add: class_text_def class_key_def)
qed

lemma loads_frame_known: "loads_frame st st' \<Longrightarrow> class_known hook st' nm = class_known hook st nm"
  using table_get_cong [of st' st] loads_frame_text [of st st']
  by (simp add: class_known_def alias_getClass_def loads_frame_def split: option.split)

lemma loads_frame_upd:
  "upd_class c f st = Some st' \<Longrightarrow> (\<And>x. class_key (f x) = class_key x) \<Longrightarrow> loads_frame st st'"
  by (auto simp: loads_frame_def upd_class_def rt_hooks_def split: option.splits)

lemma loads_frame_lookup: "loads_frame st (st\<lparr>class_lookup_cache := lcs\<rparr>)"
  by (simp add: loads_frame_def rt_hooks_def)

lemma loads_frame_isa: "loads_frame st (set_isa x c st)"
  by (simp add: loads_frame_def rt_hooks_def set_isa_def)

lemma emit_hook_vars [simp]: "hook_vars (mosaic_objc_emitRuntimeEvent e h) = hook_vars h"
  by (simp add: mosaic_objc_emitRuntimeEvent_def mosaic_objc_noteRuntimeMutation_def Let_def)

lemma loads_frame_emit: "loads_frame st (rt_emit e st)"
  by (simp add: loads_frame_def rt_emit_def rt_hooks_def)

section \<open>Attaching a category\<close>

text \<open>A list of protocols that have all been initialised.\<close>

definition protocols_ready :: "proto_state \<Rightarrow> nat \<Rightarrow> bool" where
  "protocols_ready q l \<longleftrightarrow>
     (\<exists>b. plists q l = Some b \<and> (\<forall>p \<in> set (pl_list b). \<exists>a r. p = Some a \<and> protos q a = Some r \<and> p_isa r = Isa_Protocol))"

lemma foldM_id: "(\<And>x. x \<in> set xs \<Longrightarrow> f s x = Some s) \<Longrightarrow> foldM f s xs = Some s"
  by (induction xs) auto

lemma init_ready:
  assumes "protocols_ready q l"
  shows "objc_init_protocols q l = Some q"
proof -
  from assms obtain b where b: "plists q l = Some b" "\<forall>p \<in> set (pl_list b). \<exists>a r. p = Some a \<and> protos q a = Some r \<and> p_isa r = Isa_Protocol"
    by (auto simp: protocols_ready_def)
  have each: "\<exists>a r. pl_list b ! i = Some a \<and> protos q a = Some r \<and> p_isa r = Isa_Protocol" if "i < length (pl_list b)" for i
    using b(2) that by simp
  have "i < length (pl_list b)" if "i \<in> set [0..<length (pl_list b)]" for i using that by simp
  then show ?thesis
    unfolding objc_init_protocols_def init_protocols.simps b(1) Option.bind.bind_lunit
    by (intro foldM_id) (use each in \<open>fastforce simp: b(1)\<close>)
qed

text \<open>
  The states categories are loaded in: every class that lookups find is there with its metaclass,
  no class has a dispatch table yet, and the protocols of the waiting categories \<open>C\<close> have been
  initialised, as the loader does before it comes to the categories.
\<close>

definition cat_valid :: "(string option \<Rightarrow> nat option) \<Rightarrow> objc_category set \<Rightarrow> nat \<Rightarrow> rt_state \<Rightarrow> bool" where
  "cat_valid hook C v st \<longleftrightarrow>
     cache_inv v st \<and> Suc v < 2 ^ 64 \<and> temporary_dtables st = [] \<and>
     (\<forall>c r. classes st c = Some r \<longrightarrow> c_dtable r = Some (uninstalled_dtable st)) \<and>
     (\<forall>nm c. class_known hook st nm = Some c \<longrightarrow>
        (\<exists>r m rm. classes st c = Some r \<and> c_isa r = Some m \<and> classes st m = Some rm)) \<and>
     (\<forall>cat \<in> C. \<forall>l. cat_protocols cat = Some l \<longrightarrow> protocols_ready (rt_protocols st) l)"

lemma frame_class:
  assumes "loads_frame st st'" "classes st' c = Some r'"
  obtains r where "classes st c = Some r" "c_isa r' = c_isa r" "c_dtable r' = c_dtable r"
proof -
  have "map_option class_key (classes st' c) = map_option class_key (classes st c)" using assms(1) by (simp add: loads_frame_def)
  with assms(2) that show thesis by (cases "classes st c") (auto simp: class_key_def)
qed

lemma loads_frame_sym: "loads_frame st st' \<Longrightarrow> loads_frame st' st"
  by (simp add: loads_frame_def)

lemma frame_ready: "loads_frame st st' \<Longrightarrow> protocols_ready (rt_protocols st) l \<Longrightarrow> protocols_ready (rt_protocols st') l"
proof -
  assume f: "loads_frame st st'" and r: "protocols_ready (rt_protocols st) l"
  have "map_option pl_list (plists (rt_protocols st') l) = map_option pl_list (plists (rt_protocols st) l)"
    "protos (rt_protocols st') = protos (rt_protocols st)" using f by (simp_all add: loads_frame_def)
  with r show ?thesis by (auto simp: protocols_ready_def map_option_eq_Some)
qed

lemma cat_valid_frame:
  assumes "cat_valid hook C v st" "loads_frame st st'" "cache_inv v st'"
  shows "cat_valid hook C v st'"
proof -
  have "c_dtable r' = Some (uninstalled_dtable st')" if "classes st' c = Some r'" for c r'
    using frame_class [OF assms(2) that] assms(1,2) by (metis cat_valid_def loads_frame_def)
  moreover have "\<exists>r m rm. classes st' c = Some r \<and> c_isa r = Some m \<and> classes st' m = Some rm" if "class_known hook st' nm = Some c" for nm c
  proof -
    from that have "class_known hook st nm = Some c" by (simp add: loads_frame_known [OF assms(2)])
    with assms(1) obtain r m rm where r: "classes st c = Some r" "c_isa r = Some m" "classes st m = Some rm"
      unfolding cat_valid_def by blast
    from frame_class [OF loads_frame_sym [OF assms(2)] r(1)] obtain r' where r': "classes st' c = Some r'" "c_isa r = c_isa r'" by metis
    from frame_class [OF loads_frame_sym [OF assms(2)] r(3)] obtain rm' where "classes st' m = Some rm'" by metis
    with r r' show ?thesis by auto
  qed
  ultimately show ?thesis using assms frame_ready [OF assms(2)] by (simp add: cat_valid_def loads_frame_def)
qed

text \<open>The method lists a step puts in front of those of class \<open>k\<close>.\<close>

definition prepends :: "rt_state \<Rightarrow> rt_state \<Rightarrow> (nat \<Rightarrow> objc_method_list list) \<Rightarrow> bool" where
  "prepends st st' f \<longleftrightarrow>
     (\<forall>k. map_option c_methods (classes st' k) = map_option (\<lambda>r. f k @ c_methods r) (classes st k))"

lemma prepends_trans: "prepends st t f \<Longrightarrow> prepends t u g \<Longrightarrow> prepends st u (\<lambda>k. g k @ f k)"
proof -
  assume a: "prepends st t f" "prepends t u g"
  have "map_option c_methods (classes u k) = map_option (\<lambda>r. (g k @ f k) @ c_methods r) (classes st k)" for k
  proof -
    have "map_option c_methods (classes u k) = map_option (\<lambda>ms. g k @ ms) (map_option c_methods (classes t k))"
      using a(2) by (simp add: prepends_def option.map_comp comp_def)
    also have "\<dots> = map_option (\<lambda>r. (g k @ f k) @ c_methods r) (classes st k)"
      using a(1) by (simp add: prepends_def option.map_comp comp_def)
    finally show ?thesis .
  qed
  then show ?thesis by (simp add: prepends_def)
qed

text \<open>A step of the loader: the frame is kept, the caches stay, and method lists are put in front.\<close>

definition cat_step :: "rt_state \<Rightarrow> rt_state \<Rightarrow> (nat \<Rightarrow> objc_method_list list) \<Rightarrow> bool" where
  "cat_step st st' f \<longleftrightarrow> loads_frame st st' \<and> class_lookup_cache st' = class_lookup_cache st \<and> prepends st st' f"

lemma cat_step_trans: "cat_step st t f \<Longrightarrow> cat_step t u g \<Longrightarrow> cat_step st u (\<lambda>k. g k @ f k)"
  using loads_frame_trans prepends_trans by (auto simp: cat_step_def)

lemma cat_step_refl: "cat_step st st (\<lambda>_. [])"
  by (simp add: cat_step_def prepends_def)

lemma cat_step_upd:
  assumes "classes st c = Some r" "\<And>x. class_key (f x) = class_key x" "\<And>x. c_methods (f x) = ms @ c_methods x"
  shows "\<exists>st'. upd_class c f st = Some st' \<and> cat_step st st' (\<lambda>k. if k = c then ms else [])"
proof -
  obtain st' where st': "upd_class c f st = Some st'" "classes st' = (classes st)(c \<mapsto> f r)" "class_lookup_cache st' = class_lookup_cache st"
    using assms(1) by (simp add: upd_class_def)
  have "prepends st st' (\<lambda>k. if k = c then ms else [])" using assms(1,3) by (simp add: prepends_def st'(2))
  with st' loads_frame_upd [OF st'(1) assms(2)] show ?thesis by (auto simp: cat_step_def)
qed

lemma register_step:
  assumes "cat_valid hook C v st" "classes st c = Some r"
  shows "\<exists>st'. register_methods fuel st c l = Some st' \<and>
    cat_step st st' (\<lambda>k. if k = c then (case l of None \<Rightarrow> [] | Some ml \<Rightarrow> [ml]) else [])"
proof (cases l)
  case None
  then show ?thesis using cat_step_refl [of st] by (simp add: register_methods_def cong: if_cong)
next
  case (Some ml)
  from cat_step_upd [OF assms(2), of "\<lambda>x. x\<lparr>c_methods := ml # c_methods x\<rparr>" "[ml]"] obtain s1 where
    s1: "upd_class c (\<lambda>x. x\<lparr>c_methods := ml # c_methods x\<rparr>) st = Some s1" "cat_step st s1 (\<lambda>k. if k = c then [ml] else [])"
    by (auto simp: class_key_def)
  have "\<exists>r1. classes s1 c = Some r1 \<and> c_dtable r1 = c_dtable r" "temporary_dtables s1 = temporary_dtables st" "uninstalled_dtable s1 = uninstalled_dtable st"
    using s1(1) assms(2) by (auto simp: upd_class_def)
  then have "classHasDtable s1 c = Some False" using assms
    by (auto simp: classHasDtable_def dtable_for_class_def classHasInstalledDtable_def cat_valid_def)
  then show ?thesis using s1 Some by (simp add: register_methods_def cong: if_cong)
qed

lemma adopt_step:
  assumes "classes st c = Some r" "\<And>l. ps = Some l \<Longrightarrow> protocols_ready (rt_protocols st) l"
  shows "\<exists>st'. adopt_protocols st c ps = Some st' \<and> cat_step st st' (\<lambda>_. [])"
proof (cases ps)
  case None
  then show ?thesis using cat_step_refl [of st] by (simp add: adopt_protocols_def)
next
  case (Some l)
  then have ready: "protocols_ready (rt_protocols st) l" using assms(2) by simp
  then obtain b where b: "plists (rt_protocols st) l = Some b" by (auto simp: protocols_ready_def)
  let ?s = "st\<lparr>rt_protocols := set_plist (rt_protocols st) l (b\<lparr>pl_next := c_protocols r\<rparr>)\<rparr>"
  have "cat_step st ?s (\<lambda>_. [])" using b by (auto simp: cat_step_def loads_frame_def prepends_def set_plist_def rt_hooks_def)
  moreover from cat_step_upd [of ?s c r "\<lambda>x. x\<lparr>c_protocols := Some l\<rparr>" "[]"] assms(1) obtain st' where
    "upd_class c (\<lambda>x. x\<lparr>c_protocols := Some l\<rparr>) ?s = Some st'" "cat_step ?s st' (\<lambda>_. [])" by (auto simp: class_key_def)
  ultimately show ?thesis using cat_step_trans [of st ?s "\<lambda>_. []" st' "\<lambda>_. []"] init_ready [OF ready] b assms(1) Some
    by (simp add: adopt_protocols_def)
qed

lemma properties_step:
  assumes "classes st c = Some r"
  shows "\<exists>st'. add_properties st c ps = Some st' \<and> cat_step st st' (\<lambda>_. [])"
proof (cases ps)
  case None
  then show ?thesis using cat_step_refl [of st] by (simp add: add_properties_def)
next
  case (Some pb)
  from cat_step_upd [OF assms, of "\<lambda>x. x\<lparr>c_properties := pb # c_properties x\<rparr>" "[]"] show ?thesis
    using Some by (simp add: add_properties_def class_key_def)
qed

lemma step_class:
  assumes "cat_step st st' f" "classes st c = Some r"
  obtains r' where "classes st' c = Some r'" "c_isa r' = c_isa r"
  using frame_class [of st' st c r] loads_frame_sym assms by (metis cat_step_def)

text \<open>The method lists a category adds to the class it names and to its metaclass.\<close>

definition added_lists :: "nat \<Rightarrow> nat \<Rightarrow> objc_category \<Rightarrow> nat \<Rightarrow> objc_method_list list" where
  "added_lists c m cat k =
     (if k = m then (case cat_class_methods cat of None \<Rightarrow> [] | Some ml \<Rightarrow> [ml]) else []) @
     (if k = c then (case cat_instance_methods cat of None \<Rightarrow> [] | Some ml \<Rightarrow> [ml]) else [])"

lemma load_category_step:
  assumes v: "cat_valid hook C v st" and c: "classes st c = Some r" "c_isa r = Some m" "classes st m = Some rm"
    and p: "\<And>l. cat_protocols cat = Some l \<Longrightarrow> protocols_ready (rt_protocols st) l"
  shows "\<exists>st'. load_category fuel st cat c = Some st' \<and> cat_step st st' (added_lists c m cat)"
proof -
  let ?i = "\<lambda>k. if k = c then (case cat_instance_methods cat of None \<Rightarrow> [] | Some ml \<Rightarrow> [ml]) else []"
  let ?m = "\<lambda>k. if k = m then (case cat_class_methods cat of None \<Rightarrow> [] | Some ml \<Rightarrow> [ml]) else []"
  from register_step [OF v c(1), of fuel "cat_instance_methods cat"] obtain s1 where
    s1: "register_methods fuel st c (cat_instance_methods cat) = Some s1" "cat_step st s1 ?i" by blast
  have v1: "cat_valid hook C v s1"
    by (rule cat_valid_frame [OF v]) (use s1(2) v cache_inv_frame [of v st s1] loads_frame_text [of st s1] in
      \<open>auto simp: cat_step_def loads_frame_def cat_valid_def\<close>)
  obtain r1 where r1: "classes s1 c = Some r1" "c_isa r1 = Some m" using step_class [OF s1(2) c(1)] c(2) by metis
  obtain rm1 where rm1: "classes s1 m = Some rm1" using step_class [OF s1(2) c(3)] by metis
  from register_step [OF v1 rm1, of fuel "cat_class_methods cat"] obtain s2 where
    s2: "register_methods fuel s1 m (cat_class_methods cat) = Some s2" "cat_step s1 s2 ?m" by blast
  have "added_lists c m cat = (\<lambda>k. ?m k @ ?i k)" by (simp add: fun_eq_iff added_lists_def)
  then have t2: "cat_step st s2 (added_lists c m cat)" using cat_step_trans [OF s1(2) s2(2)] by metis
  obtain r2 where r2: "classes s2 c = Some r2" using step_class [OF t2 c(1)] by metis
  have "protocols_ready (rt_protocols s2) l" if "cat_protocols cat = Some l" for l
    using frame_ready [OF _ p [OF that]] t2 by (simp add: cat_step_def)
  from adopt_step [OF r2 this] obtain s3 where s3: "adopt_protocols s2 c (cat_protocols cat) = Some s3" "cat_step s2 s3 (\<lambda>_. [])" by blast
  have t3: "cat_step st s3 (added_lists c m cat)" using cat_step_trans [OF t2 s3(2)] by simp
  obtain r3 where r3: "classes s3 c = Some r3" using step_class [OF t3 c(1)] by metis
  from properties_step [OF r3, of "cat_properties cat"] obtain s4 where s4: "add_properties s3 c (cat_properties cat) = Some s4" "cat_step s3 s4 (\<lambda>_. [])" by blast
  have t4: "cat_step st s4 (added_lists c m cat)" using cat_step_trans [OF t3 s4(2)] by simp
  obtain r4 where r4: "classes s4 m = Some r4" using step_class [OF t4 c(3)] by metis
  from properties_step [OF r4, of "cat_class_properties cat"] obtain s5 where s5: "add_properties s4 m (cat_class_properties cat) = Some s5" "cat_step s4 s5 (\<lambda>_. [])" by blast
  have t5: "cat_step st s5 (added_lists c m cat)" using cat_step_trans [OF t4 s5(2)] by simp
  have "cat_step s5 (rt_emit e s5) (\<lambda>_. [])" for e using loads_frame_emit by (simp add: cat_step_def prepends_def rt_emit_def)
  from cat_step_trans [OF t5 this] show ?thesis using s1(1) r1 s2(1) s3(1) s4(1) s5(1) by (simp add: load_category_def)
qed

section \<open>The loaders\<close>

lemma statics_fold_frame:
  "loads_frame st (fold (\<lambda>x. set_isa x c) xs st) \<and> class_lookup_cache (fold (\<lambda>x. set_isa x c) xs st) = class_lookup_cache st"
proof (induction xs arbitrary: st)
  case (Cons x xs)
  have "class_lookup_cache (set_isa x c st) = class_lookup_cache st" by (simp add: set_isa_def)
  with Cons [of "set_isa x c st"] loads_frame_trans [OF loads_frame_isa [of st x c]] show ?case by auto
qed simp

lemma cache_inv_loads:
  "cache_inv v st \<Longrightarrow> loads_frame st st' \<Longrightarrow> class_lookup_cache st' = class_lookup_cache st \<Longrightarrow> cache_inv v st'"
  by (rule cache_inv_frame [of v st]) (auto simp: loads_frame_def loads_frame_text)

interpretation statics: pending_loader "try_init_statics hook thread cstr" "\<lambda>st. cache_inv v st \<and> Suc v < 2 ^ 64" "\<lambda>_. True"
  "\<lambda>st s. class_known hook st (statics_class_name cstr s) \<noteq> None" for hook thread cstr v
proof
  fix st and s :: objc_static_instance_list
  assume v: "cache_inv v st \<and> Suc v < 2 ^ 64"
  let ?nm = "statics_class_name cstr s"
  from getClass_known [of v st hook thread ?nm] v obtain lcs where
    l: "objc_getClass hook thread st (Some ?nm) = (st\<lparr>class_lookup_cache := lcs\<rparr>, class_known hook st ?nm)" "cache_inv v (st\<lparr>class_lookup_cache := lcs\<rparr>)" by blast
  let ?s = "st\<lparr>class_lookup_cache := lcs\<rparr>"
  let ?t = "case class_known hook st ?nm of None \<Rightarrow> ?s | Some c \<Rightarrow> fold (\<lambda>x. set_isa x (Some c)) (si_instances s) ?s"
  have run: "try_init_statics hook thread cstr st s = Some (?t, class_known hook st ?nm \<noteq> None)"
    using l(1) by (simp add: try_init_statics_def split: option.split)
  have f: "loads_frame ?s ?t \<and> class_lookup_cache ?t = class_lookup_cache ?s" using statics_fold_frame by (simp split: option.split)
  have "cache_inv v ?t" using cache_inv_loads [OF l(2)] f by blast
  moreover have "class_known hook ?t x = class_known hook st x" for x
    using loads_frame_known [OF loads_frame_trans [OF loads_frame_lookup]] f by blast
  ultimately show "\<exists>s'. try_init_statics hook thread cstr st s = Some (s', class_known hook st ?nm \<noteq> None) \<and>
      (cache_inv v s' \<and> Suc v < 2 ^ 64) \<and>
      (\<forall>y. (class_known hook s' (statics_class_name cstr y) \<noteq> None) = (class_known hook st (statics_class_name cstr y) \<noteq> None))"
    using run v by auto
qed

text \<open>The method lists the categories of a list add to a class, the last category first.\<close>

definition attached :: "(string option \<Rightarrow> nat option) \<Rightarrow> rt_state \<Rightarrow> nat \<Rightarrow> objc_category \<Rightarrow> objc_method_list list" where
  "attached hook st k cat =
     (case class_known hook st (cat_class_name cat) of
        None \<Rightarrow> []
      | Some c \<Rightarrow> (case classes st c of None \<Rightarrow> [] | Some r \<Rightarrow>
                    (case c_isa r of None \<Rightarrow> [] | Some m \<Rightarrow> added_lists c m cat k)))"

lemma attached_frame: "loads_frame st st' \<Longrightarrow> attached hook st' k cat = attached hook st k cat"
proof -
  assume f: "loads_frame st st'"
  show ?thesis
  proof (cases "class_known hook st (cat_class_name cat)")
    case None
    then show ?thesis unfolding attached_def loads_frame_known [OF f] by simp
  next
    case (Some c)
    have "map_option class_key (classes st' c) = map_option class_key (classes st c)" using f by (simp add: loads_frame_def)
    then show ?thesis unfolding attached_def loads_frame_known [OF f] Some
      by (cases "classes st c"; cases "classes st' c") (simp_all add: class_key_def)
  qed
qed

lemma try_category_step:
  assumes v: "cat_valid hook C v st" and cat: "cat \<in> C"
  shows "\<exists>st'. try_load_category hook thread fuel st cat = Some (st', class_known hook st (cat_class_name cat) \<noteq> None) \<and>
    cat_valid hook C v st' \<and> loads_frame st st' \<and> prepends st st' (\<lambda>k. attached hook st k cat)"
proof -
  let ?nm = "cat_class_name cat"
  from getClass_known [of v st hook thread ?nm] v obtain lcs where
    l: "objc_getClass hook thread st (Some ?nm) = (st\<lparr>class_lookup_cache := lcs\<rparr>, class_known hook st ?nm)" "cache_inv v (st\<lparr>class_lookup_cache := lcs\<rparr>)"
    unfolding cat_valid_def by blast
  let ?s = "st\<lparr>class_lookup_cache := lcs\<rparr>"
  have vs: "cat_valid hook C v ?s" by (rule cat_valid_frame [OF v loads_frame_lookup l(2)])
  show ?thesis
  proof (cases "class_known hook st ?nm")
    case None
    have "attached hook st k cat = []" for k by (simp add: attached_def None)
    then have "prepends st ?s (\<lambda>k. attached hook st k cat)" by (simp add: prepends_def)
    with l(1) None vs loads_frame_lookup [of st lcs] show ?thesis by (simp add: try_load_category_def)
  next
    case (Some c)
    from v Some obtain r m rm where r: "classes st c = Some r" "c_isa r = Some m" "classes st m = Some rm" unfolding cat_valid_def by blast
    from load_category_step [OF vs, of c r m rm cat fuel] r cat vs obtain t where
      t: "load_category fuel ?s cat c = Some t" "cat_step ?s t (added_lists c m cat)" by (auto simp: cat_valid_def)
    have fr: "loads_frame st t" using loads_frame_trans [OF loads_frame_lookup] t(2) by (auto simp: cat_step_def)
    have "cache_inv v t" by (rule cache_inv_loads [OF l(2)]) (use t(2) in \<open>simp_all add: cat_step_def\<close>)
    then have "cat_valid hook C v t" by (rule cat_valid_frame [OF v fr])
    moreover have "prepends st t (\<lambda>k. attached hook st k cat)"
      using t(2) Some r by (simp add: cat_step_def prepends_def attached_def)
    ultimately show ?thesis using t(1) l(1) Some fr by (simp add: try_load_category_def)
  qed
qed

interpretation categories: pending_loader "try_load_category hook thread fuel" "cat_valid hook C v" "\<lambda>cat. cat \<in> C"
  "\<lambda>st cat. class_known hook st (cat_class_name cat) \<noteq> None" for hook thread fuel C v
proof
  fix st cat
  assume "cat_valid hook C v st" "cat \<in> C"
  from try_category_step [OF this, of thread fuel] obtain st' where
    "try_load_category hook thread fuel st cat = Some (st', class_known hook st (cat_class_name cat) \<noteq> None)" "cat_valid hook C v st'" "loads_frame st st'" by blast
  then show "\<exists>st'. try_load_category hook thread fuel st cat = Some (st', class_known hook st (cat_class_name cat) \<noteq> None) \<and> cat_valid hook C v st' \<and>
      (\<forall>y. (class_known hook st' (cat_class_name y) \<noteq> None) = (class_known hook st (cat_class_name y) \<noteq> None))"
    using loads_frame_known by auto
qed

lemma categories_fold:
  assumes "cat_valid hook C v st" "set cats \<subseteq> C" "foldM (\<lambda>s x. map_option fst (try_load_category hook thread fuel s x)) st cats = Some st'"
  shows "prepends st st' (\<lambda>k. concat (map (attached hook st k) (rev cats)))"
  using assms
proof (induction cats arbitrary: st)
  case Nil
  then show ?case by (simp add: prepends_def)
next
  case (Cons cat cats)
  from try_category_step [OF Cons.prems(1), of cat thread fuel] Cons.prems(2) obtain s1 where
    s1: "try_load_category hook thread fuel st cat = Some (s1, class_known hook st (cat_class_name cat) \<noteq> None)" "cat_valid hook C v s1"
    "loads_frame st s1" "prepends st s1 (\<lambda>k. attached hook st k cat)" by auto
  have "prepends s1 st' (\<lambda>k. concat (map (attached hook s1 k) (rev cats)))"
    by (rule Cons.IH [OF s1(2)]) (use Cons.prems s1(1) in auto)
  moreover have "attached hook s1 = attached hook st" by (intro ext) (rule attached_frame [OF s1(3)])
  ultimately show ?case using prepends_trans [OF s1(4)] by simp
qed

text \<open>The static instances whose class has become known are initialised, the others wait on.\<close>

lemma waiting_statics_initialised:
  assumes "buf_rep b (map Some xs)" "cache_inv v st" "Suc v < 2 ^ 64"
  shows "\<exists>st' b'. objc_init_buffered_statics hook thread cstr st b = Some (st', b') \<and> cache_inv v st' \<and>
    foldM (\<lambda>s x. map_option fst (try_init_statics hook thread cstr s x)) st xs = Some st' \<and>
    buf_rep b' (map Some (filter (\<lambda>s. class_known hook st (statics_class_name cstr s) = None) xs))"
  using statics.pending_loaded [OF assms(1), where hook = hook and thread = thread and cstr = cstr and v = v and s = st] assms(2,3) by (auto simp: objc_init_buffered_statics_def)

section \<open>Properties\<close>


text \<open>Two categories wait, one for a class that has been loaded and one for a class that has not.\<close>

definition waiting_category :: "string \<Rightarrow> objc_category" where
  "waiting_category nm =
     \<lparr>cat_name = ''Extras'', cat_class_name = \<lparr>cs_addr = 64, cs_text = nm\<rparr>,
      cat_instance_methods = Some \<lparr>ml_count = 1, ml_size = sizeof_objc_method, ml_methods = [9]\<rparr>, cat_class_methods = None,
      cat_protocols = None, cat_properties = None, cat_class_properties = None\<rparr>"

definition waiting_state :: rt_state where
  "waiting_state =
     (boot_state (\<lambda>n t. None) (\<lambda>_. 0))
       \<lparr>classes := [0 \<mapsto> (plain_class \<lparr>cs_addr = 16, cs_text = ''A''\<rparr> (Some 1) None)\<lparr>c_dtable := Some (Node 0)\<rparr>,
                   1 \<mapsto> (plain_class \<lparr>cs_addr = 16, cs_text = ''A''\<rparr> (Some 1) None)\<lparr>c_dtable := Some (Node 0)\<rparr>],
        class_brk := 2, class_table := [0]\<rparr>"

lemma rep_empty: "buf_rep (empty_buffer fails) []"
  by (simp add: buf_rep_def buf_ok_def empty_buffer_def)

lemma waiting_known:
  "class_known (\<lambda>_. None) waiting_state nm = (if cs_text nm = ''A'' then Some 0 else None)"
  by (auto simp: class_known_def waiting_state_def class_table_internal_table_get_def class_text_def plain_class_def
      alias_getClass_def boot_state_def)

lemma waiting_valid: "cat_valid (\<lambda>_. None) {waiting_category ''A'', waiting_category ''B''} 0 waiting_state"
proof -
  have "cache_inv 0 waiting_state" by (auto simp: cache_inv_def waiting_state_def boot_state_def empty_cache_def)
  then show ?thesis unfolding cat_valid_def waiting_known
    by (auto simp: waiting_state_def boot_state_def plain_class_def waiting_category_def split: if_splits)
qed


end
