(* ===== verification/Objc_Dwarf.thy ===== *)
theory Objc_Dwarf
  imports Objc_Prelude
begin

text \<open>
  The decoders of exception tables, \<open>src/internal/exceptions/dwarf_eh.h\<close>.

  Memory is a map from addresses to bytes; reading an address that is not mapped is \<open>None\<close>. What
  the unwinder answers about a frame is a record of addresses. An undefined shift or overflow of
  a C \<open>int\<close> is \<open>None\<close> too.
\<close>

unbundle bit_operations_syntax

type_synonym memory = "uintptr_t \<Rightarrow> 8 word option"

record unwind_context =
  uc_ip :: uintptr_t
  uc_region_start :: uintptr_t
  uc_text_base :: uintptr_t
  uc_data_base :: uintptr_t

section \<open>Encodings\<close>

definition DW_EH_PE_absptr :: "8 word" where "DW_EH_PE_absptr = 0x00"
definition DW_EH_PE_uleb128 :: "8 word" where "DW_EH_PE_uleb128 = 0x01"
definition DW_EH_PE_udata2 :: "8 word" where "DW_EH_PE_udata2 = 0x02"
definition DW_EH_PE_udata4 :: "8 word" where "DW_EH_PE_udata4 = 0x03"
definition DW_EH_PE_udata8 :: "8 word" where "DW_EH_PE_udata8 = 0x04"
definition DW_EH_PE_sleb128 :: "8 word" where "DW_EH_PE_sleb128 = 0x09"
definition DW_EH_PE_sdata2 :: "8 word" where "DW_EH_PE_sdata2 = 0x0a"
definition DW_EH_PE_sdata4 :: "8 word" where "DW_EH_PE_sdata4 = 0x0b"
definition DW_EH_PE_sdata8 :: "8 word" where "DW_EH_PE_sdata8 = 0x0c"
definition DW_EH_PE_pcrel :: "8 word" where "DW_EH_PE_pcrel = 0x10"
definition DW_EH_PE_textrel :: "8 word" where "DW_EH_PE_textrel = 0x20"
definition DW_EH_PE_datarel :: "8 word" where "DW_EH_PE_datarel = 0x30"
definition DW_EH_PE_funcrel :: "8 word" where "DW_EH_PE_funcrel = 0x40"
definition DW_EH_PE_indirect :: "8 word" where "DW_EH_PE_indirect = 0x80"
definition DW_EH_PE_omit :: "8 word" where "DW_EH_PE_omit = 0xff"

definition get_encoding :: "8 word \<Rightarrow> 8 word" where "get_encoding x = x AND 0x0f"

definition get_base :: "8 word \<Rightarrow> 8 word" where "get_base x = x AND 0x70"

definition is_indirect :: "8 word \<Rightarrow> bool" where "is_indirect x \<longleftrightarrow> x AND DW_EH_PE_indirect \<noteq> 0"

definition dwarf_size_of_fixed_size_field :: "8 word \<Rightarrow> nat option" where
  "dwarf_size_of_fixed_size_field type =
     (let low = type AND 7 in
      if low = DW_EH_PE_udata2 then Some 2
      else if low = DW_EH_PE_udata4 then Some 4
      else if low = DW_EH_PE_udata8 then Some 8
      else if low = DW_EH_PE_absptr then Some 8
      else None)"

section \<open>Values\<close>

text \<open>\<open>digit << bit\<close>: the digit is promoted to a signed 32-bit \<open>int\<close> before it is shifted.\<close>

definition int_shift_left :: "8 word \<Rightarrow> nat \<Rightarrow> uint64 option" where
  "int_shift_left digit bits =
     (if 32 \<le> bits \<or> 2 ^ 31 \<le> unat digit * 2 ^ bits then None else Some (of_nat (unat digit * 2 ^ bits)))"

text \<open>
  The loop of \<open>read_leb128\<close>: the value, the number of bits and the address after it. The assertion
  allows ten rounds, so ten is enough fuel.
\<close>

fun leb128_loop :: "nat \<Rightarrow> memory \<Rightarrow> uint64 \<Rightarrow> nat \<Rightarrow> uintptr_t \<Rightarrow> (uint64 \<times> nat \<times> uintptr_t) option" where
  "leb128_loop 0 mem uleb bits data = None"
| "leb128_loop (Suc fuel) mem uleb bits data =
     (if 64 \<le> bits then None
      else do {
        octet \<leftarrow> mem data;
        let digit = octet AND 0x7f;
        shifted \<leftarrow> int_shift_left digit bits;
        if octet \<noteq> digit then leb128_loop fuel mem (uleb + shifted) (bits + 7) (data + 1)
        else Some (uleb + shifted, bits + 7, data + 1)
      })"

definition read_leb128 :: "memory \<Rightarrow> uintptr_t \<Rightarrow> (uint64 \<times> nat \<times> uintptr_t) option" where
  "read_leb128 mem data = leb128_loop 10 mem 0 0 data"

definition read_uleb128 :: "memory \<Rightarrow> uintptr_t \<Rightarrow> (uint64 \<times> uintptr_t) option" where
  "read_uleb128 mem data = do { (v, _, data1) \<leftarrow> read_leb128 mem data; Some (v, data1) }"

definition read_sleb128 :: "memory \<Rightarrow> uintptr_t \<Rightarrow> (uint64 \<times> uintptr_t) option" where
  "read_sleb128 mem data =
     do {
       (uleb, bits, data1) \<leftarrow> read_leb128 mem data;
       Some (if drop_bit (bits - 1) uleb = 1 then uleb OR push_bit bits (- 1) else uleb, data1)
     }"

text \<open>\<open>n\<close> bytes, the least significant first.\<close>

fun read_le :: "memory \<Rightarrow> nat \<Rightarrow> uintptr_t \<Rightarrow> nat option" where
  "read_le mem 0 data = Some 0"
| "read_le mem (Suc n) data =
     do { b \<leftarrow> mem data; rest \<leftarrow> read_le mem n (data + 1); Some (unat b + 256 * rest) }"

definition read_unsigned :: "memory \<Rightarrow> nat \<Rightarrow> uintptr_t \<Rightarrow> (uint64 \<times> uintptr_t) option" where
  "read_unsigned mem n data = do { v \<leftarrow> read_le mem n data; Some (of_nat v, data + of_nat n) }"

definition read_signed :: "memory \<Rightarrow> nat \<Rightarrow> uintptr_t \<Rightarrow> (uint64 \<times> uintptr_t) option" where
  "read_signed mem n data =
     do {
       v \<leftarrow> read_le mem n data;
       Some (of_int (if 2 ^ (8 * n - 1) \<le> v then int v - 2 ^ (8 * n) else int v), data + of_nat n)
     }"

definition read_value :: "8 word \<Rightarrow> memory \<Rightarrow> uintptr_t \<Rightarrow> (uint64 \<times> uintptr_t) option" where
  "read_value encoding mem data =
     (let type = get_encoding encoding in
      if type = DW_EH_PE_udata2 then read_unsigned mem 2 data
      else if type = DW_EH_PE_udata4 then read_unsigned mem 4 data
      else if type = DW_EH_PE_udata8 then read_unsigned mem 8 data
      else if type = DW_EH_PE_sdata2 then read_signed mem 2 data
      else if type = DW_EH_PE_sdata4 then read_signed mem 4 data
      else if type = DW_EH_PE_sdata8 then read_signed mem 8 data
      else if type = DW_EH_PE_absptr then read_signed mem 8 data
      else if type = DW_EH_PE_sleb128 then read_sleb128 mem data
      else if type = DW_EH_PE_uleb128 then read_uleb128 mem data
      else None)"

definition resolve_indirect_value :: "unwind_context \<Rightarrow> memory \<Rightarrow> 8 word \<Rightarrow> uint64 \<Rightarrow> uintptr_t \<Rightarrow> uint64 option" where
  "resolve_indirect_value c mem encoding v start =
     (let base = get_base encoding;
          v1 = (if base = DW_EH_PE_pcrel then v + start
                else if base = DW_EH_PE_textrel then v + uc_text_base c
                else if base = DW_EH_PE_datarel then v + uc_data_base c
                else if base = DW_EH_PE_funcrel then v + uc_region_start c
                else v) in
      if is_indirect encoding then map_option of_nat (read_le mem 8 v1) else Some v1)"

text \<open>The value stored through \<open>out\<close>, which an omitted value leaves alone, and the new address.\<close>

definition read_value_with_encoding ::
  "unwind_context \<Rightarrow> memory \<Rightarrow> uintptr_t \<Rightarrow> uint64 \<Rightarrow> (uint64 \<times> uintptr_t) option" where
  "read_value_with_encoding context mem data out =
     do {
       encoding \<leftarrow> mem data;
       if encoding = DW_EH_PE_omit then Some (out, data + 1)
       else do {
         (v, data1) \<leftarrow> read_value encoding mem (data + 1);
         v1 \<leftarrow> resolve_indirect_value context mem encoding v data;
         Some (v1, data1)
       }
     }"

section \<open>Language-specific data\<close>

record dwarf_eh_lsda =
  region_start :: uintptr_t
  landing_pads :: uintptr_t
  type_table :: uintptr_t
  type_table_encoding :: "8 word"
  call_site_table :: uintptr_t
  action_table :: uintptr_t
  callsite_encoding :: "8 word"

definition parse_lsda :: "unwind_context \<Rightarrow> memory \<Rightarrow> uintptr_t \<Rightarrow> dwarf_eh_lsda option" where
  "parse_lsda context mem data =
     do {
       (pads, d1) \<leftarrow> read_value_with_encoding context mem data (uc_region_start context);
       tte \<leftarrow> mem d1;
       (tt, d2) \<leftarrow> (if tte \<noteq> DW_EH_PE_omit
                      then do { (v, e) \<leftarrow> read_uleb128 mem (d1 + 1); Some (e + v, e) }
                      else Some (0, d1 + 1));
       cse \<leftarrow> mem d2;
       (callsite_size, d3) \<leftarrow> read_uleb128 mem (d2 + 1);
       Some \<lparr>region_start = uc_region_start context, landing_pads = pads, type_table = tt, type_table_encoding = tte,
             call_site_table = d3, action_table = d3 + callsite_size, callsite_encoding = cse\<rparr>
     }"

record dwarf_eh_action =
  landing_pad :: uintptr_t
  action_record :: uintptr_t

definition no_action :: dwarf_eh_action where "no_action = \<lparr>landing_pad = 0, action_record = 0\<rparr>"

text \<open>The loop; an entry has at least four bytes, so the length of the table bounds the rounds.\<close>

fun find_callsite_loop :: "nat \<Rightarrow> memory \<Rightarrow> dwarf_eh_lsda \<Rightarrow> uint64 \<Rightarrow> uintptr_t \<Rightarrow> dwarf_eh_action option" where
  "find_callsite_loop 0 mem lsda ip callsite_table = None"
| "find_callsite_loop (Suc fuel) mem lsda ip callsite_table =
     (if action_table lsda < callsite_table then Some no_action
      else do {
        (call_site_start, t1) \<leftarrow> read_value (callsite_encoding lsda) mem callsite_table;
        (call_site_size, t2) \<leftarrow> read_value (callsite_encoding lsda) mem t1;
        if ip < call_site_start then Some no_action
        else do {
          (pad, t3) \<leftarrow> read_value (callsite_encoding lsda) mem t2;
          (action, t4) \<leftarrow> read_uleb128 mem t3;
          if call_site_start \<le> ip \<and> ip \<le> call_site_start + call_site_size
          then Some \<lparr>landing_pad = (if pad \<noteq> 0 then landing_pads lsda + pad else 0),
                     action_record = (if action \<noteq> 0 then action_table lsda + action - 1 else 0)\<rparr>
          else find_callsite_loop fuel mem lsda ip t4
        }
      })"

definition dwarf_eh_find_callsite :: "unwind_context \<Rightarrow> memory \<Rightarrow> dwarf_eh_lsda \<Rightarrow> dwarf_eh_action option" where
  "dwarf_eh_find_callsite context mem lsda =
     find_callsite_loop (unat (action_table lsda - call_site_table lsda) + 2) mem lsda
       (uc_ip context - uc_region_start context) (call_site_table lsda)"

end
