(* ===== verification/Objc_Dwarf_Thms.thy ===== *)
theory Objc_Dwarf_Thms
  imports Objc_Dwarf
begin

text \<open>
  The decoders of \<open>dwarf_eh.h\<close> invert the encoders of the DWARF standard, within the range in which
  the shift of a C \<open>int\<close> is defined, and the search of the call site table finds the entry that
  covers an address.
\<close>

section \<open>Bytes in memory\<close>

definition stores :: "memory \<Rightarrow> uintptr_t \<Rightarrow> 8 word list \<Rightarrow> bool" where
  "stores mem a bs \<longleftrightarrow> (\<forall>i < length bs. mem (a + of_nat i) = Some (bs ! i))"

lemma stores_Nil [simp]: "stores mem a []"
  by (simp add: stores_def)

lemma stores_Cons [simp]: "stores mem a (b # bs) \<longleftrightarrow> mem a = Some b \<and> stores mem (a + 1) bs"
proof -
  have "(\<forall>i < Suc n. P i) \<longleftrightarrow> P 0 \<and> (\<forall>i < n. P (Suc i))" for n :: nat and P by (metis less_Suc_eq_0_disj)
  then show ?thesis by (simp add: stores_def add.assoc)
qed

lemma stores_append [simp]: "stores mem a (xs @ ys) \<longleftrightarrow> stores mem a xs \<and> stores mem (a + of_nat (length xs)) ys"
  by (induction xs arbitrary: a) (simp_all add: add.assoc)

section \<open>Base-128 digits\<close>

definition digit_of :: "8 word \<Rightarrow> nat" where
  "digit_of b = unat b mod 128"

text \<open>The bytes of one number: all but the last have the high bit set.\<close>

fun leb_bytes :: "8 word list \<Rightarrow> bool" where
  "leb_bytes [] \<longleftrightarrow> False"
| "leb_bytes [b] \<longleftrightarrow> unat b < 128"
| "leb_bytes (b # c # bs) \<longleftrightarrow> 128 \<le> unat b \<and> leb_bytes (c # bs)"

fun leb_val :: "8 word list \<Rightarrow> nat" where
  "leb_val [] = 0"
| "leb_val (b # bs) = digit_of b + 128 * leb_val bs"

lemma unat_and_7f: "unat ((b :: 8 word) AND 0x7f) = digit_of b"
proof -
  have "b AND 0x7f = take_bit 7 b" by (simp add: take_bit_eq_mask mask_eq_exp_minus_1)
  then show ?thesis by (simp add: digit_of_def take_bit_eq_mod unat_mod_distrib)
qed

lemma high_bit: "(b :: 8 word) \<noteq> b AND 0x7f \<longleftrightarrow> 128 \<le> unat b"
  using unat_and_7f [of b] by (cases "unat b < 128") (auto simp: word_unat_eq_iff digit_of_def)

lemma leb128_loop_bytes:
  assumes "leb_bytes bs" "stores mem a bs" "leb_val bs * 2 ^ bits < 2 ^ 31" "bits + 7 * length bs < 39" "length bs \<le> fuel"
  shows "leb128_loop fuel mem acc bits a = Some (acc + of_nat (leb_val bs * 2 ^ bits), bits + 7 * length bs, a + of_nat (length bs))"
  using assms
proof (induction bs arbitrary: fuel acc bits a)
  case (Cons b bs)
  obtain f where f: "fuel = Suc f" using Cons.prems(5) by (cases fuel) auto
  have split: "leb_val (b # bs) * 2 ^ bits = digit_of b * 2 ^ bits + leb_val bs * 2 ^ (bits + 7)"
    by (simp add: algebra_simps power_add)
  have le: "digit_of b * 2 ^ bits < 2 ^ 31" "leb_val bs * 2 ^ (bits + 7) < 2 ^ 31" using Cons.prems(3) split by linarith+
  have sh: "int_shift_left (b AND 0x7f) bits = Some (of_nat (digit_of b * 2 ^ bits))"
    using le(1) Cons.prems(4) unfolding int_shift_left_def unat_and_7f by simp
  show ?case
  proof (cases bs)
    case Nil
    then have "\<not> b \<noteq> b AND 0x7f" using Cons.prems(1) unfolding high_bit by simp
    then show ?thesis using f sh Cons.prems(2,4) Nil by simp
  next
    case (Cons c cs)
    have hb: "b \<noteq> b AND 0x7f" using Cons.prems(1) Cons unfolding high_bit by simp
    have "leb128_loop f mem (acc + of_nat (digit_of b * 2 ^ bits)) (bits + 7) (a + 1) =
      Some (acc + of_nat (digit_of b * 2 ^ bits) + of_nat (leb_val bs * 2 ^ (bits + 7)), bits + 7 + 7 * length bs, a + 1 + of_nat (length bs))"
      by (rule Cons.IH) (use Cons.prems Cons le(2) f in auto)
    then show ?thesis using f sh hb Cons.prems(2,4) unfolding split by (simp add: add.assoc)
  qed
qed simp

section \<open>Encoders\<close>

fun uleb :: "nat \<Rightarrow> 8 word list" where
  "uleb n = (if n < 128 then [of_nat n] else of_nat (n mod 128 + 128) # uleb (n div 128))"

function sleb :: "int \<Rightarrow> 8 word list" where
  "sleb z = (if - 64 \<le> z \<and> z < 64 then [of_int (z mod 128)] else of_int (z mod 128 + 128) # sleb (z div 128))"
  by auto
termination
  by (relation "measure (\<lambda>z. nat \<bar>z\<bar>)") auto

declare uleb.simps [simp del] sleb.simps [simp del]

lemma unat_byte: "n < 256 \<Longrightarrow> unat (of_nat n :: 8 word) = n"
  by (simp add: unat_of_nat take_bit_nat_eq_self)

lemma uleb_ok: "leb_bytes (uleb n) \<and> leb_val (uleb n) = n \<and> uleb n \<noteq> [] \<and> (n < 128 ^ k \<longrightarrow> 0 < k \<longrightarrow> length (uleb n) \<le> k)"
proof (induction n arbitrary: k rule: uleb.induct)
  case (1 n)
  show ?case
  proof (cases "n < 128")
    case True
    then show ?thesis by (subst (1 2 3 4) uleb.simps) (simp add: unat_byte digit_of_def)
  next
    case False
    let ?q = "n div 128"
    have u: "uleb n = of_nat (n mod 128 + 128) # uleb ?q" using False by (subst uleb.simps) simp
    have b: "unat (of_nat (n mod 128 + 128) :: 8 word) = n mod 128 + 128" by (rule unat_byte) simp
    note IH = 1 [OF False]
    have "leb_bytes (uleb n)" unfolding u using IH b by (cases "uleb ?q") simp_all
    moreover have "leb_val (uleb n) = n" unfolding u using IH b by (simp add: digit_of_def)
    moreover have "length (uleb n) \<le> k" if k: "n < 128 ^ k" "0 < k"
    proof -
      obtain j where j: "k = Suc j" using k(2) by (cases k) auto
      have "0 < j" using False k(1) j by (cases j) auto
      moreover have "?q < 128 ^ j" using k(1) j by (simp add: less_mult_imp_div_less mult.commute)
      ultimately show ?thesis unfolding u using IH [of j] j by simp
    qed
    ultimately show ?thesis using u by simp
  qed
qed

lemma of_int_byte: "0 \<le> z \<Longrightarrow> z < 256 \<Longrightarrow> unat (of_int z :: 8 word) = nat z"
proof -
  assume z: "0 \<le> z" "z < 256"
  have "(of_int z :: 8 word) = of_nat (nat z)" using z(1) by simp
  then show ?thesis using unat_byte [of "nat z"] z by (metis nat_less_iff of_nat_numeral)
qed

lemma sleb_ok:
  "leb_bytes (sleb z) \<and> sleb z \<noteq> [] \<and> int (leb_val (sleb z)) = z mod 2 ^ (7 * length (sleb z)) \<and>
   - (2 ^ (7 * length (sleb z) - 1)) \<le> z \<and> z < 2 ^ (7 * length (sleb z) - 1) \<and>
   (- (2 ^ (7 * k - 1)) \<le> z \<longrightarrow> z < 2 ^ (7 * k - 1) \<longrightarrow> 0 < k \<longrightarrow> length (sleb z) \<le> k)"
proof (induction z arbitrary: k rule: sleb.induct)
  case (1 z)
  show ?case
  proof (cases "- 64 \<le> z \<and> z < 64")
    case True
    have s: "sleb z = [of_int (z mod 128)]" using True by (subst sleb.simps) simp
    have "unat (of_int (z mod 128) :: 8 word) = nat (z mod 128)" by (rule of_int_byte) (auto intro: less_trans [OF pos_mod_bound])
    then show ?thesis using True unfolding s by (simp add: digit_of_def nat_less_iff)
  next
    case False
    let ?q = "z div 128" and ?b = "of_int (z mod 128 + 128) :: 8 word"
    have s: "sleb z = ?b # sleb ?q" using False by (subst sleb.simps) simp
    have b: "unat ?b = nat (z mod 128 + 128)" by (rule of_int_byte) (use pos_mod_bound [of 128 z] in auto)
    have d: "int (digit_of ?b) = z mod 128" unfolding digit_of_def b
      by (simp add: nat_add_distrib zmod_int)
    note IH = 1 [OF False]
    let ?n = "length (sleb ?q)"
    obtain m where m: "?n = Suc m" using IH by (cases "sleb ?q") auto
    have "leb_bytes (sleb z)" unfolding s using IH b by (cases "sleb ?q") (simp_all add: le_nat_iff)
    moreover have "int (leb_val (sleb z)) = z mod 2 ^ (7 * length (sleb z))"
    proof -
      have "int (leb_val (sleb z)) = z mod 128 + 128 * (?q mod 2 ^ (7 * ?n))" unfolding s using IH d by simp
      also have "\<dots> = z mod (128 * 2 ^ (7 * ?n))" by (simp add: zmod_zmult2_eq)
      finally show ?thesis by (simp add: s power_add)
    qed
    moreover have "- (2 ^ (7 * length (sleb z) - 1)) \<le> z \<and> z < 2 ^ (7 * length (sleb z) - 1)"
    proof -
      have e: "(2 :: int) ^ (7 * length (sleb z) - 1) = 128 * 2 ^ (7 * ?n - 1)" by (simp add: s m power_add)
      have "- (2 ^ (7 * ?n - 1)) \<le> ?q" "?q < 2 ^ (7 * ?n - 1)" using IH by blast+
      then show ?thesis unfolding e by linarith
    qed
    moreover have "length (sleb z) \<le> k" if k: "- (2 ^ (7 * k - 1)) \<le> z" "z < 2 ^ (7 * k - 1)" "0 < k"
    proof -
      obtain j where j: "k = Suc j" using k(3) by (cases k) auto
      have "0 < j" using False k j by (cases j) auto
      then have e: "(2 :: int) ^ (7 * k - 1) = 128 * 2 ^ (7 * j - 1)" unfolding j by (cases j) (simp_all add: power_add)
      have "- (2 ^ (7 * j - 1)) \<le> ?q" "?q < 2 ^ (7 * j - 1)" using k(1,2) unfolding e by linarith+
      then show ?thesis using IH [of j] \<open>0 < j\<close> j by (simp add: s)
    qed
    ultimately show ?thesis by (simp add: s)
  qed
qed

section \<open>Reading numbers\<close>

lemma read_leb_bytes:
  assumes "leb_bytes bs" "stores mem a bs" "leb_val bs < 2 ^ 31" "length bs \<le> 5"
  shows "read_leb128 mem a = Some (of_nat (leb_val bs), 7 * length bs, a + of_nat (length bs))"
  using leb128_loop_bytes [OF assms(1,2), of 0 10 0] assms(3,4) by (simp add: read_leb128_def)

lemma read_uleb:
  assumes "n < 2 ^ 31" "stores mem a (uleb n)"
  shows "read_uleb128 mem a = Some (of_nat n, a + of_nat (length (uleb n)))"
  using read_leb_bytes [of "uleb n" mem a] uleb_ok [of n 5] assms by (simp add: read_uleb128_def)

text \<open>A number of \<open>b\<close> bits in two's complement.\<close>

definition twos :: "nat \<Rightarrow> nat \<Rightarrow> int \<Rightarrow> bool" where
  "twos b n z \<longleftrightarrow> 0 < b \<and> n < 2 ^ 31 \<and> - (2 ^ (b - 1)) \<le> z \<and> z < 2 ^ (b - 1) \<and> int n = z mod 2 ^ b"

lemma twos_cases:
  assumes "twos b n z"
  shows "int n = (if 0 \<le> z then z else z + 2 ^ b)" "(2 :: int) ^ b = 2 * 2 ^ (b - 1)"
proof -
  show pw: "(2 :: int) ^ b = 2 * 2 ^ (b - 1)" using assms by (cases b) (simp_all add: twos_def)
  have "(z + 2 ^ b) mod 2 ^ b = z + 2 ^ b" if "z < 0" using that assms pw by (intro mod_pos_pos_trivial) (auto simp: twos_def)
  then show "int n = (if 0 \<le> z then z else z + 2 ^ b)" using assms pw by (auto simp: twos_def)
qed

lemma twos_sign:
  assumes "twos b n z"
  shows "drop_bit (b - 1) (of_nat n :: uint64) = 1 \<longleftrightarrow> z < 0"
proof -
  note n = twos_cases [OF assms]
  have "n < 2 ^ 64" using assms by (simp add: twos_def)
  then have "unat (drop_bit (b - 1) (of_nat n :: uint64)) = n div 2 ^ (b - 1)"
    by (simp only: unsigned_drop_bit_eq) (simp add: unat_of_nat take_bit_nat_eq_self drop_bit_eq_div)
  moreover have "int (n div 2 ^ (b - 1)) = (if z < 0 then 1 else 0)"
  proof (cases "0 \<le> z")
    case True
    then show ?thesis using n assms by (simp add: zdiv_int twos_def)
  next
    case False
    have "int n = 2 ^ (b - 1) + (z + 2 ^ (b - 1))" "0 \<le> z + 2 ^ (b - 1)" "z + 2 ^ (b - 1) < 2 ^ (b - 1)"
      using n False assms by (auto simp: twos_def)
    then have "int n div 2 ^ (b - 1) = 1" by (intro int_div_pos_eq [of _ _ _ "z + 2 ^ (b - 1)"]) simp_all
    with False show ?thesis by (simp add: zdiv_int)
  qed
  ultimately show ?thesis by (simp add: word_unat_eq_iff split: if_splits)
qed

lemma twos_extend:
  assumes "twos b n z" "z < 0"
  shows "of_nat n OR push_bit b (- 1) = (of_int z :: uint64)"
proof -
  have "int n < int (2 ^ b)" using twos_cases(1) [OF assms(1)] assms(2) by simp
  then have "n < 2 ^ b" by (simp only: of_nat_less_iff)
  moreover have "unat (of_nat n :: uint64) = n" using assms(1) by (simp add: twos_def unat_of_nat take_bit_nat_eq_self)
  ultimately have low: "take_bit b (of_nat n :: uint64) = of_nat n"
    by (simp add: word_unat_eq_iff unsigned_take_bit_eq take_bit_nat_eq_self)
  have "\<not> bit (of_nat n :: uint64) i \<or> \<not> bit (push_bit b (- 1) :: uint64) i" for i
  proof (cases "i < b")
    case False
    then have "\<not> bit (take_bit b (of_nat n :: uint64)) i" by (simp only: bit_take_bit_iff) simp
    then show ?thesis unfolding low by simp
  qed (simp only: bit_push_bit_iff, simp)
  then have "of_nat n OR push_bit b (- 1) = of_nat n + (push_bit b (- 1) :: uint64)" by (rule disjunctive_add [symmetric])
  also have "\<dots> = of_int (int n - 2 ^ b)" by (simp add: push_bit_eq_mult)
  finally show ?thesis using twos_cases(1) [OF assms(1)] assms(2) by simp
qed

lemma read_sleb:
  assumes z: "- (2 ^ 27) \<le> z" "z < 2 ^ 31" and m: "stores mem a (sleb z)"
  shows "read_sleb128 mem a = Some (of_int z, a + of_nat (length (sleb z)))"
proof -
  let ?k = "length (sleb z)" and ?n = "leb_val (sleb z)"
  note ok = sleb_ok [of z]
  have k: "?k \<le> 5" "0 < ?k" using ok [of 5] z by simp_all
  have "z mod 2 ^ (7 * ?k) < 2 ^ 31"
  proof (cases "0 \<le> z")
    case True
    then show ?thesis using z(2) zmod_le_nonneg_dividend [of z "2 ^ (7 * ?k)"] by linarith
  next
    case False
    have "?k \<le> 4" using ok [of 4] z(1) False by simp
    then have "(2 :: int) ^ (7 * ?k) \<le> 2 ^ 28" by (intro power_increasing) auto
    moreover have "z mod 2 ^ (7 * ?k) < 2 ^ (7 * ?k)" by (rule pos_mod_bound) simp
    moreover have "(2 :: int) ^ 28 < 2 ^ 31" by simp
    ultimately show ?thesis by (meson less_le_trans less_trans)
  qed
  then have "int ?n < 2 ^ 31" using ok by metis
  then have "?n < 2 ^ 31" by simp
  then have t: "twos (7 * ?k) ?n z" unfolding twos_def using ok k(2) by simp
  have "read_leb128 mem a = Some (of_nat ?n, 7 * ?k, a + of_nat ?k)"
    by (rule read_leb_bytes) (use ok m t k in \<open>auto simp: twos_def\<close>)
  moreover have "of_nat ?n = (of_int z :: uint64)" if "\<not> z < 0" using twos_cases(1) [OF t] that by (metis not_less of_int_of_nat_eq)
  ultimately show ?thesis using twos_sign [OF t] twos_extend [OF t] by (auto simp: read_sleb128_def)
qed

section \<open>The call site table\<close>

record call_site =
  cs_start :: nat
  cs_size :: nat
  cs_pad :: nat
  cs_action :: nat

text \<open>Tables as compilers write them: every field in the unsigned encoding, all of them small.\<close>

definition small_site :: "call_site \<Rightarrow> bool" where
  "small_site e \<longleftrightarrow> cs_start e < 2 ^ 31 \<and> cs_size e < 2 ^ 31 \<and> cs_pad e < 2 ^ 31 \<and> cs_action e < 2 ^ 31"

definition site_bytes :: "call_site \<Rightarrow> 8 word list" where
  "site_bytes e = uleb (cs_start e) @ uleb (cs_size e) @ uleb (cs_pad e) @ uleb (cs_action e)"

definition covers :: "nat \<Rightarrow> call_site \<Rightarrow> bool" where
  "covers ip e \<longleftrightarrow> cs_start e \<le> ip \<and> ip \<le> cs_start e + cs_size e"

definition action_of :: "dwarf_eh_lsda \<Rightarrow> call_site \<Rightarrow> dwarf_eh_action" where
  "action_of lsda e =
     \<lparr>landing_pad = (if cs_pad e = 0 then 0 else landing_pads lsda + of_nat (cs_pad e)),
      action_record = (if cs_action e = 0 then 0 else action_table lsda + of_nat (cs_action e - 1))\<rparr>"

lemma unat_of_nat_64: "n < 2 ^ 64 \<Longrightarrow> unat (of_nat n :: uint64) = n"
  by (simp add: unat_of_nat take_bit_nat_eq_self)

lemma read_value_uleb: "get_encoding enc = DW_EH_PE_uleb128 \<Longrightarrow> read_value enc mem a = read_uleb128 mem a"
  by (simp add: read_value_def DW_EH_PE_uleb128_def DW_EH_PE_udata2_def DW_EH_PE_udata4_def DW_EH_PE_udata8_def
      DW_EH_PE_sdata2_def DW_EH_PE_sdata4_def DW_EH_PE_sdata8_def DW_EH_PE_absptr_def DW_EH_PE_sleb128_def)

lemma site_length: "4 \<le> length (site_bytes e)"
proof -
  have "0 < length (uleb n)" for n using uleb_ok [of n] by simp
  then have "1 \<le> length (uleb n)" for n by (simp add: Suc_le_eq)
  from this [of "cs_start e"] this [of "cs_size e"] this [of "cs_pad e"] this [of "cs_action e"] show ?thesis
    by (simp add: site_bytes_def)
qed

text \<open>One round of the search, at an entry.\<close>

lemma search_round:
  assumes enc: "get_encoding (callsite_encoding lsda) = DW_EH_PE_uleb128" and small: "small_site e" "ip < 2 ^ 63"
    and mem: "stores mem a (site_bytes e)" and inside: "a \<le> action_table lsda"
  shows "find_callsite_loop (Suc fuel) mem lsda (of_nat ip) a =
    (if ip < cs_start e then Some no_action
     else if covers ip e then Some (action_of lsda e)
     else find_callsite_loop fuel mem lsda (of_nat ip) (a + of_nat (length (site_bytes e))))"
proof -
  let ?a1 = "a + of_nat (length (uleb (cs_start e)))"
  let ?a2 = "?a1 + of_nat (length (uleb (cs_size e)))"
  let ?a3 = "?a2 + of_nat (length (uleb (cs_pad e)))"
  let ?a4 = "?a3 + of_nat (length (uleb (cs_action e)))"
  have r: "read_uleb128 mem a = Some (of_nat (cs_start e), ?a1)" "read_uleb128 mem ?a1 = Some (of_nat (cs_size e), ?a2)"
    "read_uleb128 mem ?a2 = Some (of_nat (cs_pad e), ?a3)" "read_uleb128 mem ?a3 = Some (of_nat (cs_action e), ?a4)"
    using mem small by (auto simp: site_bytes_def small_site_def intro!: read_uleb)
  have u: "unat (of_nat n :: uint64) = n" if "n < 2 ^ 64" for n using unat_of_nat_64 [OF that] .
  have lt: "(of_nat ip :: uint64) < of_nat (cs_start e) \<longleftrightarrow> ip < cs_start e"
    using small u by (simp add: word_less_nat_alt small_site_def)
  have cov: "of_nat (cs_start e) \<le> (of_nat ip :: uint64) \<and> of_nat ip \<le> (of_nat (cs_start e) + of_nat (cs_size e) :: uint64) \<longleftrightarrow> covers ip e"
    using small u [of "cs_start e + cs_size e"] u [of ip] u [of "cs_start e"] by (simp add: word_le_nat_alt small_site_def covers_def)
  have z: "(of_nat n :: uint64) = 0 \<longleftrightarrow> n = 0" if "n < 2 ^ 31" for n
    using u [of n] that by (auto simp: word_unat_eq_iff)
  have act: "action_table lsda + of_nat n - 1 = action_table lsda + of_nat (n - 1)" if "n \<noteq> 0" for n
    using that by (cases n) (simp_all add: add.commute)
  have len: "?a4 = a + of_nat (length (site_bytes e))" by (simp add: site_bytes_def add.assoc)
  have out: "\<lparr>landing_pad = (if (of_nat (cs_pad e) :: uint64) \<noteq> 0 then landing_pads lsda + of_nat (cs_pad e) else 0),
      action_record = (if (of_nat (cs_action e) :: uint64) \<noteq> 0 then action_table lsda + of_nat (cs_action e) - 1 else 0)\<rparr> = action_of lsda e"
    using small act [of "cs_action e"] z [of "cs_pad e"] z [of "cs_action e"] by (simp add: action_of_def small_site_def)
  have "\<not> action_table lsda < a" using inside by simp
  then show ?thesis
    unfolding find_callsite_loop.simps read_value_uleb [OF enc] r Option.bind.bind_lunit prod.case lt cov out len by simp
qed

definition table_bytes :: "call_site list \<Rightarrow> 8 word list" where
  "table_bytes es = concat (map site_bytes es)"

lemma search_table:
  assumes enc: "get_encoding (callsite_encoding lsda) = DW_EH_PE_uleb128" and ip: "ip < 2 ^ 63"
    and "\<forall>e \<in> set es. small_site e" "sorted (map cs_start es)" "\<exists>e \<in> set es. ip < cs_start e \<or> covers ip e"
    and "stores mem a (table_bytes es)" "unat a + length (table_bytes es) \<le> unat (action_table lsda)" "length es \<le> fuel"
  shows "find_callsite_loop fuel mem lsda (of_nat ip) a =
    Some (case find (covers ip) es of None \<Rightarrow> no_action | Some e \<Rightarrow> action_of lsda e)"
  using assms(3-)
proof (induction es arbitrary: a fuel)
  case (Cons e es)
  obtain f where f: "fuel = Suc f" using Cons.prems(6) by (cases fuel) auto
  have tb: "table_bytes (e # es) = site_bytes e @ table_bytes es" by (simp add: table_bytes_def)
  have "a \<le> action_table lsda" using Cons.prems(5) by (simp add: word_le_nat_alt)
  from search_round [OF enc _ ip _ this, of e mem f] Cons.prems(1,4) tb
  have round: "find_callsite_loop fuel mem lsda (of_nat ip) a =
    (if ip < cs_start e then Some no_action else if covers ip e then Some (action_of lsda e)
     else find_callsite_loop f mem lsda (of_nat ip) (a + of_nat (length (site_bytes e))))" by (simp add: f)
  show ?case
  proof (cases "ip < cs_start e")
    case True
    have "\<not> covers ip x" if "x \<in> set (e # es)" for x using that True Cons.prems(2) by (auto simp: covers_def)
    then have "find (covers ip) (e # es) = None" by (simp add: find_None_iff)
    then show ?thesis using round True by simp
  next
    case before: False
    show ?thesis
    proof (cases "covers ip e")
      case True
      then show ?thesis using round before by simp
    next
      case False
      have n: "unat (a + of_nat (length (site_bytes e))) = unat a + length (site_bytes e)"
      proof -
        have "unat a + length (site_bytes e) \<le> unat (action_table lsda)" using Cons.prems(5) tb by simp
        also have "\<dots> < 2 ^ LENGTH(64)" by (rule unsigned_less)
        finally have "unat a + length (site_bytes e) < 2 ^ 64" by simp
        then show ?thesis by (simp add: unat_word_ariths unat_of_nat_64)
      qed
      have "find_callsite_loop f mem lsda (of_nat ip) (a + of_nat (length (site_bytes e))) =
        Some (case find (covers ip) es of None \<Rightarrow> no_action | Some e \<Rightarrow> action_of lsda e)"
        by (rule Cons.IH) (use Cons.prems before False tb n f in auto)
      then show ?thesis using round before False by simp
    qed
  qed
qed simp

section \<open>Numbers that cannot be read\<close>

lemma shift_defined: "bits \<le> 24 \<Longrightarrow> \<exists>v. int_shift_left (b AND 0x7f) bits = Some v"
proof -
  assume "bits \<le> 24"
  then have "(2 :: nat) ^ bits \<le> 2 ^ 24" by (rule power_increasing) simp
  then have "digit_of b * 2 ^ bits < 128 * 2 ^ 24" by (intro mult_less_le_imp_less) (simp_all add: digit_of_def)
  then show ?thesis unfolding int_shift_left_def unat_and_7f using \<open>bits \<le> 24\<close> by simp
qed

lemma shift_overflow: "8 \<le> digit_of b \<Longrightarrow> int_shift_left (b AND 0x7f) 28 = None"
  unfolding int_shift_left_def unat_and_7f by simp

lemma loop_more:
  assumes "mem a = Some b" "b \<noteq> b AND 0x7f" "int_shift_left (b AND 0x7f) bits = Some v" "bits < 64"
  shows "leb128_loop (Suc f) mem acc bits a = leb128_loop f mem (acc + v) (bits + 7) (a + 1)"
  using assms by simp

lemma fifth_digit_overflow:
  assumes "stores mem a [b0, b1, b2, b3, b4]" "128 \<le> unat b0" "128 \<le> unat b1" "128 \<le> unat b2" "128 \<le> unat b3" "8 \<le> digit_of b4"
  shows "read_leb128 mem a = None"
proof -
  have hb: "b0 \<noteq> b0 AND 0x7f" "b1 \<noteq> b1 AND 0x7f" "b2 \<noteq> b2 AND 0x7f" "b3 \<noteq> b3 AND 0x7f"
    using assms(2-5) by (simp_all only: high_bit)
  obtain v0 v1 v2 v3 where v: "int_shift_left (b0 AND 0x7f) 0 = Some v0" "int_shift_left (b1 AND 0x7f) 7 = Some v1"
    "int_shift_left (b2 AND 0x7f) 14 = Some v2" "int_shift_left (b3 AND 0x7f) 21 = Some v3"
    using shift_defined [of 0 b0] shift_defined [of 7 b1] shift_defined [of 14 b2] shift_defined [of 21 b3] by auto
  have m: "mem a = Some b0" "mem (a + 1) = Some b1" "mem (a + 2) = Some b2" "mem (a + 3) = Some b3" "mem (a + 4) = Some b4"
    using assms(1) by (simp_all add: ac_simps)
  have "leb128_loop 10 mem 0 0 a = leb128_loop 9 mem v0 7 (a + 1)" using loop_more [of mem a, OF m(1) hb(1) v(1), where f = 9 and acc = 0] by simp
  also have "\<dots> = leb128_loop 8 mem (v0 + v1) 14 (a + 2)" using loop_more [of mem "a + 1", OF m(2) hb(2) v(2), where f = 8 and acc = v0] by (simp add: ac_simps)
  also have "\<dots> = leb128_loop 7 mem (v0 + v1 + v2) 21 (a + 3)" using loop_more [of mem "a + 2", OF m(3) hb(3) v(3), where f = 7 and acc = "v0 + v1"] by (simp add: ac_simps)
  also have "\<dots> = leb128_loop (Suc 5) mem (v0 + v1 + v2 + v3) 28 (a + 4)"
    using loop_more [of mem "a + 3", OF m(4) hb(4) v(4), where f = 6 and acc = "v0 + v1 + v2"] by (simp add: ac_simps)
  also have "\<dots> = None" using m(5) shift_overflow [OF assms(6)] by (simp only: leb128_loop.simps) simp
  finally show ?thesis by (simp add: read_leb128_def)
qed

section \<open>Properties\<close>

text \<open>
  C39: Reading a number inverts the encoding of the DWARF standard, and leaves the address after
  it: unsigned numbers below \<open>2 ^ 31\<close> and signed ones from \<open>- 2 ^ 27\<close> on. Beyond that the shift
  of the digit, a C \<open>int\<close>, overflows: the next number in either direction cannot be read.
\<close>

theorem leb128_roundtrip:
  "(n < 2 ^ 31 \<longrightarrow> stores mem a (uleb n) \<longrightarrow> read_uleb128 mem a = Some (of_nat n, a + of_nat (length (uleb n)))) \<and>
   (- (2 ^ 27) \<le> z \<longrightarrow> z < 2 ^ 31 \<longrightarrow> stores mem a (sleb z) \<longrightarrow>
      read_sleb128 mem a = Some (of_int z, a + of_nat (length (sleb z)))) \<and>
   (stores mem a [0x80, 0x80, 0x80, 0x80, 0x08] \<longrightarrow> read_uleb128 mem a = None) \<and>
   (stores mem a [0xff, 0xff, 0xff, 0xbf, 0x7f] \<longrightarrow> read_sleb128 mem a = None)"
proof (intro conjI impI)
  show "read_uleb128 mem a = None" if "stores mem a [0x80, 0x80, 0x80, 0x80, 0x08]"
    using fifth_digit_overflow [OF that] by (simp add: read_uleb128_def digit_of_def)
  show "read_sleb128 mem a = None" if "stores mem a [0xff, 0xff, 0xff, 0xbf, 0x7f]"
    using fifth_digit_overflow [OF that] by (simp add: read_sleb128_def digit_of_def)
qed (rule read_uleb read_sleb; assumption)+

theorem leb128_roundtrip_witness:
  "uleb (2 ^ 31) = [0x80, 0x80, 0x80, 0x80, 0x08] \<and> sleb (- (2 ^ 27) - 1) = [0xff, 0xff, 0xff, 0xbf, 0x7f] \<and>
   read_sleb128 (\<lambda>p. if p = 8 then Some 0x80 else if p = 9 then Some 0x7f else None) 8 = Some (- 128, 10)"
proof -
  let ?mem = "\<lambda>p :: uintptr_t. if p = 8 then Some (0x80 :: 8 word) else if p = 9 then Some 0x7f else None"
  have "sleb (- 128) = [0x80, 0x7f]" by (simp add: sleb.simps)
  with leb128_roundtrip [of 0 ?mem 8 "- 128"] have "read_sleb128 ?mem 8 = Some (- 128, 10)" by simp
  then show ?thesis by (simp add: uleb.simps sleb.simps)
qed


text \<open>Two call sites; the address lies in the second.\<close>

definition demo_sites :: "call_site list" where
  "demo_sites = [\<lparr>cs_start = 4, cs_size = 6, cs_pad = 40, cs_action = 0\<rparr>, \<lparr>cs_start = 200, cs_size = 8, cs_pad = 60, cs_action = 3\<rparr>]"

definition demo_lsda :: dwarf_eh_lsda where
  "demo_lsda = \<lparr>region_start = 1000, landing_pads = 1000, type_table = 0, type_table_encoding = 0xff,
     call_site_table = 64, action_table = 73, callsite_encoding = 1\<rparr>"

definition demo_memory :: memory where
  "demo_memory p = (if 64 \<le> p \<and> p < 73 then Some (table_bytes demo_sites ! unat (p - 64)) else None)"

lemma demo_table: "table_bytes demo_sites = [4, 6, 40, 0, 0xc8, 1, 8, 60, 3]"
  by (simp add: table_bytes_def demo_sites_def site_bytes_def uleb.simps)


end
